(* ===== verification/Prelude.thy ===== *)
theory Prelude
  imports Complex_Main "HOL-Library.Sublist" "HOL-Library.Char_ord" "HOL-Library.List_Lexorder"
    "HOL-Library.Product_Lexorder"
begin

section \<open>Prelude: the vocabulary the components share\<close>

text \<open>
  What the components of the knowledge engine share: Python's string tests and
  slices, the four SQL statement shapes the engine sends (filtered SELECT,
  guarded UPDATE, ordered LIMIT, keyed UPSERT) on a table kept as a list of
  rows, and the generic facts about them that the component proofs use through
  the collections \<open>sql_simps\<close> (rewriting of table statements) and
  \<open>py_simps\<close> (rewriting of Python string operations).

  Times are integers: \<open>now\<close> is an argument wherever the source
  reads a clock.
\<close>

named_theorems sql_simps "rewriting of table statements"
named_theorems py_simps "rewriting of Python string and list operations"

type_synonym time = int
type_synonym 'r table = "'r list"

subsection \<open>Python strings and slices\<close>

text \<open>\<^verbatim>\<open>s.startswith(p)\<close>\<close>

fun starts_with :: "'a list \<Rightarrow> 'a list \<Rightarrow> bool" where
  "starts_with s [] = True"
| "starts_with [] (p # ps) = False"
| "starts_with (c # cs) (p # ps) = (c = p \<and> starts_with cs ps)"

text \<open>\<^verbatim>\<open>s.endswith(t)\<close>\<close>

definition ends_with :: "'a list \<Rightarrow> 'a list \<Rightarrow> bool" where
  "ends_with s t = starts_with (rev s) (rev t)"

text \<open>\<^verbatim>\<open>t in s\<close>, and PostgreSQL's \<^verbatim>\<open>strpos(s, t) > 0\<close>\<close>

fun contains :: "'a list \<Rightarrow> 'a list \<Rightarrow> bool" where
  "contains [] t = (t = [])"
| "contains (c # cs) t = (starts_with (c # cs) t \<or> contains cs t)"

text \<open>\<^verbatim>\<open>s.removeprefix(p)\<close>\<close>

definition remove_prefix :: "'a list \<Rightarrow> 'a list \<Rightarrow> 'a list" where
  "remove_prefix s p = (if starts_with s p then drop (length p) s else s)"

text \<open>\<^verbatim>\<open>right(s, n)\<close> of PostgreSQL for \<open>n\<close> at least 0: the last \<open>n\<close> characters, the whole
  string when it is shorter.\<close>

definition sql_right :: "'a list \<Rightarrow> nat \<Rightarrow> 'a list" where
  "sql_right s n = drop (length s - n) s"

text \<open>\<^verbatim>\<open>s.replace(a, b)\<close> for one-character \<open>a\<close> and \<open>b\<close>.\<close>

definition replace_char :: "'a \<Rightarrow> 'a \<Rightarrow> 'a list \<Rightarrow> 'a list" where
  "replace_char a b s = map (\<lambda>c. if c = a then b else c) s"

text \<open>\<^verbatim>\<open>xs[a:b]\<close> for \<open>a\<close> and \<open>b\<close> at least 0.\<close>

definition slice :: "'a list \<Rightarrow> nat \<Rightarrow> nat \<Rightarrow> 'a list" where
  "slice xs a b = take (b - a) (drop a xs)"

lemma starts_with_iff [py_simps]: "starts_with s p \<longleftrightarrow> (\<exists>r. s = p @ r)"
  by (induction s p rule: starts_with.induct) auto

lemma starts_with_append [simp]: "starts_with (p @ r) p"
  by (auto simp: starts_with_iff)

lemma ends_with_iff [py_simps]: "ends_with s t \<longleftrightarrow> (\<exists>r. s = r @ t)"
proof -
  have "ends_with s t \<longleftrightarrow> (\<exists>r. rev s = rev t @ r)"
    by (simp add: ends_with_def starts_with_iff)
  also have "\<dots> \<longleftrightarrow> (\<exists>r. s = r @ t)"
    by (metis rev_append rev_rev_ident)
  finally show ?thesis .
qed

lemma ends_with_append [simp]: "ends_with (r @ t) t"
  by (auto simp: ends_with_iff)

lemma contains_iff [py_simps]: "contains s t \<longleftrightarrow> (\<exists>a b. s = a @ t @ b)"
proof (induction s)
  case Nil
  then show ?case by auto
next
  case (Cons c cs)
  have "contains (c # cs) t \<longleftrightarrow> (\<exists>b. c # cs = t @ b) \<or> (\<exists>a b. cs = a @ t @ b)"
    using Cons.IH by (simp only: contains.simps starts_with_iff)
  also have "\<dots> \<longleftrightarrow> (\<exists>a b. c # cs = a @ t @ b)"
    by (metis append_Cons append_Nil list.inject neq_Nil_conv)
  finally show ?case .
qed

lemma sql_right_eq_iff [py_simps]:
  "sql_right s (length t) = t \<longleftrightarrow> ends_with s t"
proof
  assume "sql_right s (length t) = t"
  then have "s = take (length s - length t) s @ t"
    by (metis append_take_drop_id sql_right_def)
  then show "ends_with s t" by (auto simp: ends_with_iff)
next
  assume "ends_with s t"
  then show "sql_right s (length t) = t"
    by (auto simp: ends_with_iff sql_right_def)
qed

lemma length_replace_char [simp]: "length (replace_char a b s) = length s"
  by (simp add: replace_char_def)

lemma remove_prefix_changed:
  "p \<noteq> [] \<Longrightarrow> remove_prefix s p \<noteq> s \<longleftrightarrow> starts_with s p"
  by (auto simp: remove_prefix_def starts_with_iff)

text \<open>\<^verbatim>\<open>str(n)\<close> for a natural number.\<close>

fun show_nat :: "nat \<Rightarrow> string" where
  "show_nat n = (if n < 10 then [char_of (48 + n)] else show_nat (n div 10) @ [char_of (48 + n mod 10)])"

declare show_nat.simps [simp del]

subsection \<open>SQL statements on a table\<close>

text \<open>\<^verbatim>\<open>UPDATE t SET ... WHERE p\<close>: every row that satisfies the guard is rewritten.\<close>

definition sql_update :: "('r \<Rightarrow> bool) \<Rightarrow> ('r \<Rightarrow> 'r) \<Rightarrow> 'r table \<Rightarrow> 'r table" where
  "sql_update p f t = map (\<lambda>r. if p r then f r else r) t"

text \<open>\<^verbatim>\<open>... WHERE p RETURNING *\<close> after an UPDATE that sets with \<open>f\<close>: the new rows.\<close>

definition sql_returning :: "('r \<Rightarrow> bool) \<Rightarrow> ('r \<Rightarrow> 'r) \<Rightarrow> 'r table \<Rightarrow> 'r list" where
  "sql_returning p f t = map f (filter p t)"

text \<open>\<^verbatim>\<open>SELECT ... WHERE p ORDER BY k LIMIT n\<close>. Rows with equal keys keep the
  table order (SQL leaves it open; no theorem relies on it).\<close>

definition sql_select :: "('r \<Rightarrow> bool) \<Rightarrow> ('r \<Rightarrow> 'k::linorder) \<Rightarrow> nat \<Rightarrow> 'r table \<Rightarrow> 'r list" where
  "sql_select p k n t = take n (sort_key k (filter p t))"

text \<open>\<^verbatim>\<open>fetchrow\<close>: the first row of a result, or None.\<close>

definition fetchrow :: "'r list \<Rightarrow> 'r option" where
  "fetchrow rs = (case rs of [] \<Rightarrow> None | r # _ \<Rightarrow> Some r)"

lemma sql_update_Nil [simp]: "sql_update p f [] = []"
  by (simp add: sql_update_def)

lemma sql_update_Cons [simp]:
  "sql_update p f (r # t) = (if p r then f r else r) # sql_update p f t"
  by (simp add: sql_update_def)

lemma length_sql_update [simp]: "length (sql_update p f t) = length t"
  by (simp add: sql_update_def)

lemma set_sql_update [sql_simps]:
  "set (sql_update p f t) = f ` {r \<in> set t. p r} \<union> {r \<in> set t. \<not> p r}"
  by (auto simp: sql_update_def)

lemma sql_update_memE:
  assumes "r' \<in> set (sql_update p f t)"
  obtains r where "r \<in> set t" and "r' = (if p r then f r else r)"
  using assms by (auto simp: sql_update_def)

lemma map_sql_update:
  assumes "\<And>r. r \<in> set t \<Longrightarrow> p r \<Longrightarrow> g (f r) = g r"
  shows "map g (sql_update p f t) = map g t"
  using assms by (auto simp: sql_update_def)

lemma sql_update_none: "(\<And>r. r \<in> set t \<Longrightarrow> \<not> p r) \<Longrightarrow> sql_update p f t = t"
  by (induction t) auto

lemma sql_returning_empty_iff [sql_simps]:
  "sql_returning p f t = [] \<longleftrightarrow> (\<forall>r \<in> set t. \<not> p r)"
  by (auto simp: sql_returning_def filter_empty_conv)

lemma fetchrow_None [simp, sql_simps]: "fetchrow rs = None \<longleftrightarrow> rs = []"
  by (auto simp: fetchrow_def split: list.splits)

lemma fetchrow_simps [simp]: "fetchrow [] = None" "fetchrow (r # rs) = Some r"
  by (simp_all add: fetchrow_def)

lemma fetchrow_Some_mem: "fetchrow rs = Some r \<Longrightarrow> r \<in> set rs"
  by (auto simp: fetchrow_def split: list.splits)

lemma set_sql_select_subset: "r \<in> set (sql_select p k n t) \<Longrightarrow> r \<in> set t \<and> p r"
  by (auto simp: sql_select_def dest: in_set_takeD)

lemma length_sql_select: "length (sql_select p k n t) \<le> n"
  by (simp add: sql_select_def)

lemma sort_key_Nil_iff [simp]: "sort_key k xs = [] \<longleftrightarrow> xs = []"
  by (metis length_0_conv length_sort)

lemma sql_select_empty_iff [sql_simps]:
  "sql_select p k n t = [] \<longleftrightarrow> n = 0 \<or> (\<forall>r \<in> set t. \<not> p r)"
  by (auto simp: sql_select_def filter_empty_conv)

text \<open>The first row of an ordered SELECT is a least one among the rows its guard admits.\<close>

lemma fetchrow_sql_select_least:
  assumes "fetchrow (sql_select p k n t) = Some r" and "s \<in> set t" and "p s"
  shows "k r \<le> k s"
proof -
  from assms(1) obtain rs where rs: "take n (sort_key k (filter p t)) = r # rs"
    by (auto simp: fetchrow_def sql_select_def split: list.splits)
  then obtain rs' where sk: "sort_key k (filter p t) = r # rs'"
    by (metis append_Cons append_take_drop_id)
  have "s \<in> set (sort_key k (filter p t))" using assms(2,3) by simp
  moreover have "sorted (map k (r # rs'))"
    using sorted_sort_key [of k "filter p t"] by (simp only: sk)
  ultimately show ?thesis by (auto simp: sk)
qed

text \<open>The measure of a paged scan: a stronger guard that loses a row selects fewer.\<close>

lemma length_filter_strict:
  assumes "\<And>y. p y \<Longrightarrow> q y" and "x \<in> set t" and "q x" and "\<not> p x"
  shows "length (filter p t) < length (filter q t)"
proof -
  have "filter p t = filter p (filter q t)" using assms(1) by (auto intro: filter_cong)
  moreover have "length (filter p (filter q t)) < length (filter q t)"
    using assms(2-4) by (intro length_filter_less [of x]) auto
  ultimately show ?thesis by simp
qed

subsection \<open>Keyed rows\<close>

text \<open>A table whose rows carry a unique key: looking a row up, updating one row.\<close>

definition row_of :: "('r \<Rightarrow> 'k) \<Rightarrow> 'k \<Rightarrow> 'r table \<Rightarrow> 'r option" where
  "row_of key k t = find (\<lambda>r. key r = k) t"

lemma row_of_Some_iff:
  assumes "distinct (map key t)"
  shows "row_of key k t = Some r \<longleftrightarrow> r \<in> set t \<and> key r = k"
  using assms
proof (induction t)
  case Nil
  then show ?case by (simp add: row_of_def)
next
  case (Cons a t)
  then show ?case by (auto simp: row_of_def image_iff)
qed

lemma row_of_None_iff: "row_of key k t = None \<longleftrightarrow> k \<notin> key ` set t"
  by (auto simp: row_of_def find_None_iff)

lemma row_of_sql_update [sql_simps]:
  assumes "\<And>r. p r \<Longrightarrow> key (f r) = key r"
  shows "row_of key k (sql_update p f t) = map_option (\<lambda>r. if p r then f r else r) (row_of key k t)"
  using assms by (induction t) (auto simp: row_of_def)

lemma row_of_SomeD: "row_of key k t = Some r \<Longrightarrow> r \<in> set t \<and> key r = k"
  by (auto simp: row_of_def find_Some_iff)

lemma row_of_append:
  "row_of key k (xs @ ys) = (case row_of key k xs of Some x \<Rightarrow> Some x | None \<Rightarrow> row_of key k ys)"
  by (induction xs) (auto simp: row_of_def)

lemma row_of_simps [simp]:
  "row_of key k [] = None" "row_of key k (r # t) = (if key r = k then Some r else row_of key k t)"
  by (simp_all add: row_of_def)

lemma distinct_key_eq:
  "distinct (map key t) \<Longrightarrow> r \<in> set t \<Longrightarrow> s \<in> set t \<Longrightarrow> key r = key s \<Longrightarrow> r = s"
  by (auto simp: distinct_map inj_on_def)

end
