(* ===== verification/Sources.thy ===== *)
theory Sources
  imports Prelude
begin

section \<open>Sources, tenants and the connectedness gate\<close>

text \<open>
  \<^item> \<open>source_system\<close>, \<open>source_value\<close>, \<open>source_of_value\<close>, \<open>AGENT_SESSION_SOURCES\<close>:
    the enum \<^verbatim>\<open>SourceSystem\<close> of \<^verbatim>\<open>engine/shared/constants.py\<close>, its string values and
    the coercion \<^verbatim>\<open>SourceSystem(s)\<close>, which raises on an unknown string.
  \<^item> \<open>source_profile\<close>, \<open>register_source\<close>, \<open>get_source_profile\<close> and the getters: the
    registry of \<^verbatim>\<open>engine/shared/source_registry.py\<close>, a dict from source key to profile.
  \<^item> \<open>active_tenant_sql\<close>, \<open>ACTIVE_TENANTS_SQL\<close>, \<open>refusal_for\<close>: tenant status,
    \<^verbatim>\<open>engine/shared/tenant_status.py\<close>.
  \<^item> \<open>is_source_connected\<close>: the gate of \<^verbatim>\<open>engine/ingest/connectedness.py\<close>.
\<close>

subsection \<open>The source enum\<close>

datatype source_system =
    SLACK | LINEAR | GITHUB | NOTION | SENTRY | GRANOLA | CLAUDE_CODE | CODEX | PI
  | KIMI_CODE | CAPY | MANUAL_UPLOAD | CUSTOM_INGEST | CODE_GRAPH | PAGERDUTY | INCIDENT_IO

definition all_sources :: "source_system list" where
  "all_sources =
     [SLACK, LINEAR, GITHUB, NOTION, SENTRY, GRANOLA, CLAUDE_CODE, CODEX, PI, KIMI_CODE,
      CAPY, MANUAL_UPLOAD, CUSTOM_INGEST, CODE_GRAPH, PAGERDUTY, INCIDENT_IO]"

fun source_value :: "source_system \<Rightarrow> string" where
  "source_value SLACK = ''slack''"
| "source_value LINEAR = ''linear''"
| "source_value GITHUB = ''github''"
| "source_value NOTION = ''notion''"
| "source_value SENTRY = ''sentry''"
| "source_value GRANOLA = ''granola''"
| "source_value CLAUDE_CODE = ''claude_code''"
| "source_value CODEX = ''codex''"
| "source_value PI = ''pi''"
| "source_value KIMI_CODE = ''kimi_code''"
| "source_value CAPY = ''capy''"
| "source_value MANUAL_UPLOAD = ''manual_upload''"
| "source_value CUSTOM_INGEST = ''custom_ingest''"
| "source_value CODE_GRAPH = ''code_graph''"
| "source_value PAGERDUTY = ''pagerduty''"
| "source_value INCIDENT_IO = ''incident_io''"

text \<open>\<^verbatim>\<open>SourceSystem(s)\<close>: the member with that value; None is the ValueError.\<close>

definition source_of_value :: "string \<Rightarrow> source_system option" where
  "source_of_value s = find (\<lambda>x. source_value x = s) all_sources"

definition AGENT_SESSION_SOURCES :: "source_system list" where
  "AGENT_SESSION_SOURCES = [CLAUDE_CODE, CODEX, PI, KIMI_CODE, CAPY]"

lemma all_sources_complete [simp]: "s \<in> set all_sources"
  by (cases s) (simp_all add: all_sources_def)

lemma source_value_inj [simp]: "source_value a = source_value b \<longleftrightarrow> a = b"
  by (cases a; cases b) simp_all

lemma source_of_value_value [simp]: "source_of_value (source_value s) = Some s"
  by (cases s) (simp_all add: source_of_value_def all_sources_def)

lemma source_of_value_Some: "source_of_value v = Some s \<longleftrightarrow> v = source_value s"
proof
  assume "source_of_value v = Some s"
  then show "v = source_value s"
    by (auto simp: source_of_value_def find_Some_iff)
qed simp

subsection \<open>The source registry\<close>

text \<open>\<^verbatim>\<open>score_multiplier\<close> and \<^verbatim>\<open>half_life_days\<close> are finite floats that the registry only
  stores and compares; a rational number holds such a value exactly.\<close>

record source_profile =
  sp_source_key :: string
  sp_doc_type_prefix :: string
  sp_ingestion_priority :: int
  sp_score_multiplier :: rat
  sp_half_life_days :: "rat option"

definition PRIORITY_RESEARCH_CONTENT :: int where "PRIORITY_RESEARCH_CONTENT = 100"
definition PRIORITY_LIVE_INTEGRATION :: int where "PRIORITY_LIVE_INTEGRATION = 75"
definition PRIORITY_AGENT_CAPTURE :: int where "PRIORITY_AGENT_CAPTURE = 60"
definition PRIORITY_BACKGROUND :: int where "PRIORITY_BACKGROUND = 50"
definition DEFAULT_INGESTION_PRIORITY :: int where
  "DEFAULT_INGESTION_PRIORITY = PRIORITY_LIVE_INTEGRATION"

definition default_profile :: "string \<Rightarrow> source_profile" where
  "default_profile k =
     \<lparr>sp_source_key = k, sp_doc_type_prefix = ''custom.'',
      sp_ingestion_priority = DEFAULT_INGESTION_PRIORITY, sp_score_multiplier = 1,
      sp_half_life_days = None\<rparr>"

text \<open>The module's dict \<^verbatim>\<open>_registry\<close>.\<close>

type_synonym registry = "(string \<times> source_profile) list"

text \<open>\<^verbatim>\<open>d[k] = v\<close> on an insertion-ordered dict: an existing key keeps its place.\<close>

fun dict_set :: "'k \<Rightarrow> 'v \<Rightarrow> ('k \<times> 'v) list \<Rightarrow> ('k \<times> 'v) list" where
  "dict_set k v [] = [(k, v)]"
| "dict_set k v ((k', v') # d) = (if k' = k then (k, v) # d else (k', v') # dict_set k v d)"

datatype registry_error = ConflictingRegistration string

definition register_source :: "source_profile \<Rightarrow> registry \<Rightarrow> registry_error + registry" where
  "register_source p reg =
     (case map_of reg (sp_source_key p) of
        Some existing \<Rightarrow>
          if existing \<noteq> p then Inl (ConflictingRegistration (sp_source_key p))
          else Inr (dict_set (sp_source_key p) p reg)
      | None \<Rightarrow> Inr (dict_set (sp_source_key p) p reg))"

definition get_source_profile :: "registry \<Rightarrow> string \<Rightarrow> source_profile" where
  "get_source_profile reg k = (case map_of reg k of Some p \<Rightarrow> p | None \<Rightarrow> default_profile k)"

definition registered_source_keys :: "registry \<Rightarrow> string list" where
  "registered_source_keys reg = sort (map fst reg)"

definition is_registered :: "registry \<Rightarrow> string \<Rightarrow> bool" where
  "is_registered reg k = (k \<in> set (map fst reg))"

definition doc_type_prefix_for :: "registry \<Rightarrow> string \<Rightarrow> string" where
  "doc_type_prefix_for reg k = sp_doc_type_prefix (get_source_profile reg k)"

definition ingestion_priority_for :: "registry \<Rightarrow> string \<Rightarrow> int" where
  "ingestion_priority_for reg k = sp_ingestion_priority (get_source_profile reg k)"

definition score_multiplier_for :: "registry \<Rightarrow> string \<Rightarrow> rat" where
  "score_multiplier_for reg k = sp_score_multiplier (get_source_profile reg k)"

definition half_life_days_for :: "registry \<Rightarrow> string \<Rightarrow> rat \<Rightarrow> rat" where
  "half_life_days_for reg k baseline =
     (case sp_half_life_days (get_source_profile reg k) of Some h \<Rightarrow> h | None \<Rightarrow> baseline)"

lemma map_of_dict_set [simp]: "map_of (dict_set k v d) = (map_of d)(k \<mapsto> v)"
  by (induction k v d rule: dict_set.induct) auto

lemma keys_dict_set [simp]: "fst ` set (dict_set k v d) = insert k (fst ` set d)"
  by (induction k v d rule: dict_set.induct) auto

lemma set_dict_set_subset: "set (dict_set k v d) \<subseteq> insert (k, v) (set d)"
  by (induction k v d rule: dict_set.induct) auto

lemma distinct_dict_set: "distinct (map fst d) \<Longrightarrow> distinct (map fst (dict_set k v d))"
proof (induction k v d rule: dict_set.induct)
  case (2 k v k' v' d)
  have "fst ` set (dict_set k v d) = insert k (fst ` set d)"
    by (induction k v d rule: dict_set.induct) auto
  with 2 show ?case by auto
qed simp

lemma dict_set_same: "map_of d k = Some v \<Longrightarrow> dict_set k v d = d"
  by (induction k v d rule: dict_set.induct) (auto split: if_splits)

subsection \<open>Tenants\<close>

definition ACTIVE :: string where "ACTIVE = ''active''"

text \<open>The tables this theory reads: \<^verbatim>\<open>customers\<close> (id and status), \<^verbatim>\<open>integration_tokens\<close>
  (customer, source value, status) and \<^verbatim>\<open>github_source_gates\<close> (customer,
  \<^verbatim>\<open>purge_in_progress\<close>).\<close>

record tenant_db =
  customers :: "(string \<times> string) list"
  integration_tokens :: "((string \<times> string) \<times> string) list"
  github_source_gates :: "(string \<times> bool) list"

definition active_tenant_sql :: "'a tenant_db_scheme \<Rightarrow> string \<Rightarrow> bool" where
  "active_tenant_sql db c = (\<exists>r \<in> set (customers db). fst r = c \<and> snd r = ACTIVE)"

definition ACTIVE_TENANTS_SQL :: "'a tenant_db_scheme \<Rightarrow> string list" where
  "ACTIVE_TENANTS_SQL db = sort (map fst (filter (\<lambda>r. snd r = ACTIVE) (customers db)))"

text \<open>The 409 body: its reason and the tenant's status.\<close>

definition refusal_for :: "'a tenant_db_scheme \<Rightarrow> string \<Rightarrow> (string \<times> string) option" where
  "refusal_for db c =
     (case map_of (customers db) c of
        None \<Rightarrow> None
      | Some s \<Rightarrow> if s = ACTIVE then None else Some (''tenant_not_active'', s))"

subsection \<open>The connectedness gate\<close>

definition OAUTH_SOURCES :: "source_system list" where
  "OAUTH_SOURCES = [SLACK, LINEAR, GITHUB, NOTION, SENTRY, GRANOLA]"

definition UNGATED_SOURCES :: "source_system list" where
  "UNGATED_SOURCES =
     [CLAUDE_CODE, CODEX, PI, KIMI_CODE, CAPY, MANUAL_UPLOAD, CUSTOM_INGEST, CODE_GRAPH,
      PAGERDUTY, INCIDENT_IO]"

text \<open>\<^verbatim>\<open>fetchval\<close> of the token status; None when there is no row.\<close>

definition token_status :: "'a tenant_db_scheme \<Rightarrow> string \<Rightarrow> source_system \<Rightarrow> string option" where
  "token_status db c s = map_of (integration_tokens db) (c, source_value s)"

definition is_source_connected :: "'a tenant_db_scheme \<Rightarrow> string \<Rightarrow> source_system \<Rightarrow> bool" where
  "is_source_connected db c s =
     (if s \<notin> set OAUTH_SOURCES then True
      else if s = GITHUB then
        (if map_of (github_source_gates db) c = Some True then False
         else token_status db c s = Some ACTIVE)
      else token_status db c s = Some ACTIVE)"

lemma sources_classified:
  "set OAUTH_SOURCES \<union> set UNGATED_SOURCES = UNIV \<and> set OAUTH_SOURCES \<inter> set UNGATED_SOURCES = {}"
proof -
  have "s \<in> set OAUTH_SOURCES \<longleftrightarrow> s \<notin> set UNGATED_SOURCES" for s
    by (cases s) (simp_all add: OAUTH_SOURCES_def UNGATED_SOURCES_def)
  then show ?thesis by auto
qed

lemma agent_sources_ungated: "s \<in> set AGENT_SESSION_SOURCES \<Longrightarrow> is_source_connected db c s"
  by (auto simp: AGENT_SESSION_SOURCES_def is_source_connected_def OAUTH_SOURCES_def)

end
