(* ===== verification/Queue.thy ===== *)
theory Queue
  imports Sources
begin

section \<open>The ingestion queue\<close>

text \<open>
  The table \<^verbatim>\<open>ingestion_queue\<close> (\<^verbatim>\<open>db/schema.sql\<close>) and every statement the engine sends it:
  \<^item> enqueue: \<open>insert_do_nothing\<close>, \<open>upsert_session\<close>, \<open>enqueue\<close> (\<^verbatim>\<open>kb/ingestion_app._enqueue\<close>),
    \<open>enqueue_agent\<close> (\<^verbatim>\<open>kb/session_receipts._enqueue_agent\<close>), \<open>retire_and_reenqueue\<close>
    (\<^verbatim>\<open>engine/ingest/custom_ingest_routes.py\<close>), \<open>put_and_enqueue\<close>
    (\<^verbatim>\<open>kb/code_graph/bridge.py\<close>);
  \<^item> claim: \<open>claim_one\<close>, \<open>claim_batch\<close> (\<^verbatim>\<open>engine/ingest/worker.py\<close>);
  \<^item> while a row is worked: \<open>heartbeat\<close>, \<open>record_extraction_outcome\<close>;
  \<^item> finish: \<open>cas_done\<close>, \<open>cas_skipped\<close>, \<open>on_error\<close>, \<open>release_row\<close>;
  \<^item> repair: \<open>reclaim_once\<close>, \<open>cron_reclaim\<close>, \<open>replay_dlq\<close>;
  \<^item> \<open>sample_once\<close>, the backlog sample of \<^verbatim>\<open>engine/ingest/queue_age.py\<close>.

  A table is a list of rows in insertion order. \<^verbatim>\<open>BIGSERIAL\<close> is the counter \<open>q_next\<close>; as in
  PostgreSQL an INSERT draws a value even when ON CONFLICT then discards the row. A statement
  that skips rows locked by other transactions (FOR UPDATE SKIP LOCKED) takes the locked ids
  as an argument. Log calls are left out.

  The interface \<open>queue_writer\<close> states what every statement promises about a row it leaves in
  the table (\<open>evolves\<close>: a row keeps its identity, its version never goes back, and its payload
  keys only grow, never without a new version); it is interpreted on each statement.
\<close>

subsection \<open>Rows\<close>

text \<open>\<open>OTHER_STATUS\<close> stands for the \<^verbatim>\<open>v2_*\<close> statuses the GitHub control plane keeps in the same
  column.\<close>

datatype queue_status = PENDING | PROCESSING | DONE | DLQ | OTHER_STATUS string

text \<open>The members of the JSON object \<^verbatim>\<open>extraction_outcome\<close> that the queue statements read; None
  is an absent member.\<close>

record extraction_outcome =
  eo_authoritative :: "bool option"
  eo_reason :: "string option"
  eo_keys :: "int option"
  eo_retries :: "int option"

record queue_row =
  q_id :: int
  q_customer :: string
  q_source :: string
  q_event :: string
  q_payload_key :: "string option"
  q_keys :: "string list"
  q_status :: queue_status
  q_attempts :: int
  q_error :: "string option"
  q_priority :: int
  q_version :: int
  q_enqueued_at :: time
  q_first_enqueued_at :: time
  q_started_at :: "time option"
  q_heartbeat_at :: "time option"
  q_completed_at :: "time option"
  q_outcome :: "extraction_outcome option"

record queue_db = tenant_db +
  q_rows :: "queue_row table"
  q_next :: int

definition new_queue_row ::
  "int \<Rightarrow> string \<Rightarrow> string \<Rightarrow> string \<Rightarrow> string \<Rightarrow> int \<Rightarrow> int \<Rightarrow> time \<Rightarrow> queue_row" where
  "new_queue_row qid c src ev key prio ver now =
     \<lparr>q_id = qid, q_customer = c, q_source = src, q_event = ev, q_payload_key = Some key,
      q_keys = [key], q_status = PENDING, q_attempts = 0, q_error = None, q_priority = prio,
      q_version = ver, q_enqueued_at = now, q_first_enqueued_at = now, q_started_at = None,
      q_heartbeat_at = None, q_completed_at = None, q_outcome = None\<rparr>"

text \<open>The unique key (customer, source, event).\<close>

definition q_key :: "queue_row \<Rightarrow> string \<times> string \<times> string" where
  "q_key r = (q_customer r, q_source r, q_event r)"

definition update_rows ::
  "(queue_row \<Rightarrow> bool) \<Rightarrow> (queue_row \<Rightarrow> queue_row) \<Rightarrow> 'a queue_db_scheme \<Rightarrow> 'a queue_db_scheme" where
  "update_rows p f db = db\<lparr>q_rows := sql_update p f (q_rows db)\<rparr>"

definition add_row :: "queue_row \<Rightarrow> 'a queue_db_scheme \<Rightarrow> 'a queue_db_scheme" where
  "add_row r db = db\<lparr>q_rows := q_rows db @ [r], q_next := q_next db + 1\<rparr>"

subsection \<open>Enqueue\<close>

text \<open>\<^verbatim>\<open>INSERT ... ON CONFLICT DO NOTHING RETURNING queue_id\<close>: None is the swallowed conflict.\<close>

definition insert_do_nothing ::
  "string \<Rightarrow> string \<Rightarrow> string \<Rightarrow> string \<Rightarrow> int \<Rightarrow> time \<Rightarrow> 'a queue_db_scheme
   \<Rightarrow> 'a queue_db_scheme \<times> int option" where
  "insert_do_nothing c src ev key prio now db =
     (if (c, src, ev) \<in> q_key ` set (q_rows db)
      then (db\<lparr>q_next := q_next db + 1\<rparr>, None)
      else (add_row (new_queue_row (q_next db) c src ev key prio 0 now) db, Some (q_next db)))"

text \<open>The DO UPDATE of the session UPSERT of \<^verbatim>\<open>_enqueue\<close>.\<close>

definition extend_session :: "string \<Rightarrow> int \<Rightarrow> time \<Rightarrow> queue_row \<Rightarrow> queue_row" where
  "extend_session key prio now r =
     r\<lparr>q_keys := q_keys r @ [key],
       q_priority := prio,
       q_status := (if q_status r = PROCESSING then q_status r else PENDING),
       q_version := q_version r + 1,
       q_completed_at := None,
       q_error := None,
       q_first_enqueued_at :=
         (if q_status r = PENDING \<or> q_status r = PROCESSING then q_first_enqueued_at r else now),
       q_enqueued_at := now\<rparr>"

definition upsert_session ::
  "string \<Rightarrow> string \<Rightarrow> string \<Rightarrow> string \<Rightarrow> int \<Rightarrow> time \<Rightarrow> 'a queue_db_scheme \<Rightarrow> 'a queue_db_scheme" where
  "upsert_session c src ev key prio now db =
     (if (c, src, ev) \<in> q_key ` set (q_rows db)
      then (update_rows (\<lambda>r. q_key r = (c, src, ev)) (extend_session key prio now) db)
             \<lparr>q_next := q_next db + 1\<rparr>
      else add_row (new_queue_row (q_next db) c src ev key prio 1 now) db)"

definition COALESCING_AGENT_SOURCES :: "source_system list" where
  "COALESCING_AGENT_SOURCES = [CLAUDE_CODE, CODEX, PI, KIMI_CODE, CAPY]"

text \<open>\<^verbatim>\<open>_enqueue\<close>: the flag says whether the payload was accepted.\<close>

definition enqueue ::
  "registry \<Rightarrow> string \<Rightarrow> source_system \<Rightarrow> string \<Rightarrow> string \<Rightarrow> time \<Rightarrow> 'a queue_db_scheme
   \<Rightarrow> 'a queue_db_scheme \<times> bool" where
  "enqueue reg c s ev key now db =
     (if \<not> is_source_connected db c s then (db, False)
      else let prio = ingestion_priority_for reg (source_value s) in
        if s \<in> set COALESCING_AGENT_SOURCES
        then (upsert_session c (source_value s) ev key prio now db, True)
        else let (db', row) = insert_do_nothing c (source_value s) ev key prio now db
             in (db', row \<noteq> None))"

text \<open>The DO UPDATE of \<^verbatim>\<open>_enqueue_agent\<close>: unlike \<open>extend_session\<close> it sets no priority.\<close>

definition extend_agent :: "string \<Rightarrow> time \<Rightarrow> queue_row \<Rightarrow> queue_row" where
  "extend_agent key now r =
     r\<lparr>q_keys := q_keys r @ [key],
       q_status := (if q_status r = PROCESSING then PROCESSING else PENDING),
       q_first_enqueued_at :=
         (if q_status r = PENDING \<or> q_status r = PROCESSING then q_first_enqueued_at r else now),
       q_version := q_version r + 1,
       q_completed_at := None,
       q_error := None,
       q_enqueued_at := now\<rparr>"

definition enqueue_agent ::
  "registry \<Rightarrow> string \<Rightarrow> source_system \<Rightarrow> string \<Rightarrow> string \<Rightarrow> time \<Rightarrow> 'a queue_db_scheme
   \<Rightarrow> 'a queue_db_scheme" where
  "enqueue_agent reg c s sid key now db =
     (if (c, source_value s, sid) \<in> q_key ` set (q_rows db)
      then (update_rows (\<lambda>r. q_key r = (c, source_value s, sid)) (extend_agent key now) db)
             \<lparr>q_next := q_next db + 1\<rparr>
      else add_row
             (new_queue_row (q_next db) c (source_value s) sid key
                (ingestion_priority_for reg (source_value s)) 1 now) db)"

text \<open>\<^verbatim>\<open>_retire_and_reenqueue\<close>: DELETE a terminal dedupe row, then INSERT a fresh one.\<close>

definition retire_and_reenqueue ::
  "string \<Rightarrow> string \<Rightarrow> string \<Rightarrow> int \<Rightarrow> time \<Rightarrow> 'a queue_db_scheme \<Rightarrow> 'a queue_db_scheme \<times> bool" where
  "retire_and_reenqueue c ev key prio now db =
     (let hit = (\<lambda>r. q_key r = (c, source_value CUSTOM_INGEST, ev)
                     \<and> (q_status r = DONE \<or> q_status r = DLQ));
          db1 = db\<lparr>q_rows := filter (\<lambda>r. \<not> hit r) (q_rows db)\<rparr>
      in if fetchrow (filter hit (q_rows db)) = None then (db, False)
         else let (db2, row) =
                    insert_do_nothing c (source_value CUSTOM_INGEST) ev key prio now db1
              in (db2, row \<noteq> None))"

text \<open>The live version of a custom-ingest document: its \<^verbatim>\<open>deleted_at\<close> and stamped content hash.
  \<^verbatim>\<open>_live_state_matches\<close> on the row its SELECT found.\<close>

definition live_state_matches ::
  "(time option \<times> string option) option \<Rightarrow> bool \<Rightarrow> string \<Rightarrow> bool" where
  "live_state_matches live doc_deleted content_hash =
     (if doc_deleted then (case live of None \<Rightarrow> True | Some (del, _) \<Rightarrow> del \<noteq> None)
      else (case live of None \<Rightarrow> False
            | Some (del, h) \<Rightarrow> del = None \<and> h = Some content_hash))"

definition enqueue_custom_document ::
  "registry \<Rightarrow> string \<Rightarrow> (time option \<times> string option) option \<Rightarrow> bool \<Rightarrow> string \<Rightarrow> string \<Rightarrow> string
   \<Rightarrow> time \<Rightarrow> 'a queue_db_scheme \<Rightarrow> 'a queue_db_scheme \<times> bool" where
  "enqueue_custom_document reg c live doc_deleted content_hash ev key now db =
     (let prio = ingestion_priority_for reg (source_value CUSTOM_INGEST);
          (db1, row) = insert_do_nothing c (source_value CUSTOM_INGEST) ev key prio now db
      in if row \<noteq> None then (db1, True)
         else if live_state_matches live doc_deleted content_hash then (db1, False)
         else retire_and_reenqueue c ev key prio now db1)"

text \<open>The queue half of \<^verbatim>\<open>_put_and_enqueue\<close> (its object key is an argument).\<close>

definition put_and_enqueue ::
  "registry \<Rightarrow> string \<Rightarrow> string \<Rightarrow> string \<Rightarrow> time \<Rightarrow> 'a queue_db_scheme
   \<Rightarrow> 'a queue_db_scheme \<times> bool" where
  "put_and_enqueue reg c ev key now db =
     (let prio = ingestion_priority_for reg (source_value CODE_GRAPH);
          (db', row) = insert_do_nothing c (source_value CODE_GRAPH) ev key prio now db
      in (db', row \<noteq> None))"

subsection \<open>Claim\<close>

text \<open>The CTE \<^verbatim>\<open>inflight\<close>, with \<^verbatim>\<open>COALESCE(cnt, 0)\<close>.\<close>

definition inflight :: "'a queue_db_scheme \<Rightarrow> string \<Rightarrow> int \<Rightarrow> nat" where
  "inflight db c prio =
     length (filter (\<lambda>r. q_status r = PROCESSING \<and> q_customer r = c \<and> q_priority r = prio)
                    (q_rows db))"

definition claimable :: "nat \<Rightarrow> 'a queue_db_scheme \<Rightarrow> queue_row \<Rightarrow> bool" where
  "claimable cap db r \<longleftrightarrow>
     q_status r = PENDING \<and> inflight db (q_customer r) (q_priority r) < cap
     \<and> active_tenant_sql db (q_customer r)"

text \<open>\<^verbatim>\<open>ORDER BY priority DESC, enqueued_at\<close>\<close>

definition claim_order :: "queue_row \<Rightarrow> int \<times> time" where
  "claim_order r = (- q_priority r, q_enqueued_at r)"

definition set_claimed :: "time \<Rightarrow> queue_row \<Rightarrow> queue_row" where
  "set_claimed now r =
     r\<lparr>q_status := PROCESSING, q_started_at := Some now, q_heartbeat_at := Some now,
       q_attempts := q_attempts r + 1\<rparr>"

text \<open>\<open>claim_one\<close> returns the row as it was selected, before the UPDATE.\<close>

definition claim_one ::
  "nat \<Rightarrow> int list \<Rightarrow> time \<Rightarrow> 'a queue_db_scheme \<Rightarrow> 'a queue_db_scheme \<times> queue_row option" where
  "claim_one cap locked now db =
     (case fetchrow (sql_select (\<lambda>r. claimable cap db r \<and> q_id r \<notin> set locked) claim_order 1
                       (q_rows db)) of
        None \<Rightarrow> (db, None)
      | Some row \<Rightarrow> (update_rows (\<lambda>r. q_id r = q_id row) (set_claimed now) db, Some row))"

definition claim_batch ::
  "nat \<Rightarrow> nat \<Rightarrow> int list \<Rightarrow> time \<Rightarrow> 'a queue_db_scheme \<Rightarrow> 'a queue_db_scheme \<times> queue_row list" where
  "claim_batch cap coalesce_max locked now db =
     (case fetchrow (sql_select (claimable cap db) claim_order 1 (q_rows db)) of
        None \<Rightarrow> (db, [])
      | Some pick \<Rightarrow>
          let rows = sql_select
                (\<lambda>r. q_customer r = q_customer pick \<and> q_source r = q_source pick
                     \<and> q_status r = PENDING \<and> q_id r \<notin> set locked)
                claim_order coalesce_max (q_rows db)
          in if rows = [] then (db, [])
             else (update_rows (\<lambda>r. q_id r \<in> set (map q_id rows)) (set_claimed now) db, rows))"

subsection \<open>While a row is worked\<close>

definition heartbeat :: "int \<Rightarrow> time \<Rightarrow> 'a queue_db_scheme \<Rightarrow> 'a queue_db_scheme" where
  "heartbeat qid now db =
     update_rows (\<lambda>r. q_id r = qid) (\<lambda>r. r\<lparr>q_heartbeat_at := Some now\<rparr>) db"

definition merged_retries :: "extraction_outcome \<Rightarrow> extraction_outcome option \<Rightarrow> int" where
  "merged_retries new old =
     (if eo_authoritative new = Some True then 0
      else if (case old of Some e \<Rightarrow> eo_reason e = Some ''disabled'' | None \<Rightarrow> False)
              \<and> (case eo_reason new of Some x \<Rightarrow> x \<noteq> ''disabled'' | None \<Rightarrow> False) then 0
      else (case old of Some e \<Rightarrow> (case eo_retries e of Some n \<Rightarrow> n | None \<Rightarrow> 0) | None \<Rightarrow> 0))"

definition record_extraction_outcome ::
  "int \<Rightarrow> extraction_outcome \<Rightarrow> 'a queue_db_scheme \<Rightarrow> 'a queue_db_scheme" where
  "record_extraction_outcome qid new db =
     update_rows (\<lambda>r. q_id r = qid)
       (\<lambda>r. r\<lparr>q_outcome := Some (new\<lparr>eo_retries := Some (merged_retries new (q_outcome r))\<rparr>)\<rparr>) db"

subsection \<open>Finish\<close>

text \<open>\<^verbatim>\<open>UPDATE ... SET status = 'done' ... WHERE queue_id = $2 AND version = $3\<close>.\<close>

definition cas_guard :: "int \<Rightarrow> int \<Rightarrow> queue_row \<Rightarrow> bool" where
  "cas_guard qid ver r \<longleftrightarrow> q_id r = qid \<and> q_version r = ver"

definition set_done :: "string option \<Rightarrow> time \<Rightarrow> queue_row \<Rightarrow> queue_row" where
  "set_done err now r = r\<lparr>q_status := DONE, q_completed_at := Some now, q_error := err\<rparr>"

text \<open>The release after a CAS miss: back to pending, guarded on the status. The finished pass starts
  a new wait; the error path (\<open>release_error\<close>) keeps the old one.\<close>

definition release_row :: "int \<Rightarrow> time \<Rightarrow> 'a queue_db_scheme \<Rightarrow> 'a queue_db_scheme" where
  "release_row qid now db =
     update_rows (\<lambda>r. q_id r = qid \<and> q_status r = PROCESSING)
       (\<lambda>r. r\<lparr>q_status := PENDING, q_started_at := None, q_heartbeat_at := None,
             q_first_enqueued_at := now\<rparr>) db"

definition release_error :: "int \<Rightarrow> 'a queue_db_scheme \<Rightarrow> 'a queue_db_scheme" where
  "release_error qid db =
     update_rows (\<lambda>r. q_id r = qid \<and> q_status r = PROCESSING)
       (\<lambda>r. r\<lparr>q_status := PENDING, q_started_at := None, q_heartbeat_at := None\<rparr>) db"

text \<open>The queue half of \<^verbatim>\<open>_mark_done\<close> (\<open>err\<close> None) and \<^verbatim>\<open>_mark_skipped\<close> (\<open>err\<close> the reason): the
  CAS commit, or the release when it missed. The flag says whether the commit hit.\<close>

definition cas_commit ::
  "string option \<Rightarrow> int \<Rightarrow> int \<Rightarrow> time \<Rightarrow> 'a queue_db_scheme \<Rightarrow> 'a queue_db_scheme \<times> bool" where
  "cas_commit err qid ver now db =
     (if sql_returning (cas_guard qid ver) (set_done err now) (q_rows db) = []
      then (release_row qid now db, False)
      else (update_rows (cas_guard qid ver) (set_done err now) db, True))"

definition set_dlq :: "string \<Rightarrow> time \<Rightarrow> queue_row \<Rightarrow> queue_row" where
  "set_dlq err now r = r\<lparr>q_status := DLQ, q_completed_at := Some now, q_error := Some err\<rparr>"

definition set_retry :: "string \<Rightarrow> queue_row \<Rightarrow> queue_row" where
  "set_retry err r =
     r\<lparr>q_status := PENDING, q_error := Some err, q_heartbeat_at := None, q_started_at := None\<rparr>"

text \<open>\<^verbatim>\<open>_on_error\<close>: the flag is its return value, whether the row was dead-lettered.\<close>

definition on_error ::
  "int \<Rightarrow> int \<Rightarrow> int \<Rightarrow> string \<Rightarrow> bool \<Rightarrow> int \<Rightarrow> time \<Rightarrow> 'a queue_db_scheme
   \<Rightarrow> 'a queue_db_scheme \<times> bool" where
  "on_error max_attempts qid attempts err transient ver now db =
     (let dead = (\<not> transient \<or> attempts \<ge> max_attempts);
          f = (if dead then set_dlq err now else set_retry err)
      in if filter (cas_guard qid ver) (q_rows db) = []
         then (release_error qid db, False)
         else (update_rows (cas_guard qid ver) f db, dead))"

subsection \<open>Repair\<close>

definition QUEUE_RECLAIM_THRESHOLD_SECONDS :: int where "QUEUE_RECLAIM_THRESHOLD_SECONDS = 300"
definition QUEUE_HEARTBEAT_INTERVAL_SECONDS :: int where "QUEUE_HEARTBEAT_INTERVAL_SECONDS = 30"

definition stale :: "int \<Rightarrow> time \<Rightarrow> time option \<Rightarrow> bool" where
  "stale threshold now hb = (case hb of None \<Rightarrow> False | Some h \<Rightarrow> h < now - threshold)"

definition RECLAIM_NOTE :: string where "RECLAIM_NOTE = '' | reclaimed: heartbeat stale''"

definition coalesce_note :: "string option \<Rightarrow> string" where
  "coalesce_note e = (case e of None \<Rightarrow> '''' | Some s \<Rightarrow> s) @ RECLAIM_NOTE"

datatype backfill_status = BF_IDLE | BF_PENDING | BF_RUNNING | BF_COMPLETE | BF_FAILED

record backfill_row =
  b_customer :: string
  b_source :: string
  b_status :: backfill_status
  b_started_at :: "time option"
  b_heartbeat_at :: "time option"
  b_last_error :: "string option"
  b_last_cursor :: "string option"
  b_events_enqueued :: int

definition set_reclaimed :: "queue_row \<Rightarrow> queue_row" where
  "set_reclaimed r =
     r\<lparr>q_status := PENDING, q_heartbeat_at := None, q_started_at := None,
       q_error := Some (coalesce_note (q_error r))\<rparr>"

definition backfill_reclaimed :: "backfill_row \<Rightarrow> backfill_row" where
  "backfill_reclaimed r =
     r\<lparr>b_status := BF_PENDING, b_started_at := None, b_heartbeat_at := None,
       b_last_error := Some (coalesce_note (b_last_error r))\<rparr>"

text \<open>\<^verbatim>\<open>ReclaimLoop._reclaim_once\<close>: both tables and the two counts.\<close>

definition reclaim_once ::
  "int \<Rightarrow> int \<Rightarrow> time \<Rightarrow> backfill_row table \<Rightarrow> 'a queue_db_scheme
   \<Rightarrow> ('a queue_db_scheme \<times> backfill_row table) \<times> (nat \<times> nat)" where
  "reclaim_once threshold backfill_threshold now bf db =
     (let p = (\<lambda>r. q_status r = PROCESSING \<and> stale threshold now (q_heartbeat_at r));
          b = (\<lambda>r. b_status r = BF_RUNNING \<and> stale backfill_threshold now (b_heartbeat_at r))
      in ((update_rows p set_reclaimed db, sql_update b backfill_reclaimed bf),
          (length (sql_returning p set_reclaimed (q_rows db)),
           length (sql_returning b backfill_reclaimed bf))))"

text \<open>\<^verbatim>\<open>scripts/cron_stuck_queue_reclaim.py\<close>: the same repair, with a fixed error text.\<close>

definition cron_reclaimed :: "queue_row \<Rightarrow> queue_row" where
  "cron_reclaimed r =
     r\<lparr>q_status := PENDING, q_heartbeat_at := None, q_started_at := None,
       q_error := Some ''reclaimed: heartbeat stale''\<rparr>"

definition cron_reclaim :: "time \<Rightarrow> 'a queue_db_scheme \<Rightarrow> 'a queue_db_scheme \<times> nat" where
  "cron_reclaim now db =
     (let p = (\<lambda>r. q_status r = PROCESSING
                   \<and> stale QUEUE_RECLAIM_THRESHOLD_SECONDS now (q_heartbeat_at r))
      in (update_rows p cron_reclaimed db, length (sql_returning p cron_reclaimed (q_rows db))))"

text \<open>\<^verbatim>\<open>replay_dlq\<close> (\<^verbatim>\<open>kb/admin_routes.py\<close>); a None filter is not applied, an unknown source is its
  400. The result lists the ids in the order RETURNING finds them.\<close>

definition replay_filter ::
  "string option \<Rightarrow> string option \<Rightarrow> time option \<Rightarrow> int list option \<Rightarrow> queue_row \<Rightarrow> bool" where
  "replay_filter c src since ids r \<longleftrightarrow>
     q_status r = DLQ
     \<and> (case c of None \<Rightarrow> True | Some x \<Rightarrow> q_customer r = x)
     \<and> (case src of None \<Rightarrow> True | Some x \<Rightarrow> q_source r = x)
     \<and> (case since of None \<Rightarrow> True | Some t \<Rightarrow> t \<le> q_enqueued_at r)
     \<and> (case ids of None \<Rightarrow> True | Some xs \<Rightarrow> q_id r \<in> set xs)"

datatype replay_error = UnknownSource string

definition set_replayed :: "queue_row \<Rightarrow> queue_row" where
  "set_replayed r =
     r\<lparr>q_status := PENDING, q_attempts := 0, q_error := None, q_started_at := None,
       q_heartbeat_at := None, q_completed_at := None\<rparr>"

definition replay_dlq ::
  "string option \<Rightarrow> string option \<Rightarrow> time option \<Rightarrow> int list option \<Rightarrow> nat \<Rightarrow> int list
   \<Rightarrow> 'a queue_db_scheme \<Rightarrow> replay_error + ('a queue_db_scheme \<times> int list)" where
  "replay_dlq c src since ids limit locked db =
     (if (case src of None \<Rightarrow> False | Some x \<Rightarrow> source_of_value x = None)
      then Inl (UnknownSource (the src))
      else let picked = map q_id (sql_select
            (\<lambda>r. replay_filter c src since ids r \<and> q_id r \<notin> set locked) q_enqueued_at limit
            (q_rows db))
      in Inr (update_rows (\<lambda>r. q_id r \<in> set picked) set_replayed db,
              map q_id (filter (\<lambda>r. q_id r \<in> set picked) (q_rows db))))"

subsection \<open>Backlog sample\<close>

record queue_age =
  qa_pending :: nat
  qa_processing :: nat
  qa_oldest_age_seconds :: int

definition sample_once :: "time \<Rightarrow> 'a queue_db_scheme \<Rightarrow> queue_age" where
  "sample_once now db =
     (let live = filter (\<lambda>r. (q_status r = PENDING \<or> q_status r = PROCESSING)
                             \<and> active_tenant_sql db (q_customer r)) (q_rows db)
      in \<lparr>qa_pending = length (filter (\<lambda>r. q_status r = PENDING) live),
          qa_processing = length (filter (\<lambda>r. q_status r = PROCESSING) live),
          qa_oldest_age_seconds =
            (if live = [] then 0 else now - Min (set (map q_first_enqueued_at live)))\<rparr>)"


subsection \<open>What every statement keeps\<close>

definition queue_wf :: "'a queue_db_scheme \<Rightarrow> bool" where
  "queue_wf db \<longleftrightarrow>
     distinct (map q_id (q_rows db)) \<and> distinct (map q_key (q_rows db))
     \<and> (\<forall>r \<in> set (q_rows db). q_id r < q_next db)"

definition evolves :: "queue_row \<Rightarrow> queue_row \<Rightarrow> bool" where
  "evolves r r' \<longleftrightarrow>
     q_id r' = q_id r \<and> q_key r' = q_key r \<and> q_version r \<le> q_version r'
     \<and> prefix (q_keys r) (q_keys r') \<and> (q_version r' = q_version r \<longrightarrow> q_keys r' = q_keys r)"

text \<open>Every row of \<open>db'\<close> is new (its id was not drawn yet) or has evolved from a row of \<open>db\<close>.\<close>

definition db_evolves :: "'a queue_db_scheme \<Rightarrow> 'a queue_db_scheme \<Rightarrow> bool" where
  "db_evolves db db' \<longleftrightarrow>
     q_next db \<le> q_next db'
     \<and> (\<forall>r' \<in> set (q_rows db'). q_next db \<le> q_id r' \<or> (\<exists>r \<in> set (q_rows db). evolves r r'))"

lemma evolves_refl [simp, intro]: "evolves r r"
  by (simp add: evolves_def)

lemma evolves_trans: "evolves a b \<Longrightarrow> evolves b c \<Longrightarrow> evolves a c"
  by (auto simp: evolves_def intro: prefix_order.trans)

lemma db_evolves_refl [simp, intro]: "db_evolves db db"
  by (auto simp: db_evolves_def)

lemma db_evolves_trans:
  assumes "db_evolves a b" and "db_evolves b c"
  shows "db_evolves a c"
  unfolding db_evolves_def
proof (intro conjI ballI)
  show "q_next a \<le> q_next c" using assms by (simp add: db_evolves_def)
  fix r' assume "r' \<in> set (q_rows c)"
  with assms(2) have "q_next b \<le> q_id r' \<or> (\<exists>r \<in> set (q_rows b). evolves r r')"
    by (simp add: db_evolves_def)
  then show "q_next a \<le> q_id r' \<or> (\<exists>r \<in> set (q_rows a). evolves r r')"
  proof
    assume "q_next b \<le> q_id r'"
    with assms(1) show ?thesis by (simp add: db_evolves_def)
  next
    assume "\<exists>r \<in> set (q_rows b). evolves r r'"
    then obtain r where r: "r \<in> set (q_rows b)" "evolves r r'" by blast
    with assms(1) have "q_next a \<le> q_id r \<or> (\<exists>s \<in> set (q_rows a). evolves s r)"
      by (simp add: db_evolves_def)
    then show ?thesis using r(2) by (auto simp: evolves_def intro: prefix_order.trans)
  qed
qed

text \<open>The interface: a statement keeps the table well formed and lets rows only evolve. Its client
  lemma is what the worker's compare-and-set commit relies on: a row found later at the version a
  snapshot captured still holds exactly the payload keys of that snapshot.\<close>

locale queue_writer =
  fixes wr :: "'a queue_db_scheme \<Rightarrow> 'a queue_db_scheme"
  assumes writer_wf: "queue_wf db \<Longrightarrow> queue_wf (wr db)"
    and writer_evolves: "queue_wf db \<Longrightarrow> db_evolves db (wr db)"
begin

lemma snapshot_extends:
  assumes "queue_wf db" and "s \<in> set (q_rows db)" and "r \<in> set (q_rows (wr db))"
    and "q_id r = q_id s"
  shows "evolves s r"
proof -
  from assms(1,2) have "q_id s < q_next db" by (simp add: queue_wf_def)
  with assms(3,4) writer_evolves [OF assms(1)] obtain t where
    t: "t \<in> set (q_rows db)" "evolves t r"
    by (fastforce simp: db_evolves_def)
  then have "q_id t = q_id s" using assms(4) by (simp add: evolves_def)
  with t(1) assms(1,2) have "t = s"
    by (auto simp: queue_wf_def dest: distinct_key_eq)
  with t(2) show ?thesis by simp
qed

lemma cas_sees_snapshot:
  assumes "queue_wf db" and "s \<in> set (q_rows db)" and "r \<in> set (q_rows (wr db))"
    and "cas_guard (q_id s) (q_version s) r"
  shows "q_keys r = q_keys s"
  using snapshot_extends [OF assms(1-3)] assms(4) by (simp add: cas_guard_def evolves_def)

end

text \<open>Guarded updates and insertions are writers.\<close>

lemma update_rows_writer:
  assumes "\<And>r. p r \<Longrightarrow> evolves r (f r)"
  shows "queue_writer (update_rows p f)"
proof
  fix db :: "'a queue_db_scheme" assume wf: "queue_wf db"
  have ids: "map q_id (sql_update p f (q_rows db)) = map q_id (q_rows db)"
    using assms by (intro map_sql_update) (simp add: evolves_def)
  have keys: "map q_key (sql_update p f (q_rows db)) = map q_key (q_rows db)"
    using assms by (intro map_sql_update) (simp add: evolves_def)
  show "queue_wf (update_rows p f db)"
    using wf ids keys assms
    by (auto simp: queue_wf_def update_rows_def evolves_def elim!: sql_update_memE)
  show "db_evolves db (update_rows p f db)"
    unfolding db_evolves_def update_rows_def
  proof (simp, intro ballI disjI2)
    fix r' assume "r' \<in> set (sql_update p f (q_rows db))"
    then obtain r where "r \<in> set (q_rows db)" and "r' = (if p r then f r else r)"
      by (rule sql_update_memE)
    with assms show "\<exists>r \<in> set (q_rows db). evolves r r'" by auto
  qed
qed

lemma add_row_keeps:
  assumes "queue_wf db" and "q_id r = q_next db" and "q_key r \<notin> q_key ` set (q_rows db)"
  shows "queue_wf (add_row r db)" and "db_evolves db (add_row r db)"
  using assms by (auto simp: queue_wf_def add_row_def db_evolves_def)

lemma bump_next_keeps:
  assumes "queue_wf db'" and "db_evolves db db'" and "q_next db' \<le> n"
  shows "queue_wf (db'\<lparr>q_next := n\<rparr>)" and "db_evolves db (db'\<lparr>q_next := n\<rparr>)"
  using assms by (auto simp: queue_wf_def db_evolves_def)

lemma q_key_new_queue_row [simp]: "q_key (new_queue_row i c src ev key prio ver now) = (c, src, ev)"
  by (simp add: new_queue_row_def q_key_def)

lemma q_id_new_queue_row [simp]: "q_id (new_queue_row i c src ev key prio ver now) = i"
  by (simp add: new_queue_row_def)

lemma q_next_update_rows [simp]: "q_next (update_rows p f db) = q_next db"
  by (simp add: update_rows_def)

lemma extend_session_evolves: "evolves r (extend_session key prio now r)"
  by (simp add: extend_session_def evolves_def q_key_def)

lemma extend_agent_evolves: "evolves r (extend_agent key now r)"
  by (simp add: extend_agent_def evolves_def q_key_def)

named_theorems row_setters "definitions of the SET clauses"

lemmas row_setter_defs [row_setters] =
  set_claimed_def set_done_def set_dlq_def set_retry_def set_reclaimed_def

text \<open>A SET clause that touches neither identity, keys nor version.\<close>

lemma evolves_same:
  "q_id r' = q_id r \<Longrightarrow> q_key r' = q_key r \<Longrightarrow> q_version r' = q_version r \<Longrightarrow> q_keys r' = q_keys r
   \<Longrightarrow> evolves r r'"
  by (simp add: evolves_def)

interpretation ins: queue_writer "\<lambda>db. fst (insert_do_nothing c src ev key prio now db)"
  for c src ev key prio now
proof
  fix db :: "'a queue_db_scheme" assume wf: "queue_wf db"
  show "queue_wf (fst (insert_do_nothing c src ev key prio now db))"
    using wf by (auto simp: insert_do_nothing_def intro: add_row_keeps bump_next_keeps)
  show "db_evolves db (fst (insert_do_nothing c src ev key prio now db))"
    using wf by (auto simp: insert_do_nothing_def intro: add_row_keeps bump_next_keeps)
qed

lemmas update_wf = queue_writer.writer_wf [OF update_rows_writer]
lemmas update_evolves = queue_writer.writer_evolves [OF update_rows_writer]

lemma upsert_keeps:
  assumes "queue_wf db" and "\<And>r. evolves r (f r)"
  shows "queue_wf ((update_rows p f db)\<lparr>q_next := q_next db + 1\<rparr>)"
    and "db_evolves db ((update_rows p f db)\<lparr>q_next := q_next db + 1\<rparr>)"
  using assms by (auto intro!: bump_next_keeps update_wf update_evolves)

interpretation ups: queue_writer "upsert_session c src ev key prio now"
  for c src ev key prio now
proof
  fix db :: "'a queue_db_scheme" assume wf: "queue_wf db"
  show "queue_wf (upsert_session c src ev key prio now db)"
    using wf by (auto simp: upsert_session_def intro!: add_row_keeps upsert_keeps extend_session_evolves)
  show "db_evolves db (upsert_session c src ev key prio now db)"
    using wf by (auto simp: upsert_session_def intro!: add_row_keeps upsert_keeps extend_session_evolves)
qed

interpretation enqa: queue_writer "enqueue_agent reg c s sid key now"
  for reg c s sid key now
proof
  fix db :: "'a queue_db_scheme" assume wf: "queue_wf db"
  show "queue_wf (enqueue_agent reg c s sid key now db)"
    using wf by (auto simp: enqueue_agent_def intro!: add_row_keeps upsert_keeps extend_agent_evolves)
  show "db_evolves db (enqueue_agent reg c s sid key now db)"
    using wf by (auto simp: enqueue_agent_def intro!: add_row_keeps upsert_keeps extend_agent_evolves)
qed

interpretation enq: queue_writer "\<lambda>db. fst (enqueue reg c s ev key now db)"
  for reg c s ev key now
proof
  fix db :: "'a queue_db_scheme" assume wf: "queue_wf db"
  show "queue_wf (fst (enqueue reg c s ev key now db))"
    using wf ups.writer_wf [OF wf] ins.writer_wf [OF wf]
    by (auto simp: enqueue_def Let_def split_beta)
  show "db_evolves db (fst (enqueue reg c s ev key now db))"
    using wf ups.writer_evolves [OF wf] ins.writer_evolves [OF wf]
    by (auto simp: enqueue_def Let_def split_beta)
qed

lemma filter_rows_keeps:
  assumes "queue_wf db"
  shows "queue_wf (db\<lparr>q_rows := filter p (q_rows db)\<rparr>)"
    and "db_evolves db (db\<lparr>q_rows := filter p (q_rows db)\<rparr>)"
  using assms by (auto simp: queue_wf_def db_evolves_def distinct_map_filter)

interpretation retire: queue_writer "\<lambda>db. fst (retire_and_reenqueue c ev key prio now db)"
  for c ev key prio now
proof
  fix db :: "'a queue_db_scheme" assume wf: "queue_wf db"
  note keeps = filter_rows_keeps [OF wf]
  show "queue_wf (fst (retire_and_reenqueue c ev key prio now db))"
    using wf ins.writer_wf [OF keeps(1)]
    by (auto simp: retire_and_reenqueue_def Let_def split_beta)
  show "db_evolves db (fst (retire_and_reenqueue c ev key prio now db))"
    using db_evolves_trans [OF keeps(2) ins.writer_evolves [OF keeps(1)]]
    by (auto simp: retire_and_reenqueue_def Let_def split_beta)
qed

interpretation custom: queue_writer
  "\<lambda>db. fst (enqueue_custom_document reg c live del h ev key now db)"
  for reg c live del h ev key now
proof
  fix db :: "'a queue_db_scheme" assume wf: "queue_wf db"
  note ins_wf = ins.writer_wf [OF wf] and ins_ev = ins.writer_evolves [OF wf]
  show "queue_wf (fst (enqueue_custom_document reg c live del h ev key now db))"
    using ins_wf retire.writer_wf [OF ins_wf]
    by (auto simp: enqueue_custom_document_def Let_def split_beta)
  show "db_evolves db (fst (enqueue_custom_document reg c live del h ev key now db))"
    using ins_ev db_evolves_trans [OF ins_ev retire.writer_evolves [OF ins_wf]]
    by (auto simp: enqueue_custom_document_def Let_def split_beta)
qed

interpretation bridge: queue_writer "\<lambda>db. fst (put_and_enqueue reg c ev key now db)"
  for reg c ev key now
  by unfold_locales
    (simp_all add: put_and_enqueue_def split_beta Let_def ins.writer_wf ins.writer_evolves)

lemma set_claimed_evolves: "evolves r (set_claimed now r)"
  and set_done_evolves: "evolves r (set_done err now r)"
  and set_dlq_evolves: "evolves r (set_dlq err' now r)"
  and set_retry_evolves: "evolves r (set_retry err' r)"
  and set_reclaimed_evolves: "evolves r (set_reclaimed r)"
  and set_replayed_evolves: "evolves r (set_replayed r)"
  and cron_reclaimed_evolves: "evolves r (cron_reclaimed r)"
  by (simp_all add: evolves_def q_key_def row_setters set_replayed_def cron_reclaimed_def)

lemmas setters_evolve [intro] =
  set_claimed_evolves set_done_evolves set_dlq_evolves set_retry_evolves set_reclaimed_evolves
  set_replayed_evolves cron_reclaimed_evolves

interpretation claim1: queue_writer "\<lambda>db. fst (claim_one cap locked now db)" for cap locked now
  by unfold_locales
    (auto simp: claim_one_def split: option.splits intro!: update_wf update_evolves)

interpretation claimb: queue_writer "\<lambda>db. fst (claim_batch cap m locked now db)" for cap m locked now
  by unfold_locales
    (auto simp: claim_batch_def Let_def split: option.splits intro!: update_wf update_evolves)

interpretation hb: queue_writer "heartbeat qid now" for qid now
  unfolding heartbeat_def
  by (rule update_rows_writer) (simp add: evolves_def q_key_def)

interpretation outcome: queue_writer "record_extraction_outcome qid new" for qid new
  unfolding record_extraction_outcome_def
  by (rule update_rows_writer) (simp add: evolves_def q_key_def)

interpretation rel: queue_writer "release_row qid now" for qid now
  unfolding release_row_def
  by (rule update_rows_writer) (simp add: evolves_def q_key_def)

interpretation rele: queue_writer "release_error qid" for qid
  unfolding release_error_def
  by (rule update_rows_writer) (simp add: evolves_def q_key_def)

interpretation commit: queue_writer "\<lambda>db. fst (cas_commit err qid ver now db)" for err qid ver now
  by unfold_locales
    (auto simp: cas_commit_def rel.writer_wf rel.writer_evolves intro!: update_wf update_evolves)

interpretation oerr: queue_writer "\<lambda>db. fst (on_error m qid att err tr ver now db)"
  for m qid att err tr ver now
  by unfold_locales
    (auto simp: on_error_def Let_def rele.writer_wf rele.writer_evolves
      intro!: update_wf update_evolves)

interpretation reclaim: queue_writer "\<lambda>db. fst (fst (reclaim_once th bth now bf db))"
  for th bth now bf
  by unfold_locales
    (auto simp: reclaim_once_def Let_def intro!: update_wf update_evolves)

interpretation cronr: queue_writer "\<lambda>db. fst (cron_reclaim now db)" for now
  by unfold_locales
    (auto simp: cron_reclaim_def Let_def intro!: update_wf update_evolves)

interpretation replay: queue_writer
  "\<lambda>db. case replay_dlq c src since ids lim locked db of Inl _ \<Rightarrow> db | Inr x \<Rightarrow> fst x"
  for c src since ids lim locked
  by unfold_locales
    (auto simp: replay_dlq_def Let_def intro!: update_wf update_evolves)


subsection \<open>Statements that finish no row\<close>

definition no_new_done :: "'a queue_db_scheme \<Rightarrow> 'a queue_db_scheme \<Rightarrow> bool" where
  "no_new_done db db' \<longleftrightarrow>
     (\<forall>r' \<in> set (q_rows db'). q_status r' = DONE \<longrightarrow>
        (\<exists>r \<in> set (q_rows db). q_id r = q_id r' \<and> q_keys r = q_keys r' \<and> q_status r = DONE))"

lemma no_new_done_refl [simp, intro]: "no_new_done db db"
  by (auto simp: no_new_done_def)

lemma no_new_done_trans: "no_new_done a b \<Longrightarrow> no_new_done b c \<Longrightarrow> no_new_done a c"
  unfolding no_new_done_def by metis

text \<open>A writer that never turns a row to done: everything but the compare-and-set commit.\<close>

locale quiet_writer = queue_writer +
  assumes writer_quiet: "no_new_done db (wr db)"

lemma update_rows_quiet:
  assumes "\<And>r. p r \<Longrightarrow> q_status (f r) = DONE \<Longrightarrow>
      q_status r = DONE \<and> q_keys (f r) = q_keys r \<and> q_id (f r) = q_id r"
  shows "no_new_done db (update_rows p f db)"
  unfolding no_new_done_def update_rows_def
proof (simp, intro ballI impI)
  fix r' assume "r' \<in> set (sql_update p f (q_rows db))" and st: "q_status r' = DONE"
  then obtain r where r: "r \<in> set (q_rows db)" "r' = (if p r then f r else r)"
    by (auto elim: sql_update_memE)
  with st assms [of r]
  show "\<exists>r\<in>set (q_rows db). q_id r = q_id r' \<and> q_keys r = q_keys r' \<and> q_status r = DONE"
    by (auto split: if_splits)
qed

lemma add_row_quiet: "q_status r \<noteq> DONE \<Longrightarrow> no_new_done db (add_row r db)"
  by (auto simp: no_new_done_def add_row_def)

lemma q_status_new_queue_row [simp]: "q_status (new_queue_row i c src ev key prio ver now) = PENDING"
  by (simp add: new_queue_row_def)

lemma bump_next_quiet: "no_new_done db db' \<Longrightarrow> no_new_done db (db'\<lparr>q_next := n\<rparr>)"
  by (simp add: no_new_done_def)

lemma insert_quiet: "no_new_done db (fst (insert_do_nothing c src ev key prio now db))"
  by (auto simp: insert_do_nothing_def intro: add_row_quiet bump_next_quiet)

lemma filter_rows_quiet: "no_new_done db (db\<lparr>q_rows := filter p (q_rows db)\<rparr>)"
  by (auto simp: no_new_done_def)

interpretation insq: quiet_writer "\<lambda>db. fst (insert_do_nothing c src ev key prio now db)"
  for c src ev key prio now
  by unfold_locales (rule insert_quiet)

interpretation upsq: quiet_writer "upsert_session c src ev key prio now" for c src ev key prio now
  by unfold_locales
    (auto simp: upsert_session_def extend_session_def
      intro!: add_row_quiet bump_next_quiet update_rows_quiet split: if_splits)

interpretation enqaq: quiet_writer "enqueue_agent reg c s sid key now" for reg c s sid key now
  by unfold_locales
    (auto simp: enqueue_agent_def extend_agent_def
      intro!: add_row_quiet bump_next_quiet update_rows_quiet split: if_splits)

interpretation enqq: quiet_writer "\<lambda>db. fst (enqueue reg c s ev key now db)" for reg c s ev key now
  by unfold_locales
    (auto simp: enqueue_def Let_def split_beta intro: upsq.writer_quiet insert_quiet)

lemma retire_quiet: "no_new_done db (fst (retire_and_reenqueue c ev key prio now db))"
proof (rule no_new_done_trans)
  let ?keep = "\<lambda>r. \<not> (q_key r = (c, source_value CUSTOM_INGEST, ev)
                     \<and> (q_status r = DONE \<or> q_status r = DLQ))"
  let ?db = "if filter (\<lambda>r. \<not> ?keep r) (q_rows db) = [] then db
             else db\<lparr>q_rows := filter ?keep (q_rows db)\<rparr>"
  show "no_new_done db ?db" by (simp add: filter_rows_quiet)
  show "no_new_done ?db (fst (retire_and_reenqueue c ev key prio now db))"
    by (simp add: retire_and_reenqueue_def Let_def split_beta insert_quiet)
qed

interpretation customq: quiet_writer
  "\<lambda>db. fst (enqueue_custom_document reg c live del h ev key now db)"
  for reg c live del h ev key now
proof
  fix db :: "'a queue_db_scheme"
  show "no_new_done db (fst (enqueue_custom_document reg c live del h ev key now db))"
    using no_new_done_trans [OF insert_quiet retire_quiet] insert_quiet
    by (auto simp: enqueue_custom_document_def Let_def split_beta)
qed

interpretation bridgeq: quiet_writer "\<lambda>db. fst (put_and_enqueue reg c ev key now db)"
  for reg c ev key now
  by unfold_locales (simp add: put_and_enqueue_def split_beta Let_def insert_quiet)

interpretation claim1q: quiet_writer "\<lambda>db. fst (claim_one cap locked now db)" for cap locked now
  by unfold_locales
    (auto simp: claim_one_def set_claimed_def split: option.splits intro!: update_rows_quiet)

interpretation claimbq: quiet_writer "\<lambda>db. fst (claim_batch cap m locked now db)"
  for cap m locked now
  by unfold_locales
    (auto simp: claim_batch_def Let_def set_claimed_def split: option.splits
      intro!: update_rows_quiet)

interpretation hbq: quiet_writer "heartbeat qid now" for qid now
  by unfold_locales (auto simp: heartbeat_def intro!: update_rows_quiet)

interpretation outcomeq: quiet_writer "record_extraction_outcome qid new" for qid new
  by unfold_locales (auto simp: record_extraction_outcome_def intro!: update_rows_quiet)

interpretation relq: quiet_writer "release_row qid now" for qid now
  by unfold_locales (auto simp: release_row_def intro!: update_rows_quiet)

interpretation oerrq: quiet_writer "\<lambda>db. fst (on_error m qid att err tr ver now db)"
  for m qid att err tr ver now
  by unfold_locales
    (auto simp: on_error_def Let_def release_error_def set_dlq_def set_retry_def
      intro!: update_rows_quiet split: if_splits)

interpretation reclaimq: quiet_writer "\<lambda>db. fst (fst (reclaim_once th bth now bf db))"
  for th bth now bf
  by unfold_locales
    (auto simp: reclaim_once_def Let_def set_reclaimed_def intro!: update_rows_quiet)

interpretation cronrq: quiet_writer "\<lambda>db. fst (cron_reclaim now db)" for now
  by unfold_locales
    (auto simp: cron_reclaim_def Let_def cron_reclaimed_def intro!: update_rows_quiet)

interpretation replayq: quiet_writer
  "\<lambda>db. case replay_dlq c src since ids lim locked db of Inl _ \<Rightarrow> db | Inr x \<Rightarrow> fst x"
  for c src since ids lim locked
  by unfold_locales
    (auto simp: replay_dlq_def Let_def set_replayed_def intro!: update_rows_quiet)

text \<open>The commit finishes at most the row whose version it checked.\<close>

lemma cas_commit_done:
  assumes "r' \<in> set (q_rows (fst (cas_commit err qid ver now db)))" and "q_status r' = DONE"
  shows "(\<exists>r \<in> set (q_rows db). q_id r = q_id r' \<and> q_keys r = q_keys r' \<and> q_status r = DONE)
       \<or> (\<exists>r \<in> set (q_rows db). cas_guard qid ver r \<and> q_id r' = qid \<and> q_keys r' = q_keys r)"
proof (cases "sql_returning (cas_guard qid ver) (set_done err now) (q_rows db) = []")
  case True
  then have "r' \<in> set (q_rows (release_row qid now db))"
    using assms(1) by (simp add: cas_commit_def)
  then show ?thesis
    using relq.writer_quiet [of db qid now] assms(2) unfolding no_new_done_def by blast
next
  case False
  then have "r' \<in> set (sql_update (cas_guard qid ver) (set_done err now) (q_rows db))"
    using assms(1) by (simp add: cas_commit_def update_rows_def)
  then obtain r where "r \<in> set (q_rows db)"
    and "r' = (if cas_guard qid ver r then set_done err now r else r)"
    by (rule sql_update_memE)
  then show ?thesis
    using assms(2) by (auto simp: set_done_def cas_guard_def split: if_splits)
qed

end
