(* ===== verification/Suppression.thy ===== *)
theory Suppression
  imports Queue
begin

section \<open>Session suppression: a deleted session stays deleted\<close>

text \<open>
  \<^verbatim>\<open>engine/shared/session_suppression.py\<close> and \<^verbatim>\<open>engine/shared/legal_hold.py\<close>: the record of
  deleted sessions, the lock every writer of a session takes before it asks for that record,
  how a session is read off a queue event id, a document or a graph reference, which stored
  objects belong to a session, the legal hold, and the late sweep of a session's objects.

  \<^item> \<open>session_deletions\<close> is None while the table does not exist (\<^verbatim>\<open>UndefinedTableError\<close>).
  \<^item> \<open>objects\<close> is the object store, keyed by the customer (each has one bucket) and the key.
    The store is an outside service: whether listing works (\<open>list_ok\<close>) and which keys a
    delete request fails for (\<open>fails\<close>) are arguments.
  \<^item> A function that takes advisory locks returns the lock names in the order it takes them.
\<close>

record deletion_row =
  d_customer :: string
  d_source :: string
  d_session :: string
  d_deletion_id :: string
  d_reason :: string
  d_ticket :: "string option"
  d_deep_scan :: bool
  d_status :: string
  d_requested_at :: time
  d_attempted_at :: "time option"
  d_deleted_at :: "time option"
  d_pending_keys :: "string list"
  d_error :: "string option"

text \<open>\<^verbatim>\<open>customers.metadata -> 'legal_hold'\<close> when the key is present: JSON null, or another value with
  its text.\<close>

datatype hold_value = HoldNull | HoldText string

record sup_db = queue_db +
  session_deletions :: "deletion_row table option"
  objects :: "((string \<times> string) \<times> string) list"
  legal_hold_meta :: "(string \<times> hold_value) list"

subsection \<open>Locks and the record of deletions\<close>

definition session_lock_key :: "string \<Rightarrow> string \<Rightarrow> string \<Rightarrow> string" where
  "session_lock_key c src sid = ''session-stream:'' @ c @ '':'' @ src @ '':'' @ sid"

text \<open>\<^verbatim>\<open>sorted(set(ids))\<close>\<close>

definition sorted_set :: "string list \<Rightarrow> string list" where
  "sorted_set ids = sort (remdups ids)"

definition deleted_sessions :: "'a sup_db_scheme \<Rightarrow> string \<Rightarrow> string \<Rightarrow> string list \<Rightarrow> string set" where
  "deleted_sessions db c src ids =
     (if sorted_set ids = [] then {}
      else case session_deletions db of
        None \<Rightarrow> {}
      | Some t \<Rightarrow> set (map d_session (filter
          (\<lambda>r. d_customer r = c \<and> d_source r = src \<and> d_session r \<in> set (sorted_set ids)) t)))"

record session_deleted_exc =
  x_customer :: string
  x_source :: string
  x_sessions :: "string list"

definition refuse_deleted_sessions ::
  "'a sup_db_scheme \<Rightarrow> string \<Rightarrow> string \<Rightarrow> string list \<Rightarrow> string list \<times> (session_deleted_exc + unit)" where
  "refuse_deleted_sessions db c src ids =
     (let ids' = sorted_set ids;
          locks = map (session_lock_key c src) ids';
          deleted = filter (\<lambda>i. i \<in> deleted_sessions db c src ids') ids'
      in (locks,
          if deleted \<noteq> [] then Inl \<lparr>x_customer = c, x_source = src, x_sessions = deleted\<rparr>
          else Inr ()))"

subsection \<open>Which session a piece of work belongs to\<close>

definition is_digit :: "char \<Rightarrow> bool" where
  "is_digit ch \<longleftrightarrow> CHR ''0'' \<le> ch \<and> ch \<le> CHR ''9''"

text \<open>What \<^verbatim>\<open>[0-9]+|finalize\<close> matches in full.\<close>

definition legacy_suffix :: "string \<Rightarrow> bool" where
  "legacy_suffix s \<longleftrightarrow> (s \<noteq> [] \<and> list_all is_digit s) \<or> s = ''finalize''"

text \<open>\<^verbatim>\<open>re.sub(":(?:[0-9]+|finalize)\Z", "", event_id, count=1)\<close>: the leftmost place where the
  pattern matches up to the end of the string is cut off.\<close>

fun session_of_event_id :: "string \<Rightarrow> string" where
  "session_of_event_id [] = []"
| "session_of_event_id (ch # s) =
     (if ch = CHR '':'' \<and> legacy_suffix s then [] else ch # session_of_event_id s)"

text \<open>The attributes \<^verbatim>\<open>session_ids_of\<close> reads; a value that is not a string is None
  (\<open>dr_source_id\<close>) or \<open>ParentOther\<close>.\<close>

datatype parent_ref = NoParent | ParentDoc string | ParentOther

record doc_ref =
  dr_source_id :: "string option"
  dr_parent :: parent_ref
  dr_system :: string
  dr_customer :: string

definition session_id_of_doc :: "doc_ref \<Rightarrow> string option" where
  "session_id_of_doc d =
     (case dr_source_id d of
        None \<Rightarrow> None
      | Some source_id \<Rightarrow>
          if source_id = [] then None
          else case dr_parent d of
            NoParent \<Rightarrow> Some source_id
          | ParentDoc parent \<Rightarrow>
              (let pre = dr_system d @ '':'' @ dr_customer d @ '':''
               in if starts_with parent pre then Some (drop (length pre) parent)
                  else Some (takeWhile (\<lambda>ch. ch \<noteq> CHR '':'') source_id))
          | ParentOther \<Rightarrow> Some (takeWhile (\<lambda>ch. ch \<noteq> CHR '':'') source_id))"

definition session_ids_of :: "doc_ref list \<Rightarrow> string set" where
  "session_ids_of docs = set (List.map_filter session_id_of_doc docs)"

text \<open>\<^verbatim>\<open>s.rsplit(ch, 1)[0]\<close>\<close>

definition before_last :: "char \<Rightarrow> string \<Rightarrow> string" where
  "before_last ch s =
     (if ch \<in> set s then rev (tl (dropWhile (\<lambda>x. x \<noteq> ch) (rev s))) else s)"

text \<open>The sessions of source \<open>src\<close> that one graph reference (label, canonical id) may name.\<close>

definition graph_ref_sessions :: "string \<Rightarrow> string \<Rightarrow> string \<times> string \<Rightarrow> string list" where
  "graph_ref_sessions c src ref =
     (let pre = src @ '':'' @ c @ '':''; apre = ''agent_session:'' @ src @ '':''
      in if fst ref = ''Document'' \<and> starts_with (snd ref) pre
         then let rest = drop (length pre) (snd ref)
              in [rest, before_last CHR '':'' (before_last CHR '':'' rest)]
         else if fst ref = ''AgentSession'' \<and> starts_with (snd ref) apre
         then [drop (length apre) (snd ref)]
         else [])"

definition wanted_sessions :: "string \<Rightarrow> string \<Rightarrow> (string \<times> string) list \<Rightarrow> string list" where
  "wanted_sessions c src refs = concat (map (graph_ref_sessions c src) refs)"

fun refuse_each ::
  "'a sup_db_scheme \<Rightarrow> string \<Rightarrow> (string \<times> string list) list
   \<Rightarrow> string list \<times> (session_deleted_exc + unit)" where
  "refuse_each db c [] = ([], Inr ())"
| "refuse_each db c ((src, ids) # rest) =
     (case refuse_deleted_sessions db c src ids of
        (locks, Inl e) \<Rightarrow> (locks, Inl e)
      | (locks, Inr _) \<Rightarrow>
          (let (locks', res) = refuse_each db c rest in (locks @ locks', res)))"

definition refuse_deleted_graph_refs ::
  "'a sup_db_scheme \<Rightarrow> string \<Rightarrow> (string \<times> string) list
   \<Rightarrow> string list \<times> (session_deleted_exc + unit)" where
  "refuse_deleted_graph_refs db c refs =
     refuse_each db c
       (filter (\<lambda>x. snd x \<noteq> [])
         (map (\<lambda>src. (src, wanted_sessions c src refs))
              (sort (map source_value AGENT_SESSION_SOURCES))))"

definition is_session_deleted :: "'a sup_db_scheme \<Rightarrow> string \<Rightarrow> string \<Rightarrow> string \<Rightarrow> bool" where
  "is_session_deleted db c src event_id =
     (deleted_sessions db c src [session_of_event_id event_id] \<noteq> {})"

subsection \<open>A session's own objects\<close>

definition TRAJECTORY_FILE :: string where "TRAJECTORY_FILE = ''trajectory.json''"
definition MEDIA_FOLDER :: string where "MEDIA_FOLDER = ''media/''"
definition MEDIA_STAGING_FOLDER :: string where "MEDIA_STAGING_FOLDER = ''media-staging''"
definition CACHE_FOLDER :: string where "CACHE_FOLDER = ''extraction-cache/''"

definition session_folder :: "string \<Rightarrow> string \<Rightarrow> string \<Rightarrow> string" where
  "session_folder src c sid = ''raw/'' @ src @ ''/'' @ c @ ''/'' @ sid @ ''/''"

definition media_staging_prefix :: "string \<Rightarrow> string \<Rightarrow> string \<Rightarrow> string" where
  "media_staging_prefix src c sid =
     ''raw/'' @ src @ ''/'' @ c @ ''/'' @ MEDIA_STAGING_FOLDER @ ''/'' @ sid @ ''/''"

definition is_hex :: "char \<Rightarrow> bool" where
  "is_hex ch \<longleftrightarrow> is_digit ch \<or> (CHR ''a'' \<le> ch \<and> ch \<le> CHR ''f'')"

text \<open>\<^verbatim>\<open>[0-9a-f]{64}\.(?:jpg|png|gif|webp)\Z\<close>\<close>

definition media_name :: "string \<Rightarrow> bool" where
  "media_name s \<longleftrightarrow>
     length (take 64 s) = 64 \<and> list_all is_hex (take 64 s)
     \<and> drop 64 s \<in> {''.jpg'', ''.png'', ''.gif'', ''.webp''}"

definition is_own_folder_key :: "string \<Rightarrow> string \<Rightarrow> bool" where
  "is_own_folder_key key folder =
     (if \<not> starts_with key folder then False
      else let rest = drop (length folder) key in
        if rest = ''finalize.marker'' \<or> rest = TRAJECTORY_FILE then True
        else let media = remove_prefix rest MEDIA_FOLDER in
          if media \<noteq> rest then media_name media
          else let cache = remove_prefix rest CACHE_FOLDER in
            cache \<noteq> rest \<and> ends_with cache ''.json'' \<and> \<not> contains cache ''/'')"

definition list_keys :: "'a sup_db_scheme \<Rightarrow> string \<Rightarrow> string \<Rightarrow> string list" where
  "list_keys db c pre =
     filter (\<lambda>k. starts_with k pre) (map (snd \<circ> fst) (filter (\<lambda>ob. fst (fst ob) = c) (objects db)))"

definition own_folder_keys :: "'a sup_db_scheme \<Rightarrow> string \<Rightarrow> string \<Rightarrow> string list" where
  "own_folder_keys db c folder =
     filter (\<lambda>k. is_own_folder_key k folder) (list_keys db c folder)"

definition put_object :: "string \<Rightarrow> string \<Rightarrow> string \<Rightarrow> 'a sup_db_scheme \<Rightarrow> 'a sup_db_scheme" where
  "put_object c key body db = db\<lparr>objects := dict_set (c, key) body (objects db)\<rparr>"

definition delete_object :: "string \<Rightarrow> string \<Rightarrow> 'a sup_db_scheme \<Rightarrow> 'a sup_db_scheme" where
  "delete_object c key db = db\<lparr>objects := filter (\<lambda>ob. fst ob \<noteq> (c, key)) (objects db)\<rparr>"

text \<open>\<^verbatim>\<open>delete_named_keys\<close>: the keys the store fails for stay and are returned by name.\<close>

definition delete_named_keys ::
  "(string \<Rightarrow> bool) \<Rightarrow> string \<Rightarrow> string list \<Rightarrow> 'a sup_db_scheme
   \<Rightarrow> 'a sup_db_scheme \<times> nat \<times> string list" where
  "delete_named_keys fails c keys db =
     (let unique = remdups keys; gone = filter (\<lambda>k. \<not> fails k) unique
      in (db\<lparr>objects := filter (\<lambda>ob. \<not> (fst (fst ob) = c \<and> snd (fst ob) \<in> set gone)) (objects db)\<rparr>,
          length gone, filter fails unique))"

text \<open>The loop of \<^verbatim>\<open>sweep_session_folders\<close>: (deleted, failed), or the exception of a listing that
  fails (\<open>list_ok\<close>, per session); what was deleted before it stays deleted.\<close>

fun sweep_ids ::
  "(string \<Rightarrow> bool) \<Rightarrow> (string \<Rightarrow> bool) \<Rightarrow> string \<Rightarrow> string \<Rightarrow> string list \<Rightarrow> 'a sup_db_scheme
   \<Rightarrow> nat \<Rightarrow> nat \<Rightarrow> 'a sup_db_scheme \<times> (string + nat \<times> nat)" where
  "sweep_ids list_ok fails src c [] db deleted failed = (db, Inr (deleted, failed))"
| "sweep_ids list_ok fails src c (sid # sids) db deleted failed =
     (if \<not> list_ok sid then (db, Inl ''StorageUnavailable'')
      else let folder = session_folder src c sid;
               staged = list_keys db c (media_staging_prefix src c sid);
               (db', n, bad) = delete_named_keys fails c (own_folder_keys db c folder @ staged) db
           in sweep_ids list_ok fails src c sids db' (deleted + n) (failed + length bad))"

definition sweep_session_folders ::
  "(string \<Rightarrow> bool) \<Rightarrow> (string \<Rightarrow> bool) \<Rightarrow> session_deleted_exc \<Rightarrow> 'a sup_db_scheme
   \<Rightarrow> 'a sup_db_scheme \<times> (string + nat \<times> nat)" where
  "sweep_session_folders list_ok fails x db =
     sweep_ids list_ok fails (x_source x) (x_customer x) (sorted_set (x_sessions x)) db 0 0"

subsection \<open>Legal hold\<close>

definition legal_hold_sql :: "'a sup_db_scheme \<Rightarrow> string \<Rightarrow> bool" where
  "legal_hold_sql db c =
     (case map_of (legal_hold_meta db) c of Some (HoldText _) \<Rightarrow> True | _ \<Rightarrow> False)"

definition purge_eligible_tenant_sql :: "'a sup_db_scheme \<Rightarrow> string \<Rightarrow> bool" where
  "purge_eligible_tenant_sql db c \<longleftrightarrow>
     map_of (customers db) c = Some ACTIVE \<and> \<not> legal_hold_sql db c"

definition purge_blocked_reason :: "'a sup_db_scheme \<Rightarrow> string \<Rightarrow> string option" where
  "purge_blocked_reason db c =
     (case map_of (customers db) c of
        None \<Rightarrow> Some ''missing''
      | Some s \<Rightarrow>
          if s \<noteq> ACTIVE then Some (''status:'' @ s)
          else if legal_hold_sql db c then Some ''legal_hold'' else None)"

text \<open>\<^verbatim>\<open>read_legal_hold\<close>: the hold as text; an empty text reads as \<^verbatim>\<open>held\<close>; None also when the tenant
  has no row.\<close>

definition read_legal_hold :: "'a sup_db_scheme \<Rightarrow> string \<Rightarrow> string option" where
  "read_legal_hold db c =
     (case map_of (customers db) c of
        None \<Rightarrow> None
      | Some _ \<Rightarrow> (case map_of (legal_hold_meta db) c of
          Some (HoldText t) \<Rightarrow> Some (if t = [] then ''held'' else t)
        | _ \<Rightarrow> None))"

definition reopen_deletion ::
  "session_deleted_exc \<Rightarrow> string \<Rightarrow> string \<Rightarrow> 'a sup_db_scheme \<Rightarrow> 'a sup_db_scheme" where
  "reopen_deletion x why new_status db =
     db\<lparr>session_deletions := map_option
         (sql_update
           (\<lambda>r. d_customer r = x_customer x \<and> d_source r = x_source x
                \<and> d_session r \<in> set (x_sessions x) \<and> d_status r \<noteq> ''held'')
           (\<lambda>r. r\<lparr>d_status := new_status, d_error := Some (take 2000 why)\<rparr>))
         (session_deletions db)\<rparr>"


subsection \<open>Event ids\<close>

lemma is_digit_colon [simp]: "\<not> is_digit CHR '':''"
  by (simp add: is_digit_def less_eq_char_def)

lemma legacy_suffix_no_colon: "legacy_suffix s \<Longrightarrow> CHR '':'' \<notin> set s"
  by (auto simp: legacy_suffix_def list_all_iff)

text \<open>
  The session of a legacy queue row is recovered exactly: for any session id (one that
  holds colons included) and any legacy suffix (a batch number or \<^verbatim>\<open>finalize\<close>), the event id
  \<^verbatim>\<open><session>:<suffix>\<close> belongs to that session.
\<close>

theorem session_of_event_id_roundtrip:
  assumes "legacy_suffix suf"
  shows "session_of_event_id (sid @ '':'' @ suf) = sid"
proof (induction sid)
  case Nil
  with assms show ?case by simp
next
  case (Cons ch sid)
  have "\<not> legacy_suffix (sid @ '':'' @ suf)"
    using legacy_suffix_no_colon [of "sid @ '':'' @ suf"] by auto
  with Cons.IH show ?case by simp
qed

theorem session_of_event_id_roundtrip_witness:
  "session_of_event_id ''a:b:finalize'' = ''a:b'' \<and> session_of_event_id ''a:17'' = ''a''"
  using session_of_event_id_roundtrip [of "''finalize''" "''a:b''"]
    session_of_event_id_roundtrip [of "''17''" "''a''"]
  by (simp add: legacy_suffix_def is_digit_def less_eq_char_def)

lemma session_of_event_id_other:
  assumes "\<And>a b. eid = a @ '':'' @ b \<Longrightarrow> \<not> legacy_suffix b"
  shows "session_of_event_id eid = eid"
  using assms
proof (induction eid)
  case (Cons ch s)
  have "\<not> (ch = CHR '':'' \<and> legacy_suffix s)"
    using Cons.prems [of "[]" s] by auto
  moreover have "session_of_event_id s = s"
  proof (rule Cons.IH)
    fix a b assume "s = a @ '':'' @ b"
    then show "\<not> legacy_suffix b" using Cons.prems [of "ch # a" b] by simp
  qed
  ultimately show ?case by simp
qed simp

subsection \<open>Locks\<close>

lemma append_less_eq_iff [simp]:
  fixes p a b :: "'x::linorder list"
  shows "p @ a \<le> p @ b \<longleftrightarrow> a \<le> b"
  by (induction p) simp_all

lemma session_lock_key_le [simp]:
  "session_lock_key c src a \<le> session_lock_key c src b \<longleftrightarrow> a \<le> b"
  by (simp add: session_lock_key_def)

lemma session_lock_key_inj [simp]:
  "session_lock_key c src a = session_lock_key c src b \<longleftrightarrow> a = b"
  by (simp add: session_lock_key_def)

lemma set_sorted_set [simp]: "set (sorted_set ids) = set ids"
  by (simp add: sorted_set_def)

lemma sorted_set_Nil_iff [simp]: "sorted_set ids = [] \<longleftrightarrow> ids = []"
  by (metis set_empty set_sorted_set)

text \<open>
  \<^verbatim>\<open>refuse_deleted_sessions\<close> takes exactly one lock per session it is asked about, in
  strictly increasing order of lock name, so two writers never take the locks of the same sessions
  in opposite orders; it refuses exactly when one of those sessions is recorded as deleted, and
  names exactly the recorded ones.
\<close>

theorem refuse_deleted_sessions_correct:
  "fst (refuse_deleted_sessions db c src ids) = map (session_lock_key c src) (sorted_set ids)
   \<and> sorted (fst (refuse_deleted_sessions db c src ids))
   \<and> distinct (fst (refuse_deleted_sessions db c src ids))
   \<and> set (fst (refuse_deleted_sessions db c src ids)) = session_lock_key c src ` set ids
   \<and> (snd (refuse_deleted_sessions db c src ids) = Inr () \<longleftrightarrow> deleted_sessions db c src ids = {})
   \<and> (case snd (refuse_deleted_sessions db c src ids) of
        Inl x \<Rightarrow> set (x_sessions x) = deleted_sessions db c src ids
      | Inr _ \<Rightarrow> True)"
proof -
  have sub: "deleted_sessions db c src (sorted_set ids) \<subseteq> set ids"
    by (auto simp: deleted_sessions_def split: option.splits)
  have same: "deleted_sessions db c src (sorted_set ids) = deleted_sessions db c src ids"
    by (simp add: deleted_sessions_def split: option.split)
  have "sorted (map (session_lock_key c src) (sorted_set ids))"
    by (simp add: sorted_map sorted_set_def)
  moreover have "distinct (map (session_lock_key c src) (sorted_set ids))"
    by (simp add: distinct_map inj_on_def sorted_set_def)
  ultimately show ?thesis
    using sub same
    by (auto simp: refuse_deleted_sessions_def Let_def filter_empty_conv split: sum.splits)
qed

subsection \<open>Objects\<close>

text \<open>The part of an own key behind the session folder.\<close>

definition own_rest :: "string \<Rightarrow> bool" where
  "own_rest rest \<longleftrightarrow>
     rest = ''finalize.marker'' \<or> rest = TRAJECTORY_FILE
     \<or> (\<exists>m. rest = MEDIA_FOLDER @ m \<and> media_name m)
     \<or> (\<exists>m. rest = CACHE_FOLDER @ m \<and> ends_with m ''.json'' \<and> CHR ''/'' \<notin> set m)"

lemma contains_slash_iff: "contains s ''/'' \<longleftrightarrow> CHR ''/'' \<in> set s"
  by (auto simp: contains_iff dest: split_list)

lemma is_own_folder_key_iff:
  "is_own_folder_key key folder \<longleftrightarrow> (\<exists>rest. key = folder @ rest \<and> own_rest rest)"
proof (cases "starts_with key folder")
  case False
  then show ?thesis by (auto simp: is_own_folder_key_def)
next
  case True
  then obtain rest where key: "key = folder @ rest" by (auto simp: starts_with_iff)
  have nonempty: "MEDIA_FOLDER \<noteq> []" "CACHE_FOLDER \<noteq> []"
    by (simp_all add: MEDIA_FOLDER_def CACHE_FOLDER_def)
  have disj: "\<not> (starts_with rest MEDIA_FOLDER \<and> starts_with rest CACHE_FOLDER)"
    by (auto simp: starts_with_iff MEDIA_FOLDER_def CACHE_FOLDER_def)
  have "is_own_folder_key key folder \<longleftrightarrow> own_rest rest"
  proof (cases "starts_with rest MEDIA_FOLDER")
    case True
    then obtain m where m: "rest = MEDIA_FOLDER @ m" by (auto simp: starts_with_iff)
    then have "remove_prefix rest MEDIA_FOLDER = m" by (simp add: remove_prefix_def)
    then show ?thesis
      using m disj True nonempty
      by (auto simp: is_own_folder_key_def key own_rest_def MEDIA_FOLDER_def CACHE_FOLDER_def
          TRAJECTORY_FILE_def)
  next
    case False
    then have media: "remove_prefix rest MEDIA_FOLDER = rest" by (simp add: remove_prefix_def)
    show ?thesis
    proof (cases "starts_with rest CACHE_FOLDER")
      case True
      then obtain m where m: "rest = CACHE_FOLDER @ m" by (auto simp: starts_with_iff)
      then have "remove_prefix rest CACHE_FOLDER = m" by (simp add: remove_prefix_def)
      then show ?thesis
        using m media False nonempty
        by (auto simp: is_own_folder_key_def key own_rest_def contains_slash_iff
            MEDIA_FOLDER_def CACHE_FOLDER_def TRAJECTORY_FILE_def)
    next
      case False
      then have "remove_prefix rest CACHE_FOLDER = rest" by (simp add: remove_prefix_def)
      then show ?thesis
        using media False \<open>\<not> starts_with rest MEDIA_FOLDER\<close>
        by (auto simp: is_own_folder_key_def key own_rest_def)
    qed
  qed
  then show ?thesis using key by auto
qed

lemma is_hex_slash [simp]: "\<not> is_hex CHR ''/''"
  by (simp add: is_hex_def is_digit_def less_eq_char_def)

lemma media_name_no_slash: "media_name m \<Longrightarrow> CHR ''/'' \<notin> set m"
proof
  assume m: "media_name m" and slash: "CHR ''/'' \<in> set m"
  from slash have "CHR ''/'' \<in> set (take 64 m) \<or> CHR ''/'' \<in> set (drop 64 m)"
    by (metis Un_iff append_take_drop_id set_append)
  with m show False by (auto simp: media_name_def list_all_iff)
qed

lemma own_rest_no_slash:
  "own_rest rest \<Longrightarrow> CHR ''/'' \<notin> set rest \<Longrightarrow> rest = ''finalize.marker'' \<or> rest = TRAJECTORY_FILE"
  by (auto simp: own_rest_def MEDIA_FOLDER_def CACHE_FOLDER_def)

lemma marker_not_json: "\<not> ends_with ''finalize.marker'' ''.json''"
  by (simp add: ends_with_def)

lemma own_rest_slash_cases:
  assumes "own_rest (y @ CHR ''/'' # rest')"
  shows "(y = ''media'' \<and> media_name rest')
         \<or> (y = ''extraction-cache'' \<and> ends_with rest' ''.json'' \<and> CHR ''/'' \<notin> set rest')"
proof -
  let ?r = "y @ CHR ''/'' # rest'"
  from assms consider
    (plain) "?r = ''finalize.marker'' \<or> ?r = TRAJECTORY_FILE"
  | (media) m where "?r = ''media'' @ CHR ''/'' # m" "media_name m"
  | (cache) m where "?r = ''extraction-cache'' @ CHR ''/'' # m" "ends_with m ''.json''"
      "CHR ''/'' \<notin> set m"
    by (auto simp: own_rest_def MEDIA_FOLDER_def CACHE_FOLDER_def)
  then show ?thesis
  proof cases
    case plain
    have "CHR ''/'' \<in> set ?r" by simp
    moreover have "CHR ''/'' \<notin> set ''finalize.marker''" "CHR ''/'' \<notin> set TRAJECTORY_FILE"
      by (simp_all add: TRAJECTORY_FILE_def)
    ultimately have False using plain by metis
    then show ?thesis ..
  next
    case media
    have "''media'' = y \<and> m = rest'"
      using media(1) [symmetric] media_name_no_slash [OF media(2)]
      by (subst (asm) append_Cons_eq_iff) auto
    with media show ?thesis by simp
  next
    case cache
    have "''extraction-cache'' = y \<and> m = rest'"
      using cache(1) [symmetric] cache(3)
      by (subst (asm) append_Cons_eq_iff) auto
    with cache show ?thesis by simp
  qed
qed


text \<open>
  A session id may hold a slash, so the folder of session \<^verbatim>\<open>X/y\<close> lies inside the folder
  of session \<^verbatim>\<open>X\<close>. A key is taken as the own object of both only in one case: \<open>y\<close> is
  \<^verbatim>\<open>extraction-cache\<close> and the key is the nested session's \<^verbatim>\<open>trajectory.json\<close>. In every other case
  sweeping \<^verbatim>\<open>X\<close> leaves the nested session's objects alone.
\<close>

theorem own_folder_nested:
  assumes "is_own_folder_key k (session_folder src c (x @ ''/'' @ y))"
    and "is_own_folder_key k (session_folder src c x)"
  shows "y = ''extraction-cache'' \<and> k = session_folder src c (x @ ''/'' @ y) @ TRAJECTORY_FILE"
proof -
  let ?f = "session_folder src c x"
  have nest: "session_folder src c (x @ ''/'' @ y) = ?f @ y @ ''/''"
    by (simp add: session_folder_def)
  from assms(1) obtain r' where r': "k = ?f @ y @ CHR ''/'' # r'" "own_rest r'"
    unfolding is_own_folder_key_iff nest by auto
  from assms(2) r'(1) have "own_rest (y @ CHR ''/'' # r')"
    by (auto simp: is_own_folder_key_iff)
  then have "(y = ''media'' \<and> media_name r')
    \<or> (y = ''extraction-cache'' \<and> ends_with r' ''.json'' \<and> CHR ''/'' \<notin> set r')"
    by (rule own_rest_slash_cases)
  moreover have "r' = ''finalize.marker'' \<or> r' = TRAJECTORY_FILE" if "CHR ''/'' \<notin> set r'"
    using own_rest_no_slash [OF r'(2) that] .
  moreover have "\<not> media_name ''finalize.marker''" "\<not> media_name TRAJECTORY_FILE"
    by (simp_all add: media_name_def TRAJECTORY_FILE_def)
  ultimately have "y = ''extraction-cache'' \<and> r' = TRAJECTORY_FILE"
    using media_name_no_slash marker_not_json by metis
  with r'(1) nest show ?thesis by simp
qed

text \<open>The remaining case is real: the nested session's trajectory is taken for the outer session's.\<close>

theorem own_folder_nested_witness:
  "is_own_folder_key ''raw/pi/acme/s1/extraction-cache/trajectory.json''
     (session_folder ''pi'' ''acme'' ''s1/extraction-cache'')
   \<and> is_own_folder_key ''raw/pi/acme/s1/extraction-cache/trajectory.json''
     (session_folder ''pi'' ''acme'' ''s1'')
   \<and> ''raw/pi/acme/s1/extraction-cache/trajectory.json''
     = session_folder ''pi'' ''acme'' ''s1/extraction-cache'' @ TRAJECTORY_FILE"
proof -
  let ?k = "''raw/pi/acme/s1/extraction-cache/trajectory.json''"
  have own: "is_own_folder_key ?k (session_folder ''pi'' ''acme'' (''s1'' @ ''/'' @ ''extraction-cache''))"
    "is_own_folder_key ?k (session_folder ''pi'' ''acme'' ''s1'')"
    by (simp_all add: is_own_folder_key_def session_folder_def TRAJECTORY_FILE_def MEDIA_FOLDER_def
        CACHE_FOLDER_def remove_prefix_def ends_with_def)
  show ?thesis using own own_folder_nested [OF own] by simp
qed

lemma objects_delete_named_keys:
  "objects (fst (delete_named_keys fails c keys db)) =
     filter (\<lambda>ob. \<not> (fst (fst ob) = c \<and> snd (fst ob) \<in> set keys \<and> \<not> fails (snd (fst ob)))) (objects db)"
  by (auto simp: delete_named_keys_def Let_def intro!: filter_cong)

text \<open>The keys one session's sweep names.\<close>

definition sweep_key :: "string \<Rightarrow> string \<Rightarrow> string \<Rightarrow> string \<Rightarrow> bool" where
  "sweep_key src c sid k \<longleftrightarrow>
     is_own_folder_key k (session_folder src c sid) \<or> starts_with k (media_staging_prefix src c sid)"

lemma is_own_folder_key_starts: "is_own_folder_key k f \<Longrightarrow> starts_with k f"
  by (auto simp: is_own_folder_key_iff)

lemma sweep_step_objects:
  "objects (fst (delete_named_keys fails c
       (own_folder_keys db c (session_folder src c sid)
        @ list_keys db c (media_staging_prefix src c sid)) db))
   = filter (\<lambda>ob. \<not> (fst (fst ob) = c \<and> sweep_key src c sid (snd (fst ob)) \<and> \<not> fails (snd (fst ob))))
       (objects db)"
  unfolding objects_delete_named_keys
  by (rule filter_cong)
    (auto simp: own_folder_keys_def list_keys_def sweep_key_def image_iff
      dest: is_own_folder_key_starts)

lemma sweep_ids_objects:
  assumes "\<forall>sid \<in> set sids. list_ok sid"
  shows "objects (fst (sweep_ids list_ok fails src c sids db d f))
    = filter (\<lambda>ob. \<not> (fst (fst ob) = c \<and> (\<exists>sid \<in> set sids. sweep_key src c sid (snd (fst ob)))
                      \<and> \<not> fails (snd (fst ob)))) (objects db)"
  using assms
proof (induction sids arbitrary: db d f)
  case Nil
  then show ?case by simp
next
  case (Cons sid sids)
  let ?db = "fst (delete_named_keys fails c (own_folder_keys db c (session_folder src c sid)
        @ list_keys db c (media_staging_prefix src c sid)) db)"
  from Cons.prems have "objects (fst (sweep_ids list_ok fails src c (sid # sids) db d f))
    = filter (\<lambda>ob. \<not> (fst (fst ob) = c \<and> (\<exists>sid \<in> set sids. sweep_key src c sid (snd (fst ob)))
                      \<and> \<not> fails (snd (fst ob)))) (objects ?db)"
    by (simp add: Let_def split_beta Cons.IH)
  then show ?case
    unfolding sweep_step_objects by (auto intro!: filter_cong)
qed

text \<open>
  When every listing of a late sweep works, the objects that remain are exactly those that
  are not this customer's, or belong to none of the swept sessions, or that the store failed to
  delete: nothing of another session or tenant goes, and nothing of a swept session stays silently.
\<close>

theorem sweep_session_folders_exact:
  assumes "\<forall>sid \<in> set (x_sessions x). list_ok sid"
  shows "objects (fst (sweep_session_folders list_ok fails x db))
    = filter (\<lambda>ob. fst (fst ob) = x_customer x \<longrightarrow>
          (\<exists>sid \<in> set (x_sessions x). sweep_key (x_source x) (x_customer x) sid (snd (fst ob)))
          \<longrightarrow> fails (snd (fst ob))) (objects db)"
  using assms by (auto simp: sweep_session_folders_def sweep_ids_objects intro!: filter_cong)

theorem sweep_session_folders_exact_witness:
  "objects (fst (sweep_session_folders (\<lambda>_. True) (\<lambda>_. False)
      \<lparr>x_customer = ''acme'', x_source = ''pi'', x_sessions = [''s1'']\<rparr>
      \<lparr>customers = [], integration_tokens = [], github_source_gates = [], q_rows = [], q_next = 1,
       session_deletions = None,
       objects = [((''acme'', ''raw/pi/acme/s1/finalize.marker''), ''x''),
                  ((''acme'', ''raw/pi/acme/s2/finalize.marker''), ''y'')],
       legal_hold_meta = []\<rparr>))
   = [((''acme'', ''raw/pi/acme/s2/finalize.marker''), ''y'')]"
  by (subst sweep_session_folders_exact)
    (simp_all add: sweep_key_def is_own_folder_key_def session_folder_def media_staging_prefix_def
      MEDIA_STAGING_FOLDER_def TRAJECTORY_FILE_def MEDIA_FOLDER_def CACHE_FOLDER_def
      remove_prefix_def)

subsection \<open>Legal hold\<close>

text \<open>
  The two forms of the purge rule agree: \<^verbatim>\<open>purge_blocked_reason\<close> gives no reason exactly for
  the tenants \<^verbatim>\<open>purge_eligible_tenant_sql\<close> selects; and a tenant that exists and is on hold (whatever
  the shape of the value) is never eligible and always reads as held.
\<close>

theorem purge_rule_agrees:
  "(purge_blocked_reason db c = None \<longleftrightarrow> purge_eligible_tenant_sql db c)
   \<and> (map_of (customers db) c \<noteq> None \<longrightarrow> (read_legal_hold db c \<noteq> None \<longleftrightarrow> legal_hold_sql db c))
   \<and> (legal_hold_sql db c \<longrightarrow> purge_blocked_reason db c \<noteq> None)"
  by (auto simp: purge_blocked_reason_def purge_eligible_tenant_sql_def legal_hold_sql_def
      read_legal_hold_def split: option.splits hold_value.splits)

theorem purge_rule_agrees_witness:
  "purge_blocked_reason \<lparr>customers = [(''acme'', ''active'')], integration_tokens = [],
     github_source_gates = [], q_rows = [], q_next = 1, session_deletions = None, objects = [],
     legal_hold_meta = [(''acme'', HoldText [])]\<rparr> ''acme'' \<noteq> None"
  using purge_rule_agrees [of "\<lparr>customers = [(''acme'', ''active'')], integration_tokens = [],
     github_source_gates = [], q_rows = [], q_next = 1, session_deletions = None, objects = [],
     legal_hold_meta = [(''acme'', HoldText [])]\<rparr>" "''acme''"]
  by (auto simp: legal_hold_sql_def)

lemma reopen_keeps_held:
  assumes "session_deletions db = Some t" and "r \<in> set t" and "d_status r = ''held''"
  shows "\<exists>t'. session_deletions (reopen_deletion x why st db) = Some t' \<and> r \<in> set t'"
  using assms by (auto simp: reopen_deletion_def set_sql_update)

lemma reopen_same_sessions:
  "deleted_sessions (reopen_deletion x why st db) c src ids = deleted_sessions db c src ids"
proof (cases "session_deletions db")
  case None
  then show ?thesis by (simp add: deleted_sessions_def reopen_deletion_def)
next
  case (Some t)
  have "filter (\<lambda>r. d_customer r = c \<and> d_source r = src \<and> d_session r \<in> S) (sql_update p f t)
      = sql_update p f (filter (\<lambda>r. d_customer r = c \<and> d_source r = src \<and> d_session r \<in> S) t)"
    if "\<And>r. d_customer (f r) = d_customer r \<and> d_source (f r) = d_source r \<and> d_session (f r) = d_session r"
    for S p f
    using that by (induction t) auto
  then show ?thesis
    using Some by (simp add: deleted_sessions_def reopen_deletion_def map_sql_update)
qed

end
