(* ===== verification/Json.thy ===== *)
theory Json
  imports Prelude
begin

section \<open>JSON values as Python sees them\<close>

text \<open>
  What \<^verbatim>\<open>json.loads\<close> returns, with the parts of Python's semantics the code relies on: \<open>type(x) is int\<close>
  (a bool is not one), equality of a number with an int (\<open>2.0 == 2\<close> and \<open>True == 1\<close> hold),
  truth values, \<open>dict.get\<close>, \<open>str.strip\<close> and \<open>str.split\<close>, \<open>uuid.UUID\<close> on a string and the
  digest pattern \<open>[a-f0-9]{64}\<close>. A float is a rational number; a dict is its items in order.
\<close>

datatype json =
    JNull
  | JBool bool
  | JInt int
  | JFloat rat
  | JStr string
  | JList "json list"
  | JObj "(string \<times> json) list"

text \<open>The exceptions \<^verbatim>\<open>except (KeyError, TypeError, ValueError, AttributeError)\<close> tells apart.\<close>

datatype exc = KeyError string | TypeError | ValueError string | AttributeError

definition obj_get :: "json \<Rightarrow> string \<Rightarrow> json option" where
  "obj_get v k = (case v of JObj kvs \<Rightarrow> map_of kvs k | _ \<Rightarrow> None)"

text \<open>\<^verbatim>\<open>d.get(k)\<close>, None read as null.\<close>

definition get_or_null :: "json \<Rightarrow> string \<Rightarrow> json" where
  "get_or_null v k = (case obj_get v k of None \<Rightarrow> JNull | Some x \<Rightarrow> x)"

fun truthy :: "json \<Rightarrow> bool" where
  "truthy JNull = False"
| "truthy (JBool b) = b"
| "truthy (JInt n) = (n \<noteq> 0)"
| "truthy (JFloat q) = (q \<noteq> 0)"
| "truthy (JStr s) = (s \<noteq> [])"
| "truthy (JList xs) = (xs \<noteq> [])"
| "truthy (JObj kvs) = (kvs \<noteq> [])"

text \<open>\<^verbatim>\<open>v == n\<close> for an int \<open>n\<close>.\<close>

fun eq_int :: "json \<Rightarrow> int \<Rightarrow> bool" where
  "eq_int (JInt m) n = (m = n)"
| "eq_int (JBool b) n = ((if b then 1 else 0) = n)"
| "eq_int (JFloat q) n = (q = of_int n)"
| "eq_int _ n = False"

definition is_dict :: "json \<Rightarrow> bool" where
  "is_dict v = (case v of JObj _ \<Rightarrow> True | _ \<Rightarrow> False)"

subsection \<open>Strings\<close>

text \<open>The characters \<^verbatim>\<open>str.strip()\<close> removes.\<close>

definition is_space :: "char \<Rightarrow> bool" where
  "is_space ch \<longleftrightarrow> (of_char ch :: nat) \<in> {9, 10, 11, 12, 13, 28, 29, 30, 31, 32, 133, 160}"

definition strip_of :: "(char \<Rightarrow> bool) \<Rightarrow> string \<Rightarrow> string" where
  "strip_of p s = rev (dropWhile p (rev (dropWhile p s)))"

fun split_on :: "char \<Rightarrow> string \<Rightarrow> string list" where
  "split_on c [] = [[]]"
| "split_on c (x # xs) =
     (if x = c then [] # split_on c xs
      else case split_on c xs of [] \<Rightarrow> [[x]] | w # ws \<Rightarrow> (x # w) # ws)"

definition csv :: "string \<Rightarrow> string list" where
  "csv s = filter (\<lambda>w. w \<noteq> []) (map (strip_of is_space) (split_on (CHR '','') s))"

text \<open>\<^verbatim>\<open>s.replace(w, "")\<close> for a non-empty \<open>w\<close>: occurrences from left to right.\<close>

function remove_all :: "string \<Rightarrow> string \<Rightarrow> string" where
  "remove_all w s =
     (case s of [] \<Rightarrow> []
      | c # cs \<Rightarrow> if w \<noteq> [] \<and> starts_with s w then remove_all w (drop (length w) s)
                  else c # remove_all w cs)"
  by pat_completeness auto
termination
  by (relation "measure (length \<circ> snd)") auto

declare remove_all.simps [simp del]

definition is_hex_digit :: "char \<Rightarrow> bool" where
  "is_hex_digit ch \<longleftrightarrow> ch \<in> set ''0123456789abcdefABCDEF''"

text \<open>What \<^verbatim>\<open>int(s, 16)\<close> reads: blanks, a sign, \<^verbatim>\<open>0x\<close>, digits with single underscores between.\<close>

fun hex_digits :: "string \<Rightarrow> bool" where
  "hex_digits [] = False"
| "hex_digits [c] = is_hex_digit c"
| "hex_digits (c # d # cs) =
     (is_hex_digit c \<and> (if d = CHR ''_'' then hex_digits cs else hex_digits (d # cs)))"

definition int16_ok :: "string \<Rightarrow> bool" where
  "int16_ok s =
     (let t = strip_of is_space s;
          u = (case t of c # cs \<Rightarrow> if c = CHR ''+'' \<or> c = CHR ''-'' then cs else t | [] \<Rightarrow> t);
          v = (if starts_with u ''0x'' \<or> starts_with u ''0X''
               then (case drop 2 u of c # cs \<Rightarrow> if c = CHR ''_'' then cs else c # cs | [] \<Rightarrow> [])
               else u)
      in hex_digits v)"

text \<open>Whether \<^verbatim>\<open>UUID(s)\<close> returns.\<close>

definition uuid_ok :: "string \<Rightarrow> bool" where
  "uuid_ok s =
     (let h = remove_all ''uuid:'' (remove_all ''urn:'' s);
          h' = filter (\<lambda>c. c \<noteq> CHR ''-'') (strip_of (\<lambda>c. c = CHR ''{'' \<or> c = CHR ''}'') h)
      in length h' = 32 \<and> int16_ok h')"

text \<open>\<^verbatim>\<open>re.fullmatch(r"[a-f0-9]{64}", s)\<close>\<close>

definition sha_hex :: "string \<Rightarrow> bool" where
  "sha_hex s \<longleftrightarrow> length s = 64 \<and> list_all (\<lambda>c. c \<in> set ''0123456789abcdef'') s"

text \<open>\<^verbatim>\<open>int(v)\<close> of a string for which \<^verbatim>\<open>v.isascii() and v.isdigit()\<close> holds; None for any other.\<close>

definition digit_val :: "char \<Rightarrow> nat" where
  "digit_val c = of_char c - 48"

definition ascii_digits :: "string \<Rightarrow> nat option" where
  "ascii_digits v =
     (if v \<noteq> [] \<and> list_all (\<lambda>c. c \<in> set ''0123456789'') v
      then Some (foldl (\<lambda>n c. 10 * n + digit_val c) 0 v) else None)"

end
