(* ===== verification/Receipts.thy ===== *)
theory Receipts
  imports Suppression Json
begin

section \<open>The session receipt door\<close>

text \<open>
  \<^verbatim>\<open>kb/session_receipts.py\<close>: a capture client uploads a coding-agent session in numbered batches
  (protocol 2 sends events, protocol 3 one fragment per event). The door validates a batch, settles
  it against the session's stream (one row of \<^verbatim>\<open>session_streams\<close>), stores it under a content-addressed
  key, appends the key to the session's queue row and writes one receipt; a resent batch is answered
  from its receipt. Old (protocol 1) producers are fenced off once a stream exists. The images a
  batch names are stamped in the same transaction (\<^verbatim>\<open>kb/session_media.py\<close>).

  \<open>door_env\<close> holds what the door calls: the digest of a canonical payload (SHA-256 of its JSON
  text), the redaction of a payload before it is stored and the JSON text of a value. \<open>between\<close> is
  what other transactions commit while the payload is redacted, between the door's first look and
  the one under the session lock. An exception after the object is stored rolls the tables back and
  leaves the object.
\<close>

subsection \<open>State and settings\<close>

record settings =
  session_fragment_versions :: string
  session_protocol3_all :: bool
  session_protocol3_customers :: string
  session_protocol2_new_streams :: bool
  session_protocol3_events :: bool
  session_media_all :: bool
  session_media_customers :: string

record stream_row =
  st_customer :: string
  st_source :: string
  st_session :: string
  st_stream_id :: string
  st_protocol :: int
  st_last_seq :: int
  st_byte_end :: int
  st_line_end :: int
  st_event_end :: int
  st_prefix :: string
  st_finalized :: bool
  st_device :: "json option"
  st_snapshot_end :: "int option"
  st_snapshot_sha :: "string option"

record receipt_view =
  rv_batch_seq :: int
  rv_body_sha256 :: string
  rv_byte_end :: int
  rv_line_end :: int
  rv_event_end :: int
  rv_prefix :: string
  rv_finalized :: bool

record receipt_row =
  rc_customer :: string
  rc_source :: string
  rc_session :: string
  rc_payload_key :: string
  rc_view :: receipt_view

record media_row =
  m_customer :: string
  m_source :: string
  m_session :: string
  m_sha256 :: string
  m_named_at :: "time option"

text \<open>\<^verbatim>\<open>documents\<close>: one row per version; \<^verbatim>\<open>metadata\<close> is read for the uploader and the two emails only.\<close>

record document_row =
  doc_customer :: string
  doc_id :: string
  doc_version :: int
  doc_source :: string
  doc_source_id :: string
  doc_parent :: "string option"
  doc_type :: string
  doc_valid_to :: "time option"
  doc_visibility :: string
  doc_deleted_at :: "time option"
  doc_author :: "string option"
  doc_uploader :: "string option"
  doc_employee_email :: "string option"
  doc_uploader_email :: "string option"

text \<open>\<open>session_media\<close> is None before the migration that creates the table.\<close>

record stream_db = sup_db +
  session_streams :: "stream_row table"
  session_batch_receipts :: "receipt_row table"
  documents :: "document_row table"
  session_media :: "media_row table option"

record door_env =
  de_digest :: "json \<Rightarrow> string"
  de_redact :: "json \<Rightarrow> json"
  de_dumps :: "json \<Rightarrow> string"

datatype door_error =
    InvalidProtocol exc
  | SessionDeletedGone
  | Conflict string
  | Crashed exc

definition EMPTY_HASH :: string where
  "EMPTY_HASH = ''e3b0c44298fc1c149afbf4c8996fb92427ae41e4649b934ca495991b7852b855''"

definition PROTOCOL_EVENTS :: int where "PROTOCOL_EVENTS = 2"
definition PROTOCOL_FRAGMENTS :: int where "PROTOCOL_FRAGMENTS = 3"
definition PROTOCOL3_NOT_ENABLED :: string where "PROTOCOL3_NOT_ENABLED = ''protocol 3 not enabled''"
definition PROTOCOL_MISMATCH :: string where "PROTOCOL_MISMATCH = ''protocol mismatch''"
definition PROTOCOL2_RETIRED :: string where "PROTOCOL2_RETIRED = ''protocol 2 retired''"

text \<open>\<^verbatim>\<open>SUPPORTED_FRAGMENT_VERSIONS\<close> of \<^verbatim>\<open>engine/ingest/atif/fold.py\<close>.\<close>

definition SUPPORTED_FRAGMENT_VERSIONS :: "nat list" where "SUPPORTED_FRAGMENT_VERSIONS = [1, 2]"

subsection \<open>What a client may start\<close>

definition fragment_versions :: "settings \<Rightarrow> nat list" where
  "fragment_versions s =
     (let listed = List.map_filter ascii_digits (csv (session_fragment_versions s))
      in filter (\<lambda>v. v \<in> set listed) SUPPORTED_FRAGMENT_VERSIONS)"

definition protocol3_enabled :: "settings \<Rightarrow> string \<Rightarrow> bool" where
  "protocol3_enabled s c \<longleftrightarrow> session_protocol3_all s \<or> c \<in> set (csv (session_protocol3_customers s))"

definition protocol2_retired :: "settings \<Rightarrow> string \<Rightarrow> bool" where
  "protocol2_retired s c \<longleftrightarrow>
     \<not> session_protocol2_new_streams s \<and> protocol3_enabled s c \<and> fragment_versions s \<noteq> []"

definition media_enabled :: "settings \<Rightarrow> string \<Rightarrow> bool" where
  "media_enabled s c \<longleftrightarrow> session_media_all s \<or> c \<in> set (csv (session_media_customers s))"

record accepts_answer =
  ac_protocols :: "int list"
  ac_fragment_versions :: "nat list"
  ac_events :: bool
  ac_media :: bool

definition accepts :: "settings \<Rightarrow> string \<Rightarrow> accepts_answer" where
  "accepts s c =
     \<lparr>ac_protocols = (if protocol2_retired s c then [] else [PROTOCOL_EVENTS])
                     @ (if protocol3_enabled s c then [PROTOCOL_FRAGMENTS] else []),
      ac_fragment_versions = fragment_versions s,
      ac_events = session_protocol3_events s,
      ac_media = media_enabled s c\<rparr>"

subsection \<open>Validation\<close>

text \<open>The first exception a sequence of checks raises.\<close>

fun checks :: "(exc + unit) list \<Rightarrow> exc + unit" where
  "checks [] = Inr ()"
| "checks (c # cs) = (case c of Inl e \<Rightarrow> Inl e | Inr _ \<Rightarrow> checks cs)"

definition need :: "bool \<Rightarrow> string \<Rightarrow> exc + unit" where
  "need b msg = (if b then Inr () else Inl (ValueError msg))"

text \<open>Fields of a payload whose types have been checked.\<close>

definition gint :: "json \<Rightarrow> string \<Rightarrow> int" where
  "gint p k = (case obj_get p k of Some (JInt n) \<Rightarrow> n | _ \<Rightarrow> 0)"

definition gstr :: "json \<Rightarrow> string \<Rightarrow> string" where
  "gstr p k = (case obj_get p k of Some (JStr s) \<Rightarrow> s | _ \<Rightarrow> '''')"

definition glist :: "json \<Rightarrow> string \<Rightarrow> json list" where
  "glist p k = (case obj_get p k of Some (JList xs) \<Rightarrow> xs | _ \<Rightarrow> [])"

definition is_list_or_absent :: "json \<Rightarrow> string \<Rightarrow> bool" where
  "is_list_or_absent p k = (case obj_get p k of None \<Rightarrow> True | Some (JList _) \<Rightarrow> True | _ \<Rightarrow> False)"

definition finalizes :: "json \<Rightarrow> bool" where
  "finalizes p = truthy (get_or_null p ''finalize'')"

definition UNITS :: "string list" where
  "UNITS = [''source_byte'', ''source_line'', ''event'']"

definition ustart :: "json \<Rightarrow> string \<Rightarrow> int" where "ustart p u = gint p (u @ ''_start'')"
definition uend :: "json \<Rightarrow> string \<Rightarrow> int" where "uend p u = gint p (u @ ''_end'')"

definition check_uuid :: "json \<Rightarrow> string \<Rightarrow> exc + unit" where
  "check_uuid p k =
     (case obj_get p k of
        None \<Rightarrow> Inl (KeyError k)
      | Some (JStr s) \<Rightarrow> need (uuid_ok s) ''badly formed hexadecimal UUID string''
      | Some JNull \<Rightarrow> Inl TypeError
      | Some _ \<Rightarrow> Inl AttributeError)"

definition sends_fragments :: "json \<Rightarrow> bool" where
  "sends_fragments p = (obj_get p ''protocol_version'' = Some (JInt PROTOCOL_FRAGMENTS))"

definition check_protocol :: "json \<Rightarrow> exc + unit" where
  "check_protocol p =
     (case obj_get p ''protocol_version'' of
        None \<Rightarrow> Inl (KeyError ''protocol_version'')
      | Some v \<Rightarrow> need (sends_fragments p \<or> eq_int v PROTOCOL_EVENTS) ''unsupported codec'')"

definition check_nat :: "json \<Rightarrow> string \<Rightarrow> exc + unit" where
  "check_nat p k =
     (case obj_get p k of
        None \<Rightarrow> Inl (KeyError k)
      | Some v \<Rightarrow> need (case v of JInt n \<Rightarrow> 0 \<le> n | _ \<Rightarrow> False) (''invalid '' @ k))"

definition check_prefix :: "json \<Rightarrow> exc + unit" where
  "check_prefix p =
     (case obj_get p ''prefix_sha256'' of
        None \<Rightarrow> Inl (KeyError ''prefix_sha256'')
      | Some (JStr s) \<Rightarrow> need (sha_hex s) ''invalid prefix digest''
      | Some _ \<Rightarrow> Inl TypeError)"

definition check_snapshot :: "json \<Rightarrow> exc + unit" where
  "check_snapshot p =
     (if get_or_null p ''snapshot_byte_end'' = JNull \<and> get_or_null p ''snapshot_sha256'' = JNull
      then Inr ()
      else checks
        [need (case get_or_null p ''snapshot_byte_end'' of
                 JInt n \<Rightarrow> uend p ''source_byte'' \<le> n | _ \<Rightarrow> False)
           ''invalid historical snapshot boundary'',
         (case obj_get p ''snapshot_sha256'' of
            None \<Rightarrow> Inl (ValueError ''invalid historical snapshot digest'')
          | Some (JStr s) \<Rightarrow> need (sha_hex s) ''invalid historical snapshot digest''
          | Some _ \<Rightarrow> Inl TypeError)])"

text \<open>\<^verbatim>\<open>list(range(a, b))\<close>\<close>

definition py_range :: "int \<Rightarrow> int \<Rightarrow> int list" where
  "py_range a b = map (\<lambda>i. a + int i) [0..<nat (b - a)]"

text \<open>\<^verbatim>\<open>_check_ordinals\<close>\<close>

definition ordinals_ok :: "json list \<Rightarrow> string \<Rightarrow> int \<Rightarrow> int \<Rightarrow> bool" where
  "ordinals_ok items key a b = list_all2 (\<lambda>item n. eq_int (get_or_null item key) n) items (py_range a b)"

definition fragment_ordinal :: "json \<Rightarrow> int option" where
  "fragment_ordinal item =
     (case get_or_null (get_or_null item ''line'') ''line_no'' of JInt n \<Rightarrow> Some n | _ \<Rightarrow> None)"

definition validate_fragments :: "settings \<Rightarrow> bool \<Rightarrow> json \<Rightarrow> exc + unit" where
  "validate_fragments s accepted p =
     (let a = ustart p ''event''; b = uend p ''event''; frags = glist p ''fragments'';
          events = glist p ''events''
      in checks
        ([need (is_list_or_absent p ''fragments'' \<and> b - a = int (length frags))
            ''fragment coverage does not match payload'',
          need (\<not> (finalizes p \<and> frags \<noteq> [])) ''finalize cannot carry fragments'',
          need (None \<notin> set (map fragment_ordinal frags))
            ''fragment is not an object with an integer ordinal'',
          need (map fragment_ordinal frags = map Some (py_range a b))
            ''fragment ordinals are not contiguous'',
          need (frags = [] \<or> obj_get p ''fragment_version'' \<noteq> None)
            ''fragments carry no fragment_version'',
          need (accepted \<or> (case obj_get p ''fragment_version'' of None \<Rightarrow> True
                  | Some (JInt n) \<Rightarrow> n \<in> set (map int (fragment_versions s)) | Some _ \<Rightarrow> False))
            ''unsupported fragment version'']
         @ (if obj_get p ''events'' = None then []
            else [need (is_list_or_absent p ''events'' \<and> length events = length frags)
                    ''event coverage does not match payload'',
                  need (\<not> (finalizes p \<and> events \<noteq> [])) ''finalize cannot carry events'',
                  need (ordinals_ok events ''line_no'' a b)
                    ''retained-event ordinals are not contiguous''])))"

definition validate_payload :: "settings \<Rightarrow> bool \<Rightarrow> json \<Rightarrow> exc + unit" where
  "validate_payload s accepted p =
     checks
       ([check_uuid p ''session_id'', check_uuid p ''stream_id'', check_protocol p]
        @ map (check_nat p)
            [''batch_seq'', ''source_byte_start'', ''source_byte_end'', ''source_line_start'',
             ''source_line_end'', ''event_start'', ''event_end'']
        @ map (\<lambda>u. need (ustart p u \<le> uend p u) (''invalid '' @ u @ '' interval'')) UNITS
        @ [check_prefix p, check_snapshot p]
        @ (if sends_fragments p then [validate_fragments s accepted p]
           else [need (is_list_or_absent p ''events''
                       \<and> uend p ''event'' - ustart p ''event'' = int (length (glist p ''events'')))
                   ''event coverage does not match payload'',
                 need (\<not> (finalizes p \<and> glist p ''events'' \<noteq> [])) ''finalize cannot carry events''])
        @ [need (\<not> (finalizes p \<and> (\<exists>u \<in> set UNITS. ustart p u \<noteq> uend p u)))
             ''finalize must certify the already accepted cursor'']
        @ (if sends_fragments p then []
           else [need (ordinals_ok (glist p ''events'') ''line_no'' (ustart p ''event'') (uend p ''event''))
                   ''retained-event ordinals are not contiguous'']))"

definition payload_protocol :: "json \<Rightarrow> int" where
  "payload_protocol p =
     (if eq_int (get_or_null p ''protocol_version'') PROTOCOL_FRAGMENTS then PROTOCOL_FRAGMENTS
      else PROTOCOL_EVENTS)"

text \<open>The object \<^verbatim>\<open>canonical_payload\<close> writes out: the identity fields, sorted by name.\<close>

definition FIELDS :: "string list" where
  "FIELDS =
     [''session_id'', ''batch_seq'', ''cwd'', ''events'', ''fragments'', ''fragment_version'', ''finalize'',
      ''protocol_version'', ''stream_id'', ''source_byte_start'', ''source_byte_end'',
      ''source_line_start'', ''source_line_end'', ''event_start'', ''event_end'', ''prefix_sha256'',
      ''provenance'', ''snapshot_byte_end'', ''snapshot_sha256'']"

definition canonical_payload :: "json \<Rightarrow> json" where
  "canonical_payload p =
     JObj (List.map_filter (\<lambda>k. map_option (Pair k) (obj_get p k)) (sort FIELDS))"

subsection \<open>Settling a batch\<close>

definition stream_key :: "stream_row \<Rightarrow> string \<times> string \<times> string" where
  "stream_key st = (st_customer st, st_source st, st_session st)"

definition receipt_key :: "receipt_row \<Rightarrow> (string \<times> string \<times> string) \<times> int" where
  "receipt_key rc = ((rc_customer rc, rc_source rc, rc_session rc), rv_batch_seq (rc_view rc))"

definition refuse_deleted :: "'a sup_db_scheme \<Rightarrow> string \<Rightarrow> string \<Rightarrow> string \<Rightarrow> bool" where
  "refuse_deleted db c src sid = (deleted_sessions db c src [sid] \<noteq> {})"

definition legacy_exists :: "'a stream_db_scheme \<Rightarrow> string \<Rightarrow> string \<Rightarrow> string \<Rightarrow> bool" where
  "legacy_exists db c src sid \<longleftrightarrow>
     (c, src, sid) \<in> q_key ` set (q_rows db)
     \<or> (c, src @ '':'' @ c @ '':'' @ sid) \<in> (\<lambda>d. (doc_customer d, doc_id d)) ` set (documents db)"

definition reject_legacy_writer :: "'a stream_db_scheme \<Rightarrow> string \<Rightarrow> string \<Rightarrow> string \<Rightarrow> bool" where
  "reject_legacy_writer db c src sid = ((c, src, sid) \<in> stream_key ` set (session_streams db))"

text \<open>The stream \<^verbatim>\<open>_settle\<close> starts from when the session has none.\<close>

definition new_stream :: "string \<Rightarrow> string \<Rightarrow> string \<Rightarrow> string \<Rightarrow> int \<Rightarrow> json option \<Rightarrow> stream_row" where
  "new_stream c src sid stream_id protocol dev =
     \<lparr>st_customer = c, st_source = src, st_session = sid, st_stream_id = stream_id,
      st_protocol = protocol, st_last_seq = -1, st_byte_end = 0, st_line_end = 0, st_event_end = 0,
      st_prefix = EMPTY_HASH, st_finalized = False, st_device = dev, st_snapshot_end = None,
      st_snapshot_sha = None\<rparr>"

definition snapshot_end_of :: "json \<Rightarrow> int option" where
  "snapshot_end_of p = (case get_or_null p ''snapshot_byte_end'' of JInt n \<Rightarrow> Some n | _ \<Rightarrow> None)"

definition snapshot_sha_of :: "json \<Rightarrow> string option" where
  "snapshot_sha_of p = (case get_or_null p ''snapshot_sha256'' of JStr x \<Rightarrow> Some x | _ \<Rightarrow> None)"

datatype door_status = Accepted | Duplicate

record door_answer =
  an_status :: door_status
  an_protocol :: int
  an_receipt :: receipt_view

definition continues :: "json \<Rightarrow> stream_row \<Rightarrow> bool" where
  "continues p st \<longleftrightarrow>
     gint p ''batch_seq'' = st_last_seq st + 1 \<and> ustart p ''source_byte'' = st_byte_end st
     \<and> ustart p ''source_line'' = st_line_end st \<and> ustart p ''event'' = st_event_end st"

definition settle_new :: "settings \<Rightarrow> json \<Rightarrow> string \<Rightarrow> source_system \<Rightarrow> int \<Rightarrow> 'a stream_db_scheme
   \<Rightarrow> string option" where
  "settle_new cfg p c s protocol db =
     (if legacy_exists db c (source_value s) (gstr p ''session_id'')
      then Some ''legacy transcript requires reconciliation; no bytes replaced''
      else if gint p ''batch_seq'' \<noteq> 0 then Some ''unknown stream; first sequence must be zero''
      else if protocol = PROTOCOL_FRAGMENTS \<and> \<not> protocol3_enabled cfg c then Some PROTOCOL3_NOT_ENABLED
      else if protocol = PROTOCOL_EVENTS \<and> protocol2_retired cfg c then Some PROTOCOL2_RETIRED
      else None)"

text \<open>The checks of a batch that is not a duplicate, on the stream it continues.\<close>

definition settle_next :: "json \<Rightarrow> stream_row \<Rightarrow> string option" where
  "settle_next p st =
     (let snap_end = snapshot_end_of p; snap_sha = snapshot_sha_of p in
      if \<not> continues p st then Some ''batch does not continue the acknowledged source/event cursor''
      else if finalizes p \<and> gstr p ''prefix_sha256'' \<noteq> st_prefix st
      then Some ''finalize prefix differs from the accepted source''
      else if st_snapshot_end st \<noteq> None \<and> \<not> st_finalized st
              \<and> (snap_end, snap_sha) \<noteq> (st_snapshot_end st, st_snapshot_sha st)
      then Some ''historical snapshot changed before completion''
      else case snap_end of
        None \<Rightarrow> None
      | Some e \<Rightarrow>
          if finalizes p \<and> uend p ''source_byte'' \<noteq> e then Some ''historical snapshot is not fully accepted''
          else if uend p ''source_byte'' = e \<and> Some (gstr p ''prefix_sha256'') \<noteq> snap_sha
          then Some ''accepted source differs from the declared historical snapshot''
          else None)"

text \<open>\<^verbatim>\<open>_settle\<close>: an error, the answer of a duplicate, or None with whether the stream is new.\<close>

definition settle ::
  "settings \<Rightarrow> json \<Rightarrow> string \<Rightarrow> source_system \<Rightarrow> string \<Rightarrow> int \<Rightarrow> 'a stream_db_scheme
   \<Rightarrow> door_error + (door_answer option \<times> bool)" where
  "settle cfg p c s digest protocol db =
     (let sid = gstr p ''session_id''; src = source_value s;
          found = row_of stream_key (c, src, sid) (session_streams db);
          st = (case found of Some st \<Rightarrow> st
                | None \<Rightarrow> new_stream c src sid (gstr p ''stream_id'') protocol None)
      in if refuse_deleted db c src sid then Inl SessionDeletedGone
         else case (if found = None then settle_new cfg p c s protocol db else None) of
           Some msg \<Rightarrow> Inl (Conflict msg)
         | None \<Rightarrow>
             if st_stream_id st \<noteq> gstr p ''stream_id''
             then Inl (Conflict ''session owned by another stream; reconcile receipts first'')
             else if st_protocol st \<noteq> protocol then Inl (Conflict PROTOCOL_MISMATCH)
             else (case row_of receipt_key ((c, src, sid), gint p ''batch_seq'')
                          (session_batch_receipts db) of
                     Some prev \<Rightarrow>
                       if rv_body_sha256 (rc_view prev) \<noteq> digest
                       then Inl (Conflict ''batch identity already accepted with different content'')
                       else Inr (Some \<lparr>an_status = Duplicate, an_protocol = protocol,
                                       an_receipt = rc_view prev\<rparr>, False)
                   | None \<Rightarrow>
                       (case settle_next p st of
                          Some msg \<Rightarrow> Inl (Conflict msg)
                        | None \<Rightarrow> Inr (None, found = None))))"

subsection \<open>The images a batch names\<close>

text \<open>\<^verbatim>\<open>for x in v or ()\<close>: a text is iterated by its characters, an object by its keys, and a number
  raises.\<close>

fun iter_or_empty :: "json \<Rightarrow> exc + json list" where
  "iter_or_empty JNull = Inr []"
| "iter_or_empty (JBool b) = (if b then Inl TypeError else Inr [])"
| "iter_or_empty (JInt n) = (if n \<noteq> 0 then Inl TypeError else Inr [])"
| "iter_or_empty (JFloat q) = (if q \<noteq> 0 then Inl TypeError else Inr [])"
| "iter_or_empty (JStr cs) = Inr (map (\<lambda>c. JStr [c]) cs)"
| "iter_or_empty (JList xs) = Inr xs"
| "iter_or_empty (JObj kvs) = Inr (map (JStr \<circ> fst) kvs)"

definition digests_of :: "string \<Rightarrow> json \<Rightarrow> string list" where
  "digests_of ty v =
     (case get_or_null v ''type'' of
        JStr t \<Rightarrow> if t = ty then (case get_or_null v ''sha256'' of
                      JStr x \<Rightarrow> if sha_hex x then [x] else [] | _ \<Rightarrow> []) else []
      | _ \<Rightarrow> [])"

definition event_media :: "json \<Rightarrow> string list" where
  "event_media ev =
     (let raw = get_or_null ev ''raw'';
          content = get_or_null (get_or_null raw ''message'') ''content''
      in if get_or_null raw ''type'' = JStr ''user''
         then (case content of JList blocks \<Rightarrow> concat (map (digests_of ''image'') blocks) | _ \<Rightarrow> [])
         else [])"

definition fragment_media :: "json \<Rightarrow> string list" where
  "fragment_media item =
     (case get_or_null item ''parts'' of JList parts \<Rightarrow> concat (map (digests_of ''image'') parts) | _ \<Rightarrow> [])"

definition named_media :: "json \<Rightarrow> exc + string set" where
  "named_media p =
     (case iter_or_empty (get_or_null p ''events'') of Inl e \<Rightarrow> Inl e | Inr evs \<Rightarrow>
      case iter_or_empty (get_or_null p ''canary_events'') of Inl e \<Rightarrow> Inl e | Inr cevs \<Rightarrow>
      case iter_or_empty (get_or_null p ''fragments'') of Inl e \<Rightarrow> Inl e | Inr frags \<Rightarrow>
        Inr (set (concat (map event_media (evs @ cevs)) @ concat (map fragment_media frags))))"

definition mark_named ::
  "string \<Rightarrow> string \<Rightarrow> string \<Rightarrow> string set \<Rightarrow> time \<Rightarrow> 'a stream_db_scheme \<Rightarrow> 'a stream_db_scheme" where
  "mark_named c src sid shas now db =
     db\<lparr>session_media := map_option
         (sql_update (\<lambda>m. m_customer m = c \<and> m_source m = src \<and> m_session m = sid
                          \<and> m_sha256 m \<in> shas \<and> m_named_at m = None)
            (\<lambda>m. m\<lparr>m_named_at := Some now\<rparr>))
         (session_media db)\<rparr>"

subsection \<open>Accepting a batch\<close>

definition batch_key :: "string \<Rightarrow> source_system \<Rightarrow> string \<Rightarrow> int \<Rightarrow> string \<Rightarrow> string" where
  "batch_key c s sid seq digest =
     ''raw/'' @ source_value s @ ''/'' @ c @ ''/sessions-v2/'' @ sid @ ''/'' @ show_nat (nat seq) @ ''-''
     @ digest @ ''.json''"

definition receipt_for :: "json \<Rightarrow> string \<Rightarrow> receipt_view" where
  "receipt_for p digest =
     \<lparr>rv_batch_seq = gint p ''batch_seq'', rv_body_sha256 = digest,
      rv_byte_end = uend p ''source_byte'', rv_line_end = uend p ''source_line'',
      rv_event_end = uend p ''event'', rv_prefix = gstr p ''prefix_sha256'', rv_finalized = finalizes p\<rparr>"

definition advance_stream :: "json \<Rightarrow> stream_row \<Rightarrow> stream_row" where
  "advance_stream p st =
     st\<lparr>st_last_seq := gint p ''batch_seq'', st_byte_end := uend p ''source_byte'',
        st_line_end := uend p ''source_line'', st_event_end := uend p ''event'',
        st_prefix := gstr p ''prefix_sha256'', st_finalized := finalizes p,
        st_snapshot_end := snapshot_end_of p, st_snapshot_sha := snapshot_sha_of p\<rparr>"

text \<open>The transaction under the session lock, once the batch is to be stored.\<close>

definition store_batch ::
  "door_env \<Rightarrow> registry \<Rightarrow> json \<Rightarrow> string \<Rightarrow> source_system \<Rightarrow> string \<Rightarrow> int \<Rightarrow> bool \<Rightarrow> time
   \<Rightarrow> 'a stream_db_scheme \<Rightarrow> 'a stream_db_scheme \<times> (door_error + door_answer)" where
  "store_batch env reg p c s digest protocol new now db =
     (let sid = gstr p ''session_id''; src = source_value s;
          key = batch_key c s sid (gint p ''batch_seq'') digest;
          body = de_dumps env (JObj [(''payload'', de_redact env p)]);
          stored = put_object c key body db;
          db1 = (if new then stored\<lparr>session_streams := session_streams stored @
                   [new_stream c src sid (gstr p ''stream_id'') protocol
                      (obj_get (de_redact env p) ''device_id'')]\<rparr> else stored);
          db2 = enqueue_agent reg c s sid key now db1;
          rc = \<lparr>rc_customer = c, rc_source = src, rc_session = sid, rc_payload_key = key,
                rc_view = receipt_for p digest\<rparr>;
          db3 = db2\<lparr>session_batch_receipts := session_batch_receipts db2 @ [rc],
                    session_streams := sql_update (\<lambda>st. stream_key st = (c, src, sid))
                      (advance_stream p) (session_streams db2)\<rparr>
      in case named_media p of
           Inl e \<Rightarrow> (stored, Inl (Crashed e))
         | Inr shas \<Rightarrow> (if shas = {} then db3 else mark_named c src sid shas now db3,
                        Inr \<lparr>an_status = Accepted, an_protocol = protocol, an_receipt = rc_view rc\<rparr>))"

definition accept ::
  "settings \<Rightarrow> door_env \<Rightarrow> registry \<Rightarrow> ('a stream_db_scheme \<Rightarrow> 'a stream_db_scheme) \<Rightarrow> json \<Rightarrow> string
   \<Rightarrow> source_system \<Rightarrow> time \<Rightarrow> 'a stream_db_scheme
   \<Rightarrow> 'a stream_db_scheme \<times> (door_error + door_answer)" where
  "accept cfg env reg between p c s now db =
     (case validate_payload cfg False p of
        Inl e \<Rightarrow> (db, Inl (InvalidProtocol e))
      | Inr _ \<Rightarrow>
          if \<not> is_source_connected db c s then (db, Inl (Conflict ''session capture source is disconnected''))
          else let protocol = payload_protocol p; digest = de_digest env (canonical_payload p) in
            case settle cfg p c s digest protocol db of
              Inl e \<Rightarrow> (db, Inl e)
            | Inr (Some dup, _) \<Rightarrow> (db, Inr dup)
            | Inr (None, _) \<Rightarrow>
                let db1 = between db in
                case settle cfg p c s digest protocol db1 of
                  Inl e \<Rightarrow> (db1, Inl e)
                | Inr (Some dup, _) \<Rightarrow> (db1, Inr dup)
                | Inr (None, new) \<Rightarrow> store_batch env reg p c s digest protocol new now db1)"

text \<open>\<^verbatim>\<open>accept_legacy\<close>: \<open>body\<close> is the redacted envelope of a protocol-1 batch.\<close>

definition accept_legacy ::
  "registry \<Rightarrow> string \<Rightarrow> string \<Rightarrow> source_system \<Rightarrow> string \<Rightarrow> string \<Rightarrow> time \<Rightarrow> 'a stream_db_scheme
   \<Rightarrow> 'a stream_db_scheme \<times> (door_error + bool)" where
  "accept_legacy reg sid c s key body now db =
     (if \<not> is_source_connected db c s then (db, Inr False)
      else if refuse_deleted db c (source_value s) sid then (db, Inl SessionDeletedGone)
      else if reject_legacy_writer db c (source_value s) sid
      then (db, Inl (Conflict ''session uses protocol 2; upgrade the capture producer''))
      else (enqueue_agent reg c s sid key now (put_object c key body db), Inr True))"

subsection \<open>Reading receipts\<close>

datatype receipts_state = StateDeleted | StateLegacy | StateAbsent | StateReady stream_row

record receipts_answer =
  ra_protocol :: int
  ra_accepts :: accepts_answer
  ra_state :: receipts_state
  ra_receipts :: "receipt_view list"
  ra_more :: bool

datatype receipts_error = UnsupportedTranscriptSource | MalformedSessionId

definition receipts ::
  "settings \<Rightarrow> string \<Rightarrow> string \<Rightarrow> string \<Rightarrow> int \<Rightarrow> nat \<Rightarrow> 'a stream_db_scheme
   \<Rightarrow> receipts_error + receipts_answer" where
  "receipts cfg src sid c after n db =
     (if src \<notin> set (map source_value [CLAUDE_CODE, CODEX, PI, KIMI_CODE, CAPY])
      then Inl UnsupportedTranscriptSource
      else if \<not> uuid_ok sid then Inl MalformedSessionId
      else let found = row_of stream_key (c, src, sid) (session_streams db);
               deleted = refuse_deleted db c src sid
        in case (deleted, found) of
          (False, Some st) \<Rightarrow>
            (let rows = sql_select
                   (\<lambda>rc. rc_customer rc = c \<and> rc_source rc = src \<and> rc_session rc = sid
                         \<and> after < rv_batch_seq (rc_view rc))
                   (\<lambda>rc. rv_batch_seq (rc_view rc)) n (session_batch_receipts db)
             in Inr \<lparr>ra_protocol = st_protocol st, ra_accepts = accepts cfg c, ra_state = StateReady st,
                     ra_receipts = map rc_view rows,
                     ra_more = (rows \<noteq> [] \<and> rv_batch_seq (rc_view (last rows)) < st_last_seq st)\<rparr>)
        | _ \<Rightarrow>
            Inr \<lparr>ra_protocol = PROTOCOL_EVENTS, ra_accepts = accepts cfg c,
                 ra_state = (if deleted then StateDeleted
                             else if legacy_exists db c src sid then StateLegacy else StateAbsent),
                 ra_receipts = [], ra_more = False\<rparr>)"

end
