(* ===== verification/Signals.thy ===== *)
theory Signals
  imports Sources Json
begin

section \<open>When a session has ended\<close>

text \<open>
  \<^verbatim>\<open>engine/shared/session_signals.py\<close>: a coding-agent session has ended when the newest key of its
  queue row is an end signal. The rule is written twice, in Python for the worker and as SQL text for
  the sweep; both are modelled, the SQL with its three-valued logic, and shown to be the same rule.
  Beside it, the two ways a key is made (\<^verbatim>\<open>kb/ingestion_app.py\<close> for protocol 1) and what the rule
  says of each.
\<close>

datatype session_protocol = PROTO_LEGACY | PROTO_EVENTS | PROTO_FRAGMENTS

definition session_protocol_of :: "json \<Rightarrow> session_protocol" where
  "session_protocol_of payload =
     (let v = get_or_null payload ''protocol_version'' in
      if eq_int v 3 then PROTO_FRAGMENTS else if eq_int v 2 then PROTO_EVENTS else PROTO_LEGACY)"

definition streamed :: "session_protocol \<Rightarrow> bool" where
  "streamed p = (p \<noteq> PROTO_LEGACY)"

definition CRON_MARKER_SUFFIX :: string where "CRON_MARKER_SUFFIX = ''/finalize.marker''"
definition V2_KEY_SEGMENT :: string where "V2_KEY_SEGMENT = ''/sessions-v2/''"
definition V1_KEY_EXT :: string where "V1_KEY_EXT = ''.json''"

datatype completed_by = V2_FINALIZE | V1_CLIENT_FINALIZE | CRON_MARKER

definition cron_marker_key :: "string \<Rightarrow> string \<Rightarrow> string \<Rightarrow> string" where
  "cron_marker_key src c sid = ''raw/'' @ src @ ''/'' @ c @ ''/'' @ sid @ CRON_MARKER_SUFFIX"

definition cron_marker_body :: "string \<Rightarrow> json" where
  "cron_marker_body sid =
     JObj [(''device_id'', JStr ''cron-finalize''), (''session_id'', JStr sid), (''batch_seq'', JInt (-1)),
           (''cwd'', JNull), (''events'', JList []), (''finalize'', JBool True)]"

definition is_cron_marker_key :: "string \<Rightarrow> bool" where
  "is_cron_marker_key key = ends_with key CRON_MARKER_SUFFIX"

definition is_v2_key :: "string \<Rightarrow> bool" where
  "is_v2_key key = contains key V2_KEY_SEGMENT"

definition storage_id :: "string \<Rightarrow> string" where
  "storage_id sid = replace_char (CHR ''/'') (CHR ''_'') sid"

definition is_v1_client_finalize_key :: "string \<Rightarrow> string \<Rightarrow> bool" where
  "is_v1_client_finalize_key key sid \<longleftrightarrow>
     CHR '':'' \<notin> set sid \<and> \<not> is_v2_key key \<and> ends_with key (''/'' @ storage_id sid @ V1_KEY_EXT)"

definition signal_for_key :: "string \<Rightarrow> string \<Rightarrow> completed_by option" where
  "signal_for_key key sid =
     (if is_cron_marker_key key then Some CRON_MARKER
      else if is_v1_client_finalize_key key sid then Some V1_CLIENT_FINALIZE
      else None)"

definition last_key_ends_v1_session :: "string list \<Rightarrow> string \<Rightarrow> bool" where
  "last_key_ends_v1_session keys sid \<longleftrightarrow> keys \<noteq> [] \<and> signal_for_key (last keys) sid \<noteq> None"

subsection \<open>The SQL twin\<close>

text \<open>A SQL value is None for NULL. Comparisons with NULL are NULL; AND and OR are Kleene's.\<close>

definition last_key_sql :: "string list \<Rightarrow> string option" where
  "last_key_sql keys = (if keys = [] then None else Some (keys ! (length keys - 1)))"

fun sql_and :: "bool option \<Rightarrow> bool option \<Rightarrow> bool option" where
  "sql_and (Some False) _ = Some False"
| "sql_and (Some True) b = b"
| "sql_and None (Some False) = Some False"
| "sql_and None _ = None"

fun sql_or :: "bool option \<Rightarrow> bool option \<Rightarrow> bool option" where
  "sql_or (Some True) _ = Some True"
| "sql_or (Some False) b = b"
| "sql_or None (Some True) = Some True"
| "sql_or None _ = None"

definition coalesce_false :: "bool option \<Rightarrow> bool" where
  "coalesce_false b = (b = Some True)"

text \<open>\<^verbatim>\<open>right(key, n) = tail\<close> and \<^verbatim>\<open>strpos(key, s) = 0\<close>\<close>

definition right_is :: "string option \<Rightarrow> nat \<Rightarrow> string \<Rightarrow> bool option" where
  "right_is key n w = map_option (\<lambda>k. sql_right k n = w) key"

definition strpos_zero :: "string option \<Rightarrow> string \<Rightarrow> bool option" where
  "strpos_zero key w = map_option (\<lambda>k. \<not> contains k w) key"

definition is_cron_marker_key_sql :: "string option \<Rightarrow> bool option" where
  "is_cron_marker_key_sql key = right_is key (length CRON_MARKER_SUFFIX) CRON_MARKER_SUFFIX"

definition ends_v1_session_sql :: "string option \<Rightarrow> string \<Rightarrow> bool" where
  "ends_v1_session_sql last_key sid =
     (let stored = replace_char (CHR ''/'') (CHR ''_'') sid;
          tl = ''/'' @ stored @ V1_KEY_EXT
      in coalesce_false (sql_or (is_cron_marker_key_sql last_key)
           (sql_and (strpos_zero (Some sid) '':'')
             (sql_and (strpos_zero last_key V2_KEY_SEGMENT)
               (right_is last_key (length stored + (length V1_KEY_EXT + 1)) tl)))))"

definition has_v2_key_sql :: "string list \<Rightarrow> bool" where
  "has_v2_key_sql keys = (\<exists>k \<in> set keys. contains k V2_KEY_SEGMENT)"

subsection \<open>Keys of protocol 1\<close>

text \<open>\<^verbatim>\<open>_compose_storage_id\<close>: \<open>hint\<close> is the parsed event's hint; a bool is an int in Python.\<close>

definition show_int :: "int \<Rightarrow> string" where
  "show_int n = (if n < 0 then ''-'' @ show_nat (nat (- n)) else show_nat (nat n))"

definition compose_storage_id :: "bool \<Rightarrow> string \<Rightarrow> json \<Rightarrow> string" where
  "compose_storage_id coalescing ev hint =
     (if coalescing \<and> is_dict hint
      then (case get_or_null hint ''batch_seq'' of
              JInt n \<Rightarrow> ev @ '':'' @ show_int n
            | JBool b \<Rightarrow> ev @ '':'' @ (if b then ''True'' else ''False'')
            | _ \<Rightarrow> ev)
      else ev)"

text \<open>\<^verbatim>\<open>_payload_key\<close>; \<open>day\<close> is the date text \<^verbatim>\<open>%Y/%m/%d\<close>.\<close>

definition payload_key :: "string \<Rightarrow> string \<Rightarrow> string \<Rightarrow> string \<Rightarrow> string" where
  "payload_key src c day ev =
     ''raw/'' @ src @ ''/'' @ c @ ''/'' @ day @ ''/'' @ replace_char (CHR ''/'') (CHR ''_'') ev @ ''.json''"

subsection \<open>The twins agree\<close>

lemma ends_sql_last_key: "ends_v1_session_sql (last_key_sql keys) sid = last_key_ends_v1_session keys sid"
proof (cases "keys = []")
  case True
  then show ?thesis
    by (cases "contains sid '':''")
      (simp_all add: ends_v1_session_sql_def last_key_sql_def last_key_ends_v1_session_def
        is_cron_marker_key_sql_def right_is_def strpos_zero_def coalesce_false_def)
next
  case False
  let ?k = "last keys"
  let ?tl = "''/'' @ storage_id sid @ V1_KEY_EXT"
  have key: "last_key_sql keys = Some ?k" using False by (simp add: last_key_sql_def last_conv_nth)
  have colon: "contains sid '':'' \<longleftrightarrow> CHR '':'' \<in> set sid"
    by (auto simp: contains_iff sublist_def in_set_conv_decomp)
  have len: "length (replace_char (CHR ''/'') (CHR ''_'') sid) + (length V1_KEY_EXT + 1) = length ?tl"
    by (simp add: storage_id_def)
  have right: "sql_right ?k (length w) = w \<longleftrightarrow> ends_with ?k w" for w
    by (simp add: sql_right_eq_iff)
  have "ends_v1_session_sql (Some ?k) sid \<longleftrightarrow> is_cron_marker_key ?k \<or> is_v1_client_finalize_key ?k sid"
    unfolding ends_v1_session_sql_def Let_def is_cron_marker_key_sql_def right_is_def strpos_zero_def len
    using right [of ?tl]
    by (simp add: coalesce_false_def right is_cron_marker_key_def is_v1_client_finalize_key_def is_v2_key_def
        colon storage_id_def [symmetric])
      (cases "ends_with ?k CRON_MARKER_SUFFIX"; cases "CHR '':'' \<in> set sid"; cases "contains ?k V2_KEY_SEGMENT"; simp)
  then show ?thesis using False
    by (simp add: key last_key_ends_v1_session_def signal_for_key_def)
qed

text \<open>
  Claim C32. The sweep's SQL and the worker's Python decide alike on every row: for any list of keys
  (the empty one included, where the SQL works on NULL) and any session id, the SQL text is true
  exactly when the newest key is an end signal.
\<close>

theorem sql_twin_agrees: "ends_v1_session_sql (last_key_sql keys) sid = last_key_ends_v1_session keys sid"
  by (rule ends_sql_last_key)

subsection \<open>What the rule says of each kind of key\<close>

lemma json_not_marker [simp]: "\<not> is_cron_marker_key (w @ ''.json'')"
proof -
  have "last (w @ ''.json'') = CHR ''n''" by simp
  moreover have "last key = CHR ''r''" if "is_cron_marker_key key" for key
    using that by (auto simp: is_cron_marker_key_def ends_with_iff CRON_MARKER_SUFFIX_def)
  ultimately show ?thesis by fastforce
qed

text \<open>Two names without a slash that end the same path are equal.\<close>

lemma same_last_segment:
  assumes "ends_with (w @ ''/'' @ x @ ext) (''/'' @ y @ ext)" and "CHR ''/'' \<notin> set x" and "CHR ''/'' \<notin> set y"
  shows "x = y"
proof -
  from assms(1) obtain v where "w @ ''/'' @ x = v @ ''/'' @ y" by (auto simp: ends_with_iff)
  then have eq: "rev x @ CHR ''/'' # rev w = rev y @ CHR ''/'' # rev v"
    by (metis append_Cons append_Nil append_assoc rev.simps(2) rev_append rev_rev_ident)
  have "takeWhile (\<lambda>c. c \<noteq> CHR ''/'') (rev x @ CHR ''/'' # rev w) = rev x"
    "takeWhile (\<lambda>c. c \<noteq> CHR ''/'') (rev y @ CHR ''/'' # rev v) = rev y"
    using assms(2,3) by (auto simp: takeWhile_append)
  with eq show ?thesis by simp
qed

lemma no_slash_stored: "CHR ''/'' \<notin> set (replace_char (CHR ''/'') (CHR ''_'') s)"
  by (auto simp: replace_char_def)

lemma key_signals:
  assumes "CHR '':'' \<notin> set sid"
  shows "signal_for_key (cron_marker_key src c sid) sid' = Some CRON_MARKER"
    and "\<not> is_v2_key (payload_key src c day sid) \<Longrightarrow>
      signal_for_key (payload_key src c day sid) sid = Some V1_CLIENT_FINALIZE"
    and "signal_for_key (payload_key src c day (compose_storage_id True sid (JObj [(''batch_seq'', JInt n)]))) sid = None"
proof -
  show "signal_for_key (cron_marker_key src c sid) sid' = Some CRON_MARKER"
    using ends_with_append [of "''raw/'' @ src @ ''/'' @ c @ ''/'' @ sid" CRON_MARKER_SUFFIX]
    by (simp add: signal_for_key_def is_cron_marker_key_def cron_marker_key_def)
  have key: "payload_key src c day ev = (''raw/'' @ src @ ''/'' @ c @ ''/'' @ day) @ ''/'' @ storage_id ev @ ''.json''" for ev
    by (simp add: payload_key_def storage_id_def)
  have nm: "\<not> is_cron_marker_key (payload_key src c day ev)" for ev
    using json_not_marker [of "''raw/'' @ src @ ''/'' @ c @ ''/'' @ day @ ''/'' @ storage_id ev"] by (simp add: key)
  have "ends_with (payload_key src c day sid) (''/'' @ storage_id sid @ V1_KEY_EXT)"
    unfolding key V1_KEY_EXT_def by (rule ends_with_append)
  then show "\<not> is_v2_key (payload_key src c day sid) \<Longrightarrow>
      signal_for_key (payload_key src c day sid) sid = Some V1_CLIENT_FINALIZE"
    using assms nm by (simp add: signal_for_key_def is_v1_client_finalize_key_def)
  let ?ev = "compose_storage_id True sid (JObj [(''batch_seq'', JInt n)])"
  have ev: "?ev = sid @ '':'' @ show_int n"
    by (simp add: compose_storage_id_def is_dict_def get_or_null_def obj_get_def)
  have "storage_id ?ev \<noteq> storage_id sid" by (simp add: ev storage_id_def replace_char_def)
  moreover have "ends_with (payload_key src c day ?ev) (''/'' @ storage_id sid @ V1_KEY_EXT) \<Longrightarrow>
      storage_id ?ev = storage_id sid"
    unfolding key V1_KEY_EXT_def
    by (erule same_last_segment) (simp_all add: storage_id_def no_slash_stored)
  ultimately show "signal_for_key (payload_key src c day ?ev) sid = None"
    using nm by (auto simp: signal_for_key_def is_v1_client_finalize_key_def)
qed

text \<open>
  The key alone tells an end signal from a batch: the sweep's marker ends any session it is
  on top of; a protocol-1 finalize key ends its session; and the key of a numbered protocol-1 batch of
  a session never does, whatever the session id and the batch number.
\<close>

theorem keys_classified:
  assumes "CHR '':'' \<notin> set sid"
  shows "signal_for_key (cron_marker_key src c sid) sid' = Some CRON_MARKER
    \<and> (\<not> is_v2_key (payload_key src c day sid) \<longrightarrow>
      signal_for_key (payload_key src c day sid) sid = Some V1_CLIENT_FINALIZE)
    \<and> signal_for_key (payload_key src c day
        (compose_storage_id True sid (JObj [(''batch_seq'', JInt n)]))) sid = None"
  using key_signals [OF assms] by blast

theorem keys_classified_witness:
  "signal_for_key (payload_key ''pi'' ''acme'' ''2026/10/01'' ''s1'') ''s1'' = Some V1_CLIENT_FINALIZE
   \<and> signal_for_key (payload_key ''pi'' ''acme'' ''2026/10/01''
        (compose_storage_id True ''s1'' (JObj [(''batch_seq'', JInt 7)]))) ''s1'' = None"
proof -
  have "\<not> is_v2_key (payload_key ''pi'' ''acme'' ''2026/10/01'' ''s1'')" by code_simp
  with keys_classified [of "''s1''" "''pi''" "''acme''" "''s1''" "''2026/10/01''" 7] show ?thesis by simp
qed

end
