(* ===== verification/Completer.thy ===== *)
theory Completer
  imports Receipts Signals
begin

section \<open>The idle-session sweep\<close>

text \<open>
  \<^verbatim>\<open>kb/session_completer.py\<close>: sessions that nobody ended are ended by appending a marker key to their
  queue row once they have been idle, page by page and tenant by tenant; sessions whose last pass was
  partial are queued again a bounded number of times.

  Times are seconds; \<open>now\<close> is the time of the run. \<open>put_ok\<close> says whether the store takes a key (a
  failing row is logged and the sweep goes on). \<open>dumps\<close> is the JSON text of the marker. The page loop
  \<open>sweep_tenant\<close> is a total function: its measure is the number of idle rows behind the cursor.
\<close>

subsection \<open>Ending a session\<close>

definition AGENT_SOURCES :: "source_system list" where
  "AGENT_SOURCES = [CLAUDE_CODE, CODEX, PI, KIMI_CODE, CAPY]"

definition MAX_EXTRACTION_RETRIES :: int where "MAX_EXTRACTION_RETRIES = 3"
definition MAX_DISABLED_RETRIES :: int where "MAX_DISABLED_RETRIES = 7"

definition idle_since :: "nat \<Rightarrow> time \<Rightarrow> queue_row \<Rightarrow> bool" where
  "idle_since idle_minutes now r \<longleftrightarrow> q_enqueued_at r < now - 60 * int idle_minutes"

definition eligible :: "nat \<Rightarrow> time \<Rightarrow> string option \<Rightarrow> queue_row \<Rightarrow> bool" where
  "eligible idle_minutes now last_key r \<longleftrightarrow>
     q_status r \<noteq> PROCESSING \<and> idle_since idle_minutes now r \<and> q_keys r \<noteq> []
     \<and> \<not> contains (q_event r) '':'' \<and> \<not> ends_v1_session_sql last_key (q_event r)"

definition sweep_order :: "queue_row \<Rightarrow> time \<times> int" where
  "sweep_order r = (q_enqueued_at r, q_id r)"

text \<open>The WHERE clause of \<^verbatim>\<open>_FIND_SQL\<close>.\<close>

definition findable :: "source_system \<Rightarrow> nat \<Rightarrow> time \<Rightarrow> string \<Rightarrow> 'a stream_db_scheme \<Rightarrow> queue_row \<Rightarrow> bool" where
  "findable s idle_minutes now tenant db r \<longleftrightarrow>
     q_source r = source_value s \<and> q_customer r = tenant
     \<and> eligible idle_minutes now (last_key_sql (q_keys r)) r
     \<and> \<not> (\<exists>st \<in> set (session_streams db).
            stream_key st = q_key r \<and> st_finalized st
            \<and> (case last_key_sql (q_keys r) of None \<Rightarrow> False | Some k \<Rightarrow> contains k V2_KEY_SEGMENT))"

definition find_rows ::
  "source_system \<Rightarrow> nat \<Rightarrow> nat \<Rightarrow> string \<Rightarrow> time \<times> int \<Rightarrow> time \<Rightarrow> 'a stream_db_scheme \<Rightarrow> queue_row list" where
  "find_rows s idle_minutes n tenant after now db =
     sql_select (\<lambda>r. findable s idle_minutes now tenant db r \<and> after < sweep_order r) sweep_order n (q_rows db)"

definition set_ended :: "string \<Rightarrow> time \<Rightarrow> queue_row \<Rightarrow> queue_row" where
  "set_ended key now r =
     r\<lparr>q_keys := q_keys r @ [key], q_status := PENDING, q_version := q_version r + 1,
       q_completed_at := None, q_error := None, q_enqueued_at := now\<rparr>"

text \<open>\<^verbatim>\<open>_END_SQL\<close>\<close>

definition endable :: "source_system \<Rightarrow> nat \<Rightarrow> time \<Rightarrow> int \<Rightarrow> queue_row \<Rightarrow> bool" where
  "endable s idle_minutes now qid r \<longleftrightarrow>
     q_id r = qid \<and> q_source r = source_value s \<and> eligible idle_minutes now (last_key_sql (q_keys r)) r"

definition end_sql ::
  "source_system \<Rightarrow> nat \<Rightarrow> string \<Rightarrow> int \<Rightarrow> time \<Rightarrow> 'a queue_db_scheme \<Rightarrow> 'a queue_db_scheme \<times> bool" where
  "end_sql s idle_minutes key qid now db =
     (update_rows (endable s idle_minutes now qid) (set_ended key now) db,
      filter (endable s idle_minutes now qid) (q_rows db) \<noteq> [])"

definition v2_client_already_ended ::
  "'a stream_db_scheme \<Rightarrow> int \<Rightarrow> string \<Rightarrow> string \<Rightarrow> string \<Rightarrow> bool" where
  "v2_client_already_ended db qid c src sid \<longleftrightarrow>
     (case row_of stream_key (c, src, sid) (session_streams db) of
        None \<Rightarrow> False
      | Some st \<Rightarrow> st_finalized st \<and>
          (case row_of q_id qid (q_rows db) of
             None \<Rightarrow> False
           | Some r \<Rightarrow> (case last_key_sql (q_keys r) of
               None \<Rightarrow> False
             | Some k \<Rightarrow> k \<noteq> [] \<and> contains k V2_KEY_SEGMENT \<and> \<not> is_cron_marker_key k)))"

text \<open>\<^verbatim>\<open>_end_one\<close>: None is the exception of a store that fails.\<close>

definition end_one ::
  "(string \<Rightarrow> string \<Rightarrow> bool) \<Rightarrow> (json \<Rightarrow> string) \<Rightarrow> source_system \<Rightarrow> queue_row \<Rightarrow> nat \<Rightarrow> bool \<Rightarrow> time
   \<Rightarrow> 'a stream_db_scheme \<Rightarrow> 'a stream_db_scheme \<times> bool option" where
  "end_one put_ok dumps s r idle_minutes dry_run now db =
     (let c = q_customer r; sid = q_event r; src = source_value s in
      if deleted_sessions db c src [sid] \<noteq> {} then (db, Some False)
      else if v2_client_already_ended db (q_id r) c src sid then (db, Some False)
      else if dry_run then (db, Some True)
      else let key = cron_marker_key src c sid in
        if \<not> put_ok c key then (db, None)
        else let (db', hit) = end_sql s idle_minutes key (q_id r) now
                   (put_object c key (dumps (cron_marker_body sid)) db)
             in (db', Some hit))"

subsection \<open>The run\<close>

record counters =
  ct_ended_here :: nat
  ct_enqueued :: nat
  ct_candidates :: nat
  ct_skipped :: nat
  ct_failed :: nat
  ct_capped :: bool

definition count_outcome :: "bool option \<Rightarrow> counters \<Rightarrow> counters" where
  "count_outcome out ct =
     (case out of
        None \<Rightarrow> ct\<lparr>ct_failed := ct_failed ct + 1\<rparr>
      | Some True \<Rightarrow> ct\<lparr>ct_enqueued := ct_enqueued ct + 1, ct_ended_here := ct_ended_here ct + 1\<rparr>
      | Some False \<Rightarrow> ct\<lparr>ct_skipped := ct_skipped ct + 1\<rparr>)"

fun end_rows ::
  "(string \<Rightarrow> string \<Rightarrow> bool) \<Rightarrow> (json \<Rightarrow> string) \<Rightarrow> source_system \<Rightarrow> nat \<Rightarrow> bool \<Rightarrow> time \<Rightarrow> queue_row list
   \<Rightarrow> 'a stream_db_scheme \<times> counters \<Rightarrow> 'a stream_db_scheme \<times> counters" where
  "end_rows put_ok dumps s idle_minutes dry_run now [] (db, ct) = (db, ct)"
| "end_rows put_ok dumps s idle_minutes dry_run now (r # rs) (db, ct) =
     (let (db', out) = end_one put_ok dumps s r idle_minutes dry_run now db
      in end_rows put_ok dumps s idle_minutes dry_run now rs (db', count_outcome out ct))"

text \<open>The idle rows behind the cursor.\<close>

definition idle_behind :: "nat \<Rightarrow> time \<Rightarrow> time \<times> int \<Rightarrow> 'a queue_db_scheme \<Rightarrow> nat" where
  "idle_behind idle_minutes now after db =
     length (filter (\<lambda>r. idle_since idle_minutes now r \<and> after < sweep_order r) (q_rows db))"

lemma end_one_rows:
  "q_rows (fst (end_one put_ok dumps s r idle_minutes dry_run now db)) = q_rows db
   \<or> (\<exists>p key. q_rows (fst (end_one put_ok dumps s r idle_minutes dry_run now db)) = sql_update p (set_ended key now) (q_rows db))"
  by (auto simp: end_one_def Let_def end_sql_def update_rows_def put_object_def)

lemma idle_behind_update:
  "length (filter (\<lambda>r. idle_since m now r \<and> after < sweep_order r) (sql_update p (set_ended key now) t))
   \<le> length (filter (\<lambda>r. idle_since m now r \<and> after < sweep_order r) t)"
  by (induction t) (auto simp: set_ended_def idle_since_def)

lemma end_one_idle:
  "idle_behind m now after (fst (end_one put_ok dumps s r m dry_run now db)) \<le> idle_behind m now after db"
  using end_one_rows [of put_ok dumps s r m dry_run now db]
  unfolding idle_behind_def by (elim disjE exE) (simp_all only: order_refl idle_behind_update)

lemma end_rows_idle:
  "idle_behind m now after (fst (end_rows put_ok dumps s m dry_run now rs (db, ct))) \<le> idle_behind m now after db"
proof (induction rs arbitrary: db ct)
  case (Cons r rs)
  obtain db' out where e: "end_one put_ok dumps s r m dry_run now db = (db', out)"
    by (cases "end_one put_ok dumps s r m dry_run now db")
  have "idle_behind m now after db' \<le> idle_behind m now after db"
    using end_one_idle [of m now after put_ok dumps s r dry_run db] by (simp add: e)
  with Cons [of db' "count_outcome out ct"] show ?case by (simp add: e)
qed simp

lemma page_shrinks:
  assumes "find_rows s m n tenant after now db = rows" and "rows \<noteq> []"
  shows "idle_behind m now (sweep_order (last rows)) db < idle_behind m now after db"
proof -
  let ?l = "last rows"
  have "?l \<in> set (find_rows s m n tenant after now db)" using assms by auto
  then have l: "?l \<in> set (q_rows db)" "idle_since m now ?l" "after < sweep_order ?l"
    unfolding find_rows_def by (auto dest!: set_sql_select_subset simp: findable_def eligible_def)
  show ?thesis
    unfolding idle_behind_def using l by (intro length_filter_strict [where x = ?l]) (auto dest: less_trans)
qed

text \<open>The \<^verbatim>\<open>while True\<close> of one source and one tenant.\<close>

function sweep_tenant ::
  "(string \<Rightarrow> string \<Rightarrow> bool) \<Rightarrow> (json \<Rightarrow> string) \<Rightarrow> source_system \<Rightarrow> nat \<Rightarrow> nat \<Rightarrow> bool \<Rightarrow> time \<Rightarrow> string
   \<Rightarrow> time \<times> int \<Rightarrow> 'a stream_db_scheme \<Rightarrow> counters \<Rightarrow> 'a stream_db_scheme \<times> counters" where
  "sweep_tenant put_ok dumps s idle_minutes limit dry_run now tenant after db ct =
     (let rows = find_rows s idle_minutes (limit - ct_ended_here ct) tenant after now db in
      if rows = [] then (db, ct)
      else let (db', ct') = end_rows put_ok dumps s idle_minutes dry_run now rows
                 (db, ct\<lparr>ct_candidates := ct_candidates ct + length rows\<rparr>)
           in if limit \<le> ct_ended_here ct' then (db', ct'\<lparr>ct_capped := True\<rparr>)
              else sweep_tenant put_ok dumps s idle_minutes limit dry_run now tenant
                     (sweep_order (last rows)) db' ct')"
  by pat_completeness auto
termination
proof (relation "measure (\<lambda>(put_ok, dumps, s, m, limit, dry_run, now, tenant, after, db, ct). idle_behind m now after db)",
    goal_cases)
  case 1
  then show ?case by simp
next
  case (2 put_ok dumps s m limit dry_run now tenant after db ct rows x db' ct')
  have db': "db' = fst (end_rows put_ok dumps s m dry_run now rows (db, ct\<lparr>ct_candidates := ct_candidates ct + length rows\<rparr>))"
    using 2(3,4) by (metis fst_conv)
  have "idle_behind m now (sweep_order (last rows)) db' \<le> idle_behind m now (sweep_order (last rows)) db"
    unfolding db' by (rule end_rows_idle)
  also have "\<dots> < idle_behind m now after db" using page_shrinks 2(1,2) by blast
  finally show ?case by simp
qed

declare sweep_tenant.simps [simp del]

text \<open>The loop over the tenants of one source; it stops once the source has ended \<open>limit\<close> sessions.\<close>

fun sweep_tenants ::
  "(string \<Rightarrow> string \<Rightarrow> bool) \<Rightarrow> (json \<Rightarrow> string) \<Rightarrow> source_system \<Rightarrow> nat \<Rightarrow> nat \<Rightarrow> bool \<Rightarrow> time \<Rightarrow> string list
   \<Rightarrow> 'a stream_db_scheme \<times> counters \<Rightarrow> 'a stream_db_scheme \<times> counters" where
  "sweep_tenants put_ok dumps s idle_minutes limit dry_run now [] (db, ct) = (db, ct)"
| "sweep_tenants put_ok dumps s idle_minutes limit dry_run now (tenant # ts) (db, ct) =
     (if limit \<le> ct_ended_here ct then (db, ct)
      else sweep_tenants put_ok dumps s idle_minutes limit dry_run now ts
             (sweep_tenant put_ok dumps s idle_minutes limit dry_run now tenant (0, 0) db ct))"

fun sweep_sources ::
  "(string \<Rightarrow> string \<Rightarrow> bool) \<Rightarrow> (json \<Rightarrow> string) \<Rightarrow> nat \<Rightarrow> nat \<Rightarrow> bool \<Rightarrow> time \<Rightarrow> string list
   \<Rightarrow> source_system list \<Rightarrow> 'a stream_db_scheme \<times> counters \<Rightarrow> 'a stream_db_scheme \<times> counters" where
  "sweep_sources put_ok dumps idle_minutes limit dry_run now tenants [] (db, ct) = (db, ct)"
| "sweep_sources put_ok dumps idle_minutes limit dry_run now tenants (s # ss) (db, ct) =
     sweep_sources put_ok dumps idle_minutes limit dry_run now tenants ss
       (sweep_tenants put_ok dumps s idle_minutes limit dry_run now tenants (db, ct\<lparr>ct_ended_here := 0\<rparr>))"

subsection \<open>Retrying partial passes\<close>

definition retries_of :: "extraction_outcome \<Rightarrow> int" where
  "retries_of eo = (case eo_retries eo of None \<Rightarrow> 0 | Some n \<Rightarrow> n)"

definition retry_bound :: "extraction_outcome \<Rightarrow> int \<Rightarrow> int" where
  "retry_bound eo bound = (if eo_reason eo = Some ''disabled'' then MAX_DISABLED_RETRIES else bound)"

definition retryable :: "source_system \<Rightarrow> nat \<Rightarrow> int \<Rightarrow> time \<Rightarrow> queue_row \<Rightarrow> bool" where
  "retryable s idle_minutes bound now r \<longleftrightarrow>
     q_source r = source_value s \<and> q_status r = DONE \<and> idle_since idle_minutes now r
     \<and> (case q_outcome r of
          None \<Rightarrow> False
        | Some eo \<Rightarrow> eo_authoritative eo = Some False \<and> eo_keys eo = Some (int (length (q_keys r)))
            \<and> (case eo_reason eo of None \<Rightarrow> False | Some x \<Rightarrow> x \<noteq> ''capped'')
            \<and> retries_of eo < retry_bound eo bound)"

definition set_retried :: "time \<Rightarrow> queue_row \<Rightarrow> queue_row" where
  "set_retried now r =
     r\<lparr>q_status := PENDING, q_version := q_version r + 1, q_completed_at := None, q_error := None,
       q_enqueued_at := now,
       q_outcome := map_option (\<lambda>eo. eo\<lparr>eo_retries := Some (retries_of eo + 1)\<rparr>) (q_outcome r)\<rparr>"

text \<open>\<^verbatim>\<open>_RETRY_SQL\<close>\<close>

definition retry_sql ::
  "source_system \<Rightarrow> nat \<Rightarrow> int \<Rightarrow> time \<Rightarrow> 'a queue_db_scheme \<Rightarrow> 'a queue_db_scheme \<times> bool" where
  "retry_sql s idle_minutes qid now db =
     (let p = (\<lambda>r. q_id r = qid \<and> retryable s idle_minutes MAX_EXTRACTION_RETRIES now r)
      in (update_rows p (set_retried now) db, filter p (q_rows db) \<noteq> []))"

fun retry_rows ::
  "source_system \<Rightarrow> nat \<Rightarrow> time \<Rightarrow> queue_row list \<Rightarrow> 'a queue_db_scheme \<times> nat \<Rightarrow> 'a queue_db_scheme \<times> nat" where
  "retry_rows s idle_minutes now [] (db, n) = (db, n)"
| "retry_rows s idle_minutes now (r # rs) (db, n) =
     (let (db', hit) = retry_sql s idle_minutes (q_id r) now db
      in retry_rows s idle_minutes now rs (db', if hit then n + 1 else n))"

fun retry_sources ::
  "nat \<Rightarrow> nat \<Rightarrow> bool \<Rightarrow> time \<Rightarrow> source_system list \<Rightarrow> 'a queue_db_scheme \<times> nat \<Rightarrow> 'a queue_db_scheme \<times> nat" where
  "retry_sources idle_minutes limit dry_run now [] (db, n) = (db, n)"
| "retry_sources idle_minutes limit dry_run now (s # ss) (db, n) =
     (let rows = sql_select (\<lambda>r. retryable s idle_minutes MAX_EXTRACTION_RETRIES now r
                                  \<and> active_tenant_sql db (q_customer r)) q_enqueued_at limit (q_rows db)
      in if dry_run then retry_sources idle_minutes limit dry_run now ss (db, n + length rows)
         else retry_sources idle_minutes limit dry_run now ss (retry_rows s idle_minutes now rows (db, n)))"

text \<open>\<^verbatim>\<open>_retry_partial_passes\<close>; \<open>column\<close> says whether the migration with \<^verbatim>\<open>extraction_outcome\<close> has run.\<close>

definition retry_partial_passes ::
  "bool \<Rightarrow> bool \<Rightarrow> nat \<Rightarrow> nat \<Rightarrow> bool \<Rightarrow> time \<Rightarrow> 'a queue_db_scheme \<Rightarrow> 'a queue_db_scheme \<times> nat" where
  "retry_partial_passes extraction_enabled column idle_minutes limit dry_run now db =
     (if \<not> extraction_enabled then (db, 0)
      else if \<not> column then (db, 0)
      else retry_sources idle_minutes limit dry_run now AGENT_SOURCES (db, 0))"

definition enqueue_idle_session_finalizers ::
  "(string \<Rightarrow> string \<Rightarrow> bool) \<Rightarrow> (json \<Rightarrow> string) \<Rightarrow> bool \<Rightarrow> bool \<Rightarrow> nat \<Rightarrow> nat \<Rightarrow> bool \<Rightarrow> time
   \<Rightarrow> 'a stream_db_scheme \<Rightarrow> 'a stream_db_scheme \<times> nat" where
  "enqueue_idle_session_finalizers put_ok dumps extraction_enabled column idle_minutes limit dry_run now db =
     (let (db1, ct) = sweep_sources put_ok dumps idle_minutes limit dry_run now (ACTIVE_TENANTS_SQL db)
            AGENT_SOURCES (db, \<lparr>ct_ended_here = 0, ct_enqueued = 0, ct_candidates = 0, ct_skipped = 0,
                                ct_failed = 0, ct_capped = False\<rparr>);
          (db2, retried) = retry_partial_passes extraction_enabled column idle_minutes limit dry_run now db1
      in (db2, ct_enqueued ct + retried))"

definition has_v2_stream :: "'a stream_db_scheme \<Rightarrow> string \<Rightarrow> string \<Rightarrow> string \<Rightarrow> bool" where
  "has_v2_stream db c src sid = ((c, src, sid) \<in> stream_key ` set (session_streams db))"

subsection \<open>The sweep as a client of the queue\<close>

lemma set_ended_evolves: "evolves r (set_ended key now r)"
  by (simp add: set_ended_def evolves_def q_key_def)

lemma set_retried_evolves: "evolves r (set_retried now r)"
  by (simp add: set_retried_def evolves_def q_key_def)

interpretation endq: quiet_writer "\<lambda>db. fst (end_sql s m key qid now db)" for s m key qid now
proof
  fix db :: "'a queue_db_scheme"
  assume wf: "queue_wf db"
  show "queue_wf (fst (end_sql s m key qid now db))"
    using update_wf [OF set_ended_evolves wf] by (simp add: end_sql_def)
  show "db_evolves db (fst (end_sql s m key qid now db))"
    using update_evolves [OF set_ended_evolves wf] by (simp add: end_sql_def)
next
  fix db :: "'a queue_db_scheme"
  show "no_new_done db (fst (end_sql s m key qid now db))"
    by (auto simp: end_sql_def set_ended_def intro!: update_rows_quiet)
qed

interpretation retryq: quiet_writer "\<lambda>db. fst (retry_sql s m qid now db)" for s m qid now
proof
  fix db :: "'a queue_db_scheme"
  assume wf: "queue_wf db"
  show "queue_wf (fst (retry_sql s m qid now db))"
    using update_wf [OF set_retried_evolves wf] by (simp add: retry_sql_def Let_def)
  show "db_evolves db (fst (retry_sql s m qid now db))"
    using update_evolves [OF set_retried_evolves wf] by (simp add: retry_sql_def Let_def)
next
  fix db :: "'a queue_db_scheme"
  show "no_new_done db (fst (retry_sql s m qid now db))"
    by (auto simp: retry_sql_def Let_def set_retried_def intro!: update_rows_quiet)
qed

end
