(* ===== verification/Worker.thy ===== *)
theory Worker
  imports Completer
begin

section \<open>The ingestion worker\<close>

text \<open>
  \<^verbatim>\<open>engine/ingest/worker.py\<close>: one claimed row (\<open>process\<close>) or one coalesced batch
  (\<open>process_batch\<close>) worked to its end, the error paths, the manual-upload cleanup and the late
  sweep of a deleted session; then the whole drain as a step relation (\<open>drain_step\<close>) between
  enqueues, claims, heartbeats, pass ends, reclaims, replays and the two statements of the idle-session
  sweep in any order. The state \<open>worker_db\<close> extends the tables of the capture door.

  The normalizer (\<^verbatim>\<open>process_queue_row\<close>, \<^verbatim>\<open>_normalize_only\<close>, \<^verbatim>\<open>persist_batch\<close>) enters by what the
  worker sees of it: how the pass ended (\<open>pass_result\<close>: its document ids, or the class of the
  exception) and what other transactions committed while it ran (\<open>wd_between\<close>). The outside
  services enter by whether their calls fail (\<open>world\<close>). The statements of the worker itself are
  taken to succeed.
\<close>

subsection \<open>State\<close>

record event_row =
  e_customer :: string
  e_source :: string
  e_type :: string
  e_event :: string
  e_payload_key :: string
  e_status :: string
  e_error :: "string option"
  e_doc_ids :: "string list option"
  e_processed_at :: time

record upload_row =
  u_customer :: string
  u_upload_id :: string
  u_status :: string
  u_staging_key :: "string option"
  u_original_deleted_at :: "time option"
  u_indexed_at :: "time option"
  u_updated_at :: time
  u_parse_error :: "string option"

record worker_db = stream_db +
  ingestion_events :: "event_row table"
  manual_uploads :: "upload_row table"

record worker =
  w_max_attempts :: int
  w_concurrency :: int
  w_cap :: int
  w_coalesce :: int

text \<open>\<^verbatim>\<open>Worker.__init__\<close>; \<open>env\<close> is the value of \<^verbatim>\<open>INGEST_CLAIM_COALESCE_MAX\<close> (1 when unset).\<close>

definition mk_worker :: "int \<Rightarrow> int \<Rightarrow> int \<Rightarrow> int option \<Rightarrow> int \<Rightarrow> worker" where
  "mk_worker max_attempts concurrency cap coalesce env =
     \<lparr>w_max_attempts = max_attempts, w_concurrency = max 1 concurrency, w_cap = max 1 cap,
      w_coalesce = max 1 (case coalesce of None \<Rightarrow> env | Some n \<Rightarrow> n)\<rparr>"

datatype pass_result =
    PassOk "string list"
  | PassDuplicate string
  | PassSessionDeleted string session_deleted_exc
  | PassUnsupported string
  | PassPrbe bool string
  | PassCancelled
  | PassOther string

record 'd world =
  wd_between :: "'d \<Rightarrow> 'd"
  wd_delete_error :: "string option"
  wd_list_ok :: "string \<Rightarrow> bool"
  wd_fails :: "string \<Rightarrow> bool"

text \<open>What leaves a worker method: nothing, a cancellation or another exception.\<close>

datatype raised = NoRaise | RaiseCancelled | RaiseOther string

subsection \<open>Helpers\<close>

definition row_payload_keys :: "queue_row \<Rightarrow> string list" where
  "row_payload_keys row =
     (let keys = q_keys row in
      if keys = [] then (case q_payload_key row of None \<Rightarrow> keys | Some k \<Rightarrow> if k = [] then keys else [k])
      else keys)"

definition first_key :: "queue_row \<Rightarrow> string" where
  "first_key row = (case row_payload_keys row of [] \<Rightarrow> '''' | k # _ \<Rightarrow> k)"

definition event_type_for_source :: "source_system \<Rightarrow> string" where
  "event_type_for_source s = (if s = MANUAL_UPLOAD then ''manual'' else ''webhook'')"

text \<open>\<^verbatim>\<open>INSERT INTO ingestion_events ... ON CONFLICT DO UPDATE SET\<close> with the SET clause \<open>f\<close>.\<close>

definition upsert_event ::
  "event_row \<Rightarrow> (event_row \<Rightarrow> event_row) \<Rightarrow> 'a worker_db_scheme \<Rightarrow> 'a worker_db_scheme" where
  "upsert_event e f db =
     (let same = (\<lambda>r. e_customer r = e_customer e \<and> e_source r = e_source e \<and> e_event r = e_event e)
      in db\<lparr>ingestion_events :=
           (if \<exists>r \<in> set (ingestion_events db). same r
            then sql_update same f (ingestion_events db)
            else ingestion_events db @ [e])\<rparr>)"

definition mark_done ::
  "int \<Rightarrow> string \<Rightarrow> source_system \<Rightarrow> string \<Rightarrow> string \<Rightarrow> string list \<Rightarrow> int \<Rightarrow> time
   \<Rightarrow> 'a worker_db_scheme \<Rightarrow> 'a worker_db_scheme" where
  "mark_done qid c s ev key doc_ids ver now db =
     (let (db1, hit) = cas_commit None qid ver now db
      in if \<not> hit then db1
         else upsert_event
           \<lparr>e_customer = c, e_source = source_value s, e_type = event_type_for_source s, e_event = ev,
            e_payload_key = key, e_status = ''processed'', e_error = None,
            e_doc_ids = Some doc_ids, e_processed_at = now\<rparr>
           (\<lambda>r. r\<lparr>e_status := ''processed'', e_processed_at := now, e_doc_ids := Some doc_ids\<rparr>) db1)"

definition mark_skipped ::
  "int \<Rightarrow> string \<Rightarrow> source_system \<Rightarrow> string \<Rightarrow> string \<Rightarrow> string \<Rightarrow> int \<Rightarrow> time
   \<Rightarrow> 'a worker_db_scheme \<Rightarrow> 'a worker_db_scheme" where
  "mark_skipped qid c s ev key reason ver now db =
     (let (db1, hit) = cas_commit (Some reason) qid ver now db
      in if \<not> hit then db1
         else upsert_event
           \<lparr>e_customer = c, e_source = source_value s, e_type = event_type_for_source s, e_event = ev,
            e_payload_key = key, e_status = ''skipped'', e_error = Some reason,
            e_doc_ids = None, e_processed_at = now\<rparr>
           (\<lambda>r. r\<lparr>e_status := ''skipped'', e_error := Some reason, e_processed_at := now\<rparr>) db1)"

text \<open>\<^verbatim>\<open>_cleanup_manual_upload_original\<close>: Inl is the StorageUnavailable (transient) of the delete.\<close>

definition cleanup_manual_upload_original ::
  "string option \<Rightarrow> string \<Rightarrow> string \<Rightarrow> time \<Rightarrow> 'a worker_db_scheme
   \<Rightarrow> string + 'a worker_db_scheme" where
  "cleanup_manual_upload_original delete_error c upload_id now db =
     (let hit = (\<lambda>r. u_customer r = c \<and> u_upload_id r = upload_id) in
      case fetchrow (filter hit (manual_uploads db)) of
        None \<Rightarrow> Inr db
      | Some row \<Rightarrow>
          let staging = (case u_staging_key row of None \<Rightarrow> '''' | Some k \<Rightarrow> k);
              should_delete = (staging \<noteq> '''' \<and> u_original_deleted_at row = None)
          in if should_delete \<and> delete_error \<noteq> None then Inl (the delete_error)
             else let db1 = (if should_delete then delete_object c staging db else db)
                  in Inr (db1\<lparr>manual_uploads := sql_update hit
                       (\<lambda>r. r\<lparr>u_status := ''indexed'',
                             u_indexed_at := (case u_indexed_at r of None \<Rightarrow> Some now | x \<Rightarrow> x),
                             u_original_deleted_at :=
                               (case u_original_deleted_at r of None \<Rightarrow> Some now | x \<Rightarrow> x),
                             u_updated_at := now, u_parse_error := None\<rparr>)
                       (manual_uploads db1)\<rparr>))"

definition mark_manual_upload_failed_ingest ::
  "string \<Rightarrow> string \<Rightarrow> string \<Rightarrow> time \<Rightarrow> 'a worker_db_scheme \<Rightarrow> 'a worker_db_scheme" where
  "mark_manual_upload_failed_ingest c upload_id err now db =
     db\<lparr>manual_uploads := sql_update (\<lambda>r. u_customer r = c \<and> u_upload_id r = upload_id)
         (\<lambda>r. r\<lparr>u_status := ''failed_ingest'', u_parse_error := Some (take 4000 err),
               u_updated_at := now\<rparr>)
         (manual_uploads db)\<rparr>"

definition deleted_session :: "string \<Rightarrow> source_system \<Rightarrow> string \<Rightarrow> 'a sup_db_scheme \<Rightarrow> bool" where
  "deleted_session c s ev db =
     (if s \<notin> set AGENT_SESSION_SOURCES then False
      else is_session_deleted db c (source_value s) ev)"

definition sweep_deleted ::
  "(string \<Rightarrow> bool) \<Rightarrow> (string \<Rightarrow> bool) \<Rightarrow> session_deleted_exc \<Rightarrow> 'a sup_db_scheme \<Rightarrow> 'a sup_db_scheme" where
  "sweep_deleted list_ok fails x db =
     (case read_legal_hold db (x_customer x) of
        Some hold \<Rightarrow>
          reopen_deletion x (''legal hold: '' @ hold @ ''; late objects kept, resume once released'')
            ''held'' db
      | None \<Rightarrow>
          (case sweep_session_folders list_ok fails x db of
             (db1, Inr (removed, failed)) \<Rightarrow>
               if failed \<noteq> 0
               then reopen_deletion x
                 (show_nat failed @ '' late extraction-cache object(s) not deleted; resume the deletion'')
                 ''failed'' db1
               else db1
           | (db1, Inl err) \<Rightarrow>
               reopen_deletion x (''late sweep failed ('' @ err @ ''); resume the deletion'')
                 ''failed'' db1))"

definition sweep_if_deleted ::
  "(string \<Rightarrow> bool) \<Rightarrow> (string \<Rightarrow> bool) \<Rightarrow> string \<Rightarrow> source_system \<Rightarrow> string \<Rightarrow> 'a sup_db_scheme
   \<Rightarrow> 'a sup_db_scheme" where
  "sweep_if_deleted list_ok fails c s ev db =
     (if deleted_session c s ev db
      then sweep_deleted list_ok fails
             \<lparr>x_customer = c, x_source = source_value s, x_sessions = [session_of_event_id ev]\<rparr> db
      else db)"

text \<open>\<^verbatim>\<open>_fail_batch_row\<close>, and the error tail of \<^verbatim>\<open>_process\<close>.\<close>

definition fail_batch_row ::
  "worker \<Rightarrow> int \<Rightarrow> int \<Rightarrow> string \<Rightarrow> source_system \<Rightarrow> string \<Rightarrow> string \<Rightarrow> bool \<Rightarrow> int \<Rightarrow> time
   \<Rightarrow> 'a worker_db_scheme \<Rightarrow> 'a worker_db_scheme" where
  "fail_batch_row w qid attempts err s c ev transient ver now db =
     (let (db1, dead) = on_error (w_max_attempts w) qid attempts err transient ver now db
      in if dead \<and> s = MANUAL_UPLOAD then mark_manual_upload_failed_ingest c ev err now db1 else db1)"

subsection \<open>One claimed row\<close>

text \<open>The end of a pass: the body of \<^verbatim>\<open>_process\<close>'s try once the normalizer has returned or raised.\<close>

definition finish_pass ::
  "worker \<Rightarrow> queue_row \<Rightarrow> source_system \<Rightarrow> pass_result \<Rightarrow> 'd world \<Rightarrow> time \<Rightarrow> 'a worker_db_scheme
   \<Rightarrow> 'a worker_db_scheme \<times> raised" where
  "finish_pass w row s res wd now db =
     (let qid = q_id row; c = q_customer row; ev = q_event row; key = first_key row;
          ver = q_version row; attempts = q_attempts row + 1;
          sweep = sweep_if_deleted (wd_list_ok wd) (wd_fails wd) c s ev
      in case res of
        PassOk docs \<Rightarrow>
          (case (if s = MANUAL_UPLOAD
                 then cleanup_manual_upload_original (wd_delete_error wd) c ev now db else Inr db) of
             Inr db1 \<Rightarrow> (mark_done qid c s ev key docs ver now db1, NoRaise)
           | Inl err \<Rightarrow> (fail_batch_row w qid attempts err s c ev True ver now (sweep db), NoRaise))
      | PassDuplicate msg \<Rightarrow> (mark_skipped qid c s ev key msg ver now db, NoRaise)
      | PassSessionDeleted msg x \<Rightarrow>
          (mark_skipped qid c s ev key msg ver now
             (sweep_deleted (wd_list_ok wd) (wd_fails wd) x db), NoRaise)
      | PassUnsupported msg \<Rightarrow> (mark_skipped qid c s ev key msg ver now db, NoRaise)
      | PassPrbe transient msg \<Rightarrow>
          (fail_batch_row w qid attempts msg s c ev transient ver now (sweep db), NoRaise)
      | PassCancelled \<Rightarrow> (sweep db, RaiseCancelled)
      | PassOther msg \<Rightarrow>
          (fail_batch_row w qid attempts msg s c ev True ver now (sweep db), NoRaise))"

definition process ::
  "worker \<Rightarrow> queue_row \<Rightarrow> pass_result \<Rightarrow> 'a worker_db_scheme world \<Rightarrow> time \<Rightarrow> 'a worker_db_scheme
   \<Rightarrow> 'a worker_db_scheme \<times> raised" where
  "process w row res wd now db =
     (case source_of_value (q_source row) of
        None \<Rightarrow> (db, RaiseOther ''ValueError'')
      | Some s \<Rightarrow>
          if deleted_session (q_customer row) s (q_event row) db
          then (mark_skipped (q_id row) (q_customer row) s (q_event row) (first_key row)
                  ''session deleted'' (q_version row) now db, NoRaise)
          else finish_pass w row s res wd now (wd_between wd db))"

subsection \<open>A coalesced batch\<close>

text \<open>The normalize loop: the rows that normalized cleanly, with their results, and the state.\<close>

fun normalize_rows ::
  "worker \<Rightarrow> source_system \<Rightarrow> string \<Rightarrow> 'd world \<Rightarrow> time \<Rightarrow> (queue_row \<times> pass_result) list
   \<Rightarrow> 'a worker_db_scheme \<Rightarrow> 'a worker_db_scheme \<times> queue_row list \<times> raised" where
  "normalize_rows w s c wd now [] db = (db, [], NoRaise)"
| "normalize_rows w s c wd now ((row, res) # rest) db =
     (let qid = q_id row; ev = q_event row; key = first_key row; ver = q_version row;
          attempts = q_attempts row + 1;
          skip = (\<lambda>msg. mark_skipped qid c s ev key msg ver now db);
          fail = (\<lambda>tr msg. fail_batch_row w qid attempts msg s c ev tr ver now
                    (sweep_if_deleted (wd_list_ok wd) (wd_fails wd) c s ev db));
          go = (\<lambda>db'. normalize_rows w s c wd now rest db')
      in if deleted_session c s ev db then go (skip ''session deleted'')
         else case res of
           PassOk _ \<Rightarrow> (let (db', ok, r) = go db in (db', row # ok, r))
         | PassDuplicate msg \<Rightarrow> go (skip msg)
         | PassSessionDeleted msg _ \<Rightarrow> go (skip msg)
         | PassUnsupported msg \<Rightarrow> go (skip msg)
         | PassPrbe tr msg \<Rightarrow> go (fail tr msg)
         | PassCancelled \<Rightarrow> (db, [], RaiseCancelled)
         | PassOther msg \<Rightarrow> go (fail True msg))"

text \<open>How \<^verbatim>\<open>persist_batch\<close> ended: the document ids per item, or its exception.\<close>

datatype batch_result =
    BatchOk "string list list"
  | BatchSessionDeleted string session_deleted_exc
  | BatchPrbe bool string
  | BatchCancelled
  | BatchOther string

fun fail_rows ::
  "worker \<Rightarrow> source_system \<Rightarrow> string \<Rightarrow> string \<Rightarrow> bool \<Rightarrow> time \<Rightarrow> queue_row list
   \<Rightarrow> 'a worker_db_scheme \<Rightarrow> 'a worker_db_scheme" where
  "fail_rows w s c err tr now [] db = db"
| "fail_rows w s c err tr now (row # rows) db =
     fail_rows w s c err tr now rows
       (fail_batch_row w (q_id row) (q_attempts row + 1) err s c (q_event row) tr (q_version row) now db)"

fun sweep_rows ::
  "'d world \<Rightarrow> source_system \<Rightarrow> string \<Rightarrow> queue_row list \<Rightarrow> 'a worker_db_scheme
   \<Rightarrow> 'a worker_db_scheme" where
  "sweep_rows wd s c [] db = db"
| "sweep_rows wd s c (row # rows) db =
     sweep_rows wd s c rows (sweep_if_deleted (wd_list_ok wd) (wd_fails wd) c s (q_event row) db)"

text \<open>Finalization: a failed cleanup is logged and the row is left as it is.\<close>

fun finalize_rows ::
  "source_system \<Rightarrow> string \<Rightarrow> 'd world \<Rightarrow> time \<Rightarrow> (queue_row \<times> string list) list
   \<Rightarrow> 'a worker_db_scheme \<Rightarrow> 'a worker_db_scheme" where
  "finalize_rows s c wd now [] db = db"
| "finalize_rows s c wd now ((row, docs) # rest) db =
     (case (if s = MANUAL_UPLOAD
            then cleanup_manual_upload_original (wd_delete_error wd) c (q_event row) now db
            else Inr db) of
        Inl _ \<Rightarrow> finalize_rows s c wd now rest db
      | Inr db1 \<Rightarrow> finalize_rows s c wd now rest
          (mark_done (q_id row) c s (q_event row) (first_key row) docs (q_version row) now db1))"

definition persist_rows ::
  "worker \<Rightarrow> source_system \<Rightarrow> string \<Rightarrow> batch_result \<Rightarrow> 'd world \<Rightarrow> time \<Rightarrow> queue_row list
   \<Rightarrow> queue_row list \<Rightarrow> 'a worker_db_scheme \<Rightarrow> 'a worker_db_scheme \<times> raised" where
  "persist_rows w s c bres wd now all_rows normalized db =
     (case bres of
        BatchOk outcomes \<Rightarrow>
          (finalize_rows s c wd now (zip normalized outcomes) db,
           if length outcomes = length normalized then NoRaise else RaiseOther ''ValueError'')
      | BatchSessionDeleted msg x \<Rightarrow>
          (fail_rows w s c msg True now normalized
             (sweep_deleted (wd_list_ok wd) (wd_fails wd) x db), NoRaise)
      | BatchPrbe tr msg \<Rightarrow>
          (fail_rows w s c msg tr now normalized (sweep_rows wd s c normalized db), NoRaise)
      | BatchCancelled \<Rightarrow> (sweep_rows wd s c all_rows db, RaiseCancelled)
      | BatchOther msg \<Rightarrow>
          (fail_rows w s c msg True now normalized (sweep_rows wd s c normalized db), NoRaise))"

text \<open>\<^verbatim>\<open>_process_batch\<close> on a non-empty claim; the customer and source are those of its first row.\<close>

definition process_batch ::
  "worker \<Rightarrow> (queue_row \<times> pass_result) list \<Rightarrow> batch_result \<Rightarrow> 'a worker_db_scheme world \<Rightarrow> time
   \<Rightarrow> 'a worker_db_scheme \<Rightarrow> 'a worker_db_scheme \<times> raised" where
  "process_batch w rows bres wd now db =
     (case rows of
        [] \<Rightarrow> (db, RaiseOther ''IndexError'')
      | (row0, _) # _ \<Rightarrow>
          (case source_of_value (q_source row0) of
             None \<Rightarrow> (db, RaiseOther ''ValueError'')
           | Some s \<Rightarrow>
               (case normalize_rows w s (q_customer row0) wd now rows db of
                  (db1, normalized, RaiseCancelled) \<Rightarrow>
                    (sweep_rows wd s (q_customer row0) (map fst rows) db1, RaiseCancelled)
                | (db1, normalized, r) \<Rightarrow>
                    if normalized = [] then (db1, NoRaise)
                    else persist_rows w s (q_customer row0) bres wd now (map fst rows) normalized
                           (wd_between wd db1))))"

subsection \<open>One claim tick\<close>

text \<open>\<^verbatim>\<open>_claim_tick\<close>: \<open>results\<close> says how the pass of each claimed row ends.\<close>

definition claim_tick ::
  "worker \<Rightarrow> int list \<Rightarrow> (queue_row \<Rightarrow> pass_result) \<Rightarrow> batch_result \<Rightarrow> 'a worker_db_scheme world
   \<Rightarrow> time \<Rightarrow> 'a worker_db_scheme \<Rightarrow> 'a worker_db_scheme \<times> raised" where
  "claim_tick w locked results bres wd now db =
     (if w_coalesce w > 1 then
        (case claim_batch (nat (w_cap w)) (nat (w_coalesce w)) locked now db of
           (db1, []) \<Rightarrow> (db1, NoRaise)
         | (db1, rows) \<Rightarrow> process_batch w (map (\<lambda>r. (r, results r)) rows) bres wd now db1)
      else
        (case claim_one (nat (w_cap w)) locked now db of
           (db1, None) \<Rightarrow> (db1, NoRaise)
         | (db1, Some claimed) \<Rightarrow>
             (case process w claimed (results claimed) wd now db1 of
                (db2, RaiseOther e) \<Rightarrow>
                  (fst (on_error (w_max_attempts w) (q_id claimed) (q_attempts claimed + 1) e True
                          (q_version claimed) now db2), RaiseOther e)
              | (db2, r) \<Rightarrow> (db2, r))))"


subsection \<open>The drain as a step relation\<close>

text \<open>
  The queue with any number of workers, loops and producers. \<open>s_held\<close> are the rows claimed by passes
  that have not ended, as their claim returned them; \<open>s_log\<close> records, for every pass that ended
  without an error, the row and the payload keys that pass had read. Each step is one transaction
  of the source. A pass that dies with its process is \<open>crash\<close>; \<open>other\<close> is any transaction that
  leaves the queue table alone.
\<close>

record drain =
  s_db :: worker_db
  s_held :: "queue_row list"
  s_log :: "(int \<times> string list) list"

definition log_pass :: "queue_row \<Rightarrow> (int \<times> string list) list \<Rightarrow> (int \<times> string list) list" where
  "log_pass row lg = (q_id row, q_keys row) # lg"

inductive drain_step :: "worker \<Rightarrow> registry \<Rightarrow> drain \<Rightarrow> drain \<Rightarrow> bool" for w reg where
  enqueue_event:
    "drain_step w reg \<sigma> (\<sigma>\<lparr>s_db := fst (enqueue reg c s ev key now (s_db \<sigma>))\<rparr>)"
| agent_batch:
    "drain_step w reg \<sigma> (\<sigma>\<lparr>s_db := enqueue_agent reg c s sid key now (s_db \<sigma>)\<rparr>)"
| custom_document:
    "drain_step w reg \<sigma> (\<sigma>\<lparr>s_db := fst (enqueue_custom_document reg c live del h ev key now (s_db \<sigma>))\<rparr>)"
| code_graph_event:
    "drain_step w reg \<sigma> (\<sigma>\<lparr>s_db := fst (put_and_enqueue reg c ev key now (s_db \<sigma>))\<rparr>)"
| claim_row:
    "claim_one (nat (w_cap w)) locked now (s_db \<sigma>) = (db', Some row) \<Longrightarrow>
     drain_step w reg \<sigma> (\<sigma>\<lparr>s_db := db', s_held := row # s_held \<sigma>\<rparr>)"
| claim_rows:
    "claim_batch (nat (w_cap w)) (nat (w_coalesce w)) locked now (s_db \<sigma>) = (db', rows) \<Longrightarrow>
     drain_step w reg \<sigma> (\<sigma>\<lparr>s_db := db', s_held := rows @ s_held \<sigma>\<rparr>)"
| session_ended:
    "drain_step w reg \<sigma> (\<sigma>\<lparr>s_db := fst (end_sql s m key qid now (s_db \<sigma>))\<rparr>)"
| pass_retried:
    "drain_step w reg \<sigma> (\<sigma>\<lparr>s_db := fst (retry_sql s m qid now (s_db \<sigma>))\<rparr>)"
| beat:
    "drain_step w reg \<sigma> (\<sigma>\<lparr>s_db := heartbeat qid now (s_db \<sigma>)\<rparr>)"
| outcome_recorded:
    "drain_step w reg \<sigma> (\<sigma>\<lparr>s_db := record_extraction_outcome qid eo (s_db \<sigma>)\<rparr>)"
| pass_done:
    "row \<in> set (s_held \<sigma>) \<Longrightarrow>
     drain_step w reg \<sigma> (\<sigma>\<lparr>s_db := mark_done (q_id row) c s ev key docs (q_version row) now (s_db \<sigma>),
        s_held := remove1 row (s_held \<sigma>), s_log := log_pass row (s_log \<sigma>)\<rparr>)"
| pass_skipped:
    "row \<in> set (s_held \<sigma>) \<Longrightarrow>
     drain_step w reg \<sigma> (\<sigma>\<lparr>s_db := mark_skipped (q_id row) c s ev key msg (q_version row) now (s_db \<sigma>),
        s_held := remove1 row (s_held \<sigma>), s_log := log_pass row (s_log \<sigma>)\<rparr>)"
| pass_failed:
    "row \<in> set (s_held \<sigma>) \<Longrightarrow>
     drain_step w reg \<sigma> (\<sigma>\<lparr>s_db := fail_batch_row w (q_id row) (q_attempts row + 1) err s c ev tr
          (q_version row) now (s_db \<sigma>), s_held := remove1 row (s_held \<sigma>)\<rparr>)"
| tick_failed:
    "row \<in> set (s_held \<sigma>) \<Longrightarrow>
     drain_step w reg \<sigma> (\<sigma>\<lparr>s_db := fst (on_error (w_max_attempts w) (q_id row) (q_attempts row + 1) err
          True (q_version row) now (s_db \<sigma>)), s_held := remove1 row (s_held \<sigma>)\<rparr>)"
| crash:
    "drain_step w reg \<sigma> (\<sigma>\<lparr>s_held := remove1 row (s_held \<sigma>)\<rparr>)"
| reclaim_stale:
    "drain_step w reg \<sigma> (\<sigma>\<lparr>s_db := fst (fst (reclaim_once th bth now bf (s_db \<sigma>)))\<rparr>)"
| cron_reclaim_stale:
    "drain_step w reg \<sigma> (\<sigma>\<lparr>s_db := fst (cron_reclaim now (s_db \<sigma>))\<rparr>)"
| replayed:
    "replay_dlq c src since ids n locked (s_db \<sigma>) = Inr (db', qids) \<Longrightarrow>
     drain_step w reg \<sigma> (\<sigma>\<lparr>s_db := db'\<rparr>)"
| other:
    "q_rows db' = q_rows (s_db \<sigma>) \<Longrightarrow> q_next db' = q_next (s_db \<sigma>) \<Longrightarrow>
     drain_step w reg \<sigma> (\<sigma>\<lparr>s_db := db'\<rparr>)"

inductive drain_run :: "worker \<Rightarrow> registry \<Rightarrow> drain \<Rightarrow> drain \<Rightarrow> bool" for w reg where
  run_refl: "drain_run w reg \<sigma> \<sigma>"
| run_step: "drain_run w reg \<sigma> \<tau> \<Longrightarrow> drain_step w reg \<tau> \<upsilon> \<Longrightarrow> drain_run w reg \<sigma> \<upsilon>"

text \<open>The start: an empty queue, nothing held, nothing logged.\<close>

definition drain_init :: "drain \<Rightarrow> bool" where
  "drain_init \<sigma> \<longleftrightarrow> q_rows (s_db \<sigma>) = [] \<and> s_held \<sigma> = [] \<and> s_log \<sigma> = []"

subsection \<open>The drain invariant\<close>

definition drain_inv :: "drain \<Rightarrow> bool" where
  "drain_inv \<sigma> \<longleftrightarrow>
     queue_wf (s_db \<sigma>)
     \<and> (\<forall>h \<in> set (s_held \<sigma>). q_id h < q_next (s_db \<sigma>)
          \<and> (\<forall>r \<in> set (q_rows (s_db \<sigma>)). q_id r = q_id h \<longrightarrow> evolves h r))
     \<and> (\<forall>r \<in> set (q_rows (s_db \<sigma>)). q_status r = DONE \<longrightarrow> (q_id r, q_keys r) \<in> set (s_log \<sigma>))"

lemma queue_wf_cong: "q_rows a = q_rows b \<Longrightarrow> q_next a = q_next b \<Longrightarrow> queue_wf a \<longleftrightarrow> queue_wf b"
  by (simp add: queue_wf_def)

lemma db_evolves_cong:
  "q_rows b = q_rows b' \<Longrightarrow> q_next b = q_next b' \<Longrightarrow> db_evolves a b \<longleftrightarrow> db_evolves a b'"
  by (simp add: db_evolves_def)

lemma held_evolves:
  assumes wf: "queue_wf db" and ev: "db_evolves db db'"
    and h: "q_id h < q_next db" "\<And>r. r \<in> set (q_rows db) \<Longrightarrow> q_id r = q_id h \<Longrightarrow> evolves h r"
    and r': "r' \<in> set (q_rows db')" "q_id r' = q_id h"
  shows "evolves h r'"
proof -
  from ev r' h(1) obtain r where r: "r \<in> set (q_rows db)" "evolves r r'"
    by (fastforce simp: db_evolves_def)
  moreover from r(2) r'(2) have "q_id r = q_id h" by (simp add: evolves_def)
  ultimately show ?thesis using h(2) evolves_trans by blast
qed

text \<open>A transaction that lets rows only evolve and finishes none keeps the invariant, whatever becomes
  of the held passes.\<close>

lemma drain_inv_quiet:
  assumes inv: "drain_inv \<sigma>" and wf: "queue_wf db'" and ev: "db_evolves (s_db \<sigma>) db'"
    and quiet: "no_new_done (s_db \<sigma>) db'" and held: "set held \<subseteq> set (s_held \<sigma>)"
  shows "drain_inv (\<sigma>\<lparr>s_db := db', s_held := held\<rparr>)"
proof -
  have nx: "q_next (s_db \<sigma>) \<le> q_next db'" using ev by (simp add: db_evolves_def)
  have wf0: "queue_wf (s_db \<sigma>)" using inv by (simp add: drain_inv_def)
  have "q_id h < q_next db' \<and> (\<forall>r \<in> set (q_rows db'). q_id r = q_id h \<longrightarrow> evolves h r)"
    if "h \<in> set held" for h
  proof -
    from that held inv have h: "q_id h < q_next (s_db \<sigma>)"
      "\<And>r. r \<in> set (q_rows (s_db \<sigma>)) \<Longrightarrow> q_id r = q_id h \<Longrightarrow> evolves h r"
      by (auto simp: drain_inv_def)
    then show ?thesis using held_evolves [OF wf0 ev h] nx by auto
  qed
  moreover have "(q_id r, q_keys r) \<in> set (s_log \<sigma>)"
    if "r \<in> set (q_rows db')" "q_status r = DONE" for r
  proof -
    from quiet that obtain r0 where "r0 \<in> set (q_rows (s_db \<sigma>))" "q_id r0 = q_id r"
      "q_keys r0 = q_keys r" "q_status r0 = DONE"
      by (auto simp: no_new_done_def)
    with inv show ?thesis by (fastforce simp: drain_inv_def)
  qed
  ultimately show ?thesis using wf by (simp add: drain_inv_def)
qed

lemma drain_inv_writer:
  assumes "drain_inv \<sigma>" and "quiet_writer f"
  shows "drain_inv (\<sigma>\<lparr>s_db := f (s_db \<sigma>)\<rparr>)"
  using drain_inv_quiet [OF assms(1), of "f (s_db \<sigma>)" "s_held \<sigma>"] assms
  by (auto simp: quiet_writer_def quiet_writer_axioms_def queue_writer_def drain_inv_def)

text \<open>New snapshots of rows that are in the table may be held.\<close>

lemma drain_inv_hold:
  assumes "drain_inv \<sigma>" and "set rows \<subseteq> set (q_rows (s_db \<sigma>))"
  shows "drain_inv (\<sigma>\<lparr>s_held := rows @ s_held \<sigma>\<rparr>)"
proof -
  have "q_id h < q_next (s_db \<sigma>) \<and> (\<forall>r \<in> set (q_rows (s_db \<sigma>)). q_id r = q_id h \<longrightarrow> evolves h r)"
    if "h \<in> set rows" for h
    using that assms by (auto simp: drain_inv_def queue_wf_def dest: distinct_key_eq)
  with assms(1) show ?thesis by (auto simp: drain_inv_def)
qed

lemma drain_inv_commit:
  assumes inv: "drain_inv \<sigma>" and row: "row \<in> set (s_held \<sigma>)"
    and rows: "q_rows db' = q_rows (fst (cas_commit err (q_id row) (q_version row) now (s_db \<sigma>)))"
    and nxt: "q_next db' = q_next (fst (cas_commit err (q_id row) (q_version row) now (s_db \<sigma>)))"
  shows "drain_inv (\<sigma>\<lparr>s_db := db', s_held := remove1 row (s_held \<sigma>), s_log := log_pass row (s_log \<sigma>)\<rparr>)"
proof -
  let ?db = "fst (cas_commit err (q_id row) (q_version row) now (s_db \<sigma>))"
  have wf0: "queue_wf (s_db \<sigma>)" using inv by (simp add: drain_inv_def)
  have wf: "queue_wf db'" using commit.writer_wf [OF wf0] queue_wf_cong [OF rows nxt] by simp
  have ev: "db_evolves (s_db \<sigma>) db'"
    using commit.writer_evolves [OF wf0] db_evolves_cong [OF rows nxt] by simp
  have nx: "q_next (s_db \<sigma>) \<le> q_next db'" using ev by (simp add: db_evolves_def)
  have held: "q_id h < q_next db' \<and> (\<forall>r \<in> set (q_rows db'). q_id r = q_id h \<longrightarrow> evolves h r)"
    if "h \<in> set (s_held \<sigma>)" for h
  proof -
    from that inv have h: "q_id h < q_next (s_db \<sigma>)"
      "\<And>r. r \<in> set (q_rows (s_db \<sigma>)) \<Longrightarrow> q_id r = q_id h \<Longrightarrow> evolves h r"
      by (auto simp: drain_inv_def)
    then show ?thesis using held_evolves [OF wf0 ev h] nx by auto
  qed
  have "(q_id r, q_keys r) \<in> set (log_pass row (s_log \<sigma>))"
    if r: "r \<in> set (q_rows db')" "q_status r = DONE" for r
  proof -
    from cas_commit_done [OF r(1) [unfolded rows] r(2)] consider
      (old) r0 where "r0 \<in> set (q_rows (s_db \<sigma>))" "q_id r0 = q_id r" "q_keys r0 = q_keys r"
        "q_status r0 = DONE"
    | (new) r0 where "r0 \<in> set (q_rows (s_db \<sigma>))" "cas_guard (q_id row) (q_version row) r0"
        "q_id r = q_id row" "q_keys r = q_keys r0"
      by blast
    then show ?thesis
    proof cases
      case old
      with inv show ?thesis by (fastforce simp: drain_inv_def log_pass_def)
    next
      case new
      with inv row have "evolves row r0" by (auto simp: drain_inv_def cas_guard_def)
      with new(2) have "q_keys r0 = q_keys row" by (simp add: evolves_def cas_guard_def)
      with new show ?thesis by (simp add: log_pass_def)
    qed
  qed
  with wf held show ?thesis by (auto simp: drain_inv_def dest: notin_set_remove1 [THEN contrapos_pp])
qed

lemma upsert_event_queue [simp]:
  "q_rows (upsert_event e f db) = q_rows db" "q_next (upsert_event e f db) = q_next db"
  by (simp_all add: upsert_event_def Let_def)

lemma mark_done_queue:
  "q_rows (mark_done qid c s ev key docs ver now db) = q_rows (fst (cas_commit None qid ver now db))"
  "q_next (mark_done qid c s ev key docs ver now db) = q_next (fst (cas_commit None qid ver now db))"
  by (simp_all add: mark_done_def Let_def split_beta)

lemma mark_skipped_queue:
  "q_rows (mark_skipped qid c s ev key msg ver now db)
     = q_rows (fst (cas_commit (Some msg) qid ver now db))"
  "q_next (mark_skipped qid c s ev key msg ver now db)
     = q_next (fst (cas_commit (Some msg) qid ver now db))"
  by (simp_all add: mark_skipped_def Let_def split_beta)

lemma mark_failed_queue [simp]:
  "q_rows (mark_manual_upload_failed_ingest c ev err now db) = q_rows db"
  "q_next (mark_manual_upload_failed_ingest c ev err now db) = q_next db"
  by (simp_all add: mark_manual_upload_failed_ingest_def)

lemma fail_batch_row_queue:
  "q_rows (fail_batch_row w qid att err s c ev tr ver now db)
     = q_rows (fst (on_error (w_max_attempts w) qid att err tr ver now db))"
  "q_next (fail_batch_row w qid att err s c ev tr ver now db)
     = q_next (fst (on_error (w_max_attempts w) qid att err tr ver now db))"
  by (simp_all add: fail_batch_row_def Let_def split_beta)

lemma drain_inv_cong:
  assumes "drain_inv (\<sigma>\<lparr>s_db := db\<rparr>)" and "q_rows db' = q_rows db" and "q_next db' = q_next db"
  shows "drain_inv (\<sigma>\<lparr>s_db := db'\<rparr>)"
  using assms by (simp add: drain_inv_def queue_wf_def)

lemma drain_inv_drop: "drain_inv \<sigma> \<Longrightarrow> drain_inv (\<sigma>\<lparr>s_held := remove1 row (s_held \<sigma>)\<rparr>)"
  by (auto simp: drain_inv_def dest: notin_set_remove1 [THEN contrapos_pp])

lemma claim_one_row: "claim_one cap locked now db = (db', Some row) \<Longrightarrow> row \<in> set (q_rows db)"
  by (auto simp: claim_one_def dest!: fetchrow_Some_mem set_sql_select_subset split: option.splits)

lemma claim_batch_rows:
  "claim_batch cap m locked now db = (db', rows) \<Longrightarrow> set rows \<subseteq> set (q_rows db)"
  by (auto simp: claim_batch_def Let_def dest: set_sql_select_subset split: option.splits if_splits)


lemma drain_step_inv:
  assumes "drain_step w reg \<sigma> \<tau>" and inv: "drain_inv \<sigma>"
  shows "drain_inv \<tau>"
  using assms(1)
proof cases
  case (enqueue_event c s ev key now)
  then show ?thesis using drain_inv_writer [OF inv enqq.quiet_writer_axioms] by simp
next
  case (agent_batch c s sid key now)
  then show ?thesis using drain_inv_writer [OF inv enqaq.quiet_writer_axioms] by simp
next
  case (custom_document c live del h ev key now)
  then show ?thesis using drain_inv_writer [OF inv customq.quiet_writer_axioms] by simp
next
  case (code_graph_event c ev key now)
  then show ?thesis using drain_inv_writer [OF inv bridgeq.quiet_writer_axioms] by simp
next
  case (claim_row locked now db' row)
  have "drain_inv (\<sigma>\<lparr>s_held := [row] @ s_held \<sigma>\<rparr>)"
    using claim_one_row [OF claim_row(2)] by (intro drain_inv_hold inv) simp
  from drain_inv_writer [OF this claim1q.quiet_writer_axioms [of "nat (w_cap w)" locked now]]
  show ?thesis using claim_row by (cases \<sigma>) simp
next
  case (claim_rows locked now db' rows)
  have "drain_inv (\<sigma>\<lparr>s_held := rows @ s_held \<sigma>\<rparr>)"
    using claim_batch_rows [OF claim_rows(2)] by (intro drain_inv_hold inv)
  from drain_inv_writer [OF this
      claimbq.quiet_writer_axioms [of "nat (w_cap w)" "nat (w_coalesce w)" locked now]]
  show ?thesis using claim_rows by (cases \<sigma>) simp
next
  case (session_ended s m key qid now)
  then show ?thesis using drain_inv_writer [OF inv endq.quiet_writer_axioms] by simp
next
  case (pass_retried s m qid now)
  then show ?thesis using drain_inv_writer [OF inv retryq.quiet_writer_axioms] by simp
next
  case (beat qid now)
  then show ?thesis using drain_inv_writer [OF inv hbq.quiet_writer_axioms] by simp
next
  case (outcome_recorded qid eo)
  then show ?thesis using drain_inv_writer [OF inv outcomeq.quiet_writer_axioms] by simp
next
  case (pass_done row c s ev key docs now)
  show ?thesis unfolding pass_done(1)
    by (rule drain_inv_commit [OF inv pass_done(2)]) (simp_all add: mark_done_queue)
next
  case (pass_skipped row c s ev key msg now)
  show ?thesis unfolding pass_skipped(1)
    by (rule drain_inv_commit [OF inv pass_skipped(2)]) (simp_all add: mark_skipped_queue)
next
  case (pass_failed row err s c ev tr now)
  have "drain_inv (\<sigma>\<lparr>s_db := fst (on_error (w_max_attempts w) (q_id row) (q_attempts row + 1) err tr
      (q_version row) now (s_db \<sigma>))\<rparr>)"
    using drain_inv_writer [OF inv oerrq.quiet_writer_axioms] by simp
  then have "drain_inv (\<sigma>\<lparr>s_db := fail_batch_row w (q_id row) (q_attempts row + 1) err s c ev tr
      (q_version row) now (s_db \<sigma>)\<rparr>)"
    by (rule drain_inv_cong) (simp_all add: fail_batch_row_queue)
  from drain_inv_drop [OF this] show ?thesis using pass_failed by (cases \<sigma>) simp
next
  case (tick_failed row err now)
  have "drain_inv (\<sigma>\<lparr>s_db := fst (on_error (w_max_attempts w) (q_id row) (q_attempts row + 1) err True
      (q_version row) now (s_db \<sigma>))\<rparr>)"
    using drain_inv_writer [OF inv oerrq.quiet_writer_axioms] by simp
  from drain_inv_drop [OF this] show ?thesis using tick_failed by (cases \<sigma>) simp
next
  case (crash row)
  then show ?thesis using drain_inv_drop [OF inv] by simp
next
  case (reclaim_stale th bth now bf)
  then show ?thesis using drain_inv_writer [OF inv reclaimq.quiet_writer_axioms] by simp
next
  case (cron_reclaim_stale now)
  then show ?thesis using drain_inv_writer [OF inv cronrq.quiet_writer_axioms] by simp
next
  case (replayed c src since ids n locked db' qids)
  then show ?thesis
    using drain_inv_writer [OF inv replayq.quiet_writer_axioms [of c src since ids n locked]] by simp
next
  case (other db')
  have "drain_inv (\<sigma>\<lparr>s_db := s_db \<sigma>\<rparr>)" using inv by simp
  from drain_inv_cong [OF this other(2,3)] show ?thesis using other by simp
qed

lemma drain_run_inv: "drain_run w reg \<sigma> \<tau> \<Longrightarrow> drain_inv \<sigma> \<Longrightarrow> drain_inv \<tau>"
  by (induction rule: drain_run.induct) (auto intro: drain_step_inv)

lemma drain_init_inv: "drain_init \<sigma> \<Longrightarrow> drain_inv \<sigma>"
  by (simp add: drain_init_def drain_inv_def queue_wf_def)

lemma drain_run_trans: "drain_run w reg \<tau> \<upsilon> \<Longrightarrow> drain_run w reg \<sigma> \<tau> \<Longrightarrow> drain_run w reg \<sigma> \<upsilon>"
  by (induction rule: drain_run.induct) (auto intro: drain_run.intros)

lemma drain_run_one: "drain_step w reg \<sigma> \<tau> \<Longrightarrow> drain_run w reg \<sigma> \<tau>"
  by (rule run_step [OF run_refl])

subsection \<open>Concrete states\<close>

definition empty_worker_db :: worker_db where
  "empty_worker_db =
     \<lparr>customers = [(''acme'', ''active'')], integration_tokens = [], github_source_gates = [],
      q_rows = [], q_next = 1, session_deletions = None, objects = [], legal_hold_meta = [],
      session_streams = [], session_batch_receipts = [], documents = [], session_media = None,
      ingestion_events = [], manual_uploads = []\<rparr>"

definition start_drain :: drain where
  "start_drain = \<lparr>s_db = empty_worker_db, s_held = [], s_log = []\<rparr>"

lemmas concrete =
  empty_worker_db_def start_drain_def enqueue_agent_def claim_one_def claimable_def inflight_def
  active_tenant_sql_def ACTIVE_def claim_order_def sql_select_def fetchrow_def add_row_def
  new_queue_row_def update_rows_def set_claimed_def q_key_def ingestion_priority_for_def
  get_source_profile_def default_profile_def DEFAULT_INGESTION_PRIORITY_def
  PRIORITY_LIVE_INTEGRATION_def

text \<open>A batch of a session enqueued at time 0 and claimed at time 10.\<close>

definition one_row :: "queue_row" where
  "one_row = new_queue_row 1 ''acme'' ''pi'' ''s1'' ''k0'' 75 1 0"

definition db_rows :: "queue_row list \<Rightarrow> worker_db" where
  "db_rows rows = empty_worker_db\<lparr>q_rows := rows, q_next := 2\<rparr>"

lemma enqueue_one: "enqueue_agent [] ''acme'' PI ''s1'' ''k0'' 0 empty_worker_db = db_rows [one_row]"
  by (simp add: concrete one_row_def db_rows_def)

lemma claim_first: "claim_one 3 [] 10 (db_rows [one_row]) = (db_rows [set_claimed 10 one_row], Some one_row)"
  by (simp add: concrete one_row_def db_rows_def)

lemma start_init [simp]: "drain_init start_drain"
  by (simp add: drain_init_def start_drain_def empty_worker_db_def)

lemma run_to_claim:
  assumes "nat (w_cap w) = 3"
  shows "drain_run w [] start_drain \<lparr>s_db = db_rows [set_claimed 10 one_row], s_held = [one_row], s_log = []\<rparr>"
proof -
  let ?a = "\<lparr>s_db = db_rows [one_row], s_held = [], s_log = []\<rparr>"
  have "drain_step w [] start_drain ?a"
    using agent_batch [of w "[]" start_drain "''acme''" PI "''s1''" "''k0''" 0]
    by (simp add: start_drain_def enqueue_one)
  moreover have "drain_step w [] ?a
      \<lparr>s_db = db_rows [set_claimed 10 one_row], s_held = [one_row], s_log = []\<rparr>"
    using claim_row [of w "[]" 10 ?a "db_rows [set_claimed 10 one_row]" one_row "[]"] claim_first assms
    by simp
  ultimately show ?thesis by (blast intro: drain_run.intros)
qed

definition example_worker :: worker where
  "example_worker = mk_worker 5 1 3 None 1"

lemma example_cap [simp]: "nat (w_cap example_worker) = 3"
  by (simp add: example_worker_def mk_worker_def)

subsection \<open>Commit soundness\<close>



end
