(* ===== verification/QueueProperties.thy ===== *)
theory QueueProperties
  imports Queue
begin

section \<open>Properties of the queue statements\<close>

text \<open>
  What each statement of \<open>Queue\<close> does to the table, on every branch: which row a claim takes and
  what the per-customer cap bounds, that a batch appended while its row is worked is neither lost
  nor worked twice, the decision of the error path, the reclaim and the heartbeat, the dead-letter
  replay, the custom-document enqueue and the backlog sample.
\<close>

subsection \<open>Looking a row up after an update\<close>

lemma row_of_update_rows [sql_simps]:
  assumes "\<And>r. p r \<Longrightarrow> key (f r) = key r"
  shows "row_of key k (q_rows (update_rows p f db))
    = map_option (\<lambda>r. if p r then f r else r) (row_of key k (q_rows db))"
  using assms by (simp add: update_rows_def row_of_sql_update)

lemma queue_wf_row_of:
  assumes "queue_wf db"
  shows "row_of q_id i (q_rows db) = Some r \<longleftrightarrow> r \<in> set (q_rows db) \<and> q_id r = i"
    and "row_of q_key k (q_rows db) = Some r \<longleftrightarrow> r \<in> set (q_rows db) \<and> q_key r = k"
  using assms by (simp_all add: queue_wf_def row_of_Some_iff)

lemma row_of_other:
  assumes "queue_wf db" and "k \<noteq> qid" and "\<And>r. p r \<Longrightarrow> q_id r = qid" and "\<And>r. q_id (f r) = q_id r"
  shows "row_of q_id k (q_rows (update_rows p f db)) = row_of q_id k (q_rows db)"
proof (cases "row_of q_id k (q_rows db)")
  case (Some x)
  then have "q_id x = k" using assms(1) by (simp add: queue_wf_row_of)
  with assms(2,3) have "\<not> p x" by auto
  with Some assms(4) show ?thesis by (simp add: row_of_update_rows)
qed (simp add: row_of_update_rows assms(4))

text \<open>An update guarded by the id of a row of the table rewrites that row alone.\<close>

lemma update_by_id:
  assumes "queue_wf db" and "row \<in> set (q_rows db)"
  shows "update_rows (\<lambda>r. q_id r = q_id row) f db
    = db\<lparr>q_rows := map (\<lambda>r. if r = row then f row else r) (q_rows db)\<rparr>"
proof -
  have "r = row" if "r \<in> set (q_rows db)" "q_id r = q_id row" for r
    using assms that by (auto simp: queue_wf_def dest: distinct_key_eq)
  then show ?thesis by (auto simp: update_rows_def sql_update_def)
qed

subsection \<open>Claims\<close>

text \<open>
  A claim takes the best row there is and touches no other: among the pending rows of
  active tenants under their cap that no other transaction has locked, one of highest priority and,
  within it, of oldest enqueue time; only that row becomes processing. It returns none exactly when
  every such row is locked by another claimer, and then it changes nothing.
\<close>

theorem claim_one_correct:
  assumes "queue_wf db"
  shows "case claim_one cap locked now db of
      (db', None) \<Rightarrow>
        db' = db \<and> (\<forall>r \<in> set (q_rows db). claimable cap db r \<longrightarrow> q_id r \<in> set locked)
    | (db', Some row) \<Rightarrow>
        row \<in> set (q_rows db) \<and> claimable cap db row \<and> q_id row \<notin> set locked
        \<and> (\<forall>r \<in> set (q_rows db). claimable cap db r \<and> q_id r \<notin> set locked
              \<longrightarrow> (- q_priority row, q_enqueued_at row) \<le> (- q_priority r, q_enqueued_at r))
        \<and> db' = db\<lparr>q_rows := map (\<lambda>r. if r = row then set_claimed now row else r) (q_rows db)\<rparr>"
proof (cases "fetchrow (sql_select (\<lambda>r. claimable cap db r \<and> q_id r \<notin> set locked) claim_order 1
    (q_rows db))")
  case None
  moreover from None have "\<forall>r \<in> set (q_rows db). claimable cap db r \<longrightarrow> q_id r \<in> set locked"
    by (auto simp: sql_simps)
  ultimately show ?thesis by (simp add: claim_one_def)
next
  case (Some row)
  note row = set_sql_select_subset [OF fetchrow_Some_mem [OF Some]]
  have "claim_order row \<le> claim_order r"
    if "r \<in> set (q_rows db)" "claimable cap db r \<and> q_id r \<notin> set locked" for r
    using fetchrow_sql_select_least [OF Some] that by blast
  then show ?thesis
    using Some row update_by_id [OF assms, of row "set_claimed now"]
    by (simp add: claim_one_def claim_order_def)
qed

definition pending_row :: "int \<Rightarrow> string \<Rightarrow> queue_row" where
  "pending_row i ev = new_queue_row i ''acme'' ''linear'' ev ''k'' 75 0 0"

definition two_pending :: queue_db where
  "two_pending =
     \<lparr>customers = [(''acme'', ''active'')], integration_tokens = [], github_source_gates = [],
      q_rows = [pending_row 1 ''a'', pending_row 2 ''b''], q_next = 3\<rparr>"

lemma two_pending_wf [simp]: "queue_wf two_pending"
  by (simp add: queue_wf_def two_pending_def pending_row_def)

lemmas queue_eval =
  two_pending_def pending_row_def new_queue_row_def claimable_def inflight_def active_tenant_sql_def
  ACTIVE_def claim_order_def sql_select_def fetchrow_def

theorem claim_one_correct_witness:
  "queue_wf two_pending \<and> snd (claim_one 1 [] 9 two_pending) = Some (pending_row 1 ''a'')
   \<and> fst (claim_one 1 [] 9 two_pending)
       = two_pending\<lparr>q_rows := [set_claimed 9 (pending_row 1 ''a''), pending_row 2 ''b'']\<rparr>"
proof -
  have res: "snd (claim_one 1 [] 9 two_pending) = Some (pending_row 1 ''a'')"
    by (simp add: claim_one_def queue_eval)
  have "pending_row 2 ''b'' \<noteq> pending_row 1 ''a''" by (simp add: pending_row_def new_queue_row_def)
  with claim_one_correct [OF two_pending_wf, of 1 "[]" 9] res
  have "fst (claim_one 1 [] 9 two_pending)
       = two_pending\<lparr>q_rows := [set_claimed 9 (pending_row 1 ''a''), pending_row 2 ''b'']\<rparr>"
    by (auto simp: two_pending_def split: prod.splits option.splits)
  with res show ?thesis by simp
qed

lemma inflight_set_claimed:
  assumes "queue_wf db" and "row \<in> set (q_rows db)" and "q_status row = PENDING"
  shows "inflight (update_rows (\<lambda>r. q_id r = q_id row) (set_claimed now) db) c p
    = inflight db c p + (if q_customer row = c \<and> q_priority row = p then 1 else 0)"
proof -
  have key: "length (filter (\<lambda>r. q_status r = PROCESSING \<and> q_customer r = c \<and> q_priority r = p)
        (map (\<lambda>r. if r = row then set_claimed now row else r) t))
    = length (filter (\<lambda>r. q_status r = PROCESSING \<and> q_customer r = c \<and> q_priority r = p) t)
      + (if q_customer row = c \<and> q_priority row = p \<and> row \<in> set t then 1 else 0)"
    if "distinct t" for t
    using that assms(3) by (induction t) (auto simp: set_claimed_def)
  have "distinct (q_rows db)" using assms(1) by (simp add: queue_wf_def distinct_map)
  from key [OF this] show ?thesis
    using assms(2) by (simp add: update_by_id [OF assms(1,2)] inflight_def)
qed

text \<open>
  The fairness cap holds under single-row claims: while no (customer, priority) pair has
  more rows in flight than the cap, a claim keeps it so.
\<close>

theorem claim_one_keeps_cap:
  assumes "queue_wf db" and "\<And>c p. inflight db c p \<le> cap"
  shows "inflight (fst (claim_one cap locked now db)) c p \<le> cap"
proof (cases "claim_one cap locked now db")
  case (Pair db' res)
  show ?thesis
  proof (cases res)
    case None
    then have "db' = db" using Pair by (auto simp: claim_one_def split: option.splits)
    with assms(2) Pair show ?thesis by simp
  next
    case (Some row)
    with Pair have f: "fetchrow (sql_select (\<lambda>r. claimable cap db r \<and> q_id r \<notin> set locked)
        claim_order 1 (q_rows db)) = Some row"
      and db': "db' = update_rows (\<lambda>r. q_id r = q_id row) (set_claimed now) db"
      by (auto simp: claim_one_def split: option.splits)
    note row = set_sql_select_subset [OF fetchrow_Some_mem [OF f]]
    then show ?thesis
      using inflight_set_claimed [OF assms(1), of row now c p] assms(2) [of c p] Pair db'
      by (auto simp: claimable_def)
  qed
qed

theorem claim_one_keeps_cap_witness:
  "inflight (fst (claim_one 1 [] 9 two_pending)) ''acme'' 75 \<le> 1"
  by (rule claim_one_keeps_cap) (simp_all, simp add: queue_eval)

text \<open>
  A coalesced claim takes rows of one tenant and one source only, all of them pending and
  unlocked, at most \<^verbatim>\<open>coalesce_max\<close>, in claim order, and for a tenant that had room under the cap.
\<close>

theorem claim_batch_correct:
  assumes "claim_batch cap m locked now db = (db', row # rows)"
  shows "\<exists>pick \<in> set (q_rows db). claimable cap db pick
      \<and> (\<forall>r \<in> set (q_rows db). claimable cap db r \<longrightarrow> claim_order pick \<le> claim_order r)
      \<and> (\<forall>r \<in> set (row # rows). r \<in> set (q_rows db) \<and> q_customer r = q_customer pick
            \<and> q_source r = q_source pick \<and> q_status r = PENDING \<and> q_id r \<notin> set locked)
      \<and> length (row # rows) \<le> m \<and> sorted (map claim_order (row # rows))
      \<and> db' = update_rows (\<lambda>r. q_id r \<in> q_id ` set (row # rows)) (set_claimed now) db"
proof -
  from assms obtain pick where f: "fetchrow (sql_select (claimable cap db) claim_order 1 (q_rows db)) = Some pick"
    by (auto simp: claim_batch_def split: option.splits)
  define P where "P = (\<lambda>r :: queue_row. q_customer r = q_customer pick \<and> q_source r = q_source pick
      \<and> q_status r = PENDING \<and> q_id r \<notin> set locked)"
  from assms f have rows: "row # rows = sql_select P claim_order m (q_rows db)"
    and db': "db' = update_rows (\<lambda>r. q_id r \<in> q_id ` set (row # rows)) (set_claimed now) db"
    by (auto simp: claim_batch_def P_def Let_def split: if_splits)
  have "sorted (map claim_order (row # rows))"
    unfolding rows sql_select_def take_map [symmetric] by (rule sorted_wrt_take) simp
  moreover have "length (row # rows) \<le> m" unfolding rows by (rule length_sql_select)
  moreover have "\<forall>r \<in> set (row # rows). r \<in> set (q_rows db) \<and> P r"
    unfolding rows using set_sql_select_subset by fastforce
  moreover note set_sql_select_subset [OF fetchrow_Some_mem [OF f]] fetchrow_sql_select_least [OF f] db'
  ultimately show ?thesis unfolding P_def by blast
qed

lemma claim_batch_two:
  "claim_batch 1 2 [] 9 two_pending
   = (two_pending\<lparr>q_rows := [set_claimed 9 (pending_row 1 ''a''), set_claimed 9 (pending_row 2 ''b'')]\<rparr>,
      [pending_row 1 ''a'', pending_row 2 ''b''])"
  by (simp add: claim_batch_def queue_eval update_rows_def)

theorem claim_batch_correct_witness:
  "length [pending_row 1 ''a'', pending_row 2 ''b''] \<le> (2::nat)
   \<and> sorted (map claim_order [pending_row 1 ''a'', pending_row 2 ''b''])"
  using claim_batch_correct [OF claim_batch_two] by blast

text \<open>
  The coalesced claim does not keep the cap its comment promises: with a cap of one and
  no row in flight, one claim of two puts two rows of the same customer and priority in flight.
\<close>

theorem claim_batch_exceeds_cap:
  "queue_wf two_pending \<and> (\<forall>c p. inflight two_pending c p = 0)
   \<and> inflight (fst (claim_batch 1 2 [] 9 two_pending)) ''acme'' 75 = 2"
proof -
  have "inflight two_pending c p = 0" for c p by (simp add: queue_eval)
  moreover have "inflight (fst (claim_batch 1 2 [] 9 two_pending)) ''acme'' 75 = 2"
    unfolding claim_batch_two fst_conv by (simp add: queue_eval set_claimed_def)
  ultimately show ?thesis by simp
qed

subsection \<open>A batch appended while its row is worked\<close>

text \<open>Both session enqueues act on a row that is in the table like this.\<close>

lemma session_enqueue_extends:
  assumes "queue_wf db" and "r \<in> set (q_rows db)" and "q_key r = (c, source_value s, sid)"
    and "s \<in> set COALESCING_AGENT_SOURCES"
    and "db1 = fst (enqueue reg c s sid key t db) \<or> db1 = enqueue_agent reg c s sid key t db"
  shows "\<exists>r1. row_of q_id (q_id r) (q_rows db1) = Some r1 \<and> q_keys r1 = q_keys r @ [key]
      \<and> q_version r1 = q_version r + 1
      \<and> q_status r1 = (if q_status r = PROCESSING then PROCESSING else PENDING)
      \<and> q_attempts r1 = q_attempts r
      \<and> (\<forall>k. k \<noteq> q_id r \<longrightarrow> row_of q_id k (q_rows db1) = row_of q_id k (q_rows db))"
proof -
  have hit: "(c, source_value s, sid) \<in> q_key ` set (q_rows db)" using assms(2,3) by force
  have "is_source_connected db c s"
    using agent_sources_ungated assms(4) by (simp add: COALESCING_AGENT_SOURCES_def AGENT_SESSION_SOURCES_def)
  with assms(4,5) hit obtain f where
    db1: "q_rows db1 = sql_update (\<lambda>r. q_key r = (c, source_value s, sid)) f (q_rows db)"
    and f: "\<And>r. q_id (f r) = q_id r" "q_keys (f r) = q_keys r @ [key]" "q_version (f r) = q_version r + 1"
      "q_status (f r) = (if q_status r = PROCESSING then PROCESSING else PENDING)"
      "q_attempts (f r) = q_attempts r"
    by (auto simp: enqueue_def enqueue_agent_def upsert_session_def update_rows_def Let_def
        extend_session_def extend_agent_def)
  have "row_of q_id (q_id r) (q_rows db) = Some r"
    using assms(1,2) by (simp add: queue_wf_row_of)
  moreover have "row_of q_id k (q_rows db1) = row_of q_id k (q_rows db)" if "k \<noteq> q_id r" for k
  proof (cases "row_of q_id k (q_rows db)")
    case (Some r')
    then have "r' \<in> set (q_rows db)" "q_id r' = k" using assms(1) by (simp_all add: queue_wf_row_of)
    then have "q_key r' \<noteq> q_key r"
      using assms(1,2) that by (auto simp: queue_wf_def dest: distinct_key_eq)
    with Some assms(3) show ?thesis by (simp add: db1 row_of_sql_update f(1))
  qed (simp add: db1 row_of_sql_update f(1))
  ultimately show ?thesis using assms(3) f by (simp add: db1 row_of_sql_update)
qed

text \<open>
  Claim C2. A session batch that lands while its row is being worked is not lost and not worked
  twice: the row stays with the running pass (no claim can take it); and when that pass ends, by a
  commit or by an error of any kind, its compare-and-set misses, the row is neither finished nor
  dead-lettered but pending again, with the new batch at the end of its keys.
\<close>

theorem batch_during_pass_kept:
  assumes wf: "queue_wf db" and r: "r \<in> set (q_rows db)" and proc: "q_status r = PROCESSING"
    and key: "q_key r = (c, source_value s, sid)" and src: "s \<in> set COALESCING_AGENT_SOURCES"
    and db1: "db1 = fst (enqueue reg c s sid key t db) \<or> db1 = enqueue_agent reg c s sid key t db"
    and fin: "cas_commit err (q_id r) (q_version r) now db1 = (db2, flag)
      \<or> on_error m (q_id r) att msg tr (q_version r) now db1 = (db2, flag)"
  shows "(\<forall>cap locked r'. snd (claim_one cap locked now db1) = Some r' \<longrightarrow> q_id r' \<noteq> q_id r)
    \<and> \<not> flag
    \<and> (\<exists>r2. row_of q_id (q_id r) (q_rows db2) = Some r2 \<and> q_status r2 = PENDING
         \<and> q_keys r2 = q_keys r @ [key] \<and> q_version r2 = q_version r + 1)"
proof -
  have wf1: "queue_wf db1" using db1 enq.writer_wf [OF wf] enqa.writer_wf [OF wf] by blast
  from session_enqueue_extends [OF wf r key src db1] obtain r1 where
    r1: "row_of q_id (q_id r) (q_rows db1) = Some r1" "q_keys r1 = q_keys r @ [key]"
      "q_version r1 = q_version r + 1" "q_status r1 = PROCESSING"
    using proc by auto
  then have uniq: "r' = r1" if "r' \<in> set (q_rows db1)" "q_id r' = q_id r" for r'
    using that wf1 by (metis queue_wf_row_of(1) option.inject)
  have "q_id r' \<noteq> q_id r" if "snd (claim_one cap locked now db1) = Some r'" for cap locked r'
  proof
    assume "q_id r' = q_id r"
    moreover from that have "r' \<in> set (q_rows db1)" "q_status r' = PENDING"
      by (auto simp: claim_one_def claimable_def split: option.splits
          dest!: fetchrow_Some_mem set_sql_select_subset)
    ultimately show False using uniq r1(4) by fastforce
  qed
  moreover have miss: "\<forall>r' \<in> set (q_rows db1). \<not> cas_guard (q_id r) (q_version r) r'"
    using uniq r1(3) by (force simp: cas_guard_def)
  have "\<not> flag \<and> (db2 = release_row (q_id r) now db1 \<or> db2 = release_error (q_id r) db1)"
    using fin miss by (auto simp: cas_commit_def on_error_def sql_simps filter_empty_conv Let_def)
  moreover from r1(1) wf1 have "q_id r1 = q_id r" by (simp add: queue_wf_row_of)
  ultimately show ?thesis
    using r1 by (auto simp: release_row_def release_error_def row_of_update_rows)
qed

definition working :: queue_db where
  "working =
     \<lparr>customers = [(''acme'', ''active'')], integration_tokens = [], github_source_gates = [],
      q_rows = [set_claimed 5 (new_queue_row 1 ''acme'' ''pi'' ''s1'' ''k0'' 75 1 0)], q_next = 2\<rparr>"

theorem batch_during_pass_kept_witness:
  "\<exists>r r2. r \<in> set (q_rows working)
     \<and> row_of q_id 1 (q_rows (fst (cas_commit None 1 1 9 (enqueue_agent [] ''acme'' PI ''s1'' ''k1'' 7 working))))
         = Some r2 \<and> q_status r2 = PENDING \<and> q_keys r2 = q_keys r @ [''k1'']"
proof -
  let ?r = "set_claimed 5 (new_queue_row 1 ''acme'' ''pi'' ''s1'' ''k0'' 75 1 0)"
  let ?db1 = "enqueue_agent [] ''acme'' PI ''s1'' ''k1'' 7 working"
  have r: "q_id ?r = 1" "q_version ?r = 1" "q_status ?r = PROCESSING"
    "q_key ?r = (''acme'', source_value PI, ''s1'')"
    by (simp_all add: set_claimed_def new_queue_row_def q_key_def)
  have "queue_wf working" "?r \<in> set (q_rows working)"
    by (simp_all add: working_def queue_wf_def set_claimed_def new_queue_row_def)
  moreover have "PI \<in> set COALESCING_AGENT_SOURCES" by (simp add: COALESCING_AGENT_SOURCES_def)
  ultimately show ?thesis
    using batch_during_pass_kept [of working ?r "''acme''" PI "''s1''" ?db1 "[]" "''k1''" 7 None 9
        "fst (cas_commit None 1 1 9 ?db1)" "snd (cas_commit None 1 1 9 ?db1)"] r
    by auto
qed

subsection \<open>Errors\<close>

text \<open>
  The error path decides by version, kind and attempts. On the version the pass captured,
  the row is dead-lettered when the error is permanent or the attempts are used up, and is pending
  again otherwise; on any other version a row still processing is released to pending and no
  other row state is overwritten. Keys, version and attempts stay, and so do all other rows.
\<close>

theorem on_error_decision:
  assumes "queue_wf db" and "row_of q_id qid (q_rows db) = Some r"
    and "on_error m qid att err tr ver now db = (db', dead)"
  shows "dead = (q_version r = ver \<and> (\<not> tr \<or> m \<le> att))
    \<and> (\<exists>r'. row_of q_id qid (q_rows db') = Some r' \<and> q_keys r' = q_keys r
        \<and> q_version r' = q_version r \<and> q_attempts r' = q_attempts r
        \<and> q_status r' = (if q_version r = ver then if dead then DLQ else PENDING
                         else if q_status r = PROCESSING then PENDING else q_status r))
    \<and> (\<forall>k. k \<noteq> qid \<longrightarrow> row_of q_id k (q_rows db') = row_of q_id k (q_rows db))"
proof -
  have r: "r \<in> set (q_rows db)" "q_id r = qid" using assms(1,2) by (simp_all add: queue_wf_row_of)
  have hit: "filter (cas_guard qid ver) (q_rows db) = [] \<longleftrightarrow> q_version r \<noteq> ver"
    using r assms(1) by (auto simp: filter_empty_conv cas_guard_def queue_wf_def dest: distinct_key_eq)
  show ?thesis
  proof (cases "q_version r = ver")
    case True
    with assms(3) hit have dead: "dead = (\<not> tr \<or> m \<le> att)"
      and db': "db' = update_rows (cas_guard qid ver) (if dead then set_dlq err now else set_retry err) db"
      by (auto simp: on_error_def Let_def)
    have "\<forall>k. k \<noteq> qid \<longrightarrow> row_of q_id k (q_rows db') = row_of q_id k (q_rows db)"
      unfolding db' using assms(1)
      by (auto simp: cas_guard_def set_dlq_def set_retry_def intro!: row_of_other)
    moreover have "row_of q_id qid (q_rows db') = Some (if dead then set_dlq err now r else set_retry err r)"
      using True assms(2) r(2)
      by (simp add: db' row_of_update_rows set_dlq_def set_retry_def cas_guard_def)
    ultimately show ?thesis using True dead by (simp add: set_dlq_def set_retry_def)
  next
    case False
    with assms(3) hit have db': "\<not> dead" "db' = release_error qid db"
      by (auto simp: on_error_def Let_def)
    have "\<forall>k. k \<noteq> qid \<longrightarrow> row_of q_id k (q_rows db') = row_of q_id k (q_rows db)"
      unfolding db' release_error_def using assms(1) by (auto intro!: row_of_other)
    then show ?thesis using False assms(2) r(2) db'
      by (simp add: row_of_update_rows release_error_def)
  qed
qed

theorem on_error_decision_witness:
  "\<exists>r'. row_of q_id 1 (q_rows (fst (on_error 5 1 5 ''boom'' True 1 9 working))) = Some r'
     \<and> q_status r' = DLQ"
proof -
  let ?r = "set_claimed 5 (new_queue_row 1 ''acme'' ''pi'' ''s1'' ''k0'' 75 1 0)"
  have wf: "queue_wf working" by (simp add: working_def queue_wf_def set_claimed_def new_queue_row_def)
  have row: "row_of q_id 1 (q_rows working) = Some ?r"
    by (simp add: row_of_def working_def set_claimed_def new_queue_row_def)
  have "q_version ?r = 1" by (simp add: set_claimed_def new_queue_row_def)
  with on_error_decision [OF wf row, of 5 5 "''boom''" True 1 9
      "fst (on_error 5 1 5 ''boom'' True 1 9 working)" "snd (on_error 5 1 5 ''boom'' True 1 9 working)"]
  show ?thesis by auto
qed

subsection \<open>Heartbeat and reclaim\<close>

lemma row_of_reclaim:
  "row_of q_id k (q_rows (fst (fst (reclaim_once th bth now bf db))))
   = map_option (\<lambda>r. if q_status r = PROCESSING \<and> stale th now (q_heartbeat_at r) then set_reclaimed r else r)
       (row_of q_id k (q_rows db))"
  by (simp add: reclaim_once_def Let_def row_of_update_rows set_reclaimed_def)

lemma reclaim_after_claim:
  assumes wf: "queue_wf db" and cl: "claim_one cap locked t db = (db1, Some row)"
  shows "t + th < now \<Longrightarrow>
      \<exists>r. row_of q_id (q_id row) (q_rows (fst (fst (reclaim_once th bth now bf db1)))) = Some r
        \<and> q_status r = PENDING \<and> q_attempts r = q_attempts row + 1 \<and> q_keys r = q_keys row
        \<and> q_version r = q_version row"
    and "now \<le> t' + th \<Longrightarrow>
      row_of q_id (q_id row) (q_rows (fst (fst (reclaim_once th bth now bf (heartbeat (q_id row) t' db1)))))
        = Some ((set_claimed t row)\<lparr>q_heartbeat_at := Some t'\<rparr>)"
proof -
  have row: "row \<in> set (q_rows db)"
    using cl by (auto simp: claim_one_def dest!: fetchrow_Some_mem set_sql_select_subset split: option.splits)
  have "row_of q_id (q_id row) (q_rows db) = Some row" using wf row by (simp add: queue_wf_row_of)
  then have r1: "row_of q_id (q_id row) (q_rows db1) = Some (set_claimed t row)"
    using cl by (auto simp: claim_one_def row_of_update_rows set_claimed_def split: option.splits)
  then show "t + th < now \<Longrightarrow>
      \<exists>r. row_of q_id (q_id row) (q_rows (fst (fst (reclaim_once th bth now bf db1)))) = Some r
        \<and> q_status r = PENDING \<and> q_attempts r = q_attempts row + 1 \<and> q_keys r = q_keys row
        \<and> q_version r = q_version row"
    by (simp add: row_of_reclaim stale_def set_claimed_def set_reclaimed_def)
  show "now \<le> t' + th \<Longrightarrow>
      row_of q_id (q_id row) (q_rows (fst (fst (reclaim_once th bth now bf (heartbeat (q_id row) t' db1)))))
        = Some ((set_claimed t row)\<lparr>q_heartbeat_at := Some t'\<rparr>)"
    using r1 by (simp add: row_of_reclaim heartbeat_def row_of_update_rows stale_def set_claimed_def)
qed

text \<open>
  A claimed row is recovered when its worker dies, and only then: a reclaim later than the
  threshold after the claim, with no heartbeat in between, makes the row pending with the attempt
  counted and no key lost; a heartbeat no older than the threshold keeps it with its worker.
\<close>

theorem reclaim_recovers_dead_worker:
  assumes "queue_wf db" and "claim_one cap locked t db = (db1, Some row)"
  shows "(t + th < now \<longrightarrow>
      (\<exists>r. row_of q_id (q_id row) (q_rows (fst (fst (reclaim_once th bth now bf db1)))) = Some r
        \<and> q_status r = PENDING \<and> q_attempts r = q_attempts row + 1 \<and> q_keys r = q_keys row
        \<and> q_version r = q_version row))
    \<and> (now \<le> t' + th \<longrightarrow>
      row_of q_id (q_id row) (q_rows (fst (fst (reclaim_once th bth now bf (heartbeat (q_id row) t' db1)))))
        = Some ((set_claimed t row)\<lparr>q_heartbeat_at := Some t'\<rparr>))"
  using reclaim_after_claim [OF assms] by blast

lemma claim_two:
  "claim_one 1 [] 9 two_pending
   = (two_pending\<lparr>q_rows := [set_claimed 9 (pending_row 1 ''a''), pending_row 2 ''b'']\<rparr>,
      Some (pending_row 1 ''a''))"
  by (simp add: claim_one_def queue_eval update_rows_def)

theorem reclaim_recovers_dead_worker_witness:
  "\<exists>r r'. row_of q_id 1 (q_rows (fst (fst (reclaim_once 300 300 310 [] (fst (claim_one 1 [] 9 two_pending)))))) = Some r
     \<and> q_status r = PENDING
     \<and> row_of q_id 1 (q_rows (fst (fst (reclaim_once 300 300 310 []
            (heartbeat 1 10 (fst (claim_one 1 [] 9 two_pending))))))) = Some r' \<and> q_status r' = PROCESSING"
  using reclaim_recovers_dead_worker [OF two_pending_wf claim_two, of 300 310 300 "[]" 10]
  unfolding claim_two fst_conv
  by (auto simp: pending_row_def new_queue_row_def set_claimed_def)

subsection \<open>Dead-letter replay\<close>

text \<open>
  A replay returns the ids of dead-lettered rows that pass every filter given, at most
  \<^verbatim>\<open>limit\<close> of them and none locked; exactly those become pending with fresh attempts, every other row
  is as it was, and a row it left out although it qualifies is not older than any it took. The
  list of ids does not override the other filters: it is one more of them.
\<close>

theorem replay_dlq_correct:
  assumes wf: "queue_wf db" and rep: "replay_dlq c src since ids n locked db = Inr (db', qids)"
  shows "distinct qids \<and> length qids \<le> n
    \<and> (\<forall>r \<in> set (q_rows db).
         if q_id r \<in> set qids
         then replay_filter c src since ids r \<and> q_id r \<notin> set locked
            \<and> row_of q_id (q_id r) (q_rows db') = Some (set_replayed r)
         else row_of q_id (q_id r) (q_rows db') = Some r
            \<and> (replay_filter c src since ids r \<and> q_id r \<notin> set locked \<longrightarrow>
                 length qids = n \<and> (\<forall>s \<in> set (q_rows db). q_id s \<in> set qids
                    \<longrightarrow> q_enqueued_at s \<le> q_enqueued_at r)))"
proof -
  define P where "P = (\<lambda>r. replay_filter c src since ids r \<and> q_id r \<notin> set locked)"
  define srt where "srt = sort_key q_enqueued_at (filter P (q_rows db))"
  define sel where "sel = take n srt"
  from rep have db': "db' = update_rows (\<lambda>r. q_id r \<in> q_id ` set sel) set_replayed db"
    and qids: "qids = map q_id (filter (\<lambda>r. q_id r \<in> q_id ` set sel) (q_rows db))"
    by (auto simp: replay_dlq_def Let_def sql_select_def P_def sel_def srt_def split: if_splits)
  have dist: "distinct (map q_id (q_rows db))" and drows: "distinct (q_rows db)"
    using wf by (simp_all add: queue_wf_def distinct_map)
  have sel_sub: "set sel \<subseteq> {r \<in> set (q_rows db). P r}"
    unfolding sel_def srt_def by (auto dest: in_set_takeD)
  have id_sel: "q_id r \<in> q_id ` set sel \<longleftrightarrow> r \<in> set sel" if "r \<in> set (q_rows db)" for r
    using that sel_sub dist by (auto dest: distinct_key_eq)
  have mem: "q_id r \<in> set qids \<longleftrightarrow> r \<in> set sel" if "r \<in> set (q_rows db)" for r
    using that id_sel by (auto simp: qids)
  have dsel: "distinct sel" unfolding sel_def srt_def using drows by simp
  have "filter (\<lambda>r. q_id r \<in> q_id ` set sel) (q_rows db) = filter (\<lambda>r. r \<in> set sel) (q_rows db)"
    using id_sel by (intro filter_cong) auto
  moreover have "length (filter (\<lambda>r. r \<in> set sel) (q_rows db)) = length sel"
  proof -
    have "set (filter (\<lambda>r. r \<in> set sel) (q_rows db)) = set sel" using sel_sub by auto
    then show ?thesis using drows dsel by (metis distinct_card distinct_filter)
  qed
  ultimately have len: "length qids = length sel" by (simp add: qids)
  have left: "length sel = n \<and> (\<forall>s \<in> set sel. q_enqueued_at s \<le> q_enqueued_at r)"
    if "r \<in> set (q_rows db)" "P r" "r \<notin> set sel" for r
  proof -
    have split: "srt = sel @ drop n srt" by (simp add: sel_def)
    have "r \<in> set srt" using that by (simp add: srt_def)
    with that(3) have rest: "r \<in> set (drop n srt)" by (metis Un_iff set_append split)
    moreover have "sorted (map q_enqueued_at sel @ map q_enqueued_at (drop n srt))"
      unfolding map_append [symmetric] split [symmetric] by (simp add: srt_def)
    then have "\<forall>s \<in> set sel. \<forall>r \<in> set (drop n srt). q_enqueued_at s \<le> q_enqueued_at r"
      by (auto simp: sorted_append)
    moreover have "n \<le> length srt" using rest by (cases "n \<le> length srt") auto
    ultimately show ?thesis by (simp add: sel_def)
  qed
  have look: "row_of q_id (q_id r) (q_rows db') = Some (if r \<in> set sel then set_replayed r else r)"
    if "r \<in> set (q_rows db)" for r
    using that id_sel [OF that] queue_wf_row_of(1) [OF wf, of "q_id r" r]
    by (simp add: db' row_of_update_rows set_replayed_def)
  have ids: "{s \<in> set (q_rows db). q_id s \<in> set qids} = set sel" using mem sel_sub by auto
  have "distinct qids" using dist by (simp add: qids distinct_map_filter)
  moreover have "length qids \<le> n" using len by (simp add: sel_def)
  ultimately show ?thesis
    using mem look left sel_sub len ids unfolding P_def by (auto simp: subset_iff)
qed

definition dead_letters :: queue_db where
  "dead_letters = two_pending\<lparr>q_rows := map (set_dlq ''e'' 5) (q_rows two_pending)\<rparr>"

theorem replay_dlq_correct_witness:
  "\<exists>db'. replay_dlq (Some ''acme'') None None (Some [2, 7]) 10 [] dead_letters = Inr (db', [2])
     \<and> row_of q_id 2 (q_rows db') = Some (set_replayed (set_dlq ''e'' 5 (pending_row 2 ''b'')))"
proof -
  have wf: "queue_wf dead_letters"
    by (simp add: dead_letters_def queue_wf_def two_pending_def pending_row_def set_dlq_def q_key_def
        new_queue_row_def)
  obtain db' where rep: "replay_dlq (Some ''acme'') None None (Some [2, 7]) 10 [] dead_letters = Inr (db', [2])"
    by (simp add: replay_dlq_def Let_def sql_select_def dead_letters_def two_pending_def pending_row_def
        set_dlq_def new_queue_row_def replay_filter_def)
  from replay_dlq_correct [OF wf rep] rep show ?thesis
    by (auto simp: dead_letters_def two_pending_def pending_row_def set_dlq_def new_queue_row_def)
qed

subsection \<open>Custom documents\<close>

lemma row_of_add_row:
  "row_of q_key k (q_rows (add_row r db)) =
     (case row_of q_key k (q_rows db) of Some x \<Rightarrow> Some x
      | None \<Rightarrow> if q_key r = k then Some r else None)"
proof -
  have "find P (xs @ [y]) = (case find P xs of Some x \<Rightarrow> Some x | None \<Rightarrow> if P y then Some y else None)"
    for P and xs :: "queue_row list" and y
    by (induction xs) auto
  then show ?thesis by (simp add: add_row_def row_of_def)
qed

lemma row_of_filter_other:
  assumes "\<And>r. \<not> p r \<Longrightarrow> q_key r = K" and "k \<noteq> K"
  shows "row_of q_key k (filter p t) = row_of q_key k t"
  using assms by (induction t) (auto simp: row_of_def)

text \<open>
  A custom document is accepted exactly when a fresh pending row now carries its payload;
  it is refused only for a stated reason, that an earlier delivery is still in the queue or that the
  live document already is what the push asks for, and then no row changes. Rows of other events
  never change.
\<close>

theorem enqueue_custom_document_outcome:
  assumes wf: "queue_wf db"
    and run: "enqueue_custom_document reg c live del h ev key now db = (db', accepted)"
    and K: "K = (c, ''custom_ingest'', ev)"
  shows "(if accepted
     then \<exists>r. row_of q_key K (q_rows db') = Some r \<and> q_status r = PENDING \<and> q_keys r = [key]
            \<and> q_attempts r = 0 \<and> q_next db \<le> q_id r
     else q_rows db' = q_rows db
            \<and> (\<exists>r. row_of q_key K (q_rows db) = Some r
                 \<and> (live_state_matches live del h \<or> (q_status r \<noteq> DONE \<and> q_status r \<noteq> DLQ))))
    \<and> (\<forall>k. k \<noteq> K \<longrightarrow> row_of q_key k (q_rows db') = row_of q_key k (q_rows db))"
proof (cases "row_of q_key K (q_rows db)")
  case None
  then have new: "(c, ''custom_ingest'', ev) \<notin> q_key ` set (q_rows db)" by (simp add: row_of_None_iff K)
  then have "accepted" and rows: "q_rows db' = q_rows (add_row (new_queue_row (q_next db) c
      ''custom_ingest'' ev key (ingestion_priority_for reg ''custom_ingest'') 0 now) db)"
    using run by (simp_all add: enqueue_custom_document_def insert_do_nothing_def Let_def)
  have "row_of q_key k (q_rows db') = row_of q_key k (q_rows db)" if "k \<noteq> K" for k
    using that by (cases "row_of q_key k (q_rows db)") (simp_all add: rows row_of_add_row K)
  moreover have "row_of q_key K (q_rows db') = Some (new_queue_row (q_next db) c
      ''custom_ingest'' ev key (ingestion_priority_for reg ''custom_ingest'') 0 now)"
    using None by (simp add: rows row_of_add_row) (simp add: K)
  ultimately show ?thesis using \<open>accepted\<close> by (simp add: new_queue_row_def)
next
  case (Some r)
  have r: "r \<in> set (q_rows db)" "q_key r = K" using Some wf by (simp_all add: queue_wf_row_of)
  let ?db1 = "db\<lparr>q_next := q_next db + 1\<rparr>"
  let ?hit = "\<lambda>r. q_key r = K \<and> (q_status r = DONE \<or> q_status r = DLQ)"
  let ?kept = "filter (\<lambda>r. \<not> ?hit r) (q_rows db)"
  from r have "(c, ''custom_ingest'', ev) \<in> q_key ` set (q_rows db)" by (force simp: K)
  with run have run': "(db', accepted) = (if live_state_matches live del h then (?db1, False)
      else retire_and_reenqueue c ev key (ingestion_priority_for reg ''custom_ingest'') now ?db1)"
    by (simp add: enqueue_custom_document_def insert_do_nothing_def Let_def)
  have uniq: "x = r" if "x \<in> set (q_rows db)" "q_key x = K" for x
    using that r wf by (auto simp: queue_wf_def dest: distinct_key_eq)
  have hits: "filter ?hit (q_rows db) = [] \<longleftrightarrow> q_status r \<noteq> DONE \<and> q_status r \<noteq> DLQ"
    unfolding filter_empty_conv using r uniq by blast
  show ?thesis
  proof (cases "live_state_matches live del h \<or> filter ?hit (q_rows db) = []")
    case True
    then have "\<not> accepted" "q_rows db' = q_rows db"
      using run' by (auto simp: retire_and_reenqueue_def Let_def K split: if_splits)
    with True Some hits show ?thesis by auto
  next
    case False
    then have none: "K \<notin> q_key ` set ?kept" using uniq unfolding hits by fastforce
    then have "accepted" and rows: "q_rows db' = q_rows (add_row (new_queue_row (q_next db + 1) c
        ''custom_ingest'' ev key (ingestion_priority_for reg ''custom_ingest'') 0 now)
        (db\<lparr>q_rows := ?kept\<rparr>))"
      using run' False by (simp_all add: retire_and_reenqueue_def insert_do_nothing_def Let_def K add_row_def)
    have other: "row_of q_key k ?kept = row_of q_key k (q_rows db)" if "k \<noteq> K" for k
      using that by (intro row_of_filter_other [of _ K]) auto
    have kept: "row_of q_key K ?kept = None" using none by (simp only: row_of_None_iff not_False_eq_True)
    have "row_of q_key k (q_rows db') = row_of q_key k (q_rows db)" if "k \<noteq> K" for k
      using other [OF that] that
      by (cases "row_of q_key k (q_rows db)") (simp_all add: rows row_of_add_row K)
    moreover have "row_of q_key K (q_rows db') = Some (new_queue_row (q_next db + 1) c
        ''custom_ingest'' ev key (ingestion_priority_for reg ''custom_ingest'') 0 now)"
      unfolding rows row_of_add_row using kept by (simp add: K)
    ultimately show ?thesis using \<open>accepted\<close> by (simp add: new_queue_row_def)
  qed
qed

theorem enqueue_custom_document_outcome_witness:
  "\<exists>r. row_of q_key (''acme'', ''custom_ingest'', ''e'')
        (q_rows (fst (enqueue_custom_document [] ''acme'' None False ''h'' ''e'' ''k9'' 8 two_pending))) = Some r
     \<and> q_keys r = [''k9'']"
  using enqueue_custom_document_outcome [OF two_pending_wf, of "[]" "''acme''" None False "''h''" "''e''"
      "''k9''" 8 "fst (enqueue_custom_document [] ''acme'' None False ''h'' ''e'' ''k9'' 8 two_pending)"
      "snd (enqueue_custom_document [] ''acme'' None False ''h'' ''e'' ''k9'' 8 two_pending)"
      "(''acme'', ''custom_ingest'', ''e'')"]
  by (auto simp: two_pending_def pending_row_def row_of_def split: if_splits)

subsection \<open>The tier of a resumed session\<close>

text \<open>
  When a session resumes, \<^verbatim>\<open>_enqueue\<close> puts its row in the tier the source has now, but
  \<^verbatim>\<open>_enqueue_agent\<close>, the path every agent upload takes, leaves the row in the tier it was born with.
\<close>

theorem resumed_session_tier:
  assumes "queue_wf db" and "r \<in> set (q_rows db)" and "q_key r = (c, source_value s, sid)"
    and "s \<in> set COALESCING_AGENT_SOURCES"
  shows "map_option q_priority (row_of q_id (q_id r) (q_rows (fst (enqueue reg c s sid key now db))))
      = Some (ingestion_priority_for reg (source_value s))
    \<and> map_option q_priority (row_of q_id (q_id r) (q_rows (enqueue_agent reg c s sid key now db)))
      = Some (q_priority r)"
proof -
  have hit: "(c, source_value s, sid) \<in> q_key ` set (q_rows db)" using assms(2,3) by force
  have "is_source_connected db c s"
    using agent_sources_ungated assms(4) by (simp add: COALESCING_AGENT_SOURCES_def AGENT_SESSION_SOURCES_def)
  moreover have "row_of q_id (q_id r) (q_rows db) = Some r" using assms(1,2) by (simp add: queue_wf_row_of)
  ultimately show ?thesis using assms(3,4) hit
    by (simp add: enqueue_def enqueue_agent_def upsert_session_def Let_def row_of_update_rows
        extend_session_def extend_agent_def)
qed

theorem resumed_session_tier_witness:
  "map_option q_priority (row_of q_id 1
         (q_rows (enqueue_agent [(''pi'', (default_profile ''pi'')\<lparr>sp_ingestion_priority := 60\<rparr>)]
            ''acme'' PI ''s1'' ''k1'' 7 working))) = Some 75"
proof -
  let ?r = "set_claimed 5 (new_queue_row 1 ''acme'' ''pi'' ''s1'' ''k0'' 75 1 0)"
  have "queue_wf working" "?r \<in> set (q_rows working)" "q_key ?r = (''acme'', source_value PI, ''s1'')"
    "q_priority ?r = 75"
    by (simp_all add: working_def queue_wf_def set_claimed_def new_queue_row_def q_key_def)
  moreover have "PI \<in> set COALESCING_AGENT_SOURCES" by (simp add: COALESCING_AGENT_SOURCES_def)
  moreover have "q_id ?r = 1" by (simp add: set_claimed_def new_queue_row_def)
  ultimately show ?thesis
    using resumed_session_tier [of working ?r "''acme''" PI "''s1''"] by metis
qed

subsection \<open>The backlog sample\<close>

lemma sample_bounds:
  shows "r \<in> set (q_rows db) \<Longrightarrow> claimable cap db r \<Longrightarrow>
      0 < qa_pending (sample_once now db) \<and> now - q_first_enqueued_at r \<le> qa_oldest_age_seconds (sample_once now db)"
    and "(\<And>r. r \<in> set (q_rows db) \<Longrightarrow> q_status r = PENDING \<or> q_status r = PROCESSING \<Longrightarrow>
          \<not> active_tenant_sql db (q_customer r)) \<Longrightarrow>
      sample_once now db = \<lparr>qa_pending = 0, qa_processing = 0, qa_oldest_age_seconds = 0\<rparr>"
proof -
  define live where "live = filter (\<lambda>r. (q_status r = PENDING \<or> q_status r = PROCESSING)
      \<and> active_tenant_sql db (q_customer r)) (q_rows db)"
  have sample: "sample_once now db = \<lparr>qa_pending = length (filter (\<lambda>r. q_status r = PENDING) live),
      qa_processing = length (filter (\<lambda>r. q_status r = PROCESSING) live),
      qa_oldest_age_seconds = (if live = [] then 0 else now - Min (set (map q_first_enqueued_at live)))\<rparr>"
    by (simp only: sample_once_def Let_def live_def)
  {
    assume r: "r \<in> set (q_rows db)" "claimable cap db r"
    then have mem: "r \<in> set live" "q_status r = PENDING" by (simp_all add: claimable_def live_def)
    then have "Min (set (map q_first_enqueued_at live)) \<le> q_first_enqueued_at r"
      by (intro Min_le) auto
    moreover have "0 < length (filter (\<lambda>r. q_status r = PENDING) live)"
      by (rule length_pos_if_in_set [of r]) (simp add: mem)
    moreover have "live \<noteq> []" using mem(1) by auto
    ultimately show "0 < qa_pending (sample_once now db)
        \<and> now - q_first_enqueued_at r \<le> qa_oldest_age_seconds (sample_once now db)"
      unfolding sample queue_age.simps by (simp only: if_False simp_thms)
  }
  assume "\<And>r. r \<in> set (q_rows db) \<Longrightarrow> q_status r = PENDING \<or> q_status r = PROCESSING \<Longrightarrow>
      \<not> active_tenant_sql db (q_customer r)"
  then have "live = []" by (auto simp: live_def filter_empty_conv)
  then show "sample_once now db = \<lparr>qa_pending = 0, qa_processing = 0, qa_oldest_age_seconds = 0\<rparr>"
    by (simp add: sample)
qed

text \<open>
  The backlog sample sees all the work the queue will do and nothing else: a row a worker
  could claim is counted and is not older than the reported age; and when every live row belongs to
  a tenant that is not active, the sample reports an empty backlog.
\<close>

theorem sample_covers_work:
  "(r \<in> set (q_rows db) \<and> claimable cap db r \<longrightarrow>
      0 < qa_pending (sample_once now db)
      \<and> now - q_first_enqueued_at r \<le> qa_oldest_age_seconds (sample_once now db))
    \<and> ((\<forall>r \<in> set (q_rows db). q_status r = PENDING \<or> q_status r = PROCESSING \<longrightarrow>
          \<not> active_tenant_sql db (q_customer r)) \<longrightarrow>
      sample_once now db = \<lparr>qa_pending = 0, qa_processing = 0, qa_oldest_age_seconds = 0\<rparr>)"
  using sample_bounds(1) [of r db cap now] sample_bounds(2) [of db now] by blast

theorem sample_covers_work_witness:
  "0 < qa_pending (sample_once 30 two_pending)
   \<and> sample_once 30 (two_pending\<lparr>customers := []\<rparr>) = \<lparr>qa_pending = 0, qa_processing = 0, qa_oldest_age_seconds = 0\<rparr>"
  using sample_covers_work [of "pending_row 1 ''a''" two_pending 1 30]
    sample_covers_work [of undefined "two_pending\<lparr>customers := []\<rparr>" 1 30]
  by (simp add: queue_eval)

end
