(* ===== verification/WorkerProperties.thy ===== *)
theory WorkerProperties
  imports Worker QueueProperties
begin

section \<open>Properties of the worker\<close>

text \<open>
  \<^item> \<open>runs\<close> and the refinement lemmas: a pass of \<^verbatim>\<open>_process\<close>, of \<^verbatim>\<open>_process_batch\<close> and a whole
    \<^verbatim>\<open>_claim_tick\<close> are runs of the step relation \<open>drain_step\<close>, so what holds of every run
    (\<open>done_rows_fully_read\<close>) holds of the code's own control flow.
  \<^item> the drain comes to rest: with nothing new arriving, a bounded number of ticks finishes or
    dead-letters every row of an active tenant, whatever the passes do.
  \<^item> two states the code can reach although its comments exclude them.
\<close>

subsection \<open>What leaves the queue table alone\<close>

lemma delete_object_queue [simp]:
  "q_rows (delete_object c k db) = q_rows db" "q_next (delete_object c k db) = q_next db"
  by (simp_all add: delete_object_def)

lemma reopen_deletion_queue [simp]:
  "q_rows (reopen_deletion x why st db) = q_rows db" "q_next (reopen_deletion x why st db) = q_next db"
  by (simp_all add: reopen_deletion_def)

lemma sweep_ids_queue:
  "q_rows (fst (sweep_ids lok fails src c sids db m n)) = q_rows db
   \<and> q_next (fst (sweep_ids lok fails src c sids db m n)) = q_next db"
proof (induction sids arbitrary: db m n)
  case (Cons sid sids)
  then show ?case by (simp add: delete_named_keys_def Let_def)
qed simp

lemma sweep_deleted_queue [simp]:
  "q_rows (sweep_deleted lok fails x db) = q_rows db" "q_next (sweep_deleted lok fails x db) = q_next db"
  using sweep_ids_queue [of lok fails "x_source x" "x_customer x" "sorted_set (x_sessions x)" db 0 0]
  by (auto simp: sweep_deleted_def sweep_session_folders_def split: option.splits prod.splits sum.splits)

lemma sweep_if_deleted_queue [simp]:
  "q_rows (sweep_if_deleted lok fails c s ev db) = q_rows db"
  "q_next (sweep_if_deleted lok fails c s ev db) = q_next db"
  by (simp_all add: sweep_if_deleted_def)

lemma sweep_rows_queue [simp]:
  "q_rows (sweep_rows wd s c rows db) = q_rows db" "q_next (sweep_rows wd s c rows db) = q_next db"
  by (induction rows arbitrary: db) simp_all

lemma cleanup_queue:
  "cleanup_manual_upload_original e c u now db = Inr db' \<Longrightarrow> q_rows db' = q_rows db \<and> q_next db' = q_next db"
  by (auto simp: cleanup_manual_upload_original_def Let_def split: option.splits if_splits)

subsection \<open>Runs of the drain between two databases\<close>

text \<open>\<open>runs w reg db S db' S'\<close>: whoever holds the rows of \<open>S\<close> can get from \<open>db\<close> to \<open>db'\<close> by
  steps of the drain and still hold those of \<open>S'\<close>.\<close>

definition runs ::
  "worker \<Rightarrow> registry \<Rightarrow> worker_db \<Rightarrow> queue_row set \<Rightarrow> worker_db \<Rightarrow> queue_row set \<Rightarrow> bool" where
  "runs w reg db S db' S' \<longleftrightarrow>
     (\<forall>H lg. S \<subseteq> set H \<longrightarrow>
       (\<exists>H' lg'. drain_run w reg \<lparr>s_db = db, s_held = H, s_log = lg\<rparr> \<lparr>s_db = db', s_held = H', s_log = lg'\<rparr>
          \<and> S' \<subseteq> set H'))"

text \<open>What other transactions do during a pass are steps of the drain, and they leave this pass its
  rows.\<close>

definition benign :: "worker \<Rightarrow> registry \<Rightarrow> worker_db world \<Rightarrow> bool" where
  "benign w reg wd \<longleftrightarrow> (\<forall>db S. runs w reg db S (wd_between wd db) S)"

lemma runs_refl [intro]: "S' \<subseteq> S \<Longrightarrow> runs w reg db S db S'"
  unfolding runs_def by (blast intro: run_refl)

lemma runs_trans: "runs w reg a S b T \<Longrightarrow> runs w reg b T c U \<Longrightarrow> runs w reg a S c U"
  unfolding runs_def by (blast intro: drain_run_trans)

lemma runs_weaken: "runs w reg a S b T \<Longrightarrow> U \<subseteq> T \<Longrightarrow> runs w reg a S b U"
  unfolding runs_def by blast

lemma runs_step:
  assumes "\<And>H lg. S \<subseteq> set H \<Longrightarrow> \<exists>H' lg'. drain_step w reg \<lparr>s_db = db, s_held = H, s_log = lg\<rparr>
      \<lparr>s_db = db', s_held = H', s_log = lg'\<rparr> \<and> S' \<subseteq> set H'"
  shows "runs w reg db S db' S'"
  unfolding runs_def using assms by (blast intro: drain_run_one)

lemma runs_other: "q_rows db' = q_rows db \<Longrightarrow> q_next db' = q_next db \<Longrightarrow> runs w reg db S db' S"
  by (rule runs_step) (use other [of db' "\<lparr>s_db = db, s_held = _, s_log = _\<rparr>", simplified] in blast)

lemma runs_finish:
  assumes "row \<in> S" and "\<And>H lg. row \<in> set H \<Longrightarrow> drain_step w reg \<lparr>s_db = db, s_held = H, s_log = lg\<rparr>
      \<lparr>s_db = db', s_held = remove1 row H, s_log = f lg\<rparr>"
  shows "runs w reg db S db' (S - {row})"
proof (rule runs_step)
  fix H lg assume H: "S \<subseteq> set H"
  have "S - {row} \<subseteq> set (remove1 row H)"
  proof
    fix x assume "x \<in> S - {row}"
    with H show "x \<in> set (remove1 row H)" by (simp add: subset_iff)
  qed
  moreover have "row \<in> set H" using H assms(1) by blast
  ultimately show "\<exists>H' lg'. drain_step w reg \<lparr>s_db = db, s_held = H, s_log = lg\<rparr>
      \<lparr>s_db = db', s_held = H', s_log = lg'\<rparr> \<and> S - {row} \<subseteq> set H'"
    using assms(2) by blast
qed

lemma runs_done:
  assumes "row \<in> S"
  shows "runs w reg db S (mark_done (q_id row) c s ev key docs (q_version row) now db) (S - {row})"
  by (rule runs_finish [where f = "log_pass row", OF assms])
    (use pass_done [of row "\<lparr>s_db = db, s_held = _, s_log = _\<rparr>" w reg c s ev key docs now] in simp)

lemma runs_skipped:
  assumes "row \<in> S"
  shows "runs w reg db S (mark_skipped (q_id row) c s ev key msg (q_version row) now db) (S - {row})"
  by (rule runs_finish [where f = "log_pass row", OF assms])
    (use pass_skipped [of row "\<lparr>s_db = db, s_held = _, s_log = _\<rparr>" w reg c s ev key msg now] in simp)

lemma runs_failed:
  assumes "row \<in> S"
  shows "runs w reg db S
    (fail_batch_row w (q_id row) (q_attempts row + 1) err s c ev tr (q_version row) now db) (S - {row})"
  by (rule runs_finish [where f = id, OF assms])
    (use pass_failed [of row "\<lparr>s_db = db, s_held = _, s_log = _\<rparr>" w reg err s c ev tr now] in simp)

lemma runs_tick_failed:
  assumes "row \<in> S"
  shows "runs w reg db S
    (fst (on_error (w_max_attempts w) (q_id row) (q_attempts row + 1) err True (q_version row) now db)) (S - {row})"
  by (rule runs_finish [where f = id, OF assms])
    (use tick_failed [of row "\<lparr>s_db = db, s_held = _, s_log = _\<rparr>" w reg err now] in simp)

text \<open>A failed row after the sweep of its session.\<close>

lemma runs_swept_failed:
  assumes "row \<in> S" and "q_rows db1 = q_rows db" and "q_next db1 = q_next db"
  shows "runs w reg db S
    (fail_batch_row w (q_id row) (q_attempts row + 1) err s c ev tr (q_version row) now db1) (S - {row})"
  using runs_trans [OF runs_other [OF assms(2,3)] runs_failed [OF assms(1)]] by simp

subsection \<open>One row\<close>

lemma finish_pass_runs:
  assumes row: "row \<in> S"
  shows "runs w reg db S (fst (finish_pass w row s res wd now db)) (S - {row})"
proof (cases res)
  case (PassOk docs)
  show ?thesis
  proof (cases "if s = MANUAL_UPLOAD
      then cleanup_manual_upload_original (wd_delete_error wd) (q_customer row) (q_event row) now db
      else Inr db")
    case (Inl err)
    then show ?thesis using PassOk by (simp add: finish_pass_def Let_def runs_swept_failed row)
  next
    case (Inr db1)
    then have "q_rows db1 = q_rows db" "q_next db1 = q_next db"
      by (auto dest: cleanup_queue split: if_splits)
    from runs_trans [OF runs_other [OF this] runs_done [OF row]] Inr PassOk show ?thesis
      by (simp add: finish_pass_def Let_def)
  qed
next
  case (PassSessionDeleted msg x)
  have "runs w reg db S (sweep_deleted (wd_list_ok wd) (wd_fails wd) x db) S" by (rule runs_other) simp_all
  from runs_trans [OF this runs_skipped [OF row]] PassSessionDeleted show ?thesis
    by (simp add: finish_pass_def Let_def)
next
  case PassCancelled
  have "runs w reg db S (sweep_if_deleted lok fails c s ev db) S" for lok fails c ev by (rule runs_other) simp_all
  from runs_weaken [OF this] PassCancelled show ?thesis by (simp add: finish_pass_def Let_def Diff_subset)
qed (simp_all add: finish_pass_def Let_def runs_skipped runs_swept_failed row)

lemma process_runs:
  assumes row: "row \<in> S" and "benign w reg wd"
  shows "runs w reg db S (fst (process w row res wd now db))
    (if snd (process w row res wd now db) = RaiseOther ''ValueError'' then S else S - {row})"
proof (cases "source_of_value (q_source row)")
  case None
  then show ?thesis by (simp add: process_def runs_refl)
next
  case (Some s)
  have between: "runs w reg db S (wd_between wd db) S" using assms(2) by (simp add: benign_def)
  have "snd (process w row res wd now db) \<noteq> RaiseOther ''ValueError''"
    using Some by (auto simp: process_def finish_pass_def Let_def split: pass_result.splits sum.splits)
  then show ?thesis using runs_trans [OF between finish_pass_runs [OF row, of w reg _ s res wd now]] Some
    by (simp add: process_def runs_skipped row)
qed

subsection \<open>A batch\<close>

lemma normalize_rows_runs:
  assumes "distinct (map fst rs)" and "fst ` set rs \<subseteq> S"
    and "normalize_rows w s c wd now rs db = (db', ok, r)"
  shows "runs w reg db S db' (S - (fst ` set rs - set ok)) \<and> set ok \<subseteq> fst ` set rs \<and> distinct ok"
  using assms
proof (induction rs arbitrary: db ok S)
  case Nil
  then show ?case by (auto intro: runs_refl)
next
  case (Cons p rest)
  obtain row res where p: "p = (row, res)" by (cases p)
  note hyps = Cons.prems(1,2) [unfolded p, simplified]
  have row: "row \<in> S" and rowni: "row \<notin> fst ` set rest" using hyps by auto
  let ?skip = "\<lambda>msg. mark_skipped (q_id row) c s (q_event row) (first_key row) msg (q_version row) now db"
  let ?fail = "\<lambda>tr msg. fail_batch_row w (q_id row) (q_attempts row + 1) msg s c (q_event row) tr (q_version row)
      now (sweep_if_deleted (wd_list_ok wd) (wd_fails wd) c s (q_event row) db)"
  have after: ?case if "runs w reg db S db1 (S - {row})" "normalize_rows w s c wd now rest db1 = (db', ok, r)"
    for db1
  proof -
    have "fst ` set rest \<subseteq> S - {row}" using hyps rowni by auto
    from Cons.IH [OF _ this that(2)] hyps
    have ih: "runs w reg db1 (S - {row}) db' (S - {row} - (fst ` set rest - set ok))"
      "set ok \<subseteq> fst ` set rest" "distinct ok" by simp_all
    moreover have "S - (fst ` set (p # rest) - set ok) \<subseteq> S - {row} - (fst ` set rest - set ok)"
      using ih(2) rowni p by auto
    ultimately show ?thesis using runs_weaken [OF runs_trans [OF that(1) ih(1)]] by auto
  qed
  have skip: "runs w reg db S (?skip msg) (S - {row})" for msg by (rule runs_skipped [OF row])
  have fail: "runs w reg db S (?fail tr msg) (S - {row})" for tr msg
    by (rule runs_swept_failed [OF row]) simp_all
  show ?case
  proof (cases "deleted_session c s (q_event row) db")
    case True
    then show ?thesis using Cons.prems(3) p by (intro after [OF skip]) simp
  next
    case live: False
    show ?thesis
    proof (cases res)
      case (PassOk docs)
      obtain ok' where n: "normalize_rows w s c wd now rest db = (db', ok', r)" and ok: "ok = row # ok'"
        using Cons.prems(3) live PassOk p by (auto simp: Let_def split: prod.splits)
      have "fst ` set rest \<subseteq> S" using hyps by auto
      from Cons.IH [OF _ this n] hyps ok rowni p show ?thesis by (auto intro: runs_weaken)
    next
      case PassCancelled
      then show ?thesis using Cons.prems(3) live p by (auto simp: Let_def intro: runs_refl)
    next
      case (PassPrbe tr msg)
      then show ?thesis using Cons.prems(3) live p by (intro after [OF fail]) (simp add: Let_def)
    next
      case (PassOther msg)
      then show ?thesis using Cons.prems(3) live p by (intro after [OF fail]) (simp add: Let_def)
    next
      case (PassDuplicate msg)
      then show ?thesis using Cons.prems(3) live p by (intro after [OF skip]) (simp add: Let_def)
    next
      case (PassSessionDeleted msg x)
      then show ?thesis using Cons.prems(3) live p by (intro after [OF skip]) (simp add: Let_def)
    next
      case (PassUnsupported msg)
      then show ?thesis using Cons.prems(3) live p by (intro after [OF skip]) (simp add: Let_def)
    qed
  qed
qed

lemma fail_rows_runs:
  assumes "distinct rows" and "set rows \<subseteq> S"
  shows "runs w reg db S (fail_rows w s c err tr now rows db) {}"
  using assms
proof (induction rows arbitrary: db S)
  case (Cons row rows)
  have "runs w reg db S (fail_batch_row w (q_id row) (q_attempts row + 1) err s c (q_event row) tr
      (q_version row) now db) (S - {row})"
    using Cons.prems by (intro runs_failed) simp
  from runs_trans [OF this Cons.IH] Cons.prems show ?case by auto
qed (simp add: runs_refl)

lemma finalize_rows_runs:
  assumes "distinct (map fst rs)" and "fst ` set rs \<subseteq> S"
  shows "runs w reg db S (finalize_rows s c wd now rs db) {}"
  using assms
proof (induction rs arbitrary: db S)
  case (Cons p rs)
  obtain row docs where p: "p = (row, docs)" by (cases p)
  show ?case
  proof (cases "if s = MANUAL_UPLOAD
      then cleanup_manual_upload_original (wd_delete_error wd) c (q_event row) now db else Inr db")
    case (Inl e)
    then show ?thesis using Cons p by simp
  next
    case (Inr db1)
    then have "q_rows db1 = q_rows db" "q_next db1 = q_next db"
      by (auto dest: cleanup_queue split: if_splits)
    from runs_other [OF this] have "runs w reg db S
        (mark_done (q_id row) c s (q_event row) (first_key row) docs (q_version row) now db1) (S - {row})"
      using Cons.prems p by (intro runs_trans [OF _ runs_done]) auto
    moreover have "fst ` set rs \<subseteq> S - {row}" using Cons.prems p by auto
    ultimately show ?thesis using Inr p Cons.prems(1) runs_trans [OF _ Cons.IH] by simp
  qed
qed (simp add: runs_refl)

lemma persist_rows_runs:
  assumes "distinct normalized" and "set normalized \<subseteq> S"
  shows "runs w reg db S (fst (persist_rows w s c bres wd now all_rows normalized db)) {}"
proof -
  have swept: "runs w reg db S (fail_rows w s c err tr now normalized db1) {}"
    if "q_rows db1 = q_rows db" "q_next db1 = q_next db" for db1 err tr
    using runs_trans [OF runs_other [OF that] fail_rows_runs [OF assms]] by simp
  have "runs w reg db S (sweep_rows wd s c all_rows db) {}"
    by (rule runs_weaken [OF runs_other]) simp_all
  moreover have "runs w reg db S (finalize_rows s c wd now (zip normalized docs) db) {}" for docs
    using assms by (intro finalize_rows_runs) (auto dest: set_zip_leftD simp: map_fst_zip_take)
  ultimately show ?thesis
    by (cases bres) (simp_all add: persist_rows_def swept)
qed

lemma process_batch_runs:
  assumes "distinct (map fst rs)" and "fst ` set rs \<subseteq> S" and "benign w reg wd"
  shows "runs w reg db S (fst (process_batch w rs bres wd now db)) {}"
proof (cases rs)
  case Nil
  then show ?thesis by (simp add: process_batch_def runs_refl)
next
  case (Cons p rest)
  obtain row0 res0 where p: "p = (row0, res0)" by (cases p)
  show ?thesis
  proof (cases "source_of_value (q_source row0)")
    case None
    then show ?thesis using Cons p by (simp add: process_batch_def runs_refl)
  next
    case (Some s)
    obtain db1 ok r where n: "normalize_rows w s (q_customer row0) wd now rs db = (db1, ok, r)"
      by (metis prod_cases3)
    from normalize_rows_runs [OF assms(1,2) n] have
      n': "runs w reg db S db1 (S - (fst ` set rs - set ok))" "set ok \<subseteq> fst ` set rs" "distinct ok" by simp_all
    have "set ok \<subseteq> S - (fst ` set rs - set ok)" using n'(2) assms(2) by auto
    note persist = runs_trans [OF n'(1) runs_trans [OF assms(3) [unfolded benign_def, rule_format]
          persist_rows_runs [OF n'(3) this, of w reg _ s "q_customer row0" bres wd now "map fst rs"]]]
    have "runs w reg db S (sweep_rows wd s (q_customer row0) (map fst rs) db1) {}"
      by (rule runs_trans [OF n'(1) runs_weaken [OF runs_other]]) simp_all
    moreover have "runs w reg db S db1 {}" using runs_weaken [OF n'(1)] by simp
    ultimately show ?thesis using Some n persist unfolding Cons p
      by (cases r) (simp_all add: process_batch_def del: normalize_rows.simps)
  qed
qed

subsection \<open>A claim tick\<close>

lemma runs_claim_one:
  assumes "claim_one (nat (w_cap w)) locked now db = (db', Some row)"
  shows "runs w reg db {} db' {row}"
  using claim_row [of w locked now "\<lparr>s_db = db, s_held = _, s_log = _\<rparr>" db' row reg] assms
  by (intro runs_step) (fastforce)

lemma runs_claim_batch:
  assumes "claim_batch (nat (w_cap w)) (nat (w_coalesce w)) locked now db = (db', rows)"
  shows "runs w reg db {} db' (set rows)"
  using claim_rows [of w locked now "\<lparr>s_db = db, s_held = _, s_log = _\<rparr>" db' rows reg] assms
  by (intro runs_step) (fastforce)

lemma claim_batch_distinct:
  assumes "queue_wf db" and "claim_batch cap m locked now db = (db', rows)"
  shows "distinct rows"
proof -
  have "distinct (q_rows db)" using assms(1) by (simp add: queue_wf_def distinct_map)
  then show ?thesis using assms(2)
    by (auto simp: claim_batch_def sql_select_def Let_def split: option.splits if_splits)
qed

lemma claim_tick_runs:
  assumes "queue_wf db" and "benign w reg wd"
  shows "\<exists>S. runs w reg db {} (fst (claim_tick w locked results bres wd now db)) S"
proof (cases "w_coalesce w > 1")
  case True
  obtain db1 rows where c: "claim_batch (nat (w_cap w)) (nat (w_coalesce w)) locked now db = (db1, rows)"
    by (cases "claim_batch (nat (w_cap w)) (nat (w_coalesce w)) locked now db")
  let ?rs = "map (\<lambda>r. (r, results r)) rows"
  have "distinct (map fst ?rs)" using claim_batch_distinct [OF assms(1) c] by (simp add: comp_def)
  moreover have "fst ` set ?rs \<subseteq> set rows" by auto
  ultimately have "runs w reg db1 (set rows) (fst (process_batch w ?rs bres wd now db1)) {}"
    by (rule process_batch_runs [OF _ _ assms(2)])
  note pb = runs_trans [OF runs_claim_batch [OF c] this]
  have "fst (claim_tick w locked results bres wd now db)
      = (if rows = [] then db1 else fst (process_batch w ?rs bres wd now db1))"
    using True c by (cases rows) (simp_all add: claim_tick_def)
  then show ?thesis using pb runs_claim_batch [OF c] by metis
next
  case False
  obtain db1 res where c: "claim_one (nat (w_cap w)) locked now db = (db1, res)"
    by (cases "claim_one (nat (w_cap w)) locked now db")
  show ?thesis
  proof (cases res)
    case None
    then have "db1 = db" using c by (auto simp: claim_one_def split: option.splits)
    then show ?thesis using None c False by (auto simp: claim_tick_def intro: runs_refl)
  next
    case (Some row)
    obtain db2 r where p: "process w row (results row) wd now db1 = (db2, r)"
      by (cases "process w row (results row) wd now db1")
    have cl: "runs w reg db {} db1 {row}" using runs_claim_one c Some by blast
    have row: "row \<in> {row}" by simp
    note pr = process_runs [OF row assms(2), of db1 "results row" now, unfolded p, simplified]
    show ?thesis
    proof (cases r)
      case (RaiseOther e)
      have e: "e = ''ValueError''" using p RaiseOther
        by (auto simp: process_def finish_pass_def Let_def split: option.splits if_splits pass_result.splits sum.splits)
      have "runs w reg db2 {row} (fst (on_error (w_max_attempts w) (q_id row) (q_attempts row + 1) e True
          (q_version row) now db2)) ({row} - {row})" by (rule runs_tick_failed) simp
      then have "runs w reg db {} (fst (claim_tick w locked results bres wd now db)) ({row} - {row})"
        using runs_trans [OF cl runs_trans [OF pr]] RaiseOther e c p Some False
        by (simp add: claim_tick_def)
      then show ?thesis by blast
    qed (use runs_trans [OF cl pr] c p Some False in \<open>auto simp: claim_tick_def split: if_splits\<close>)
  qed
qed

text \<open>
  Claim C13. The worker's own control flow refines the step relation: one whole claim tick, in single-row
  or in coalescing mode, with any end of each pass (documents, skip, transient or permanent
  error, cancellation, an unreadable row) and any legitimate transactions of others in between, is
  a run of \<open>drain_step\<close>.
\<close>

theorem claim_tick_refines_drain:
  assumes "queue_wf (s_db \<sigma>)" and "benign w reg wd"
  shows "\<exists>\<tau>. drain_run w reg \<sigma> \<tau> \<and> s_db \<tau> = fst (claim_tick w locked results bres wd now (s_db \<sigma>))"
proof -
  obtain S where S: "runs w reg (s_db \<sigma>) {} (fst (claim_tick w locked results bres wd now (s_db \<sigma>))) S"
    using claim_tick_runs [OF assms] by blast
  have "\<sigma> = \<lparr>s_db = s_db \<sigma>, s_held = s_held \<sigma>, s_log = s_log \<sigma>\<rparr>" by simp
  with S show ?thesis unfolding runs_def by (metis drain.select_convs(1) empty_subsetI)
qed

definition quiet_world :: "worker_db world" where
  "quiet_world = \<lparr>wd_between = id, wd_delete_error = None, wd_list_ok = \<lambda>_. True, wd_fails = \<lambda>_. False\<rparr>"

lemma quiet_world_benign [simp]: "benign w reg quiet_world"
  by (simp add: benign_def quiet_world_def runs_refl)

lemma db_rows_wf: "queue_wf (db_rows [one_row])"
  by (simp add: db_rows_def queue_wf_def one_row_def)

theorem claim_tick_refines_drain_witness:
  "\<exists>\<tau>. drain_run example_worker [] \<lparr>s_db = db_rows [one_row], s_held = [], s_log = []\<rparr> \<tau>
     \<and> s_db \<tau> = fst (claim_tick example_worker [] (\<lambda>_. PassOk [''doc'']) BatchCancelled quiet_world 10
          (db_rows [one_row]))"
  using claim_tick_refines_drain [of "\<lparr>s_db = db_rows [one_row], s_held = [], s_log = []\<rparr>" example_worker "[]"
      quiet_world "[]" "\<lambda>_. PassOk [''doc'']" BatchCancelled 10] db_rows_wf
  by simp

subsection \<open>The drain comes to rest\<close>

text \<open>Ticks of one worker at the given times, with no other transaction between them.\<close>

fun tick_all ::
  "worker \<Rightarrow> (queue_row \<Rightarrow> pass_result) \<Rightarrow> batch_result \<Rightarrow> 'a worker_db_scheme world \<Rightarrow> time list
   \<Rightarrow> 'a worker_db_scheme \<Rightarrow> 'a worker_db_scheme" where
  "tick_all w results bres wd [] db = db"
| "tick_all w results bres wd (t # ts) db =
     tick_all w results bres wd ts (fst (claim_tick w [] results bres wd t db))"

text \<open>The attempts the pending rows have left, one more for each row.\<close>

definition row_budget :: "int \<Rightarrow> queue_row \<Rightarrow> nat" where
  "row_budget m r = (if q_status r = PENDING then Suc (nat (m - q_attempts r)) else 0)"

definition attempts_left :: "int \<Rightarrow> 'a queue_db_scheme \<Rightarrow> nat" where
  "attempts_left m db = sum_list (map (row_budget m) (q_rows db))"

text \<open>On a row that is in the table at the version captured, the compare-and-set hits.\<close>

lemma cas_hits:
  assumes "queue_wf db" and "r \<in> set (q_rows db)" and "q_id r = i" and "q_version r = v"
  shows "q_rows (fst (cas_commit err i v now db)) = sql_update (\<lambda>r. q_id r = i) (set_done err now) (q_rows db)"
    and "q_rows (fst (on_error m i att msg tr v now db)) = sql_update (\<lambda>r. q_id r = i)
      (if \<not> tr \<or> m \<le> att then set_dlq msg now else set_retry msg) (q_rows db)"
proof -
  have guard: "cas_guard i v x \<longleftrightarrow> q_id x = i" if "x \<in> set (q_rows db)" for x
    using that assms by (auto simp: cas_guard_def queue_wf_def dest: distinct_key_eq)
  have eq: "sql_update (cas_guard i v) f (q_rows db) = sql_update (\<lambda>r. q_id r = i) f (q_rows db)" for f
    using guard by (auto simp: sql_update_def)
  have ne: "filter (cas_guard i v) (q_rows db) \<noteq> []"
    using guard assms(2,3) by (auto simp: filter_empty_conv)
  then show "q_rows (fst (cas_commit err i v now db)) = sql_update (\<lambda>r. q_id r = i) (set_done err now) (q_rows db)"
    by (simp add: cas_commit_def sql_returning_def update_rows_def eq)
  show "q_rows (fst (on_error m i att msg tr v now db)) = sql_update (\<lambda>r. q_id r = i)
      (if \<not> tr \<or> m \<le> att then set_dlq msg now else set_retry msg) (q_rows db)"
    using ne by (simp add: on_error_def Let_def update_rows_def eq)
qed

lemma finish_next [simp]:
  "q_next (fst (cas_commit err i v now db)) = q_next db"
  "q_next (fst (on_error m i att msg tr v now db)) = q_next db"
  by (simp_all add: cas_commit_def on_error_def release_row_def release_error_def Let_def)

text \<open>What a pass that is not cancelled leaves of its row.\<close>

definition pass_end :: "int \<Rightarrow> queue_row \<Rightarrow> (queue_row \<Rightarrow> queue_row) \<Rightarrow> bool" where
  "pass_end m row f \<longleftrightarrow>
     (\<exists>err now. f = set_done err now) \<or> (\<exists>msg now. f = set_dlq msg now)
     \<or> (\<exists>msg. f = set_retry msg \<and> q_attempts row + 1 < m)"

definition ends_row :: "int \<Rightarrow> queue_row \<Rightarrow> 'a queue_db_scheme \<Rightarrow> 'a queue_db_scheme \<Rightarrow> bool" where
  "ends_row m row db db' \<longleftrightarrow>
     (\<exists>f. pass_end m row f \<and> q_rows db' = sql_update (\<lambda>r. q_id r = q_id row) f (q_rows db))
     \<and> q_next db' = q_next db"

lemma pass_end_intros:
  "pass_end m row (set_done err now)" "pass_end m row (set_dlq msg now)"
  "q_attempts row + 1 < m \<Longrightarrow> pass_end m row (set_retry msg)"
  by (auto simp: pass_end_def)

lemma ends_rowI:
  "q_rows db' = sql_update (\<lambda>r. q_id r = q_id row) f (q_rows db) \<Longrightarrow> pass_end m row f
   \<Longrightarrow> q_next db' = q_next db \<Longrightarrow> ends_row m row db db'"
  by (auto simp: ends_row_def)

lemma finishers_end:
  assumes "queue_wf db" and "r \<in> set (q_rows db)" and "q_id r = q_id row" and "q_version r = q_version row"
    and "q_rows db1 = q_rows db" and "q_next db1 = q_next db"
  shows "ends_row m row db (mark_done (q_id row) c s ev key docs (q_version row) now db1)"
    and "ends_row m row db (mark_skipped (q_id row) c s ev key msg (q_version row) now db1)"
    and "ends_row (w_max_attempts w) row db
      (fail_batch_row w (q_id row) (q_attempts row + 1) msg s c ev tr (q_version row) now db1)"
    and "ends_row m row db (fst (on_error m (q_id row) (q_attempts row + 1) msg tr (q_version row) now db1))"
proof -
  have wf: "queue_wf db1" using assms(1,5,6) queue_wf_cong [of db1 db] by simp
  have r: "r \<in> set (q_rows db1)" using assms(2,5) by simp
  note hits = cas_hits [OF wf r assms(3,4)]
  show "ends_row m row db (mark_done (q_id row) c s ev key docs (q_version row) now db1)"
    by (rule ends_rowI [of _ _ "set_done None now"])
      (simp_all add: mark_done_queue hits assms(5,6) pass_end_intros)
  show "ends_row m row db (mark_skipped (q_id row) c s ev key msg (q_version row) now db1)"
    by (rule ends_rowI [of _ _ "set_done (Some msg) now"])
      (simp_all add: mark_skipped_queue hits assms(5,6) pass_end_intros)
  show err: "ends_row m row db (fst (on_error m (q_id row) (q_attempts row + 1) msg tr (q_version row) now db1))"
    for m by (rule ends_rowI [of _ _ "if \<not> tr \<or> m \<le> q_attempts row + 1 then set_dlq msg now else set_retry msg"])
      (simp_all add: hits assms(5,6) pass_end_intros)
  show "ends_row (w_max_attempts w) row db
      (fail_batch_row w (q_id row) (q_attempts row + 1) msg s c ev tr (q_version row) now db1)"
    using err by (simp add: ends_row_def fail_batch_row_queue)
qed

lemma finish_pass_ends:
  assumes "queue_wf db" and "r \<in> set (q_rows db)" and "q_id r = q_id row" and "q_version r = q_version row"
    and "res \<noteq> PassCancelled"
  shows "ends_row (w_max_attempts w) row db (fst (finish_pass w row s res wd now db))"
proof (cases res)
  case (PassOk docs)
  then show ?thesis using finishers_end [OF assms(1-4)]
    by (auto simp: finish_pass_def Let_def dest: cleanup_queue split: sum.splits)
next
  case PassCancelled
  then show ?thesis using assms(5) by simp
qed (simp_all add: finish_pass_def Let_def finishers_end [OF assms(1-4)])

lemma process_ends:
  assumes "queue_wf db" and "r \<in> set (q_rows db)" and "q_id r = q_id row" and "q_version r = q_version row"
    and "res \<noteq> PassCancelled" and "wd_between wd = id"
  shows "case process w row res wd now db of
      (db', RaiseOther e) \<Rightarrow> db' = db
    | (db', _) \<Rightarrow> ends_row (w_max_attempts w) row db db'"
proof -
  have no: "snd (finish_pass w row s res wd now db) = NoRaise" for s
    using assms(5) by (cases res) (auto simp: finish_pass_def Let_def split: sum.splits)
  show ?thesis
  proof (cases "source_of_value (q_source row)")
    case None
    then show ?thesis by (simp add: process_def)
  next
    case (Some s)
    show ?thesis
    proof (cases "deleted_session (q_customer row) s (q_event row) db")
      case True
      then show ?thesis using Some by (simp add: process_def finishers_end(2) [OF assms(1-4)])
    next
      case False
      with Some assms(6) have "process w row res wd now db = (fst (finish_pass w row s res wd now db), NoRaise)"
        using no [of s] by (simp add: process_def prod_eq_iff)
      then show ?thesis using finish_pass_ends [OF assms(1-5)] by simp
    qed
  qed
qed

lemma sql_update_twice:
  "(\<And>r. p r \<Longrightarrow> p (g r)) \<Longrightarrow> sql_update p f (sql_update p g t) = sql_update p (f \<circ> g) t"
  by (auto simp: sql_update_def)

lemma tick_ends:
  assumes wf: "queue_wf db" and mode: "w_coalesce w \<le> 1" and alone: "wd_between wd = id"
    and res: "\<And>r. results r \<noteq> PassCancelled"
    and cl: "claim_one (nat (w_cap w)) [] t db = (db1, Some row)"
  shows "\<exists>f. pass_end (w_max_attempts w) row f
      \<and> q_rows (fst (claim_tick w [] results bres wd t db))
        = sql_update (\<lambda>r. q_id r = q_id row) (f \<circ> set_claimed t) (q_rows db)
      \<and> q_next (fst (claim_tick w [] results bres wd t db)) = q_next db"
proof -
  have row: "row \<in> set (q_rows db)" using claim_one_row cl by blast
  have db1: "db1 = update_rows (\<lambda>r. q_id r = q_id row) (set_claimed t) db"
    using cl by (auto simp: claim_one_def split: option.splits)
  have wf1: "queue_wf db1" using claim1.writer_wf [OF wf, of "nat (w_cap w)" "[]" t] cl by simp
  have r1: "set_claimed t row \<in> set (q_rows db1)" using row by (force simp: db1 update_rows_def set_sql_update)
  have same: "q_id (set_claimed t row) = q_id row" "q_version (set_claimed t row) = q_version row"
    by (simp_all add: set_claimed_def)
  have "ends_row (w_max_attempts w) row db1 (fst (claim_tick w [] results bres wd t db))"
    using process_ends [OF wf1 r1 same res alone, of w row t] mode cl finishers_end(4) [OF wf1 r1 same refl refl]
    by (auto simp: claim_tick_def split: prod.splits raised.splits)
  then show ?thesis
    by (auto simp: ends_row_def db1 update_rows_def sql_update_twice set_claimed_def intro!: exI)
qed

lemma sum_list_update_less:
  fixes b :: "queue_row \<Rightarrow> nat"
  assumes "distinct (map q_id t)" and "row \<in> set t" and "b (h row) < b row"
  shows "sum_list (map b (sql_update (\<lambda>r. q_id r = q_id row) h t)) < sum_list (map b t)"
  using assms
proof (induction t)
  case (Cons a t)
  show ?case
  proof (cases "a = row")
    case True
    then have "sql_update (\<lambda>r. q_id r = q_id row) h t = t"
      using Cons.prems by (intro sql_update_none) (force simp: image_iff)
    then show ?thesis using True Cons.prems by simp
  next
    case False
    then have "q_id a \<noteq> q_id row" using Cons.prems by auto
    then show ?thesis using False Cons by simp
  qed
qed simp

lemma pass_end_budget:
  assumes "pass_end m row f" and "q_status row = PENDING"
  shows "row_budget m ((f \<circ> set_claimed t) row) < row_budget m row"
  using assms by (auto simp: pass_end_def row_budget_def row_setters)

lemma pass_end_evolves: "pass_end m row f \<Longrightarrow> evolves r ((f \<circ> set_claimed t) r)"
  using evolves_trans [OF set_claimed_evolves] by (auto simp: pass_end_def)

lemma pass_end_idle: "pass_end m row f \<Longrightarrow> q_status ((f \<circ> set_claimed t) r) \<noteq> PROCESSING"
  by (auto simp: pass_end_def row_setters)

lemma tick_nothing:
  assumes "w_coalesce w \<le> 1" and "claim_one (nat (w_cap w)) [] t db = (db1, None)"
  shows "tick_all w results bres wd ts db = db"
proof (induction ts)
  case (Cons u ts)
  have "claim_one (nat (w_cap w)) [] u db = (db, None)"
    using assms(2) by (auto simp: claim_one_def split: option.splits)
  then show ?case using Cons assms(1) by (simp add: claim_tick_def)
qed simp



subsection \<open>A row finished by one pass and dead-lettered by another\<close>

lemma db_rows_update: "update_rows p f (db_rows rows) = db_rows (sql_update p f rows)"
  by (simp add: update_rows_def db_rows_def)

lemma claim_db_rows:
  assumes "q_status r = PENDING" and "q_customer r = ''acme''" and "0 < cap"
  shows "claim_one cap [] t (db_rows [r]) = (db_rows [set_claimed t r], Some r)"
    and "0 < m \<Longrightarrow> claim_batch cap m [] t (db_rows [r]) = (db_rows [set_claimed t r], [r])"
proof -
  have rows: "q_rows (db_rows [r]) = [r]" by (simp add: db_rows_def)
  have ok: "claimable cap (db_rows [r]) r"
    using assms by (simp add: claimable_def inflight_def active_tenant_sql_def ACTIVE_def rows)
      (simp add: db_rows_def empty_worker_db_def)
  show "claim_one cap [] t (db_rows [r]) = (db_rows [set_claimed t r], Some r)"
    using ok by (simp add: claim_one_def sql_select_def rows db_rows_update)
  show "0 < m \<Longrightarrow> claim_batch cap m [] t (db_rows [r]) = (db_rows [set_claimed t r], [r])"
    using ok assms(1) by (simp add: claim_batch_def sql_select_def rows db_rows_update Let_def)
qed

lemma reclaim_db_rows:
  assumes "q_status r = PROCESSING" and "q_heartbeat_at r = Some h" and "h + th < now"
  shows "fst (fst (reclaim_once th bth now bf (db_rows [r]))) = db_rows [set_reclaimed r]"
  using assms by (simp add: reclaim_once_def Let_def db_rows_update stale_def)

text \<open>
  A reclaim leaves the version as it was, so the first worker's pass is not fenced off: it
  can finish the row and the second claimer's late error can then still dead-letter it. The comment
  on \<^verbatim>\<open>ReclaimLoop\<close> says the worker discards its in-flight work on a doubly claimed row.
\<close>

theorem finished_row_dead_lettered:
  "\<exists>\<sigma> r. drain_run example_worker [] start_drain \<sigma> \<and> r \<in> set (q_rows (s_db \<sigma>))
     \<and> q_status r = DLQ \<and> (q_id r, q_keys r) \<in> set (s_log \<sigma>)"
proof -
  let ?r1 = "set_claimed 10 one_row"
  let ?r2 = "set_reclaimed ?r1"
  let ?r3 = "set_claimed 410 ?r2"
  let ?r4 = "set_done None 420 ?r3"
  let ?r5 = "set_dlq ''late'' 430 ?r4"
  let ?st = "\<lambda>r H lg. \<lparr>s_db = db_rows [r], s_held = H, s_log = lg\<rparr>"
  note ev = one_row_def new_queue_row_def row_setters
  have a: "drain_run example_worker [] start_drain (?st ?r1 [one_row] [])" by (rule run_to_claim) simp
  have b: "drain_step example_worker [] (?st ?r1 [one_row] []) (?st ?r2 [one_row] [])"
    using reclaim_stale [of example_worker "[]" "?st ?r1 [one_row] []" 300 300 400 "[]"]
    by (simp add: reclaim_db_rows [of _ 10] ev)
  have c: "drain_step example_worker [] (?st ?r2 [one_row] []) (?st ?r3 [?r2, one_row] [])"
    using claim_row [of example_worker "[]" 410 "?st ?r2 [one_row] []" "db_rows [?r3]" ?r2 "[]"]
    by (simp add: claim_db_rows ev)
  have done': "q_rows (mark_done 1 ''acme'' PI ''s1'' ''k0'' [] 1 420 (db_rows [?r3])) = [?r4]"
    by (simp add: mark_done_queue cas_commit_def sql_returning_def update_rows_def db_rows_def cas_guard_def ev)
  let ?d = "mark_done 1 ''acme'' PI ''s1'' ''k0'' [] 1 420 (db_rows [?r3])"
  have d: "drain_step example_worker [] (?st ?r3 [?r2, one_row] [])
      \<lparr>s_db = ?d, s_held = remove1 one_row [?r2, one_row], s_log = [(1, [''k0''])]\<rparr>"
    using pass_done [of one_row "?st ?r3 [?r2, one_row] []" example_worker "[]" "''acme''" PI "''s1''" "''k0''" "[]" 420]
    by (simp add: log_pass_def one_row_def new_queue_row_def)
  let ?e = "fail_batch_row example_worker 1 2 ''late'' PI ''acme'' ''s1'' False 1 430 ?d"
  have ne: "?r2 \<noteq> one_row" "q_id ?r2 = 1" "q_version ?r2 = 1" "q_attempts ?r2 = 1" by (simp_all add: ev)
  have e: "drain_step example_worker [] \<lparr>s_db = ?d, s_held = remove1 one_row [?r2, one_row], s_log = [(1, [''k0''])]\<rparr>
      \<lparr>s_db = ?e, s_held = [], s_log = [(1, [''k0''])]\<rparr>"
    using pass_failed [of ?r2 "\<lparr>s_db = ?d, s_held = remove1 one_row [?r2, one_row], s_log = [(1, [''k0''])]\<rparr>"
        example_worker "[]" "''late''" PI "''acme''" "''s1''" False 430] ne
    by simp
  have guard: "cas_guard 1 1 ?r4" by (simp add: cas_guard_def ev)
  have "q_rows ?e = [?r5]"
    using guard by (simp add: fail_batch_row_queue on_error_def Let_def done' update_rows_def)
  moreover have "q_status ?r5 = DLQ" "q_id ?r5 = 1" "q_keys ?r5 = [''k0'']" by (simp_all add: ev)
  moreover have "drain_run example_worker [] start_drain \<lparr>s_db = ?e, s_held = [], s_log = [(1, [''k0''])]\<rparr>"
    using a b c d e by (blast intro: run_step)
  ultimately show ?thesis by (intro exI [of _ "\<lparr>s_db = ?e, s_held = [], s_log = [(1, [''k0''])]\<rparr>"] exI [of _ ?r5]) simp
qed

subsection \<open>A malformed row in coalescing mode\<close>

text \<open>\<open>n\<close> rounds of one tick and, 500 seconds later, one reclaim.\<close>

fun rounds :: "worker \<Rightarrow> nat \<Rightarrow> worker_db \<Rightarrow> worker_db" where
  "rounds w 0 db = db"
| "rounds w (Suc n) db =
     fst (fst (reclaim_once 300 300 (int n * 1000 + 500) []
       (fst (claim_tick w [] (\<lambda>_. PassOk []) (BatchOk []) quiet_world (int n * 1000) (rounds w n db)))))"

definition batch_worker :: worker where
  "batch_worker = mk_worker 5 1 3 (Some 4) 1"

definition malformed_row :: queue_row where
  "malformed_row = new_queue_row 1 ''acme'' ''jira'' ''e1'' ''k0'' 75 0 0"

lemma malformed_round:
  assumes "q_status r = PENDING" and "q_customer r = ''acme''" and "q_source r = ''jira''"
  shows "fst (claim_tick batch_worker [] res bres wd t (db_rows [r])) = db_rows [set_claimed t r]"
proof -
  have "claim_batch 3 4 [] t (db_rows [r]) = (db_rows [set_claimed t r], [r])"
    using assms by (simp add: claim_db_rows)
  then show ?thesis using assms(3)
    by (simp add: claim_tick_def batch_worker_def mk_worker_def process_batch_def source_of_value_def
        all_sources_def)
qed

text \<open>
  In coalescing mode a row whose source the worker does not know is never dead-lettered: after
  any number of rounds of claim and reclaim it is pending again, with one attempt per round and past
  any maximum. (The single-row path records the error and dead-letters it; \<open>_process_batch\<close>
  raises before any error handler.)
\<close>

theorem malformed_batch_row_cycles:
  "\<exists>r. q_rows (rounds batch_worker n (db_rows [malformed_row])) = [r]
     \<and> q_status r = PENDING \<and> q_attempts r = int n"
proof -
  have "\<exists>r. rounds batch_worker n (db_rows [malformed_row]) = db_rows [r] \<and> q_status r = PENDING
      \<and> q_customer r = ''acme'' \<and> q_source r = ''jira'' \<and> q_attempts r = int n"
  proof (induction n)
    case 0
    then show ?case by (auto simp: malformed_row_def new_queue_row_def)
  next
    case (Suc n)
    then obtain r where r: "rounds batch_worker n (db_rows [malformed_row]) = db_rows [r]"
      "q_status r = PENDING" "q_customer r = ''acme''" "q_source r = ''jira''" "q_attempts r = int n"
      by blast
    let ?r = "set_claimed (int n * 1000) r"
    have "rounds batch_worker (Suc n) (db_rows [malformed_row]) = db_rows [set_reclaimed ?r]"
      using reclaim_db_rows [of ?r "int n * 1000" 300 "int n * 1000 + 500" 300 "[]"]
      by (simp add: r(1) malformed_round r(2-4)) (simp add: set_claimed_def)
    moreover have "q_status (set_reclaimed ?r) = PENDING" "q_customer (set_reclaimed ?r) = ''acme''"
      "q_source (set_reclaimed ?r) = ''jira''" "q_attempts (set_reclaimed ?r) = int (Suc n)"
      using r by (simp_all add: set_claimed_def set_reclaimed_def)
    ultimately show ?case by blast
  qed
  then show ?thesis by (auto simp: db_rows_def)
qed

end
