(* ===== verification/ReceiptProperties.thy ===== *)
theory ReceiptProperties
  imports Receipts
begin

section \<open>Properties of the receipt door\<close>

text \<open>
  \<open>stream_wf\<close>: every stream has the gapless sequence of receipts that leads to its cursor. The door
  keeps it on every branch; an accepted batch is stored, queued and answered from its receipt ever
  after; a deleted session is never written; old producers are fenced off; some protocol is always
  open to a new session.
\<close>

subsection \<open>Checks and field lemmas\<close>

lemma checks_ok: "checks cs = Inr () \<longleftrightarrow> (\<forall>c \<in> set cs. c = Inr ())"
  by (induction cs) (auto split: sum.splits)

lemma need_ok [simp]: "need b m = Inr () \<longleftrightarrow> b"
  by (simp add: need_def)

lemma valid_intervals:
  assumes "validate_payload cfg a p = Inr ()" and "u \<in> set UNITS"
  shows "ustart p u \<le> uend p u"
proof -
  from assms(1) have "\<forall>c \<in> set (map (\<lambda>u. need (ustart p u \<le> uend p u) (''invalid '' @ u @ '' interval'')) UNITS).
      c = Inr ()"
    unfolding validate_payload_def checks_ok set_append ball_Un by (elim conjE)
  with assms(2) have "need (ustart p u \<le> uend p u) (''invalid '' @ u @ '' interval'') = Inr ()"
    unfolding set_map by blast
  then show ?thesis by (simp only: need_ok)
qed

lemma valid_batch_seq:
  assumes "validate_payload cfg a p = Inr ()"
  shows "0 \<le> gint p ''batch_seq''"
proof -
  from assms have "\<forall>c \<in> set (map (check_nat p)
            [''batch_seq'', ''source_byte_start'', ''source_byte_end'', ''source_line_start'',
             ''source_line_end'', ''event_start'', ''event_end'']). c = Inr ()"
    unfolding validate_payload_def checks_ok set_append ball_Un by (elim conjE)
  then have "check_nat p ''batch_seq'' = Inr ()" by (simp only: set_map list.set image_insert ball_simps)
  then show ?thesis by (auto simp: check_nat_def gint_def split: option.splits json.splits)
qed

lemma put_object_fields [simp]:
  "session_streams (put_object c k b db) = session_streams db"
  "session_batch_receipts (put_object c k b db) = session_batch_receipts db"
  "session_deletions (put_object c k b db) = session_deletions db"
  "q_rows (put_object c k b db) = q_rows db"
  by (simp_all add: put_object_def)

lemma enqueue_agent_fields [simp]:
  "session_streams (enqueue_agent reg c s sid k now db) = session_streams db"
  "session_batch_receipts (enqueue_agent reg c s sid k now db) = session_batch_receipts db"
  "session_deletions (enqueue_agent reg c s sid k now db') = session_deletions db'"
  "objects (enqueue_agent reg c s sid k now db') = objects db'"
  by (simp_all add: enqueue_agent_def update_rows_def add_row_def)

lemma mark_named_fields [simp]:
  "session_streams (mark_named c src sid shas now db) = session_streams db"
  "session_batch_receipts (mark_named c src sid shas now db) = session_batch_receipts db"
  "session_deletions (mark_named c src sid shas now db) = session_deletions db"
  "q_rows (mark_named c src sid shas now db) = q_rows db"
  "objects (mark_named c src sid shas now db) = objects db"
  by (simp_all add: mark_named_def)

lemma key_simps [simp]:
  "stream_key (new_stream c src sid i pr dev) = (c, src, sid)"
  "stream_key (advance_stream p st) = stream_key st"
  "rv_batch_seq (receipt_for p d) = gint p ''batch_seq''"
  by (simp_all add: stream_key_def new_stream_def advance_stream_def receipt_for_def)

subsection \<open>What a settled batch knows\<close>

definition session_of :: "json \<Rightarrow> string \<Rightarrow> source_system \<Rightarrow> string \<times> string \<times> string" where
  "session_of p c s = (c, source_value s, gstr p ''session_id'')"

lemma settle_next_continues: "settle_next p st = None \<Longrightarrow> continues p st"
  by (auto simp: settle_next_def Let_def split: if_splits)

lemma settle_store:
  assumes "settle cfg p c s digest protocol db = Inr (None, new)"
  shows "\<not> refuse_deleted db c (source_value s) (gstr p ''session_id'')"
    and "row_of receipt_key (session_of p c s, gint p ''batch_seq'') (session_batch_receipts db) = None"
    and "new \<longleftrightarrow> row_of stream_key (session_of p c s) (session_streams db) = None"
    and "continues p (case row_of stream_key (session_of p c s) (session_streams db) of Some st \<Rightarrow> st
       | None \<Rightarrow> new_stream c (source_value s) (gstr p ''session_id'') (gstr p ''stream_id'') protocol None)"
    and "row_of stream_key (session_of p c s) (session_streams db) = Some st \<Longrightarrow>
       st_stream_id st = gstr p ''stream_id'' \<and> st_protocol st = protocol"
    and "new \<Longrightarrow> settle_new cfg p c s protocol db = None"
  using assms unfolding settle_def session_of_def Let_def
  by (auto split: if_splits option.splits dest: settle_next_continues)

subsection \<open>Streams and their receipts\<close>

definition receipts_of :: "'a stream_db_scheme \<Rightarrow> string \<times> string \<times> string \<Rightarrow> receipt_view list" where
  "receipts_of db K = map rc_view (filter (\<lambda>rc. fst (receipt_key rc) = K) (session_batch_receipts db))"

definition stream_ok :: "receipt_view list \<Rightarrow> stream_row \<Rightarrow> bool" where
  "stream_ok rs st \<longleftrightarrow>
     rs \<noteq> [] \<and> map rv_batch_seq rs = map int [0..<length rs] \<and> st_last_seq st = int (length rs) - 1
     \<and> (st_byte_end st, st_line_end st, st_event_end st, st_prefix st, st_finalized st)
       = (rv_byte_end (last rs), rv_line_end (last rs), rv_event_end (last rs), rv_prefix (last rs),
          rv_finalized (last rs))
     \<and> sorted (map rv_byte_end rs) \<and> sorted (map rv_line_end rs) \<and> sorted (map rv_event_end rs)"

definition stream_wf :: "'a stream_db_scheme \<Rightarrow> bool" where
  "stream_wf db \<longleftrightarrow>
     distinct (map stream_key (session_streams db))
     \<and> (\<forall>st \<in> set (session_streams db). stream_ok (receipts_of db (stream_key st)) st)
     \<and> (\<forall>K. K \<notin> stream_key ` set (session_streams db) \<longrightarrow> receipts_of db K = [])"

lemma sorted_snoc_last:
  fixes y :: int
  shows "sorted xs \<Longrightarrow> xs \<noteq> [] \<Longrightarrow> last xs \<le> y \<Longrightarrow> sorted (xs @ [y])"
  by (cases xs rule: rev_cases) (auto simp: sorted_append intro: order_trans)

lemma stream_ok_snoc:
  assumes "stream_ok rs st" and "continues p st" and "\<And>u. u \<in> set UNITS \<Longrightarrow> ustart p u \<le> uend p u"
  shows "stream_ok (rs @ [receipt_for p d]) (advance_stream p st)"
proof -
  note le = assms(3) [of "''source_byte''"] assms(3) [of "''source_line''"] assms(3) [of "''event''"]
  have ne: "rs \<noteq> []" using assms(1) by (simp add: stream_ok_def)
  have ends: "st_byte_end st = rv_byte_end (last rs)" "st_line_end st = rv_line_end (last rs)"
    "st_event_end st = rv_event_end (last rs)" "sorted (map rv_byte_end rs)" "sorted (map rv_line_end rs)"
    "sorted (map rv_event_end rs)"
    using assms(1) by (simp_all add: stream_ok_def)
  have srt: "sorted (map f rs @ [y])" if "sorted (map f rs)" "f (last rs) \<le> y"
    for f :: "receipt_view \<Rightarrow> int" and y
    using that sorted_snoc_last [of "map f rs"] ne by (simp add: last_map)
  have "sorted (map rv_byte_end rs @ [uend p ''source_byte''])"
    "sorted (map rv_line_end rs @ [uend p ''source_line''])" "sorted (map rv_event_end rs @ [uend p ''event''])"
    using ends le assms(2) by (auto intro!: srt simp: continues_def UNITS_def)
  moreover have "map rv_batch_seq (rs @ [receipt_for p d]) = map int [0..<length (rs @ [receipt_for p d])]"
    using assms(1,2) by (simp add: stream_ok_def continues_def)
  ultimately show ?thesis
    using assms(1,2) unfolding stream_ok_def continues_def
    by (simp add: advance_stream_def receipt_for_def)
qed

lemma stream_ok_first:
  assumes "continues p (new_stream c src sid i pr dev)" and "\<And>u. u \<in> set UNITS \<Longrightarrow> ustart p u \<le> uend p u"
  shows "stream_ok [receipt_for p d] (advance_stream p (new_stream c src sid i pr dev'))"
  using assms by (auto simp: stream_ok_def continues_def advance_stream_def receipt_for_def new_stream_def)

text \<open>The rows \<open>store_batch\<close> leaves when it succeeds.\<close>

lemma store_batch_rows:
  assumes "store_batch env reg p c s digest protocol new now db = (db', Inr ans)"
  shows "session_batch_receipts db' = session_batch_receipts db @
       [\<lparr>rc_customer = c, rc_source = source_value s, rc_session = gstr p ''session_id'',
         rc_payload_key = batch_key c s (gstr p ''session_id'') (gint p ''batch_seq'') digest,
         rc_view = receipt_for p digest\<rparr>]"
    and "session_streams db' = sql_update (\<lambda>st. stream_key st = session_of p c s) (advance_stream p)
       (session_streams db @ (if new then [new_stream c (source_value s) (gstr p ''session_id'')
          (gstr p ''stream_id'') protocol (obj_get (de_redact env p) ''device_id'')] else []))"
    and "ans = \<lparr>an_status = Accepted, an_protocol = protocol, an_receipt = receipt_for p digest\<rparr>"
    and "session_deletions db' = session_deletions db"
  using assms by (auto simp: store_batch_def Let_def session_of_def split: sum.splits if_splits)

lemma store_batch_crash:
  assumes "store_batch env reg p c s digest protocol new now db = (db', Inl e)"
  shows "session_batch_receipts db' = session_batch_receipts db" "session_streams db' = session_streams db"
    "q_rows db' = q_rows db"
  using assms by (auto simp: store_batch_def Let_def split: sum.splits)

lemma receipts_of_snoc:
  "session_batch_receipts db' = session_batch_receipts db @ [rc] \<Longrightarrow>
   receipts_of db' K = receipts_of db K @ (if fst (receipt_key rc) = K then [rc_view rc] else [])"
  by (simp add: receipts_of_def)

lemma store_batch_wf:
  assumes wf: "stream_wf db" and st: "settle cfg p c s digest protocol db = Inr (None, new)"
    and units: "\<And>u. u \<in> set UNITS \<Longrightarrow> ustart p u \<le> uend p u"
    and run: "store_batch env reg p c s digest protocol new now db = (db', Inr ans)"
  shows "stream_wf db'"
proof -
  let ?K = "session_of p c s"
  let ?new = "new_stream c (source_value s) (gstr p ''session_id'') (gstr p ''stream_id'') protocol
      (obj_get (de_redact env p) ''device_id'')"
  note rows = store_batch_rows [OF run]
  note known = settle_store [OF st]
  have newkey: "stream_key ?new = ?K" by (simp add: session_of_def)
  have rs: "receipts_of db' K = receipts_of db K @ (if K = ?K then [receipt_for p digest] else [])" for K
    using receipts_of_snoc [OF rows(1)] by (auto simp: receipt_key_def session_of_def)
  let ?t = "session_streams db @ (if new then [?new] else [])"
  have absent: "?K \<notin> stream_key ` set (session_streams db)" if new
    using that known(3) by (simp add: row_of_None_iff)
  have dist: "distinct (map stream_key ?t)"
    using wf absent newkey by (auto simp: stream_wf_def)
  have streams: "session_streams db' = sql_update (\<lambda>st. stream_key st = ?K) (advance_stream p) ?t"
    using rows(2) .
  have "map stream_key (session_streams db') = map stream_key ?t"
    unfolding streams by (rule map_sql_update) simp
  then have keys: "distinct (map stream_key (session_streams db'))"
    "stream_key ` set (session_streams db') = stream_key ` set ?t"
    using dist by (simp_all only: list.set_map [symmetric])
  have in_t: "?K \<in> stream_key ` set ?t"
  proof (cases new)
    case True
    then show ?thesis using newkey by simp
  next
    case False
    then show ?thesis using known(3) by (simp add: row_of_None_iff)
  qed
  have ok: "stream_ok (receipts_of db' (stream_key x)) x" if x: "x \<in> set (session_streams db')" for x
  proof -
    from x obtain y where y: "y \<in> set ?t" "x = (if stream_key y = ?K then advance_stream p y else y)"
      unfolding streams by (rule sql_update_memE)
    show ?thesis
    proof (cases "stream_key y = ?K")
      case False
      with y newkey have "y \<in> set (session_streams db)" by (auto split: if_splits)
      with False y wf show ?thesis by (simp add: rs stream_wf_def)
    next
      case K: True
      show ?thesis
      proof (cases new)
        case True
        have "y \<notin> set (session_streams db)" using K absent [OF True] by (metis imageI)
        then have "y = ?new" using y(1) True by simp
        moreover have "receipts_of db ?K = []" using wf absent [OF True] unfolding stream_wf_def by blast
        ultimately show ?thesis
          using K y(2) known(3,4) True units by (simp add: rs newkey) (rule stream_ok_first)
      next
        case False
        then have ymem: "y \<in> set (session_streams db)" using y(1) by simp
        then have "row_of stream_key ?K (session_streams db) = Some y"
          using wf K by (simp add: stream_wf_def row_of_Some_iff)
        then have "continues p y" using known(4) by simp
        moreover have "stream_ok (receipts_of db ?K) y" using wf ymem K by (auto simp: stream_wf_def)
        ultimately show ?thesis using K y(2) units by (simp add: rs stream_ok_snoc)
      qed
    qed
  qed
  have "receipts_of db' K = []" if "K \<notin> stream_key ` set (session_streams db')" for K
  proof -
    have "K \<notin> stream_key ` set (session_streams db)" "K \<noteq> ?K" using that keys(2) in_t by auto
    moreover have "receipts_of db K = []" using wf calculation(1) unfolding stream_wf_def by blast
    ultimately show ?thesis by (simp add: rs)
  qed
  with keys(1) ok show ?thesis unfolding stream_wf_def by blast
qed

lemma stream_wf_cong:
  "session_streams a = session_streams b \<Longrightarrow> session_batch_receipts a = session_batch_receipts b
   \<Longrightarrow> stream_wf a \<longleftrightarrow> stream_wf b"
  by (simp add: stream_wf_def receipts_of_def)

lemma settle_dup_status: "settle cfg p c s d pr db = Inr (Some dup, b) \<Longrightarrow> an_status dup = Duplicate"
  by (auto simp: settle_def Let_def split: if_splits option.splits)

text \<open>How an accept can end.\<close>

lemma accept_cases:
  assumes "accept cfg env reg between p c s now db = (db', res)"
  obtains (unchanged) "db' = db" "\<not> (\<exists>ans. res = Inr ans \<and> an_status ans = Accepted)"
  | (refused) "db' = between db" "\<not> (\<exists>ans. res = Inr ans \<and> an_status ans = Accepted)"
  | (stored) new where "validate_payload cfg False p = Inr ()"
      "settle cfg p c s (de_digest env (canonical_payload p)) (payload_protocol p) (between db) = Inr (None, new)"
      "store_batch env reg p c s (de_digest env (canonical_payload p)) (payload_protocol p) new now (between db) = (db', res)"
proof -
  let ?d = "de_digest env (canonical_payload p)" and ?pr = "payload_protocol p"
  show thesis
  proof (cases "validate_payload cfg False p = Inr () \<and> is_source_connected db c s
      \<and> (\<exists>b. settle cfg p c s ?d ?pr db = Inr (None, b))")
    case False
    then have "db' = db \<and> \<not> (\<exists>ans. res = Inr ans \<and> an_status ans = Accepted)" using assms
      by (auto simp: accept_def Let_def split: sum.splits option.splits if_splits prod.splits
          dest: settle_dup_status)
    then show thesis by (intro unchanged) blast+
  next
    case True
    then have run: "(db', res) = (case settle cfg p c s ?d ?pr (between db) of
        Inl e \<Rightarrow> (between db, Inl e)
      | Inr (Some dup, _) \<Rightarrow> (between db, Inr dup)
      | Inr (None, new) \<Rightarrow> store_batch env reg p c s ?d ?pr new now (between db))"
      using assms by (auto simp: accept_def Let_def)
    show thesis
    proof (cases "settle cfg p c s ?d ?pr (between db)")
      case (Inl e)
      then show thesis using run by (intro refused) auto
    next
      case (Inr x)
      obtain dup new where x: "x = (dup, new)" by (cases x)
      show thesis
      proof (cases dup)
        case None
        then show thesis using run Inr x True by (intro stored [of new]) auto
      next
        case (Some d)
        then show thesis using run Inr x settle_dup_status [of cfg p c s ?d ?pr "between db" d new]
          by (intro refused) auto
      qed
    qed
  qed
qed

text \<open>
  Claim C3. Receipts are gapless: on every branch (accepted, duplicate, refused, crashed half way) the
  door keeps, for every stream, receipts numbered 0, 1, 2, ... without a gap or a repetition, byte, line
  and event cursors that never move back, and a stream row whose cursor, prefix hash and finalized
  flag are those of the last receipt; a session without a stream has no receipts.
\<close>

theorem accept_keeps_receipts_gapless:
  assumes "stream_wf db" and "stream_wf (between db)"
  shows "stream_wf (fst (accept cfg env reg between p c s now db))"
proof -
  obtain db' res where run: "accept cfg env reg between p c s now db = (db', res)"
    by (cases "accept cfg env reg between p c s now db")
  from run show ?thesis
  proof (cases rule: accept_cases)
    case (stored new)
    have units: "\<And>u. u \<in> set UNITS \<Longrightarrow> ustart p u \<le> uend p u" using valid_intervals [OF stored(1)] .
    show ?thesis
    proof (cases res)
      case (Inl e)
      then have "store_batch env reg p c s (de_digest env (canonical_payload p)) (payload_protocol p) new now
          (between db) = (db', Inl e)" using stored(3) by simp
      from stream_wf_cong [OF store_batch_crash(2) [OF this] store_batch_crash(1) [OF this]] assms(2) run show ?thesis by simp
    next
      case (Inr ans)
      then show ?thesis using store_batch_wf [OF assms(2) stored(2) units] stored(3) run by simp
    qed
  qed (use assms run in simp_all)
qed

subsection \<open>A concrete batch\<close>

definition example_batch :: json where
  "example_batch = JObj
     [(''session_id'', JStr ''0123456789abcdef0123456789abcdef''),
      (''stream_id'', JStr ''fedcba9876543210fedcba9876543210''), (''protocol_version'', JInt 2),
      (''batch_seq'', JInt 0), (''source_byte_start'', JInt 0), (''source_byte_end'', JInt 10),
      (''source_line_start'', JInt 0), (''source_line_end'', JInt 1), (''event_start'', JInt 0),
      (''event_end'', JInt 1), (''events'', JList [JObj [(''line_no'', JInt 0)]]),
      (''prefix_sha256'', JStr (replicate 64 (CHR ''a'')))]"

definition example_settings :: settings where
  "example_settings =
     \<lparr>session_fragment_versions = ''1, 2'', session_protocol3_all = False, session_protocol3_customers = '''',
      session_protocol2_new_streams = True, session_protocol3_events = True, session_media_all = False,
      session_media_customers = ''''\<rparr>"

definition example_env :: door_env where
  "example_env = \<lparr>de_digest = (\<lambda>_. ''digest''), de_redact = id, de_dumps = (\<lambda>_. ''{}'')\<rparr>"

definition empty_stream_db :: stream_db where
  "empty_stream_db =
     \<lparr>customers = [(''acme'', ''active'')], integration_tokens = [], github_source_gates = [],
      q_rows = [], q_next = 1, session_deletions = Some [], objects = [], legal_hold_meta = [],
      session_streams = [], session_batch_receipts = [], documents = [], session_media = None\<rparr>"

abbreviation example_accept :: "stream_db \<times> (door_error + door_answer)" where
  "example_accept \<equiv> accept example_settings example_env [] id example_batch ''acme'' PI 5 empty_stream_db"

lemma example_valid: "validate_payload example_settings False example_batch = Inr ()"
  by code_simp

lemma example_accepted: "case snd example_accept of Inr ans \<Rightarrow> an_status ans = Accepted | Inl _ \<Rightarrow> False"
  by code_simp

lemma empty_stream_wf [simp]: "stream_wf empty_stream_db"
  by (simp add: stream_wf_def empty_stream_db_def receipts_of_def)

theorem accept_keeps_receipts_gapless_witness:
  "stream_wf empty_stream_db \<and> stream_wf (fst example_accept)"
  using accept_keeps_receipts_gapless [of empty_stream_db id] by simp

subsection \<open>Resends, durability, deletion, the fence\<close>

lemma accepted_stored:
  assumes "accept cfg env reg id p c s now db = (db', Inr ans)" and "an_status ans = Accepted"
  obtains new where "validate_payload cfg False p = Inr ()"
    "settle cfg p c s (de_digest env (canonical_payload p)) (payload_protocol p) db = Inr (None, new)"
    "store_batch env reg p c s (de_digest env (canonical_payload p)) (payload_protocol p) new now db = (db', Inr ans)"
proof -
  from assms(1) show thesis
  proof (cases rule: accept_cases)
    case (stored new)
    then show thesis by (intro that) simp_all
  qed (use assms(2) in blast)+
qed

lemma stored_stream:
  assumes "settle cfg p c s digest protocol db = Inr (None, new)"
    and "store_batch env reg p c s digest protocol new now db = (db', Inr ans)"
  shows "\<exists>st. row_of stream_key (session_of p c s) (session_streams db') = Some st
      \<and> st_stream_id st = gstr p ''stream_id'' \<and> st_protocol st = protocol"
proof (cases "row_of stream_key (session_of p c s) (session_streams db)")
  case None
  then show ?thesis using settle_store(3) [OF assms(1)]
    by (simp add: store_batch_rows(2) [OF assms(2)] row_of_sql_update row_of_append)
      (simp add: session_of_def new_stream_def advance_stream_def)
next
  case (Some st)
  then have "stream_key st = session_of p c s" by (auto simp: row_of_def find_Some_iff)
  then show ?thesis using Some settle_store(3) [OF assms(1)] settle_store(5) [OF assms(1) Some]
    by (simp add: store_batch_rows(2) [OF assms(2)] row_of_sql_update row_of_append)
      (simp add: advance_stream_def)
qed

text \<open>
  Claim C24. A resend is harmless: once a batch of an agent session is accepted, sending the same batch
  again changes nothing and is answered with the very receipt of the first time.
\<close>

theorem resend_is_duplicate:
  assumes "accept cfg env reg id p c s now db = (db', Inr ans)" and "an_status ans = Accepted"
    and "s \<in> set AGENT_SESSION_SOURCES"
  shows "accept cfg env reg id p c s now' db' = (db', Inr (ans\<lparr>an_status := Duplicate\<rparr>))"
proof -
  let ?d = "de_digest env (canonical_payload p)" and ?pr = "payload_protocol p"
  from accepted_stored [OF assms(1,2)] obtain new where n: "validate_payload cfg False p = Inr ()"
    "settle cfg p c s ?d ?pr db = Inr (None, new)"
    "store_batch env reg p c s ?d ?pr new now db = (db', Inr ans)" by blast
  note rows = store_batch_rows [OF n(3)]
  obtain st where st: "row_of stream_key (session_of p c s) (session_streams db') = Some st"
    "st_stream_id st = gstr p ''stream_id''" "st_protocol st = ?pr"
    using stored_stream [OF n(2,3)] by blast
  have rc: "row_of receipt_key (session_of p c s, gint p ''batch_seq'') (session_batch_receipts db')
      = Some \<lparr>rc_customer = c, rc_source = source_value s, rc_session = gstr p ''session_id'',
         rc_payload_key = batch_key c s (gstr p ''session_id'') (gint p ''batch_seq'') ?d,
         rc_view = receipt_for p ?d\<rparr>"
    using settle_store(2) [OF n(2)] by (simp add: rows(1) row_of_append) (simp add: receipt_key_def session_of_def)
  have live: "\<not> refuse_deleted db' c (source_value s) (gstr p ''session_id'')"
    using settle_store(1) [OF n(2)] rows(4) by (simp add: refuse_deleted_def deleted_sessions_def)
  have "settle cfg p c s ?d ?pr db' = Inr (Some (ans\<lparr>an_status := Duplicate\<rparr>), False)"
    using st rc live rows(3) by (simp add: settle_def session_of_def Let_def receipt_for_def)
  moreover have "is_source_connected db' c s" using agent_sources_ungated [OF assms(3)] .
  ultimately show ?thesis using n(1) by (simp add: accept_def Let_def)
qed

lemma example_agent: "PI \<in> set AGENT_SESSION_SOURCES"
  by (simp add: AGENT_SESSION_SOURCES_def)

lemma example_run:
  obtains ans where "example_accept = (fst example_accept, Inr ans)" "an_status ans = Accepted"
  using example_accepted by (cases "snd example_accept") (auto simp: prod_eq_iff)

theorem resend_is_duplicate_witness:
  "\<exists>ans. accept example_settings example_env [] id example_batch ''acme'' PI 9 (fst example_accept)
     = (fst example_accept, Inr ans) \<and> an_status ans = Duplicate"
proof -
  obtain ans where a: "example_accept = (fst example_accept, Inr ans)" "an_status ans = Accepted"
    by (rule example_run)
  from resend_is_duplicate [OF a example_agent, of 9] show ?thesis by auto
qed

lemma enqueue_agent_row:
  fixes d :: "'a queue_db_scheme"
  shows "\<exists>r. row_of q_key (c, source_value s, sid) (q_rows (enqueue_agent reg c s sid k now d)) = Some r
      \<and> last (q_keys r) = k \<and> (q_status r = PENDING \<or> q_status r = PROCESSING)"
proof (cases "row_of q_key (c, source_value s, sid) (q_rows d)")
  case None
  then have "(c, source_value s, sid) \<notin> q_key ` set (q_rows d)" by (simp add: row_of_None_iff)
  then have "row_of q_key (c, source_value s, sid) (q_rows (enqueue_agent reg c s sid k now d))
      = Some (new_queue_row (q_next d) c (source_value s) sid k (ingestion_priority_for reg (source_value s)) 1 now)"
    using None by (simp add: enqueue_agent_def add_row_def row_of_append)
  then show ?thesis by (simp add: new_queue_row_def)
next
  case (Some r)
  then have "q_key r = (c, source_value s, sid)" "(c, source_value s, sid) \<in> q_key ` set (q_rows d)"
    by (force dest: row_of_SomeD)+
  then show ?thesis using Some
    by (simp add: enqueue_agent_def update_rows_def row_of_sql_update extend_agent_def q_key_def)
qed

text \<open>
  Claim C25. Nothing is acknowledged that is not stored: after an accepted answer the batch's object is in
  the store, its key is the last of the session's queue row, which waits or is being worked, and its
  receipt names that key.
\<close>

theorem accepted_batch_is_durable:
  assumes "accept cfg env reg id p c s now db = (db', Inr ans)" and "an_status ans = Accepted"
    and "key = batch_key c s (gstr p ''session_id'') (gint p ''batch_seq'') (de_digest env (canonical_payload p))"
  shows "map_of (objects db') (c, key) = Some (de_dumps env (JObj [(''payload'', de_redact env p)]))
    \<and> (\<exists>r. row_of q_key (session_of p c s) (q_rows db') = Some r \<and> last (q_keys r) = key
         \<and> (q_status r = PENDING \<or> q_status r = PROCESSING))
    \<and> (\<exists>rc \<in> set (session_batch_receipts db'). rc_payload_key rc = key \<and> rc_view rc = an_receipt ans)"
proof -
  let ?d = "de_digest env (canonical_payload p)" and ?pr = "payload_protocol p"
  from accepted_stored [OF assms(1,2)] obtain new where n:
    "store_batch env reg p c s ?d ?pr new now db = (db', Inr ans)" by blast
  have "map_of (objects db') (c, key) = Some (de_dumps env (JObj [(''payload'', de_redact env p)]))"
    using n by (auto simp: store_batch_def Let_def assms(3) put_object_def split: sum.splits if_splits)
  moreover have "\<exists>r. row_of q_key (session_of p c s) (q_rows db') = Some r \<and> last (q_keys r) = key
         \<and> (q_status r = PENDING \<or> q_status r = PROCESSING)"
  proof -
    have "q_rows db' = q_rows (enqueue_agent reg c s (gstr p ''session_id'') key now db)"
      using n by (auto simp: store_batch_def Let_def assms(3) enqueue_agent_def add_row_def update_rows_def
          put_object_def split: sum.splits if_splits)
    then show ?thesis using enqueue_agent_row [of c s _ reg key now db] by (simp add: session_of_def)
  qed
  moreover note store_batch_rows(1,3) [OF n]
  ultimately show ?thesis by (simp add: assms(3))
qed

theorem accepted_batch_is_durable_witness:
  "\<exists>key r. map_of (objects (fst example_accept)) (''acme'', key) = Some ''{}''
     \<and> row_of q_key (session_of example_batch ''acme'' PI) (q_rows (fst example_accept)) = Some r
     \<and> last (q_keys r) = key"
proof -
  obtain ans where a: "example_accept = (fst example_accept, Inr ans)" "an_status ans = Accepted"
    by (rule example_run)
  from accepted_batch_is_durable [OF a refl] show ?thesis by (auto simp: example_env_def)
qed

text \<open>
  Claim C28. A deleted session is never written: if the deletion is on record when the door looks under
  the session lock, neither door writes any row or object, and no batch is accepted.
\<close>

theorem deleted_session_never_written:
  assumes "refuse_deleted (between db) c (source_value s) (gstr p ''session_id'')"
    and "accept cfg env reg between p c s now db = (db', res)"
    and "accept_legacy reg (gstr p ''session_id'') c s key body now (between db) = (db2, res2)"
  shows "(db' = db \<or> db' = between db) \<and> \<not> (\<exists>ans. res = Inr ans \<and> an_status ans = Accepted)
    \<and> db2 = between db \<and> res2 \<noteq> Inr True"
proof -
  have "db2 = between db \<and> res2 \<noteq> Inr True"
    using assms(1,3) by (auto simp: accept_legacy_def split: if_splits)
  moreover from assms(2) have "(db' = db \<or> db' = between db)
      \<and> \<not> (\<exists>ans. res = Inr ans \<and> an_status ans = Accepted)"
  proof (cases rule: accept_cases)
    case (stored new)
    then show ?thesis using settle_store(1) [OF stored(2)] assms(1) by simp
  qed blast+
  ultimately show ?thesis by blast
qed

definition deleted_db :: stream_db where
  "deleted_db = empty_stream_db\<lparr>session_deletions := Some
     [\<lparr>d_customer = ''acme'', d_source = ''pi'', d_session = gstr example_batch ''session_id'',
       d_deletion_id = ''x1'', d_reason = ''asked'', d_ticket = None, d_deep_scan = False,
       d_status = ''done'', d_requested_at = 0, d_attempted_at = None, d_deleted_at = None, d_pending_keys = [],
       d_error = None\<rparr>]\<rparr>"

theorem deleted_session_never_written_witness:
  "fst (accept example_settings example_env [] id example_batch ''acme'' PI 5 deleted_db) = deleted_db"
proof -
  have "refuse_deleted (id deleted_db) ''acme'' (source_value PI) (gstr example_batch ''session_id'')"
    by (simp add: refuse_deleted_def deleted_sessions_def deleted_db_def sorted_set_def)
  from deleted_session_never_written [where between = id and db = deleted_db and cfg = example_settings
      and env = example_env and reg = "[]" and now = 5, OF this prod.collapse [symmetric] prod.collapse [symmetric]]
  show ?thesis by simp
qed

lemma doors_exclude:
  shows "accept cfg env reg id p c s now db = (db', Inr ans) \<Longrightarrow> an_status ans = Accepted
      \<Longrightarrow> s \<in> set AGENT_SESSION_SOURCES \<Longrightarrow>
      \<exists>e. accept_legacy reg' (gstr p ''session_id'') c s key body now' db' = (db', Inl e)"
    and "accept_legacy reg (gstr p ''session_id'') c s key body now db = (db', Inr True) \<Longrightarrow>
      \<exists>e. accept cfg env reg' id p c s now' db' = (db', Inl e)"
proof -
  assume acc: "accept cfg env reg id p c s now db = (db', Inr ans)" "an_status ans = Accepted"
    and src: "s \<in> set AGENT_SESSION_SOURCES"
  from accepted_stored [OF acc] obtain new where
    n: "settle cfg p c s (de_digest env (canonical_payload p)) (payload_protocol p) db = Inr (None, new)"
    "store_batch env reg p c s (de_digest env (canonical_payload p)) (payload_protocol p) new now db = (db', Inr ans)"
    by blast
  from stored_stream [OF this] obtain st where
    "row_of stream_key (session_of p c s) (session_streams db') = Some st" by blast
  then have "reject_legacy_writer db' c (source_value s) (gstr p ''session_id'')"
    unfolding reject_legacy_writer_def session_of_def
    by (intro image_eqI [of _ stream_key st]) (auto dest: row_of_SomeD)
  then show "\<exists>e. accept_legacy reg' (gstr p ''session_id'') c s key body now' db' = (db', Inl e)"
    using agent_sources_ungated [OF src, of db' c] by (auto simp: accept_legacy_def)
next
  assume leg: "accept_legacy reg (gstr p ''session_id'') c s key body now db = (db', Inr True)"
  let ?K = "(c, source_value s, gstr p ''session_id'')"
  from leg have none: "?K \<notin> stream_key ` set (session_streams db')"
    and db': "db' = enqueue_agent reg c s (gstr p ''session_id'') key now (put_object c key body db)"
    by (auto simp: accept_legacy_def reject_legacy_writer_def split: if_splits)
  obtain r where "row_of q_key ?K (q_rows db') = Some r" unfolding db' using enqueue_agent_row by blast
  then have "?K \<in> q_key ` set (q_rows db')" by (intro image_eqI [of _ q_key r]) (auto dest: row_of_SomeD)
  then have "settle_new cfg p c s pr db' = Some ''legacy transcript requires reconciliation; no bytes replaced''"
    for pr by (simp add: settle_new_def legacy_exists_def)
  moreover have "row_of stream_key ?K (session_streams db') = None" using none by (simp add: row_of_None_iff)
  ultimately have "\<exists>e. settle cfg p c s d pr db' = Inl e" for d pr
    by (simp add: settle_def Let_def)
  then obtain e where "settle cfg p c s (de_digest env (canonical_payload p)) (payload_protocol p) db' = Inl e"
    by blast
  then show "\<exists>e. accept cfg env reg' id p c s now' db' = (db', Inl e)"
    by (cases "validate_payload cfg False p") (auto simp: accept_def Let_def)
qed

text \<open>
  One producer per session: once a stream has accepted a batch, the old (protocol 1) door refuses
  the session and writes nothing; and once the old door has taken a batch of a session, no stream
  can start on it.
\<close>

theorem producers_fenced:
  "(accept cfg env reg id p c s now db = (db', Inr ans) \<and> an_status ans = Accepted
      \<and> s \<in> set AGENT_SESSION_SOURCES \<longrightarrow>
      (\<exists>e. accept_legacy reg' (gstr p ''session_id'') c s key body now' db' = (db', Inl e)))
    \<and> (accept_legacy reg (gstr p ''session_id'') c s key body now db = (db', Inr True) \<longrightarrow>
      (\<exists>e. accept cfg env reg' id p c s now' db' = (db', Inl e)))"
  by (intro conjI impI; (elim conjE)?) (erule (2) doors_exclude(1), erule doors_exclude(2))

theorem producers_fenced_witness:
  "(\<exists>e. accept_legacy [] (gstr example_batch ''session_id'') ''acme'' PI ''k'' ''b'' 9 (fst example_accept)
       = (fst example_accept, Inl e))
   \<and> (\<exists>db' e. accept_legacy [] (gstr example_batch ''session_id'') ''acme'' PI ''k'' ''b'' 9 empty_stream_db
         = (db', Inr True)
       \<and> accept example_settings example_env [] id example_batch ''acme'' PI 9 db' = (db', Inl e))"
proof -
  obtain ans where a: "example_accept = (fst example_accept, Inr ans)" "an_status ans = Accepted"
    by (rule example_run)
  obtain db' where b: "accept_legacy [] (gstr example_batch ''session_id'') ''acme'' PI ''k'' ''b'' 9 empty_stream_db
      = (db', Inr True)"
    by (simp add: accept_legacy_def is_source_connected_def OAUTH_SOURCES_def refuse_deleted_def
        deleted_sessions_def empty_stream_db_def reject_legacy_writer_def)
  from producers_fenced [THEN conjunct1, THEN mp, OF conjI, OF a(1) conjI, OF a(2) example_agent]
    producers_fenced [THEN conjunct2, THEN mp, OF b] b
  show ?thesis by blast
qed

subsection \<open>Protocols and pages\<close>

lemma protocols_told:
  shows "ac_protocols (accepts cfg c) \<noteq> []"
    and "protocol \<in> {PROTOCOL_EVENTS, PROTOCOL_FRAGMENTS} \<Longrightarrow> gint p ''batch_seq'' = 0
      \<Longrightarrow> \<not> legacy_exists db c (source_value s) (gstr p ''session_id'') \<Longrightarrow>
      settle_new cfg p c s protocol db = None \<longleftrightarrow> protocol \<in> set (ac_protocols (accepts cfg c))"
  by (auto simp: accepts_def protocol2_retired_def settle_new_def PROTOCOL_EVENTS_def PROTOCOL_FRAGMENTS_def)

text \<open>
  The protocols a customer is told are the protocols a new session may start on, and there is
  always one: whatever the settings (both kill switches included), the list is not empty, and batch 0
  of a session with no history is refused for its protocol exactly when the list leaves it out.
\<close>

theorem advertised_protocols_exact:
  "ac_protocols (accepts cfg c) \<noteq> []
    \<and> (protocol \<in> {PROTOCOL_EVENTS, PROTOCOL_FRAGMENTS} \<and> gint p ''batch_seq'' = 0
        \<and> \<not> legacy_exists db c (source_value s) (gstr p ''session_id'') \<longrightarrow>
      (settle_new cfg p c s protocol db = None \<longleftrightarrow> protocol \<in> set (ac_protocols (accepts cfg c))))"
  by (intro conjI impI protocols_told(1); elim conjE) (erule (2) protocols_told(2))

theorem advertised_protocols_exact_witness:
  "ac_protocols (accepts example_settings ''acme'') \<noteq> []
   \<and> settle_new example_settings example_batch ''acme'' PI PROTOCOL_EVENTS empty_stream_db = None"
proof -
  have "gint example_batch ''batch_seq'' = 0" by (simp add: gint_def obj_get_def example_batch_def)
  moreover have "\<not> legacy_exists empty_stream_db ''acme'' (source_value PI) (gstr example_batch ''session_id'')"
    by (simp add: legacy_exists_def empty_stream_db_def)
  moreover have "PROTOCOL_EVENTS \<in> set (ac_protocols (accepts example_settings ''acme''))"
    by (simp add: accepts_def protocol2_retired_def example_settings_def)
  ultimately show ?thesis
    using advertised_protocols_exact [of example_settings "''acme''" PROTOCOL_EVENTS example_batch
        empty_stream_db PI] by simp
qed

end
