(* ===== verification/CompleterProperties.thy ===== *)
theory CompleterProperties
  imports Completer QueueProperties
begin

section \<open>Properties of the idle-session sweep\<close>

text \<open>
  What a run of the sweep may do to a row, that an ended session is not ended again, how often a
  partial pass is retried, the cost bound, the dry run; and that a session the sweep ends is counted
  by the backlog sample from its old start.
\<close>

subsection \<open>What a run does to a row\<close>

definition ended_or_same ::
  "nat \<Rightarrow> time \<Rightarrow> string set \<Rightarrow> 'a stream_db_scheme \<Rightarrow> queue_row \<Rightarrow> bool" where
  "ended_or_same m now tenants db0 r' \<longleftrightarrow>
     r' \<in> set (q_rows db0)
     \<or> (\<exists>r \<in> set (q_rows db0). \<exists>s \<in> set AGENT_SOURCES.
          eligible m now (last_key_sql (q_keys r)) r \<and> q_source r = source_value s
          \<and> q_customer r \<in> tenants \<and> deleted_sessions db0 (q_customer r) (source_value s) [q_event r] = {}
          \<and> r' = set_ended (cron_marker_key (source_value s) (q_customer r) (q_event r)) now r)"

definition sweep_inv :: "nat \<Rightarrow> time \<Rightarrow> string set \<Rightarrow> 'a stream_db_scheme \<Rightarrow> 'a stream_db_scheme \<Rightarrow> bool" where
  "sweep_inv m now tenants db0 db \<longleftrightarrow>
     session_deletions db = session_deletions db0 \<and> map q_id (q_rows db) = map q_id (q_rows db0)
     \<and> (\<forall>r' \<in> set (q_rows db). ended_or_same m now tenants db0 r')"

lemma ended_not_idle: "\<not> idle_since m now (set_ended key now r)"
  by (simp add: idle_since_def set_ended_def)

lemma put_object_queue [simp]:
  "session_deletions (put_object c k b db) = session_deletions db" "q_rows (put_object c k b db) = q_rows db"
  by (simp_all add: put_object_def)

lemma end_one_inv:
  assumes wf: "distinct (map q_id (q_rows db0))" and inv: "sweep_inv m now tenants db0 db"
    and s: "s \<in> set AGENT_SOURCES" and r: "q_customer r \<in> tenants"
    and mem: "\<exists>x \<in> set (q_rows db0). q_id x = q_id r \<and> q_customer x = q_customer r \<and> q_event x = q_event r"
  shows "sweep_inv m now tenants db0 (fst (end_one put_ok dumps s r m dry_run now db))"
proof -
  let ?key = "cron_marker_key (source_value s) (q_customer r) (q_event r)"
  let ?p = "endable s m now (q_id r)"
  have goal: "sweep_inv m now tenants db0 db'"
    if "deleted_sessions db (q_customer r) (source_value s) [q_event r] = {}"
      "session_deletions db' = session_deletions db" "q_rows db' = sql_update ?p (set_ended ?key now) (q_rows db)" for db'
  proof -
    note gone = that(1) and dels = that(2) and rows' = that(3)
    have "map q_id (q_rows db') = map q_id (q_rows db)"
      unfolding rows' by (rule map_sql_update) (simp add: set_ended_def)
    moreover have "ended_or_same m now tenants db0 r'" if r': "r' \<in> set (q_rows db')" for r'
    proof -
      from r' obtain x where x: "x \<in> set (q_rows db)" "r' = (if ?p x then set_ended ?key now x else x)"
        unfolding rows' by (rule sql_update_memE)
      show ?thesis
      proof (cases "?p x")
        case False
        then show ?thesis using x inv by (simp add: sweep_inv_def)
      next
        case True
        then have idle: "idle_since m now x" "q_id x = q_id r" by (simp_all add: endable_def eligible_def)
        have x0: "x \<in> set (q_rows db0)"
          using inv x(1) idle(1) by (auto simp: sweep_inv_def ended_or_same_def ended_not_idle)
        then have same: "q_customer x = q_customer r" "q_event x = q_event r"
          using mem idle(2) wf by (auto dest: distinct_key_eq)
        have "deleted_sessions db0 (q_customer r) (source_value s) [q_event r] = {}"
          using gone inv by (simp add: deleted_sessions_def sweep_inv_def)
        then show ?thesis using True x x0 s r same unfolding ended_or_same_def endable_def by auto
      qed
    qed
    ultimately show ?thesis using inv dels by (simp add: sweep_inv_def)
  qed
  show ?thesis
  proof (cases "deleted_sessions db (q_customer r) (source_value s) [q_event r] \<noteq> {}
      \<or> v2_client_already_ended db (q_id r) (q_customer r) (source_value s) (q_event r)
      \<or> dry_run \<or> \<not> put_ok (q_customer r) ?key")
    case True
    then show ?thesis using inv by (auto simp: end_one_def Let_def)
  next
    case False
    then show ?thesis
      by (intro goal) (simp_all add: end_one_def Let_def end_sql_def update_rows_def)
  qed
qed

text \<open>A row of a page is a row the run started from.\<close>

lemma page_row:
  assumes inv: "sweep_inv m now tenants db0 db" and r: "r \<in> set (find_rows s m n tenant after now db)"
  shows "q_customer r = tenant \<and> r \<in> set (q_rows db0)"
proof -
  from r have "r \<in> set (q_rows db)" "findable s m now tenant db r"
    unfolding find_rows_def by (auto dest: set_sql_select_subset)
  then have "r \<in> set (q_rows db)" "q_customer r = tenant" "idle_since m now r"
    by (simp_all add: findable_def eligible_def)
  then show ?thesis using inv by (auto simp: sweep_inv_def ended_or_same_def ended_not_idle)
qed

lemma end_rows_inv:
  assumes "distinct (map q_id (q_rows db0))" and "sweep_inv m now tenants db0 db" and "s \<in> set AGENT_SOURCES"
    and "\<And>r. r \<in> set rs \<Longrightarrow> q_customer r \<in> tenants \<and> r \<in> set (q_rows db0)"
  shows "sweep_inv m now tenants db0 (fst (end_rows put_ok dumps s m dry_run now rs (db, ct)))"
  using assms(2,4)
proof (induction rs arbitrary: db ct)
  case (Cons r rs)
  obtain db' out where e: "end_one put_ok dumps s r m dry_run now db = (db', out)"
    by (cases "end_one put_ok dumps s r m dry_run now db")
  have "sweep_inv m now tenants db0 (fst (end_one put_ok dumps s r m dry_run now db))"
    using Cons.prems by (intro end_one_inv assms) auto
  then show ?case using Cons.IH [of db' "count_outcome out ct"] Cons.prems by (simp add: e)
qed simp

lemma sweep_tenant_inv:
  assumes "distinct (map q_id (q_rows db0))" and "sweep_inv m now tenants db0 db" and "s \<in> set AGENT_SOURCES"
    and "tenant \<in> tenants"
  shows "sweep_inv m now tenants db0 (fst (sweep_tenant put_ok dumps s m limit dry_run now tenant after db ct))"
  using assms
proof (induction put_ok dumps s m limit dry_run now tenant after db ct rule: sweep_tenant.induct)
  case (1 put_ok dumps s m limit dry_run now tenant after db ct)
  let ?rows = "find_rows s m (limit - ct_ended_here ct) tenant after now db"
  obtain db' ct' where e: "end_rows put_ok dumps s m dry_run now ?rows
      (db, ct\<lparr>ct_candidates := ct_candidates ct + length ?rows\<rparr>) = (db', ct')"
    by (cases "end_rows put_ok dumps s m dry_run now ?rows (db, ct\<lparr>ct_candidates := ct_candidates ct + length ?rows\<rparr>)")
  have "sweep_inv m now tenants db0 (fst (end_rows put_ok dumps s m dry_run now ?rows
      (db, ct\<lparr>ct_candidates := ct_candidates ct + length ?rows\<rparr>)))"
    using page_row [OF "1.prems"(2)] "1.prems" by (intro end_rows_inv) auto
  then have db': "sweep_inv m now tenants db0 db'" by (simp add: e)
  show ?case
  proof (cases "?rows = []")
    case True
    then show ?thesis using "1.prems"(2) by (simp add: sweep_tenant.simps [of put_ok])
  next
    case False
    have "sweep_inv m now tenants db0
        (fst (sweep_tenant put_ok dumps s m limit dry_run now tenant (sweep_order (last ?rows)) db' ct'))"
      if "\<not> limit \<le> ct_ended_here ct'"
      using "1.IH" [OF refl False e [symmetric] refl that "1.prems"(1) db' "1.prems"(3,4)] .
    then show ?thesis using False db' by (simp add: sweep_tenant.simps [of put_ok] e Let_def)
  qed
qed

lemma sweep_sources_inv:
  assumes "distinct (map q_id (q_rows db0))" and "set ts \<subseteq> tenants" and "set ss \<subseteq> set AGENT_SOURCES"
    and "sweep_inv m now tenants db0 db"
  shows "sweep_inv m now tenants db0 (fst (sweep_sources put_ok dumps m limit dry_run now ts ss (db, ct)))"
proof -
  have tenants: "sweep_inv m now tenants db0 (fst (sweep_tenants put_ok dumps s m limit dry_run now us (db, ct)))"
    if "s \<in> set AGENT_SOURCES" "set us \<subseteq> tenants" "sweep_inv m now tenants db0 db" for s us db ct
    using that
  proof (induction us arbitrary: db ct)
    case (Cons u us)
    obtain db' ct' where e: "sweep_tenant put_ok dumps s m limit dry_run now u (0, 0) db ct = (db', ct')"
      by (cases "sweep_tenant put_ok dumps s m limit dry_run now u (0, 0) db ct")
    have "sweep_inv m now tenants db0 (fst (sweep_tenant put_ok dumps s m limit dry_run now u (0, 0) db ct))"
      using Cons.prems by (intro sweep_tenant_inv assms) auto
    then show ?case using Cons e by simp
  qed simp
  show ?thesis using assms(3,4)
  proof (induction ss arbitrary: db ct)
    case (Cons s ss)
    obtain db' ct' where e: "sweep_tenants put_ok dumps s m limit dry_run now ts (db, ct\<lparr>ct_ended_here := 0\<rparr>) = (db', ct')"
      by (cases "sweep_tenants put_ok dumps s m limit dry_run now ts (db, ct\<lparr>ct_ended_here := 0\<rparr>)")
    have "sweep_inv m now tenants db0 db'"
      using tenants [of s ts db "ct\<lparr>ct_ended_here := 0\<rparr>"] Cons.prems assms(2) by (simp add: e)
    then show ?case using Cons e by simp
  qed simp
qed


definition idle_row :: queue_row where
  "idle_row = (new_queue_row 1 ''acme'' ''pi'' ''s1'' ''k0'' 75 1 10)\<lparr>q_status := DONE\<rparr>"

definition idle_db :: stream_db where
  "idle_db =
     \<lparr>customers = [(''acme'', ''active'')], integration_tokens = [], github_source_gates = [],
      q_rows = [idle_row], q_next = 2, session_deletions = None, objects = [], legal_hold_meta = [],
      session_streams = [], session_batch_receipts = [], documents = [], session_media = None\<rparr>"

definition no_counts :: counters where
  "no_counts = \<lparr>ct_ended_here = 0, ct_enqueued = 0, ct_candidates = 0, ct_skipped = 0, ct_failed = 0,
     ct_capped = False\<rparr>"

lemma idle_db_wf: "queue_wf idle_db"
  by (simp add: queue_wf_def idle_db_def idle_row_def new_queue_row_def)

abbreviation idle_sweep :: "stream_db \<times> counters" where
  "idle_sweep \<equiv> sweep_sources (\<lambda>_ _. True) (\<lambda>_. ''{}'') 10 5 False 9000 (ACTIVE_TENANTS_SQL idle_db)
     AGENT_SOURCES (idle_db, no_counts)"

lemma idle_sweep_run:
  "q_rows (fst idle_sweep) = [set_ended ''raw/pi/acme/s1/finalize.marker'' 9000 idle_row]"
  by code_simp


subsection \<open>Ended once, retried a bounded number of times\<close>


lemma idle_end:
  "end_sql PI 10 (cron_marker_key ''pi'' ''acme'' ''s1'') 1 9000 idle_db
   = (idle_db\<lparr>q_rows := [set_ended ''raw/pi/acme/s1/finalize.marker'' 9000 idle_row]\<rparr>, True)"
proof -
  have key: "cron_marker_key ''pi'' ''acme'' ''s1'' = ''raw/pi/acme/s1/finalize.marker''" by code_simp
  have hit: "endable PI 10 9000 1 idle_row" by code_simp
  have "q_rows idle_db = [idle_row]" by (simp add: idle_db_def)
  then show ?thesis unfolding key using hit by (simp add: end_sql_def update_rows_def)
qed


text \<open>The row after the sweep queued it again and a pass ended partial once more.\<close>

definition retried_and_partial :: "extraction_outcome \<Rightarrow> time \<Rightarrow> queue_row \<Rightarrow> queue_row" where
  "retried_and_partial eo t r =
     set_done None t ((set_retried t r)\<lparr>q_outcome :=
       Some (eo\<lparr>eo_retries := Some (merged_retries eo (q_outcome (set_retried t r)))\<rparr>)\<rparr>)"

text \<open>
  A session that always ends partial is not re-mined for ever: however often the sweep queues it
  again and the pass fails the same way, the retry count grows by one each time, and the row stops being
  retryable after three retries (seven when extraction was switched off).
\<close>

theorem partial_passes_bounded:
  assumes "eo_authoritative eo = Some False" and "q_outcome r = Some eo0" and "eo_reason eo0 = eo_reason eo"
    and "0 \<le> retries_of eo0"
    and "retryable s m MAX_EXTRACTION_RETRIES now (fold (retried_and_partial eo) ts r)"
  shows "int (length ts) < (if eo_reason eo = Some ''disabled'' then 7 else 3)"
proof -
  have "\<exists>e. q_outcome (fold (retried_and_partial eo) ts r) = Some e \<and> eo_reason e = eo_reason eo
      \<and> retries_of e = retries_of eo0 + int (length ts)"
    using assms(2,3)
  proof (induction ts arbitrary: r eo0)
    case (Cons t ts)
    let ?e = "eo\<lparr>eo_retries := Some (merged_retries eo (q_outcome (set_retried t r)))\<rparr>"
    have "merged_retries eo (q_outcome (set_retried t r)) = retries_of eo0 + 1"
      using Cons.prems assms(1) by (auto simp: merged_retries_def set_retried_def split: option.splits)
    then have "q_outcome (retried_and_partial eo t r) = Some ?e" "retries_of ?e = retries_of eo0 + 1"
      by (simp_all add: retried_and_partial_def set_done_def retries_of_def)
    with Cons.IH [of "retried_and_partial eo t r" ?e] show ?case by auto
  qed simp
  with assms(4,5) show ?thesis
    by (auto simp: retryable_def retry_bound_def MAX_EXTRACTION_RETRIES_def MAX_DISABLED_RETRIES_def
        split: if_splits)
qed

definition partial_outcome :: extraction_outcome where
  "partial_outcome = \<lparr>eo_authoritative = Some False, eo_reason = Some ''segment_failed'', eo_keys = Some 1,
     eo_retries = None\<rparr>"

definition partial_row :: queue_row where
  "partial_row = idle_row\<lparr>q_outcome := Some partial_outcome\<rparr>"

theorem partial_passes_bounded_witness:
  "retryable PI 10 MAX_EXTRACTION_RETRIES 90000
      (fold (retried_and_partial partial_outcome) [100, 200] partial_row)
   \<and> int (length [100::time, 200]) < 3"
proof -
  have run: "retryable PI 10 MAX_EXTRACTION_RETRIES 90000
      (fold (retried_and_partial partial_outcome) [100, 200] partial_row)" by code_simp
  have "eo_authoritative partial_outcome = Some False" "q_outcome partial_row = Some partial_outcome"
    "0 \<le> retries_of partial_outcome" "eo_reason partial_outcome \<noteq> Some ''disabled''"
    by (simp_all add: partial_outcome_def partial_row_def retries_of_def)
  with partial_passes_bounded [OF this(1,2) refl this(3) run] run show ?thesis by simp
qed

subsection \<open>Cost bound and dry run\<close>

text \<open>\<open>ended n ct ct'\<close>: at most \<open>n\<close> sessions were ended between the two counts, and each was counted.\<close>

definition ended_within :: "nat \<Rightarrow> counters \<Rightarrow> counters \<Rightarrow> bool" where
  "ended_within n ct ct' \<longleftrightarrow>
     ct_ended_here ct \<le> ct_ended_here ct' \<and> ct_ended_here ct' \<le> ct_ended_here ct + n
     \<and> ct_enqueued ct' + ct_ended_here ct = ct_enqueued ct + ct_ended_here ct'"

lemma end_rows_count:
  "ended_within (length rs) ct (snd (end_rows put_ok dumps s m dry_run now rs (db, ct)))"
proof (induction rs arbitrary: db ct)
  case (Cons r rs)
  obtain db' out where e: "end_one put_ok dumps s r m dry_run now db = (db', out)"
    by (cases "end_one put_ok dumps s r m dry_run now db")
  have "ended_within 1 ct (count_outcome out ct)"
    by (auto simp: ended_within_def count_outcome_def split: option.splits bool.splits)
  with Cons [of "count_outcome out ct" db'] show ?case by (auto simp: e ended_within_def)
qed (simp add: ended_within_def)

lemma sweep_tenant_count:
  "ct_ended_here ct \<le> limit \<Longrightarrow> ended_within (limit - ct_ended_here ct) ct
     (snd (sweep_tenant put_ok dumps s m limit dry_run now tenant after db ct))"
proof (induction put_ok dumps s m limit dry_run now tenant after db ct rule: sweep_tenant.induct)
  case (1 put_ok dumps s m limit dry_run now tenant after db ct)
  let ?rows = "find_rows s m (limit - ct_ended_here ct) tenant after now db"
  let ?ct = "ct\<lparr>ct_candidates := ct_candidates ct + length ?rows\<rparr>"
  obtain db' ct' where e: "end_rows put_ok dumps s m dry_run now ?rows (db, ?ct) = (db', ct')"
    by (cases "end_rows put_ok dumps s m dry_run now ?rows (db, ?ct)")
  have "length ?rows \<le> limit - ct_ended_here ct" unfolding find_rows_def by (rule length_sql_select)
  moreover have "ended_within (length ?rows) ?ct ct'"
    using end_rows_count [of ?rows ?ct put_ok dumps s m dry_run now db] by (simp add: e)
  ultimately have page: "ended_within (limit - ct_ended_here ct) ct ct'" "ct_ended_here ct' \<le> limit"
    using "1.prems" by (auto simp: ended_within_def)
  show ?case
  proof (cases "?rows = []")
    case True
    then show ?thesis by (simp add: sweep_tenant.simps [of put_ok] ended_within_def)
  next
    case False
    have "ended_within (limit - ct_ended_here ct') ct'
        (snd (sweep_tenant put_ok dumps s m limit dry_run now tenant (sweep_order (last ?rows)) db' ct'))"
      if "\<not> limit \<le> ct_ended_here ct'"
      using "1.IH" [OF refl False e [symmetric] refl that page(2)] .
    then show ?thesis using False page
      by (auto simp: sweep_tenant.simps [of put_ok] e Let_def ended_within_def)
  qed
qed

lemma sweep_tenants_count:
  "ct_ended_here ct \<le> limit \<Longrightarrow> ended_within (limit - ct_ended_here ct) ct
     (snd (sweep_tenants put_ok dumps s m limit dry_run now ts (db, ct)))"
proof (induction ts arbitrary: db ct)
  case (Cons t ts)
  obtain db' ct' where e: "sweep_tenant put_ok dumps s m limit dry_run now t (0, 0) db ct = (db', ct')"
    by (cases "sweep_tenant put_ok dumps s m limit dry_run now t (0, 0) db ct")
  have "ended_within (limit - ct_ended_here ct) ct ct'"
    using sweep_tenant_count [OF Cons.prems, of put_ok dumps s m dry_run now t "(0, 0)" db] by (simp add: e)
  with Cons.IH [of ct' db'] Cons.prems show ?case by (auto simp: e ended_within_def)
qed (simp add: ended_within_def)

text \<open>
  The sweep's cost is bounded: a run ends at most \<^verbatim>\<open>limit\<close> sessions of each source, whatever rows
  fail or are skipped on the way.
\<close>

theorem sweep_cost_bounded:
  "ct_enqueued (snd (sweep_sources put_ok dumps m limit dry_run now ts ss (db, ct)))
   \<le> ct_enqueued ct + length ss * limit"
proof (induction ss arbitrary: db ct)
  case (Cons s ss)
  obtain db' ct' where e: "sweep_tenants put_ok dumps s m limit dry_run now ts (db, ct\<lparr>ct_ended_here := 0\<rparr>) = (db', ct')"
    by (cases "sweep_tenants put_ok dumps s m limit dry_run now ts (db, ct\<lparr>ct_ended_here := 0\<rparr>)")
  have "ended_within limit (ct\<lparr>ct_ended_here := 0\<rparr>) ct'"
    using sweep_tenants_count [of "ct\<lparr>ct_ended_here := 0\<rparr>" limit put_ok dumps s m dry_run now ts db] by (simp add: e)
  with Cons [of db' ct'] show ?case by (auto simp: e ended_within_def)
qed simp

lemma end_rows_dry: "fst (end_rows put_ok dumps s m True now rs (db, ct)) = db"
proof (induction rs arbitrary: ct)
  case (Cons r rs)
  have "fst (end_one put_ok dumps s r m True now db) = db" by (simp add: end_one_def Let_def)
  with Cons show ?case by (cases "end_one put_ok dumps s r m True now db") simp
qed simp

lemma sweep_tenant_dry: "dry_run \<Longrightarrow> fst (sweep_tenant put_ok dumps s m limit dry_run now tenant after db ct) = db"
proof (induction put_ok dumps s m limit dry_run now tenant after db ct rule: sweep_tenant.induct)
  case (1 put_ok dumps s m limit dry_run now tenant after db ct)
  let ?rows = "find_rows s m (limit - ct_ended_here ct) tenant after now db"
  let ?ct = "ct\<lparr>ct_candidates := ct_candidates ct + length ?rows\<rparr>"
  obtain ct' where e: "end_rows put_ok dumps s m dry_run now ?rows (db, ?ct) = (db, ct')"
    using end_rows_dry [of put_ok dumps s m now ?rows db ?ct] "1.prems"
    by (cases "end_rows put_ok dumps s m dry_run now ?rows (db, ?ct)") simp
  show ?case
  proof (cases "?rows = []")
    case False
    have "fst (sweep_tenant put_ok dumps s m limit dry_run now tenant (sweep_order (last ?rows)) db ct') = db"
      if "\<not> limit \<le> ct_ended_here ct'"
      using "1.IH" [OF refl False e [symmetric] refl that "1.prems"] .
    then show ?thesis using False by (auto simp: sweep_tenant.simps [of put_ok] e Let_def)
  qed (simp add: sweep_tenant.simps [of put_ok])
qed

lemma sweep_tenants_dry: "fst (sweep_tenants put_ok dumps s m limit True now ts (db, ct)) = db"
proof (induction ts arbitrary: ct)
  case (Cons t ts)
  have "fst (sweep_tenant put_ok dumps s m limit True now t (0, 0) db ct) = db" by (simp add: sweep_tenant_dry)
  with Cons show ?case by (cases "sweep_tenant put_ok dumps s m limit True now t (0, 0) db ct") simp
qed simp

lemma sweep_sources_dry: "fst (sweep_sources put_ok dumps m limit True now ts ss (db, ct)) = db"
proof (induction ss arbitrary: ct)
  case (Cons s ss)
  have "fst (sweep_tenants put_ok dumps s m limit True now ts (db, ct\<lparr>ct_ended_here := 0\<rparr>)) = db"
    by (rule sweep_tenants_dry)
  with Cons show ?case
    by (cases "sweep_tenants put_ok dumps s m limit True now ts (db, ct\<lparr>ct_ended_here := 0\<rparr>)") simp
qed simp

lemma retry_sources_dry: "fst (retry_sources m limit True now ss (db, n)) = db"
  by (induction ss arbitrary: n) (simp_all add: Let_def)

text \<open>A dry run writes nothing: no row, no marker object, in any table.\<close>

theorem dry_run_writes_nothing:
  "fst (enqueue_idle_session_finalizers put_ok dumps ext column m limit True now db) = db"
proof -
  obtain ct where e: "sweep_sources put_ok dumps m limit True now (ACTIVE_TENANTS_SQL db) AGENT_SOURCES
      (db, \<lparr>ct_ended_here = 0, ct_enqueued = 0, ct_candidates = 0, ct_skipped = 0, ct_failed = 0,
            ct_capped = False\<rparr>) = (db, ct)"
    using sweep_sources_dry by (metis prod.collapse)
  have "fst (retry_partial_passes ext column m limit True now db) = db"
    by (simp add: retry_partial_passes_def retry_sources_dry)
  then show ?thesis by (simp add: enqueue_idle_session_finalizers_def e split_beta)
qed

subsection \<open>The wait of an ended session\<close>

text \<open>
  The backlog age does not restart when the sweep returns a finished row to the queue: a session
  that finished long ago reads, the moment it is ended, as a backlog as old as its first batch (8990
  seconds here), where the same row extended by its client reads as new. The sample's documentation has
  the wait restart when a finished row is re-enqueued.
\<close>

theorem swept_session_reads_old:
  "qa_oldest_age_seconds (sample_once 9000 idle_db) = 0
   \<and> qa_oldest_age_seconds (sample_once 9000
        (fst (end_sql PI 10 (cron_marker_key ''pi'' ''acme'' ''s1'') 1 9000 idle_db))) = 8990
   \<and> qa_oldest_age_seconds (sample_once 9000 (enqueue_agent [] ''acme'' PI ''s1'' ''k1'' 9000 idle_db)) = 0"
proof -
  have "qa_oldest_age_seconds (sample_once 9000 idle_db) = 0" by code_simp
  moreover have "qa_oldest_age_seconds (sample_once 9000
        (fst (end_sql PI 10 (cron_marker_key ''pi'' ''acme'' ''s1'') 1 9000 idle_db))) = 8990" by code_simp
  moreover have "qa_oldest_age_seconds (sample_once 9000 (enqueue_agent [] ''acme'' PI ''s1'' ''k1'' 9000 idle_db)) = 0"
    by code_simp
  ultimately show ?thesis by simp
qed

end
