(* ===== verification/Polling.thy ===== *)
theory Polling
  imports Suppression Signals
begin

section \<open>Polling the sources\<close>

text \<open>
  \<^verbatim>\<open>kb/polling\<close>: the table \<^verbatim>\<open>ingestion_cursors\<close> and its statements (\<^verbatim>\<open>cursors.py\<close>), the registry of
  poller classes (\<^verbatim>\<open>base.py\<close>), the production sink (\<^verbatim>\<open>sink.py\<close>) and the tick of the scheduler
  (\<^verbatim>\<open>scheduler.py\<close>). A poller class is a name and its \<^verbatim>\<open>poll\<close> a parameter: it returns a
  \<open>poll_result\<close> or raises, and then \<open>Inl\<close> carries \<^verbatim>\<open><type>: <message>\<close>. JSON printing, the digest,
  the store's and the queue's failures are the fields of \<open>sink_env\<close>. A failure of the cursor
  statements themselves (a lost database connection) is not modelled.
\<close>

subsection \<open>Cursors\<close>

record cursor_rec =
  ic_customer :: string
  ic_source :: string
  ic_resource :: string
  ic_value :: "string option"
  ic_polled_at :: time
  ic_created_at :: time
  ic_error :: "string option"
  ic_error_at :: "time option"

record poll_db = sup_db +
  ingestion_cursors :: "cursor_rec table"

text \<open>The primary key.\<close>

definition ic_key :: "cursor_rec \<Rightarrow> string \<times> string \<times> string" where
  "ic_key r = (ic_customer r, ic_source r, ic_resource r)"

record cursor_row =
  cr_customer :: string
  cr_source :: source_system
  cr_resource :: string
  cr_value :: "string option"
  cr_polled_at :: time
  cr_created_at :: time
  cr_error :: "string option"
  cr_error_at :: "time option"

definition row_to_cursor :: "cursor_rec \<Rightarrow> exc + cursor_row" where
  "row_to_cursor r =
     (case source_of_value (ic_source r) of
        None \<Rightarrow> Inl (ValueError (ic_source r))
      | Some s \<Rightarrow>
          Inr \<lparr>cr_customer = ic_customer r, cr_source = s, cr_resource = ic_resource r,
               cr_value = ic_value r, cr_polled_at = ic_polled_at r, cr_created_at = ic_created_at r,
               cr_error = ic_error r, cr_error_at = ic_error_at r\<rparr>)"

text \<open>The list comprehension over the fetched rows: the first row that raises ends it.\<close>

fun rows_to_cursors :: "cursor_rec list \<Rightarrow> exc + cursor_row list" where
  "rows_to_cursors [] = Inr []"
| "rows_to_cursors (r # rs) =
     (case row_to_cursor r of
        Inl e \<Rightarrow> Inl e
      | Inr x \<Rightarrow> (case rows_to_cursors rs of Inl e \<Rightarrow> Inl e | Inr xs \<Rightarrow> Inr (x # xs)))"

definition due :: "int \<Rightarrow> time \<Rightarrow> 'a poll_db_scheme \<Rightarrow> cursor_rec \<Rightarrow> bool" where
  "due min_age now db r \<longleftrightarrow> ic_polled_at r < now - min_age \<and> active_tenant_sql db (ic_customer r)"

definition due_rows :: "int \<Rightarrow> nat \<Rightarrow> time \<Rightarrow> 'a poll_db_scheme \<Rightarrow> cursor_rec list" where
  "due_rows min_age limit now db = sql_select (due min_age now db) ic_polled_at limit (ingestion_cursors db)"

definition list_due_cursors :: "int \<Rightarrow> nat \<Rightarrow> time \<Rightarrow> 'a poll_db_scheme \<Rightarrow> exc + cursor_row list" where
  "list_due_cursors min_age limit now db = rows_to_cursors (due_rows min_age limit now db)"

definition load_cursor ::
  "string \<Rightarrow> source_system \<Rightarrow> string \<Rightarrow> 'a poll_db_scheme \<Rightarrow> exc + cursor_row option" where
  "load_cursor c s resource db =
     (case row_of ic_key (c, source_value s, resource) (ingestion_cursors db) of
        None \<Rightarrow> Inr None
      | Some r \<Rightarrow> (case row_to_cursor r of Inl e \<Rightarrow> Inl e | Inr x \<Rightarrow> Inr (Some x)))"

text \<open>\<^verbatim>\<open>INSERT ... ON CONFLICT (customer_id, source, resource_id) DO UPDATE\<close>\<close>

definition upsert_cursor :: "cursor_rec \<Rightarrow> (cursor_rec \<Rightarrow> cursor_rec) \<Rightarrow> cursor_rec table \<Rightarrow> cursor_rec table" where
  "upsert_cursor new f t =
     (if ic_key new \<in> ic_key ` set t then sql_update (\<lambda>r. ic_key r = ic_key new) f t else t @ [new])"

definition advance_cursor ::
  "string \<Rightarrow> source_system \<Rightarrow> string \<Rightarrow> string option \<Rightarrow> time \<Rightarrow> 'a poll_db_scheme \<Rightarrow> 'a poll_db_scheme" where
  "advance_cursor c s resource new_value now db =
     db\<lparr>ingestion_cursors := upsert_cursor
        \<lparr>ic_customer = c, ic_source = source_value s, ic_resource = resource, ic_value = new_value,
         ic_polled_at = now, ic_created_at = now, ic_error = None, ic_error_at = None\<rparr>
        (\<lambda>r. r\<lparr>ic_value := (case new_value of Some v \<Rightarrow> Some v | None \<Rightarrow> ic_value r),
               ic_polled_at := now, ic_error := None, ic_error_at := None\<rparr>)
        (ingestion_cursors db)\<rparr>"

definition stamp_error ::
  "string \<Rightarrow> source_system \<Rightarrow> string \<Rightarrow> string \<Rightarrow> time \<Rightarrow> 'a poll_db_scheme \<Rightarrow> 'a poll_db_scheme" where
  "stamp_error c s resource err now db =
     db\<lparr>ingestion_cursors := upsert_cursor
        \<lparr>ic_customer = c, ic_source = source_value s, ic_resource = resource, ic_value = None,
         ic_polled_at = now, ic_created_at = now, ic_error = Some (take 2048 err), ic_error_at = Some now\<rparr>
        (\<lambda>r. r\<lparr>ic_polled_at := now, ic_error := Some (take 2048 err), ic_error_at := Some now\<rparr>)
        (ingestion_cursors db)\<rparr>"

subsection \<open>Pollers\<close>

record poll_result =
  pr_documents :: "json list"
  pr_next_cursor :: "string option"
  pr_error :: "string option"

text \<open>\<^verbatim>\<open>_REGISTRY\<close>: source to poller class, a class given by its name. \<open>Inl\<close> is the RuntimeError.\<close>

type_synonym poller_registry = "(source_system \<times> string) list"

definition register_poller :: "source_system \<Rightarrow> string \<Rightarrow> poller_registry \<Rightarrow> string + poller_registry" where
  "register_poller s cls reg =
     (case map_of reg s of
        Some existing \<Rightarrow> if existing = cls then Inr reg else Inl (''already registered to '' @ existing)
      | None \<Rightarrow> Inr (dict_set s cls reg))"

definition get_poller :: "poller_registry \<Rightarrow> source_system \<Rightarrow> string option" where
  "get_poller reg s = map_of reg s"

definition registered_sources :: "poller_registry \<Rightarrow> source_system set" where
  "registered_sources reg = set (map fst reg)"

subsection \<open>The sink\<close>

record sink_env =
  se_bucket_error :: "string \<Rightarrow> string option"
  se_dumps :: "json \<Rightarrow> string option"
  se_canonical :: "json \<Rightarrow> string option"
  se_sha256 :: "string \<Rightarrow> string"
  se_put_ok :: "string \<Rightarrow> bool"
  se_enqueue_ok :: "string \<Rightarrow> bool"
  se_trace_id :: string
  se_day :: string
  se_now_iso :: string

definition resolve_source_event_id :: "sink_env \<Rightarrow> source_system \<Rightarrow> json \<Rightarrow> string option" where
  "resolve_source_event_id env s doc =
     (case obj_get doc ''source_event_id'' of
        Some (JStr (ch # cs)) \<Rightarrow> Some (ch # cs)
      | _ \<Rightarrow> (case se_canonical env doc of
           None \<Rightarrow> None
         | Some canonical \<Rightarrow> Some (source_value s @ '':poll:'' @ take 32 (se_sha256 env canonical))))"

fun first_string :: "json \<Rightarrow> string list \<Rightarrow> string option" where
  "first_string doc [] = None"
| "first_string doc (k # ks) =
     (case obj_get doc k of Some (JStr (ch # cs)) \<Rightarrow> Some (ch # cs) | _ \<Rightarrow> first_string doc ks)"

definition resolve_received_at :: "sink_env \<Rightarrow> json \<Rightarrow> string" where
  "resolve_received_at env doc =
     (case first_string doc [''received_at'', ''updated_at'', ''last_edited_time'', ''dateCreated'', ''ts''] of
        Some v \<Rightarrow> v
      | None \<Rightarrow> se_now_iso env)"

definition poll_envelope :: "sink_env \<Rightarrow> json \<Rightarrow> json" where
  "poll_envelope env doc =
     JObj [(''_headers'', JObj []), (''payload'', doc), (''received_at'', JStr (resolve_received_at env doc)),
           (''trace_id'', JStr (se_trace_id env))]"

text \<open>The loop of \<^verbatim>\<open>PollDocumentSink.__call__\<close>. \<open>Inr\<close> carries the number accepted; \<open>Inl\<close> is an exception
  that leaves the loop: only the JSON printing is outside the two \<^verbatim>\<open>try\<close> blocks.\<close>

fun sink_loop ::
  "sink_env \<Rightarrow> registry \<Rightarrow> string \<Rightarrow> source_system \<Rightarrow> time \<Rightarrow> json list \<Rightarrow> 'a poll_db_scheme \<Rightarrow> nat
   \<Rightarrow> 'a poll_db_scheme \<times> (string + nat)" where
  "sink_loop env reg c s now [] db accepted = (db, Inr accepted)"
| "sink_loop env reg c s now (doc # docs) db accepted =
     (case resolve_source_event_id env s doc of
        None \<Rightarrow> (db, Inl ''JSONEncodeError: '')
      | Some ev \<Rightarrow>
          (case se_dumps env (poll_envelope env doc) of
             None \<Rightarrow> (db, Inl ''JSONEncodeError: '')
           | Some body \<Rightarrow>
               (let key = payload_key (source_value s) c (se_day env) ev in
                if \<not> se_put_ok env key then sink_loop env reg c s now docs db accepted
                else let db1 = put_object c key body db in
                  if \<not> se_enqueue_ok env key then sink_loop env reg c s now docs db1 accepted
                  else let (db2, inserted) = enqueue reg c s ev key now db1
                       in sink_loop env reg c s now docs db2 (if inserted then accepted + 1 else accepted))))"

definition poll_document_sink ::
  "sink_env \<Rightarrow> registry \<Rightarrow> time \<Rightarrow> string \<Rightarrow> source_system \<Rightarrow> json list \<Rightarrow> 'a poll_db_scheme
   \<Rightarrow> 'a poll_db_scheme \<times> (string + nat)" where
  "poll_document_sink env reg now c s docs db =
     (if docs = [] then (db, Inr 0)
      else case se_bucket_error env c of
        Some e \<Rightarrow> (db, Inl e)
      | None \<Rightarrow> sink_loop env reg c s now docs db 0)"

definition default_sink ::
  "string \<Rightarrow> source_system \<Rightarrow> json list \<Rightarrow> 'a poll_db_scheme \<Rightarrow> 'a poll_db_scheme \<times> (string + nat)" where
  "default_sink c s docs db = (db, Inr 0)"

subsection \<open>The scheduler\<close>

record scheduler =
  sc_min_age :: int
  sc_batch_size :: nat

type_synonym 'd sink_fun = "string \<Rightarrow> source_system \<Rightarrow> json list \<Rightarrow> 'd \<Rightarrow> 'd \<times> (string + nat)"
type_synonym poll_fun = "string \<Rightarrow> string \<Rightarrow> string \<Rightarrow> string option \<Rightarrow> string + poll_result"

definition poll_one ::
  "poller_registry \<Rightarrow> poll_fun \<Rightarrow> 'a poll_db_scheme sink_fun \<Rightarrow> time \<Rightarrow> cursor_row
   \<Rightarrow> 'a poll_db_scheme \<Rightarrow> 'a poll_db_scheme" where
  "poll_one pollers poll sink now row db =
     (case get_poller pollers (cr_source row) of
        None \<Rightarrow> db
      | Some cls \<Rightarrow>
          (case poll cls (cr_customer row) (cr_resource row) (cr_value row) of
             Inl e \<Rightarrow> stamp_error (cr_customer row) (cr_source row) (cr_resource row) e now db
           | Inr result \<Rightarrow>
               (case pr_error result of
                  Some e \<Rightarrow> stamp_error (cr_customer row) (cr_source row) (cr_resource row) e now db
                | None \<Rightarrow>
                    if pr_documents result = []
                    then advance_cursor (cr_customer row) (cr_source row) (cr_resource row)
                           (pr_next_cursor result) now db
                    else (case sink (cr_customer row) (cr_source row) (pr_documents result) db of
                        (db1, Inl e) \<Rightarrow> stamp_error (cr_customer row) (cr_source row) (cr_resource row)
                                          (''sink error: '' @ e) now db1
                      | (db1, Inr _) \<Rightarrow> advance_cursor (cr_customer row) (cr_source row) (cr_resource row)
                                          (pr_next_cursor result) now db1))))"

text \<open>\<open>clk\<close> is the clock reading at the write of each row.\<close>

definition tick_once ::
  "scheduler \<Rightarrow> poller_registry \<Rightarrow> poll_fun \<Rightarrow> 'a poll_db_scheme sink_fun \<Rightarrow> time \<Rightarrow> (cursor_row \<Rightarrow> time)
   \<Rightarrow> 'a poll_db_scheme \<Rightarrow> 'a poll_db_scheme \<times> (exc + nat)" where
  "tick_once sc pollers poll sink now clk db =
     (case list_due_cursors (sc_min_age sc) (sc_batch_size sc) now db of
        Inl e \<Rightarrow> (db, Inl e)
      | Inr rows \<Rightarrow> (fold (\<lambda>row. poll_one pollers poll sink (clk row) row) rows db, Inr (length rows)))"

text \<open>The loop of \<^verbatim>\<open>run_forever\<close> up to a stop: one entry per tick; a tick that raises is logged and the
  loop goes on.\<close>

fun run_ticks ::
  "scheduler \<Rightarrow> poller_registry \<Rightarrow> poll_fun \<Rightarrow> 'a poll_db_scheme sink_fun \<Rightarrow> (time \<times> (cursor_row \<Rightarrow> time)) list
   \<Rightarrow> 'a poll_db_scheme \<Rightarrow> 'a poll_db_scheme" where
  "run_ticks sc pollers poll sink [] db = db"
| "run_ticks sc pollers poll sink ((now, clk) # ticks) db =
     run_ticks sc pollers poll sink ticks (fst (tick_once sc pollers poll sink now clk db))"

end
