(* ===== verification/PollingProperties.thy ===== *)
theory PollingProperties
  imports Polling
begin

section \<open>Properties of the polling scheduler\<close>

text \<open>
  The scheduler relies on its sink only to leave the cursor table and the tenants alone; the locale
  \<open>cursor_sink\<close> states that, the production sink and the default one are its interpretations. Inside
  it: what one poll does to the cursor table, and that ticks reach every due row. Then the two ways the
  scheduler stops making progress, and what happens to documents the store or the queue refuses.
\<close>

subsection \<open>The cursor table\<close>

lemma row_of_upsert_cursor:
  assumes "\<And>r. ic_key (f r) = ic_key r"
  shows "row_of ic_key k (upsert_cursor new f t) =
    (if k = ic_key new
     then Some (case row_of ic_key k t of Some r \<Rightarrow> f r | None \<Rightarrow> new)
     else row_of ic_key k t)"
proof (cases "ic_key new \<in> ic_key ` set t")
  case True
  then have "row_of ic_key (ic_key new) t \<noteq> None" by (simp add: row_of_None_iff)
  with True assms show ?thesis
    by (cases "row_of ic_key k t")
      (auto simp: upsert_cursor_def row_of_sql_update dest: row_of_SomeD split: option.splits)
next
  case False
  then have "row_of ic_key (ic_key new) t = None" by (simp add: row_of_None_iff)
  with False show ?thesis
    by (auto simp: upsert_cursor_def row_of_append split: option.splits)
qed

lemma ic_key_keeps [simp]:
  "ic_key (r\<lparr>ic_value := v\<rparr>) = ic_key r" "ic_key (r\<lparr>ic_polled_at := t\<rparr>) = ic_key r"
  "ic_key (r\<lparr>ic_error := e\<rparr>) = ic_key r" "ic_key (r\<lparr>ic_error_at := t'\<rparr>) = ic_key r"
  by (simp_all add: ic_key_def)

text \<open>What a finished poll writes on its row: an error and the time, or the new cursor and the time.\<close>

definition stamped :: "string \<Rightarrow> time \<Rightarrow> cursor_rec \<Rightarrow> cursor_rec" where
  "stamped e now r = r\<lparr>ic_polled_at := now, ic_error := Some (take 2048 e), ic_error_at := Some now\<rparr>"

definition advanced :: "string option \<Rightarrow> time \<Rightarrow> cursor_rec \<Rightarrow> cursor_rec" where
  "advanced v now r =
     r\<lparr>ic_value := (case v of Some x \<Rightarrow> Some x | None \<Rightarrow> ic_value r), ic_polled_at := now,
       ic_error := None, ic_error_at := None\<rparr>"

lemma ic_key_written [simp]: "ic_key (stamped e now r) = ic_key r" "ic_key (advanced v now r) = ic_key r"
  by (simp_all add: stamped_def advanced_def)

lemma written_parts [simp]:
  "ic_polled_at (stamped e now r) = now" "ic_polled_at (advanced v now r) = now"
  "ic_customer (stamped e now r) = ic_customer r" "ic_customer (advanced v now r) = ic_customer r"
  "ic_source (stamped e now r) = ic_source r" "ic_source (advanced v now r) = ic_source r"
  "ic_value (stamped e now r) = ic_value r"
  by (simp_all add: stamped_def advanced_def)

lemma write_existing:
  assumes "(c, source_value s, resource) \<in> ic_key ` set (ingestion_cursors db)"
  shows "stamp_error c s resource e now db = db\<lparr>ingestion_cursors :=
      sql_update (\<lambda>r. ic_key r = (c, source_value s, resource)) (stamped e now) (ingestion_cursors db)\<rparr>"
    and "advance_cursor c s resource v now db = db\<lparr>ingestion_cursors :=
      sql_update (\<lambda>r. ic_key r = (c, source_value s, resource)) (advanced v now) (ingestion_cursors db)\<rparr>"
  using assms
  by (simp_all add: stamp_error_def advance_cursor_def upsert_cursor_def ic_key_def stamped_def [abs_def]
      advanced_def [abs_def])

subsection \<open>What the scheduler asks of its sink\<close>

locale cursor_sink =
  fixes sink :: "'a poll_db_scheme sink_fun"
  assumes sink_cursors: "ingestion_cursors (fst (sink c s docs db)) = ingestion_cursors db"
    and sink_customers: "customers (fst (sink c s docs db)) = customers db"

text \<open>How a poll ends: not at all (no poller), with an error, or with the next cursor.\<close>

definition poll_outcome ::
  "poller_registry \<Rightarrow> poll_fun \<Rightarrow> 'a poll_db_scheme sink_fun \<Rightarrow> cursor_row \<Rightarrow> 'a poll_db_scheme
   \<Rightarrow> (string + string option) option" where
  "poll_outcome pollers poll sink row db =
     map_option (\<lambda>cls.
       case poll cls (cr_customer row) (cr_resource row) (cr_value row) of
         Inl e \<Rightarrow> Inl e
       | Inr res \<Rightarrow>
           (case pr_error res of
              Some e \<Rightarrow> Inl e
            | None \<Rightarrow>
                if pr_documents res = [] then Inr (pr_next_cursor res)
                else case snd (sink (cr_customer row) (cr_source row) (pr_documents res) db) of
                  Inl e \<Rightarrow> Inl (''sink error: '' @ e)
                | Inr _ \<Rightarrow> Inr (pr_next_cursor res)))
       (get_poller pollers (cr_source row))"

definition written :: "(string + string option) option \<Rightarrow> time \<Rightarrow> cursor_rec \<Rightarrow> cursor_rec" where
  "written out now r =
     (case out of None \<Rightarrow> r | Some (Inl e) \<Rightarrow> stamped e now r | Some (Inr v) \<Rightarrow> advanced v now r)"

lemma written_keeps [simp]:
  "ic_key (written out now r) = ic_key r" "ic_customer (written out now r) = ic_customer r"
  "ic_source (written out now r) = ic_source r"
  "out \<noteq> None \<Longrightarrow> ic_polled_at (written out now r) = now"
  by (auto simp: written_def split: option.splits sum.splits)

definition cr_key :: "cursor_row \<Rightarrow> string \<times> string \<times> string" where
  "cr_key row = (cr_customer row, source_value (cr_source row), cr_resource row)"

lemma cr_key_row_to_cursor: "row_to_cursor r = Inr row \<Longrightarrow> cr_key row = ic_key r"
  by (auto simp: row_to_cursor_def cr_key_def ic_key_def source_of_value_Some split: option.splits)

context cursor_sink
begin

lemma poll_one_cursors:
  assumes "cr_key row \<in> ic_key ` set (ingestion_cursors db)"
  shows "ingestion_cursors (poll_one pollers poll sink now row db)
      = sql_update (\<lambda>r. ic_key r = cr_key row) (written (poll_outcome pollers poll sink row db) now)
          (ingestion_cursors db)"
proof (cases "get_poller pollers (cr_source row)")
  case None
  moreover have "written None now = (\<lambda>r. r)" by (simp add: written_def fun_eq_iff)
  ultimately show ?thesis by (simp add: poll_one_def poll_outcome_def sql_update_def)
next
  case (Some cls)
  have wr: "written (Some (Inl e)) now = stamped e now" "written (Some (Inr v)) now = advanced v now" for e v
    by (simp_all add: written_def fun_eq_iff)
  have k: "(cr_customer row, source_value (cr_source row), cr_resource row) \<in> ic_key ` set (ingestion_cursors db)"
    using assms by (simp add: cr_key_def)
  obtain db1 out where s: "sink (cr_customer row) (cr_source row) docs db = (db1 docs, out docs)" for docs
    using that [of "\<lambda>docs. fst (sink (cr_customer row) (cr_source row) docs db)"
        "\<lambda>docs. snd (sink (cr_customer row) (cr_source row) docs db)"] by simp
  have db1: "ingestion_cursors (db1 docs) = ingestion_cursors db" for docs
    using sink_cursors [of "cr_customer row" "cr_source row" docs db] by (simp add: s)
  with k have k1: "(cr_customer row, source_value (cr_source row), cr_resource row)
      \<in> ic_key ` set (ingestion_cursors (db1 docs))" for docs by simp
  show ?thesis
    unfolding poll_one_def poll_outcome_def cr_key_def Some option.case option.map
    by (auto simp: write_existing [OF k] write_existing [OF k1] s db1 wr split: sum.splits option.splits)
qed

lemma poll_one_customers: "customers (poll_one pollers poll sink now row db) = customers db"
  using sink_customers
  by (auto simp: poll_one_def stamp_error_def advance_cursor_def split: option.splits sum.splits prod.splits)
    (metis fst_conv)+

end

subsection \<open>The two sinks\<close>

lemma enqueue_parts:
  "\<exists>rows n. fst (enqueue reg c s ev key now db) = db\<lparr>q_rows := rows, q_next := n\<rparr>"
proof -
  have "\<exists>rows n. db = db\<lparr>q_rows := rows, q_next := n\<rparr>" by (rule exI [of _ "q_rows db"], rule exI [of _ "q_next db"]) simp
  moreover have "\<exists>rows n. upsert_session c' src ev key prio now db = db\<lparr>q_rows := rows, q_next := n\<rparr>" for c' src prio
    by (auto simp: upsert_session_def update_rows_def add_row_def intro!: exI)
  moreover have "\<exists>rows n. fst (insert_do_nothing c' src ev key prio now db) = db\<lparr>q_rows := rows, q_next := n\<rparr>" for c' src prio
  proof (cases "(c', src, ev) \<in> q_key ` set (q_rows db)")
    case True
    then show ?thesis
      by (intro exI [of _ "q_rows db"] exI [of _ "q_next db + 1"]) (simp add: insert_do_nothing_def)
  next
    case False
    then show ?thesis by (auto simp: insert_do_nothing_def add_row_def intro!: exI)
  qed
  ultimately show ?thesis by (simp add: enqueue_def Let_def split_beta)
qed

lemma enqueue_keeps:
  "ingestion_cursors (fst (enqueue reg c s ev key now db)) = ingestion_cursors db"
  "customers (fst (enqueue reg c s ev key now db)) = customers db"
proof -
  obtain rows n where e: "fst (enqueue reg c s ev key now db) = db\<lparr>q_rows := rows, q_next := n\<rparr>"
    using enqueue_parts by blast
  show "ingestion_cursors (fst (enqueue reg c s ev key now db)) = ingestion_cursors db"
    "customers (fst (enqueue reg c s ev key now db)) = customers db"
    by (simp_all add: e)
qed

lemma put_object_keeps:
  "ingestion_cursors (put_object c key body db) = ingestion_cursors db"
  "customers (put_object c key body db) = customers db"
  "q_rows (put_object c key body db) = q_rows db"
  by (simp_all add: put_object_def)

lemma sink_loop_keeps:
  "ingestion_cursors (fst (sink_loop env reg c s now docs db n)) = ingestion_cursors db
   \<and> customers (fst (sink_loop env reg c s now docs db n)) = customers db"
proof (induction docs arbitrary: db n)
  case (Cons doc docs)
  then show ?case
    by (simp add: Let_def split_beta enqueue_keeps put_object_keeps split: option.splits)
qed simp

interpretation document_sink: cursor_sink "poll_document_sink env reg now"
  for env reg now
  by unfold_locales (simp_all add: poll_document_sink_def sink_loop_keeps split: option.splits)

interpretation no_op_sink: cursor_sink default_sink
  by unfold_locales (simp_all add: default_sink_def)

subsection \<open>The order of the due rows\<close>

lemma insort_key_append:
  "(\<And>y. y \<in> set B \<Longrightarrow> k x < k y) \<Longrightarrow> insort_key k x (A @ B) = insort_key k x A @ B"
  "(\<And>a. a \<in> set A \<Longrightarrow> k a < k x) \<Longrightarrow> insort_key k x (A @ B) = A @ insort_key k x B"
proof -
  show "(\<And>y. y \<in> set B \<Longrightarrow> k x < k y) \<Longrightarrow> insort_key k x (A @ B) = insort_key k x A @ B"
  proof (induction A)
    case Nil
    then show ?case by (cases B) (auto simp: less_imp_le)
  qed auto
  show "(\<And>a. a \<in> set A \<Longrightarrow> k a < k x) \<Longrightarrow> insort_key k x (A @ B) = A @ insort_key k x B"
  proof (induction A)
    case (Cons a A)
    then have "\<not> k x \<le> k a" by (simp add: not_le)
    with Cons show ?case by simp
  qed simp
qed

lemma sort_key_filter_split:
  assumes "\<And>x. p0 x \<Longrightarrow> p1 x" and "\<And>x y. p0 x \<Longrightarrow> p1 y \<Longrightarrow> \<not> p0 y \<Longrightarrow> k x < k y"
  shows "sort_key k (filter p1 t) = sort_key k (filter p0 t) @ sort_key k (filter (\<lambda>x. p1 x \<and> \<not> p0 x) t)"
proof (induction t)
  case (Cons x t)
  let ?A = "sort_key k (filter p0 t)" and ?B = "sort_key k (filter (\<lambda>x. p1 x \<and> \<not> p0 x) t)"
  consider "p0 x" | "p1 x" "\<not> p0 x" | "\<not> p1 x" by blast
  then show ?case
  proof cases
    case 1
    have "insort_key k x (?A @ ?B) = insort_key k x ?A @ ?B"
      by (rule insort_key_append(1)) (use 1 assms(2) in auto)
    with 1 Cons.IH assms(1) show ?thesis by simp
  next
    case 2
    have "insort_key k x (?A @ ?B) = ?A @ insort_key k x ?B"
      by (rule insort_key_append(2)) (use 2 assms(2) in auto)
    with 2 Cons.IH show ?thesis by simp
  next
    case 3
    then have "\<not> p0 x" using assms(1) by blast
    with 3 Cons.IH show ?thesis by simp
  qed
qed simp

text \<open>With the table unchanged, a later tick selects what the earlier one selected, and more only when
  the earlier selection was not full.\<close>

lemma due_rows_later:
  assumes "now \<le> now'"
  shows "\<exists>rest. due_rows age n now' db = due_rows age n now db @ rest
      \<and> (length (due_rows age n now db) = n \<longrightarrow> rest = [])"
proof -
  let ?A = "sort_key ic_polled_at (filter (due age now db) (ingestion_cursors db))"
  let ?B = "sort_key ic_polled_at (filter (\<lambda>x. due age now' db x \<and> \<not> due age now db x) (ingestion_cursors db))"
  have "sort_key ic_polled_at (filter (due age now' db) (ingestion_cursors db)) = ?A @ ?B"
    by (rule sort_key_filter_split) (use assms in \<open>auto simp: due_def\<close>)
  then have "due_rows age n now' db = take n ?A @ take (n - length ?A) ?B"
    by (simp add: due_rows_def sql_select_def)
  then show ?thesis by (auto simp: due_rows_def sql_select_def)
qed

lemma rows_to_cursors_append_Inl: "rows_to_cursors xs = Inl e \<Longrightarrow> rows_to_cursors (xs @ ys) = Inl e"
  by (induction xs) (auto split: sum.splits)

lemma length_rows_to_cursors: "rows_to_cursors rs = Inr rows \<Longrightarrow> length rows = length rs"
  by (induction rs arbitrary: rows) (auto split: sum.splits)

subsection \<open>When polling stops\<close>

text \<open>A tick that can do nothing: the selection raises, or it is full of rows no poller handles.\<close>

definition stalled :: "scheduler \<Rightarrow> poller_registry \<Rightarrow> time \<Rightarrow> 'a poll_db_scheme \<Rightarrow> bool" where
  "stalled sc pollers now db \<longleftrightarrow>
     (case list_due_cursors (sc_min_age sc) (sc_batch_size sc) now db of
        Inl _ \<Rightarrow> True
      | Inr rows \<Rightarrow> length rows = sc_batch_size sc
          \<and> list_all (\<lambda>row. get_poller pollers (cr_source row) = None) rows)"

lemma stalled_later:
  assumes "stalled sc pollers now db" and "now \<le> now'"
  shows "stalled sc pollers now' db"
proof -
  obtain rest where rest: "due_rows (sc_min_age sc) (sc_batch_size sc) now' db
      = due_rows (sc_min_age sc) (sc_batch_size sc) now db @ rest"
    and full: "length (due_rows (sc_min_age sc) (sc_batch_size sc) now db) = sc_batch_size sc \<Longrightarrow> rest = []"
    using due_rows_later [OF assms(2)] by blast
  show ?thesis
  proof (cases "list_due_cursors (sc_min_age sc) (sc_batch_size sc) now db")
    case (Inl e)
    then have "list_due_cursors (sc_min_age sc) (sc_batch_size sc) now' db = Inl e"
      by (simp add: list_due_cursors_def rest rows_to_cursors_append_Inl)
    then show ?thesis by (simp add: stalled_def)
  next
    case (Inr rows)
    with assms(1) have "length (due_rows (sc_min_age sc) (sc_batch_size sc) now db) = sc_batch_size sc"
      by (simp add: stalled_def list_due_cursors_def length_rows_to_cursors)
    with full rest assms(1) show ?thesis by (simp add: stalled_def list_due_cursors_def)
  qed
qed

lemma fold_no_poller:
  "list_all (\<lambda>row. get_poller pollers (cr_source row) = None) rows \<Longrightarrow>
   fold (\<lambda>row. poll_one pollers poll sink (clk row) row) rows db = db"
  by (induction rows) (auto simp: poll_one_def)

lemma stalled_tick: "stalled sc pollers now db \<Longrightarrow> fst (tick_once sc pollers poll sink now clk db) = db"
  by (auto simp: stalled_def tick_once_def fold_no_poller split: sum.splits)

text \<open>
  Polling can stop for good, for every tenant: one due cursor row whose source is no longer a
  member of \<^verbatim>\<open>SourceSystem\<close> makes the selection raise, and a full batch of due rows whose source has no
  poller is skipped without being stamped. In both cases every later tick selects the same rows again
  and changes nothing, however many rows of other tenants and sources are due.
\<close>

theorem stalled_polling_stays_stalled:
  assumes "stalled sc pollers now db" and "\<forall>t \<in> set ticks. now \<le> fst t"
  shows "run_ticks sc pollers poll sink ticks db = db"
  using assms(2)
proof (induction ticks)
  case (Cons t ticks)
  then have "fst (tick_once sc pollers poll sink (fst t) (snd t) db) = db"
    using stalled_tick [OF stalled_later [OF assms(1)]] by auto
  with Cons show ?case by (cases t) simp
qed simp

definition cursor_at :: "string \<Rightarrow> string \<Rightarrow> time \<Rightarrow> cursor_rec" where
  "cursor_at src resource t =
     \<lparr>ic_customer = ''acme'', ic_source = src, ic_resource = resource, ic_value = Some ''c0'',
      ic_polled_at = t, ic_created_at = 0, ic_error = None, ic_error_at = None\<rparr>"

definition cursor_db :: "cursor_rec list \<Rightarrow> poll_db" where
  "cursor_db rows =
     \<lparr>customers = [(''acme'', ACTIVE)], integration_tokens = [((''acme'', ''github''), ACTIVE)],
      github_source_gates = [], q_rows = [], q_next = 1, session_deletions = Some [], objects = [],
      legal_hold_meta = [], ingestion_cursors = rows\<rparr>"

definition one_row_scheduler :: scheduler where
  "one_row_scheduler = \<lparr>sc_min_age = 300, sc_batch_size = 2\<rparr>"

text \<open>A row of a source this build does not know, beside a due row of a live one.\<close>

theorem stalled_polling_stays_stalled_witness:
  "run_ticks one_row_scheduler [(GITHUB, ''GithubPoller'')] (\<lambda>_ _ _ _. Inl ''down'') default_sink
     [(1000, \<lambda>_. 1000), (2000, \<lambda>_. 2000)] (cursor_db [cursor_at ''github'' ''r1'' 20, cursor_at ''jira'' ''r2'' 10])
   = cursor_db [cursor_at ''github'' ''r1'' 20, cursor_at ''jira'' ''r2'' 10]"
proof (rule stalled_polling_stays_stalled)
  show "stalled one_row_scheduler [(GITHUB, ''GithubPoller'')] 1000
      (cursor_db [cursor_at ''github'' ''r1'' 20, cursor_at ''jira'' ''r2'' 10])"
    by code_simp
qed simp


subsection \<open>One poll\<close>

text \<open>
  A cursor moves only past what a poll has handed over: after one poll of a row the table differs
  in that row at most. With no poller for the source the row is as it was; when the poll raises, reports an
  error, or its sink raises, the cursor stays and the (truncated) error and the time are stamped; otherwise
  the error is cleared and the cursor is the new one, or the old one when the poll returns none.
\<close>

theorem poll_one_decision:
  assumes "distinct (map ic_key (ingestion_cursors db))" and "r \<in> set (ingestion_cursors db)"
    and "row_to_cursor r = Inr row"
  shows "row_of ic_key k (ingestion_cursors (poll_one pollers poll (poll_document_sink env reg t) now row db))
    = (if k = ic_key r
       then Some (case poll_outcome pollers poll (poll_document_sink env reg t) row db of
           None \<Rightarrow> r
         | Some (Inl e) \<Rightarrow> r\<lparr>ic_polled_at := now, ic_error := Some (take 2048 e), ic_error_at := Some now\<rparr>
         | Some (Inr v) \<Rightarrow> r\<lparr>ic_value := (case v of Some x \<Rightarrow> Some x | None \<Rightarrow> ic_value r), ic_polled_at := now,
                            ic_error := None, ic_error_at := None\<rparr>)
       else row_of ic_key k (ingestion_cursors db))"
proof -
  have key: "cr_key row = ic_key r" using assms(3) by (rule cr_key_row_to_cursor)
  with assms(2) have mem: "cr_key row \<in> ic_key ` set (ingestion_cursors db)" by auto
  have r: "row_of ic_key (ic_key r) (ingestion_cursors db) = Some r"
    using assms(1,2) by (simp add: row_of_Some_iff)
  let ?out = "poll_outcome pollers poll (poll_document_sink env reg t) row db"
  have w: "written ?out now r = (case ?out of
           None \<Rightarrow> r
         | Some (Inl e) \<Rightarrow> r\<lparr>ic_polled_at := now, ic_error := Some (take 2048 e), ic_error_at := Some now\<rparr>
         | Some (Inr v) \<Rightarrow> r\<lparr>ic_value := (case v of Some x \<Rightarrow> Some x | None \<Rightarrow> ic_value r), ic_polled_at := now,
                            ic_error := None, ic_error_at := None\<rparr>)"
    by (simp only: written_def stamped_def advanced_def)
  have t: "row_of ic_key k (ingestion_cursors (poll_one pollers poll (poll_document_sink env reg t) now row db))
      = map_option (\<lambda>x. if ic_key x = ic_key r then written ?out now x else x) (row_of ic_key k (ingestion_cursors db))"
    unfolding document_sink.poll_one_cursors [OF mem] key by (rule row_of_sql_update) simp
  show ?thesis unfolding w [symmetric] t
    using r by (cases "row_of ic_key k (ingestion_cursors db)") (auto dest: row_of_SomeD)
qed

definition plain_sink_env :: sink_env where
  "plain_sink_env = \<lparr>se_bucket_error = \<lambda>_. None, se_dumps = \<lambda>_. Some ''{}'', se_canonical = \<lambda>_. Some ''{}'',
     se_sha256 = id, se_put_ok = \<lambda>_. True, se_enqueue_ok = \<lambda>_. True, se_trace_id = ''poll-1'',
     se_day = ''2026/10/01'', se_now_iso = ''2026-10-01T00:00:00+00:00''\<rparr>"

definition github_row :: cursor_row where
  "github_row = \<lparr>cr_customer = ''acme'', cr_source = GITHUB, cr_resource = ''r1'', cr_value = Some ''c0'',
     cr_polled_at = 20, cr_created_at = 0, cr_error = None, cr_error_at = None\<rparr>"

lemma github_row_read: "row_to_cursor (cursor_at ''github'' ''r1'' 20) = Inr github_row"
  by code_simp

theorem poll_one_decision_witness:
  "row_of ic_key (''acme'', ''github'', ''r1'') (ingestion_cursors (poll_one [(GITHUB, ''GithubPoller'')]
      (\<lambda>_ _ _ _. Inl ''HTTPError: 502'') (poll_document_sink plain_sink_env [] 5) 900 github_row
      (cursor_db [cursor_at ''github'' ''r1'' 20])))
   = Some ((cursor_at ''github'' ''r1'' 20)\<lparr>ic_polled_at := 900, ic_error := Some ''HTTPError: 502'',
       ic_error_at := Some 900\<rparr>)"
proof -
  have "ic_key (cursor_at ''github'' ''r1'' 20) = (''acme'', ''github'', ''r1'')"
    by (simp add: ic_key_def cursor_at_def)
  moreover have "poll_outcome [(GITHUB, ''GithubPoller'')] (\<lambda>_ _ _ _. Inl ''HTTPError: 502'')
      (poll_document_sink plain_sink_env [] 5) github_row (cursor_db [cursor_at ''github'' ''r1'' 20])
      = Some (Inl ''HTTPError: 502'')"
    by (simp add: poll_outcome_def get_poller_def github_row_def)
  ultimately show ?thesis
    using poll_one_decision [of "cursor_db [cursor_at ''github'' ''r1'' 20]" "cursor_at ''github'' ''r1'' 20"
        github_row "(''acme'', ''github'', ''r1'')" "[(GITHUB, ''GithubPoller'')]" "\<lambda>_ _ _ _. Inl ''HTTPError: 502''"
        plain_sink_env "[]" 5 900]
    by (simp add: github_row_read cursor_db_def)
qed


subsection \<open>Documents the store or the queue refuses\<close>

lemma sink_loop_refused:
  assumes "\<And>key. \<not> se_put_ok env key \<or> \<not> se_enqueue_ok env key"
    and "\<And>doc. se_canonical env doc \<noteq> None" and "\<And>doc. se_dumps env doc \<noteq> None"
  shows "snd (sink_loop env reg c s now docs db n) = Inr n
    \<and> q_rows (fst (sink_loop env reg c s now docs db n)) = q_rows db"
proof (induction docs arbitrary: db)
  case (Cons doc docs)
  have "resolve_source_event_id env s doc \<noteq> None"
    using assms(2) [of doc] by (auto simp: resolve_source_event_id_def split: option.splits json.splits list.splits)
  then obtain ev body where "resolve_source_event_id env s doc = Some ev"
    "se_dumps env (poll_envelope env doc) = Some body" using assms(3) by blast
  moreover obtain key where "key = payload_key (source_value s) c (se_day env) ev" by simp
  ultimately show ?case
    using Cons.IH assms(1) [of key] by (auto simp: Let_def put_object_keeps)
qed simp

text \<open>
  Documents can be lost without a trace in the cursor: the sink logs a failure of the object
  store or of the queue and goes on, so when every one of a poll's documents fails that way the queue is
  as it was, and still the cursor moves past them and the row's error is cleared.
\<close>

theorem refused_documents_are_skipped:
  assumes "distinct (map ic_key (ingestion_cursors db))" and "r \<in> set (ingestion_cursors db)"
    and "row_to_cursor r = Inr row" and "get_poller pollers (cr_source row) = Some cls"
    and "poll cls (cr_customer row) (cr_resource row) (cr_value row)
      = Inr \<lparr>pr_documents = docs, pr_next_cursor = Some v, pr_error = None\<rparr>"
    and "\<And>key. \<not> se_put_ok env key \<or> \<not> se_enqueue_ok env key"
    and "\<And>doc. se_canonical env doc \<noteq> None" and "\<And>doc. se_dumps env doc \<noteq> None"
    and "se_bucket_error env (cr_customer row) = None"
    and "db' = poll_one pollers poll (poll_document_sink env reg t) now row db"
  shows "q_rows db' = q_rows db
    \<and> row_of ic_key (ic_key r) (ingestion_cursors db')
      = Some (r\<lparr>ic_value := Some v, ic_polled_at := now, ic_error := None, ic_error_at := None\<rparr>)"
proof
  have out: "snd (poll_document_sink env reg t (cr_customer row) (cr_source row) docs d) = Inr 0"
    and rows: "q_rows (fst (poll_document_sink env reg t (cr_customer row) (cr_source row) docs d)) = q_rows d" for d
    by (simp_all add: poll_document_sink_def assms(9) sink_loop_refused [OF assms(6-8)])
  show "q_rows db' = q_rows db"
    using out [of db] rows [of db]
    by (auto simp: assms(10) poll_one_def assms(4,5) advance_cursor_def stamp_error_def split: prod.splits sum.splits)
  have mem: "cr_key row \<in> ic_key ` set (ingestion_cursors db)"
    using assms(2) cr_key_row_to_cursor [OF assms(3)] by auto
  have "poll_outcome pollers poll (poll_document_sink env reg t) row db = Some (Inr (Some v))"
    using out [of db] by (simp add: poll_outcome_def assms(4,5))
  moreover have "row_of ic_key (ic_key r) (ingestion_cursors db) = Some r"
    using assms(1,2) by (simp add: row_of_Some_iff)
  ultimately show "row_of ic_key (ic_key r) (ingestion_cursors db')
      = Some (r\<lparr>ic_value := Some v, ic_polled_at := now, ic_error := None, ic_error_at := None\<rparr>)"
    unfolding assms(10) document_sink.poll_one_cursors [OF mem] cr_key_row_to_cursor [OF assms(3)]
    by (simp add: row_of_sql_update written_def advanced_def)
qed

theorem refused_documents_are_skipped_witness:
  "row_of ic_key (''acme'', ''github'', ''r1'') (ingestion_cursors (poll_one [(GITHUB, ''GithubPoller'')]
      (\<lambda>_ _ _ _. Inr \<lparr>pr_documents = [JObj [(''source_event_id'', JStr ''e1'')]], pr_next_cursor = Some ''c1'',
                       pr_error = None\<rparr>)
      (poll_document_sink (plain_sink_env\<lparr>se_put_ok := \<lambda>_. False\<rparr>) [] 5) 900 github_row
      (cursor_db [cursor_at ''github'' ''r1'' 20])))
   = Some ((cursor_at ''github'' ''r1'' 20)\<lparr>ic_value := Some ''c1'', ic_polled_at := 900, ic_error := None,
       ic_error_at := None\<rparr>)"
proof -
  have "ic_key (cursor_at ''github'' ''r1'' 20) = (''acme'', ''github'', ''r1'')"
    by (simp add: ic_key_def cursor_at_def)
  with refused_documents_are_skipped [OF _ _ github_row_read, of "cursor_db [cursor_at ''github'' ''r1'' 20]"
      "[(GITHUB, ''GithubPoller'')]" "''GithubPoller''"
      "\<lambda>_ _ _ _. Inr \<lparr>pr_documents = [JObj [(''source_event_id'', JStr ''e1'')]], pr_next_cursor = Some ''c1'',
                       pr_error = None\<rparr>" "[JObj [(''source_event_id'', JStr ''e1'')]]" "''c1''"
      "plain_sink_env\<lparr>se_put_ok := \<lambda>_. False\<rparr>" _ "[]" 5 900]
  show ?thesis by (simp add: get_poller_def cursor_db_def plain_sink_env_def github_row_def)
qed

subsection \<open>Progress\<close>

text \<open>Every active row can be polled: its source is known and has a poller.\<close>

definition pollable :: "poller_registry \<Rightarrow> 'a poll_db_scheme \<Rightarrow> bool" where
  "pollable pollers db \<longleftrightarrow>
     (\<forall>r \<in> set (ingestion_cursors db). active_tenant_sql db (ic_customer r) \<longrightarrow>
        (\<exists>s. source_of_value (ic_source r) = Some s \<and> get_poller pollers s \<noteq> None))"

definition waiting :: "time \<Rightarrow> 'a poll_db_scheme \<Rightarrow> cursor_rec list" where
  "waiting T db = filter (\<lambda>r. active_tenant_sql db (ic_customer r) \<and> ic_polled_at r < T) (ingestion_cursors db)"

lemma rows_to_cursors_pollable:
  assumes "\<And>r. r \<in> set rs \<Longrightarrow> \<exists>s. source_of_value (ic_source r) = Some s \<and> get_poller pollers s \<noteq> None"
  shows "\<exists>rows. rows_to_cursors rs = Inr rows \<and> map cr_key rows = map ic_key rs
      \<and> list_all (\<lambda>row. get_poller pollers (cr_source row) \<noteq> None) rows"
  using assms
proof (induction rs)
  case (Cons r rs)
  obtain s where s: "source_of_value (ic_source r) = Some s" "get_poller pollers s \<noteq> None"
    using Cons.prems [of r] by auto
  then obtain row where row: "row_to_cursor r = Inr row" "cr_source row = s"
    by (simp add: row_to_cursor_def)
  from Cons obtain rows where "rows_to_cursors rs = Inr rows" "map cr_key rows = map ic_key rs"
    "list_all (\<lambda>row. get_poller pollers (cr_source row) \<noteq> None) rows" by auto
  with row s cr_key_row_to_cursor [OF row(1)] show ?case by simp
qed simp



text \<open>A tick rewrites the table row by row: the rows it did not select stay, those it did are polled now.\<close>

context cursor_sink
begin

lemma polls_cursors:
  assumes "list_all (\<lambda>row. get_poller pollers (cr_source row) \<noteq> None) rows"
    and "cr_key ` set rows \<subseteq> ic_key ` set (ingestion_cursors db)" and "\<And>row. T \<le> clk row"
  shows "\<exists>g. ingestion_cursors (fold (\<lambda>row. poll_one pollers poll sink (clk row) row) rows db)
        = map g (ingestion_cursors db)
      \<and> (\<forall>r. ic_key (g r) = ic_key r \<and> (if ic_key r \<in> cr_key ` set rows then T \<le> ic_polled_at (g r) else g r = r))"
  using assms(1,2)
proof (induction rows arbitrary: db)
  case Nil
  show ?case by (intro exI [of _ "\<lambda>r. r"]) simp
next
  case (Cons row rows)
  let ?db1 = "poll_one pollers poll sink (clk row) row db"
  let ?w = "written (poll_outcome pollers poll sink row db) (clk row)"
  let ?g1 = "\<lambda>r. if ic_key r = cr_key row then ?w r else r"
  have out: "poll_outcome pollers poll sink row db \<noteq> None" using Cons.prems(1) by (simp add: poll_outcome_def)
  have db1: "ingestion_cursors ?db1 = map ?g1 (ingestion_cursors db)"
    using Cons.prems(2) by (simp add: poll_one_cursors sql_update_def)
  have keys1: "ic_key (?g1 r) = ic_key r" for r by simp
  have "map ic_key (ingestion_cursors ?db1) = map ic_key (ingestion_cursors db)"
    unfolding db1 map_map comp_def keys1 ..
  then have "ic_key ` set (ingestion_cursors ?db1) = ic_key ` set (ingestion_cursors db)"
    by (metis list.set_map)
  with Cons.prems Cons.IH [of ?db1] obtain g where
    g: "ingestion_cursors (fold (\<lambda>row. poll_one pollers poll sink (clk row) row) rows ?db1)
        = map g (ingestion_cursors ?db1)"
    "\<And>r. ic_key (g r) = ic_key r \<and> (if ic_key r \<in> cr_key ` set rows then T \<le> ic_polled_at (g r) else g r = r)"
    by auto
  have "T \<le> ic_polled_at (?w r)" for r using assms(3) out by simp
  then have "ic_key (g (?g1 r)) = ic_key r
      \<and> (if ic_key r \<in> cr_key ` set (row # rows) then T \<le> ic_polled_at (g (?g1 r)) else g (?g1 r) = r)" for r
    using g(2) [of r] g(2) [of "?w r"] by (auto split: if_splits)
  moreover have "ingestion_cursors (fold (\<lambda>row. poll_one pollers poll sink (clk row) row) (row # rows) db)
      = map (\<lambda>r. g (?g1 r)) (ingestion_cursors db)"
    by (simp add: g(1) db1)
  ultimately show ?case by (intro exI [of _ "\<lambda>r. g (?g1 r)"]) blast
qed

lemma polls_customers:
  "customers (fold (\<lambda>row. poll_one pollers poll sink (clk row) row) rows db) = customers db"
  by (induction rows arbitrary: db) (simp_all add: poll_one_customers)

end


lemma active_customers: "customers db = customers db' \<Longrightarrow> active_tenant_sql db = active_tenant_sql db'"
  by (simp add: active_tenant_sql_def fun_eq_iff)

text \<open>The rows still waiting after the oldest \<open>n\<close> due ones are taken.\<close>

lemma waiting_selected:
  assumes "distinct (map ic_key (ingestion_cursors db))" and "T + age \<le> now"
  shows "length (filter (\<lambda>r. ic_key r \<notin> ic_key ` set (due_rows age n now db)) (waiting T db))
    \<le> length (waiting T db) - n"
proof -
  let ?old = "\<lambda>r. active_tenant_sql db (ic_customer r) \<and> ic_polled_at r < T"
  let ?A = "sort_key ic_polled_at (waiting T db)"
  let ?left = "filter (\<lambda>r. ic_key r \<notin> ic_key ` set (due_rows age n now db)) (waiting T db)"
  have "sort_key ic_polled_at (filter (due age now db) (ingestion_cursors db)) = sort_key ic_polled_at
      (filter ?old (ingestion_cursors db)) @ sort_key ic_polled_at (filter (\<lambda>x. due age now db x \<and> \<not> ?old x) (ingestion_cursors db))"
    by (rule sort_key_filter_split) (use assms(2) in \<open>auto simp: due_def\<close>)
  then have taken: "set (take n ?A) \<subseteq> set (due_rows age n now db)"
    by (auto simp: due_rows_def sql_select_def waiting_def)
  have "distinct (ingestion_cursors db)" using assms(1) by (simp add: distinct_map)
  then have dis: "distinct ?left" "distinct ?A" by (simp_all add: waiting_def)
  have "set ?left \<subseteq> set (drop n ?A)"
  proof
    fix r assume r: "r \<in> set ?left"
    then have "r \<in> set ?A" by simp
    then have "r \<in> set (take n ?A) \<union> set (drop n ?A)" by (metis append_take_drop_id set_append)
    with r taken show "r \<in> set (drop n ?A)" by auto
  qed
  then have "card (set ?left) \<le> card (set (drop n ?A))" by (intro card_mono) auto
  then show ?thesis
    unfolding distinct_card [OF dis(1)] distinct_card [OF distinct_drop [OF dis(2)]] by simp
qed

context cursor_sink
begin

lemma tick_progress:
  assumes dist: "distinct (map ic_key (ingestion_cursors db))" and pol: "pollable pollers db"
    and now: "T + sc_min_age sc \<le> now" and clk: "\<forall>row. T \<le> clk row"
    and db': "db' = fst (tick_once sc pollers poll sink now clk db)"
  shows "distinct (map ic_key (ingestion_cursors db'))" and "pollable pollers db'"
    and "length (waiting T db') \<le> length (waiting T db) - sc_batch_size sc"
proof -
  let ?sel = "due_rows (sc_min_age sc) (sc_batch_size sc) now db"
  have sel: "r \<in> set (ingestion_cursors db) \<and> active_tenant_sql db (ic_customer r)" if "r \<in> set ?sel" for r
    using that by (auto simp: due_rows_def due_def dest: set_sql_select_subset)
  then obtain rows where rows: "rows_to_cursors ?sel = Inr rows" "map cr_key rows = map ic_key ?sel"
    "list_all (\<lambda>row. get_poller pollers (cr_source row) \<noteq> None) rows"
    using rows_to_cursors_pollable [of ?sel pollers] pol by (auto simp: pollable_def)
  then have K: "cr_key ` set rows = ic_key ` set ?sel" by (metis list.set_map)
  have fold: "db' = fold (\<lambda>row. poll_one pollers poll sink (clk row) row) rows db"
    by (simp add: db' tick_once_def list_due_cursors_def rows(1))
  have sub: "cr_key ` set rows \<subseteq> ic_key ` set (ingestion_cursors db)" using sel by (auto simp: K)
  obtain g where g: "ingestion_cursors db' = map g (ingestion_cursors db)"
    and gk: "\<And>r. ic_key (g r) = ic_key r"
    and gp: "\<And>r. if ic_key r \<in> ic_key ` set ?sel then T \<le> ic_polled_at (g r) else g r = r"
    using polls_cursors [OF rows(3) sub, of T clk poll] clk unfolding fold K by blast
  have act: "active_tenant_sql db' = active_tenant_sql db"
    by (rule active_customers) (simp add: fold polls_customers)
  have parts: "ic_customer (g r) = ic_customer r" "ic_source (g r) = ic_source r" for r
    using gk [of r] by (simp_all add: ic_key_def)
  have left: "ic_key r \<notin> ic_key ` set ?sel \<and> g r = r" if "ic_polled_at (g r) < T" for r
    using that gp [of r] by (simp split: if_splits)
  show "distinct (map ic_key (ingestion_cursors db'))" using dist by (simp add: g comp_def gk)
  show "pollable pollers db'" using pol by (auto simp: pollable_def g act parts)
  have "length (waiting T db') = length (filter (\<lambda>r. active_tenant_sql db (ic_customer r) \<and> ic_polled_at (g r) < T)
      (ingestion_cursors db))"
    by (simp add: waiting_def g act filter_map comp_def parts)
  also have "\<dots> = length (filter (\<lambda>r. ic_polled_at (g r) < T)
      (filter (\<lambda>r. ic_key r \<notin> ic_key ` set ?sel) (waiting T db)))"
    unfolding waiting_def filter_filter
    by (rule arg_cong [of _ _ length], rule filter_cong [OF refl]) (metis left)
  also have "\<dots> \<le> length (filter (\<lambda>r. ic_key r \<notin> ic_key ` set ?sel) (waiting T db))"
    by (rule length_filter_le)
  finally show "length (waiting T db') \<le> length (waiting T db) - sc_batch_size sc"
    using waiting_selected [OF dist now, of "sc_batch_size sc"] by linarith
qed

lemma run_progress:
  assumes "distinct (map ic_key (ingestion_cursors db))" and "pollable pollers db"
    and "\<And>now clk. (now, clk) \<in> set ticks \<Longrightarrow> T + sc_min_age sc \<le> now \<and> (\<forall>row. T \<le> clk row)"
  shows "length (waiting T (run_ticks sc pollers poll sink ticks db))
    \<le> length (waiting T db) - length ticks * sc_batch_size sc"
  using assms
proof (induction ticks arbitrary: db)
  case (Cons tick ticks)
  obtain now clk where t: "tick = (now, clk)" by fastforce
  have c: "T + sc_min_age sc \<le> now" "\<forall>row. T \<le> clk row" using Cons.prems(3) by (auto simp: t)
  note p = tick_progress [OF Cons.prems(1,2) c refl, of poll]
  have "length (waiting T (run_ticks sc pollers poll sink ticks (fst (tick_once sc pollers poll sink now clk db))))
      \<le> length (waiting T (fst (tick_once sc pollers poll sink now clk db))) - length ticks * sc_batch_size sc"
    by (rule Cons.IH [OF p(1,2)]) (use Cons.prems(3) in auto)
  with p(3) show ?case by (simp add: t)
qed simp

end

text \<open>
  Claim C33. No due row waits for ever behind others: when every source of an active tenant's rows has a
  poller, then after enough ticks (batch size times their number at least the number of rows last polled
  before \<open>T\<close>), all later than \<open>T\<close> by the minimal age, every row of an active tenant has been polled since
  \<open>T\<close>, whatever the polls and the sink do: raise, report errors, or return documents.
\<close>

theorem due_rows_all_polled:
  assumes "distinct (map ic_key (ingestion_cursors db))" and "pollable pollers db"
    and "\<And>now clk. (now, clk) \<in> set ticks \<Longrightarrow> T + sc_min_age sc \<le> now \<and> (\<forall>row. T \<le> clk row)"
    and "length (waiting T db) \<le> length ticks * sc_batch_size sc"
  shows "waiting T (run_ticks sc pollers poll (poll_document_sink env reg t) ticks db) = []"
proof -
  have "length (waiting T (run_ticks sc pollers poll (poll_document_sink env reg t) ticks db))
      \<le> length (waiting T db) - length ticks * sc_batch_size sc"
    by (rule document_sink.run_progress [OF assms(1-3)])
  with assms(4) show ?thesis by simp
qed

theorem due_rows_all_polled_witness:
  "waiting 500 (run_ticks \<lparr>sc_min_age = 300, sc_batch_size = 1\<rparr> [(GITHUB, ''GithubPoller'')] (\<lambda>_ _ _ _. Inl ''down'')
     (poll_document_sink plain_sink_env [] 5) [(1000, \<lambda>_. 1000), (2000, \<lambda>_. 2000)]
     (cursor_db [cursor_at ''github'' ''r1'' 20, cursor_at ''github'' ''r2'' 10])) = []"
proof (rule due_rows_all_polled)
  have "source_of_value ''github'' = Some GITHUB" by code_simp
  then show "pollable [(GITHUB, ''GithubPoller'')]
      (cursor_db [cursor_at ''github'' ''r1'' 20, cursor_at ''github'' ''r2'' 10])"
    by (simp add: pollable_def cursor_db_def cursor_at_def get_poller_def)
qed (auto simp: cursor_db_def cursor_at_def ic_key_def waiting_def)

end
