(* ===== verification/ByteLRU.thy ===== *)
theory ByteLRU
  imports Prelude
begin

section \<open>An LRU bounded by bytes\<close>

text \<open>
  \<^verbatim>\<open>engine/retrieval/byte_lru.py\<close>: \<^verbatim>\<open>ByteBudgetLRU\<close>. The OrderedDict is the list of its entries, the
  least recently used first. \<open>lru_evict\<close> is the \<^verbatim>\<open>while\<close> loop of \<^verbatim>\<open>put\<close>. The locale \<open>cache\<close> is
  what the clients of a cache rely on: a lookup returns what was put under that very key, a put of one
  key adds nothing to the others, a lookup changes no answer.
\<close>

record ('k, 'v) lru =
  lru_max_bytes :: int
  lru_max_entries :: int
  lru_entries :: "('k \<times> ('v \<times> int)) list"
  lru_total_bytes :: int
  lru_hits :: nat
  lru_misses :: nat

definition new_lru :: "int \<Rightarrow> int \<Rightarrow> ('k, 'v) lru" where
  "new_lru max_bytes max_entries =
     \<lparr>lru_max_bytes = max_bytes, lru_max_entries = max_entries, lru_entries = [], lru_total_bytes = 0,
      lru_hits = 0, lru_misses = 0\<rparr>"

definition lru_get :: "'k \<Rightarrow> ('k, 'v) lru \<Rightarrow> ('k, 'v) lru \<times> 'v option" where
  "lru_get k c =
     (case map_of (lru_entries c) k of
        None \<Rightarrow> (c\<lparr>lru_misses := lru_misses c + 1\<rparr>, None)
      | Some e \<Rightarrow>
          (c\<lparr>lru_entries := filter (\<lambda>x. fst x \<noteq> k) (lru_entries c) @ [(k, e)],
             lru_hits := lru_hits c + 1\<rparr>, Some (fst e)))"

definition lru_pop :: "'k \<Rightarrow> ('k, 'v) lru \<Rightarrow> ('k, 'v) lru" where
  "lru_pop k c =
     (case map_of (lru_entries c) k of
        None \<Rightarrow> c
      | Some old \<Rightarrow> c\<lparr>lru_entries := filter (\<lambda>x. fst x \<noteq> k) (lru_entries c),
                     lru_total_bytes := lru_total_bytes c - snd old\<rparr>)"

fun lru_evict :: "int \<Rightarrow> int \<Rightarrow> ('k \<times> ('v \<times> int)) list \<Rightarrow> int \<Rightarrow> ('k \<times> ('v \<times> int)) list \<times> int" where
  "lru_evict max_bytes max_entries [] tot = ([], tot)"
| "lru_evict max_bytes max_entries (x # xs) tot =
     (if tot > max_bytes \<or> int (length (x # xs)) > max_entries
      then lru_evict max_bytes max_entries xs (tot - snd (snd x))
      else (x # xs, tot))"

definition lru_put :: "'k \<Rightarrow> 'v \<Rightarrow> int \<Rightarrow> ('k, 'v) lru \<Rightarrow> ('k, 'v) lru \<times> bool" where
  "lru_put k v nbytes c =
     (let c1 = lru_pop k c in
      if nbytes > lru_max_bytes c1 then (c1, False)
      else let (es, tot) = lru_evict (lru_max_bytes c1) (lru_max_entries c1)
                               (lru_entries c1 @ [(k, (v, nbytes))]) (lru_total_bytes c1 + nbytes)
           in (c1\<lparr>lru_entries := es, lru_total_bytes := tot\<rparr>, True))"

definition lru_clear :: "('k, 'v) lru \<Rightarrow> ('k, 'v) lru" where
  "lru_clear c = c\<lparr>lru_entries := [], lru_total_bytes := 0\<rparr>"

definition lru_len :: "('k, 'v) lru \<Rightarrow> nat" where
  "lru_len c = length (lru_entries c)"

subsection \<open>The invariant\<close>

definition entry_bytes :: "('k \<times> ('v \<times> int)) list \<Rightarrow> int" where
  "entry_bytes es = (\<Sum>x \<leftarrow> es. snd (snd x))"

definition fits :: "int \<Rightarrow> int \<Rightarrow> ('k \<times> ('v \<times> int)) list \<Rightarrow> bool" where
  "fits max_bytes max_entries es \<longleftrightarrow> entry_bytes es \<le> max_bytes \<and> int (length es) \<le> max_entries"

definition lru_ok :: "('k, 'v) lru \<Rightarrow> bool" where
  "lru_ok c \<longleftrightarrow>
     0 \<le> lru_max_bytes c \<and> 1 \<le> lru_max_entries c \<and> distinct (map fst (lru_entries c))
     \<and> (\<forall>x \<in> set (lru_entries c). 0 \<le> snd (snd x))
     \<and> lru_total_bytes c = entry_bytes (lru_entries c)
     \<and> fits (lru_max_bytes c) (lru_max_entries c) (lru_entries c)"

lemma entry_bytes_simps [simp]:
  "entry_bytes [] = 0" "entry_bytes (x # es) = snd (snd x) + entry_bytes es"
  "entry_bytes (es @ fs) = entry_bytes es + entry_bytes fs"
  by (simp_all add: entry_bytes_def)

lemma entry_bytes_remove:
  assumes "distinct (map fst es)" and "map_of es k = Some e"
  shows "entry_bytes (filter (\<lambda>x. fst x \<noteq> k) es) = entry_bytes es - snd e"
  using assms
proof (induction es)
  case (Cons x es)
  show ?case
  proof (cases "fst x = k")
    case True
    with Cons.prems(1) have "\<And>y. y \<in> set es \<Longrightarrow> fst y \<noteq> k" by (auto simp: rev_image_eqI)
    then have "filter (\<lambda>x. fst x \<noteq> k) es = es" by simp
    with True Cons.prems(2) show ?thesis by (cases x) simp
  next
    case False
    with Cons show ?thesis by (cases x) simp
  qed
qed simp

lemma map_of_filter_key: "map_of (filter (\<lambda>x. fst x \<noteq> k) es) k' = (if k' = k then None else map_of es k')"
  by (induction es) auto

lemma new_lru_ok: "0 \<le> b \<Longrightarrow> 1 \<le> n \<Longrightarrow> lru_ok (new_lru b n)"
  by (simp add: lru_ok_def new_lru_def fits_def)

lemma entry_bytes_filter_le:
  "(\<forall>x \<in> set es. 0 \<le> snd (snd x)) \<Longrightarrow> entry_bytes (filter p es) \<le> entry_bytes es"
  by (induction es) auto

lemma lru_pop_ok:
  assumes "lru_ok c"
  shows "lru_ok (lru_pop k c)"
proof (cases "map_of (lru_entries c) k")
  case None
  with assms show ?thesis by (simp add: lru_pop_def)
next
  case (Some e)
  have "length (filter (\<lambda>x. fst x \<noteq> k) (lru_entries c)) \<le> length (lru_entries c)" by (rule length_filter_le)
  then have "int (length (filter (\<lambda>x. fst x \<noteq> k) (lru_entries c))) \<le> lru_max_entries c"
    using assms unfolding lru_ok_def fits_def by linarith
  with Some assms entry_bytes_filter_le [of "lru_entries c" "\<lambda>x. fst x \<noteq> k"] show ?thesis
    by (auto simp: lru_ok_def lru_pop_def fits_def entry_bytes_remove distinct_map_filter)
qed

text \<open>The loop drops entries from the old end, and no more than it must.\<close>

lemma lru_evict_spec:
  assumes "tot = entry_bytes es" and "0 \<le> b"  and "0 \<le> n"
  shows "\<exists>d \<le> length es. lru_evict b n es tot = (drop d es, entry_bytes (drop d es))
      \<and> fits b n (drop d es) \<and> (\<forall>d' < d. \<not> fits b n (drop d' es))"
  using assms(1)
proof (induction es arbitrary: tot)
  case Nil
  with assms show ?case by (simp add: fits_def)
next
  case (Cons x es)
  show ?case
  proof (cases "fits b n (x # es)")
    case True
    with Cons.prems show ?thesis by (intro exI [of _ 0]) (auto simp: fits_def)
  next
    case False
    then have "lru_evict b n (x # es) tot = lru_evict b n es (tot - snd (snd x))"
      using Cons.prems by (auto simp: fits_def)
    with Cons.IH [of "tot - snd (snd x)"] Cons.prems obtain d where d: "d \<le> length es"
      "lru_evict b n (x # es) tot = (drop d es, entry_bytes (drop d es))" "fits b n (drop d es)"
      "\<forall>d' < d. \<not> fits b n (drop d' es)" by auto
    have "\<not> fits b n (drop d' (x # es))" if "d' < Suc d" for d'
      using that d(4) False by (cases d') auto
    with d show ?thesis by (intro exI [of _ "Suc d"]) auto
  qed
qed

lemma lru_get_ok:
  assumes "lru_ok c"
  shows "lru_ok (fst (lru_get k c))"
proof (cases "map_of (lru_entries c) k")
  case (Some e)
  then have mem: "(k, e) \<in> set (lru_entries c)" by (rule map_of_SomeD)
  have len: "length (filter (\<lambda>x. fst x \<noteq> k) (lru_entries c)) < length (lru_entries c)"
    by (rule length_filter_less [OF mem]) simp
  from assms have d: "distinct (map fst (lru_entries c))" by (simp add: lru_ok_def)
  from mem assms have "0 \<le> snd e" by (fastforce simp: lru_ok_def)
  with Some len assms entry_bytes_remove [OF d Some] show ?thesis
    by (auto simp: lru_ok_def lru_get_def fits_def distinct_map_filter)
qed (use assms in \<open>simp add: lru_ok_def lru_get_def\<close>)

subsection \<open>Put\<close>

text \<open>The entries a put starts the eviction from.\<close>

definition with_entry :: "'k \<Rightarrow> 'v \<Rightarrow> int \<Rightarrow> ('k, 'v) lru \<Rightarrow> ('k \<times> ('v \<times> int)) list" where
  "with_entry k v n c = filter (\<lambda>x. fst x \<noteq> k) (lru_entries c) @ [(k, (v, n))]"

lemma lru_pop_entries [simp]:
  "lru_entries (lru_pop k c) = filter (\<lambda>x. fst x \<noteq> k) (lru_entries c)"
  "lru_max_bytes (lru_pop k c) = lru_max_bytes c" "lru_max_entries (lru_pop k c) = lru_max_entries c"
  "lru_hits (lru_pop k c) = lru_hits c" "lru_misses (lru_pop k c) = lru_misses c"
proof -
  have "filter (\<lambda>x. fst x \<noteq> k) (lru_entries c) = lru_entries c" if "map_of (lru_entries c) k = None"
    using that by (auto simp: map_of_eq_None_iff rev_image_eqI intro!: filter_True)
  then show "lru_entries (lru_pop k c) = filter (\<lambda>x. fst x \<noteq> k) (lru_entries c)"
    by (cases "map_of (lru_entries c) k") (simp_all add: lru_pop_def)
qed (simp_all add: lru_pop_def split: option.splits)

lemma lru_put_spec:
  assumes ok: "lru_ok c" and n: "0 \<le> n"
  shows "if lru_max_bytes c < n
     then lru_put k v n c = (lru_pop k c, False)
     else \<exists>d \<le> length (filter (\<lambda>x. fst x \<noteq> k) (lru_entries c)).
       lru_put k v n c = ((lru_pop k c)\<lparr>lru_entries := drop d (with_entry k v n c),
           lru_total_bytes := entry_bytes (drop d (with_entry k v n c))\<rparr>, True)
       \<and> fits (lru_max_bytes c) (lru_max_entries c) (drop d (with_entry k v n c))
       \<and> (\<forall>d' < d. \<not> fits (lru_max_bytes c) (lru_max_entries c) (drop d' (with_entry k v n c)))"
proof (cases "lru_max_bytes c < n")
  case False
  let ?es = "filter (\<lambda>x. fst x \<noteq> k) (lru_entries c)"
  have p: "lru_ok (lru_pop k c)" using ok by (rule lru_pop_ok)
  have "lru_total_bytes (lru_pop k c) + n = entry_bytes (with_entry k v n c)"
    using p by (simp add: lru_ok_def with_entry_def)
  with lru_evict_spec [of "lru_total_bytes (lru_pop k c) + n" "with_entry k v n c" "lru_max_bytes c" "lru_max_entries c"]
    ok obtain d where d: "d \<le> length (with_entry k v n c)"
    "lru_evict (lru_max_bytes c) (lru_max_entries c) (with_entry k v n c) (lru_total_bytes (lru_pop k c) + n)
       = (drop d (with_entry k v n c), entry_bytes (drop d (with_entry k v n c)))"
    "fits (lru_max_bytes c) (lru_max_entries c) (drop d (with_entry k v n c))"
    "\<forall>d' < d. \<not> fits (lru_max_bytes c) (lru_max_entries c) (drop d' (with_entry k v n c))"
    by (auto simp: lru_ok_def)
  have "fits (lru_max_bytes c) (lru_max_entries c) (drop (length ?es) (with_entry k v n c))"
    using False ok by (simp add: with_entry_def fits_def lru_ok_def)
  with d(4) have "d \<le> length ?es" by (meson not_le)
  moreover have "lru_put k v n c = ((lru_pop k c)\<lparr>lru_entries := drop d (with_entry k v n c),
      lru_total_bytes := entry_bytes (drop d (with_entry k v n c))\<rparr>, True)"
    using False d(2) by (simp add: lru_put_def Let_def with_entry_def)
  ultimately show ?thesis using False d(3,4) by auto
qed (simp add: lru_put_def)

lemma lru_put_ok:
  assumes "lru_ok c" and "0 \<le> n"
  shows "lru_ok (fst (lru_put k v n c))"
proof (cases "lru_max_bytes c < n")
  case True
  with lru_put_spec [OF assms, of k v] lru_pop_ok [OF assms(1)] show ?thesis by simp
next
  case False
  with lru_put_spec [OF assms, of k v] obtain d where
    d: "lru_put k v n c = ((lru_pop k c)\<lparr>lru_entries := drop d (with_entry k v n c),
           lru_total_bytes := entry_bytes (drop d (with_entry k v n c))\<rparr>, True)"
    "fits (lru_max_bytes c) (lru_max_entries c) (drop d (with_entry k v n c))" by auto
  have "distinct (map fst (with_entry k v n c))"
    using assms(1) by (auto simp: with_entry_def lru_ok_def distinct_map_filter)
  then have "distinct (map fst (drop d (with_entry k v n c)))" by (simp add: drop_map [symmetric])
  moreover have "\<forall>x \<in> set (drop d (with_entry k v n c)). 0 \<le> snd (snd x)"
    using assms by (auto simp: with_entry_def lru_ok_def dest!: in_set_dropD)
  ultimately show ?thesis using assms d by (simp add: lru_ok_def)
qed

lemma map_of_drop:
  assumes "distinct (map fst xs)" and "map_of (drop d xs) k = Some e"
  shows "map_of xs k = Some e"
proof -
  have "(k, e) \<in> set xs" using map_of_SomeD [OF assms(2)] by (rule in_set_dropD)
  with assms(1) show ?thesis by simp
qed

text \<open>What a lookup finds after a put: the new value under its key when it fits the budget, nothing
  under it otherwise; under another key what was there, or nothing.\<close>

lemma lru_get_put:
  assumes "lru_ok c" and "0 \<le> n"
  shows "snd (lru_get k (fst (lru_put k v n c))) = (if n \<le> lru_max_bytes c then Some v else None)"
    and "snd (lru_get k' (fst (lru_put k v n c))) = Some x \<Longrightarrow> k' \<noteq> k \<Longrightarrow> snd (lru_get k' c) = Some x"
proof -
  have val: "snd (lru_get k'' c') = map_option fst (map_of (lru_entries c') k'')"
    for k'' and c' :: "('a, 'b) lru" by (simp add: lru_get_def split: option.splits)
  have dis: "distinct (map fst (with_entry k v n c))"
    using assms(1) by (auto simp: with_entry_def lru_ok_def distinct_map_filter)
  consider "lru_max_bytes c < n" "fst (lru_put k v n c) = lru_pop k c"
    | d where "n \<le> lru_max_bytes c" "d \<le> length (filter (\<lambda>x. fst x \<noteq> k) (lru_entries c))"
      "lru_entries (fst (lru_put k v n c)) = drop d (with_entry k v n c)"
    using lru_put_spec [OF assms, of k v] by (auto split: if_splits)
  then have "snd (lru_get k (fst (lru_put k v n c))) = (if n \<le> lru_max_bytes c then Some v else None)
      \<and> (snd (lru_get k' (fst (lru_put k v n c))) = Some x \<longrightarrow> k' \<noteq> k \<longrightarrow> snd (lru_get k' c) = Some x)"
  proof cases
    case 1
    then show ?thesis by (simp add: val map_of_filter_key)
  next
    case 2
    have "(k, (v, n)) \<in> set (drop d (with_entry k v n c))" using 2(2) by (simp add: with_entry_def)
    moreover have "distinct (map fst (drop d (with_entry k v n c)))" using dis by (simp add: drop_map [symmetric])
    ultimately have "map_of (drop d (with_entry k v n c)) k = Some (v, n)" by simp
    moreover have "map_of (with_entry k v n c) k' = map_of (lru_entries c) k'" if "k' \<noteq> k"
      using that by (simp add: with_entry_def map_of_append map_add_def map_of_filter_key split: option.splits)
    ultimately show ?thesis using 2(1,3) map_of_drop [OF dis, of d k'] by (auto simp: val) metis
  qed
  then show "snd (lru_get k (fst (lru_put k v n c))) = (if n \<le> lru_max_bytes c then Some v else None)"
    and "snd (lru_get k' (fst (lru_put k v n c))) = Some x \<Longrightarrow> k' \<noteq> k \<Longrightarrow> snd (lru_get k' c) = Some x"
    by simp_all
qed


text \<open>
  The cache keeps its bounds and the newest entries that fit: a put keeps the invariant (the byte
  count is the sum of the entries and within the budget, the number of entries within the cap, one entry
  per key); a value larger than the whole budget is refused and its key is left empty; any other value
  can be read back at once, and the entries after it are the longest run of most recent ones that fits.
\<close>

theorem lru_put_keeps_newest:
  assumes "lru_ok c" and "0 \<le> n"
  shows "lru_ok (fst (lru_put k v n c))
    \<and> (snd (lru_put k v n c) \<longleftrightarrow> n \<le> lru_max_bytes c)
    \<and> snd (lru_get k (fst (lru_put k v n c))) = (if n \<le> lru_max_bytes c then Some v else None)
    \<and> (n \<le> lru_max_bytes c \<longrightarrow>
        (\<exists>d. lru_entries (fst (lru_put k v n c)) = drop d (with_entry k v n c)
           \<and> (\<forall>d' < d. \<not> fits (lru_max_bytes c) (lru_max_entries c) (drop d' (with_entry k v n c)))))"
  using lru_put_spec [OF assms, of k v] lru_put_ok [OF assms, of k v] lru_get_put(1) [OF assms, of k v]
  by (auto split: if_splits)

theorem lru_put_keeps_newest_witness:
  "lru_ok (fst (lru_put ''b'' True 7 (fst (lru_put ''a'' False 5 (new_lru 10 4)))))
   \<and> lru_entries (fst (lru_put ''b'' True 7 (fst (lru_put ''a'' False 5 (new_lru 10 4))))) = [(''b'', True, 7)]"
proof -
  have "lru_ok (fst (lru_put ''a'' False 5 (new_lru 10 4)))" by (intro lru_put_ok new_lru_ok) simp_all
  from lru_put_keeps_newest [OF this, of 7 "''b''" True] show ?thesis
    by (simp add: lru_put_def lru_pop_def new_lru_def Let_def)
qed

subsection \<open>What a client relies on\<close>

definition cache_holds :: "('k \<Rightarrow> 'c \<Rightarrow> 'c \<times> 'v option) \<Rightarrow> ('k \<Rightarrow> 'v \<Rightarrow> bool) \<Rightarrow> 'c \<Rightarrow> bool" where
  "cache_holds look P c \<longleftrightarrow> (\<forall>k v. snd (look k c) = Some v \<longrightarrow> P k v)"

locale cache =
  fixes inv :: "'c \<Rightarrow> bool" and look :: "'k \<Rightarrow> 'c \<Rightarrow> 'c \<times> 'v option"
    and keep :: "'k \<Rightarrow> 'v \<Rightarrow> int \<Rightarrow> 'c \<Rightarrow> 'c \<times> bool" and forget :: "'k \<Rightarrow> 'c \<Rightarrow> 'c"
  assumes look_inv: "inv c \<Longrightarrow> inv (fst (look k c))"
    and keep_inv: "inv c \<Longrightarrow> 0 \<le> n \<Longrightarrow> inv (fst (keep k v n c))"
    and forget_inv: "inv c \<Longrightarrow> inv (forget k c)"
    and look_again: "inv c \<Longrightarrow> snd (look k' (fst (look k c))) = snd (look k' c)"
    and look_kept: "inv c \<Longrightarrow> 0 \<le> n \<Longrightarrow> snd (look k (fst (keep k v n c))) = Some x \<Longrightarrow> x = v"
    and look_other: "inv c \<Longrightarrow> 0 \<le> n \<Longrightarrow> k' \<noteq> k \<Longrightarrow> snd (look k' (fst (keep k v n c))) = Some x
      \<Longrightarrow> snd (look k' c) = Some x"
    and look_forgotten: "inv c \<Longrightarrow> snd (look k' (forget k c)) = (if k' = k then None else snd (look k' c))"
begin

lemma holds_look: "inv c \<Longrightarrow> cache_holds look P c \<Longrightarrow> cache_holds look P (fst (look k c))"
  by (simp add: cache_holds_def look_again)

lemma holds_keep:
  assumes "inv c" and "cache_holds look P c" and "P k v" and "0 \<le> n"
  shows "cache_holds look P (fst (keep k v n c))"
  unfolding cache_holds_def
proof (intro allI impI)
  fix k' x assume "snd (look k' (fst (keep k v n c))) = Some x"
  with assms show "P k' x"
    by (cases "k' = k") (auto simp: cache_holds_def dest: look_kept look_other)
qed

lemma holds_forget: "inv c \<Longrightarrow> cache_holds look P c \<Longrightarrow> cache_holds look P (forget k c)"
  by (simp add: cache_holds_def look_forgotten)

end

lemma lru_get_again:
  assumes "lru_ok c"
  shows "snd (lru_get k' (fst (lru_get k c))) = snd (lru_get k' c)"
proof (cases "map_of (lru_entries c) k")
  case (Some e)
  have "map_of (filter (\<lambda>x. fst x \<noteq> k) (lru_entries c) @ [(k, e)]) k' = map_of (lru_entries c) k'"
    using Some by (simp add: map_add_def map_of_filter_key split: option.splits)
  with Some show ?thesis by (simp add: lru_get_def split: option.splits)
qed (simp add: lru_get_def split: option.splits)

interpretation lru_cache: cache lru_ok lru_get lru_put lru_pop
proof
  show "lru_ok c \<Longrightarrow> lru_ok (fst (lru_get k c))" for c :: "('a, 'b) lru" and k by (rule lru_get_ok)
  show "lru_ok c \<Longrightarrow> 0 \<le> n \<Longrightarrow> lru_ok (fst (lru_put k v n c))" for c :: "('a, 'b) lru" and k v n
    by (rule lru_put_ok)
  show "lru_ok c \<Longrightarrow> lru_ok (lru_pop k c)" for c :: "('a, 'b) lru" and k by (rule lru_pop_ok)
  show "lru_ok c \<Longrightarrow> snd (lru_get k' (fst (lru_get k c))) = snd (lru_get k' c)" for c :: "('a, 'b) lru" and k k'
    by (rule lru_get_again)
  show "lru_ok c \<Longrightarrow> 0 \<le> n \<Longrightarrow> snd (lru_get k (fst (lru_put k v n c))) = Some x \<Longrightarrow> x = v"
    for c :: "('a, 'b) lru" and k v n x by (simp add: lru_get_put(1) split: if_splits)
  show "lru_ok c \<Longrightarrow> 0 \<le> n \<Longrightarrow> k' \<noteq> k \<Longrightarrow> snd (lru_get k' (fst (lru_put k v n c))) = Some x
      \<Longrightarrow> snd (lru_get k' c) = Some x" for c :: "('a, 'b) lru" and k k' v n x by (rule lru_get_put(2))
  show "lru_ok c \<Longrightarrow> snd (lru_get k' (lru_pop k c)) = (if k' = k then None else snd (lru_get k' c))"
    for c :: "('a, 'b) lru" and k k'
    by (simp add: lru_get_def map_of_filter_key split: option.splits)
qed

end
