(* ===== verification/Trajectory.thy ===== *)
theory Trajectory
  imports Json ByteLRU Receipts
begin

section \<open>Paged session trajectories\<close>

text \<open>
  \<^verbatim>\<open>engine/retrieval/trajectory_cache.py\<close>, \<^verbatim>\<open>strip_provenance\<close> of \<^verbatim>\<open>engine/ingest/atif/store.py\<close>, the
  conditional read of \<^verbatim>\<open>engine/shared/storage.py\<close> and the route \<^verbatim>\<open>GET /trajectory\<close> of
  \<^verbatim>\<open>engine/retrieval/main.py\<close>. A byte string is a \<open>string\<close>. \<open>orjson.loads\<close>, \<open>orjson.dumps\<close> and
  \<open>sys.getsizeof\<close> are the fields of \<open>codec\<close>; an exception of \<^verbatim>\<open>from_body\<close> is \<open>Inl\<close>. The route admits
  only \<^verbatim>\<open>step_from\<close> and \<^verbatim>\<open>step_limit\<close> of at least 1 (\<^verbatim>\<open>Query(ge=1)\<close>), so both are natural numbers here.
\<close>

record codec =
  loads :: "string \<Rightarrow> json option"
  dumps :: "json \<Rightarrow> string"
  getsizeof_bytes :: "string \<Rightarrow> nat"
  getsizeof_array :: "nat list \<Rightarrow> nat"

subsection \<open>Provenance\<close>

text \<open>\<^verbatim>\<open>dict(x)\<close>: a dict, or an iterable of pairs. A key that is not a string cannot be printed later;
  it is the same exception here.\<close>

fun pair_of :: "json \<Rightarrow> exc + string \<times> json" where
  "pair_of (JList [JStr k, v]) = Inr (k, v)"
| "pair_of (JStr [a, b]) = Inr ([a], JStr [b])"
| "pair_of (JObj [(a, _), (b, _)]) = Inr (a, JStr b)"
| "pair_of (JList [_, _]) = Inl TypeError"
| "pair_of (JList _) = Inl (ValueError ''dictionary update sequence element'')"
| "pair_of (JStr _) = Inl (ValueError ''dictionary update sequence element'')"
| "pair_of (JObj _) = Inl (ValueError ''dictionary update sequence element'')"
| "pair_of _ = Inl TypeError"

fun set_pairs :: "json list \<Rightarrow> (string \<times> json) list \<Rightarrow> exc + (string \<times> json) list" where
  "set_pairs [] d = Inr d"
| "set_pairs (x # xs) d =
     (case pair_of x of Inl e \<Rightarrow> Inl e | Inr (k, v) \<Rightarrow> set_pairs xs (dict_set k v d))"

text \<open>\<^verbatim>\<open>iter(x)\<close>\<close>

fun py_iter :: "json \<Rightarrow> exc + json list" where
  "py_iter (JList xs) = Inr xs"
| "py_iter (JObj kvs) = Inr (map (\<lambda>kv. JStr (fst kv)) kvs)"
| "py_iter (JStr s) = Inr (map (\<lambda>ch. JStr [ch]) s)"
| "py_iter _ = Inl TypeError"

definition py_dict :: "json \<Rightarrow> exc + (string \<times> json) list" where
  "py_dict v =
     (case v of
        JObj kvs \<Rightarrow> Inr kvs
      | _ \<Rightarrow> (case py_iter v of Inl e \<Rightarrow> Inl e | Inr xs \<Rightarrow> set_pairs xs []))"

text \<open>\<^verbatim>\<open>extra = {k: v for k, v in (d.get("extra") or {}).items() if k != name}\<close> and the write-back.\<close>

definition strip_extra :: "string \<Rightarrow> (string \<times> json) list \<Rightarrow> exc + (string \<times> json) list" where
  "strip_extra name d =
     (let old = get_or_null (JObj d) ''extra'' in
      case (if truthy old then case old of JObj kvs \<Rightarrow> Inr kvs | _ \<Rightarrow> Inl AttributeError else Inr []) of
        Inl e \<Rightarrow> Inl e
      | Inr kvs \<Rightarrow>
          (let extra = filter (\<lambda>kv. fst kv \<noteq> name) kvs in
           Inr (if extra \<noteq> [] then dict_set ''extra'' (JObj extra) d
                else filter (\<lambda>kv. fst kv \<noteq> ''extra'') d)))"

fun strip_steps :: "json list \<Rightarrow> exc + json list" where
  "strip_steps [] = Inr []"
| "strip_steps (x # xs) =
     (case py_dict x of
        Inl e \<Rightarrow> Inl e
      | Inr d \<Rightarrow>
          (case strip_extra ''probe_parts'' d of
             Inl e \<Rightarrow> Inl e
           | Inr d' \<Rightarrow> (case strip_steps xs of Inl e \<Rightarrow> Inl e | Inr ys \<Rightarrow> Inr (JObj d' # ys))))"

definition strip_provenance :: "(string \<times> json) list \<Rightarrow> exc + (string \<times> json) list" where
  "strip_provenance d =
     (case strip_extra ''probe'' d of
        Inl e \<Rightarrow> Inl e
      | Inr out \<Rightarrow>
          (let old = get_or_null (JObj out) ''steps'' in
           case (if truthy old then py_iter old else Inr []) of
             Inl e \<Rightarrow> Inl e
           | Inr xs \<Rightarrow>
               (case strip_steps xs of
                  Inl e \<Rightarrow> Inl e
                | Inr steps \<Rightarrow> Inr (dict_set ''steps'' (JList steps) out))))"

subsection \<open>One trajectory, serialized once\<close>

record trajectory_pages =
  tp_etag :: "string option"
  tp_head :: string
  tp_tail :: string
  tp_steps :: string
  tp_bounds :: "nat list"

text \<open>The loop over the steps: the joined bytes and where each step starts.\<close>

fun join_steps :: "(json \<Rightarrow> string) \<Rightarrow> nat \<Rightarrow> json list \<Rightarrow> string \<Rightarrow> nat list \<Rightarrow> string \<times> nat list" where
  "join_steps dmp i [] joined bounds = (joined, bounds @ [length joined + 1])"
| "join_steps dmp i (step # steps) joined bounds =
     (let joined1 = (if i \<noteq> 0 then joined @ '','' else joined) in
      join_steps dmp (i + 1) steps (joined1 @ dmp step) (bounds @ [length joined1]))"

text \<open>\<^verbatim>\<open>b[1:-1]\<close>\<close>

definition inner :: "string \<Rightarrow> string" where
  "inner b = butlast (tl b)"

definition from_body :: "codec \<Rightarrow> string \<Rightarrow> string option \<Rightarrow> exc + trajectory_pages option" where
  "from_body cd body etag =
     (case loads cd body of
        None \<Rightarrow> Inr None
      | Some (JObj d) \<Rightarrow>
          (case strip_provenance d of
             Inl e \<Rightarrow> Inl e
           | Inr pub \<Rightarrow>
               (let before = takeWhile (\<lambda>kv. fst kv \<noteq> ''steps'') pub;
                    after = tl (dropWhile (\<lambda>kv. fst kv \<noteq> ''steps'') pub);
                    steps = (case get_or_null (JObj pub) ''steps'' of JList xs \<Rightarrow> xs | _ \<Rightarrow> []);
                    (joined, bounds) = join_steps (dumps cd) 0 steps [] []
                in Inr (Some \<lparr>tp_etag = etag, tp_head = inner (dumps cd (JObj before)),
                              tp_tail = inner (dumps cd (JObj after)), tp_steps = joined, tp_bounds = bounds\<rparr>)))
      | Some _ \<Rightarrow> Inr None)"

definition total_steps :: "trajectory_pages \<Rightarrow> nat" where
  "total_steps tp = length (tp_bounds tp) - 1"

definition tp_nbytes :: "codec \<Rightarrow> trajectory_pages \<Rightarrow> nat" where
  "tp_nbytes cd tp =
     getsizeof_bytes cd (tp_head tp) + getsizeof_bytes cd (tp_tail tp) + getsizeof_bytes cd (tp_steps tp)
     + getsizeof_array cd (tp_bounds tp) + length (case tp_etag tp of Some e \<Rightarrow> e | None \<Rightarrow> [])"

text \<open>The loop of \<^verbatim>\<open>page\<close> over the indices still allowed: where the page ends.\<close>

fun page_loop :: "nat list \<Rightarrow> nat \<Rightarrow> nat list \<Rightarrow> nat \<Rightarrow> int \<Rightarrow> nat" where
  "page_loop bounds first [] endi budget = endi"
| "page_loop bounds first (i # is) endi budget =
     (let size = int (bounds ! (i + 1)) - int (bounds ! i) - 1 in
      if first < endi \<and> budget < size then endi
      else page_loop bounds first is (i + 1) (budget - size))"

fun join_with :: "string \<Rightarrow> string list \<Rightarrow> string" where
  "join_with sep [] = []"
| "join_with sep [x] = x"
| "join_with sep (x # xs) = x @ sep @ join_with sep xs"

definition page :: "nat \<Rightarrow> nat \<Rightarrow> int \<Rightarrow> trajectory_pages \<Rightarrow> string \<times> nat" where
  "page step_from step_limit max_bytes tp =
     (let first = min (step_from - 1) (total_steps tp);
          endi = page_loop (tp_bounds tp) first [first ..< min (first + step_limit) (total_steps tp)] first max_bytes;
          array_body = (if first < endi then slice (tp_steps tp) (tp_bounds tp ! first) (tp_bounds tp ! endi - 1) else []);
          members = filter (\<lambda>m. m \<noteq> []) [tp_head tp, ''\"steps\":['' @ array_body @ '']'', tp_tail tp]
      in (''{'' @ join_with '','' members @ ''}'', endi - first))"

subsection \<open>Reading through the cache\<close>

datatype object_read = NotFound | Unavailable | NotModified | Body string "string option"

text \<open>\<^verbatim>\<open>get_if_changed\<close> on the stored object (its body and ETag, or none). An empty ETag is not sent.\<close>

definition get_if_changed :: "bool \<Rightarrow> (string \<times> string option) option \<Rightarrow> string option \<Rightarrow> object_read" where
  "get_if_changed up obj etag =
     (if \<not> up then Unavailable
      else case obj of
        None \<Rightarrow> NotFound
      | Some (body, tag) \<Rightarrow>
          if etag \<noteq> None \<and> etag \<noteq> Some [] \<and> tag = etag then NotModified else Body body tag)"

type_synonym cache_key = "string \<times> string \<times> string"
type_synonym trajectory_cache = "(cache_key, trajectory_pages) lru"

datatype load_error = StorageUnavailable | BodyRaised exc

definition load_trajectory_pages ::
  "codec \<Rightarrow> bool \<Rightarrow> (string \<times> string option) option \<Rightarrow> cache_key \<Rightarrow> trajectory_cache
   \<Rightarrow> trajectory_cache \<times> (load_error + trajectory_pages option \<times> bool)" where
  "load_trajectory_pages cd up obj ck held =
     (let (held1, cached) = lru_get ck held in
      case get_if_changed up obj (case cached of Some tp \<Rightarrow> tp_etag tp | None \<Rightarrow> None) of
        Unavailable \<Rightarrow> (held1, Inl StorageUnavailable)
      | NotFound \<Rightarrow> (lru_pop ck held1, Inr (None, False))
      | NotModified \<Rightarrow>
          (case cached of
             Some tp \<Rightarrow> (held1, Inr (Some tp, True))
           | None \<Rightarrow> (lru_pop ck held1, Inr (None, False)))
      | Body body tag \<Rightarrow>
          (case from_body cd body tag of
             Inl e \<Rightarrow> (held1, Inl (BodyRaised e))
           | Inr None \<Rightarrow> (lru_pop ck held1, Inr (None, False))
           | Inr (Some tp) \<Rightarrow>
               if tp_etag tp \<noteq> None \<and> tp_etag tp \<noteq> Some []
               then (fst (lru_put ck tp (int (tp_nbytes cd tp)) held1), Inr (Some tp, False))
               else (lru_pop ck held1, Inr (Some tp, False))))"

subsection \<open>The route\<close>

definition trajectory_key :: "string \<Rightarrow> string \<Rightarrow> string \<Rightarrow> string" where
  "trajectory_key src c sid = session_folder src c sid @ TRAJECTORY_FILE"

definition session_document :: "string \<Rightarrow> string \<Rightarrow> document_row table \<Rightarrow> document_row option" where
  "session_document c did docs =
     fetchrow (sql_select (\<lambda>d. doc_customer d = c \<and> doc_id d = did \<and> doc_valid_to d = None
         \<and> doc_visibility d = ''approved'' \<and> doc_deleted_at d = None \<and> doc_type d = ''claude_code.session'')
       (\<lambda>d. - doc_version d) 1 docs)"

definition TRAJECTORY_MAX_STEPS :: nat where "TRAJECTORY_MAX_STEPS = 2000"
definition TRAJECTORY_PAGE_MAX_BYTES :: int where "TRAJECTORY_PAGE_MAX_BYTES = 1000000"

datatype trajectory_answer = DocumentNotFound | NotBuilt | Failed load_error | PageBody string

definition next_step_from :: "nat \<Rightarrow> nat \<Rightarrow> nat \<Rightarrow> nat option" where
  "next_step_from step_from shown all = (if step_from + shown \<le> all then Some (step_from + shown) else None)"

definition page_envelope :: "document_row \<Rightarrow> nat \<Rightarrow> nat \<Rightarrow> nat \<Rightarrow> json" where
  "page_envelope d all step_from shown =
     JObj [(''doc_id'', JStr (doc_id d)), (''session_id'', JStr (doc_source_id d)), (''source'', JStr (doc_source d)),
           (''total_steps'', JInt (int all)), (''step_from'', JInt (int step_from)),
           (''next_step_from'', case next_step_from step_from shown all of Some n \<Rightarrow> JInt (int n) | None \<Rightarrow> JNull)]"

text \<open>\<open>objs\<close> is the tenant's bucket: key to body and ETag.\<close>

definition get_trajectory ::
  "codec \<Rightarrow> bool \<Rightarrow> document_row table \<Rightarrow> (string \<Rightarrow> (string \<times> string option) option) \<Rightarrow> string \<Rightarrow> string
   \<Rightarrow> nat \<Rightarrow> nat \<Rightarrow> trajectory_cache \<Rightarrow> trajectory_cache \<times> trajectory_answer" where
  "get_trajectory cd up docs objs c did step_from step_limit held =
     (case session_document c did docs of
        None \<Rightarrow> (held, DocumentNotFound)
      | Some d \<Rightarrow>
          (case load_trajectory_pages cd up (objs (trajectory_key (doc_source d) c (doc_source_id d)))
                  (c, doc_source d, doc_source_id d) held of
             (held', Inl e) \<Rightarrow> (held', Failed e)
           | (held', Inr (None, _)) \<Rightarrow> (held', NotBuilt)
           | (held', Inr (Some tp, _)) \<Rightarrow>
               (let (body, shown) = page step_from (min step_limit TRAJECTORY_MAX_STEPS) TRAJECTORY_PAGE_MAX_BYTES tp;
                    envelope = dumps cd (page_envelope d (total_steps tp) step_from shown)
                in (held', PageBody (butlast envelope @ '',\"trajectory\":'' @ body @ ''}'')))))"

end
