(* ===== verification/TrajectoryProperties.thy ===== *)
theory TrajectoryProperties
  imports Trajectory
begin

section \<open>Properties of paged trajectories\<close>

text \<open>
  A page is exactly a slice of the stored document, printed as the printer would print that document;
  following \<^verbatim>\<open>next_step_from\<close> visits every step once and ends; and a page is never older than the stored
  object. The printer is a parameter; \<open>compact\<close> says what compact JSON printing means for objects and
  arrays. ETags are the store's: two objects of one key with the same ETag have the same bytes.
\<close>

subsection \<open>Joined steps and their bounds\<close>

text \<open>Where element \<open>a\<close> starts when elements are joined by a one-byte separator.\<close>

definition pos :: "string list \<Rightarrow> nat \<Rightarrow> nat" where
  "pos ds a = (\<Sum>d \<leftarrow> take a ds. length d + 1)"

lemma pos_simps [simp]: "pos ds 0 = 0" "pos (d # ds) (Suc a) = length d + 1 + pos ds a"
  by (simp_all add: pos_def)

lemma pos_Suc: "a < length ds \<Longrightarrow> pos ds (Suc a) = pos ds a + length (ds ! a) + 1"
  by (simp add: pos_def take_Suc_conv_app_nth)

lemma pos_pos: "0 < a \<Longrightarrow> ds \<noteq> [] \<Longrightarrow> 0 < pos ds a"
  by (cases a; cases ds) simp_all

lemma join_with_Cons: "join_with sep (x # xs) = x @ concat (map ((@) sep) xs)"
proof (induction xs arbitrary: x)
  case (Cons y ys)
  show ?case using Cons [of y] by simp
qed simp

lemma join_with_Cons_ne: "xs \<noteq> [] \<Longrightarrow> join_with sep (x # xs) = x @ sep @ join_with sep xs"
  by (cases xs) simp_all

lemma length_join: "ds \<noteq> [] \<Longrightarrow> length (join_with '','' ds) + 1 = pos ds (length ds)"
proof (induction ds)
  case (Cons d ds)
  then show ?case by (cases "ds = []") (simp_all add: join_with_Cons_ne)
qed simp

lemma take_join:
  "0 < b \<Longrightarrow> b \<le> length ds \<Longrightarrow> take (pos ds b - 1) (join_with '','' ds) = join_with '','' (take b ds)"
proof (induction ds arbitrary: b)
  case (Cons d ds)
  then obtain b' where b: "b = Suc b'" by (cases b) auto
  show ?case
  proof (cases "b' = 0")
    case True
    then show ?thesis by (cases ds) (simp_all add: b)
  next
    case False
    with Cons.prems b have ne: "ds \<noteq> []" "take b' ds \<noteq> []" by auto
    have "0 < pos ds b'" using False ne(1) by (simp add: pos_pos)
    then obtain m where "pos ds b' = Suc m" by (cases "pos ds b'") auto
    with Cons.IH [of b'] Cons.prems False b ne show ?thesis by (simp add: join_with_Cons_ne)
  qed
qed simp

lemma drop_join: "a < length ds \<Longrightarrow> drop (pos ds a) (join_with '','' ds) = join_with '','' (drop a ds)"
proof (induction ds arbitrary: a)
  case (Cons d ds)
  show ?case
  proof (cases a)
    case (Suc a')
    with Cons.prems have "ds \<noteq> []" by auto
    with Suc Cons show ?thesis by (simp add: join_with_Cons_ne)
  qed simp
qed simp

lemma pos_add: "pos ds (a + k) = pos ds a + pos (drop a ds) k"
  by (simp add: pos_def take_add)

lemma slice_join:
  assumes "a < b" and "b \<le> length ds"
  shows "slice (join_with '','' ds) (pos ds a) (pos ds b - 1) = join_with '','' (take (b - a) (drop a ds))"
proof -
  have b: "pos ds b = pos ds a + pos (drop a ds) (b - a)" using pos_add [of ds a "b - a"] assms(1) by simp
  have "0 < pos (drop a ds) (b - a)" using assms by (intro pos_pos) auto
  then have "pos ds b - 1 - pos ds a = pos (drop a ds) (b - a) - 1" by (simp add: b)
  moreover have "take (pos (drop a ds) (b - a) - 1) (join_with '','' (drop a ds))
      = join_with '','' (take (b - a) (drop a ds))"
    by (rule take_join) (use assms in auto)
  ultimately show ?thesis using assms drop_join [of a ds] by (simp only: slice_def)
qed

lemma join_steps_later:
  "join_steps dmp (Suc i) steps joined bounds
   = (joined @ concat (map (\<lambda>s. '','' @ dmp s) steps),
      bounds @ map (\<lambda>a. length joined + 1 + pos (map dmp steps) a) [0 ..< length steps]
        @ [length (joined @ concat (map (\<lambda>s. '','' @ dmp s) steps)) + 1])"
proof (induction steps arbitrary: i joined bounds)
  case (Cons s steps)
  have "[0 ..< length (s # steps)] = 0 # map Suc [0 ..< length steps]"
    by (simp add: map_Suc_upt upt_conv_Cons del: upt_Suc)
  then show ?case by (simp add: Cons.IH del: upt_Suc)
qed simp

text \<open>What \<^verbatim>\<open>from_body\<close> holds of a list of steps.\<close>

lemma join_steps_spec:
  assumes "join_steps dmp 0 steps [] [] = (joined, bounds)"
  shows "joined = join_with '','' (map dmp steps)" and "length bounds = Suc (length steps)"
    and "steps \<noteq> [] \<Longrightarrow> a \<le> length steps \<Longrightarrow> bounds ! a = pos (map dmp steps) a"
proof -
  have "joined = join_with '','' (map dmp steps) \<and> length bounds = Suc (length steps)
      \<and> (steps \<noteq> [] \<longrightarrow> bounds = map (pos (map dmp steps)) [0 ..< Suc (length steps)])"
  proof (cases steps)
    case (Cons s ss)
    have upt: "[0 ..< length (s # ss)] = 0 # map Suc [0 ..< length ss]"
      by (simp add: map_Suc_upt upt_conv_Cons del: upt_Suc)
    have j: "joined = join_with '','' (map dmp steps)"
      and b: "bounds = 0 # map (\<lambda>a. length (dmp s) + 1 + pos (map dmp ss) a) [0 ..< length ss] @ [length joined + 1]"
      using assms by (auto simp: Cons join_steps_later join_with_Cons comp_def)
    have "length joined + 1 = pos (map dmp steps) (length steps)"
      using length_join [of "map dmp steps"] by (simp add: j Cons)
    moreover have "map (pos (map dmp steps)) [0 ..< length steps]
        = 0 # map (\<lambda>a. length (dmp s) + 1 + pos (map dmp ss) a) [0 ..< length ss]"
      unfolding Cons upt by simp
    ultimately have "bounds = map (pos (map dmp steps)) ([0 ..< length steps] @ [length steps])"
      using b by (simp del: upt_Suc)
    with j show ?thesis by simp
  qed (use assms in auto)
  then show "joined = join_with '','' (map dmp steps)" "length bounds = Suc (length steps)"
    "steps \<noteq> [] \<Longrightarrow> a \<le> length steps \<Longrightarrow> bounds ! a = pos (map dmp steps) a"
    by (auto simp del: upt_Suc)
qed

subsection \<open>How many steps a page takes\<close>

fun greedy :: "bool \<Rightarrow> int \<Rightarrow> nat list \<Rightarrow> nat" where
  "greedy started budget [] = 0"
| "greedy started budget (s # ss) =
     (if started \<and> budget < int s then 0 else Suc (greedy True (budget - int s) ss))"

lemma page_loop_greedy:
  assumes "\<And>j. j < stop \<Longrightarrow> int (bounds ! (j + 1)) - int (bounds ! j) - 1 = int (sz j)" and "first \<le> i"
  shows "page_loop bounds first [i ..< stop] i budget = i + greedy (first < i) budget (map sz [i ..< stop])"
  using assms(2)
proof (induction "stop - i" arbitrary: i budget)
  case (Suc m)
  then have "i < stop" by simp
  then have "[i ..< stop] = i # [Suc i ..< stop]" by (simp add: upt_conv_Cons)
  with Suc assms(1) [of i] \<open>i < stop\<close> show ?case
    using Suc(1) [of "Suc i" "budget - int (sz i)"] by (simp add: Let_def)
qed simp

lemma greedy_le: "greedy st b ss \<le> length ss"
  by (induction st b ss rule: greedy.induct) auto

lemma greedy_within: "0 < greedy True b ss \<Longrightarrow> int (sum_list (take (greedy True b ss) ss)) \<le> b"
proof (induction ss arbitrary: b)
  case (Cons s ss)
  show ?case
  proof (cases "greedy True (b - int s) ss = 0")
    case True
    with Cons.prems show ?thesis by (auto split: if_splits)
  next
    case False
    with Cons.IH [of "b - int s"] Cons.prems show ?thesis by (auto split: if_splits)
  qed
qed simp

lemma greedy_full: "greedy True b ss < length ss \<Longrightarrow> b < int (sum_list (take (Suc (greedy True b ss)) ss))"
proof (induction ss arbitrary: b)
  case (Cons s ss)
  show ?case
  proof (cases "b < int s")
    case False
    with Cons.prems have "greedy True (b - int s) ss < length ss" by simp
    from Cons.IH [OF this] False show ?thesis by simp
  qed simp
qed simp

text \<open>A page that has started takes steps while they fit; the first step is always taken.\<close>

lemma greedy_page:
  assumes "n = greedy False b ss"
  shows "ss \<noteq> [] \<Longrightarrow> 1 \<le> n" and "2 \<le> n \<Longrightarrow> int (sum_list (take n ss)) \<le> b"
    and "n < length ss \<Longrightarrow> b < int (sum_list (take (Suc n) ss))"
proof -
  show "ss \<noteq> [] \<Longrightarrow> 1 \<le> n" using assms by (cases ss) auto
  show "2 \<le> n \<Longrightarrow> int (sum_list (take n ss)) \<le> b"
  proof (cases ss)
    case (Cons s ss')
    assume "2 \<le> n"
    with greedy_within [of "b - int s" ss'] assms Cons show ?thesis by simp
  qed (use assms in simp)
  show "n < length ss \<Longrightarrow> b < int (sum_list (take (Suc n) ss))"
  proof (cases ss)
    case (Cons s ss')
    assume "n < length ss"
    with greedy_full [of "b - int s" ss'] assms Cons show ?thesis by simp
  qed simp
qed

subsection \<open>A page is a slice of the document\<close>

text \<open>What compact printing means: members and elements joined by a bare comma. \<open>quote\<close> prints a key.\<close>

definition member :: "(json \<Rightarrow> string) \<Rightarrow> (string \<Rightarrow> string) \<Rightarrow> string \<times> json \<Rightarrow> string" where
  "member dmp quote kv = quote (fst kv) @ '':'' @ dmp (snd kv)"

definition compact :: "(json \<Rightarrow> string) \<Rightarrow> (string \<Rightarrow> string) \<Rightarrow> bool" where
  "compact dmp quote \<longleftrightarrow>
     (\<forall>kvs. dmp (JObj kvs) = ''{'' @ join_with '','' (map (member dmp quote) kvs) @ ''}'')
     \<and> (\<forall>xs. dmp (JList xs) = ''['' @ join_with '','' (map dmp xs) @ '']'')
     \<and> quote ''steps'' = ''\"steps\"''"

definition steps_of :: "(string \<times> json) list \<Rightarrow> json list" where
  "steps_of pub = (case get_or_null (JObj pub) ''steps'' of JList xs \<Rightarrow> xs | _ \<Rightarrow> [])"

lemma join_with_append:
  "xs \<noteq> [] \<Longrightarrow> ys \<noteq> [] \<Longrightarrow> join_with sep (xs @ ys) = join_with sep xs @ sep @ join_with sep ys"
proof (induction xs)
  case (Cons x xs)
  then show ?case by (cases "xs = []") (simp_all add: join_with_Cons_ne)
qed simp

lemma join_members_empty: "join_with '','' (map (member dmp quote) kvs) = [] \<longleftrightarrow> kvs = []"
  by (cases kvs) (simp_all add: join_with_Cons member_def)

lemma join_nonempty_parts:
  assumes "s \<noteq> []" "a = [] \<longleftrightarrow> xs = []" "b = [] \<longleftrightarrow> ys = []"
    and "a = join_with sep xs" "b = join_with sep ys"
  shows "join_with sep (filter (\<lambda>m. m \<noteq> []) [a, s, b]) = join_with sep (xs @ s # ys)"
proof -
  have "join_with sep (s # ys) = (if ys = [] then s else s @ sep @ b)"
    using assms by (simp add: join_with_Cons_ne)
  moreover have "join_with sep (xs @ s # ys) = (if xs = [] then join_with sep (s # ys) else a @ sep @ join_with sep (s # ys))"
    using assms join_with_append [of xs "s # ys" sep] by simp
  ultimately show ?thesis using assms by auto
qed

lemma split_at_key:
  assumes "map_of pub k = Some v"
  shows "pub = takeWhile (\<lambda>kv. fst kv \<noteq> k) pub @ (k, v) # tl (dropWhile (\<lambda>kv. fst kv \<noteq> k) pub)"
    and "dict_set k w pub = takeWhile (\<lambda>kv. fst kv \<noteq> k) pub @ (k, w) # tl (dropWhile (\<lambda>kv. fst kv \<noteq> k) pub)"
  using assms by (induction pub) (auto split: if_splits)

lemma inner_braces: "inner (''{'' @ s @ ''}'') = s"
  by (simp add: inner_def butlast_append)

lemma strip_provenance_steps:
  assumes "strip_provenance d = Inr pub"
  shows "map_of pub ''steps'' = Some (JList (steps_of pub))"
  using assms
  by (auto simp: strip_provenance_def steps_of_def get_or_null_def obj_get_def Let_def split: sum.splits if_splits)

text \<open>The fields \<^verbatim>\<open>from_body\<close> builds, for a compact printer.\<close>

lemma from_body_fields:
  assumes "loads cd body = Some (JObj d)" and "strip_provenance d = Inr pub"
    and "from_body cd body etag = Inr (Some tp)" and "compact (dumps cd) quote"
  shows "tp_etag tp = etag"
    and "tp_head tp = join_with '','' (map (member (dumps cd) quote) (takeWhile (\<lambda>kv. fst kv \<noteq> ''steps'') pub))"
    and "tp_tail tp = join_with '','' (map (member (dumps cd) quote) (tl (dropWhile (\<lambda>kv. fst kv \<noteq> ''steps'') pub)))"
    and "join_steps (dumps cd) 0 (steps_of pub) [] [] = (tp_steps tp, tp_bounds tp)"
proof -
  obtain joined bounds where j: "join_steps (dumps cd) 0 (steps_of pub) [] [] = (joined, bounds)" by fastforce
  have obj: "dumps cd (JObj kvs) = ''{'' @ join_with '','' (map (member (dumps cd) quote) kvs) @ ''}''" for kvs
    using assms(4) by (simp add: compact_def)
  have "tp = \<lparr>tp_etag = etag, tp_head = inner (dumps cd (JObj (takeWhile (\<lambda>kv. fst kv \<noteq> ''steps'') pub))),
      tp_tail = inner (dumps cd (JObj (tl (dropWhile (\<lambda>kv. fst kv \<noteq> ''steps'') pub)))), tp_steps = joined,
      tp_bounds = bounds\<rparr>"
    using assms(3) j by (simp add: from_body_def assms(1,2) Let_def steps_of_def)
  then show "tp_etag tp = etag"
    "tp_head tp = join_with '','' (map (member (dumps cd) quote) (takeWhile (\<lambda>kv. fst kv \<noteq> ''steps'') pub))"
    "tp_tail tp = join_with '','' (map (member (dumps cd) quote) (tl (dropWhile (\<lambda>kv. fst kv \<noteq> ''steps'') pub)))"
    "join_steps (dumps cd) 0 (steps_of pub) [] [] = (tp_steps tp, tp_bounds tp)"
    by (simp_all only: obj inner_braces trajectory_pages.simps j)
qed

text \<open>The number of steps a page takes, on the sizes of the steps that remain.\<close>

definition page_steps :: "(json \<Rightarrow> string) \<Rightarrow> json list \<Rightarrow> nat \<Rightarrow> nat \<Rightarrow> int \<Rightarrow> nat" where
  "page_steps dmp steps sf lm mb =
     greedy False mb (map (\<lambda>s. length (dmp s)) (take lm (drop (sf - 1) steps)))"

lemma page_fields:
  assumes j: "join_steps dmp 0 steps [] [] = (tp_steps tp, tp_bounds tp)"
    and n: "n = page_steps dmp steps sf lm mb"
  shows "page sf lm mb tp = (''{'' @ join_with '','' (filter (\<lambda>m. m \<noteq> []) [tp_head tp,
      ''\"steps\":['' @ join_with '','' (map dmp (take n (drop (sf - 1) steps))) @ '']'', tp_tail tp]) @ ''}'', n)"
    and "total_steps tp = length steps"
proof -
  show tot: "total_steps tp = length steps" using join_steps_spec(2) [OF j] by (simp add: total_steps_def)
  let ?first = "min (sf - 1) (length steps)" and ?ds = "map dmp steps"
  let ?stop = "min (?first + lm) (length steps)"
  let ?last = "page_loop (tp_bounds tp) ?first [?first ..< ?stop] ?first mb"
  have b: "tp_bounds tp ! a = pos ?ds a" if "a \<le> length steps" "steps \<noteq> []" for a
    using join_steps_spec(3) [OF j that(2,1)] .
  have size: "int (tp_bounds tp ! (i + 1)) - int (tp_bounds tp ! i) - 1 = int (length (dmp (steps ! i)))"
    if "i < ?stop" for i
  proof -
    from that have "i < length steps" "steps \<noteq> []" by auto
    then show ?thesis using b [of i] b [of "i + 1"] pos_Suc [of i ?ds] by simp
  qed
  have "map (\<lambda>i. length (dmp (steps ! i))) [?first ..< ?stop]
      = map (\<lambda>s. length (dmp s)) (take lm (drop (sf - 1) steps))"
  proof -
    have "map (\<lambda>i. h (steps ! i)) [min f (length steps) ..< min (min f (length steps) + lm) (length steps)]
        = map h (take lm (drop f steps))" for f and h :: "json \<Rightarrow> nat"
    proof (cases "f \<le> length steps")
      case True
      then have k: "min (f + lm) (length steps) = f + min lm (length steps - f)" by simp
      show ?thesis using True unfolding min_absorb1 [OF True] k
        by (intro nth_equalityI) simp_all
    qed simp
    from this [of "\<lambda>s. length (dmp s)" "sf - 1"] show ?thesis .
  qed
  then have e: "?last = ?first + n"
    using page_loop_greedy [where bounds = "tp_bounds tp" and sz = "\<lambda>i. length (dmp (steps ! i))" and stop = ?stop
        and first = ?first and i = ?first and budget = mb, OF size] by (simp add: n page_steps_def)
  have le: "?first + n \<le> length steps"
  proof -
    have "n \<le> length (take lm (drop (sf - 1) steps))"
      using greedy_le [of False mb "map (\<lambda>s. length (dmp s)) (take lm (drop (sf - 1) steps))"]
      by (simp only: n page_steps_def length_map)
    then have "n \<le> length steps - (sf - 1)" by simp
    then show ?thesis by (cases "sf - 1 \<le> length steps") simp_all
  qed
  have "(if ?first < ?last then slice (tp_steps tp) (tp_bounds tp ! ?first) (tp_bounds tp ! ?last - 1) else [])
      = join_with '','' (map dmp (take n (drop (sf - 1) steps)))"
  proof (cases "n = 0")
    case False
    then have ne: "steps \<noteq> []" "?first < ?first + n" "?first = sf - 1" using le by auto
    have "slice (tp_steps tp) (pos ?ds ?first) (pos ?ds (?first + n) - 1) = join_with '','' (take n (drop ?first ?ds))"
      unfolding join_steps_spec(1) [OF j] using slice_join [of ?first "?first + n" ?ds] ne(2) le by simp
    with ne b [of ?first] b [of "?first + n"] le show ?thesis
      unfolding e by (simp add: take_map drop_map)
  next
    case True
    then show ?thesis unfolding e by simp
  qed
  then show "page sf lm mb tp = (''{'' @ join_with '','' (filter (\<lambda>m. m \<noteq> []) [tp_head tp,
      ''\"steps\":['' @ join_with '','' (map dmp (take n (drop (sf - 1) steps))) @ '']'', tp_tail tp]) @ ''}'', n)"
    unfolding page_def tot Let_def e by simp
qed


text \<open>
  A page is exactly a slice of the stored document: its bytes are what the printer prints for the
  document (provenance stripped) with its steps replaced by those from \<^verbatim>\<open>step_from\<close> on, although the page
  is cut out of one pre-joined byte string. The page holds at most \<^verbatim>\<open>step_limit\<close> steps, at least one when
  one remains, more than one only within the byte budget, and it never stops early.
\<close>

theorem page_is_a_slice:
  assumes "loads cd body = Some (JObj d)" and "strip_provenance d = Inr pub"
    and "from_body cd body etag = Inr (Some tp)" and "compact (dumps cd) quote"
    and "page sf lm mb tp = (out, n)" and "rest = drop (sf - 1) (steps_of pub)"
  shows "out = dumps cd (JObj (dict_set ''steps'' (JList (take n rest)) pub))
    \<and> n \<le> lm \<and> n \<le> length rest \<and> (n = 0 \<longrightarrow> lm = 0 \<or> rest = [])
    \<and> (2 \<le> n \<longrightarrow> int (\<Sum>s \<leftarrow> take n rest. length (dumps cd s)) \<le> mb)
    \<and> (n < lm \<and> n < length rest \<longrightarrow> mb < int (\<Sum>s \<leftarrow> take (Suc n) rest. length (dumps cd s)))"
proof -
  note f = from_body_fields [OF assms(1-4)]
  let ?k = "page_steps (dumps cd) (steps_of pub) sf lm mb"
  let ?ss = "map (\<lambda>s. length (dumps cd s)) (take lm rest)"
  have k: "?k = greedy False mb ?ss" by (simp add: page_steps_def assms(6))
  note pg = page_fields(1) [OF f(4) refl, of sf lm mb]
  have n: "n = ?k" using assms(5) pg by simp
  have le: "n \<le> lm" "n \<le> length rest" using greedy_le [of False mb ?ss] by (auto simp: n k)
  have taken: "take i ?ss = map (\<lambda>s. length (dumps cd s)) (take i rest)" if "i \<le> lm" for i
    using that by (simp add: take_map min_def)
  have first: "n = 0 \<longrightarrow> lm = 0 \<or> rest = []"
    using greedy_page(1) [of n mb ?ss] n k by (cases "rest = []"; cases "lm = 0") simp_all
  have within: "2 \<le> n \<longrightarrow> int (\<Sum>s \<leftarrow> take n rest. length (dumps cd s)) \<le> mb"
    using greedy_page(2) [of n mb ?ss] taken [OF le(1)] by (auto simp: n k)
  have full: "n < lm \<and> n < length rest \<longrightarrow> mb < int (\<Sum>s \<leftarrow> take (Suc n) rest. length (dumps cd s))"
    using greedy_page(3) [of n mb ?ss] taken [of "Suc n"] by (auto simp: n k)
  let ?m = "member (dumps cd) quote"
  let ?kv = "(''steps'', JList (take n rest))"
  have steps: "''\"steps\":['' @ join_with '','' (map (dumps cd) (take n rest)) @ '']'' = ?m ?kv"
    using assms(4) by (simp add: member_def compact_def)
  have "dict_set ''steps'' (JList (take n rest)) pub = takeWhile (\<lambda>kv. fst kv \<noteq> ''steps'') pub @ ?kv #
      tl (dropWhile (\<lambda>kv. fst kv \<noteq> ''steps'') pub)"
    by (rule split_at_key(2) [OF strip_provenance_steps [OF assms(2)]])
  then have "dumps cd (JObj (dict_set ''steps'' (JList (take n rest)) pub)) = ''{'' @ join_with '',''
      (map ?m (takeWhile (\<lambda>kv. fst kv \<noteq> ''steps'') pub) @ ?m ?kv # map ?m (tl (dropWhile (\<lambda>kv. fst kv \<noteq> ''steps'') pub))) @ ''}''"
    using assms(4) by (simp add: compact_def)
  also have "\<dots> = ''{'' @ join_with '','' (filter (\<lambda>m. m \<noteq> []) [tp_head tp, ?m ?kv, tp_tail tp]) @ ''}''"
    by (subst join_nonempty_parts [OF _ _ _ f(2,3)]) (auto simp: member_def f(2,3) join_members_empty)
  also have "\<dots> = out" using assms(5) pg unfolding n [symmetric] assms(6) [symmetric] steps by simp
  finally show ?thesis using le first within full by simp
qed

subsection \<open>Walking the pages\<close>

text \<open>What a reader does: follow \<^verbatim>\<open>next_step_from\<close> until there is none; each page as (first step, number of
  steps). \<open>None\<close> is a walk that has not ended within the fuel.\<close>

fun walk :: "nat \<Rightarrow> nat \<Rightarrow> int \<Rightarrow> trajectory_pages \<Rightarrow> nat \<Rightarrow> (nat \<times> nat) list option" where
  "walk 0 lm mb tp sf = None"
| "walk (Suc fuel) lm mb tp sf =
     (let shown = snd (page sf lm mb tp) in
      case next_step_from sf shown (total_steps tp) of
        None \<Rightarrow> Some [(sf, shown)]
      | Some sf' \<Rightarrow> map_option ((#) (sf, shown)) (walk fuel lm mb tp sf'))"

lemma walk_covers:
  assumes j: "join_steps dmp 0 steps [] [] = (tp_steps tp, tp_bounds tp)" and "0 < lm"
    and "1 \<le> sf" and "length steps < sf + fuel" and "0 < fuel"
  shows "\<exists>ps. walk fuel lm mb tp sf = Some ps
      \<and> concat (map (\<lambda>(a, n). take n (drop (a - 1) steps)) ps) = drop (sf - 1) steps"
  using assms(3-5)
proof (induction fuel arbitrary: sf)
  case (Suc fuel)
  let ?n = "page_steps dmp steps sf lm mb" and ?rest = "drop (sf - 1) steps"
  have shown: "snd (page sf lm mb tp) = ?n" using page_fields(1) [OF j refl] by simp
  have tot: "total_steps tp = length steps" using page_fields(2) [OF j refl] .
  have n: "?n \<le> length ?rest" "?rest \<noteq> [] \<Longrightarrow> 1 \<le> ?n"
    using greedy_le [of False mb "map (\<lambda>s. length (dmp s)) (take lm ?rest)"]
      greedy_page(1) [OF refl, of "map (\<lambda>s. length (dmp s)) (take lm ?rest)" mb] assms(2)
    by (auto simp: page_steps_def)
  show ?case
  proof (cases "sf + ?n \<le> length steps")
    case True
    with Suc.prems have "1 \<le> ?n" using n(2) by auto
    with Suc.IH [of "sf + ?n"] Suc.prems True obtain ps where ps: "walk fuel lm mb tp (sf + ?n) = Some ps"
      "concat (map (\<lambda>(a, n). take n (drop (a - 1) steps)) ps) = drop (sf + ?n - 1) steps" by auto
    have "take ?n ?rest @ drop (sf + ?n - 1) steps = ?rest"
      using Suc.prems(1) append_take_drop_id [of ?n ?rest] by (simp add: add.commute)
    with ps True show ?thesis by (simp add: shown tot next_step_from_def Let_def)
  next
    case False
    with n(1) have "?n = length ?rest" using Suc.prems(1) by (cases "sf - 1 \<le> length steps") auto
    then have "take ?n ?rest = ?rest" by simp
    moreover have "next_step_from sf ?n (length steps) = None" using False by (simp add: next_step_from_def)
    ultimately show ?thesis by (simp add: shown tot)
  qed
qed simp



text \<open>A compact printer and a stored document for the examples.\<close>

definition quoted :: "string \<Rightarrow> string" where
  "quoted s = ''\"'' @ s @ ''\"''"

fun print_json :: "json \<Rightarrow> string" where
  "print_json JNull = ''null''"
| "print_json (JBool b) = (if b then ''true'' else ''false'')"
| "print_json (JInt n) = (if n < 0 then ''-'' @ show_nat (nat (- n)) else show_nat (nat n))"
| "print_json (JFloat q) = ''0.0''"
| "print_json (JStr s) = quoted s"
| "print_json (JList xs) = ''['' @ join_with '','' (map print_json xs) @ '']''"
| "print_json (JObj kvs) = ''{'' @ join_with '','' (map (\<lambda>kv. quoted (fst kv) @ '':'' @ print_json (snd kv)) kvs) @ ''}''"

lemma print_json_compact: "compact print_json quoted"
  by (simp add: compact_def member_def [abs_def] quoted_def)

definition example_doc :: "(string \<times> json) list" where
  "example_doc = [(''v'', JInt 1), (''steps'', JList [JObj [(''id'', JInt 1)], JObj [(''id'', JInt 2)]])]"

definition example_codec :: codec where
  "example_codec = \<lparr>loads = \<lambda>_. Some (JObj example_doc), dumps = print_json, getsizeof_bytes = length,
     getsizeof_array = length\<rparr>"

definition example_pages :: trajectory_pages where
  "example_pages = \<lparr>tp_etag = Some ''e1'', tp_head = ''\"v\":1'', tp_tail = [], tp_steps = ''{\"id\":1},{\"id\":2}'',
     tp_bounds = [0, 9, 18]\<rparr>"

lemma example_loaded:
  "loads example_codec ''raw'' = Some (JObj example_doc)" "strip_provenance example_doc = Inr example_doc"
  "from_body example_codec ''raw'' (Some ''e1'') = Inr (Some example_pages)" "compact (dumps example_codec) quoted"
proof -
  show "strip_provenance example_doc = Inr example_doc" by code_simp
  show "from_body example_codec ''raw'' (Some ''e1'') = Inr (Some example_pages)" by code_simp
qed (simp_all add: example_codec_def print_json_compact)

theorem page_is_a_slice_witness:
  "fst (page 2 5 100 example_pages) = print_json (JObj [(''v'', JInt 1), (''steps'', JList [JObj [(''id'', JInt 2)]])])"
proof -
  have pg: "page 2 5 100 example_pages = (fst (page 2 5 100 example_pages), 1)" by code_simp
  have "dict_set ''steps'' (JList (take 1 (drop (2 - 1) (steps_of example_doc)))) example_doc
      = [(''v'', JInt 1), (''steps'', JList [JObj [(''id'', JInt 2)]])]" by code_simp
  with page_is_a_slice [OF example_loaded pg refl] show ?thesis by (simp add: example_codec_def)
qed


subsection \<open>Freshness\<close>

text \<open>\<open>bodies\<close> is the store's own record of which bytes an ETag of an object stands for. A cached trajectory
  was built from the bytes its ETag stands for.\<close>

definition built_from :: "codec \<Rightarrow> (cache_key \<Rightarrow> string \<Rightarrow> string) \<Rightarrow> cache_key \<Rightarrow> trajectory_pages \<Rightarrow> bool" where
  "built_from cd bodies ck tp \<longleftrightarrow>
     (\<exists>e. tp_etag tp = Some e \<and> from_body cd (bodies ck e) (Some e) = Inr (Some tp))"

lemma from_body_etag: "from_body cd body etag = Inr (Some tp) \<Longrightarrow> tp_etag tp = etag"
  by (auto simp: from_body_def Let_def split: option.splits json.splits sum.splits prod.splits)

text \<open>
  Claim C34. A page is never stale: whatever the cache holds for the session (and for others), a load that
  answers gives the trajectory of the object stored now, and none when there is no object; every entry it
  leaves in the cache was built from the bytes its ETag stands for, and the cache keeps its bounds.
\<close>

theorem load_never_stale:
  assumes ok: "lru_ok held" and built: "cache_holds lru_get (built_from cd bodies) held"
    and etags: "\<And>body e. obj = Some (body, Some e) \<Longrightarrow> body = bodies ck e"
    and run: "load_trajectory_pages cd up obj ck held = (held', res)"
  shows "lru_ok held' \<and> cache_holds lru_get (built_from cd bodies) held'
    \<and> (case res of
         Inl e \<Rightarrow> e = StorageUnavailable \<longrightarrow> \<not> up
       | Inr (found, _) \<Rightarrow> (case obj of None \<Rightarrow> found = None | Some (body, tag) \<Rightarrow> from_body cd body tag = Inr found))"
proof -
  obtain held1 cached where g: "lru_get ck held = (held1, cached)" by fastforce
  have ok1: "lru_ok held1" using lru_cache.look_inv [OF ok, of ck] by (simp add: g)
  have b1: "cache_holds lru_get (built_from cd bodies) held1"
    using lru_cache.holds_look [OF ok built, of ck] by (simp add: g)
  have b2: "cache_holds lru_get (built_from cd bodies) (lru_pop ck held1)" "lru_ok (lru_pop ck held1)"
    using lru_cache.holds_forget [OF ok1 b1] lru_cache.forget_inv [OF ok1] by blast+
  have hit: "built_from cd bodies ck tp" if "cached = Some tp" for tp
    using built [unfolded cache_holds_def, rule_format, of ck tp] g that by simp
  have put: "cache_holds lru_get (built_from cd bodies) (fst (lru_put ck tp (int (tp_nbytes cd tp)) held1))
      \<and> lru_ok (fst (lru_put ck tp (int (tp_nbytes cd tp)) held1))"
    if "obj = Some (body, Some e)" "from_body cd body (Some e) = Inr (Some tp)" for body e tp
  proof -
    have "built_from cd bodies ck tp"
      using that etags [OF that(1)] from_body_etag [OF that(2)] by (auto simp: built_from_def)
    then show ?thesis using lru_cache.holds_keep [OF ok1 b1] lru_cache.keep_inv [OF ok1] by simp
  qed
  show ?thesis
  proof (cases "get_if_changed up obj (case cached of Some tp \<Rightarrow> tp_etag tp | None \<Rightarrow> None)")
    case NotFound
    with run b2 show ?thesis
      by (auto simp: load_trajectory_pages_def g get_if_changed_def split: option.splits if_splits)
  next
    case Unavailable
    with run ok1 b1 show ?thesis
      by (auto simp: load_trajectory_pages_def g get_if_changed_def split: option.splits if_splits prod.splits)
  next
    case NotModified
    then obtain tp body e where m: "cached = Some tp" "obj = Some (body, Some e)" "tp_etag tp = Some e"
      by (auto simp: get_if_changed_def split: option.splits if_splits)
    from hit [OF m(1)] m etags [OF m(2)] have "from_body cd body (Some e) = Inr (Some tp)"
      by (auto simp: built_from_def)
    with NotModified run m ok1 b1 show ?thesis by (auto simp: load_trajectory_pages_def g)
  next
    case (Body body tag)
    then have obj: "obj = Some (body, tag)" by (auto simp: get_if_changed_def split: option.splits if_splits)
    show ?thesis
    proof (cases "from_body cd body tag")
      case (Inl e)
      with run Body ok1 b1 show ?thesis by (auto simp: load_trajectory_pages_def g)
    next
      case (Inr found)
      show ?thesis
      proof (cases found)
        case None
        with run Body Inr b2 obj show ?thesis by (auto simp: load_trajectory_pages_def g)
      next
        case (Some tp)
        have "tp_etag tp = tag" using from_body_etag Inr Some by blast
        with run Body Inr Some b2 obj put show ?thesis
          by (cases tag) (auto simp: load_trajectory_pages_def g split: if_splits)
      qed
    qed
  qed
qed

theorem load_never_stale_witness:
  "\<exists>held' hit. load_trajectory_pages example_codec True (Some (''raw'', Some ''e1'')) (''acme'', ''pi'', ''s1'')
       (new_lru 1000 4) = (held', Inr (Some example_pages, hit))
     \<and> cache_holds lru_get (built_from example_codec (\<lambda>_ _. ''raw'')) held'"
proof -
  obtain held' where run: "load_trajectory_pages example_codec True (Some (''raw'', Some ''e1''))
      (''acme'', ''pi'', ''s1'') (new_lru 1000 4) = (held', Inr (Some example_pages, False))"
    by (simp add: load_trajectory_pages_def lru_get_def new_lru_def get_if_changed_def example_loaded(3))
      (simp add: example_pages_def)
  have "cache_holds lru_get (built_from example_codec (\<lambda>_ _. ''raw'')) (new_lru 1000 4)"
    by (simp add: cache_holds_def lru_get_def new_lru_def)
  with load_never_stale [OF new_lru_ok _ _ run, of "\<lambda>_ _. ''raw''"] run show ?thesis by auto
qed

end
