(* ===== verification/Chunks.thy ===== *)
theory Chunks
  imports Prelude "HOL-Library.Monad_Syntax"
begin

section \<open>Chunking a document and putting it together again\<close>

text \<open>
  \<^verbatim>\<open>engine/ingest/chunker.py\<close> (overlapping token windows) and
  \<^verbatim>\<open>engine/shared/chunk_reconstruction.py\<close> (finding the overlap of two neighbouring chunks again, with a
  character-level fallback over the KMP prefix table, and stitching). A text is its list of code points;
  the tokenizer (\<^verbatim>\<open>tiktoken\<close>, not part of the repository) is the record \<open>tokenizer\<close> of its
  \<^verbatim>\<open>encode\<close> and \<^verbatim>\<open>decode\<close>. In the loops over the prefix table \<open>None\<close> is an \<^verbatim>\<open>IndexError\<close> or a loop that
  does not end.
\<close>

type_synonym codepoints = "nat list"

record 't tokenizer =
  encode :: "codepoints \<Rightarrow> 't list"
  decode :: "'t list \<Rightarrow> codepoints"

definition DEFAULT_CHUNK_OVERLAP :: nat where "DEFAULT_CHUNK_OVERLAP = 64"
definition DEFAULT_CHUNK_TOKENS :: int where "DEFAULT_CHUNK_TOKENS = 512"
definition MAX_INPUT_TOKENS :: int where "MAX_INPUT_TOKENS = min 8191 8192"

subsection \<open>The chunker\<close>

text \<open>\<^verbatim>\<open>str.isspace\<close> of one character, which \<^verbatim>\<open>strip()\<close> removes at both ends.\<close>

definition is_white :: "nat \<Rightarrow> bool" where
  "is_white ch \<longleftrightarrow>
     ch \<in> {9, 10, 11, 12, 13, 28, 29, 30, 31, 32, 133, 160, 5760, 8232, 8233, 8239, 8287, 12288} \<or> (8192 \<le> ch \<and> ch \<le> 8202)"

record chunk_piece =
  cp_index :: nat
  cp_content :: codepoints
  cp_token_count :: nat

datatype chunk_error = ValueErr string

text \<open>\<^verbatim>\<open>range(0, n, stride)\<close>; a stride of 0 is a ValueError.\<close>

definition py_range :: "nat \<Rightarrow> int \<Rightarrow> chunk_error + nat list" where
  "py_range n stride =
     (if stride = 0 then Inl (ValueErr ''range() arg 3 must not be zero'')
      else if stride < 0 then Inr []
      else Inr (map (\<lambda>k. k * nat stride) [0 ..< (n + nat stride - 1) div nat stride]))"

fun chunk_loop :: "('t list \<Rightarrow> codepoints) \<Rightarrow> 't list \<Rightarrow> nat \<Rightarrow> nat \<Rightarrow> nat list \<Rightarrow> chunk_piece list" where
  "chunk_loop dec tokens sz idx [] = []"
| "chunk_loop dec tokens sz idx (start # starts) =
     (let window = slice tokens start (start + sz) in
      if window = [] then []
      else \<lparr>cp_index = idx, cp_content = dec window, cp_token_count = length window\<rparr>
        # (if length tokens \<le> start + sz then [] else chunk_loop dec tokens sz (idx + 1) starts))"

definition chunk_text :: "'t tokenizer \<Rightarrow> codepoints \<Rightarrow> int \<Rightarrow> int \<Rightarrow> chunk_error + chunk_piece list" where
  "chunk_text tk txt chunk_tokens overlap =
     (if list_all is_white txt then Inr []
      else if chunk_tokens < 1 then Inl (ValueErr ''chunk_tokens must be >= 1'')
      else if overlap < 0 \<or> chunk_tokens \<le> overlap then Inl (ValueErr ''overlap must be in [0, chunk_tokens)'')
      else let sz = min chunk_tokens MAX_INPUT_TOKENS; tokens = encode tk txt in
        if tokens = [] then Inr []
        else case py_range (length tokens) (sz - overlap) of
          Inl e \<Rightarrow> Inl e
        | Inr starts \<Rightarrow> Inr (chunk_loop (decode tk) tokens (nat sz) 0 starts))"

definition count_tokens :: "'t tokenizer \<Rightarrow> codepoints \<Rightarrow> nat" where
  "count_tokens tk txt = (if txt = [] then 0 else length (encode tk txt))"

subsection \<open>Overlap in tokens\<close>

text \<open>\<^verbatim>\<open>previous[-n:] == current[:n]\<close> for \<open>n\<close> from 1 up to both lengths.\<close>

definition tokens_overlap :: "'t list \<Rightarrow> 't list \<Rightarrow> nat \<Rightarrow> bool" where
  "tokens_overlap previous current n \<longleftrightarrow> drop (length previous - n) previous = take n current"

text \<open>The first size of \<^verbatim>\<open>range(upper, 0, -1)\<close> that overlaps; 0 when there is none.\<close>

fun longest_overlap :: "'t list \<Rightarrow> 't list \<Rightarrow> nat \<Rightarrow> nat" where
  "longest_overlap previous current 0 = 0"
| "longest_overlap previous current (Suc n) =
     (if tokens_overlap previous current (Suc n) then Suc n else longest_overlap previous current n)"

definition split_chunk_overlap_tokens :: "'t tokenizer \<Rightarrow> codepoints \<Rightarrow> codepoints \<Rightarrow> nat \<Rightarrow> codepoints option \<times> codepoints" where
  "split_chunk_overlap_tokens tk previous current max_overlap =
     (let p = encode tk previous; c = encode tk current;
          n = longest_overlap p c (min (min (length p) (length c)) max_overlap)
      in if n = 0 then (None, current) else (Some (decode tk (take n c)), decode tk (drop n c)))"

definition strip_chunk_overlap_tokens :: "'t tokenizer \<Rightarrow> codepoints \<Rightarrow> codepoints \<Rightarrow> nat \<Rightarrow> codepoints" where
  "strip_chunk_overlap_tokens tk previous current max_overlap =
     snd (split_chunk_overlap_tokens tk previous current max_overlap)"

subsection \<open>Borders by the KMP prefix table\<close>

text \<open>\<^verbatim>\<open>while matched and ch != pattern[matched]: matched = prefix_lengths[matched - 1]\<close>\<close>

partial_function (option) fall_back :: "'c list \<Rightarrow> nat list \<Rightarrow> 'c \<Rightarrow> nat \<Rightarrow> nat option" where
  "fall_back pat tab ch m =
     (if m = 0 then Some 0
      else if length pat \<le> m then None
      else if ch \<noteq> pat ! m then fall_back pat tab ch (tab ! (m - 1))
      else Some m)"

definition kmp_step :: "'c list \<Rightarrow> nat list \<Rightarrow> 'c \<Rightarrow> nat \<Rightarrow> nat option" where
  "kmp_step pat tab ch m =
     do { m' \<leftarrow> fall_back pat tab ch m; Some (if ch = pat ! m' then m' + 1 else m') }"

fun prefix_loop :: "'c list \<Rightarrow> nat list \<Rightarrow> nat list \<Rightarrow> nat list option" where
  "prefix_loop pat [] tab = Some tab"
| "prefix_loop pat (i # is) tab =
     do { m \<leftarrow> kmp_step pat tab (pat ! i) (tab ! (i - 1)); prefix_loop pat is (tab[i := m]) }"

definition prefix_lengths :: "'c list \<Rightarrow> nat list option" where
  "prefix_lengths pat = prefix_loop pat [1 ..< length pat] (replicate (length pat) 0)"

text \<open>The scan of the suffix; \<open>rest\<close> is what is left of it, so the last character is the one with nothing after.\<close>

fun scan_loop :: "'c list \<Rightarrow> nat list \<Rightarrow> 'c list \<Rightarrow> nat \<Rightarrow> nat option" where
  "scan_loop pat tab [] m = Some m"
| "scan_loop pat tab (ch # rest) m =
     do { m' \<leftarrow> kmp_step pat tab ch m;
          scan_loop pat tab rest (if m' = length pat \<and> rest \<noteq> [] then tab ! (m' - 1) else m') }"

partial_function (option) collect_borders :: "nat list \<Rightarrow> nat \<Rightarrow> nat list option" where
  "collect_borders tab m =
     (if m = 0 then Some []
      else do { bs \<leftarrow> collect_borders tab (tab ! (m - 1)); Some (m # bs) })"

definition suffix_prefix_border_lengths :: "'c list \<Rightarrow> 'c list \<Rightarrow> nat list option" where
  "suffix_prefix_border_lengths previous current =
     (let max_length = min (length previous) (length current); pat = take max_length current in
      if pat = [] then Some []
      else do { tab \<leftarrow> prefix_lengths pat;
                m \<leftarrow> scan_loop pat tab (drop (length previous - max_length) previous) 0;
                collect_borders tab m })"

subsection \<open>One seam\<close>

definition REPLACEMENT_CHAR :: nat where "REPLACEMENT_CHAR = 65533"
definition MAX_BOUNDARY_REPLACEMENT_CHARS :: nat where "MAX_BOUNDARY_REPLACEMENT_CHARS = 3"

definition seam_candidates ::
  "'t tokenizer \<Rightarrow> codepoints \<Rightarrow> nat \<Rightarrow> nat \<Rightarrow> nat \<Rightarrow> nat list \<Rightarrow> (int \<times> int \<times> int \<times> int) list" where
  "seam_candidates tk current leading target expected borders =
     map (\<lambda>b. let consumed = leading + b; toks = length (encode tk (take consumed current)) in
            (\<bar>int consumed - int target\<bar>, \<bar>int toks - int expected\<bar>, - int b, int b))
       (filter (\<lambda>b. let toks = length (encode tk (take (leading + b) current)) in
            int expected - int MAX_BOUNDARY_REPLACEMENT_CHARS \<le> int toks \<and> toks \<le> expected) borders)"

text \<open>\<open>None\<close> is the ValueError for an expected overlap below 1, or a border scan that fails.\<close>

definition split_standard_chunk_overlap ::
  "'t tokenizer \<Rightarrow> codepoints \<Rightarrow> codepoints \<Rightarrow> nat \<Rightarrow> (codepoints option \<times> codepoints \<times> nat) option" where
  "split_standard_chunk_overlap tk previous current expected =
     (if expected < 1 then None
      else let p = encode tk previous; c = encode tk current in
        if length p < expected \<or> length c < expected then Some (None, current, 0)
        else if longest_overlap p c expected = expected
        then Some (Some (decode tk (take expected c)), decode tk (drop expected c), 0)
        else let trailing = length (takeWhile (\<lambda>ch. ch = REPLACEMENT_CHAR) (rev previous));
                 leading = length (takeWhile (\<lambda>ch. ch = REPLACEMENT_CHAR) current) in
          if MAX_BOUNDARY_REPLACEMENT_CHARS < trailing \<or> MAX_BOUNDARY_REPLACEMENT_CHARS < leading
          then Some (None, current, 0)
          else do {
            borders \<leftarrow> suffix_prefix_border_lengths (take (length previous - trailing) previous) (drop leading current);
            let cands = seam_candidates tk current leading (length (decode tk (take expected c))) expected borders;
            if cands = [] then Some (None, current, 0)
            else let (_, _, _, b) = Min (set cands); consumed = leading + nat b
                 in Some (Some (take consumed current), drop consumed current, trailing) })"

subsection \<open>Reconstruction\<close>

record chunk_line_span =
  line_start :: int
  line_end :: int

text \<open>\<^verbatim>\<open>len(s.splitlines())\<close>: the breaks \<^verbatim>\<open>str.splitlines\<close> knows, a CR LF pair counting once.\<close>

definition is_line_break :: "nat \<Rightarrow> bool" where
  "is_line_break ch \<longleftrightarrow> ch \<in> {10, 11, 12, 13, 28, 29, 30, 133, 8232, 8233}"

fun splitlines_len :: "bool \<Rightarrow> codepoints \<Rightarrow> nat" where
  "splitlines_len open_line [] = (if open_line then 1 else 0)"
| "splitlines_len open_line (ch # cs) =
     (if ch = 13 \<and> cs \<noteq> [] \<and> hd cs = 10 then splitlines_len True cs
      else if is_line_break ch then Suc (splitlines_len False cs)
      else splitlines_len True cs)"

definition line_count :: "codepoints \<Rightarrow> nat" where
  "line_count s = (let n = splitlines_len False s in if n = 0 then 1 else n)"

definition newlines :: "codepoints \<Rightarrow> nat" where
  "newlines s = length (filter (\<lambda>ch. ch = 10) s)"

definition trim_last :: "nat \<Rightarrow> codepoints list \<Rightarrow> codepoints list" where
  "trim_last n parts =
     (if n = 0 then parts else butlast parts @ [take (length (last parts) - n) (last parts)])"

fun rebuild_loop ::
  "'t tokenizer \<Rightarrow> codepoints \<Rightarrow> nat option \<Rightarrow> codepoints list \<Rightarrow> codepoints \<Rightarrow> codepoints list \<Rightarrow> int \<Rightarrow> chunk_line_span list
   \<Rightarrow> (codepoints list \<times> chunk_line_span list) option" where
  "rebuild_loop tk sep expected [] previous parts nl spans = Some (parts, spans)"
| "rebuild_loop tk sep expected (current # rest) previous parts nl spans =
     do {
       seam \<leftarrow> (case expected of None \<Rightarrow> Some (None, current, 0)
                | Some n \<Rightarrow> split_standard_chunk_overlap tk previous current n);
       let (parts', start, nl') = (case seam of
           (None, _, _) \<Rightarrow>
             (parts @ [sep, current], nl + int (newlines sep) + 1, nl + int (newlines sep) + int (newlines current))
         | (Some shared, fresh, trim) \<Rightarrow>
             (trim_last trim parts @ [fresh], nl + 1 - int (newlines shared), nl + int (newlines fresh)));
       rebuild_loop tk sep expected rest current parts' nl'
         (spans @ [\<lparr>line_start = start, line_end = start + int (line_count current) - 1\<rparr>]) }"

definition reconstruct_chunk_text_with_spans ::
  "'t tokenizer \<Rightarrow> codepoints \<Rightarrow> nat option \<Rightarrow> codepoints list \<Rightarrow> (codepoints \<times> chunk_line_span list) option" where
  "reconstruct_chunk_text_with_spans tk sep expected contents =
     (case contents of
        [] \<Rightarrow> Some ([], [])
      | first # rest \<Rightarrow>
          do { (parts, spans) \<leftarrow> rebuild_loop tk sep expected rest first [first] (int (newlines first))
                 [\<lparr>line_start = 1, line_end = int (line_count first)\<rparr>];
               Some (concat parts, spans) })"

definition reconstruct_chunk_text :: "'t tokenizer \<Rightarrow> codepoints \<Rightarrow> nat option \<Rightarrow> codepoints list \<Rightarrow> codepoints option" where
  "reconstruct_chunk_text tk sep expected contents =
     map_option fst (reconstruct_chunk_text_with_spans tk sep expected contents)"

end
