(* ===== verification/ChunkProperties.thy ===== *)
theory ChunkProperties
  imports Chunks
begin

section \<open>Properties of chunking and reconstruction\<close>

text \<open>
  The border scan finds exactly the shared borders (against the direct definition), always ends and never
  reads outside its table; the windows of the chunker cover the tokens with the configured overlap; and
  stitching the chunks of a text gives the text back.
\<close>

subsection \<open>The prefix table\<close>

text \<open>\<open>m\<close> is the length of the longest prefix of the pattern that ends the text \<open>u\<close>.\<close>

definition longest :: "'c list \<Rightarrow> 'c list \<Rightarrow> nat \<Rightarrow> bool" where
  "longest pat u m \<longleftrightarrow>
     m \<le> length pat \<and> suffix (take m pat) u \<and> (\<forall>j \<le> length pat. suffix (take j pat) u \<longrightarrow> j \<le> m)"

definition table_upto :: "'c list \<Rightarrow> nat list \<Rightarrow> nat \<Rightarrow> bool" where
  "table_upto pat tab n \<longleftrightarrow>
     length tab = length pat \<and> n \<le> length pat \<and> (\<forall>i < n. longest pat (drop 1 (take (Suc i) pat)) (tab ! i))"

lemma longest_le: "longest pat u m \<Longrightarrow> m \<le> length u"
  by (auto simp: longest_def dest: suffix_length_le)

lemma table_entry:
  assumes "table_upto pat tab n" and "0 < m" and "m \<le> n"
  shows "longest pat (drop 1 (take m pat)) (tab ! (m - 1))" and "tab ! (m - 1) < m"
proof -
  show *: "longest pat (drop 1 (take m pat)) (tab ! (m - 1))"
    using assms by (auto simp: table_upto_def dest!: spec [of _ "m - 1"])
  show "tab ! (m - 1) < m" using longest_le [OF *] assms(2) by simp
qed

text \<open>The prefixes that end \<open>u\<close> and are shorter than one that does are its own proper borders.\<close>

lemma shorter_border:
  assumes "suffix (take m pat) u" and "j < m" and "m \<le> length pat"
  shows "suffix (take j pat) u \<longleftrightarrow> suffix (take j pat) (drop 1 (take m pat))"
proof
  have tail: "suffix (drop 1 (take m pat)) u"
    using suffix_drop suffix_order.trans assms(1) by blast
  show "suffix (take j pat) (drop 1 (take m pat)) \<Longrightarrow> suffix (take j pat) u"
    using tail suffix_order.trans by blast
  assume "suffix (take j pat) u"
  moreover have "length (take j pat) \<le> length (drop 1 (take m pat))" using assms by simp
  ultimately show "suffix (take j pat) (drop 1 (take m pat))"
    using tail suffix_length_suffix by blast
qed

lemma next_border:
  assumes "table_upto pat tab n" and "0 < m" and "m \<le> n" and "suffix (take m pat) u"
  shows "suffix (take (tab ! (m - 1)) pat) u"
    and "j < m \<Longrightarrow> suffix (take j pat) u \<Longrightarrow> j \<le> tab ! (m - 1)"
proof -
  note e = table_entry [OF assms(1-3)]
  have m: "m \<le> length pat" using assms(1,3) by (simp add: table_upto_def)
  show "suffix (take (tab ! (m - 1)) pat) u"
    using shorter_border [OF assms(4) e(2) m] e(1) by (simp add: longest_def)
  show "j < m \<Longrightarrow> suffix (take j pat) u \<Longrightarrow> j \<le> tab ! (m - 1)"
    using shorter_border [OF assms(4) _ m, of j] e(1) m by (auto simp: longest_def)
qed

lemma fall_back_spec:
  assumes "table_upto pat tab n" and "m \<le> n" and "m < length pat" and "suffix (take m pat) u"
    and "\<And>j. j < length pat \<Longrightarrow> suffix (take j pat) u \<Longrightarrow> pat ! j = ch \<Longrightarrow> j \<le> m"
  shows "\<exists>m'. fall_back pat tab ch m = Some m' \<and> m' \<le> m \<and> suffix (take m' pat) u
      \<and> (m' = 0 \<or> pat ! m' = ch)
      \<and> (\<forall>j < length pat. suffix (take j pat) u \<longrightarrow> pat ! j = ch \<longrightarrow> j \<le> m')"
  using assms(2-5)
proof (induction m rule: less_induct)
  case (less m)
  show ?case
  proof (cases "m = 0 \<or> pat ! m = ch")
    case True
    with less.prems show ?thesis by (auto simp: fall_back.simps [of pat tab ch m])
  next
    case False
    let ?t = "tab ! (m - 1)"
    have t: "?t < m" using table_entry(2) [OF assms(1) _ less.prems(1)] False by simp
    have "j \<le> ?t" if "j < length pat" "suffix (take j pat) u" "pat ! j = ch" for j
    proof -
      have "j \<noteq> m" using that(3) False by auto
      then have "j < m" using less.prems(4) [OF that] by simp
      with that(2) show ?thesis using next_border(2) [OF assms(1) _ less.prems(1,3)] False by simp
    qed
    then obtain m' where "fall_back pat tab ch ?t = Some m' \<and> m' \<le> ?t \<and> suffix (take m' pat) u
      \<and> (m' = 0 \<or> pat ! m' = ch)
      \<and> (\<forall>j < length pat. suffix (take j pat) u \<longrightarrow> pat ! j = ch \<longrightarrow> j \<le> m')"
      using less.IH [OF t] next_border(1) [OF assms(1) _ less.prems(1,3)] less.prems(1,2) t False by auto
    with t False less.prems(2) show ?thesis by (auto simp: fall_back.simps [of pat tab ch m])
  qed
qed

lemma prefix_ends_snoc:
  assumes "j \<le> length pat"
  shows "suffix (take j pat) (u @ [ch]) \<longleftrightarrow> j = 0 \<or> (pat ! (j - 1) = ch \<and> suffix (take (j - 1) pat) u)"
proof (cases j)
  case (Suc i)
  with assms have "take j pat = take i pat @ [pat ! i]" by (simp add: take_Suc_conv_app_nth)
  with Suc show ?thesis by (auto simp: suffix_snoc)
qed simp

lemma kmp_step_spec:
  assumes "table_upto pat tab n" and "m \<le> n" and "m < length pat" and "longest pat u m"
  shows "\<exists>m'. kmp_step pat tab ch m = Some m' \<and> longest pat (u @ [ch]) m'"
proof -
  obtain k where k: "fall_back pat tab ch m = Some k" "k \<le> m" "suffix (take k pat) u"
    "k = 0 \<or> pat ! k = ch" "\<And>j. j < length pat \<Longrightarrow> suffix (take j pat) u \<Longrightarrow> pat ! j = ch \<Longrightarrow> j \<le> k"
    using fall_back_spec [OF assms(1-3), of u ch] assms(4) by (auto simp: longest_def)
  let ?m = "if ch = pat ! k then k + 1 else k"
  have "longest pat (u @ [ch]) ?m"
    unfolding longest_def
  proof (intro conjI allI impI)
    show "?m \<le> length pat" using k(2) assms(3) by auto
    show "suffix (take ?m pat) (u @ [ch])"
      using prefix_ends_snoc [of ?m pat u ch] k assms(3) by auto
    fix j assume j: "j \<le> length pat" "suffix (take j pat) (u @ [ch])"
    show "j \<le> ?m"
    proof (cases "j = 0")
      case False
      with j have "pat ! (j - 1) = ch" "suffix (take (j - 1) pat) u"
        using prefix_ends_snoc [OF j(1), of u ch] by blast+
      with k(5) [of "j - 1"] j(1) False have "j - 1 \<le> k" by simp
      with False k(4) \<open>pat ! (j - 1) = ch\<close> show ?thesis by (cases "j - 1 = k") auto
    qed simp
  qed
  with k(1) show ?thesis by (auto simp: kmp_step_def)
qed

lemma prefix_loop_spec:
  assumes "table_upto pat tab i" and "1 \<le> i" and "i \<le> length pat"
  shows "\<exists>tab'. prefix_loop pat [i ..< length pat] tab = Some tab' \<and> table_upto pat tab' (length pat)"
  using assms
proof (induction "length pat - i" arbitrary: i tab)
  case (Suc d)
  then have i: "i < length pat" by simp
  let ?u = "drop 1 (take i pat)"
  have m: "longest pat ?u (tab ! (i - 1))" "tab ! (i - 1) < i"
    using table_entry [OF Suc.prems(1), of i] Suc.prems(2) by auto
  obtain m' where m': "kmp_step pat tab (pat ! i) (tab ! (i - 1)) = Some m'" "longest pat (?u @ [pat ! i]) m'"
    using kmp_step_spec [OF Suc.prems(1) _ _ m(1)] m(2) i by fastforce
  have "?u @ [pat ! i] = drop 1 (take (Suc i) pat)"
    using Suc.prems(2) i by (cases pat; cases i) (auto simp: take_Suc_conv_app_nth)
  with m'(2) Suc.prems(1) i have "table_upto pat (tab[i := m']) (Suc i)"
    by (auto simp: table_upto_def less_Suc_eq)
  then obtain tab' where "prefix_loop pat [Suc i ..< length pat] (tab[i := m']) = Some tab'"
    "table_upto pat tab' (length pat)"
    using Suc.hyps(1) [of "Suc i"] Suc.hyps(2) i by force
  with m'(1) i show ?case by (simp add: upt_conv_Cons)
qed simp

lemma prefix_lengths_spec:
  assumes "pat \<noteq> []"
  shows "\<exists>tab. prefix_lengths pat = Some tab \<and> table_upto pat tab (length pat)"
proof -
  have "table_upto pat (replicate (length pat) 0) 1"
    using assms by (cases pat) (auto simp: table_upto_def longest_def Suc_le_eq dest: suffix_length_le)
  then show ?thesis unfolding prefix_lengths_def
    by (rule prefix_loop_spec) (use assms in \<open>auto simp: Suc_le_eq\<close>)
qed

subsection \<open>The scan and the borders\<close>

lemma scan_loop_spec:
  assumes "table_upto pat tab (length pat)" and "length (u @ rest) \<le> length pat" and "longest pat u m"
  shows "\<exists>m'. scan_loop pat tab rest m = Some m' \<and> longest pat (u @ rest) m'"
  using assms(2,3)
proof (induction rest arbitrary: u m)
  case (Cons ch rest)
  have "m < length pat" using longest_le [OF Cons.prems(2)] Cons.prems(1) by simp
  then obtain m' where m': "kmp_step pat tab ch m = Some m'" "longest pat (u @ [ch]) m'"
    using kmp_step_spec [OF assms(1) _ _ Cons.prems(2)] by fastforce
  have "m' = length pat \<Longrightarrow> rest = []" using longest_le [OF m'(2)] Cons.prems(1) by (cases rest) auto
  with m' Cons.IH [of "u @ [ch]" m'] Cons.prems(1) show ?case by auto
qed simp

lemma collect_borders_spec:
  assumes "table_upto pat tab (length pat)" and "m \<le> length pat" and "suffix (take m pat) s"
  shows "collect_borders tab m = Some (rev (filter (\<lambda>k. suffix (take k pat) s) [1 ..< Suc m]))"
  using assms(2,3)
proof (induction m rule: less_induct)
  case (less m)
  show ?case
  proof (cases "m = 0")
    case True
    then show ?thesis by (simp add: collect_borders.simps [of tab 0])
  next
    case False
    define t where "t = tab ! (m - 1)"
    let ?p = "\<lambda>k. suffix (take k pat) s"
    note b = next_border [OF assms(1) _ less.prems, folded t_def]
    have t: "t < m" using table_entry(2) [OF assms(1) _ less.prems(1)] False by (simp add: t_def)
    have "\<not> ?p k" if "k \<in> set [Suc t ..< m]" for k using b(2) [of k] False that by auto
    then have none: "filter ?p [Suc t ..< m] = []" by (simp add: filter_empty_conv)
    have "[1 ..< Suc m] = [1 ..< Suc t] @ [Suc t ..< m] @ [m]"
      using t upt_add_eq_append [of 1 "Suc t" "m - Suc t"] by simp
    then have "rev (filter ?p [1 ..< Suc m]) = m # rev (filter ?p [1 ..< Suc t])"
      by (simp add: none less.prems(2) del: upt_Suc)
    with less.IH [OF t] t b(1) False less.prems(1) show ?thesis
      by (subst collect_borders.simps, unfold t_def [symmetric]) (simp del: upt_Suc)
  qed
qed

lemma ends_iff_drop:
  "length xs \<le> length ys \<Longrightarrow> suffix xs ys \<longleftrightarrow> drop (length ys - length xs) ys = xs"
  by (metis append_take_drop_id suffix_def suffix_drop append_eq_append_conv length_drop diff_diff_cancel)

text \<open>
  Claim C36. The linear border scan is right on every pair of strings: it always ends, never reads outside its
  table, and returns exactly the lengths of the non-empty strings that both end \<^verbatim>\<open>previous\<close> and begin
  \<^verbatim>\<open>current\<close>, the longest first.
\<close>

theorem border_lengths_correct:
  "suffix_prefix_border_lengths previous current = Some (rev (filter
     (\<lambda>k. drop (length previous - k) previous = take k current)
     [1 ..< Suc (min (length previous) (length current))]))"
proof -
  let ?n = "min (length previous) (length current)"
  let ?pat = "take ?n current" and ?s = "drop (length previous - ?n) previous"
  show ?thesis
  proof (cases "?pat = []")
    case True
    then have "?n = 0" by auto
    with True show ?thesis unfolding suffix_prefix_border_lengths_def Let_def by simp
  next
    case False
    obtain tab where tab: "prefix_lengths ?pat = Some tab" "table_upto ?pat tab (length ?pat)"
      using prefix_lengths_spec [OF False] by blast
    have "longest ?pat [] 0" by (auto simp: longest_def)
    then obtain m where m: "scan_loop ?pat tab ?s 0 = Some m" "longest ?pat ?s m"
      using scan_loop_spec [OF tab(2), of "[]" ?s 0] by auto
    have max: "m \<le> ?n" "\<And>j. j \<le> ?n \<Longrightarrow> suffix (take j ?pat) ?s \<Longrightarrow> j \<le> m" "suffix (take m ?pat) ?s"
      using m(2) by (auto simp: longest_def)
    have eq: "suffix (take k ?pat) ?s \<longleftrightarrow> drop (length previous - k) previous = take k current" if "k \<le> ?n" for k
    proof -
      have pat: "take k ?pat = take k current" using that by (simp add: min_def)
      have "suffix (take k current) ?s \<longleftrightarrow> drop (length ?s - length (take k current)) ?s = take k current"
        by (rule ends_iff_drop) (use that in auto)
      moreover have "drop (length ?s - length (take k current)) ?s = drop (length previous - k) previous"
        using that by simp
      ultimately show ?thesis unfolding pat by simp
    qed
    have "filter (\<lambda>k. suffix (take k ?pat) ?s) [Suc m ..< Suc ?n] = []"
      unfolding filter_empty_conv
    proof (intro ballI notI)
      fix x assume "x \<in> set [Suc m ..< Suc ?n]" "suffix (take x ?pat) ?s"
      moreover from this(1) have "x \<le> ?n" "m < x" by (auto simp del: upt_Suc)
      ultimately show False using max(2) [of x] by linarith
    qed
    moreover have "[1 ..< Suc ?n] = [1 ..< Suc m] @ [Suc m ..< Suc ?n]"
      using max(1) upt_add_eq_append [of 1 "Suc m" "?n - m"] by simp
    ultimately have "filter (\<lambda>k. suffix (take k ?pat) ?s) [1 ..< Suc ?n]
        = filter (\<lambda>k. suffix (take k ?pat) ?s) [1 ..< Suc m]" by (simp only: filter_append append_Nil2)
    moreover have "filter (\<lambda>k. suffix (take k ?pat) ?s) [1 ..< Suc ?n]
        = filter (\<lambda>k. drop (length previous - k) previous = take k current) [1 ..< Suc ?n]"
      by (rule filter_cong [OF refl], rule eq) auto
    ultimately show ?thesis
      using collect_borders_spec [OF tab(2) _ max(3)] max(1) False tab(1) m(1)
      unfolding suffix_prefix_border_lengths_def Let_def by simp
  qed
qed


subsection \<open>The windows of the chunker\<close>

definition window :: "'t list \<Rightarrow> nat \<Rightarrow> nat \<Rightarrow> nat \<Rightarrow> 't list" where
  "window tokens sz d k = take sz (drop (k * d) tokens)"

text \<open>\<open>K\<close> is the last window: the first that reaches the end of the tokens.\<close>

definition last_window :: "nat \<Rightarrow> nat \<Rightarrow> nat \<Rightarrow> nat \<Rightarrow> bool" where
  "last_window n sz d K \<longleftrightarrow> n \<le> K * d + sz \<and> (\<forall>j < K. j * d + sz < n)"

lemma last_window_ex:
  assumes "0 < d"
  shows "\<exists>K. last_window n sz d K"
proof -
  have "n \<le> n * d + sz" using assms by (simp add: trans_le_add1)
  then show ?thesis
    using LeastI [of "\<lambda>K. n \<le> K * d + sz" n] not_less_Least [of _ "\<lambda>K. n \<le> K * d + sz"]
    unfolding last_window_def by (intro exI [of _ "LEAST K. n \<le> K * d + sz"]) (auto simp: not_le)
qed

lemma last_window_start:
  assumes "last_window n sz d K" and "0 < n" and "d \<le> sz"
  shows "K * d < n"
proof (cases K)
  case (Suc j)
  with assms(1) have "j * d + sz < n" by (simp add: last_window_def)
  with Suc assms(3) show ?thesis by simp
qed (use assms in simp)

lemma chunk_loop_windows:
  assumes "last_window (length tokens) sz d K" and "0 < length tokens" and "0 < d" and "d \<le> sz"
    and "k \<le> K" and "K < N"
  shows "chunk_loop dec tokens sz k (map (\<lambda>k. k * d) [k ..< N]) = map (\<lambda>k. \<lparr>cp_index = k,
      cp_content = dec (window tokens sz d k), cp_token_count = length (window tokens sz d k)\<rparr>) [k ..< Suc K]"
  using assms(5)
proof (induction "K - k" arbitrary: k)
  case 0
  then have k: "k = K" by simp
  have "[K ..< N] = K # [Suc K ..< N]" using assms(6) by (simp add: upt_conv_Cons)
  moreover have "window tokens sz d K \<noteq> []"
    using last_window_start [OF assms(1,2,4)] assms(3,4) by (simp add: window_def)
  ultimately show ?case
    using assms(1) by (simp add: k window_def slice_def last_window_def)
next
  case (Suc m)
  then have k: "k < K" by simp
  then have "[k ..< N] = k # [Suc k ..< N]" using assms(6) by (simp add: upt_conv_Cons)
  moreover have less: "k * d + sz < length tokens" using assms(1) k by (simp add: last_window_def)
  moreover have "window tokens sz d k \<noteq> []" using less assms(3,4) by (simp add: window_def)
  moreover have "[k ..< Suc K] = k # [Suc k ..< Suc K]" using k by (simp add: upt_conv_Cons)
  ultimately show ?case
    using Suc.hyps(1) [of "Suc k"] Suc.hyps(2) k by (simp add: window_def slice_def del: upt_Suc)
qed

lemma chunk_text_windows:
  assumes "\<not> list_all is_white txt" and "encode tk txt \<noteq> []" and "0 \<le> ov" and "ov < ct" and "ct \<le> MAX_INPUT_TOKENS"
  shows "\<exists>K. last_window (length (encode tk txt)) (nat ct) (nat (ct - ov)) K
      \<and> chunk_text tk txt ct ov = Inr (map (\<lambda>k. \<lparr>cp_index = k,
           cp_content = decode tk (window (encode tk txt) (nat ct) (nat (ct - ov)) k),
           cp_token_count = length (window (encode tk txt) (nat ct) (nat (ct - ov)) k)\<rparr>) [0 ..< Suc K])"
proof -
  let ?n = "length (encode tk txt)" and ?d = "nat (ct - ov)"
  have d: "0 < ?d" "?d \<le> nat ct" "0 < ?n" using assms by auto
  then obtain K where K: "last_window ?n (nat ct) ?d K" using last_window_ex by blast
  have "K * ?d < ?n" using last_window_start [OF K d(3,2)] .
  then have "K * ?d + ?d \<le> ?n + ?d - 1" by linarith
  then have "Suc K * ?d \<le> ?n + ?d - 1" by simp
  then have "Suc K \<le> (?n + ?d - 1) div ?d" using d(1) by (simp add: less_eq_div_iff_mult_less_eq)
  with chunk_loop_windows [OF K d(3,1,2), of 0] K assms show ?thesis
    by (intro exI [of _ K]) (simp add: chunk_text_def Let_def py_range_def min_absorb1 del: upt_Suc)
qed

subsection \<open>Stitching\<close>

text \<open>The tokenizer is clean on a text when decoding its tokens gives the text, every run of them is encoded
  as itself again, and decoding splits where the tokens split (no window cuts through a character).\<close>

definition clean :: "'t tokenizer \<Rightarrow> codepoints \<Rightarrow> bool" where
  "clean tk txt \<longleftrightarrow>
     decode tk (encode tk txt) = txt
     \<and> (\<forall>a b c. encode tk txt = a @ b @ c \<longrightarrow> encode tk (decode tk b) = b)
     \<and> (\<forall>a b c e. encode tk txt = a @ b @ c @ e \<longrightarrow> decode tk (b @ c) = decode tk b @ decode tk c)"

lemma clean_window:
  assumes "clean tk txt"
  shows "encode tk (decode tk (take m (drop k (encode tk txt)))) = take m (drop k (encode tk txt))"
proof -
  have "encode tk txt = take k (encode tk txt) @ take m (drop k (encode tk txt)) @ drop m (drop k (encode tk txt))"
    by (metis append_take_drop_id)
  with assms show ?thesis unfolding clean_def by blast
qed

lemma clean_append:
  assumes "clean tk txt"
  shows "decode tk (take (a + m) (encode tk txt))
    = decode tk (take a (encode tk txt)) @ decode tk (take m (drop a (encode tk txt)))"
proof -
  let ?t = "encode tk txt"
  have "?t = [] @ take a ?t @ take m (drop a ?t) @ drop m (drop a ?t)" by (metis append_Nil append_take_drop_id)
  with assms have "decode tk (take a ?t @ take m (drop a ?t)) = decode tk (take a ?t) @ decode tk (take m (drop a ?t))"
    unfolding clean_def by blast
  then show ?thesis by (simp add: take_add)
qed

lemma seam_of_windows:
  assumes "clean tk txt" and "k * (sz - ov) + sz < length (encode tk txt)" and "1 \<le> ov" and "ov < sz"
  shows "split_standard_chunk_overlap tk (decode tk (window (encode tk txt) sz (sz - ov) k))
      (decode tk (window (encode tk txt) sz (sz - ov) (Suc k))) ov
    = Some (Some (decode tk (take ov (window (encode tk txt) sz (sz - ov) (Suc k)))),
            decode tk (take (sz - ov) (drop (k * (sz - ov) + sz) (encode tk txt))), 0)"
proof -
  let ?t = "encode tk txt" and ?d = "sz - ov"
  let ?p = "window ?t sz ?d k" and ?c = "window ?t sz ?d (Suc k)"
  have enc: "encode tk (decode tk ?p) = ?p" "encode tk (decode tk ?c) = ?c"
    using clean_window [OF assms(1)] by (simp_all add: window_def)
  have start: "Suc k * ?d + ov = k * ?d + sz" using assms(4) by simp
  have len: "length ?p = sz" "ov \<le> length ?c"
    using assms(2,4) start by (auto simp: window_def)
  have "drop (length ?p - ov) ?p = take ov ?c"
    using len(1) assms(4) by (simp add: window_def drop_take add.commute)
  then have "tokens_overlap ?p ?c ov" by (simp add: tokens_overlap_def)
  then have lo: "longest_overlap ?p ?c ov = ov" by (cases ov) simp_all
  have "drop ov ?c = take ?d (drop (k * ?d + sz) ?t)"
    using start by (simp add: window_def drop_take add.commute)
  then show ?thesis
    using assms(3,4) len lo by (simp add: split_standard_chunk_overlap_def enc Let_def)
qed

lemma rebuild_windows:
  assumes cl: "clean tk txt" and ov: "1 \<le> ov" "ov < sz" and K: "last_window (length (encode tk txt)) sz (sz - ov) K"
    and "k \<le> K" and "concat parts = decode tk (take (k * (sz - ov) + sz) (encode tk txt))"
  shows "\<exists>parts' spans'. rebuild_loop tk sep (Some ov)
      (map (\<lambda>k. decode tk (window (encode tk txt) sz (sz - ov) k)) [Suc k ..< Suc K])
      (decode tk (window (encode tk txt) sz (sz - ov) k)) parts nl spans = Some (parts', spans')
      \<and> concat parts' = txt \<and> length spans' = length spans + (K - k)"
  using assms(5,6)
proof (induction "K - k" arbitrary: k parts nl spans)
  case 0
  then have "length (encode tk txt) \<le> k * (sz - ov) + sz" using K by (simp add: last_window_def)
  with 0 cl show ?case by (simp add: clean_def)
next
  case (Suc m)
  then have k: "k < K" by simp
  let ?t = "encode tk txt" and ?d = "sz - ov"
  have less: "k * ?d + sz < length ?t" using K k by (simp add: last_window_def)
  note seam = seam_of_windows [OF cl less ov]
  have next_parts: "concat (parts @ [decode tk (take ?d (drop (k * ?d + sz) ?t))])
      = decode tk (take (Suc k * ?d + sz) ?t)"
  proof -
    have "Suc k * ?d + sz = (k * ?d + sz) + ?d" by simp
    then show ?thesis using Suc.prems(2) clean_append [OF cl, of "k * ?d + sz" ?d] by (simp only: concat_append) simp
  qed
  have upt: "[Suc k ..< Suc K] = Suc k # [Suc (Suc k) ..< Suc K]" using k by (simp add: upt_conv_Cons)
  have IH: "\<exists>parts' spans'. rebuild_loop tk sep (Some ov)
      (map (\<lambda>k. decode tk (window ?t sz ?d k)) [Suc (Suc k) ..< Suc K]) (decode tk (window ?t sz ?d (Suc k)))
      (parts @ [decode tk (take ?d (drop (k * ?d + sz) ?t))]) nl' spans1 = Some (parts', spans')
      \<and> concat parts' = txt \<and> length spans' = length spans1 + (K - Suc k)" for nl' spans1
    by (rule Suc.hyps(1) [OF _ _ next_parts]) (use Suc.hyps(2) k in auto)
  show ?case
    unfolding upt list.map rebuild_loop.simps option.case seam bind.bind_lunit Let_def prod.case trim_last_def
    using IH [of "nl + int (newlines (decode tk (take ?d (drop (k * ?d + sz) ?t))))"
        "spans @ [\<lparr>line_start = nl + 1 - int (newlines (decode tk (take ov (window ?t sz ?d (Suc k))))),
          line_end = nl + 1 - int (newlines (decode tk (take ov (window ?t sz ?d (Suc k)))))
            + int (line_count (decode tk (window ?t sz ?d (Suc k)))) - 1\<rparr>]"] k
    by (auto simp del: upt_Suc)
qed

text \<open>
  Chunking loses nothing: for a text that is not blank, any window of at most 8191 tokens and any
  overlap from one token up to less than the window, the chunker returns numbered, non-empty chunks of at
  most a window each, and stitching them together, which finds every overlap again from the chunk texts
  alone, gives the text back exactly, with one line span per chunk. (The tokenizer must be clean on the
  text: no window cuts a character or re-encodes differently.)
\<close>

theorem reconstruct_chunks:
  assumes "clean tk txt" and "\<not> list_all is_white txt" and "encode tk txt \<noteq> []"
    and "1 \<le> ov" and "ov < ct" and "ct \<le> MAX_INPUT_TOKENS"
  shows "\<exists>pieces spans. chunk_text tk txt ct ov = Inr pieces
    \<and> map cp_index pieces = [0 ..< length pieces]
    \<and> (\<forall>p \<in> set pieces. 0 < cp_token_count p \<and> int (cp_token_count p) \<le> ct)
    \<and> reconstruct_chunk_text_with_spans tk sep (Some (nat ov)) (map cp_content pieces) = Some (txt, spans)
    \<and> length spans = length pieces"
proof -
  let ?t = "encode tk txt" and ?sz = "nat ct" and ?ov = "nat ov"
  have d: "nat (ct - ov) = ?sz - ?ov" "1 \<le> ?ov" "?ov < ?sz" using assms by (auto simp: nat_diff_distrib)
  obtain K where K: "last_window (length ?t) ?sz (?sz - ?ov) K"
    and ch: "chunk_text tk txt ct ov = Inr (map (\<lambda>k. \<lparr>cp_index = k, cp_content = decode tk (window ?t ?sz (?sz - ?ov) k),
           cp_token_count = length (window ?t ?sz (?sz - ?ov) k)\<rparr>) [0 ..< Suc K])"
    using chunk_text_windows [OF assms(2,3) _ assms(5,6)] assms(4) unfolding d by auto
  let ?ps = "map (\<lambda>k. \<lparr>cp_index = k, cp_content = decode tk (window ?t ?sz (?sz - ?ov) k),
           cp_token_count = length (window ?t ?sz (?sz - ?ov) k)\<rparr>) [0 ..< Suc K]"
  have start: "K * (?sz - ?ov) < length ?t" by (rule last_window_start [OF K]) (use assms(3) in auto)
  have "0 < length (window ?t ?sz (?sz - ?ov) k)" if "k < Suc K" for k
  proof -
    have "k * (?sz - ?ov) \<le> K * (?sz - ?ov)" using that by (intro mult_le_mono1) simp
    with start have "k * (?sz - ?ov) < length ?t" by linarith
    with d(3) show ?thesis unfolding window_def by simp
  qed
  then have pieces: "map cp_index ?ps = [0 ..< length ?ps]"
    "\<forall>p \<in> set ?ps. 0 < cp_token_count p \<and> int (cp_token_count p) \<le> ct"
    using assms(4,5) by (auto simp: comp_def window_def simp del: upt_Suc)
  have contents: "map cp_content ?ps = decode tk (window ?t ?sz (?sz - ?ov) 0)
      # map (\<lambda>k. decode tk (window ?t ?sz (?sz - ?ov) k)) [Suc 0 ..< Suc K]"
    by (simp add: comp_def upt_conv_Cons del: upt_Suc)
  obtain parts spans where run: "rebuild_loop tk sep (Some ?ov)
      (map (\<lambda>k. decode tk (window ?t ?sz (?sz - ?ov) k)) [Suc 0 ..< Suc K])
      (decode tk (window ?t ?sz (?sz - ?ov) 0)) [decode tk (window ?t ?sz (?sz - ?ov) 0)]
      (int (newlines (decode tk (window ?t ?sz (?sz - ?ov) 0))))
      [\<lparr>line_start = 1, line_end = int (line_count (decode tk (window ?t ?sz (?sz - ?ov) 0)))\<rparr>] = Some (parts, spans)"
    "concat parts = txt" "length spans = Suc K"
    using rebuild_windows [OF assms(1) d(2,3) K, of 0 "[decode tk (window ?t ?sz (?sz - ?ov) 0)]" sep
        "int (newlines (decode tk (window ?t ?sz (?sz - ?ov) 0)))"
        "[\<lparr>line_start = 1, line_end = int (line_count (decode tk (window ?t ?sz (?sz - ?ov) 0)))\<rparr>]"]
    by (auto simp: window_def simp del: upt_Suc)
  show ?thesis
    by (intro exI [of _ ?ps] exI [of _ spans] conjI ch pieces)
      (simp_all only: reconstruct_chunk_text_with_spans_def contents list.case run(1-3) bind.bind_lunit
        prod.case length_map length_upt diff_zero)
qed

definition codepoint_tokenizer :: "nat tokenizer" where
  "codepoint_tokenizer = \<lparr>encode = \<lambda>t. t, decode = \<lambda>t. t\<rparr>"

theorem reconstruct_chunks_witness:
  "\<exists>pieces spans. chunk_text codepoint_tokenizer [72, 101, 108, 108, 111, 33] 3 1 = Inr pieces
    \<and> map cp_index pieces = [0 ..< length pieces]
    \<and> (\<forall>p \<in> set pieces. 0 < cp_token_count p \<and> int (cp_token_count p) \<le> 3)
    \<and> reconstruct_chunk_text_with_spans codepoint_tokenizer [10, 10] (Some (nat 1)) (map cp_content pieces)
      = Some ([72, 101, 108, 108, 111, 33], spans)
    \<and> length spans = length pieces"
  by (rule reconstruct_chunks) (simp_all add: codepoint_tokenizer_def clean_def is_white_def MAX_INPUT_TOKENS_def)

text \<open>The cap is applied after the overlap is checked against the window asked for: an overlap between the
  cap and that window makes the stride negative, and a text comes back as no chunks at all.\<close>

lemma capped_window_loses_text:
  assumes "MAX_INPUT_TOKENS < ov" and "ov < ct" and "\<not> list_all is_white txt"
  shows "chunk_text tk txt ct ov = Inr []"
  using assms by (simp add: chunk_text_def py_range_def Let_def MAX_INPUT_TOKENS_def)

end
