(* ===== verification/GraphTables.thy ===== *)
theory GraphTables
  imports Json
begin

section \<open>The tables of the knowledge graph\<close>

text \<open>
  The rows of \<^verbatim>\<open>graph_nodes\<close>, \<^verbatim>\<open>graph_edges\<close>, \<^verbatim>\<open>graph_node_provenance\<close>, \<^verbatim>\<open>node_post_write_queue\<close> and
  \<^verbatim>\<open>pending_edges\<close> (\<^verbatim>\<open>db/schema.sql\<close>), the enums \<^verbatim>\<open>NodeLabel\<close>, \<^verbatim>\<open>EdgeType\<close> and \<^verbatim>\<open>EdgeConfidence\<close>
  (\<^verbatim>\<open>engine/shared/constants.py\<close>), and what the two confidence rules of the writer (one in Python, one in
  SQL) have in common with the order of the tiers. A \<^verbatim>\<open>jsonb\<close> object is the list of its items; its nested
  values are in \<^verbatim>\<open>jsonb\<close>'s normal form. Session deletion, the graph writer, cluster merging and the source
  purge share these rows and \<open>degrees_exact\<close>, the meaning of the materialized column \<^verbatim>\<open>degree\<close>.
\<close>

subsection \<open>Labels, edge types, confidence\<close>

datatype node_label =
    PERSON | DOCUMENT | FEATURE | CODE_SYMBOL | SERVICE | ERROR_GROUP | SERVICE_CARD | DECISION | RUNBOOK
  | AGENT | WORKFLOW | FIX_ARTIFACT | VERIFICATION_RESULT | PROJECT | RUN | ARTIFACT | ASSET | AGENT_SESSION

fun label_value :: "node_label \<Rightarrow> string" where
  "label_value PERSON = ''Person''"
| "label_value DOCUMENT = ''Document''"
| "label_value FEATURE = ''Feature''"
| "label_value CODE_SYMBOL = ''CodeSymbol''"
| "label_value SERVICE = ''Service''"
| "label_value ERROR_GROUP = ''ErrorGroup''"
| "label_value SERVICE_CARD = ''ServiceCard''"
| "label_value DECISION = ''Decision''"
| "label_value RUNBOOK = ''Runbook''"
| "label_value AGENT = ''Agent''"
| "label_value WORKFLOW = ''Workflow''"
| "label_value FIX_ARTIFACT = ''FixArtifact''"
| "label_value VERIFICATION_RESULT = ''VerificationResult''"
| "label_value PROJECT = ''Project''"
| "label_value RUN = ''Run''"
| "label_value ARTIFACT = ''Artifact''"
| "label_value ASSET = ''Asset''"
| "label_value AGENT_SESSION = ''AgentSession''"

definition all_labels :: "node_label list" where
  "all_labels =
     [PERSON, DOCUMENT, FEATURE, CODE_SYMBOL, SERVICE, ERROR_GROUP, SERVICE_CARD, DECISION, RUNBOOK, AGENT,
      WORKFLOW, FIX_ARTIFACT, VERIFICATION_RESULT, PROJECT, RUN, ARTIFACT, ASSET, AGENT_SESSION]"

text \<open>\<^verbatim>\<open>NodeLabel(s)\<close>; None is the ValueError.\<close>

definition label_of_value :: "string \<Rightarrow> node_label option" where
  "label_of_value s = find (\<lambda>l. label_value l = s) all_labels"

datatype edge_type =
    OWNS | MENTIONS | AUTHORED | BLOCKS | SUPERSEDES | DUPLICATES | TOUCHES | FIRES_IN | MEMBER_OF | LINKED_FROM
  | CONFLICTS_WITH | VERIFIED_BY | DERIVED_FROM | FIXES | REGRESSES | ASSIGNED_TO | COMPILED_FROM | DESCRIBES
  | CALLS | IMPORTS | INHERITS | IMPLEMENTS | REFERENCES | DEFINED_IN
  | DISCUSSES | DOCUMENTS | RESOLVES | MENTIONS_ENTITY | RELATES_TO

fun edge_type_value :: "edge_type \<Rightarrow> string" where
  "edge_type_value OWNS = ''OWNS''"
| "edge_type_value MENTIONS = ''MENTIONS''"
| "edge_type_value AUTHORED = ''AUTHORED''"
| "edge_type_value BLOCKS = ''BLOCKS''"
| "edge_type_value SUPERSEDES = ''SUPERSEDES''"
| "edge_type_value DUPLICATES = ''DUPLICATES''"
| "edge_type_value TOUCHES = ''TOUCHES''"
| "edge_type_value FIRES_IN = ''FIRES_IN''"
| "edge_type_value MEMBER_OF = ''MEMBER_OF''"
| "edge_type_value LINKED_FROM = ''LINKED_FROM''"
| "edge_type_value CONFLICTS_WITH = ''CONFLICTS_WITH''"
| "edge_type_value VERIFIED_BY = ''VERIFIED_BY''"
| "edge_type_value DERIVED_FROM = ''DERIVED_FROM''"
| "edge_type_value FIXES = ''FIXES''"
| "edge_type_value REGRESSES = ''REGRESSES''"
| "edge_type_value ASSIGNED_TO = ''ASSIGNED_TO''"
| "edge_type_value COMPILED_FROM = ''COMPILED_FROM''"
| "edge_type_value DESCRIBES = ''DESCRIBES''"
| "edge_type_value CALLS = ''CALLS''"
| "edge_type_value IMPORTS = ''IMPORTS''"
| "edge_type_value INHERITS = ''INHERITS''"
| "edge_type_value IMPLEMENTS = ''IMPLEMENTS''"
| "edge_type_value REFERENCES = ''REFERENCES''"
| "edge_type_value DEFINED_IN = ''DEFINED_IN''"
| "edge_type_value DISCUSSES = ''DISCUSSES''"
| "edge_type_value DOCUMENTS = ''DOCUMENTS''"
| "edge_type_value RESOLVES = ''RESOLVES''"
| "edge_type_value MENTIONS_ENTITY = ''MENTIONS_ENTITY''"
| "edge_type_value RELATES_TO = ''RELATES_TO''"

definition all_edge_types :: "edge_type list" where
  "all_edge_types =
     [OWNS, MENTIONS, AUTHORED, BLOCKS, SUPERSEDES, DUPLICATES, TOUCHES, FIRES_IN, MEMBER_OF, LINKED_FROM,
      CONFLICTS_WITH, VERIFIED_BY, DERIVED_FROM, FIXES, REGRESSES, ASSIGNED_TO, COMPILED_FROM, DESCRIBES,
      CALLS, IMPORTS, INHERITS, IMPLEMENTS, REFERENCES, DEFINED_IN,
      DISCUSSES, DOCUMENTS, RESOLVES, MENTIONS_ENTITY, RELATES_TO]"

definition edge_type_of_value :: "string \<Rightarrow> edge_type option" where
  "edge_type_of_value s = find (\<lambda>t. edge_type_value t = s) all_edge_types"

lemma label_of_value_value [simp]: "label_of_value (label_value l) = Some l"
  by (cases l) (simp_all add: label_of_value_def all_labels_def)

lemma edge_type_of_value_value [simp]: "edge_type_of_value (edge_type_value t) = Some t"
  by (cases t) (simp_all add: edge_type_of_value_def all_edge_types_def)

lemma label_value_inj [simp]: "label_value a = label_value b \<longleftrightarrow> a = b"
  by (metis label_of_value_value option.inject)

text \<open>\<^verbatim>\<open>EdgeConfidence\<close>, weakest first; the order of the tiers is that of \<^verbatim>\<open>_CONFIDENCE_RANK\<close>.\<close>

datatype confidence = AMBIGUOUS | INFERRED | EXTRACTED

fun confidence_value :: "confidence \<Rightarrow> string" where
  "confidence_value AMBIGUOUS = ''AMBIGUOUS''"
| "confidence_value INFERRED = ''INFERRED''"
| "confidence_value EXTRACTED = ''EXTRACTED''"

fun confidence_rank :: "confidence \<Rightarrow> nat" where
  "confidence_rank AMBIGUOUS = 0"
| "confidence_rank INFERRED = 1"
| "confidence_rank EXTRACTED = 2"

lemma confidence_rank_inj: "confidence_rank a = confidence_rank b \<Longrightarrow> a = b"
  by (cases a; cases b) simp_all

instantiation confidence :: linorder
begin
definition less_eq_confidence :: "confidence \<Rightarrow> confidence \<Rightarrow> bool" where
  "a \<le> b \<longleftrightarrow> confidence_rank a \<le> confidence_rank b"
definition less_confidence :: "confidence \<Rightarrow> confidence \<Rightarrow> bool" where
  "a < b \<longleftrightarrow> confidence_rank a < confidence_rank b"
instance
  by standard (auto simp: less_eq_confidence_def less_confidence_def intro: confidence_rank_inj)
end

definition CONFIDENCE_RANK :: "(string \<times> nat) list" where
  "CONFIDENCE_RANK = [(''AMBIGUOUS'', 0), (''INFERRED'', 1), (''EXTRACTED'', 2)]"

definition rank_of :: "string \<Rightarrow> nat" where
  "rank_of s = (case map_of CONFIDENCE_RANK s of Some n \<Rightarrow> n | None \<Rightarrow> 0)"

definition stronger_confidence :: "string \<Rightarrow> string \<Rightarrow> string" where
  "stronger_confidence a b = (if rank_of a \<ge> rank_of b then a else b)"

text \<open>The \<^verbatim>\<open>CASE\<close> of the ON CONFLICT branch: \<open>old\<close> is the row's tier, \<open>new\<close> is EXCLUDED's.\<close>

definition sql_confidence :: "string \<Rightarrow> string \<Rightarrow> string" where
  "sql_confidence old new =
     (if old = ''EXTRACTED'' then old else if new = ''EXTRACTED'' then new
      else if old = ''INFERRED'' then old else new)"

definition valid_confidence :: "string \<Rightarrow> bool" where
  "valid_confidence s \<longleftrightarrow> s = ''EXTRACTED'' \<or> s = ''INFERRED'' \<or> s = ''AMBIGUOUS''"

lemma valid_confidence_iff: "valid_confidence s \<longleftrightarrow> (\<exists>t. s = confidence_value t)"
proof
  assume "valid_confidence s"
  then show "\<exists>t. s = confidence_value t"
    unfolding valid_confidence_def using confidence_value.simps by metis
next
  assume "\<exists>t. s = confidence_value t"
  then obtain t where "s = confidence_value t" ..
  then show "valid_confidence s" by (cases t) (simp_all add: valid_confidence_def)
qed

text \<open>Both rules are the maximum of the tiers, so the tier an edge ends with depends neither on the order of
  its assertions nor on whether they meet in one batch or across batches.\<close>

lemma stronger_is_max: "stronger_confidence (confidence_value a) (confidence_value b) = confidence_value (max a b)"
  by (cases a; cases b) (simp_all add: stronger_confidence_def rank_of_def CONFIDENCE_RANK_def max_def less_eq_confidence_def)

lemma sql_is_max: "sql_confidence (confidence_value a) (confidence_value b) = confidence_value (max a b)"
  by (cases a; cases b) (simp_all add: sql_confidence_def max_def less_eq_confidence_def)

subsection \<open>Rows\<close>

type_synonym props = "(string \<times> json) list"

record node_row =
  n_id :: int
  n_customer :: string
  n_label :: string
  n_canonical :: string
  n_props :: props
  n_created :: time
  n_updated :: time
  n_degree :: int
  n_community :: "int option"
  n_embedding :: "string option"

record edge_row =
  g_id :: int
  g_customer :: string
  g_type :: string
  g_from :: int
  g_to :: int
  g_props :: props
  g_valid_from :: time
  g_valid_to :: "time option"
  g_source :: "string option"
  g_confidence :: string
  g_extractor :: "string option"
  g_extracted_at :: "time option"
  g_aliased_from :: "string option"
  g_aliased_to :: "string option"

record provenance_row =
  pv_node :: int
  pv_customer :: string
  pv_source :: string
  pv_first_seen :: time
  pv_last_seen :: time

record post_write_row =
  pw_customer :: string
  pw_node :: int
  pw_enqueued :: time
  pw_status :: json
  pw_locked_until :: "time option"

record pending_edge =
  pe_id :: int
  pe_customer :: string
  pe_missing_label :: string
  pe_missing :: string
  pe_type :: string
  pe_from_label :: string
  pe_from :: string
  pe_to_label :: string
  pe_to :: string
  pe_source :: string
  pe_props :: props
  pe_valid_from :: "time option"
  pe_created :: time
  pe_locked_until :: "time option"

subsection \<open>Degrees\<close>

text \<open>The number of edge ends at a node: a loop has both its ends there.\<close>

definition edge_ends :: "edge_row list \<Rightarrow> int \<Rightarrow> nat" where
  "edge_ends es n = length (filter (\<lambda>e. g_from e = n) es) + length (filter (\<lambda>e. g_to e = n) es)"

definition degrees_exact :: "node_row table \<Rightarrow> edge_row table \<Rightarrow> bool" where
  "degrees_exact ns es \<longleftrightarrow> (\<forall>n \<in> set ns. n_degree n = int (edge_ends es (n_id n)))"

lemma edge_ends_simps [simp]:
  "edge_ends [] n = 0"
  "edge_ends (e # es) n = (if g_from e = n then 1 else 0) + (if g_to e = n then 1 else 0) + edge_ends es n"
  by (simp_all add: edge_ends_def)

lemma edge_ends_append [simp]: "edge_ends (xs @ ys) n = edge_ends xs n + edge_ends ys n"
  by (simp add: edge_ends_def)

lemma edge_ends_split: "edge_ends (filter p es) n + edge_ends (filter (\<lambda>e. \<not> p e) es) n = edge_ends es n"
  by (induction es) auto

lemma edge_ends_map:
  "(\<And>e. e \<in> set es \<Longrightarrow> g_from (f e) = g_from e \<and> g_to (f e) = g_to e) \<Longrightarrow> edge_ends (map f es) n = edge_ends es n"
  by (induction es) auto

lemma edge_ends_0_iff: "edge_ends es n = 0 \<longleftrightarrow> (\<forall>e \<in> set es. g_from e \<noteq> n \<and> g_to e \<noteq> n)"
  by (induction es) auto

end
