(* ===== verification/Deletion.thy ===== *)
theory Deletion
  imports Worker GraphTables
begin

section \<open>Deleting captured sessions\<close>

text \<open>
  \<^verbatim>\<open>kb/session_deletion.py\<close>: what the database and the object store hold of one session (\<open>inventory\<close>,
  \<open>raw_keys\<close>), the three phases of a deletion (\<open>record_session\<close>; \<open>journal_and_delete_rows\<close>;
  \<open>delete_objects\<close>) and their verification (\<open>residue\<close>), composed by \<open>erase_session\<close>.
  Which sessions a request selects, a whole run and the routes are in \<open>DeletionRoutes\<close>.

  The object store is outside: \<open>store_world\<close> says which requests raise and which keys a delete fails
  for. Transactions of others run between the phases: \<open>others n\<close> is what they do before phase \<open>n\<close>.
  Ids that only name rows (\<^verbatim>\<open>event_id\<close>) are the unique key of the row here. A session deletion row is
  the record \<open>deletion_row\<close> of \<open>Suppression\<close>; the rows of the graph are those of
  \<open>GraphTables\<close>.
\<close>

subsection \<open>State\<close>

text \<open>A row of a table keyed by document: \<^verbatim>\<open>chunks\<close>, \<^verbatim>\<open>failed_chunks\<close>, \<^verbatim>\<open>inferred_edges_queue\<close>.\<close>

record doc_child =
  dc_customer :: string
  dc_doc :: string

record acl_row =
  ac_customer :: string
  ac_source :: string
  ac_type :: string
  ac_resource :: string

record erase_db = worker_db +
  chunks :: "doc_child table"
  failed_chunks :: "doc_child table"
  inferred_edges_queue :: "doc_child table"
  acl_snapshots :: "acl_row table"
  graph_nodes :: "node_row table"
  graph_edges :: "edge_row table"
  graph_node_provenance :: "provenance_row table"
  node_post_write_queue :: "post_write_row table"
  pending_edges :: "pending_edge table"

record session_ref =
  ref_source :: string
  ref_session :: string

subsection \<open>Names\<close>

text \<open>\<^verbatim>\<open>\A[A-Za-z0-9._-]{8,200}\Z\<close>\<close>

definition id_char :: "char \<Rightarrow> bool" where
  "id_char ch \<longleftrightarrow>
     (let n = (of_char ch :: nat) in
      (65 \<le> n \<and> n \<le> 90) \<or> (97 \<le> n \<and> n \<le> 122) \<or> (48 \<le> n \<and> n \<le> 57) \<or> n = 46 \<or> n = 95 \<or> n = 45)"

definition RESERVED_IDS :: "string list" where
  "RESERVED_IDS = [''sessions-v2'', MEDIA_STAGING_FOLDER]"

definition valid_session_id :: "string \<Rightarrow> bool" where
  "valid_session_id sid \<longleftrightarrow>
     8 \<le> length sid \<and> length sid \<le> 200 \<and> list_all id_char sid \<and> sid \<notin> set RESERVED_IDS"

definition session_doc_id :: "string \<Rightarrow> session_ref \<Rightarrow> string" where
  "session_doc_id c ref = ref_source ref @ '':'' @ c @ '':'' @ ref_session ref"

definition agent_node_id :: "session_ref \<Rightarrow> string" where
  "agent_node_id ref = ''agent_session:'' @ ref_source ref @ '':'' @ ref_session ref"

definition own_raw :: "string \<Rightarrow> session_ref \<Rightarrow> string" where
  "own_raw c ref = ''raw/'' @ ref_source ref @ ''/'' @ c @ ''/''"

definition v2_prefix :: "string \<Rightarrow> session_ref \<Rightarrow> string" where
  "v2_prefix c ref = own_raw c ref @ ''sessions-v2/'' @ ref_session ref @ ''/''"

definition ref_folder :: "string \<Rightarrow> session_ref \<Rightarrow> string" where
  "ref_folder c ref = session_folder (ref_source ref) c (ref_session ref)"

definition staging_prefix :: "string \<Rightarrow> session_ref \<Rightarrow> string" where
  "staging_prefix c ref = media_staging_prefix (ref_source ref) c (ref_session ref)"

text \<open>\<^verbatim>\<open>raw_keys\<close>: what the session's own prefixes hold now.\<close>

definition raw_keys :: "'a sup_db_scheme \<Rightarrow> string \<Rightarrow> session_ref \<Rightarrow> string set" where
  "raw_keys db c ref =
     set (list_keys db c (v2_prefix c ref)) \<union> set (list_keys db c (staging_prefix c ref))
     \<union> set (own_folder_keys db c (ref_folder c ref))"

text \<open>\<^verbatim>\<open>_OWN_EVENT_ROW\<close>\<close>

definition own_event :: "string \<Rightarrow> string \<Rightarrow> bool" where
  "own_event sid ev \<longleftrightarrow>
     ev = sid \<or> (starts_with ev (sid @ '':'') \<and> legacy_suffix (drop (length sid + 1) ev))"

subsection \<open>Inventory\<close>

record inventory =
  iv_docs :: "string list"
  iv_nodes :: "int list"
  iv_canonical :: "string list"
  iv_queue :: "int list"
  iv_events :: "(string \<times> string) list"
  iv_keys :: "string list"
  iv_in_flight :: bool

definition own_document :: "string \<Rightarrow> session_ref \<Rightarrow> document_row \<Rightarrow> bool" where
  "own_document c ref d \<longleftrightarrow>
     doc_customer d = c \<and> doc_source d = ref_source ref
     \<and> (doc_id d = session_doc_id c ref \<or> doc_source_id d = ref_session ref
        \<or> (starts_with (doc_id d) (session_doc_id c ref @ '':'') \<and> doc_parent d = Some (session_doc_id c ref)))"

definition own_queue_row :: "string \<Rightarrow> session_ref \<Rightarrow> queue_row \<Rightarrow> bool" where
  "own_queue_row c ref r \<longleftrightarrow>
     q_customer r = c \<and> q_source r = ref_source ref \<and> own_event (ref_session ref) (q_event r)"

definition own_event_row :: "string \<Rightarrow> session_ref \<Rightarrow> event_row \<Rightarrow> bool" where
  "own_event_row c ref r \<longleftrightarrow>
     e_customer r = c \<and> e_source r = ref_source ref \<and> own_event (ref_session ref) (e_event r)"

definition own_receipt :: "string \<Rightarrow> session_ref \<Rightarrow> receipt_row \<Rightarrow> bool" where
  "own_receipt c ref r \<longleftrightarrow> rc_customer r = c \<and> rc_source r = ref_source ref \<and> rc_session r = ref_session ref"

definition own_stream :: "string \<Rightarrow> session_ref \<Rightarrow> stream_row \<Rightarrow> bool" where
  "own_stream c ref r \<longleftrightarrow> st_customer r = c \<and> st_source r = ref_source ref \<and> st_session r = ref_session ref"

definition own_media :: "string \<Rightarrow> session_ref \<Rightarrow> media_row \<Rightarrow> bool" where
  "own_media c ref r \<longleftrightarrow> m_customer r = c \<and> m_source r = ref_source ref \<and> m_session r = ref_session ref"

definition own_node :: "string \<Rightarrow> session_ref \<Rightarrow> string list \<Rightarrow> node_row \<Rightarrow> bool" where
  "own_node c ref docs n \<longleftrightarrow>
     n_customer n = c \<and> ((n_label n = ''Document'' \<and> n_canonical n \<in> set docs)
       \<or> (n_label n = ''AgentSession'' \<and> n_canonical n = agent_node_id ref))"

text \<open>The keys the rows of the session name, whatever their folder.\<close>

definition row_keys :: "queue_row \<Rightarrow> string list" where
  "row_keys r = q_keys r @ (case q_payload_key r of Some k \<Rightarrow> [k] | None \<Rightarrow> [])"

definition named_keys :: "'a erase_db_scheme \<Rightarrow> string \<Rightarrow> session_ref \<Rightarrow> string list" where
  "named_keys db c ref = filter (\<lambda>k. k \<noteq> [])
     (concat (map row_keys (filter (own_queue_row c ref) (q_rows db)))
      @ map e_payload_key (filter (own_event_row c ref) (ingestion_events db))
      @ map rc_payload_key (filter (own_receipt c ref) (session_batch_receipts db)))"

definition inventory :: "'a erase_db_scheme \<Rightarrow> string \<Rightarrow> session_ref \<Rightarrow> string list \<Rightarrow> inventory" where
  "inventory db c ref known =
     (let docs = sorted_set (session_doc_id c ref # known @ map doc_id (filter (own_document c ref) (documents db)));
          queue = filter (own_queue_row c ref) (q_rows db);
          events = filter (own_event_row c ref) (ingestion_events db)
      in \<lparr>iv_docs = docs,
          iv_nodes = sort (map n_id (filter (own_node c ref docs) (graph_nodes db))),
          iv_canonical = sorted_set (docs @ [session_doc_id c ref, agent_node_id ref]),
          iv_queue = map q_id queue,
          iv_events = map (\<lambda>r. (e_source r, e_event r)) events,
          iv_keys = sorted_set (filter (\<lambda>k. starts_with k (own_raw c ref)) (named_keys db c ref)),
          iv_in_flight = (\<exists>r \<in> set queue. q_status r = PROCESSING)\<rparr>)"

text \<open>\<^verbatim>\<open>inv.counts\<close>: what each table holds of the session.\<close>

definition has_doc :: "string \<Rightarrow> string list \<Rightarrow> doc_child \<Rightarrow> bool" where
  "has_doc c docs r \<longleftrightarrow> dc_customer r = c \<and> dc_doc r \<in> set docs"

definition has_acl :: "string \<Rightarrow> string list \<Rightarrow> acl_row \<Rightarrow> bool" where
  "has_acl c docs r \<longleftrightarrow> ac_customer r = c \<and> ac_type r = ''document'' \<and> ac_resource r \<in> set docs"

definition has_node :: "string \<Rightarrow> int list \<Rightarrow> provenance_row \<Rightarrow> bool" where
  "has_node c nodes r \<longleftrightarrow> pv_customer r = c \<and> pv_node r \<in> set nodes"

definition queued_node :: "string \<Rightarrow> int list \<Rightarrow> post_write_row \<Rightarrow> bool" where
  "queued_node c nodes r \<longleftrightarrow> pw_customer r = c \<and> pw_node r \<in> set nodes"

definition touches :: "string \<Rightarrow> int list \<Rightarrow> edge_row \<Rightarrow> bool" where
  "touches c nodes e \<longleftrightarrow> g_customer e = c \<and> (g_from e \<in> set nodes \<or> g_to e \<in> set nodes)"

definition names_canonical :: "string \<Rightarrow> string list \<Rightarrow> pending_edge \<Rightarrow> bool" where
  "names_canonical c ids e \<longleftrightarrow>
     pe_customer e = c \<and> (pe_missing e \<in> set ids \<or> pe_from e \<in> set ids \<or> pe_to e \<in> set ids)"

definition session_media_count :: "'a stream_db_scheme \<Rightarrow> string \<Rightarrow> session_ref \<Rightarrow> nat" where
  "session_media_count db c ref =
     (case session_media db of None \<Rightarrow> 0 | Some t \<Rightarrow> length (filter (own_media c ref) t))"

definition inventory_counts ::
  "'a erase_db_scheme \<Rightarrow> string \<Rightarrow> session_ref \<Rightarrow> inventory \<Rightarrow> (string \<times> nat) list" where
  "inventory_counts db c ref iv =
     [(''documents'', length (filter (\<lambda>d. doc_customer d = c \<and> doc_id d \<in> set (iv_docs iv)) (documents db))),
      (''chunks'', length (filter (has_doc c (iv_docs iv)) (chunks db))),
      (''failed_chunks'', length (filter (has_doc c (iv_docs iv)) (failed_chunks db))),
      (''inferred_edges_queue'', length (filter (has_doc c (iv_docs iv)) (inferred_edges_queue db))),
      (''acl_snapshots'', length (filter (has_acl c (iv_docs iv)) (acl_snapshots db))),
      (''graph_nodes'', length (iv_nodes iv)),
      (''graph_edges'', length (filter (touches c (iv_nodes iv)) (graph_edges db))),
      (''graph_node_provenance'', length (filter (has_node c (iv_nodes iv)) (graph_node_provenance db))),
      (''node_post_write_queue'', length (filter (queued_node c (iv_nodes iv)) (node_post_write_queue db))),
      (''pending_edges'', length (filter (names_canonical c (iv_canonical iv)) (pending_edges db))),
      (''ingestion_queue'', length (iv_queue iv)),
      (''ingestion_events'', length (iv_events iv)),
      (''session_streams'', length (filter (own_stream c ref) (session_streams db))),
      (''session_batch_receipts'', length (filter (own_receipt c ref) (session_batch_receipts db))),
      (''session_media'', session_media_count db c ref)]"

subsection \<open>Rows\<close>

text \<open>\<^verbatim>\<open>DELETE FROM t WHERE p\<close>: the table that is left and how many rows went.\<close>

definition sql_delete :: "('r \<Rightarrow> bool) \<Rightarrow> 'r table \<Rightarrow> 'r table" where
  "sql_delete p t = filter (\<lambda>r. \<not> p r) t"

definition sql_deleted :: "('r \<Rightarrow> bool) \<Rightarrow> 'r table \<Rightarrow> nat" where
  "sql_deleted p t = length (filter p t)"

lemma set_sql_delete [simp]: "set (sql_delete p t) = {r \<in> set t. \<not> p r}"
  by (auto simp: sql_delete_def)

text \<open>The edges' surviving endpoints lose one degree per removed edge end, never below 0.\<close>

definition lower_degrees :: "string \<Rightarrow> int list \<Rightarrow> edge_row list \<Rightarrow> node_row table \<Rightarrow> node_row table" where
  "lower_degrees c nodes es t =
     sql_update (\<lambda>n. n_customer n = c \<and> n_id n \<notin> set nodes \<and> 0 < edge_ends es (n_id n))
       (\<lambda>n. n\<lparr>n_degree := max (n_degree n - int (edge_ends es (n_id n))) 0\<rparr>) t"

definition delete_graph :: "string \<Rightarrow> inventory \<Rightarrow> 'a erase_db_scheme \<Rightarrow> 'a erase_db_scheme" where
  "delete_graph c iv db =
     (if iv_nodes iv = [] then db
      else let gone = filter (touches c (iv_nodes iv)) (graph_edges db) in
        db\<lparr>graph_edges := sql_delete (touches c (iv_nodes iv)) (graph_edges db),
           graph_node_provenance := sql_delete (has_node c (iv_nodes iv)) (graph_node_provenance db),
           node_post_write_queue := sql_delete (queued_node c (iv_nodes iv)) (node_post_write_queue db),
           graph_nodes := sql_delete (\<lambda>n. n_customer n = c \<and> n_id n \<in> set (iv_nodes iv))
             (lower_degrees c (iv_nodes iv) gone (graph_nodes db))\<rparr>)"

definition delete_rows :: "string \<Rightarrow> session_ref \<Rightarrow> inventory \<Rightarrow> 'a erase_db_scheme \<Rightarrow> 'a erase_db_scheme" where
  "delete_rows c ref iv db =
     (let db1 = db\<lparr>q_rows := sql_delete (\<lambda>r. q_customer r = c \<and> q_id r \<in> set (iv_queue iv)) (q_rows db),
            inferred_edges_queue := sql_delete (has_doc c (iv_docs iv)) (inferred_edges_queue db),
            pending_edges := sql_delete (names_canonical c (iv_canonical iv)) (pending_edges db),
            chunks := sql_delete (has_doc c (iv_docs iv)) (chunks db),
            failed_chunks := sql_delete (has_doc c (iv_docs iv)) (failed_chunks db),
            acl_snapshots := sql_delete (has_acl c (iv_docs iv)) (acl_snapshots db)\<rparr>;
          db2 = delete_graph c iv db1
      in db2\<lparr>documents := sql_delete (\<lambda>d. doc_customer d = c \<and> doc_id d \<in> set (iv_docs iv)) (documents db2),
            ingestion_events := sql_delete
              (\<lambda>r. e_customer r = c \<and> (e_source r, e_event r) \<in> set (iv_events iv)) (ingestion_events db2),
            session_batch_receipts := sql_delete (own_receipt c ref) (session_batch_receipts db2),
            session_streams := sql_delete (own_stream c ref) (session_streams db2),
            session_media := map_option (sql_delete (own_media c ref)) (session_media db2)\<rparr>)"

text \<open>Whether \<^verbatim>\<open>_delete_rows\<close> reports any row (\<^verbatim>\<open>rows_deleted\<close> is not empty).\<close>

definition rows_deleted :: "string \<Rightarrow> session_ref \<Rightarrow> inventory \<Rightarrow> 'a erase_db_scheme \<Rightarrow> (string \<times> nat) list" where
  "rows_deleted c ref iv db = filter (\<lambda>kv. snd kv \<noteq> 0) (inventory_counts db c ref iv)"

subsection \<open>The record of a deletion\<close>

definition deletion_of :: "string \<Rightarrow> session_ref \<Rightarrow> deletion_row \<Rightarrow> bool" where
  "deletion_of c ref r \<longleftrightarrow>
     d_customer r = c \<and> d_source r = ref_source ref \<and> d_session r = ref_session ref"

definition update_deletion ::
  "string \<Rightarrow> session_ref \<Rightarrow> (deletion_row \<Rightarrow> deletion_row) \<Rightarrow> 'a sup_db_scheme \<Rightarrow> 'a sup_db_scheme" where
  "update_deletion c ref f db =
     db\<lparr>session_deletions := map_option (sql_update (deletion_of c ref) f) (session_deletions db)\<rparr>"

definition find_deletion :: "'a sup_db_scheme \<Rightarrow> string \<Rightarrow> session_ref \<Rightarrow> deletion_row option" where
  "find_deletion db c ref =
     (case session_deletions db of None \<Rightarrow> None | Some t \<Rightarrow> find (deletion_of c ref) t)"

text \<open>\<^verbatim>\<open>ARRAY(SELECT DISTINCT unnest(a || b))\<close>\<close>

definition merge_keys :: "string list \<Rightarrow> string list \<Rightarrow> string list" where
  "merge_keys a b = remdups (a @ b)"

record request =
  rq_deletion_id :: string
  rq_reason :: string
  rq_ticket :: "string option"
  rq_deep_scan :: bool

definition new_deletion :: "request \<Rightarrow> string \<Rightarrow> session_ref \<Rightarrow> string list \<Rightarrow> time \<Rightarrow> deletion_row" where
  "new_deletion rq c ref keys now =
     \<lparr>d_customer = c, d_source = ref_source ref, d_session = ref_session ref, d_deletion_id = rq_deletion_id rq,
      d_reason = rq_reason rq, d_ticket = rq_ticket rq, d_deep_scan = rq_deep_scan rq, d_status = ''pending'',
      d_requested_at = now, d_attempted_at = None, d_deleted_at = None, d_pending_keys = keys, d_error = None\<rparr>"

definition renew_deletion :: "request \<Rightarrow> string list \<Rightarrow> time \<Rightarrow> deletion_row \<Rightarrow> deletion_row" where
  "renew_deletion rq keys now r =
     r\<lparr>d_deletion_id := rq_deletion_id rq, d_deep_scan := rq_deep_scan rq, d_requested_at := now,
       d_ticket := (case d_ticket r of Some t \<Rightarrow> Some t | None \<Rightarrow> rq_ticket rq), d_status := ''pending'',
       d_error := None, d_pending_keys := merge_keys (d_pending_keys r) keys\<rparr>"

text \<open>One round of \<^verbatim>\<open>record_sessions\<close>, under the session's lock.\<close>

definition record_session ::
  "request \<Rightarrow> string \<Rightarrow> session_ref \<Rightarrow> time \<Rightarrow> 'a erase_db_scheme \<Rightarrow> 'a erase_db_scheme" where
  "record_session rq c ref now db =
     (let iv = inventory db c ref [];
          t = (case session_deletions db of None \<Rightarrow> [] | Some t \<Rightarrow> t);
          t' = (if \<exists>r \<in> set t. deletion_of c ref r
                then sql_update (deletion_of c ref) (renew_deletion rq (iv_keys iv) now) t
                else t @ [new_deletion rq c ref (iv_keys iv) now])
      in (update_rows (\<lambda>r. q_customer r = c \<and> q_id r \<in> set (iv_queue iv) \<and> q_status r = PENDING)
            (\<lambda>r. r\<lparr>q_status := DONE, q_completed_at := Some now, q_error := Some ''session deleted''\<rparr>) db)
         \<lparr>session_deletions := Some t'\<rparr>)"

definition record_sessions ::
  "request \<Rightarrow> string \<Rightarrow> session_ref list \<Rightarrow> time \<Rightarrow> 'a erase_db_scheme \<Rightarrow> 'a erase_db_scheme" where
  "record_sessions rq c refs now db = fold (\<lambda>ref. record_session rq c ref now) refs db"

subsection \<open>Erasing one session\<close>

datatype stop = HoldPlaced string | Raised string

definition legal_hold :: "'a sup_db_scheme \<Rightarrow> string \<Rightarrow> string + string option" where
  "legal_hold db c =
     (case map_of (customers db) c of None \<Rightarrow> Inl ''unknown customer'' | Some _ \<Rightarrow> Inr (read_legal_hold db c))"

text \<open>Phase 2, one transaction: a hold or a missing record rolls it back.\<close>

definition journal_and_delete_rows ::
  "string \<Rightarrow> session_ref \<Rightarrow> string list \<Rightarrow> time \<Rightarrow> 'a erase_db_scheme
   \<Rightarrow> 'a erase_db_scheme \<times> (stop + (string \<times> nat) list \<times> string list \<times> inventory)" where
  "journal_and_delete_rows c ref known now db =
     (case read_legal_hold db c of
        Some h \<Rightarrow> (db, Inl (HoldPlaced h))
      | None \<Rightarrow>
          (let iv = inventory db c ref known in
           case find_deletion db c ref of
             None \<Rightarrow> (db, Inl (Raised ''session is not recorded as deleted; record it before erasing''))
           | Some r \<Rightarrow>
               (delete_rows c ref iv (update_deletion c ref (\<lambda>r. r\<lparr>d_pending_keys := merge_keys (d_pending_keys r) (iv_keys iv),
                    d_attempted_at := Some now\<rparr>) db),
                Inr (rows_deleted c ref iv db, merge_keys (d_pending_keys r) (iv_keys iv), iv))))"

record store_world =
  sw_up :: "nat \<Rightarrow> bool"
  sw_part :: "nat \<Rightarrow> string \<Rightarrow> bool"
  sw_fails :: "string \<Rightarrow> bool"

text \<open>What is left when the objects of tenant \<open>c\<close> with a key in \<open>p\<close> go.\<close>

definition cut_objects :: "string \<Rightarrow> (string \<Rightarrow> bool) \<Rightarrow> 'a sup_db_scheme \<Rightarrow> 'a sup_db_scheme" where
  "cut_objects c p db = db\<lparr>objects := filter (\<lambda>ob. \<not> (fst (fst ob) = c \<and> p (snd (fst ob)))) (objects db)\<rparr>"

definition delete_prefix ::
  "(string \<Rightarrow> bool) \<Rightarrow> string \<Rightarrow> string \<Rightarrow> 'a sup_db_scheme \<Rightarrow> 'a sup_db_scheme \<times> nat" where
  "delete_prefix fails c pre db =
     (cut_objects c (\<lambda>k. starts_with k pre \<and> \<not> fails k) db,
      length (filter (\<lambda>k. \<not> fails k) (list_keys db c pre)))"

text \<open>Phase 3: six requests to the store, in order; request \<open>i\<close> raises when it is not \<open>sw_up\<close>, after
  deleting the part \<open>sw_part i\<close> of what it was asked to.\<close>

definition delete_objects ::
  "store_world \<Rightarrow> string \<Rightarrow> session_ref \<Rightarrow> string list \<Rightarrow> 'a sup_db_scheme
   \<Rightarrow> 'a sup_db_scheme \<times> (stop + nat \<times> string list \<times> nat)" where
  "delete_objects sw c ref keys db =
     (if \<not> sw_up sw 0 then (cut_objects c (\<lambda>k. k \<in> set keys \<and> sw_part sw 0 k) db, Inl (Raised ''StorageUnavailable''))
      else let (db1, n1, failed) = delete_named_keys (sw_fails sw) c keys db in
      if \<not> sw_up sw 1
      then (cut_objects c (\<lambda>k. starts_with k (v2_prefix c ref) \<and> sw_part sw 1 k) db1, Inl (Raised ''StorageUnavailable''))
      else let (db2, n2) = delete_prefix (sw_fails sw) c (v2_prefix c ref) db1 in
      if \<not> sw_up sw 2
      then (cut_objects c (\<lambda>k. starts_with k (staging_prefix c ref) \<and> sw_part sw 2 k) db2, Inl (Raised ''StorageUnavailable''))
      else let (db3, n3) = delete_prefix (sw_fails sw) c (staging_prefix c ref) db2 in
      if \<not> sw_up sw 3 then (db3, Inl (Raised ''StorageUnavailable''))
      else let own = own_folder_keys db3 c (ref_folder c ref) in
      if \<not> sw_up sw 4
      then (cut_objects c (\<lambda>k. k \<in> set own \<and> sw_part sw 4 k) db3, Inl (Raised ''StorageUnavailable''))
      else let (db4, n4, bad) = delete_named_keys (sw_fails sw) c own db3 in
      if \<not> sw_up sw 5 then (db4, Inl (Raised ''StorageUnavailable''))
      else (db4, Inr (n1 + n2 + n3 + n4, failed @ bad, card (raw_keys db4 c ref))))"

definition clear_journal :: "string \<Rightarrow> session_ref \<Rightarrow> string list \<Rightarrow> 'a sup_db_scheme \<Rightarrow> 'a sup_db_scheme" where
  "clear_journal c ref gone db =
     (if gone = [] then db
      else update_deletion c ref (\<lambda>r. r\<lparr>d_pending_keys := filter (\<lambda>k. k \<notin> set gone) (d_pending_keys r)\<rparr>) db)"

definition residue :: "string \<Rightarrow> session_ref \<Rightarrow> string list \<Rightarrow> 'a erase_db_scheme \<Rightarrow> (string \<times> nat) list" where
  "residue c ref known db = filter (\<lambda>kv. snd kv \<noteq> 0) (inventory_counts db c ref (inventory db c ref known))"

definition finish ::
  "string \<Rightarrow> session_ref \<Rightarrow> string \<Rightarrow> bool \<Rightarrow> string option \<Rightarrow> time \<Rightarrow> 'a sup_db_scheme \<Rightarrow> 'a sup_db_scheme" where
  "finish c ref status found err now db =
     update_deletion c ref (\<lambda>r. r\<lparr>d_status := status, d_error := err,
       d_deleted_at := (if status \<noteq> ''done'' then d_deleted_at r
                        else if d_deleted_at r = None \<or> found then Some now else d_deleted_at r)\<rparr>) db"

record round_out =
  ro_found :: bool
  ro_failed :: "string list"
  ro_left :: nat
  ro_known :: "string list"
  ro_in_flight :: bool

text \<open>One round of the loop. \<open>others n\<close> are the transactions of others before its \<open>n\<close>th step. The flag says
  whether the round deleted anything before it stopped.\<close>

definition erase_round ::
  "(nat \<Rightarrow> 'a erase_db_scheme \<Rightarrow> 'a erase_db_scheme) \<Rightarrow> store_world \<Rightarrow> string \<Rightarrow> session_ref \<Rightarrow> time
   \<Rightarrow> string list \<Rightarrow> 'a erase_db_scheme \<Rightarrow> 'a erase_db_scheme \<times> (stop \<times> bool + round_out)" where
  "erase_round others sw c ref now known db =
     (case journal_and_delete_rows c ref known now (others 0 db) of
        (db1, Inl s) \<Rightarrow> (db1, Inl (s, False))
      | (db1, Inr (rows, keys, iv)) \<Rightarrow>
          (let db2 = others 1 db1 in
           case legal_hold db2 c of
             Inl e \<Rightarrow> (db2, Inl (Raised e, rows \<noteq> []))
           | Inr (Some h) \<Rightarrow> (db2, Inl (HoldPlaced h, rows \<noteq> []))
           | Inr None \<Rightarrow>
               (case delete_objects sw c ref (sort keys) (others 2 db2) of
                  (db3, Inl s) \<Rightarrow> (db3, Inl (s, rows \<noteq> []))
                | (db3, Inr (n, failed, left)) \<Rightarrow>
                    (clear_journal c ref (filter (\<lambda>k. k \<notin> set failed) keys) (others 3 db3),
                     Inr \<lparr>ro_found = (rows \<noteq> [] \<or> n \<noteq> 0), ro_failed = failed, ro_left = left,
                          ro_known = known @ iv_docs iv, ro_in_flight = iv_in_flight iv\<rparr>))))"

definition verify ::
  "string \<Rightarrow> session_ref \<Rightarrow> round_out \<Rightarrow> 'a erase_db_scheme \<Rightarrow> string \<times> string option" where
  "verify c ref ro db =
     (if residue c ref (ro_known ro) db = [] \<and> ro_left ro = 0 \<and> ro_failed ro = [] then (''done'', None)
      else (''failed'', Some ''residue remains; resume the deletion''))"

definition stop_status :: "stop \<Rightarrow> string \<times> string option" where
  "stop_status s = (case s of HoldPlaced h \<Rightarrow> (''held'', Some (''legal hold: '' @ h))
                    | Raised e \<Rightarrow> (''failed'', Some (take 2000 e)))"

text \<open>The outcome of \<^verbatim>\<open>erase_session\<close> before its \<^verbatim>\<open>finally\<close>: status and error, and whether anything went.\<close>

definition erase_outcome ::
  "(nat \<Rightarrow> nat \<Rightarrow> 'a erase_db_scheme \<Rightarrow> 'a erase_db_scheme) \<Rightarrow> (nat \<Rightarrow> store_world) \<Rightarrow> bool \<Rightarrow> string
   \<Rightarrow> session_ref \<Rightarrow> time \<Rightarrow> 'a erase_db_scheme \<Rightarrow> 'a erase_db_scheme \<times> (string \<times> string option) \<times> bool" where
  "erase_outcome others sw bucket_ok c ref now db =
     (let db0 = others 0 0 db in
      case legal_hold db0 c of
        Inl e \<Rightarrow> (db0, stop_status (Raised e), False)
      | Inr (Some h) \<Rightarrow> (db0, stop_status (HoldPlaced h), False)
      | Inr None \<Rightarrow>
          if \<not> bucket_ok then (db0, stop_status (Raised ''StorageUnavailable''), False)
          else case erase_round (others 1) (sw 1) c ref now [] db0 of
            (db1, Inl (s, found)) \<Rightarrow> (db1, stop_status s, found)
          | (db1, Inr ro) \<Rightarrow>
              if \<not> ro_in_flight ro then let db2 = others 3 0 db1 in (db2, verify c ref ro db2, ro_found ro)
              else (case erase_round (others 2) (sw 2) c ref now (ro_known ro) db1 of
                  (db2, Inl (s, found)) \<Rightarrow> (db2, stop_status s, ro_found ro \<or> found)
                | (db2, Inr ro') \<Rightarrow>
                    let db3 = others 3 0 db2 in (db3, verify c ref ro' db3, ro_found ro \<or> ro_found ro')))"

text \<open>\<open>fin_ok\<close>: whether the final write of the outcome works; the row stays as it is otherwise.\<close>

definition erase_session ::
  "(nat \<Rightarrow> nat \<Rightarrow> 'a erase_db_scheme \<Rightarrow> 'a erase_db_scheme) \<Rightarrow> (nat \<Rightarrow> store_world) \<Rightarrow> bool \<Rightarrow> bool \<Rightarrow> string
   \<Rightarrow> session_ref \<Rightarrow> time \<Rightarrow> 'a erase_db_scheme \<Rightarrow> 'a erase_db_scheme \<times> string" where
  "erase_session others sw bucket_ok fin_ok c ref now db =
     (let (db1, (status, err), found) = erase_outcome others sw bucket_ok c ref now db;
          db2 = others 4 0 db1
      in (if fin_ok then finish c ref status found err now db2 else db2, status))"

end
