(* ===== verification/DeletionProperties.thy ===== *)
theory DeletionProperties
  imports Deletion
begin

section \<open>Deleting captured sessions: properties\<close>

text \<open>
  What a deletion leaves: nothing of the session once it reads \<^verbatim>\<open>done\<close>, every object still findable from
  the journal when it stops before, and every row and object of others as it was. Steps of others run
  between any two steps of the erase loop.
\<close>

subsection \<open>Objects\<close>

definition has_object :: "'a sup_db_scheme \<Rightarrow> string \<Rightarrow> string \<Rightarrow> bool" where
  "has_object db c k \<longleftrightarrow> (c, k) \<in> fst ` set (objects db)"

text \<open>A key of one of the session's own prefixes.\<close>

definition own_key :: "string \<Rightarrow> session_ref \<Rightarrow> string \<Rightarrow> bool" where
  "own_key c ref k \<longleftrightarrow>
     starts_with k (v2_prefix c ref) \<or> starts_with k (staging_prefix c ref) \<or> is_own_folder_key k (ref_folder c ref)"

lemma set_list_keys: "set (list_keys db c pre) = {k. has_object db c k \<and> starts_with k pre}"
  by (force simp: list_keys_def has_object_def)

lemma set_own_folder_keys:
  "set (own_folder_keys db c folder) = {k. has_object db c k \<and> is_own_folder_key k folder}"
  by (auto simp: own_folder_keys_def set_list_keys dest: is_own_folder_key_starts)

lemma raw_keys_eq: "raw_keys db c ref = {k. has_object db c k \<and> own_key c ref k}"
  by (auto simp: raw_keys_def set_list_keys set_own_folder_keys own_key_def)

lemma finite_raw_keys [simp]: "finite (raw_keys db c ref)"
  by (simp add: raw_keys_def)

lemma has_object_cut [simp]:
  "has_object (cut_objects c p db) c' k \<longleftrightarrow> has_object db c' k \<and> \<not> (c' = c \<and> p k)"
  by (force simp: has_object_def cut_objects_def)

lemma cut_objects_twice: "cut_objects c q (cut_objects c p db) = cut_objects c (\<lambda>k. p k \<or> q k) db"
  unfolding cut_objects_def by (simp add: imp_conjR)

lemma delete_named_keys_cut:
  "delete_named_keys fails c keys db =
     (cut_objects c (\<lambda>k. k \<in> set keys \<and> \<not> fails k) db, length (filter (\<lambda>k. \<not> fails k) (remdups keys)),
      filter fails (remdups keys))"
  unfolding delete_named_keys_def Let_def cut_objects_def by (auto simp: conj_ac intro!: arg_cong [where f = "\<lambda>ob. db\<lparr>objects := ob\<rparr>"] filter_cong)

text \<open>The object phase cuts a set of keys, all of them named or own, and says truly what is left.\<close>

lemma delete_objects_cut:
  "\<exists>p. fst (delete_objects sw c ref keys db) = cut_objects c p db
     \<and> (\<forall>k. p k \<longrightarrow> k \<in> set keys \<or> own_key c ref k)
     \<and> (\<forall>n failed left. snd (delete_objects sw c ref keys db) = Inr (n, failed, left) \<longrightarrow>
          left = card (raw_keys (cut_objects c p db) c ref) \<and> (\<forall>k \<in> set keys. k \<notin> set failed \<longrightarrow> p k))
     \<and> ((\<forall>i. sw_up sw i) \<longrightarrow> (\<forall>k. \<not> sw_fails sw k) \<longrightarrow>
          (\<exists>n. snd (delete_objects sw c ref keys db) = Inr (n, [], 0)))"
proof -
  note d = delete_objects_def delete_named_keys_cut delete_prefix_def cut_objects_twice Let_def
  consider "\<not> sw_up sw 0" | "sw_up sw 0" "\<not> sw_up sw 1" | "sw_up sw 0" "sw_up sw 1" "\<not> sw_up sw 2"
    | "sw_up sw 0" "sw_up sw 1" "sw_up sw 2" "\<not> sw_up sw 3"
    | "sw_up sw 0" "sw_up sw 1" "sw_up sw 2" "sw_up sw 3" "\<not> sw_up sw 4"
    | "sw_up sw 0" "sw_up sw 1" "sw_up sw 2" "sw_up sw 3" "sw_up sw 4" "\<not> sw_up sw 5"
    | "sw_up sw 0" "sw_up sw 1" "sw_up sw 2" "sw_up sw 3" "sw_up sw 4" "sw_up sw 5" by blast
  then show ?thesis
  proof cases
    case 1
    then show ?thesis by (simp add: d) (intro exI conjI, rule refl, auto)
  next
    case 2
    then show ?thesis by (simp add: d) (intro exI conjI, rule refl, auto simp: own_key_def)
  next
    case 3
    then show ?thesis by (simp add: d) (intro exI conjI, rule refl, auto simp: own_key_def)
  next
    case 4
    then show ?thesis by (simp add: d) (intro exI conjI, rule refl, auto simp: own_key_def)
  next
    case 5
    then show ?thesis by (simp add: d) (intro exI conjI, rule refl, auto simp: own_key_def set_own_folder_keys)
  next
    case 6
    then show ?thesis by (simp add: d) (intro exI conjI, rule refl, auto simp: own_key_def set_own_folder_keys)
  next
    case 7
    then show ?thesis
      by (simp add: d)
        (intro exI conjI, rule refl, auto simp: own_key_def set_own_folder_keys raw_keys_eq)
  qed
qed

subsection \<open>Rows\<close>

text \<open>No table holds a row of the session, nor one keyed by a document of \<open>docs\<close>.\<close>

definition rows_gone :: "string \<Rightarrow> session_ref \<Rightarrow> string list \<Rightarrow> 'a erase_db_scheme \<Rightarrow> bool" where
  "rows_gone c ref docs db \<longleftrightarrow>
     (\<forall>d \<in> set (documents db). \<not> own_document c ref d \<and> \<not> (doc_customer d = c \<and> doc_id d \<in> set docs))
     \<and> (\<forall>r \<in> set (q_rows db). \<not> own_queue_row c ref r)
     \<and> (\<forall>r \<in> set (ingestion_events db). \<not> own_event_row c ref r)
     \<and> (\<forall>r \<in> set (session_batch_receipts db). \<not> own_receipt c ref r)
     \<and> (\<forall>r \<in> set (session_streams db). \<not> own_stream c ref r)
     \<and> session_media_count db c ref = 0
     \<and> (\<forall>r \<in> set (chunks db) \<union> set (failed_chunks db) \<union> set (inferred_edges_queue db). \<not> has_doc c docs r)
     \<and> (\<forall>r \<in> set (acl_snapshots db). \<not> has_acl c docs r)
     \<and> (\<forall>n \<in> set (graph_nodes db). \<not> own_node c ref docs n)
     \<and> (\<forall>e \<in> set (pending_edges db). \<not> names_canonical c (agent_node_id ref # docs) e)"

lemma docs_mono:
  assumes "set a \<subseteq> set b"
  shows "has_doc c a r \<Longrightarrow> has_doc c b r" "has_acl c a q \<Longrightarrow> has_acl c b q" "own_node c ref a n \<Longrightarrow> own_node c ref b n"
    "names_canonical c (x # a) e \<Longrightarrow> names_canonical c (x # b) e"
  using assms by (auto simp: has_doc_def has_acl_def own_node_def names_canonical_def)

lemma rows_gone_docs:
  assumes "rows_gone c ref docs db" and "set docs' \<subseteq> set docs"
  shows "rows_gone c ref docs' db"
  using assms(1) docs_mono [OF assms(2)] subsetD [OF assms(2)] unfolding rows_gone_def by (elim conjE) (intro conjI; metis)

lemma same_docs:
  assumes "set a = set b"
  shows "has_doc c a = has_doc c b" "has_acl c a = has_acl c b" "own_node c ref a = own_node c ref b"
    "names_canonical c a = names_canonical c b"
  using assms by (auto simp: has_doc_def has_acl_def own_node_def names_canonical_def fun_eq_iff)

lemma inventory_fields [simp]:
  "set (iv_docs (inventory db c ref known)) =
     insert (session_doc_id c ref) (set known \<union> doc_id ` {d \<in> set (documents db). own_document c ref d})"
  "set (iv_nodes (inventory db c ref known)) =
     n_id ` {n \<in> set (graph_nodes db). own_node c ref (iv_docs (inventory db c ref known)) n}"
  "set (iv_canonical (inventory db c ref known)) = insert (agent_node_id ref) (set (iv_docs (inventory db c ref known)))"
  "iv_queue (inventory db c ref known) = map q_id (filter (own_queue_row c ref) (q_rows db))"
  "iv_events (inventory db c ref known) =
     map (\<lambda>r. (e_source r, e_event r)) (filter (own_event_row c ref) (ingestion_events db))"
  "set (iv_keys (inventory db c ref known)) = {k \<in> set (named_keys db c ref). starts_with k (own_raw c ref)}"
  "iv_in_flight (inventory db c ref known) \<longleftrightarrow> (\<exists>r \<in> set (q_rows db). own_queue_row c ref r \<and> q_status r = PROCESSING)"
  by (auto simp: inventory_def Let_def)

lemma residue_all_zero:
  "residue c ref known db = [] \<longleftrightarrow> (\<forall>kv \<in> set (inventory_counts db c ref (inventory db c ref known)). snd kv = 0)"
  by (simp only: residue_def filter_empty_conv not_not)

text \<open>The verification's counts are all 0 exactly when the rows are gone.\<close>

lemma residue_Nil_iff: "residue c ref known db = [] \<longleftrightarrow> rows_gone c ref (session_doc_id c ref # known) db"
proof -
  let ?docs = "session_doc_id c ref # known"
  show ?thesis
  proof (cases "\<exists>d \<in> set (documents db). own_document c ref d \<or> (doc_customer d = c \<and> doc_id d \<in> set ?docs)")
    case True
    then have "\<not> rows_gone c ref ?docs db" by (auto simp: rows_gone_def)
    moreover from True have "\<exists>d \<in> set (documents db). doc_customer d = c \<and> doc_id d \<in> set (iv_docs (inventory db c ref known))"
      by (auto simp: inventory_def Let_def own_document_def image_iff)
    then have "residue c ref known db \<noteq> []"
      by (auto simp: residue_all_zero inventory_counts_def filter_empty_conv)
    ultimately show ?thesis by simp
  next
    case False
    let ?iv = "inventory db c ref known"
    from False have docs: "set (iv_docs ?iv) = set ?docs" by auto
    then have can: "set (iv_canonical ?iv) = set (agent_node_id ref # ?docs)" by simp
    have nodes: "iv_nodes ?iv = [] \<longleftrightarrow> (\<forall>n \<in> set (graph_nodes db). \<not> own_node c ref ?docs n)"
      by (subst set_empty [symmetric]) (auto simp: same_docs(3) [OF docs])
    show ?thesis
    proof (cases "iv_nodes ?iv = []")
      case True
      show ?thesis
        unfolding residue_all_zero inventory_counts_def rows_gone_def same_docs [OF docs] same_docs(4) [OF can] docs
        using False nodes True by (simp add: filter_empty_conv touches_def has_node_def queued_node_def ball_Un conj_ac)
    next
      case more: False
      then have "residue c ref known db \<noteq> []" by (auto simp: residue_all_zero inventory_counts_def filter_empty_conv)
      moreover from more nodes have "\<not> rows_gone c ref ?docs db" by (simp add: rows_gone_def)
      ultimately show ?thesis by simp
    qed
  qed
qed

lemma update_deletion_parts [simp]:
  "inventory (update_deletion c ref f db) c' ref' known = inventory db c' ref' known"
  "rows_gone c' ref' docs (update_deletion c ref f db) \<longleftrightarrow> rows_gone c' ref' docs db"
  "has_object (update_deletion c ref f db) c' k \<longleftrightarrow> has_object db c' k"
  "named_keys (update_deletion c ref f db) c' ref' = named_keys db c' ref'"
  "read_legal_hold (update_deletion c ref f db) c' = read_legal_hold db c'"
  "legal_hold (update_deletion c ref f db) c' = legal_hold db c'"
  by (simp_all add: update_deletion_def inventory_def named_keys_def rows_gone_def session_media_count_def
      has_object_def read_legal_hold_def legal_hold_def cong: option.case_cong)

lemma cut_objects_parts [simp]:
  "inventory (cut_objects c p db) c' ref' known = inventory db c' ref' known"
  "rows_gone c' ref' docs (cut_objects c p db) \<longleftrightarrow> rows_gone c' ref' docs db"
  "named_keys (cut_objects c p db) c' ref' = named_keys db c' ref'"
  "find_deletion (cut_objects c p db) c' ref' = find_deletion db c' ref'"
  "legal_hold (cut_objects c p db) c' = legal_hold db c'"
  by (simp_all add: cut_objects_def inventory_def named_keys_def rows_gone_def session_media_count_def
      find_deletion_def read_legal_hold_def legal_hold_def cong: option.case_cong)

lemma delete_rows_parts [simp]:
  "objects (delete_rows c ref iv db) = objects db"
  "session_deletions (delete_rows c ref iv db) = session_deletions db"
  "customers (delete_rows c ref iv db) = customers db"
  "legal_hold_meta (delete_rows c ref iv db) = legal_hold_meta db"
  by (simp_all add: delete_rows_def delete_graph_def Let_def)

lemma delete_rows_other_parts [simp]:
  "has_object (delete_rows c ref iv db) c' k \<longleftrightarrow> has_object db c' k"
  "find_deletion (delete_rows c ref iv db) c' ref' = find_deletion db c' ref'"
  "legal_hold (delete_rows c ref iv db) c' = legal_hold db c'"
  by (simp_all add: has_object_def find_deletion_def read_legal_hold_def legal_hold_def cong: option.case_cong)

lemma delete_rows_tables:
  "documents (delete_rows c ref iv db) = sql_delete (\<lambda>d. doc_customer d = c \<and> doc_id d \<in> set (iv_docs iv)) (documents db)"
  "q_rows (delete_rows c ref iv db) = sql_delete (\<lambda>r. q_customer r = c \<and> q_id r \<in> set (iv_queue iv)) (q_rows db)"
  "ingestion_events (delete_rows c ref iv db) =
     sql_delete (\<lambda>r. e_customer r = c \<and> (e_source r, e_event r) \<in> set (iv_events iv)) (ingestion_events db)"
  "session_batch_receipts (delete_rows c ref iv db) = sql_delete (own_receipt c ref) (session_batch_receipts db)"
  "session_streams (delete_rows c ref iv db) = sql_delete (own_stream c ref) (session_streams db)"
  "session_media (delete_rows c ref iv db) = map_option (sql_delete (own_media c ref)) (session_media db)"
  "chunks (delete_rows c ref iv db) = sql_delete (has_doc c (iv_docs iv)) (chunks db)"
  "failed_chunks (delete_rows c ref iv db) = sql_delete (has_doc c (iv_docs iv)) (failed_chunks db)"
  "inferred_edges_queue (delete_rows c ref iv db) = sql_delete (has_doc c (iv_docs iv)) (inferred_edges_queue db)"
  "acl_snapshots (delete_rows c ref iv db) = sql_delete (has_acl c (iv_docs iv)) (acl_snapshots db)"
  "pending_edges (delete_rows c ref iv db) = sql_delete (names_canonical c (iv_canonical iv)) (pending_edges db)"
  by (simp_all add: delete_rows_def delete_graph_def Let_def)

lemma lower_degrees_mem:
  assumes "n \<in> set (lower_degrees c ids es t)"
  obtains m where "m \<in> set t" and "n_customer n = n_customer m" "n_id n = n_id m" "n_label n = n_label m"
    "n_canonical n = n_canonical m"
  using assms by (auto simp: lower_degrees_def elim!: sql_update_memE)

text \<open>The row phase leaves no row of the session.\<close>

lemma delete_rows_gone:
  assumes iv_def: "iv = inventory db c ref known"
  shows "rows_gone c ref (iv_docs iv) (delete_rows c ref iv db)"
proof -
  have nodes: "\<not> own_node c ref (iv_docs iv) n"
    if "n \<in> set (graph_nodes (delete_rows c ref iv db))" for n
  proof
    assume own: "own_node c ref (iv_docs iv) n"
    have "n \<in> set (graph_nodes db) \<and> iv_nodes iv = []
        \<or> n_id n \<notin> set (iv_nodes iv)
          \<and> n \<in> set (lower_degrees c (iv_nodes iv) (filter (touches c (iv_nodes iv)) (graph_edges db)) (graph_nodes db))"
      using that own by (auto simp: delete_rows_def delete_graph_def Let_def own_node_def split: if_splits)
    then obtain m where m: "m \<in> set (graph_nodes db)" "n_customer n = n_customer m" "n_id n = n_id m"
      "n_label n = n_label m" "n_canonical n = n_canonical m" and out: "n_id n \<notin> set (iv_nodes iv)"
      by (auto elim!: lower_degrees_mem)
    from m own have "own_node c ref (iv_docs iv) m" by (simp add: own_node_def)
    with m out show False by (simp add: iv_def)
  qed
  have docs: "\<not> own_document c ref d" if "d \<in> set (documents db)" "doc_id d \<notin> set (iv_docs iv)" for d
    using that by (auto simp: iv_def)
  have media: "session_media_count (delete_rows c ref iv db) c ref = 0"
    by (auto simp: delete_rows_tables session_media_count_def filter_empty_conv split: option.splits)
  have can: "set (iv_canonical iv) = set (agent_node_id ref # iv_docs iv)" by (simp add: iv_def)
  have queue: "q_id r \<in> set (iv_queue iv) \<and> q_customer r = c" if "r \<in> set (q_rows db)" "own_queue_row c ref r" for r
    using that by (auto simp: iv_def own_queue_row_def)
  have events: "(e_source r, e_event r) \<in> set (iv_events iv) \<and> e_customer r = c"
    if "r \<in> set (ingestion_events db)" "own_event_row c ref r" for r
    using that by (auto simp: iv_def own_event_row_def)
  show ?thesis
    unfolding rows_gone_def
    by (intro conjI)
      (use nodes docs media queue events in \<open>simp_all add: delete_rows_tables ball_Un same_docs(4) [OF can]\<close>,
       auto simp: own_document_def)
qed

subsection \<open>The journal\<close>

definition journal :: "'a sup_db_scheme \<Rightarrow> string \<Rightarrow> session_ref \<Rightarrow> string set" where
  "journal db c ref = (case find_deletion db c ref of None \<Rightarrow> {} | Some r \<Rightarrow> set (d_pending_keys r))"

text \<open>The deletion is on record, and every object with a key in \<open>K\<close> is named by a row of the session or by that
  record: a later run finds it.\<close>

definition tracked :: "string \<Rightarrow> session_ref \<Rightarrow> (string \<Rightarrow> bool) \<Rightarrow> 'a erase_db_scheme \<Rightarrow> bool" where
  "tracked c ref K db \<longleftrightarrow> find_deletion db c ref \<noteq> None \<and>
     (\<forall>k. K k \<longrightarrow> has_object db c k \<longrightarrow> k \<in> set (named_keys db c ref) \<or> k \<in> journal db c ref)"

text \<open>What the others may do between the steps while the deletion is on record: never lose track of an object, and
  create none in \<open>Q\<close>.\<close>

definition bystanders ::
  "string \<Rightarrow> session_ref \<Rightarrow> (string \<Rightarrow> bool) \<Rightarrow> (string \<Rightarrow> bool) \<Rightarrow> ('a erase_db_scheme \<Rightarrow> 'a erase_db_scheme) \<Rightarrow> bool" where
  "bystanders c ref K Q f \<longleftrightarrow>
     (\<forall>d. tracked c ref K d \<longrightarrow> tracked c ref K (f d) \<and> (\<forall>k. Q k \<longrightarrow> has_object (f d) c k \<longrightarrow> has_object d c k))"

lemma deletion_of_update [simp]:
  "deletion_of c ref (r\<lparr>d_pending_keys := ks\<rparr>) = deletion_of c ref r"
  "deletion_of c ref (r\<lparr>d_attempted_at := ta\<rparr>) = deletion_of c ref r"
  "deletion_of c ref (r\<lparr>d_status := s\<rparr>) = deletion_of c ref r"
  "deletion_of c ref (r\<lparr>d_error := e\<rparr>) = deletion_of c ref r"
  "deletion_of c ref (r\<lparr>d_deleted_at := td\<rparr>) = deletion_of c ref r"
  by (simp_all add: deletion_of_def)

lemma find_sql_update:
  "(\<And>r. p r \<Longrightarrow> p (f r)) \<Longrightarrow> find p (sql_update p f t) = map_option f (find p t)"
  by (induction t) auto

lemma find_update_deletion:
  assumes "\<And>r. deletion_of c ref r \<Longrightarrow> deletion_of c ref (f r)"
  shows "find_deletion (update_deletion c ref f db) c ref = map_option f (find_deletion db c ref)"
  using find_sql_update [of "deletion_of c ref" f, OF assms]
  by (simp add: find_deletion_def update_deletion_def split: option.splits)

lemma clear_journal_parts [simp]:
  "has_object (clear_journal c ref gone db) c' k \<longleftrightarrow> has_object db c' k"
  "named_keys (clear_journal c ref gone db) c' ref' = named_keys db c' ref'"
  "rows_gone c' ref' docs (clear_journal c ref gone db) \<longleftrightarrow> rows_gone c' ref' docs db"
  "legal_hold (clear_journal c ref gone db) c' = legal_hold db c'"
  "journal (clear_journal c ref gone db) c ref = journal db c ref - set gone"
  by (auto simp: clear_journal_def journal_def find_update_deletion split: option.splits)

lemma finish_parts [simp]:
  "has_object (finish c ref status found err now db) c' k \<longleftrightarrow> has_object db c' k"
  "named_keys (finish c ref status found err now db) c' ref' = named_keys db c' ref'"
  "rows_gone c' ref' docs (finish c ref status found err now db) \<longleftrightarrow> rows_gone c' ref' docs db"
  "journal (finish c ref status found err now db) c ref = journal db c ref"
  by (auto simp: finish_def journal_def find_update_deletion split: option.splits)

lemma record_stays [simp]:
  "find_deletion (clear_journal c ref gone db) c ref = None \<longleftrightarrow> find_deletion db c ref = None"
  "find_deletion (finish c ref status found err now db) c ref = None \<longleftrightarrow> find_deletion db c ref = None"
  by (simp_all add: clear_journal_def finish_def find_update_deletion)

lemma tracked_finish [simp]: "tracked c ref K (finish c ref status found err now db) \<longleftrightarrow> tracked c ref K db"
  by (simp add: tracked_def)

lemma journal_cut [simp]: "journal (cut_objects c p db) c' ref' = journal db c' ref'"
  by (simp add: journal_def find_deletion_def cut_objects_def)

lemma tracked_cut: "tracked c ref K db \<Longrightarrow> tracked c ref K (cut_objects c p db)"
  by (auto simp: tracked_def)

lemma journal_and_delete_rows_stops:
  "journal_and_delete_rows c ref known now db = (db1, Inl s) \<Longrightarrow> db1 = db"
  by (auto simp: journal_and_delete_rows_def Let_def split: option.splits)

lemma journal_and_delete_rows_goes:
  assumes "journal_and_delete_rows c ref known now db = (db1, Inr (rows, keys, iv))"
  obtains r where "read_legal_hold db c = None" "iv = inventory db c ref known" "find_deletion db c ref = Some r"
    "keys = merge_keys (d_pending_keys r) (iv_keys iv)"
    "db1 = delete_rows c ref iv (update_deletion c ref (\<lambda>r. r\<lparr>d_pending_keys := merge_keys (d_pending_keys r) (iv_keys iv),
        d_attempted_at := Some now\<rparr>) db)"
  using assms by (auto simp: journal_and_delete_rows_def Let_def split: option.splits)

text \<open>The row phase moves the keys of the rows into the journal in the step that removes the rows.\<close>

lemma row_phase:
  assumes run: "journal_and_delete_rows c ref known now db = (db1, Inr (rows, keys, iv))"
    and own: "\<forall>k. K k \<longrightarrow> starts_with k (own_raw c ref)" and tr: "tracked c ref K db"
  shows "tracked c ref K db1" and "\<And>k. K k \<Longrightarrow> has_object db1 c k \<Longrightarrow> k \<in> set keys"
    and "rows_gone c ref (iv_docs iv) db1" and "journal db1 c ref = set keys"
proof -
  obtain r where r: "iv = inventory db c ref known" "find_deletion db c ref = Some r"
    "keys = merge_keys (d_pending_keys r) (iv_keys iv)"
    "db1 = delete_rows c ref iv (update_deletion c ref (\<lambda>r. r\<lparr>d_pending_keys := merge_keys (d_pending_keys r) (iv_keys iv),
        d_attempted_at := Some now\<rparr>) db)"
    using run by (rule journal_and_delete_rows_goes)
  show j: "journal db1 c ref = set keys"
    by (simp add: r(4) journal_def find_update_deletion r(2,3))
  show k: "k \<in> set keys" if "K k" "has_object db1 c k" for k
  proof -
    have "k \<in> set (named_keys db c ref) \<or> k \<in> journal db c ref"
      using that tr by (simp add: r(4) tracked_def)
    then show ?thesis using mp [OF spec [OF own] that(1)] by (simp add: r(1,2,3) journal_def merge_keys_def) blast
  qed
  have "find_deletion db1 c ref \<noteq> None" by (simp add: r(2,4) find_update_deletion)
  then show "tracked c ref K db1" using k j by (simp add: tracked_def)
  show "rows_gone c ref (iv_docs iv) db1"
    unfolding r(4) by (rule delete_rows_gone) (simp add: r(1))
qed

subsection \<open>A round\<close>

text \<open>How a round that reaches its end goes.\<close>

lemma erase_round_goes:
  assumes "erase_round others sw c ref now known db = (db', Inr ro)"
  obtains db1 rows keys iv db3 n failed left where
    "journal_and_delete_rows c ref known now (others 0 db) = (db1, Inr (rows, keys, iv))"
    "legal_hold (others 1 db1) c = Inr None"
    "delete_objects sw c ref (sort keys) (others 2 (others 1 db1)) = (db3, Inr (n, failed, left))"
    "db' = clear_journal c ref (filter (\<lambda>k. k \<notin> set failed) keys) (others 3 db3)"
    "ro = \<lparr>ro_found = (rows \<noteq> [] \<or> n \<noteq> 0), ro_failed = failed, ro_left = left,
       ro_known = known @ iv_docs iv, ro_in_flight = iv_in_flight iv\<rparr>"
  using assms by (auto simp: erase_round_def Let_def split: prod.splits sum.splits option.splits)

lemma erase_round_stops:
  assumes "erase_round others sw c ref now known db = (db', Inl x)"
  obtains "db' = others 0 db"
  | db1 rows keys iv where "journal_and_delete_rows c ref known now (others 0 db) = (db1, Inr (rows, keys, iv))"
      "db' = others 1 db1"
  | db1 rows keys iv s where "journal_and_delete_rows c ref known now (others 0 db) = (db1, Inr (rows, keys, iv))"
      "delete_objects sw c ref (sort keys) (others 2 (others 1 db1)) = (db', Inl s)"
  using assms
  by (auto simp: erase_round_def Let_def dest: journal_and_delete_rows_stops
      split: prod.splits sum.splits option.splits)

lemma bystandersD:
  assumes "bystanders c ref K Q f"
  shows "tracked c ref K d \<Longrightarrow> tracked c ref K (f d)"
    and "tracked c ref K d \<Longrightarrow> Q k \<Longrightarrow> has_object (f d) c k \<Longrightarrow> has_object d c k"
  using assms by (auto simp: bystanders_def)

text \<open>A round that ends keeps track of every object; when it failed for no key, none of \<open>K\<close> is left, and when
  it listed no own object, none is there.\<close>

lemma erase_round_end:
  assumes run: "erase_round others sw c ref now known db = (db', Inr ro)"
    and own: "\<forall>k. K k \<longrightarrow> starts_with k (own_raw c ref)" and tr: "tracked c ref K db"
    and KQ: "\<forall>k. K k \<longrightarrow> Q k" and w: "\<And>n. bystanders c ref K Q (others n)"
  shows "tracked c ref K db'"
    and "ro_failed ro = [] \<Longrightarrow> K k \<Longrightarrow> \<not> has_object db' c k"
    and "ro_left ro = 0 \<Longrightarrow> own_key c ref k \<Longrightarrow> Q k \<Longrightarrow> \<not> has_object db' c k"
proof -
  from run obtain db1 rows keys iv db3 n failed left where
    j: "journal_and_delete_rows c ref known now (others 0 db) = (db1, Inr (rows, keys, iv))"
    and d: "delete_objects sw c ref (sort keys) (others 2 (others 1 db1)) = (db3, Inr (n, failed, left))"
    and db': "db' = clear_journal c ref (filter (\<lambda>k. k \<notin> set failed) keys) (others 3 db3)"
    and ro: "ro_failed ro = failed" "ro_left ro = left"
    by (rule erase_round_goes) auto
  note rp = row_phase [where K = K, OF j own bystandersD(1) [OF w tr]]
  obtain p where p: "db3 = cut_objects c p (others 2 (others 1 db1))" "left = card (raw_keys db3 c ref)"
    "\<And>k. k \<in> set keys \<Longrightarrow> k \<notin> set failed \<Longrightarrow> p k"
    using delete_objects_cut [of sw c ref "sort keys" "others 2 (others 1 db1)"] d by auto
  have tr2: "tracked c ref K (others 1 db1)" "tracked c ref K (others 2 (others 1 db1))"
    by (intro bystandersD(1) [OF w] rp(1))+
  then have tr3: "tracked c ref K db3" unfolding p(1) by (intro tracked_cut)
  have before: "has_object db1 c k" if "Q k" "has_object (others 2 (others 1 db1)) c k" for k
    using bystandersD(2) [OF w rp(1) that(1)] bystandersD(2) [OF w tr2(1) that] by blast
  have gone: "\<not> has_object db' c k" if k: "K k" "k \<notin> set failed" for k
  proof
    have q: "Q k" using KQ k(1) by blast
    assume "has_object db' c k"
    then have "has_object (others 3 db3) c k" by (simp add: db')
    from bystandersD(2) [OF w tr3 q this] have obj: "has_object (others 2 (others 1 db1)) c k" "\<not> p k"
      by (simp_all add: p(1))
    have "p k" using rp(2) [OF k(1) before [OF q obj(1)]] p(3) k(2) by blast
    with obj show False by simp
  qed
  have "tracked c ref K (others 3 db3)" by (rule bystandersD(1) [OF w tr3])
  with gone show "tracked c ref K db'" by (auto simp: tracked_def db')
  show "\<not> has_object db' c k" if "ro_failed ro = []" "K k" using gone that ro(1) by simp
  show "\<not> has_object db' c k" if "ro_left ro = 0" "own_key c ref k" "Q k"
  proof -
    have "raw_keys db3 c ref = {}" using that(1) p(2) ro(2) by simp
    with that(2) have "\<not> has_object db3 c k" by (auto simp: raw_keys_eq)
    then show ?thesis using bystandersD(2) [OF w tr3 that(3)] by (auto simp: db')
  qed
qed

lemma erase_round_tracked:
  assumes run: "erase_round others sw c ref now known db = (db', res)"
    and own: "\<forall>k. K k \<longrightarrow> starts_with k (own_raw c ref)" and tr: "tracked c ref K db"
    and KQ: "\<forall>k. K k \<longrightarrow> Q k" and w: "\<And>n. bystanders c ref K Q (others n)"
  shows "tracked c ref K db'"
proof (cases res)
  case (Inl x)
  note tr0 = bystandersD(1) [OF w tr]
  from run [unfolded Inl] show ?thesis
  proof (cases rule: erase_round_stops)
    case 1
    with tr0 show ?thesis by simp
  next
    case (2 db1 rows keys iv)
    show ?thesis unfolding 2(2) by (intro bystandersD(1) [OF w] row_phase(1) [where K = K, OF 2(1) own tr0])
  next
    case (3 db1 rows keys iv s)
    have "tracked c ref K (others 2 (others 1 db1))"
      by (intro bystandersD(1) [OF w] row_phase(1) [where K = K, OF 3(1) own tr0])
    with delete_objects_cut [of sw c ref "sort keys" "others 2 (others 1 db1)"] 3(2)
    show ?thesis by (auto simp: tracked_cut)
  qed
next
  case (Inr ro)
  show ?thesis using erase_round_end(1) [where K = K, OF run [unfolded Inr] own tr KQ w] .
qed

subsection \<open>The whole erasure\<close>

lemma stop_status_not_done [simp]: "fst (stop_status s) \<noteq> ''done''"
  by (simp add: stop_status_def split: stop.splits)

lemma erase_outcome_done:
  assumes "erase_outcome others sw bucket_ok c ref now db = (db1, (''done'', e), found)"
  obtains i known dbA dbB ro where
    "erase_round (others i) (sw i) c ref now known dbA = (dbB, Inr ro)" "db1 = others 3 0 dbB"
    "fst (verify c ref ro db1) = ''done''"
    "known = [] \<and> dbA = others 0 0 db \<and> i = 1
     \<or> (\<exists>ro1. erase_round (others 1) (sw 1) c ref now [] (others 0 0 db) = (dbA, Inr ro1) \<and> known = ro_known ro1)"
proof -
  have ns: "stop_status s \<noteq> (''done'', e)" for s by (metis fst_conv stop_status_not_done)
  note split = erase_outcome_def Let_def
  obtain d1 res where r1: "erase_round (others 1) (sw 1) c ref now [] (others 0 0 db) = (d1, res)" by fastforce
  from assms r1 ns obtain ro where ro: "res = Inr ro"
    by (cases res) (auto simp: split split: sum.splits option.splits if_splits)
  show ?thesis
  proof (cases "ro_in_flight ro")
    case False
    with assms r1 ro ns have "db1 = others 3 0 d1" "fst (verify c ref ro db1) = ''done''"
      by (auto simp: split split: sum.splits option.splits if_splits)
    with that [OF r1 [unfolded ro]] show ?thesis by simp
  next
    case True
    obtain d2 res2 where r2: "erase_round (others 2) (sw 2) c ref now (ro_known ro) d1 = (d2, res2)" by fastforce
    from assms r1 r2 ro ns True obtain ro2 where ro2: "res2 = Inr ro2"
      by (cases res2) (auto simp: split split: sum.splits option.splits if_splits)
    with assms r1 r2 ro ns True have "db1 = others 3 0 d2" "fst (verify c ref ro2 db1) = ''done''"
      by (auto simp: split split: sum.splits option.splits if_splits)
    with that [OF r2 [unfolded ro2]] r1 ro show ?thesis by simp
  qed
qed

lemma verify_done:
  "fst (verify c ref ro db) = ''done'' \<longleftrightarrow>
     rows_gone c ref (session_doc_id c ref # ro_known ro) db \<and> ro_left ro = 0 \<and> ro_failed ro = []"
  by (simp add: verify_def residue_Nil_iff)

lemma erase_round_known:
  assumes "erase_round others sw c ref now known db = (db', Inr ro)"
  shows "set (ro_known ro) = set known \<union> insert (session_doc_id c ref)
    (set known \<union> doc_id ` {d \<in> set (documents (others 0 db)). own_document c ref d})"
  using assms
proof (rule erase_round_goes)
  fix db1 rows keys iv db3 n failed left
  assume j: "journal_and_delete_rows c ref known now (others 0 db) = (db1, Inr (rows, keys, iv))"
    and ro: "ro = \<lparr>ro_found = (rows \<noteq> [] \<or> n \<noteq> 0), ro_failed = failed, ro_left = left,
       ro_known = known @ iv_docs iv, ro_in_flight = iv_in_flight iv\<rparr>"
  from j have "iv = inventory (others 0 db) c ref known" by (rule journal_and_delete_rows_goes)
  with ro show ?thesis by simp
qed

lemma last_round_knows:
  assumes last: "erase_round (others i) (sw i) c ref now known dbA = (dbB, Inr ro)"
    and first: "known = [] \<and> dbA = others 0 0 db \<and> i = (1::nat)
     \<or> (\<exists>ro1. erase_round (others 1) (sw 1) c ref now [] (others 0 0 db) = (dbA, Inr ro1) \<and> known = ro_known ro1)"
  shows "set (session_doc_id c ref # map doc_id (filter (own_document c ref) (documents (others 1 0 (others 0 0 db)))))
    \<subseteq> set (session_doc_id c ref # ro_known ro)"
  using first
proof
  assume "known = [] \<and> dbA = others 0 0 db \<and> i = 1"
  with erase_round_known [OF last] show ?thesis by auto
next
  assume "\<exists>ro1. erase_round (others 1) (sw 1) c ref now [] (others 0 0 db) = (dbA, Inr ro1) \<and> known = ro_known ro1"
  then obtain ro1 where "erase_round (others 1) (sw 1) c ref now [] (others 0 0 db) = (dbA, Inr ro1)" "known = ro_known ro1"
    by blast
  with erase_round_known [OF this(1)] erase_round_known [OF last] show ?thesis by auto
qed

lemma erase_outcome_tracked:
  assumes run: "erase_outcome others sw bucket_ok c ref now db = (db1, st, found)"
    and own: "\<forall>k. K k \<longrightarrow> starts_with k (own_raw c ref)" and tr: "tracked c ref K db"
    and KQ: "\<forall>k. K k \<longrightarrow> Q k" and w: "\<forall>i n. bystanders c ref K Q (others i n)"
  shows "tracked c ref K db1"
proof -
  note w' = spec [OF spec [OF w]]
  note keeps = bystandersD(1) [OF w']
  note rd = erase_round_tracked [where K = K, OF _ own _ KQ w']
  have tr0: "tracked c ref K (others 0 0 db)" using tr by (rule keeps)
  show ?thesis
  proof (cases "erase_round (others 1) (sw 1) c ref now [] (others 0 0 db)")
    case (Pair d1 res)
    note t1 = rd [OF Pair tr0]
    show ?thesis
    proof (cases "erase_round (others 2) (sw 2) c ref now (ro_known (projr res)) d1")
      case two: (Pair d2 res2)
      note t2 = rd [OF two t1]
      from run tr0 t1 t2 Pair two show ?thesis
        by (auto simp: erase_outcome_def Let_def keeps split: sum.splits option.splits if_splits)
    qed
  qed
qed

text \<open>
  Claim C9. A deletion that stops anywhere (a legal hold, an unreachable store, a request that raises after
  deleting a part, keys the store fails for, a lost final write) never loses an object: whatever set \<open>K\<close> of raw
  keys of the session's source folder is taken, if every existing object of \<open>K\<close> was named by a row of the
  session or by its deletion record before, it still is afterwards, so a resumed run finds it. Transactions
  of others run between any two steps; they may not orphan or create an object of \<open>K\<close> themselves.
\<close>

theorem stopped_erase_keeps_keys_findable:
  assumes "\<forall>k. K k \<longrightarrow> starts_with k (own_raw c ref)"
    and "\<forall>i n. bystanders c ref K K (others i n)" and "find_deletion db c ref \<noteq> None"
    and "\<forall>k. K k \<longrightarrow> has_object db c k \<longrightarrow> k \<in> set (named_keys db c ref) \<or> k \<in> journal db c ref"
    and "erase_session others sw bucket_ok fin_ok c ref now db = (db', status)"
  shows "find_deletion db' c ref \<noteq> None
    \<and> (\<forall>k. K k \<longrightarrow> has_object db' c k \<longrightarrow> k \<in> set (named_keys db' c ref) \<or> k \<in> journal db' c ref)"
proof -
  obtain db1 st found where out: "erase_outcome others sw bucket_ok c ref now db = (db1, st, found)"
    by (metis prod.exhaust)
  have "tracked c ref K db" using assms(3,4) by (simp add: tracked_def)
  then have "tracked c ref K db1"
    by (rule erase_outcome_tracked [where K = K and Q = K, OF out assms(1) _ _ assms(2)]) simp
  then have "tracked c ref K (others 4 0 db1)"
    by (rule bystandersD(1) [OF spec [OF spec [OF assms(2)]]])
  then have "tracked c ref K db'" using assms(5) out by (cases st) (auto simp: erase_session_def Let_def split: if_splits)
  then show ?thesis by (simp add: tracked_def)
qed

lemma erase_done_gone:
  assumes run: "erase_session others sw bucket_ok fin_ok c ref now db = (db', ''done'')"
    and own: "\<forall>k. K k \<longrightarrow> starts_with k (own_raw c ref)" and tr: "tracked c ref K db"
    and w: "\<forall>i n. bystanders c ref K (\<lambda>k. K k \<or> own_key c ref k) (others i n)"
    and rows: "\<forall>i n d. find_deletion d c ref \<noteq> None \<longrightarrow> rows_gone c ref docs d \<longrightarrow> rows_gone c ref docs (others i n d)"
    and docs: "docs = session_doc_id c ref
      # map doc_id (filter (own_document c ref) (documents (others 1 0 (others 0 0 db))))"
  shows "rows_gone c ref docs db' \<and> raw_keys db' c ref = {} \<and> (\<forall>k. K k \<longrightarrow> \<not> has_object db' c k)"
proof -
  obtain db1 e found where out: "erase_outcome others sw bucket_ok c ref now db = (db1, (''done'', e), found)"
    and db': "db' = finish c ref ''done'' found e now (others 4 0 db1) \<or> db' = others 4 0 db1"
    using run by (auto simp: erase_session_def Let_def split: prod.splits if_splits)
  let ?Q = "\<lambda>k. K k \<or> own_key c ref k"
  have KQ: "\<forall>k. K k \<longrightarrow> ?Q k" by simp
  note w' = spec [OF spec [OF w]]
  have tr0: "tracked c ref K (others 0 0 db)" using tr by (rule bystandersD(1) [OF w'])
  from out obtain i known dbA dbB ro where
    last: "erase_round (others i) (sw i) c ref now known dbA = (dbB, Inr ro)" "db1 = others 3 0 dbB"
    "fst (verify c ref ro db1) = ''done''"
    and first: "known = [] \<and> dbA = others 0 0 db \<and> i = 1
     \<or> (\<exists>ro1. erase_round (others 1) (sw 1) c ref now [] (others 0 0 db) = (dbA, Inr ro1) \<and> known = ro_known ro1)"
    by (rule erase_outcome_done)
  have trA: "tracked c ref K dbA"
    using first tr0 erase_round_end(1) [where K = K and Q = ?Q and others = "others 1", OF _ own tr0 KQ w'] by blast
  have sub: "set docs \<subseteq> set (session_doc_id c ref # ro_known ro)"
    unfolding docs by (rule last_round_knows [OF last(1) first])
  note v = last(3) [unfolded verify_done]
  have trB: "tracked c ref K dbB" by (rule erase_round_end(1) [where K = K and Q = ?Q, OF last(1) own trA KQ w'])
  have tr1: "tracked c ref K db1" unfolding last(2) by (rule bystandersD(1) [OF w' trB])
  have "rows_gone c ref docs db1" using v rows_gone_docs [OF _ sub] by blast
  moreover have "find_deletion db1 c ref \<noteq> None" using tr1 by (simp add: tracked_def)
  ultimately have "rows_gone c ref docs (others 4 0 db1)" using rows by blast
  then have "rows_gone c ref docs db'" using db' by auto
  moreover have none: "\<not> has_object db' c k" if "?Q k" for k
  proof -
    have "\<not> has_object dbB c k"
      using erase_round_end(2,3) [where K = K and Q = ?Q, OF last(1) own trA KQ w'] v that by blast
    then have "\<not> has_object (others 4 0 db1) c k"
      using bystandersD(2) [OF w' tr1 that] bystandersD(2) [OF w' trB that] unfolding last(2) by blast
    with db' show ?thesis by auto
  qed
  then have "raw_keys db' c ref = {}" by (auto simp: raw_keys_eq)
  ultimately show ?thesis using none by simp
qed


subsection \<open>A run that is left alone\<close>

lemma legal_hold_none: "legal_hold db c = Inr None \<Longrightarrow> read_legal_hold db c = None"
  by (auto simp: legal_hold_def split: option.splits)

lemma clear_journal_keeps: "find_deletion db c ref \<noteq> None \<Longrightarrow> find_deletion (clear_journal c ref gone db) c ref \<noteq> None"
  by (auto simp: clear_journal_def find_update_deletion)

text \<open>The state after the row phase.\<close>

abbreviation after_rows :: "string \<Rightarrow> session_ref \<Rightarrow> inventory \<Rightarrow> time \<Rightarrow> 'a erase_db_scheme \<Rightarrow> 'a erase_db_scheme" where
  "after_rows c ref iv now db \<equiv> delete_rows c ref iv (update_deletion c ref
     (\<lambda>r. r\<lparr>d_pending_keys := merge_keys (d_pending_keys r) (iv_keys iv), d_attempted_at := Some now\<rparr>) db)"

lemma row_phase_runs:
  assumes "legal_hold db c = Inr None" and "find_deletion db c ref = Some r" and "iv = inventory db c ref known"
  shows "journal_and_delete_rows c ref known now db = (after_rows c ref iv now db,
    Inr (rows_deleted c ref iv db, merge_keys (d_pending_keys r) (iv_keys iv), iv))"
  by (simp add: journal_and_delete_rows_def Let_def legal_hold_none [OF assms(1)] assms(2,3))

lemma quiet_round:
  assumes up: "\<forall>i. sw_up sw i" and ok: "\<forall>k. \<not> sw_fails sw k"
    and hold: "legal_hold db c = Inr None" and rec: "find_deletion db c ref \<noteq> None"
  obtains db' ro where "erase_round (\<lambda>_ d. d) sw c ref now known db = (db', Inr ro)"
    "fst (verify c ref ro db') = ''done''" "legal_hold db' c = Inr None" "find_deletion db' c ref \<noteq> None"
proof -
  from rec obtain r where r: "find_deletion db c ref = Some r" by auto
  define iv where "iv = inventory db c ref known"
  define db1 where "db1 = after_rows c ref iv now db"
  let ?keys = "merge_keys (d_pending_keys r) (iv_keys iv)"
  have j: "journal_and_delete_rows c ref known now db = (db1, Inr (rows_deleted c ref iv db, ?keys, iv))"
    unfolding db1_def by (rule row_phase_runs [OF hold r iv_def])
  have hold1: "legal_hold db1 c = Inr None" using hold by (simp add: db1_def)
  have rec1: "find_deletion db1 c ref \<noteq> None" using r by (simp add: db1_def find_update_deletion)
  obtain p n where p: "fst (delete_objects sw c ref (sort ?keys) db1) = cut_objects c p db1"
    and n: "snd (delete_objects sw c ref (sort ?keys) db1) = Inr (n, [], 0)"
    using delete_objects_cut [of sw c ref "sort ?keys" db1] up ok by auto
  then have d: "delete_objects sw c ref (sort ?keys) db1 = (cut_objects c p db1, Inr (n, [], 0))"
    by (metis prod.collapse)
  let ?db' = "clear_journal c ref (filter (\<lambda>k. k \<notin> set []) ?keys) (cut_objects c p db1)"
  let ?ro = "\<lparr>ro_found = (rows_deleted c ref iv db \<noteq> [] \<or> n \<noteq> 0), ro_failed = [], ro_left = 0,
      ro_known = known @ iv_docs iv, ro_in_flight = iv_in_flight iv\<rparr>"
  have "erase_round (\<lambda>_ d. d) sw c ref now known db = (?db', Inr ?ro)"
    by (simp add: erase_round_def j hold1 d)
  moreover have "rows_gone c ref (iv_docs iv) db1"
    unfolding db1_def by (rule delete_rows_gone) (simp add: iv_def)
  then have "rows_gone c ref (session_doc_id c ref # known @ iv_docs iv) ?db'"
    by (simp, elim rows_gone_docs) (auto simp: iv_def)
  then have "fst (verify c ref ?ro ?db') = ''done''" by (simp add: verify_done)
  moreover have "legal_hold ?db' c = Inr None" using hold1 by simp
  moreover have "find_deletion ?db' c ref \<noteq> None" by (rule clear_journal_keeps) (simp add: rec1)
  ultimately show ?thesis by (rule that)
qed

text \<open>A recorded session of a known tenant without hold is erased by one run that is left alone, whatever an earlier
  run left behind, and the record says so.\<close>

lemma quiet_erase:
  assumes "legal_hold db c = Inr None" and "find_deletion db c ref \<noteq> None"
    and "\<forall>n i. sw_up (sw n) i" and "\<forall>n k. \<not> sw_fails (sw n) k"
  shows "\<exists>db' r. erase_session (\<lambda>_ _ d. d) sw True True c ref now db = (db', ''done'')
    \<and> find_deletion db' c ref = Some r \<and> d_status r = ''done'' \<and> d_deleted_at r \<noteq> None"
proof -
  have "\<exists>db1 e found. erase_outcome (\<lambda>_ _ d. d) sw True c ref now db = (db1, (''done'', e), found)
      \<and> find_deletion db1 c ref \<noteq> None"
  proof -
    obtain d1 ro where one: "erase_round (\<lambda>_ d. d) (sw 1) c ref now [] db = (d1, Inr ro)"
      "fst (verify c ref ro d1) = ''done''" "legal_hold d1 c = Inr None" "find_deletion d1 c ref \<noteq> None"
      by (rule quiet_round [of "sw 1" db c ref now "[]"]) (use assms in auto)
    obtain d2 ro2 where two: "erase_round (\<lambda>_ d. d) (sw 2) c ref now (ro_known ro) d1 = (d2, Inr ro2)"
      "fst (verify c ref ro2 d2) = ''done''" "find_deletion d2 c ref \<noteq> None"
      by (rule quiet_round [of "sw 2" d1 c ref now "ro_known ro"]) (use assms(3,4) one(3,4) in auto)
    obtain e1 e2 where "verify c ref ro d1 = (''done'', e1)" "verify c ref ro2 d2 = (''done'', e2)"
      using one(2) two(2) by (metis prod.collapse)
    with one two show ?thesis
      by (cases "ro_in_flight ro") (simp_all add: erase_outcome_def assms(1))
  qed
  then obtain db1 e found r where out: "erase_outcome (\<lambda>_ _ d. d) sw True c ref now db = (db1, (''done'', e), found)"
    "find_deletion db1 c ref = Some r" by auto
  then show ?thesis
    by (simp add: erase_session_def finish_def find_update_deletion)
qed

lemma erase_done_status:
  assumes "erase_session others sw bucket_ok True c ref now db = (db', ''done'')" and "session_deletions db' = Some t"
    and "r \<in> set t" and "deletion_of c ref r"
  shows "d_status r = ''done'' \<and> d_deleted_at r \<noteq> None"
  using assms
  by (auto simp: erase_session_def finish_def update_deletion_def sql_update_def Let_def split: prod.splits if_splits)

subsection \<open>Sessions do not share rows or objects\<close>

lemma id_char_not [simp]: "\<not> id_char CHR ''/''" "\<not> id_char CHR '':''"
  by (simp_all add: id_char_def)

lemma valid_id_chars:
  assumes "valid_session_id sid"
  shows "CHR ''/'' \<notin> set sid" "CHR '':'' \<notin> set sid" "sid \<notin> {''sessions-v2'', ''media-staging''}"
  using assms by (auto simp: valid_session_id_def list_all_iff RESERVED_IDS_def MEDIA_STAGING_FOLDER_def)

lemma split_unique:
  "x \<notin> set a \<Longrightarrow> x \<notin> set b \<Longrightarrow> a @ x # r = b @ x # s \<longleftrightarrow> a = b \<and> r = s"
proof (induction a arbitrary: b)
  case Nil
  then show ?case by (cases b) auto
next
  case (Cons y a)
  then show ?case by (cases b) auto
qed

lemma agent_source_chars:
  "src \<in> set (map source_value AGENT_SESSION_SOURCES) \<Longrightarrow> CHR ''/'' \<notin> set src"
  by (auto simp: AGENT_SESSION_SOURCES_def)

text \<open>The first segment of an own key below the source's folder is the session's id or a reserved name, and then the
  second is the id.\<close>

lemma own_key_segments:
  assumes "own_key c ref k" and "CHR ''/'' \<notin> set (ref_session ref)"
  obtains seg rest where "k = own_raw c ref @ seg @ CHR ''/'' # rest" "CHR ''/'' \<notin> set seg"
    "seg = ref_session ref \<or> seg \<in> {''sessions-v2'', ''media-staging''} \<and> (\<exists>y. rest = ref_session ref @ CHR ''/'' # y)"
proof -
  note names = v2_prefix_def staging_prefix_def media_staging_prefix_def MEDIA_STAGING_FOLDER_def own_raw_def
    ref_folder_def session_folder_def
  from assms(1) consider r where "k = v2_prefix c ref @ r" | r where "k = staging_prefix c ref @ r"
    | r where "k = ref_folder c ref @ r"
    by (auto simp: own_key_def starts_with_iff is_own_folder_key_iff)
  then show ?thesis
  proof cases
    case 1
    show ?thesis by (rule that [of "''sessions-v2''" "ref_session ref @ CHR ''/'' # r"]) (auto simp: 1 names)
  next
    case 2
    show ?thesis by (rule that [of "''media-staging''" "ref_session ref @ CHR ''/'' # r"]) (auto simp: 2 names)
  next
    case 3
    show ?thesis by (rule that [of "ref_session ref" r]) (auto simp: 3 names assms(2))
  qed
qed

lemma own_key_disjoint:
  assumes a: "own_key c a k" "valid_session_id (ref_session a)" "ref_source a \<in> set (map source_value AGENT_SESSION_SOURCES)"
    and b: "own_key c b k" "valid_session_id (ref_session b)" "ref_source b \<in> set (map source_value AGENT_SESSION_SOURCES)"
  shows "a = b"
proof -
  note va = valid_id_chars [OF a(2)] and vb = valid_id_chars [OF b(2)]
  obtain sa ra where ka: "k = own_raw c a @ sa @ CHR ''/'' # ra" "CHR ''/'' \<notin> set sa"
    "sa = ref_session a \<or> sa \<in> {''sessions-v2'', ''media-staging''} \<and> (\<exists>y. ra = ref_session a @ CHR ''/'' # y)"
    using a(1) va(1) by (rule own_key_segments)
  obtain sb rb where kb: "k = own_raw c b @ sb @ CHR ''/'' # rb" "CHR ''/'' \<notin> set sb"
    "sb = ref_session b \<or> sb \<in> {''sessions-v2'', ''media-staging''} \<and> (\<exists>y. rb = ref_session b @ CHR ''/'' # y)"
    using b(1) vb(1) by (rule own_key_segments)
  from ka(1) kb(1) have src: "ref_source a = ref_source b" and "sa @ CHR ''/'' # ra = sb @ CHR ''/'' # rb"
    using agent_source_chars [OF a(3)] agent_source_chars [OF b(3)] by (auto simp: own_raw_def split_unique)
  then have seg: "sa = sb" "ra = rb" using ka(2) kb(2) by (simp_all add: split_unique)
  then have "ref_session a = ref_session b"
    using ka(3) kb(3) va(1,3) vb(1,3) by (auto simp: split_unique)
  with src show ?thesis by (cases a, cases b) simp
qed

lemma own_event_disjoint:
  assumes "own_event x ev" "own_event y ev" "CHR '':'' \<notin> set x" "CHR '':'' \<notin> set y"
  shows "x = y"
proof -
  have form: "ev = z \<or> (\<exists>r. ev = z @ CHR '':'' # r)" if "own_event z ev" for z
    using that by (auto simp: own_event_def starts_with_iff)
  from form [OF assms(1)] form [OF assms(2)] assms(3,4) show ?thesis by (auto simp: split_unique)
qed

text \<open>
  Two deletable sessions of a tenant share nothing: no object key lies under the own prefixes of both,
  and no queue row or event row is taken as a row of both. Ids with a slash or a colon and the two
  folder names the store uses itself are refused as session ids, and that is what makes it true.
\<close>

theorem sessions_share_nothing:
  assumes "valid_session_id (ref_session a)" and "valid_session_id (ref_session b)" and "a \<noteq> b"
    and "ref_source a \<in> set (map source_value AGENT_SESSION_SOURCES)"
    and "ref_source b \<in> set (map source_value AGENT_SESSION_SOURCES)"
  shows "raw_keys db c a \<inter> raw_keys db c b = {}
    \<and> (\<forall>r. \<not> (own_queue_row c a r \<and> own_queue_row c b r)) \<and> (\<forall>r. \<not> (own_event_row c a r \<and> own_event_row c b r))"
proof -
  have "a = b" if "ref_source a = ref_source b" "own_event (ref_session a) ev" "own_event (ref_session b) ev" for ev
    using own_event_disjoint [OF that(2,3)] valid_id_chars(2) assms(1,2) that(1) by (cases a, cases b) simp
  then show ?thesis using own_key_disjoint [of c a _ b] assms
    by (auto simp: raw_keys_eq own_queue_row_def own_event_row_def)
qed

subsection \<open>What an erasure leaves alone\<close>

text \<open>Rows that are not the session's stay as they are and in order, and an object goes only when it is own or its key
  was in \<open>P\<close>.\<close>

definition spares :: "string \<Rightarrow> session_ref \<Rightarrow> string set \<Rightarrow> 'a erase_db_scheme \<Rightarrow> 'a erase_db_scheme \<Rightarrow> bool" where
  "spares c ref P db db' \<longleftrightarrow>
     filter (\<lambda>r. \<not> own_queue_row c ref r) (q_rows db') = filter (\<lambda>r. \<not> own_queue_row c ref r) (q_rows db)
     \<and> filter (\<lambda>r. \<not> own_event_row c ref r) (ingestion_events db') = filter (\<lambda>r. \<not> own_event_row c ref r) (ingestion_events db)
     \<and> filter (\<lambda>r. \<not> own_receipt c ref r) (session_batch_receipts db')
       = filter (\<lambda>r. \<not> own_receipt c ref r) (session_batch_receipts db)
     \<and> filter (\<lambda>r. \<not> own_stream c ref r) (session_streams db') = filter (\<lambda>r. \<not> own_stream c ref r) (session_streams db)
     \<and> filter (\<lambda>d. doc_customer d \<noteq> c) (documents db') = filter (\<lambda>d. doc_customer d \<noteq> c) (documents db)
     \<and> map_option (filter (\<lambda>r. \<not> deletion_of c ref r)) (session_deletions db')
       = map_option (filter (\<lambda>r. \<not> deletion_of c ref r)) (session_deletions db)
     \<and> (\<forall>c' k. has_object db c' k \<longrightarrow> has_object db' c' k \<or> c' = c \<and> (own_key c ref k \<or> k \<in> P))"

text \<open>With it, what the next round may delete does not grow, no deletion record comes, goes or moves to another request,
  the tenant's state stays, and what is gone of any session stays gone.\<close>

definition del_id :: "deletion_row \<Rightarrow> string \<times> string \<times> string \<times> string" where
  "del_id r = (d_customer r, d_source r, d_session r, d_deletion_id r)"

definition quiet_step :: "string \<Rightarrow> session_ref \<Rightarrow> string set \<Rightarrow> 'a erase_db_scheme \<Rightarrow> 'a erase_db_scheme \<Rightarrow> bool" where
  "quiet_step c ref P db db' \<longleftrightarrow>
     spares c ref P db db' \<and> (distinct (map q_id (q_rows db)) \<longrightarrow> distinct (map q_id (q_rows db')))
     \<and> (set (named_keys db c ref) \<union> journal db c ref \<subseteq> P \<longrightarrow> set (named_keys db' c ref) \<union> journal db' c ref \<subseteq> P)
     \<and> map_option (map del_id) (session_deletions db') = map_option (map del_id) (session_deletions db)
     \<and> customers db' = customers db \<and> legal_hold_meta db' = legal_hold_meta db
     \<and> (\<forall>ref' docs. rows_gone c ref' docs db \<longrightarrow> rows_gone c ref' docs db')
     \<and> (\<forall>c' k. has_object db' c' k \<longrightarrow> has_object db c' k)"

lemma quiet_step_refl [simp]: "quiet_step c ref P db db"
  by (simp add: quiet_step_def spares_def)

lemma quiet_step_trans: "quiet_step c ref P a b \<Longrightarrow> quiet_step c ref P b d \<Longrightarrow> quiet_step c ref P a d"
  by (auto simp: quiet_step_def spares_def)

lemma filter_sql_update_other:
  "(\<And>r. p r \<Longrightarrow> p (f r)) \<Longrightarrow> filter (\<lambda>r. \<not> p r) (sql_update p f t) = filter (\<lambda>r. \<not> p r) t"
  by (induction t) auto

lemma filter_sql_delete:
  "(\<And>r. r \<in> set t \<Longrightarrow> q r \<Longrightarrow> p r) \<Longrightarrow> filter (\<lambda>r. \<not> p r) (sql_delete q t) = filter (\<lambda>r. \<not> p r) t"
  unfolding sql_delete_def filter_filter by (rule filter_cong) auto

lemma update_deletion_spares:
  assumes "\<And>r. deletion_of c ref r \<Longrightarrow> deletion_of c ref (f r)"
  shows "spares c ref P db (update_deletion c ref f db)"
  using filter_sql_update_other [of "deletion_of c ref" f, OF assms]
  by (simp add: spares_def) (simp add: update_deletion_def option.map_comp comp_def)

lemma update_deletion_rows [simp]:
  "q_rows (update_deletion c ref f db) = q_rows db" "customers (update_deletion c ref f db) = customers db"
  "legal_hold_meta (update_deletion c ref f db) = legal_hold_meta db"
  by (simp_all add: update_deletion_def)

lemma update_deletion_ids:
  "(\<And>r. del_id (f r) = del_id r) \<Longrightarrow>
   map_option (map del_id) (session_deletions (update_deletion c ref f db)) = map_option (map del_id) (session_deletions db)"
  by (simp add: update_deletion_def option.map_comp comp_def map_sql_update)

lemma del_id_update [simp]:
  "del_id (r\<lparr>d_pending_keys := ks\<rparr>) = del_id r" "del_id (r\<lparr>d_attempted_at := ta\<rparr>) = del_id r"
  "del_id (r\<lparr>d_status := s\<rparr>) = del_id r" "del_id (r\<lparr>d_error := e\<rparr>) = del_id r" "del_id (r\<lparr>d_deleted_at := td\<rparr>) = del_id r"
  by (simp_all add: del_id_def)

text \<open>A step that only writes the session's deletion record.\<close>

lemma update_deletion_quiet:
  assumes "\<And>r. del_id (f r) = del_id r" and "\<And>r. set (d_pending_keys (f r)) \<subseteq> set (d_pending_keys r)"
  shows "quiet_step c ref P db (update_deletion c ref f db)"
proof -
  have key: "deletion_of c ref (f r) = deletion_of c ref r" for r
    using assms(1) [of r] by (simp add: del_id_def deletion_of_def)
  have "journal (update_deletion c ref f db) c ref \<subseteq> journal db c ref"
    using assms(2) by (auto simp: journal_def find_update_deletion key split: option.splits)
  then show ?thesis
    using update_deletion_spares [of c ref f P db] update_deletion_ids [of f, OF assms(1)]
    by (auto simp: quiet_step_def key)
qed

lemma clear_journal_quiet: "quiet_step c ref P db (clear_journal c ref gone db)"
  unfolding clear_journal_def by (cases "gone = []") (auto intro!: update_deletion_quiet)

lemma finish_quiet: "quiet_step c ref P db (finish c ref status found err now db)"
  unfolding finish_def by (rule update_deletion_quiet) simp_all

lemma cut_objects_quiet:
  assumes "\<And>k. p k \<Longrightarrow> k \<in> P \<or> own_key c ref k"
  shows "quiet_step c ref P db (cut_objects c p db)"
  using assms by (auto simp: quiet_step_def spares_def) (auto simp: cut_objects_def)

lemma delete_rows_spares:
  assumes iv: "iv = inventory db c ref known" and ids: "distinct (map q_id (q_rows db))"
  shows "spares c ref P db (delete_rows c ref iv db)"
proof -
  have queue: "own_queue_row c ref r"
    if "r \<in> set (q_rows db)" "q_customer r = c \<and> q_id r \<in> set (iv_queue iv)" for r
    using that distinct_key_eq [OF ids] by (auto simp: iv)
  have events: "own_event_row c ref r"
    if "e_customer r = c \<and> (e_source r, e_event r) \<in> set (iv_events iv)" for r
    using that by (auto simp: iv own_event_row_def)
  show ?thesis
    unfolding spares_def
    by (intro conjI)
      (simp_all add: delete_rows_tables filter_sql_delete queue events,
       auto simp: sql_delete_def intro!: filter_cong)
qed

lemma rows_gone_unnamed: "rows_gone c ref docs db \<Longrightarrow> named_keys db c ref = []"
  by (auto simp: named_keys_def rows_gone_def filter_empty_conv)

text \<open>What is gone of a session stays gone when another's rows go.\<close>

lemma graph_node_of_delete:
  assumes "n \<in> set (graph_nodes (delete_rows c ref iv db))"
  obtains m where "m \<in> set (graph_nodes db)" "n_customer n = n_customer m" "n_label n = n_label m" "n_canonical n = n_canonical m"
  using assms by (auto simp: delete_rows_def delete_graph_def Let_def split: if_splits elim!: lower_degrees_mem)

lemma delete_rows_keeps_gone:
  assumes "rows_gone c' ref' docs db"
  shows "rows_gone c' ref' docs (delete_rows c ref iv db)"
proof -
  have nodes: "\<not> own_node c' ref' docs n" if "n \<in> set (graph_nodes (delete_rows c ref iv db))" for n
    using that assms by (elim graph_node_of_delete) (simp add: rows_gone_def own_node_def)
  have media: "session_media_count (delete_rows c ref iv db) c' ref' = 0"
    using assms by (auto simp: rows_gone_def session_media_count_def delete_rows_tables filter_empty_conv split: option.splits)
  show ?thesis
    using assms nodes media unfolding rows_gone_def
    by (elim conjE, intro conjI) (simp_all add: delete_rows_tables ball_Un)
qed

lemma row_phase_quiet:
  assumes run: "journal_and_delete_rows c ref known now db = (db1, Inr (rows, keys, iv))"
    and P: "set (named_keys db c ref) \<union> journal db c ref \<subseteq> P" and ids: "distinct (map q_id (q_rows db))"
  shows "quiet_step c ref P db db1" and "set keys \<subseteq> P"
proof -
  let ?f = "\<lambda>r. r\<lparr>d_pending_keys := merge_keys (d_pending_keys r) (iv_keys iv), d_attempted_at := Some now\<rparr>"
  obtain r where r: "iv = inventory db c ref known" "find_deletion db c ref = Some r"
    "keys = merge_keys (d_pending_keys r) (iv_keys iv)" "db1 = delete_rows c ref iv (update_deletion c ref ?f db)"
    using run by (rule journal_and_delete_rows_goes)
  show keys: "set keys \<subseteq> P" using P by (auto simp: r(1-3) merge_keys_def journal_def)
  have "journal db1 c ref = set keys"
    by (simp add: r(4) journal_def find_update_deletion r(2,3))
  moreover have "rows_gone c ref (iv_docs iv) db1" unfolding r(4) by (rule delete_rows_gone) (simp add: r(1))
  then have "named_keys db1 c ref = []" by (rule rows_gone_unnamed)
  moreover have "distinct (map q_id (q_rows db1))"
    using ids by (simp add: r(4) delete_rows_tables sql_delete_def distinct_map_filter)
  moreover have "spares c ref P db (update_deletion c ref ?f db)" by (rule update_deletion_spares) simp
  moreover have "spares c ref P (update_deletion c ref ?f db) db1"
    unfolding r(4) by (rule delete_rows_spares) (simp_all add: r(1) ids)
  moreover have "map_option (map del_id) (session_deletions db1) = map_option (map del_id) (session_deletions db)"
    by (simp add: r(4) update_deletion_ids)
  moreover have "rows_gone c ref' docs db1" if "rows_gone c ref' docs db" for ref' docs
    unfolding r(4) using that by (intro delete_rows_keeps_gone) simp
  moreover have "customers db1 = customers db" "legal_hold_meta db1 = legal_hold_meta db" "\<And>c' k. has_object db1 c' k = has_object db c' k"
    by (simp_all add: r(4))
  ultimately show "quiet_step c ref P db db1" using keys by (auto simp: quiet_step_def spares_def)
qed

lemma erase_round_quiet:
  assumes run: "erase_round (\<lambda>_ d. d) sw c ref now known db = (db', res)"
    and P: "set (named_keys db c ref) \<union> journal db c ref \<subseteq> P" and ids: "distinct (map q_id (q_rows db))"
  shows "quiet_step c ref P db db'"
proof -
  have cut: "quiet_step c ref P db1 (fst (delete_objects sw c ref (sort keys) db1))" if "set keys \<subseteq> P" for keys db1
  proof -
    obtain p where p: "fst (delete_objects sw c ref (sort keys) db1) = cut_objects c p db1"
      "\<forall>k. p k \<longrightarrow> k \<in> set (sort keys) \<or> own_key c ref k"
      using delete_objects_cut by blast
    show ?thesis unfolding p(1) by (rule cut_objects_quiet) (use p(2) that in auto)
  qed
  show ?thesis
  proof (cases res)
    case (Inl x)
    from run [unfolded Inl] show ?thesis
    proof (cases rule: erase_round_stops)
      case (2 db1 rows keys iv)
      then show ?thesis using row_phase_quiet [OF 2(1) P ids] by simp
    next
      case (3 db1 rows keys iv s)
      then show ?thesis
        using row_phase_quiet [OF 3(1) P ids] cut [of keys db1] by (auto intro: quiet_step_trans)
    qed simp
  next
    case (Inr ro)
    from run [unfolded Inr] show ?thesis
    proof (rule erase_round_goes)
      fix db1 rows keys iv db3 n failed left
      assume j: "journal_and_delete_rows c ref known now db = (db1, Inr (rows, keys, iv))"
        and d: "delete_objects sw c ref (sort keys) db1 = (db3, Inr (n, failed, left))"
        and db': "db' = clear_journal c ref (filter (\<lambda>k. k \<notin> set failed) keys) db3"
      show ?thesis
        using row_phase_quiet [OF j P ids] cut [of keys db1] clear_journal_quiet [of c ref P db3]
        unfolding d db' by (metis fst_conv quiet_step_trans)
    qed
  qed
qed

lemma erase_session_quiet:
  assumes "distinct (map q_id (q_rows db))"
    and "erase_session (\<lambda>_ _ d. d) sw bucket_ok fin_ok c ref now db = (db', status)"
  shows "quiet_step c ref (set (named_keys db c ref) \<union> journal db c ref) db db'"
proof -
  let ?P = "set (named_keys db c ref) \<union> journal db c ref"
  obtain db1 st found where out: "erase_outcome (\<lambda>_ _ d. d) sw bucket_ok c ref now db = (db1, st, found)"
    by (metis prod.exhaust)
  obtain d1 res where r1: "erase_round (\<lambda>_ d. d) (sw 1) c ref now [] db = (d1, res)" by fastforce
  have q1: "quiet_step c ref ?P db d1" using erase_round_quiet [OF r1] assms(1) by blast
  obtain d2 res2 where r2: "erase_round (\<lambda>_ d. d) (sw 2) c ref now (ro_known (projr res)) d1 = (d2, res2)" by fastforce
  have "quiet_step c ref ?P d1 d2"
    using erase_round_quiet [OF r2, of ?P] q1 assms(1) by (simp add: quiet_step_def)
  with q1 have q2: "quiet_step c ref ?P db d2" by (rule quiet_step_trans)
  have "db1 = db \<or> db1 = d1 \<or> db1 = d2"
    using out r1 r2 by (auto simp: erase_outcome_def Let_def split: sum.splits option.splits if_splits)
  with q1 q2 have "quiet_step c ref ?P db db1" by auto
  then show ?thesis
    using assms(2) out finish_quiet [of c ref ?P db1]
    by (cases st) (auto simp: erase_session_def split: if_splits intro: quiet_step_trans)
qed


subsection \<open>A concrete session\<close>

definition example_ref :: session_ref where
  "example_ref = \<lparr>ref_source = ''pi'', ref_session = ''session1''\<rparr>"

definition example_key :: string where "example_key = ''raw/pi/acme/2026/01/02/session1:0.json''"

text \<open>One queued batch, its object, the trajectory and the record of the deletion.\<close>

definition example_erase_db :: erase_db where
  "example_erase_db =
     worker_db.extend
       (empty_worker_db\<lparr>q_rows := [new_queue_row 1 ''acme'' ''pi'' ''session1'' example_key 75 1 0],
          objects := [((''acme'', example_key), ''{}''), ((''acme'', ''raw/pi/acme/session1/trajectory.json''), ''{}'')],
          session_deletions := Some [new_deletion
            \<lparr>rq_deletion_id = ''d1'', rq_reason = ''request'', rq_ticket = None, rq_deep_scan = False\<rparr>
            ''acme'' example_ref [] 0]\<rparr>)
       (erase_db.fields [] [] [] [] [] [] [] [] [])"

definition store_down :: store_world where
  "store_down = \<lparr>sw_up = (\<lambda>_. False), sw_part = (\<lambda>_ _. False), sw_fails = (\<lambda>_. False)\<rparr>"

definition store_fine :: store_world where
  "store_fine = \<lparr>sw_up = (\<lambda>_. True), sw_part = (\<lambda>_ _. False), sw_fails = (\<lambda>_. False)\<rparr>"

lemmas example_defs = example_erase_db_def example_ref_def empty_worker_db_def new_queue_row_def new_deletion_def
  worker_db.defs erase_db.defs

lemma example_state:
  "legal_hold example_erase_db ''acme'' = Inr None" "find_deletion example_erase_db ''acme'' example_ref \<noteq> None"
  "has_object example_erase_db ''acme'' example_key" "example_key \<in> set (named_keys example_erase_db ''acme'' example_ref)"
  "starts_with example_key (own_raw ''acme'' example_ref)" "distinct (map q_id (q_rows example_erase_db))"
  by (simp_all add: legal_hold_def read_legal_hold_def find_deletion_def deletion_of_def has_object_def named_keys_def row_keys_def
      own_queue_row_def own_event_def own_raw_def example_key_def example_defs)

lemma id_bystanders [simp]: "bystanders c ref K Q (\<lambda>d. d)"
  by (simp add: bystanders_def)

lemma erase_with_store_down:
  assumes "legal_hold db c = Inr None" and "find_deletion db c ref = Some r"
  shows "erase_session (\<lambda>_ _ d. d) (\<lambda>_. store_down) True False c ref now db
    = (cut_objects c (\<lambda>_. False) (after_rows c ref (inventory db c ref []) now db), ''failed'')"
  using assms
  by (simp add: erase_session_def erase_outcome_def erase_round_def row_phase_runs [OF assms refl] delete_objects_def
      store_down_def stop_status_def)

theorem stopped_erase_keeps_keys_findable_witness:
  "\<exists>db'. erase_session (\<lambda>_ _ d. d) (\<lambda>_. store_down) True False ''acme'' example_ref 5 example_erase_db = (db', ''failed'')
     \<and> q_rows db' = [] \<and> has_object db' ''acme'' example_key \<and> example_key \<in> journal db' ''acme'' example_ref"
proof -
  obtain r where r: "find_deletion example_erase_db ''acme'' example_ref = Some r" using example_state(2) by auto
  let ?db' = "cut_objects ''acme'' (\<lambda>_. False)
    (after_rows ''acme'' example_ref (inventory example_erase_db ''acme'' example_ref []) 5 example_erase_db)"
  note run = erase_with_store_down [OF example_state(1) r, of 5]
  have gone: "rows_gone ''acme'' example_ref (iv_docs (inventory example_erase_db ''acme'' example_ref [])) ?db'"
    by (simp, rule delete_rows_gone) simp
  have obj: "has_object ?db' ''acme'' example_key" using example_state(3) by simp
  have "q_rows ?db' = []"
    by (simp add: cut_objects_def delete_rows_tables sql_delete_def own_queue_row_def own_event_def example_defs)
  moreover have "example_key \<in> journal ?db' ''acme'' example_ref"
    using stopped_erase_keeps_keys_findable [of "\<lambda>k. k = example_key" "''acme''" example_ref "\<lambda>_ _ d. d" example_erase_db, OF _ _ _ _ run]
      example_state obj rows_gone_unnamed [OF gone] by auto
  ultimately show ?thesis using run obj by blast
qed


theorem sessions_share_nothing_witness:
  "raw_keys example_erase_db ''acme'' example_ref \<inter> raw_keys example_erase_db ''acme'' (example_ref\<lparr>ref_session := ''session1.b''\<rparr>) = {}
   \<and> raw_keys example_erase_db ''acme'' example_ref \<noteq> {}"
proof -
  have valid: "valid_session_id ''session1''" "valid_session_id ''session1.b''"
    by (simp_all add: valid_session_id_def id_char_def RESERVED_IDS_def MEDIA_STAGING_FOLDER_def)
  have src: "''pi'' \<in> set (map source_value AGENT_SESSION_SOURCES)" by (simp add: AGENT_SESSION_SOURCES_def)
  have "raw_keys example_erase_db ''acme'' example_ref \<noteq> {}"
    by (simp add: raw_keys_def list_keys_def own_folder_keys_def is_own_folder_key_def ref_folder_def session_folder_def
        TRAJECTORY_FILE_def example_key_def example_defs)
  then show ?thesis
    using sessions_share_nothing [of example_ref "example_ref\<lparr>ref_session := ''session1.b''\<rparr>" example_erase_db "''acme''"]
      valid src by (simp add: example_ref_def)
qed


end
