(* ===== verification/DeletionRoutes.thy ===== *)
theory DeletionRoutes
  imports Deletion Signals
begin

section \<open>Selecting, running and resuming deletions\<close>

text \<open>
  The rest of \<^verbatim>\<open>kb/session_deletion.py\<close>: which sessions a request names (\<open>select_by_ids\<close>, \<open>select_by_author\<close> with its
  paged scan of the unprocessed queue rows), the deep scan by file name, the removal of orphaned Person nodes,
  a whole run (\<open>run_deletion\<close>), the dry run (\<open>plan\<close>) and the routes (\<open>delete_sessions\<close>, \<open>resume_deletion\<close>,
  \<open>deletion_status\<close>).

  \<open>rd\<close> is the store's read of one object followed by \<^verbatim>\<open>json.loads\<close>: None when the object is missing, the store is
  unavailable or the body is not JSON, which the source treats alike. A missing \<^verbatim>\<open>session_deletions\<close>
  table reads as an empty one. \<^verbatim>\<open>lower\<close> is ASCII's. Deletion ids are compared in the canonical text
  form of a UUID.
\<close>

subsection \<open>Selection by id\<close>

definition ref_order :: "session_ref \<Rightarrow> string \<times> string" where
  "ref_order r = (ref_source r, ref_session r)"

text \<open>\<^verbatim>\<open>sorted(set(refs))\<close>: the dataclass compares source first.\<close>

definition sorted_refs :: "session_ref list \<Rightarrow> session_ref list" where
  "sorted_refs refs = sort_key ref_order (remdups refs)"

definition deletion_rows :: "'a sup_db_scheme \<Rightarrow> deletion_row table" where
  "deletion_rows db = (case session_deletions db of None \<Rightarrow> [] | Some t \<Rightarrow> t)"

definition known_under :: "'a erase_db_scheme \<Rightarrow> string \<Rightarrow> string \<Rightarrow> string \<Rightarrow> bool" where
  "known_under db c src sid \<longleftrightarrow>
     (\<exists>d \<in> set (documents db). doc_customer d = c \<and> doc_source d = src \<and> doc_source_id d = sid)
     \<or> (\<exists>s \<in> set (session_streams db). st_customer s = c \<and> st_source s = src \<and> st_session s = sid)
     \<or> (\<exists>q \<in> set (q_rows db). q_customer q = c \<and> q_source q = src \<and> q_event q = sid)
     \<or> (\<exists>r \<in> set (deletion_rows db). d_customer r = c \<and> d_source r = src \<and> d_session r = sid)"

definition select_by_ids :: "'a erase_db_scheme \<Rightarrow> string \<Rightarrow> string list \<Rightarrow> string list \<Rightarrow> session_ref list" where
  "select_by_ids db c ids sources =
     sorted_refs (concat (map (\<lambda>sid.
       let found = filter (\<lambda>src. known_under db c src sid) (sorted_set sources)
       in map (\<lambda>src. \<lparr>ref_source = src, ref_session = sid\<rparr>) (if found \<noteq> [] then found else sort sources)) ids))"

subsection \<open>Selection by author\<close>

record selection =
  sel_refs :: "session_ref list"
  sel_persons :: "string set"
  sel_unattributed :: nat
  sel_invalid :: "string list"

definition lower :: "string \<Rightarrow> string" where
  "lower s = map (\<lambda>ch. if CHR ''A'' \<le> ch \<and> ch \<le> CHR ''Z'' then char_of ((of_char ch :: nat) + 32) else ch) s"

text \<open>The session a document belongs to.\<close>

definition document_session :: "document_row \<Rightarrow> string" where
  "document_session d =
     (let pre = doc_source d @ '':'' @ doc_customer d @ '':'' in
      case doc_parent d of
        None \<Rightarrow> doc_source_id d
      | Some p \<Rightarrow> if starts_with p pre then drop (length pre) p else doc_source_id d)"

definition document_person :: "document_row \<Rightarrow> string option" where
  "document_person d = (case doc_author d of Some a \<Rightarrow> Some a | None \<Rightarrow> doc_uploader d)"

definition names_person :: "string option \<Rightarrow> string option \<Rightarrow> document_row \<Rightarrow> bool" where
  "names_person emp email d \<longleftrightarrow>
     (emp \<noteq> None \<and> (doc_author d = emp \<or> doc_uploader d = emp))
     \<or> (email \<noteq> None \<and> (emp = None \<or> (doc_author d = None \<and> doc_uploader d = None))
        \<and> (map_option lower (doc_employee_email d) = map_option lower email
           \<or> map_option lower (doc_uploader_email d) = map_option lower email))"

definition author_documents ::
  "'a erase_db_scheme \<Rightarrow> string \<Rightarrow> string list \<Rightarrow> string option \<Rightarrow> string option \<Rightarrow> document_row list" where
  "author_documents db c sources emp email =
     filter (\<lambda>d. doc_customer d = c \<and> doc_source d \<in> set sources \<and> names_person emp email d) (documents db)"

text \<open>A queue row whose session has no document yet.\<close>

definition unindexed :: "'a erase_db_scheme \<Rightarrow> string \<Rightarrow> string list \<Rightarrow> queue_row \<Rightarrow> bool" where
  "unindexed db c sources q \<longleftrightarrow>
     q_customer q = c \<and> q_source q \<in> set sources
     \<and> \<not> (\<exists>d \<in> set (documents db). doc_customer d = q_customer q \<and> doc_source d = q_source q
            \<and> doc_source_id d = session_of_event_id (q_event q))"

definition UNINDEXED_PAGE :: nat where "UNINDEXED_PAGE = 1000"
definition UNINDEXED_KEYS_READ :: nat where "UNINDEXED_KEYS_READ = 3"

definition unindexed_page :: "(queue_row \<Rightarrow> bool) \<Rightarrow> nat \<Rightarrow> queue_row list \<Rightarrow> int \<Rightarrow> queue_row list" where
  "unindexed_page p n rows after = sql_select (\<lambda>q. q_id q > after \<and> p q) q_id n rows"

text \<open>The scan: pages of \<open>n\<close> rows, each after the last id of the one before, until a page is not full.\<close>

function unindexed_scan :: "(queue_row \<Rightarrow> bool) \<Rightarrow> nat \<Rightarrow> queue_row list \<Rightarrow> int \<Rightarrow> queue_row list" where
  "unindexed_scan p n rows after =
     (let page = unindexed_page p n rows after in
      if n = 0 then [] else if length page < n then page
      else page @ unindexed_scan p n rows (q_id (last page)))"
  by pat_completeness auto
termination
proof (relation "measure (\<lambda>(p, n, rows, after). length (filter (\<lambda>q. q_id q > after) rows))", simp, clarsimp)
  fix p n rows after
  assume "\<not> length (unindexed_page p n rows after) < n" "0 < n"
  then have "last (unindexed_page p n rows after) \<in> set (unindexed_page p n rows after)"
    by (intro last_in_set) auto
  then have l: "last (unindexed_page p n rows after) \<in> set rows" "q_id (last (unindexed_page p n rows after)) > after"
    unfolding unindexed_page_def by (auto dest: set_sql_select_subset)
  let ?l = "last (unindexed_page p n rows after)"
  have "length (filter (\<lambda>q. q_id ?l < q_id q) rows) < length (filter (\<lambda>q. after < q_id q) rows)"
    using l by (intro length_filter_strict [where x = ?l]) auto
  then show "length (filter (\<lambda>q. q_id (last (unindexed_page p n rows after)) < q_id q) rows)
    < length (filter (\<lambda>q. after < q_id q) rows)" .
qed

declare unindexed_scan.simps [simp del]

definition truthy_str :: "string option \<Rightarrow> bool" where
  "truthy_str x \<longleftrightarrow> x \<noteq> None \<and> x \<noteq> Some []"

text \<open>\<^verbatim>\<open>envelope.get("payload", envelope)\<close>, when both are dicts.\<close>

definition payload_of :: "json option \<Rightarrow> json option" where
  "payload_of env =
     (case env of None \<Rightarrow> None
      | Some e \<Rightarrow>
          if \<not> is_dict e then None
          else let p = (case obj_get e ''payload'' of None \<Rightarrow> e | Some p \<Rightarrow> p) in if is_dict p then Some p else None)"

definition str_or_none :: "json \<Rightarrow> string option" where
  "str_or_none v = (case v of JStr s \<Rightarrow> Some s | _ \<Rightarrow> None)"

fun identity_in ::
  "(string \<Rightarrow> json option) \<Rightarrow> string \<Rightarrow> string list \<Rightarrow> (string \<times> string option \<times> string option) option" where
  "identity_in rd sid [] = None"
| "identity_in rd sid (k # ks) =
     (case payload_of (rd k) of
        None \<Rightarrow> identity_in rd sid ks
      | Some p \<Rightarrow>
          let s = get_or_null p ''session_id''; emp = get_or_null p ''employee_id''; mail = get_or_null p ''employee_email'' in
          if s \<noteq> JNull \<and> s \<noteq> JStr sid then identity_in rd sid ks
          else if truthy emp \<or> truthy mail then Some (sid, str_or_none emp, str_or_none mail)
          else identity_in rd sid ks)"

definition batch_identity :: "(string \<Rightarrow> json option) \<Rightarrow> queue_row \<Rightarrow> (string \<times> string option \<times> string option) option" where
  "batch_identity rd q =
     (let keys = filter (\<lambda>k. \<not> is_cron_marker_key k) (q_keys q);
          keys' = (if keys = [] \<and> truthy_str (q_payload_key q) then [the (q_payload_key q)] else keys)
      in identity_in rd (session_of_event_id (q_event q)) (take UNINDEXED_KEYS_READ keys'))"

definition batch_matches :: "string option \<Rightarrow> string option \<Rightarrow> string option \<Rightarrow> string option \<Rightarrow> bool" where
  "batch_matches emp email e m \<longleftrightarrow>
     (truthy_str emp \<and> e = emp)
     \<or> (truthy_str email \<and> truthy_str m \<and> map_option lower m = map_option lower email \<and> \<not> (truthy_str emp \<and> truthy_str e))"

definition opt_set :: "string option \<Rightarrow> string set" where
  "opt_set x = (if truthy_str x then {the x} else {})"

text \<open>The loop over the unindexed rows with their identities.\<close>

fun attribute_rows ::
  "(string \<Rightarrow> json option) \<Rightarrow> string option \<Rightarrow> string option \<Rightarrow> queue_row list \<Rightarrow> selection \<Rightarrow> selection" where
  "attribute_rows rd emp email [] sel = sel"
| "attribute_rows rd emp email (q # qs) sel =
     attribute_rows rd emp email qs
       (case batch_identity rd q of
          None \<Rightarrow> sel\<lparr>sel_unattributed := sel_unattributed sel + 1\<rparr>
        | Some (sid, e, m) \<Rightarrow>
            if \<not> batch_matches emp email e m then sel
            else if valid_session_id sid
            then sel\<lparr>sel_refs := sel_refs sel @ [\<lparr>ref_source = q_source q, ref_session = sid\<rparr>],
                     sel_persons := sel_persons sel \<union> opt_set e\<rparr>
            else sel\<lparr>sel_invalid := sel_invalid sel @ [sid]\<rparr>)"

definition author_rows :: "document_row list \<Rightarrow> (string \<times> string \<times> string option) list" where
  "author_rows ds = remdups (map (\<lambda>d. (doc_source d, document_session d, document_person d)) ds)"

definition select_documents :: "string option \<Rightarrow> document_row list \<Rightarrow> selection" where
  "select_documents emp ds =
     (let rows = author_rows ds; ok = filter (\<lambda>(src, sid, per). valid_session_id sid) rows
      in \<lparr>sel_refs = map (\<lambda>(src, sid, per). \<lparr>ref_source = src, ref_session = sid\<rparr>) ok,
          sel_persons = (\<Union>(src, sid, per) \<in> set ok. opt_set per) \<union> opt_set emp, sel_unattributed = 0,
          sel_invalid = map (\<lambda>(src, sid, per). sid) (filter (\<lambda>(src, sid, per). \<not> valid_session_id sid) rows)\<rparr>)"

definition select_by_author ::
  "(string \<Rightarrow> json option) \<Rightarrow> 'a erase_db_scheme \<Rightarrow> string \<Rightarrow> string list \<Rightarrow> string option \<Rightarrow> string option \<Rightarrow> selection" where
  "select_by_author rd db c sources emp email =
     (let sel = attribute_rows rd emp email (unindexed_scan (unindexed db c sources) UNINDEXED_PAGE (q_rows db) 0)
                  (select_documents emp (author_documents db c sources emp email))
      in sel\<lparr>sel_refs := sorted_refs (sel_refs sel)\<rparr>)"

subsection \<open>Deep scan\<close>

text \<open>\<^verbatim>\<open>raw/<src>/<customer>/dddd/dd/dd/<name>.json\<close>: the name.\<close>

definition date_folder :: "string \<Rightarrow> bool" where
  "date_folder s \<longleftrightarrow>
     length s = 11 \<and> list_all is_digit (take 4 s) \<and> s ! 4 = CHR ''/'' \<and> list_all is_digit (slice s 5 7) \<and> s ! 7 = CHR ''/''
     \<and> list_all is_digit (slice s 8 10) \<and> s ! 10 = CHR ''/''"

definition date_name :: "string \<Rightarrow> string \<Rightarrow> string \<Rightarrow> string option" where
  "date_name src c key =
     (let pre = ''raw/'' @ src @ ''/'' @ c @ ''/''; rest = drop (length pre) key; name = drop 11 rest; base = take (length name - 5) name
      in if starts_with key pre \<and> date_folder (take 11 rest) \<and> ends_with name ''.json'' \<and> base \<noteq> [] \<and> CHR ''/'' \<notin> set base
         then Some base else None)"

definition payload_names :: "(string \<Rightarrow> json option) \<Rightarrow> string \<Rightarrow> string \<Rightarrow> bool" where
  "payload_names rd key sid \<longleftrightarrow>
     (case payload_of (rd key) of None \<Rightarrow> False | Some p \<Rightarrow> get_or_null p ''session_id'' = JStr sid)"

text \<open>Which of the wanted sessions an object is taken for.\<close>

definition scan_session :: "(string \<Rightarrow> json option) \<Rightarrow> string \<Rightarrow> string \<Rightarrow> string list \<Rightarrow> string \<Rightarrow> string option" where
  "scan_session rd src c ids key =
     (case date_name src c key of
        None \<Rightarrow> None
      | Some name \<Rightarrow>
          let wanted = (\<lambda>n. find (\<lambda>s. storage_id s = n) ids);
              name' = (if wanted name \<noteq> None then name else session_of_event_id name)
          in case wanted name' of
               None \<Rightarrow> None
             | Some sid \<Rightarrow> if CHR ''_'' \<in> set sid \<and> \<not> payload_names rd key sid then None else Some sid)"

definition deep_scan ::
  "(string \<Rightarrow> json option) \<Rightarrow> 'a sup_db_scheme \<Rightarrow> string \<Rightarrow> string \<Rightarrow> string list \<Rightarrow> (string \<times> string list) list" where
  "deep_scan rd db c src ids =
     (let keys = list_keys db c (''raw/'' @ src @ ''/'' @ c @ ''/'') in
      filter (\<lambda>x. snd x \<noteq> []) (map (\<lambda>sid. (sid, filter (\<lambda>k. scan_session rd src c ids k = Some sid) keys)) ids))"

definition journal_keys :: "string \<Rightarrow> session_ref \<Rightarrow> string list \<Rightarrow> 'a sup_db_scheme \<Rightarrow> 'a sup_db_scheme" where
  "journal_keys c ref keys db =
     update_deletion c ref (\<lambda>r. r\<lparr>d_pending_keys :=
       merge_keys (d_pending_keys r) (sort (filter (\<lambda>k. starts_with k (own_raw c ref)) keys))\<rparr>) db"

definition deep_sources :: "session_ref list \<Rightarrow> string list" where
  "deep_sources refs = sorted_set (map ref_source refs)"

definition wanted_of :: "session_ref list \<Rightarrow> string \<Rightarrow> string list" where
  "wanted_of refs src = remdups (map ref_session (filter (\<lambda>r. ref_source r = src) refs))"

definition journal_scan ::
  "(string \<Rightarrow> json option) \<Rightarrow> string \<Rightarrow> session_ref list \<Rightarrow> 'a sup_db_scheme \<Rightarrow> 'a sup_db_scheme" where
  "journal_scan rd c refs db =
     fold (\<lambda>src d. fold (\<lambda>(sid, keys). journal_keys c \<lparr>ref_source = src, ref_session = sid\<rparr> keys)
              (deep_scan rd d c src (wanted_of refs src)) d) (deep_sources refs) db"

subsection \<open>Persons\<close>

definition agent_sources :: "string list" where
  "agent_sources = map source_value AGENT_SESSION_SOURCES"

definition person_node :: "string \<Rightarrow> string list \<Rightarrow> node_row \<Rightarrow> bool" where
  "person_node c persons n \<longleftrightarrow> n_customer n = c \<and> n_label n = ''Person'' \<and> n_canonical n \<in> set persons"

definition orphaned :: "'a erase_db_scheme \<Rightarrow> string \<Rightarrow> node_row \<Rightarrow> bool" where
  "orphaned db c n \<longleftrightarrow>
     \<not> (\<exists>e \<in> set (graph_edges db). g_customer e = c \<and> (g_from e = n_id n \<or> g_to e = n_id n))
     \<and> \<not> (\<exists>p \<in> set (graph_node_provenance db). pv_customer p = c \<and> pv_node p = n_id n \<and> pv_source p \<notin> set agent_sources)
     \<and> \<not> (\<exists>d \<in> set (documents db). doc_customer d = c
            \<and> (doc_author d = Some (n_canonical n) \<or> doc_uploader d = Some (n_canonical n)))"

definition remove_orphaned_persons :: "string \<Rightarrow> string list \<Rightarrow> 'a erase_db_scheme \<Rightarrow> 'a erase_db_scheme \<times> nat" where
  "remove_orphaned_persons c persons db =
     (if persons = [] then (db, 0)
      else let candidates = map n_id (filter (person_node c persons) (graph_nodes db));
               p = (\<lambda>n. n_customer n = c \<and> n_label n = ''Person'' \<and> n_id n \<in> set candidates \<and> orphaned db c n);
               ids = map n_id (filter p (graph_nodes db))
           in (db\<lparr>graph_nodes := sql_delete p (graph_nodes db),
                  node_post_write_queue := sql_delete (queued_node c ids) (node_post_write_queue db)\<rparr>, length ids))"

subsection \<open>A whole run\<close>

text \<open>What the environment does during a run: the transactions of others around each session's steps, the store's
  behaviour, whether the bucket is found and the final write works, per session; whether the listing of the deep scan works.\<close>

record 'd run_world =
  rw_others :: "nat \<Rightarrow> nat \<Rightarrow> nat \<Rightarrow> 'd \<Rightarrow> 'd"
  rw_store :: "nat \<Rightarrow> nat \<Rightarrow> store_world"
  rw_bucket :: "nat \<Rightarrow> bool"
  rw_fin :: "nat \<Rightarrow> bool"
  rw_scan :: bool

fun erase_all ::
  "'a erase_db_scheme run_world \<Rightarrow> string \<Rightarrow> time \<Rightarrow> nat \<Rightarrow> session_ref list \<Rightarrow> 'a erase_db_scheme
   \<Rightarrow> 'a erase_db_scheme \<times> (session_ref \<times> string) list" where
  "erase_all rw c now i [] db = (db, [])"
| "erase_all rw c now i (ref # refs) db =
     (let (db1, status) = erase_session (rw_others rw i) (rw_store rw i) (rw_bucket rw i) (rw_fin rw i) c ref now db;
          (db2, rest) = erase_all rw c now (i + 1) refs db1
      in (db2, (ref, status) # rest))"

definition run_deletion ::
  "(string \<Rightarrow> json option) \<Rightarrow> 'a erase_db_scheme run_world \<Rightarrow> string \<Rightarrow> session_ref list \<Rightarrow> bool \<Rightarrow> string list \<Rightarrow> time
   \<Rightarrow> 'a erase_db_scheme \<Rightarrow> 'a erase_db_scheme \<times> (string + (session_ref \<times> string) list \<times> nat)" where
  "run_deletion rd rw c refs deep persons now db =
     (if deep \<and> refs \<noteq> [] \<and> \<not> rw_scan rw then (db, Inl ''StorageUnavailable'')
      else let db0 = (if deep \<and> refs \<noteq> [] then journal_scan rd c refs db else db);
               (db1, outcomes) = erase_all rw c now 0 refs db0;
               (db2, n) = (if persons \<noteq> [] \<and> legal_hold db1 c = Inr None then remove_orphaned_persons c persons db1 else (db1, 0))
           in (db2, Inr (outcomes, n)))"

subsection \<open>The dry run\<close>

record plan_row =
  pl_ref :: session_ref
  pl_already :: bool
  pl_in_flight :: bool
  pl_rows :: "(string \<times> nat) list"
  pl_objects :: nat
  pl_referenced :: nat

definition plan_session ::
  "(string \<Rightarrow> json option) \<Rightarrow> 'a erase_db_scheme \<Rightarrow> string \<Rightarrow> session_ref list \<Rightarrow> bool \<Rightarrow> session_ref \<Rightarrow> plan_row" where
  "plan_session rd db c refs deep ref =
     (let iv = inventory db c ref []; in_folders = raw_keys db c ref; referenced = set (iv_keys iv) - in_folders;
          found = (if deep then (case map_of (deep_scan rd db c (ref_source ref) (wanted_of refs (ref_source ref))) (ref_session ref)
                                 of None \<Rightarrow> {} | Some ks \<Rightarrow> set ks) else {});
          extra = found - in_folders - referenced
      in \<lparr>pl_ref = ref, pl_already = (\<exists>r \<in> set (deletion_rows db). deletion_of c ref r), pl_in_flight = iv_in_flight iv,
          pl_rows = filter (\<lambda>kv. snd kv \<noteq> 0) (inventory_counts db c ref iv),
          pl_objects = card in_folders + card extra, pl_referenced = card referenced\<rparr>)"

definition plan :: "(string \<Rightarrow> json option) \<Rightarrow> 'a erase_db_scheme \<Rightarrow> string \<Rightarrow> session_ref list \<Rightarrow> bool \<Rightarrow> plan_row list" where
  "plan rd db c refs deep = map (plan_session rd db c refs deep) refs"

subsection \<open>Routes\<close>

record del_request =
  body_ids :: "string list option"
  body_author :: "(string option \<times> string option) option"
  body_sources :: "string list option"
  body_dry_run :: bool
  body_reason :: "string option"
  body_ticket :: "string option"
  body_deep_scan :: bool

definition length_in :: "nat \<Rightarrow> nat \<Rightarrow> string option \<Rightarrow> bool" where
  "length_in lo hi x \<longleftrightarrow> (case x of None \<Rightarrow> True | Some s \<Rightarrow> lo \<le> length s \<and> length s \<le> hi)"

text \<open>The validators of \<^verbatim>\<open>SessionDeletionRequest\<close> and \<^verbatim>\<open>AuthorSelector\<close>.\<close>

definition valid_request :: "del_request \<Rightarrow> bool" where
  "valid_request b \<longleftrightarrow>
     (case body_ids b of None \<Rightarrow> True | Some ids \<Rightarrow> 1 \<le> length ids \<and> length ids \<le> 1000 \<and> list_all valid_session_id ids)
     \<and> (case body_author b of None \<Rightarrow> True
        | Some (emp, email) \<Rightarrow> length_in 1 200 emp \<and> length_in 3 320 email \<and> (truthy_str emp \<or> truthy_str email))
     \<and> (case body_sources b of None \<Rightarrow> True | Some ss \<Rightarrow> ss \<noteq> [] \<and> list_all (\<lambda>s. s \<in> set agent_sources) ss)
     \<and> length_in 0 2000 (body_reason b) \<and> length_in 0 500 (body_ticket b)
     \<and> (body_ids b = None) \<noteq> (body_author b = None)
     \<and> (body_dry_run b \<or> (case body_reason b of None \<Rightarrow> False | Some s \<Rightarrow> strip_of is_space s \<noteq> []))"

definition select_sessions ::
  "(string \<Rightarrow> json option) \<Rightarrow> 'a erase_db_scheme \<Rightarrow> string \<Rightarrow> del_request \<Rightarrow> selection" where
  "select_sessions rd db c b =
     (let sources = (case body_sources b of Some ss \<Rightarrow> sorted_set ss | None \<Rightarrow> agent_sources) in
      case body_ids b of
        Some ids \<Rightarrow> \<lparr>sel_refs = select_by_ids db c (remdups ids) sources, sel_persons = {}, sel_unattributed = 0, sel_invalid = []\<rparr>
      | None \<Rightarrow> (case body_author b of
            Some (emp, email) \<Rightarrow> select_by_author rd db c sources emp email
          | None \<Rightarrow> \<lparr>sel_refs = [], sel_persons = {}, sel_unattributed = 0, sel_invalid = []\<rparr>))"

datatype route_answer =
    HttpError nat
  | DryRun "string option" "plan_row list" selection
  | NothingToDelete selection
  | Started string "session_ref list" bool "string set"
  | NothingToResume

definition delete_sessions ::
  "(string \<Rightarrow> json option) \<Rightarrow> string \<Rightarrow> del_request \<Rightarrow> string \<Rightarrow> time \<Rightarrow> 'a erase_db_scheme \<Rightarrow> 'a erase_db_scheme \<times> route_answer" where
  "delete_sessions rd c b new_id now db =
     (if \<not> valid_request b then (db, HttpError 422)
      else case legal_hold db c of
        Inl _ \<Rightarrow> (db, HttpError 404)
      | Inr hold \<Rightarrow>
          if hold \<noteq> None \<and> \<not> body_dry_run b then (db, HttpError 423)
          else let sel = select_sessions rd db c b in
            if body_dry_run b then (db, DryRun hold (plan rd db c (sel_refs sel) (body_deep_scan b)) sel)
            else if sel_refs sel = [] then (db, NothingToDelete sel)
            else (record_sessions \<lparr>rq_deletion_id = new_id, rq_reason = strip_of is_space (the (body_reason b)),
                      rq_ticket = body_ticket b, rq_deep_scan = body_deep_scan b\<rparr> c (sel_refs sel) now db,
                  Started new_id (sel_refs sel) (body_deep_scan b) (if body_author b \<noteq> None then sel_persons sel else {})))"

definition of_deletion :: "string \<Rightarrow> string \<Rightarrow> deletion_row \<Rightarrow> bool" where
  "of_deletion c did r \<longleftrightarrow> d_customer r = c \<and> d_deletion_id r = did"

definition resume_deletion ::
  "string \<Rightarrow> string \<Rightarrow> bool \<Rightarrow> time \<Rightarrow> 'a erase_db_scheme \<Rightarrow> 'a erase_db_scheme \<times> route_answer" where
  "resume_deletion c did deep now db =
     (if \<not> uuid_ok did then (db, HttpError 422)
      else case legal_hold db c of
        Inl _ \<Rightarrow> (db, HttpError 404)
      | Inr (Some _) \<Rightarrow> (db, HttpError 423)
      | Inr None \<Rightarrow>
          let p = (\<lambda>r. of_deletion c did r \<and> d_status r \<noteq> ''done'');
              f = (\<lambda>r. r\<lparr>d_status := ''pending'', d_error := None, d_attempted_at := Some now\<rparr>);
              rows = filter p (deletion_rows db);
              refs = sort_key ref_order (map (\<lambda>r. \<lparr>ref_source = d_source r, ref_session = d_session r\<rparr>) rows);
              db1 = db\<lparr>session_deletions := map_option (sql_update p f) (session_deletions db)\<rparr>
          in if \<not> (\<exists>r \<in> set (deletion_rows db). of_deletion c did r) then (db1, HttpError 404)
             else if refs = [] then (db1, NothingToResume)
             else (db1, Started did refs (deep \<or> (\<exists>r \<in> set rows. d_deep_scan r)) {}))"

definition STALLED_AFTER_S :: int where "STALLED_AFTER_S = 900"

definition stamps :: "deletion_row \<Rightarrow> time list" where
  "stamps r = d_requested_at r # concat (map (\<lambda>x. case x of None \<Rightarrow> [] | Some t \<Rightarrow> [t]) [d_attempted_at r, d_deleted_at r])"

definition overall_status :: "time \<Rightarrow> deletion_row list \<Rightarrow> string" where
  "overall_status now rows =
     (let statuses = map d_status rows; last_activity = Max (set (concat (map stamps rows))) in
      if ''pending'' \<in> set statuses then (if now - last_activity > STALLED_AFTER_S then ''stalled'' else ''running'')
      else if ''held'' \<in> set statuses then ''held''
      else if ''failed'' \<in> set statuses then ''failed''
      else ''done'')"

definition deletion_status :: "string \<Rightarrow> string \<Rightarrow> time \<Rightarrow> 'a sup_db_scheme \<Rightarrow> nat + string \<times> deletion_row list" where
  "deletion_status c did now db =
     (let rows = sort_key (\<lambda>r. (d_source r, d_session r)) (filter (of_deletion c did) (deletion_rows db)) in
      if \<not> uuid_ok did then Inl 422 else if rows = [] then Inl 404 else Inr (overall_status now rows, rows))"

end
