(* ===== verification/DeletionRouteProperties.thy ===== *)
theory DeletionRouteProperties
  imports DeletionProperties DeletionRoutes
begin

section \<open>Selecting and running deletions: properties\<close>

text \<open>
  The paged scan of the author selection reads every row, an author selection never reaches a capture that names
  another employee, and a request that starts runs to \<^verbatim>\<open>done\<close> for every session it selected.
\<close>

subsection \<open>The paged scan\<close>

lemma drop_filter_last:
  assumes "sorted (map f xs)" "distinct (map f xs)" "0 < n" "n \<le> length xs"
  shows "drop n xs = filter (\<lambda>x. f (last (take n xs)) < f x) xs"
proof -
  let ?l = "last (take n xs)"
  have "length (take n xs) = n" "take n xs \<noteq> []" using assms(3,4) by (simp, cases xs, auto)
  then have l: "?l = xs ! (n - 1)" using assms(3) by (simp add: last_conv_nth)
  have lt: "f (xs ! i) < f (xs ! j)" if "i < j" "j < length xs" for i j
  proof -
    have "f (xs ! i) \<le> f (xs ! j)" using sorted_nth_mono [OF assms(1), of i j] that by simp
    moreover have "f (xs ! i) \<noteq> f (xs ! j)"
      using nth_eq_iff_index_eq [OF assms(2), of i j] that by simp
    ultimately show ?thesis by simp
  qed
  have "filter (\<lambda>x. f ?l < f x) (take n xs) = []"
  proof -
    have "\<not> f ?l < f x" if "x \<in> set (take n xs)" for x
    proof -
      from that obtain i where "i < n" "i < length xs" "x = xs ! i" by (auto simp: in_set_conv_nth)
      moreover from this have "f (xs ! i) \<le> f (xs ! (n - 1))"
        using sorted_nth_mono [OF assms(1), of i "n - 1"] assms(3,4) by simp
      ultimately show ?thesis by (simp add: l)
    qed
    then show ?thesis by (simp add: filter_empty_conv)
  qed
  moreover have "filter (\<lambda>x. f ?l < f x) (drop n xs) = drop n xs"
  proof -
    have "f ?l < f x" if "x \<in> set (drop n xs)" for x
    proof -
      from that obtain i where "i < length xs - n" "x = xs ! (n + i)" by (auto simp: in_set_conv_nth)
      then show ?thesis using lt [of "n - 1" "n + i"] assms(3) by (simp add: l)
    qed
    then show ?thesis by (simp add: filter_id_conv)
  qed
  ultimately show ?thesis by (metis append_Nil append_take_drop_id filter_append)
qed

lemma unindexed_scan_all:
  assumes "0 < n" and "distinct (map q_id rows)"
  shows "unindexed_scan p n rows after = sort_key q_id (filter (\<lambda>q. after < q_id q \<and> p q) rows)"
  using assms
proof (induction p n rows after rule: unindexed_scan.induct)
  case (1 p n rows after)
  let ?full = "sort_key q_id (filter (\<lambda>q. after < q_id q \<and> p q) rows)"
  have page: "unindexed_page p n rows after = take n ?full" by (simp add: unindexed_page_def sql_select_def)
  show ?case
  proof (cases "length ?full < n")
    case True
    then show ?thesis using 1(2) by (simp add: unindexed_scan.simps [of p n rows after] page)
  next
    case False
    let ?l = "q_id (last (take n ?full))"
    have dist: "distinct (map q_id ?full)"
    proof -
      have "distinct (map q_id (filter (\<lambda>q. after < q_id q \<and> p q) rows))" using 1(3) by (rule distinct_map_filter)
      then show ?thesis by (simp add: distinct_map)
    qed
    have last: "after < ?l"
    proof -
      have "length (take n ?full) = n" using False by simp
      with 1(2) have "take n ?full \<noteq> []" by (metis length_0_conv less_numeral_extra(3))
      then have "last (take n ?full) \<in> set (take n ?full)" by (rule last_in_set)
      then show ?thesis by (auto dest: in_set_takeD)
    qed
    have "unindexed_scan p n rows ?l = sort_key q_id (filter (\<lambda>q. ?l < q_id q \<and> p q) rows)"
      using 1(1) [OF refl] 1(2,3) False by (simp add: page)
    also have "\<dots> = filter (\<lambda>q. ?l < q_id q) ?full"
      using last by (auto simp: filter_sort intro!: arg_cong [where f = "sort_key q_id"] filter_cong)
    also have "\<dots> = drop n ?full"
      using drop_filter_last [OF sorted_sort_key dist, of n] 1(2) False by simp
    finally show ?thesis
      using 1(2) False by (simp add: unindexed_scan.simps [of p n rows after] page)
  qed
qed

text \<open>
  Claim C31. The paged scan of the author selection ends and drops nothing: for any page size above 0 it returns every
  queue row past the starting id that has no document, once each and in id order, as one ordered query
  without limit would.
\<close>

theorem unindexed_scan_complete:
  assumes "0 < n" and "distinct (map q_id (q_rows db))"
  shows "unindexed_scan (unindexed db c sources) n (q_rows db) after
    = sort_key q_id (filter (\<lambda>q. after < q_id q \<and> unindexed db c sources q) (q_rows db))"
  using assms by (rule unindexed_scan_all)

theorem unindexed_scan_complete_witness:
  "unindexed_scan (unindexed example_erase_db ''acme'' [''pi'']) 1 (q_rows example_erase_db) 0 = q_rows example_erase_db
   \<and> q_rows example_erase_db \<noteq> []"
proof -
  have "unindexed_scan (unindexed example_erase_db ''acme'' [''pi'']) 1 (q_rows example_erase_db) 0
    = sort_key q_id (filter (\<lambda>q. 0 < q_id q \<and> unindexed example_erase_db ''acme'' [''pi''] q) (q_rows example_erase_db))"
    by (rule unindexed_scan_complete) (simp_all add: example_state)
  then show ?thesis by (simp add: unindexed_def example_defs)
qed

subsection \<open>Selection by author\<close>

lemma attribute_rows_refs:
  "ref \<in> set (sel_refs (attribute_rows rd emp email qs sel)) \<longleftrightarrow>
     ref \<in> set (sel_refs sel)
     \<or> (\<exists>q \<in> set qs. \<exists>e m. batch_identity rd q = Some (ref_session ref, e, m) \<and> batch_matches emp email e m
          \<and> valid_session_id (ref_session ref) \<and> ref_source ref = q_source q)"
proof (induction qs arbitrary: sel)
  case (Cons q qs)
  have new: "r = \<lparr>ref_source = s, ref_session = i\<rparr> \<longleftrightarrow> ref_source r = s \<and> ref_session r = i" for r :: session_ref and s i
    by (cases r) simp
  show ?case by (auto simp: Cons.IH new split: option.splits)
qed simp

lemma attribute_rows_invalid:
  "set (sel_invalid sel) \<subseteq> set (sel_invalid (attribute_rows rd emp email qs sel))"
proof (induction qs arbitrary: sel)
  case (Cons q qs)
  show ?case by (auto split: option.splits intro: subsetD [OF Cons.IH])
qed simp

lemma set_sorted_refs [simp]: "set (sorted_refs refs) = set refs"
  by (simp add: sorted_refs_def)

lemma select_documents_refs:
  "ref \<in> set (sel_refs (select_documents emp ds)) \<longleftrightarrow>
     valid_session_id (ref_session ref) \<and> (\<exists>d \<in> set ds. doc_source d = ref_source ref \<and> document_session d = ref_session ref)"
  by (cases ref) (force simp: select_documents_def author_rows_def Let_def)

lemma select_documents_invalid:
  "i \<in> set (sel_invalid (select_documents emp ds)) \<longleftrightarrow> \<not> valid_session_id i \<and> (\<exists>d \<in> set ds. document_session d = i)"
  by (force simp: select_documents_def author_rows_def Let_def)

lemma scan_subset: "set (unindexed_scan p n rows after) \<subseteq> {q \<in> set rows. p q}"
proof (induction p n rows after rule: unindexed_scan.induct)
  case (1 p n rows after)
  have "set (unindexed_page p n rows after) \<subseteq> {q \<in> set rows. p q}"
    by (auto simp: unindexed_page_def dest: set_sql_select_subset)
  then show ?case using 1 by (auto simp: unindexed_scan.simps [of p n rows after] Let_def)
qed

text \<open>
  With an employee id in the request the id decides. Every session that a document names this employee
  for, as author or uploader, is selected (or reported, when its id is not one that can be deleted), and a session is
  selected only because of a capture that names this employee or names nobody: an email address given
  beside the id, which may once have been another person's, never reaches a capture that names another id.
\<close>

theorem author_id_decides:
  assumes "e \<noteq> []" and sel: "sel = select_by_author rd db c sources (Some e) email"
  shows "(\<forall>d \<in> set (documents db).
       doc_customer d = c \<and> doc_source d \<in> set sources \<and> (doc_author d = Some e \<or> doc_uploader d = Some e) \<longrightarrow>
         \<lparr>ref_source = doc_source d, ref_session = document_session d\<rparr> \<in> set (sel_refs sel)
         \<or> document_session d \<in> set (sel_invalid sel))
    \<and> (\<forall>ref \<in> set (sel_refs sel).
       (\<exists>d \<in> set (documents db). doc_customer d = c \<and> doc_source d = ref_source ref \<and> document_session d = ref_session ref
          \<and> (doc_author d = Some e \<or> doc_uploader d = Some e \<or> doc_author d = None \<and> doc_uploader d = None))
       \<or> (\<exists>q \<in> set (q_rows db). \<exists>e' m. q_customer q = c \<and> q_source q = ref_source ref
            \<and> batch_identity rd q = Some (ref_session ref, e', m) \<and> (e' = Some e \<or> \<not> truthy_str e')))"
proof -
  let ?ds = "author_documents db c sources (Some e) email"
  let ?qs = "unindexed_scan (unindexed db c sources) UNINDEXED_PAGE (q_rows db) 0"
  have refs: "set (sel_refs sel) = set (sel_refs (attribute_rows rd (Some e) email ?qs (select_documents (Some e) ?ds)))"
    by (simp add: sel select_by_author_def Let_def)
  have invalid: "set (sel_invalid (select_documents (Some e) ?ds)) \<subseteq> set (sel_invalid sel)"
    by (simp add: sel select_by_author_def Let_def attribute_rows_invalid)
  have "\<lparr>ref_source = doc_source d, ref_session = document_session d\<rparr> \<in> set (sel_refs sel)
      \<or> document_session d \<in> set (sel_invalid sel)"
    if d: "d \<in> set (documents db)" "doc_customer d = c" "doc_source d \<in> set sources"
      "doc_author d = Some e \<or> doc_uploader d = Some e" for d
  proof -
    have "d \<in> set ?ds" using d by (auto simp: author_documents_def names_person_def)
    then show ?thesis
      using subsetD [OF invalid] by (auto simp: refs attribute_rows_refs select_documents_refs select_documents_invalid)
  qed
  moreover have "(\<exists>d \<in> set (documents db). doc_customer d = c \<and> doc_source d = ref_source ref \<and> document_session d = ref_session ref
          \<and> (doc_author d = Some e \<or> doc_uploader d = Some e \<or> doc_author d = None \<and> doc_uploader d = None))
       \<or> (\<exists>q \<in> set (q_rows db). \<exists>e' m. q_customer q = c \<and> q_source q = ref_source ref
            \<and> batch_identity rd q = Some (ref_session ref, e', m) \<and> (e' = Some e \<or> \<not> truthy_str e'))"
    if "ref \<in> set (sel_refs sel)" for ref
    using that unfolding refs attribute_rows_refs
  proof
    assume "ref \<in> set (sel_refs (select_documents (Some e) ?ds))"
    then have "\<exists>d \<in> set ?ds. doc_source d = ref_source ref \<and> document_session d = ref_session ref"
      by (simp add: select_documents_refs)
    then show ?thesis by (auto simp: author_documents_def names_person_def)
  next
    assume "\<exists>q \<in> set ?qs. \<exists>e' m. batch_identity rd q = Some (ref_session ref, e', m) \<and> batch_matches (Some e) email e' m
      \<and> valid_session_id (ref_session ref) \<and> ref_source ref = q_source q"
    then obtain q e' m where q: "q \<in> set ?qs" "batch_identity rd q = Some (ref_session ref, e', m)"
      "batch_matches (Some e) email e' m" "ref_source ref = q_source q" by blast
    then have "q \<in> set (q_rows db)" "q_customer q = c"
      using subsetD [OF scan_subset q(1)] by (auto simp: unindexed_def)
    moreover have "e' = Some e \<or> \<not> truthy_str e'"
      using q(3) assms(1) by (auto simp: batch_matches_def truthy_str_def)
    ultimately show ?thesis using q(2,4) by auto
  qed
  ultimately show ?thesis by simp
qed

text \<open>A session captured by one employee, with the other's address on a document that names nobody.\<close>

definition author_document :: "string \<Rightarrow> string option \<Rightarrow> string \<Rightarrow> document_row" where
  "author_document sid author mail =
     \<lparr>doc_customer = ''acme'', doc_id = ''pi:acme:'' @ sid, doc_version = 1, doc_source = ''pi'', doc_source_id = sid, doc_parent = None,
      doc_type = ''session'', doc_valid_to = None, doc_visibility = ''tenant'', doc_deleted_at = None, doc_author = author,
      doc_uploader = None, doc_employee_email = Some mail, doc_uploader_email = None\<rparr>"


definition author_db :: erase_db where
  "author_db = worker_db.extend
     (empty_worker_db\<lparr>documents := [author_document ''session-a'' (Some ''alice'') ''x@acme'',
        author_document ''session-b'' (Some ''bob'') ''a@acme'']\<rparr>)
     (erase_db.fields [] [] [] [] [] [] [] [] [])"

theorem author_id_decides_witness:
  "map ref_session (sel_refs (select_by_author (\<lambda>_. None) author_db ''acme'' [''pi''] (Some ''alice'') (Some ''a@acme''))) \<noteq> []
   \<and> ''session-b'' \<notin> set (map ref_session (sel_refs
        (select_by_author (\<lambda>_. None) author_db ''acme'' [''pi''] (Some ''alice'') (Some ''a@acme''))))"
proof -
  let ?sel = "select_by_author (\<lambda>_. None) author_db ''acme'' [''pi''] (Some ''alice'') (Some ''a@acme'')"
  have db: "set (documents author_db) = {author_document ''session-a'' (Some ''alice'') ''x@acme'', author_document ''session-b'' (Some ''bob'') ''a@acme''}"
    "q_rows author_db = []"
    by (simp_all add: author_db_def empty_worker_db_def worker_db.defs erase_db.defs)
  have valid: "valid_session_id ''session-a''"
    by (simp add: valid_session_id_def id_char_def RESERVED_IDS_def MEDIA_STAGING_FOLDER_def)
  have inv: "sel_invalid ?sel = []"
    by (simp add: select_by_author_def Let_def db unindexed_scan.simps unindexed_page_def sql_select_def UNINDEXED_PAGE_def
        select_documents_def author_rows_def author_documents_def names_person_def author_db_def author_document_def
        empty_worker_db_def worker_db.defs erase_db.defs document_session_def valid)
  from author_id_decides [of "''alice''" ?sel "\<lambda>_. None" author_db "''acme''" "[''pi'']" "Some ''a@acme''", OF _ refl]
  have "\<lparr>ref_source = ''pi'', ref_session = ''session-a''\<rparr> \<in> set (sel_refs ?sel)"
    and "\<forall>ref \<in> set (sel_refs ?sel). ref_session ref \<noteq> ''session-b''"
    by (auto simp: db inv author_document_def document_session_def)
  then show ?thesis by force
qed

subsection \<open>From the request to done\<close>

definition recorded :: "string \<Rightarrow> session_ref \<Rightarrow> 'a sup_db_scheme \<Rightarrow> bool" where
  "recorded c ref db \<longleftrightarrow> (\<exists>r \<in> set (deletion_rows db). deletion_of c ref r)"

lemma recorded_iff: "recorded c ref db \<longleftrightarrow> find_deletion db c ref \<noteq> None"
  by (auto simp: recorded_def deletion_rows_def find_deletion_def find_None_iff Bex_def simp del: not_None_eq split: option.splits)

text \<open>Two states with the same tenant, queue ids and deletion records up to their progress.\<close>

definition same_records :: "'a erase_db_scheme \<Rightarrow> 'a erase_db_scheme \<Rightarrow> bool" where
  "same_records db db' \<longleftrightarrow>
     map del_id (deletion_rows db') = map del_id (deletion_rows db) \<and> customers db' = customers db
     \<and> legal_hold_meta db' = legal_hold_meta db"

lemma recorded_ids:
  "recorded c ref db \<longleftrightarrow> (c, ref_source ref, ref_session ref) \<in> (\<lambda>(a, b, s, i). (a, b, s)) ` set (map del_id (deletion_rows db))"
  by (force simp: recorded_def deletion_of_def del_id_def)

lemma same_records_recorded: "same_records db db' \<Longrightarrow> recorded c ref db' = recorded c ref db"
  by (simp only: recorded_ids same_records_def)

lemma same_records_hold: "same_records db db' \<Longrightarrow> legal_hold db' c = legal_hold db c"
  by (simp add: same_records_def legal_hold_def read_legal_hold_def cong: option.case_cong)

lemma same_records_refl [simp]: "same_records db db"
  by (simp add: same_records_def)

lemma same_records_trans: "same_records a b \<Longrightarrow> same_records b d \<Longrightarrow> same_records a d"
  by (simp add: same_records_def)

lemma map_option_rows:
  "map_option (map del_id) (session_deletions db') = map_option (map del_id) (session_deletions db) \<Longrightarrow>
   map del_id (deletion_rows db') = map del_id (deletion_rows db)"
  by (auto simp: deletion_rows_def split: option.splits)

lemma journal_keys_same: "same_records db (journal_keys c ref keys db) \<and> q_rows (journal_keys c ref keys db) = q_rows db"
  unfolding same_records_def journal_keys_def
  by (intro conjI map_option_rows update_deletion_ids) simp_all

lemma fold_same:
  assumes "\<And>s d. same_records d (f s d) \<and> q_rows (f s d) = q_rows d"
  shows "same_records db (fold f xs db) \<and> q_rows (fold f xs db) = q_rows db"
proof (induction xs arbitrary: db)
  case (Cons x xs)
  have "same_records db (f x db)" "q_rows (f x db) = q_rows db" using assms by auto
  with Cons.IH [of "f x db"] show ?case by (auto intro: same_records_trans)
qed simp

lemma journal_scan_same: "same_records db (journal_scan rd c refs db) \<and> q_rows (journal_scan rd c refs db) = q_rows db"
  unfolding journal_scan_def by (intro fold_same) (auto simp: journal_keys_same split: prod.splits)

text \<open>A run nobody interferes with.\<close>

definition quiet_run :: "'d run_world \<Rightarrow> bool" where
  "quiet_run rw \<longleftrightarrow>
     rw_others rw = (\<lambda>_ _ _ d. d) \<and> (\<forall>i n j. sw_up (rw_store rw i n) j) \<and> (\<forall>i n k. \<not> sw_fails (rw_store rw i n) k)
     \<and> (\<forall>i. rw_bucket rw i) \<and> (\<forall>i. rw_fin rw i) \<and> rw_scan rw"

text \<open>The session is erased and says so.\<close>

definition erased :: "string \<Rightarrow> session_ref \<Rightarrow> 'a erase_db_scheme \<Rightarrow> bool" where
  "erased c ref db \<longleftrightarrow>
     rows_gone c ref [session_doc_id c ref] db \<and> raw_keys db c ref = {}
     \<and> (\<forall>r \<in> set (deletion_rows db). deletion_of c ref r \<longrightarrow> d_status r = ''done'')"

lemma quiet_step_records: "quiet_step c ref P db db' \<Longrightarrow> same_records db db'"
  unfolding quiet_step_def same_records_def using map_option_rows by blast

lemma quiet_step_erased:
  assumes "quiet_step c ref P db db'" and "erased c ref' db"
    and "\<forall>r \<in> set (deletion_rows db'). deletion_of c ref r \<longrightarrow> d_status r = ''done''"
  shows "erased c ref' db'"
proof -
  have "d_status r = ''done''" if r: "r \<in> set (deletion_rows db')" "deletion_of c ref' r" "\<not> deletion_of c ref r" for r
  proof -
    have "map_option (filter (\<lambda>r. \<not> deletion_of c ref r)) (session_deletions db')
        = map_option (filter (\<lambda>r. \<not> deletion_of c ref r)) (session_deletions db)"
      using assms(1) by (simp add: quiet_step_def spares_def)
    then have "filter (\<lambda>r. \<not> deletion_of c ref r) (deletion_rows db') = filter (\<lambda>r. \<not> deletion_of c ref r) (deletion_rows db)"
      by (auto simp: deletion_rows_def split: option.splits)
    from arg_cong [OF this, of set] have "r \<in> set (deletion_rows db)" using r(1,3) by auto
    then show ?thesis using assms(2) r(2) by (simp add: erased_def)
  qed
  moreover have "rows_gone c ref' [session_doc_id c ref'] db'" "raw_keys db' c ref' \<subseteq> raw_keys db c ref'"
    using assms(1,2) unfolding quiet_step_def erased_def raw_keys_eq by blast+
  ultimately show ?thesis using assms(2,3) unfolding erased_def by blast
qed


lemma quiet_erase_one:
  assumes "legal_hold db c = Inr None" and "recorded c ref db" and "distinct (map q_id (q_rows db))" and "quiet_run rw"
  obtains db' P where
    "erase_session (rw_others rw i) (rw_store rw i) (rw_bucket rw i) (rw_fin rw i) c ref now db = (db', ''done'')"
    "quiet_step c ref P db db'" "erased c ref db'"
proof -
  have rw: "rw_others rw i = (\<lambda>_ _ d. d)" "rw_bucket rw i" "rw_fin rw i" "\<forall>n j. sw_up (rw_store rw i n) j"
    "\<forall>n k. \<not> sw_fails (rw_store rw i n) k"
    using assms(4) by (simp_all add: quiet_run_def)
  have "find_deletion db c ref \<noteq> None" using assms(2) by (simp add: recorded_iff)
  then obtain db' where run: "erase_session (\<lambda>_ _ d. d) (rw_store rw i) True True c ref now db = (db', ''done'')"
    using quiet_erase [OF assms(1) _ rw(4,5)] by blast
  let ?docs = "session_doc_id c ref # map doc_id (filter (own_document c ref) (documents db))"
  have "rows_gone c ref ?docs db' \<and> raw_keys db' c ref = {} \<and> (\<forall>k. False \<longrightarrow> \<not> has_object db' c k)"
    by (rule erase_done_gone [OF run]) (use assms(2) in \<open>simp_all add: tracked_def recorded_iff\<close>)
  then have "rows_gone c ref [session_doc_id c ref] db'" "raw_keys db' c ref = {}"
    by (auto elim: rows_gone_docs)
  moreover have "d_status r = ''done''" if "r \<in> set (deletion_rows db')" "deletion_of c ref r" for r
    using erase_done_status [OF run] that by (cases "session_deletions db'") (auto simp: deletion_rows_def)
  ultimately have "erased c ref db'" by (simp add: erased_def)
  with erase_session_quiet [OF assms(3) run] run rw(1-3) that show ?thesis by simp
qed

lemma quiet_erase_all:
  assumes "legal_hold db c = Inr None" and "\<forall>ref \<in> set refs. recorded c ref db" and "distinct (map q_id (q_rows db))"
    and "quiet_run rw"
  shows "\<exists>db'. erase_all rw c now i refs db = (db', map (\<lambda>ref. (ref, ''done'')) refs) \<and> same_records db db'
    \<and> (\<forall>ref. ref \<in> set refs \<or> erased c ref db \<longrightarrow> erased c ref db')"
  using assms
proof (induction refs arbitrary: db i)
  case (Cons ref refs)
  have "recorded c ref db" using Cons.prems(2) by simp
  from quiet_erase_one [OF Cons.prems(1) this Cons.prems(3,4), of i now] obtain db1 P where
    run: "erase_session (rw_others rw i) (rw_store rw i) (rw_bucket rw i) (rw_fin rw i) c ref now db = (db1, ''done'')"
    and step: "quiet_step c ref P db db1" and done1: "erased c ref db1" by blast
  note same = quiet_step_records [OF step]
  have "legal_hold db1 c = Inr None" "\<forall>ref \<in> set refs. recorded c ref db1"
    using Cons.prems(1,2) same_records_hold [OF same] same_records_recorded [OF same] by simp_all
  moreover have "distinct (map q_id (q_rows db1))" using step Cons.prems(3) unfolding quiet_step_def by blast
  ultimately obtain db2 where
    rest: "erase_all rw c now (i + 1) refs db1 = (db2, map (\<lambda>ref. (ref, ''done'')) refs)" "same_records db1 db2"
    "\<forall>ref. ref \<in> set refs \<or> erased c ref db1 \<longrightarrow> erased c ref db2"
    using Cons.IH [of db1 "i + 1"] Cons.prems(4) by blast
  have "erased c ref' db1" if "erased c ref' db" for ref'
    using quiet_step_erased [OF step that] done1 by (simp add: erased_def)
  then show ?case
    using run rest done1 same_records_trans [OF same rest(2)] by auto
qed simp

text \<open>Phase 1: the tenant stays as it is, the session is recorded under the request and no other record changes.\<close>

lemma record_session_parts [simp]:
  "customers (record_session rq c ref now db) = customers db"
  "legal_hold_meta (record_session rq c ref now db) = legal_hold_meta db"
  "map q_id (q_rows (record_session rq c ref now db)) = map q_id (q_rows db)"
  by (simp_all add: record_session_def Let_def update_rows_def map_sql_update)

lemma deletion_of_renew [simp]: "deletion_of c ref (renew_deletion rq ks now r) = deletion_of c ref r"
  by (simp add: renew_deletion_def deletion_of_def)

lemma deletion_of_new [simp]: "deletion_of c ref (new_deletion rq c ref ks now)"
  by (simp add: new_deletion_def deletion_of_def)

lemma record_session_rows:
  "deletion_rows (record_session rq c ref now db) =
     (let ks = iv_keys (inventory db c ref []) in
      if recorded c ref db then sql_update (deletion_of c ref) (renew_deletion rq ks now) (deletion_rows db)
      else deletion_rows db @ [new_deletion rq c ref ks now])"
  by (cases "session_deletions db") (simp_all add: record_session_def Let_def recorded_def deletion_rows_def)

lemma record_session_row:
  assumes "r \<in> set (deletion_rows (record_session rq c ref now db))"
  shows "deletion_of c ref r \<and> d_deletion_id r = rq_deletion_id rq \<or> r \<in> set (deletion_rows db)"
  using assms
  by (auto simp: record_session_rows Let_def set_sql_update renew_deletion_def new_deletion_def deletion_of_def split: if_splits)

lemma record_session_has:
  "\<exists>r \<in> set (deletion_rows (record_session rq c ref now db)). deletion_of c ref r \<and> d_deletion_id r = rq_deletion_id rq"
proof (cases "recorded c ref db")
  case True
  then obtain r where "r \<in> set (deletion_rows db)" "deletion_of c ref r" by (auto simp: recorded_def)
  then show ?thesis using True
    by (intro bexI [of _ "renew_deletion rq (iv_keys (inventory db c ref [])) now r"])
      (auto simp: record_session_rows Let_def set_sql_update, simp add: renew_deletion_def)
next
  case False
  then show ?thesis by (simp add: record_session_rows Let_def) (simp add: new_deletion_def)
qed

lemma record_session_keeps:
  assumes "recorded c' ref' db"
  shows "recorded c' ref' (record_session rq c ref now db)"
proof -
  from assms obtain r where r: "r \<in> set (deletion_rows db)" "deletion_of c' ref' r" by (auto simp: recorded_def)
  let ?f = "\<lambda>r. if deletion_of c ref r then renew_deletion rq (iv_keys (inventory db c ref [])) now r else r"
  have "?f r \<in> set (deletion_rows (record_session rq c ref now db)) \<or> r \<in> set (deletion_rows (record_session rq c ref now db))"
    using r(1) by (simp add: record_session_rows Let_def sql_update_def)
  moreover have "deletion_of c' ref' (?f r)" using r(2) by simp
  ultimately show ?thesis using r(2) unfolding recorded_def by blast
qed

lemma record_sessions_spec:
  assumes "refs \<noteq> [] \<or> (\<exists>r \<in> set (deletion_rows db). of_deletion c (rq_deletion_id rq) r)"
  shows "customers (record_sessions rq c refs now db) = customers db
    \<and> legal_hold_meta (record_sessions rq c refs now db) = legal_hold_meta db
    \<and> map q_id (q_rows (record_sessions rq c refs now db)) = map q_id (q_rows db)
    \<and> (\<forall>ref. ref \<in> set refs \<or> recorded c ref db \<longrightarrow> recorded c ref (record_sessions rq c refs now db))
    \<and> (\<forall>r \<in> set (deletion_rows (record_sessions rq c refs now db)). r \<in> set (deletion_rows db) \<or> (\<exists>ref \<in> set refs. deletion_of c ref r))
    \<and> (\<exists>r \<in> set (deletion_rows (record_sessions rq c refs now db)). of_deletion c (rq_deletion_id rq) r)"
  using assms
proof (induction refs arbitrary: db)
  case (Cons ref refs)
  let ?db1 = "record_session rq c ref now db"
  obtain r where r: "r \<in> set (deletion_rows ?db1)" "deletion_of c ref r" "d_deletion_id r = rq_deletion_id rq"
    using record_session_has [of rq c ref now db] by blast
  then have "\<exists>r \<in> set (deletion_rows ?db1). of_deletion c (rq_deletion_id rq) r"
    by (auto simp: of_deletion_def deletion_of_def)
  note ih = Cons.IH [of ?db1, OF disjI2 [OF this]]
  have rec: "recorded c ref ?db1" using r by (auto simp: recorded_def)
  show ?case
    using ih rec record_session_keeps [of c _ db rq c ref now] record_session_row [of _ rq c ref now db]
    by (simp add: record_sessions_def) blast
qed (simp add: record_sessions_def)


lemma started_request:
  assumes "delete_sessions rd c b new_id now db = (db1, Started new_id refs deep persons)"
  shows "legal_hold db c = Inr None" and "refs \<noteq> []"
    and "\<exists>rq. rq_deletion_id rq = new_id \<and> db1 = record_sessions rq c refs now db"
  using assms by (auto simp: delete_sessions_def Let_def split: if_splits sum.splits intro: exI [of _ "\<lparr>rq_deletion_id = x, rq_reason = y, rq_ticket = z, rq_deep_scan = w\<rparr>" for x y z w])

lemma persons_erased:
  assumes "erased c ref db"
  shows "erased c ref (fst (remove_orphaned_persons c persons db))"
    and "deletion_rows (fst (remove_orphaned_persons c persons db)) = deletion_rows db"
  using assms
  by (auto simp: remove_orphaned_persons_def Let_def erased_def rows_gone_def session_media_count_def raw_keys_eq has_object_def
      deletion_rows_def)

lemma overall_done: "\<forall>r \<in> set rows. d_status r = ''done'' \<Longrightarrow> overall_status now rows = ''done''"
  by (auto simp: overall_status_def Let_def image_iff)

lemma same_ids_mem:
  assumes "map del_id a = map del_id b" and "r \<in> set a"
  obtains r' where "r' \<in> set b" "del_id r' = del_id r"
proof -
  have "del_id r \<in> set (map del_id b)" using assms(2) by (simp flip: assms(1))
  then show ?thesis using that by auto
qed

lemma status_reads_done:
  assumes key: "map del_id (deletion_rows db2) = map del_id (deletion_rows db1)"
    and of: "\<forall>r \<in> set (deletion_rows db1). d_deletion_id r = did \<longrightarrow> (\<exists>ref \<in> set refs. deletion_of c ref r)"
    and some: "\<exists>r \<in> set (deletion_rows db1). of_deletion c did r"
    and gone: "\<forall>ref \<in> set refs. erased c ref db2" and "uuid_ok did"
  shows "\<exists>rows. deletion_status c did now db2 = Inr (''done'', rows)"
proof -
  have stat: "d_status r = ''done''" if r: "r \<in> set (deletion_rows db2)" "of_deletion c did r" for r
  proof -
    obtain r1 where r1: "r1 \<in> set (deletion_rows db1)" "del_id r1 = del_id r" using key r(1) by (rule same_ids_mem)
    then have "d_deletion_id r1 = did" using r(2) by (simp add: del_id_def of_deletion_def)
    with r1(1) of obtain ref where "ref \<in> set refs" "deletion_of c ref r1" by blast
    moreover from this r1(2) have "deletion_of c ref r" by (simp add: deletion_of_def del_id_def)
    ultimately show ?thesis using gone r(1) by (auto simp: erased_def)
  qed
  obtain r1 where r1: "r1 \<in> set (deletion_rows db1)" "of_deletion c did r1" using some by blast
  then obtain r where "r \<in> set (deletion_rows db2)" "del_id r = del_id r1" using key [symmetric] by (blast elim: same_ids_mem)
  then have "\<exists>r \<in> set (deletion_rows db2). of_deletion c did r" using r1(2) by (auto simp: of_deletion_def del_id_def)
  then show ?thesis
    using assms(5) stat by (auto simp: deletion_status_def Let_def filter_empty_conv intro!: overall_done)
qed


definition example_uuid :: string where "example_uuid = ''0123456789abcdef0123456789abcdef''"

definition example_request :: del_request where
  "example_request = \<lparr>body_ids = Some [''session1''], body_author = None, body_sources = Some [''pi''], body_dry_run = False,
     body_reason = Some ''erasure request'', body_ticket = None, body_deep_scan = True\<rparr>"

lemma example_started:
  "\<exists>db1. delete_sessions (\<lambda>_. None) ''acme'' example_request example_uuid 3 example_erase_db
     = (db1, Started example_uuid [example_ref] True {})"
proof -
  have valid: "valid_session_id ''session1''"
    by (simp add: valid_session_id_def id_char_def RESERVED_IDS_def MEDIA_STAGING_FOLDER_def)
  have req: "valid_request example_request"
    by (simp add: valid_request_def example_request_def valid length_in_def agent_sources_def AGENT_SESSION_SOURCES_def
        strip_of_def is_space_def)
  have known: "known_under example_erase_db ''acme'' ''pi'' ''session1''"
    by (simp add: known_under_def example_defs)
  have "select_sessions (\<lambda>_. None) example_erase_db ''acme'' example_request
    = \<lparr>sel_refs = [example_ref], sel_persons = {}, sel_unattributed = 0, sel_invalid = []\<rparr>"
    by (simp add: select_sessions_def example_request_def select_by_ids_def sorted_set_def known sorted_refs_def example_ref_def)
  then show ?thesis
    using req by (simp add: delete_sessions_def example_state(1) Let_def) (simp add: example_request_def)
qed

definition quiet_world :: "erase_db run_world" where
  "quiet_world = \<lparr>rw_others = \<lambda>_ _ _ d. d, rw_store = \<lambda>_ _. store_fine, rw_bucket = \<lambda>_. True, rw_fin = \<lambda>_. True, rw_scan = True\<rparr>"


end
