(* ===== verification/DeletionDoors.thy ===== *)
theory DeletionDoors
  imports DeletionProperties ReceiptProperties
begin

section \<open>Deleted sessions and the capture doors\<close>

text \<open>
  What \<open>erase_session\<close> relies on: while a deletion is on record nobody brings the session back. The locale
  \<open>refusing_writer\<close> states it as the contract of a writer; both capture doors (\<open>accept\<close> and
  \<open>accept_legacy\<close> of \<^verbatim>\<open>kb/session_receipts.py\<close>) are interpretations, for a batch of any session. Inside it: such a writer
  may run between any two steps of an erasure, and what is gone stays gone.
\<close>

subsection \<open>The contract\<close>

locale refusing_writer =
  fixes w :: "'a erase_db_scheme \<Rightarrow> 'a erase_db_scheme" and c :: string and ref :: session_ref
    and docs :: "string list" and K :: "string \<Rightarrow> bool"
  assumes keeps_record: "find_deletion d c ref \<noteq> None \<Longrightarrow> find_deletion (w d) c ref \<noteq> None"
    and keeps_track: "tracked c ref K d \<Longrightarrow> tracked c ref K (w d)"
    and no_object: "find_deletion d c ref \<noteq> None \<Longrightarrow> K k \<or> own_key c ref k \<Longrightarrow> has_object (w d) c k \<Longrightarrow> has_object d c k"
    and no_row: "find_deletion d c ref \<noteq> None \<Longrightarrow> rows_gone c ref docs d \<Longrightarrow> rows_gone c ref docs (w d)"
begin

lemma bystander: "bystanders c ref K (\<lambda>k. K k \<or> own_key c ref k) w"
proof (unfold bystanders_def, intro allI impI conjI)
  fix d :: "'a erase_db_scheme" assume tr: "tracked c ref K d"
  show "tracked c ref K (w d)" using tr by (rule keeps_track)
  fix k assume "K k \<or> own_key c ref k" "has_object (w d) c k"
  with no_object [of d k] tr show "has_object d c k" unfolding tracked_def by blast
qed

lemma stays_gone:
  assumes "find_deletion d c ref \<noteq> None" "rows_gone c ref docs d" "raw_keys d c ref = {}"
  shows "find_deletion (w d) c ref \<noteq> None" "rows_gone c ref docs (w d)" "raw_keys (w d) c ref = {}"
proof -
  show "find_deletion (w d) c ref \<noteq> None" using assms(1) by (rule keeps_record)
  show "rows_gone c ref docs (w d)" using assms(1,2) by (rule no_row)
  show "raw_keys (w d) c ref = {}" using assms(3) no_object [OF assms(1)] by (auto simp: raw_keys_eq)
qed

end

subsection \<open>What a door writes\<close>

text \<open>A batch of session \<open>sid'\<close> stored under \<open>key\<close>: at most that object and rows of that session are new, and no
  queue row or receipt loses a key.\<close>

definition door_write ::
  "string \<Rightarrow> string \<Rightarrow> string \<Rightarrow> string \<Rightarrow> 'a erase_db_scheme \<Rightarrow> 'a erase_db_scheme \<Rightarrow> bool" where
  "door_write c' src' sid' key d d' \<longleftrightarrow>
     session_deletions d' = session_deletions d \<and> documents d' = documents d \<and> ingestion_events d' = ingestion_events d
     \<and> chunks d' = chunks d \<and> failed_chunks d' = failed_chunks d \<and> inferred_edges_queue d' = inferred_edges_queue d
     \<and> acl_snapshots d' = acl_snapshots d \<and> graph_nodes d' = graph_nodes d \<and> pending_edges d' = pending_edges d
     \<and> (\<forall>r \<in> set (q_rows d'). q_key r = (c', src', sid') \<or> q_key r \<in> q_key ` set (q_rows d))
     \<and> (\<forall>r \<in> set (q_rows d). \<exists>r' \<in> set (q_rows d'). q_key r' = q_key r \<and> set (row_keys r) \<subseteq> set (row_keys r'))
     \<and> (\<exists>new. session_batch_receipts d' = session_batch_receipts d @ new
          \<and> (\<forall>r \<in> set new. (rc_customer r, rc_source r, rc_session r) = (c', src', sid')))
     \<and> (\<forall>s \<in> set (session_streams d'). stream_key s = (c', src', sid') \<or> stream_key s \<in> stream_key ` set (session_streams d))
     \<and> map_option (map (\<lambda>m. (m_customer m, m_source m, m_session m))) (session_media d')
       = map_option (map (\<lambda>m. (m_customer m, m_source m, m_session m))) (session_media d)
     \<and> (\<forall>c k. has_object d' c k \<longrightarrow> has_object d c k \<or> (c, k) = (c', key))"

lemma door_write_refl [simp]: "door_write c' src' sid' key d d"
  by (auto simp: door_write_def)

text \<open>The batch is of another session and not stored under a key of this one.\<close>

definition apart :: "string \<Rightarrow> session_ref \<Rightarrow> (string \<Rightarrow> bool) \<Rightarrow> string \<Rightarrow> string \<Rightarrow> string \<Rightarrow> string \<Rightarrow> bool" where
  "apart c ref K c' src' sid' key \<longleftrightarrow>
     c' \<noteq> c \<or> (src' \<noteq> ref_source ref \<or> \<not> own_event (ref_session ref) sid') \<and> \<not> K key \<and> \<not> own_key c ref key"

lemma own_queue_row_key:
  "own_queue_row c ref r \<longleftrightarrow>
     (\<exists>ev. q_key r = (c, ref_source ref, ev) \<and> own_event (ref_session ref) ev)"
  by (auto simp: own_queue_row_def q_key_def)

lemma own_stream_key: "own_stream c ref s \<longleftrightarrow> stream_key s = (c, ref_source ref, ref_session ref)"
  by (auto simp: own_stream_def stream_key_def)

lemma own_event_refl [simp]: "own_event sid sid"
  by (simp add: own_event_def)

lemma media_count_key:
  assumes "map_option (map (\<lambda>m. (m_customer m, m_source m, m_session m))) (session_media d')
    = map_option (map (\<lambda>m. (m_customer m, m_source m, m_session m))) (session_media d)"
  shows "session_media_count d' c ref = session_media_count d c ref"
proof -
  have "length (filter (own_media c ref) t)
      = count_list (map (\<lambda>m. (m_customer m, m_source m, m_session m)) t) (c, ref_source ref, ref_session ref)" for t
    by (induction t) (auto simp: own_media_def)
  then show ?thesis using assms by (auto simp: session_media_count_def split: option.splits)
qed

lemma door_write_named:
  assumes "door_write c' src' sid' key d d'"
  shows "set (named_keys d c ref) \<subseteq> set (named_keys d' c ref)"
proof
  fix k assume "k \<in> set (named_keys d c ref)"
  then consider (queue) r where "r \<in> set (q_rows d)" "own_queue_row c ref r" "k \<in> set (row_keys r)" "k \<noteq> []"
    | (rest) "k \<noteq> []" "k \<in> e_payload_key ` {r \<in> set (ingestion_events d). own_event_row c ref r}
        \<union> rc_payload_key ` {r \<in> set (session_batch_receipts d). own_receipt c ref r}"
    by (auto simp: named_keys_def)
  then show "k \<in> set (named_keys d' c ref)"
  proof cases
    case queue
    then obtain r' where "r' \<in> set (q_rows d')" "q_key r' = q_key r" "set (row_keys r) \<subseteq> set (row_keys r')"
      using assms unfolding door_write_def by blast
    with queue show ?thesis by (auto simp: named_keys_def own_queue_row_key)
  next
    case rest
    with assms show ?thesis by (auto simp: door_write_def named_keys_def)
  qed
qed

lemma door_write_refuses:
  assumes dw: "door_write c' src' sid' key d d'" and ap: "apart c ref K c' src' sid' key"
  shows "find_deletion d' c ref = find_deletion d c ref"
    and "tracked c ref K d \<Longrightarrow> tracked c ref K d'"
    and "K k \<or> own_key c ref k \<Longrightarrow> has_object d' c k \<Longrightarrow> has_object d c k"
    and "rows_gone c ref docs d \<Longrightarrow> rows_gone c ref docs d'"
proof -
  show rec: "find_deletion d' c ref = find_deletion d c ref" using dw by (simp add: door_write_def find_deletion_def)
  show obj: "has_object d c k" if "K k \<or> own_key c ref k" "has_object d' c k" for k
    using dw ap that unfolding door_write_def apart_def by blast
  show "tracked c ref K d'" if "tracked c ref K d"
    using that rec obj door_write_named [OF dw, of c ref] by (auto simp: tracked_def journal_def)
  have "\<not> own_queue_row c ref r" if "r \<in> set (q_rows d')" "\<forall>r \<in> set (q_rows d). \<not> own_queue_row c ref r" for r
    using that dw ap unfolding door_write_def apart_def own_queue_row_key by fastforce
  moreover have "\<not> own_stream c ref s" if "s \<in> set (session_streams d')" "\<forall>s \<in> set (session_streams d). \<not> own_stream c ref s" for s
    using that dw ap unfolding door_write_def apart_def own_stream_key by fastforce
  moreover have "\<not> own_receipt c ref r" if "r \<in> set (session_batch_receipts d')"
      "\<forall>r \<in> set (session_batch_receipts d). \<not> own_receipt c ref r" for r
    using that dw ap unfolding door_write_def apart_def own_receipt_def by fastforce
  ultimately show "rows_gone c ref docs d'" if "rows_gone c ref docs d"
    using that dw media_count_key [of d' d c ref] unfolding rows_gone_def door_write_def by simp
qed


subsection \<open>The doors\<close>

lemma has_object_put: "has_object (put_object c' key body d) c k \<longleftrightarrow> has_object d c k \<or> (c, k) = (c', key)"
  by (auto simp: has_object_def put_object_def keys_dict_set)

lemma enqueue_agent_write:
  "\<forall>r \<in> set (q_rows (enqueue_agent reg c' s sid' key now d)). q_key r = (c', source_value s, sid') \<or> q_key r \<in> q_key ` set (q_rows d)"
  "\<forall>r \<in> set (q_rows d). \<exists>r' \<in> set (q_rows (enqueue_agent reg c' s sid' key now d)). q_key r' = q_key r \<and> set (row_keys r) \<subseteq> set (row_keys r')"
proof -
  have ext: "q_key (extend_agent key now r) = q_key r" "set (row_keys r) \<subseteq> set (row_keys (extend_agent key now r))" for r
    by (auto simp: extend_agent_def q_key_def row_keys_def split: option.splits)
  show "\<forall>r \<in> set (q_rows (enqueue_agent reg c' s sid' key now d)). q_key r = (c', source_value s, sid') \<or> q_key r \<in> q_key ` set (q_rows d)"
    by (auto simp: enqueue_agent_def update_rows_def add_row_def set_sql_update ext(1) q_key_new_queue_row)
  show "\<forall>r \<in> set (q_rows d). \<exists>r' \<in> set (q_rows (enqueue_agent reg c' s sid' key now d)). q_key r' = q_key r \<and> set (row_keys r) \<subseteq> set (row_keys r')"
  proof
    fix r assume r: "r \<in> set (q_rows d)"
    let ?r' = "if q_key r = (c', source_value s, sid') then extend_agent key now r else r"
    have "?r' \<in> set (q_rows (enqueue_agent reg c' s sid' key now d))"
      using r by (force simp: enqueue_agent_def update_rows_def add_row_def sql_update_def)
    moreover have "q_key ?r' = q_key r \<and> set (row_keys r) \<subseteq> set (row_keys ?r')" using ext by simp
    ultimately show "\<exists>r' \<in> set (q_rows (enqueue_agent reg c' s sid' key now d)). q_key r' = q_key r \<and> set (row_keys r) \<subseteq> set (row_keys r')"
      by blast
  qed
qed

lemma put_object_write: "door_write c' src' sid' key d (put_object c' key body d)"
  by (auto simp: door_write_def has_object_put) (auto simp: put_object_def)


lemma enqueue_agent_parts [simp]:
  "documents (enqueue_agent reg c' s sid' key now d) = documents d"
  "ingestion_events (enqueue_agent reg c' s sid' key now d) = ingestion_events d"
  "chunks (enqueue_agent reg c' s sid' key now d) = chunks d"
  "failed_chunks (enqueue_agent reg c' s sid' key now d) = failed_chunks d"
  "inferred_edges_queue (enqueue_agent reg c' s sid' key now d) = inferred_edges_queue d"
  "acl_snapshots (enqueue_agent reg c' s sid' key now d) = acl_snapshots d"
  "graph_nodes (enqueue_agent reg c' s sid' key now d) = graph_nodes d"
  "pending_edges (enqueue_agent reg c' s sid' key now d) = pending_edges d"
  "session_media (enqueue_agent reg c' s sid' key now d) = session_media d"
  by (simp_all add: enqueue_agent_def update_rows_def add_row_def)

lemma put_object_parts [simp]:
  "documents (put_object c' key body d) = documents d" "ingestion_events (put_object c' key body d) = ingestion_events d"
  "chunks (put_object c' key body d) = chunks d" "failed_chunks (put_object c' key body d) = failed_chunks d"
  "inferred_edges_queue (put_object c' key body d) = inferred_edges_queue d" "acl_snapshots (put_object c' key body d) = acl_snapshots d"
  "graph_nodes (put_object c' key body d) = graph_nodes d" "pending_edges (put_object c' key body d) = pending_edges d"
  "session_media (put_object c' key body d) = session_media d"
  by (simp_all add: put_object_def)

lemma has_object_enqueue [simp]: "has_object (enqueue_agent reg c' s sid' key now d) c k \<longleftrightarrow> has_object d c k"
  by (simp add: has_object_def)

lemma accept_legacy_write:
  "door_write c' (source_value s) sid' key d (fst (accept_legacy reg sid' c' s key body now d))"
proof -
  have "door_write c' (source_value s) sid' key d (enqueue_agent reg c' s sid' key now (put_object c' key body d))"
    using enqueue_agent_write [where d = "put_object c' key body d"]
    by (simp add: door_write_def has_object_put)
  then show ?thesis by (simp add: accept_legacy_def)
qed

lemma mark_named_write:
  assumes "door_write c' src' sid' key d x"
  shows "door_write c' src' sid' key d (mark_named c2 src2 sid2 shas now x)"
proof -
  have "map_option (map (\<lambda>m. (m_customer m, m_source m, m_session m))) (session_media (mark_named c2 src2 sid2 shas now x))
      = map_option (map (\<lambda>m. (m_customer m, m_source m, m_session m))) (session_media x)"
    by (simp add: mark_named_def option.map_comp comp_def map_sql_update)
  moreover have "has_object (mark_named c2 src2 sid2 shas now x) c k \<longleftrightarrow> has_object x c k" for c k
    by (simp add: has_object_def)
  moreover have "documents (mark_named c2 src2 sid2 shas now x) = documents x" "ingestion_events (mark_named c2 src2 sid2 shas now x) = ingestion_events x"
    "chunks (mark_named c2 src2 sid2 shas now x) = chunks x" "failed_chunks (mark_named c2 src2 sid2 shas now x) = failed_chunks x"
    "inferred_edges_queue (mark_named c2 src2 sid2 shas now x) = inferred_edges_queue x"
    "acl_snapshots (mark_named c2 src2 sid2 shas now x) = acl_snapshots x" "graph_nodes (mark_named c2 src2 sid2 shas now x) = graph_nodes x"
    "pending_edges (mark_named c2 src2 sid2 shas now x) = pending_edges x"
    by (simp_all add: mark_named_def)
  ultimately show ?thesis using assms by (simp add: door_write_def)
qed

lemma store_batch_write:
  assumes "store_batch env reg p c' s digest protocol new now d = (d', res)"
  shows "door_write c' (source_value s) (gstr p ''session_id'') (batch_key c' s (gstr p ''session_id'') (gint p ''batch_seq'') digest) d d'"
proof -
  let ?sid = "gstr p ''session_id''" and ?key = "batch_key c' s (gstr p ''session_id'') (gint p ''batch_seq'') digest"
  let ?stored = "put_object c' ?key (de_dumps env (JObj [(''payload'', de_redact env p)])) d"
  let ?db1 = "if new then ?stored\<lparr>session_streams := session_streams ?stored @
       [new_stream c' (source_value s) ?sid (gstr p ''stream_id'') protocol (obj_get (de_redact env p) ''device_id'')]\<rparr> else ?stored"
  have q: "q_rows ?db1 = q_rows d" by simp
  have streams: "stream_key x = (c', source_value s, ?sid) \<or> stream_key x \<in> stream_key ` set (session_streams d)"
    if "x \<in> set (sql_update (\<lambda>st. stream_key st = (c', source_value s, ?sid)) (advance_stream p) (session_streams ?db1))" for x
    using that by (auto simp: set_sql_update split: if_splits)
  let ?rc = "\<lparr>rc_customer = c', rc_source = source_value s, rc_session = ?sid, rc_payload_key = ?key, rc_view = receipt_for p digest\<rparr>"
  let ?db2 = "enqueue_agent reg c' s ?sid ?key now ?db1"
  let ?db3 = "?db2\<lparr>session_batch_receipts := session_batch_receipts ?db2 @ [?rc],
      session_streams := sql_update (\<lambda>st. stream_key st = (c', source_value s, ?sid)) (advance_stream p) (session_streams ?db2)\<rparr>"
  have "q_rows ?db3 = q_rows ?db2" by simp
  have obj: "has_object ?db3 c k \<longleftrightarrow> has_object d c k \<or> (c, k) = (c', ?key)" for c k
    using has_object_put [of c' ?key _ d c k] by (simp add: has_object_def)
  have "door_write c' (source_value s) ?sid ?key d ?db3"
    unfolding door_write_def
    using enqueue_agent_write [where d = ?db1, unfolded q] streams obj by (simp split del: if_split) auto
  moreover have "d' = ?stored \<or> d' = ?db3 \<or> (\<exists>shas. d' = mark_named c' (source_value s) ?sid shas now ?db3)"
    using assms by (auto simp: store_batch_def Let_def split: sum.splits if_splits)
  ultimately show ?thesis using put_object_write mark_named_write by blast
qed

text \<open>A batch of the deleted session itself, which is refused, or of one apart from it.\<close>

definition door_ok :: "string \<Rightarrow> session_ref \<Rightarrow> (string \<Rightarrow> bool) \<Rightarrow> string \<Rightarrow> string \<Rightarrow> string \<Rightarrow> string \<Rightarrow> bool" where
  "door_ok c ref K c' src' sid' key \<longleftrightarrow>
     (c', src', sid') = (c, ref_source ref, ref_session ref) \<or> apart c ref K c' src' sid' key"

lemma recorded_is_refused:
  "find_deletion d c ref \<noteq> None \<Longrightarrow> refuse_deleted d c (ref_source ref) (ref_session ref)"
  by (auto simp: find_deletion_def refuse_deleted_def deleted_sessions_def deletion_of_def find_Some_iff sorted_set_def
      split: option.splits)

lemma refusing_writerI:
  assumes "\<And>d. find_deletion d c ref \<noteq> None \<Longrightarrow>
      w d = d \<or> (\<exists>c' src' sid' key. apart c ref K c' src' sid' key \<and> door_write c' src' sid' key d (w d))"
  shows "refusing_writer w c ref docs K"
proof
  show "find_deletion (w d) c ref \<noteq> None" if "find_deletion d c ref \<noteq> None" for d
    using assms [OF that] that door_write_refuses(1) by metis
  show "tracked c ref K (w d)" if "tracked c ref K d" for d
    using assms [of d] that door_write_refuses(2) unfolding tracked_def [of c ref K d] by (metis tracked_def)
  show "has_object d c k" if "find_deletion d c ref \<noteq> None" "K k \<or> own_key c ref k" "has_object (w d) c k" for d k
    using assms [OF that(1)] that door_write_refuses(3) by metis
  show "rows_gone c ref docs (w d)" if "find_deletion d c ref \<noteq> None" "rows_gone c ref docs d" for d
    using assms [OF that(1)] that door_write_refuses(4) by metis
qed

text \<open>A call of the protocol-1 door with an admissible batch; any other call is not made.\<close>

definition door_v1 ::
  "string \<Rightarrow> session_ref \<Rightarrow> (string \<Rightarrow> bool) \<Rightarrow> registry \<Rightarrow> string \<Rightarrow> string \<Rightarrow> source_system \<Rightarrow> string \<Rightarrow> string \<Rightarrow> time
   \<Rightarrow> 'a erase_db_scheme \<Rightarrow> 'a erase_db_scheme" where
  "door_v1 c ref K reg sid' c' s key body now d =
     (if door_ok c ref K c' (source_value s) sid' key then fst (accept_legacy reg sid' c' s key body now d) else d)"

interpretation v1_door: refusing_writer "door_v1 c ref K reg sid' c' s key body now" c ref docs K
  for reg sid' c' s key body now c ref docs K
proof (rule refusing_writerI)
  fix d :: "'a erase_db_scheme" assume rec: "find_deletion d c ref \<noteq> None"
  show "door_v1 c ref K reg sid' c' s key body now d = d \<or> (\<exists>c'' src' sid'' key'. apart c ref K c'' src' sid'' key'
      \<and> door_write c'' src' sid'' key' d (door_v1 c ref K reg sid' c' s key body now d))"
    using recorded_is_refused [OF rec] accept_legacy_write [of c' s sid' key d reg body now]
    by (auto simp: door_v1_def door_ok_def accept_legacy_def)
qed

lemma accept_writes:
  "fst (accept cfg env reg (\<lambda>d. d) p c' s now d) = d
   \<or> \<not> refuse_deleted d c' (source_value s) (gstr p ''session_id'')
     \<and> door_write c' (source_value s) (gstr p ''session_id'')
         (batch_key c' s (gstr p ''session_id'') (gint p ''batch_seq'') (de_digest env (canonical_payload p))) d
         (fst (accept cfg env reg (\<lambda>d. d) p c' s now d))"
proof (cases "accept cfg env reg (\<lambda>d. d) p c' s now d")
  case (Pair d' res)
  have d': "fst (accept cfg env reg (\<lambda>d. d) p c' s now d) = d'" by (simp add: Pair)
  from Pair show ?thesis
    unfolding d' by (cases rule: accept_cases) (auto dest: settle_store(1) store_batch_write)
qed

definition door_v2 ::
  "string \<Rightarrow> session_ref \<Rightarrow> (string \<Rightarrow> bool) \<Rightarrow> settings \<Rightarrow> door_env \<Rightarrow> registry \<Rightarrow> json \<Rightarrow> string \<Rightarrow> source_system \<Rightarrow> time
   \<Rightarrow> 'a erase_db_scheme \<Rightarrow> 'a erase_db_scheme" where
  "door_v2 c ref K cfg env reg p c' s now d =
     (if door_ok c ref K c' (source_value s) (gstr p ''session_id'')
           (batch_key c' s (gstr p ''session_id'') (gint p ''batch_seq'') (de_digest env (canonical_payload p)))
      then fst (accept cfg env reg (\<lambda>d. d) p c' s now d) else d)"

interpretation v2_door: refusing_writer "door_v2 c ref K cfg env reg p c' s now" c ref docs K
  for cfg env reg p c' s now c ref docs K
proof (rule refusing_writerI)
  fix d :: "'a erase_db_scheme" assume rec: "find_deletion d c ref \<noteq> None"
  show "door_v2 c ref K cfg env reg p c' s now d = d \<or> (\<exists>c'' src' sid'' key'. apart c ref K c'' src' sid'' key'
      \<and> door_write c'' src' sid'' key' d (door_v2 c ref K cfg env reg p c' s now d))"
    using recorded_is_refused [OF rec] accept_writes [of cfg env reg p c' s now d]
    by (auto simp: door_v2_def door_ok_def)
qed


subsection \<open>Runs of calls\<close>

text \<open>Calls of both doors in any order. A session id that is not the deleted one is one that could be deleted too (capture
  clients send UUIDs), and a protocol-1 batch is stored in a folder of four digits (\<^verbatim>\<open>_payload_key\<close>).\<close>

inductive door_run :: "string \<Rightarrow> session_ref \<Rightarrow> 'a erase_db_scheme \<Rightarrow> 'a erase_db_scheme \<Rightarrow> bool" for c ref where
  none: "door_run c ref d d"
| v1: "door_run c ref d d1 \<Longrightarrow> valid_session_id sid' \<Longrightarrow>
       key = ''raw/'' @ source_value s @ ''/'' @ c' @ ''/'' @ year @ ''/'' @ rest \<Longrightarrow> length year = 4 \<Longrightarrow> CHR ''/'' \<notin> set year \<Longrightarrow>
       door_run c ref d (fst (accept_legacy reg sid' c' s key body now d1))"
| v2: "door_run c ref d d1 \<Longrightarrow> valid_session_id (gstr p ''session_id'') \<Longrightarrow>
       door_run c ref d (fst (accept cfg env reg (\<lambda>d. d) p c' s now d1))"

lemma source_value_chars [simp]: "CHR ''/'' \<notin> set (source_value s)"
  by (cases s) simp_all

lemma own_key_first:
  assumes "own_key c ref (''raw/'' @ source_value s @ ''/'' @ c @ ''/'' @ seg @ ''/'' @ rest)" and "CHR ''/'' \<notin> set seg"
    and "valid_session_id (ref_session ref)" and "ref_source ref \<in> set (map source_value AGENT_SESSION_SOURCES)"
  shows "source_value s = ref_source ref"
    and "seg = ref_session ref \<or> seg \<in> {''sessions-v2'', ''media-staging''} \<and> (\<exists>y. rest = ref_session ref @ CHR ''/'' # y)"
proof -
  obtain seg' rest' where k: "''raw/'' @ source_value s @ ''/'' @ c @ ''/'' @ seg @ ''/'' @ rest = own_raw c ref @ seg' @ CHR ''/'' # rest'"
    "CHR ''/'' \<notin> set seg'"
    "seg' = ref_session ref \<or> seg' \<in> {''sessions-v2'', ''media-staging''} \<and> (\<exists>y. rest' = ref_session ref @ CHR ''/'' # y)"
    using assms(1) valid_id_chars(1) [OF assms(3)] by (rule own_key_segments)
  from k(1) show "source_value s = ref_source ref"
    using agent_source_chars [OF assms(4)] by (simp add: own_raw_def split_unique)
  then have "seg = seg' \<and> rest = rest'"
    using k(1,2) assms(2) by (simp add: own_raw_def split_unique)
  with k(3) show "seg = ref_session ref \<or> seg \<in> {''sessions-v2'', ''media-staging''} \<and> (\<exists>y. rest = ref_session ref @ CHR ''/'' # y)"
    by simp
qed

lemma other_event:
  assumes "valid_session_id sid'" "valid_session_id sid" "sid' \<noteq> sid"
  shows "\<not> own_event sid sid'"
  using own_event_disjoint [of sid sid' sid'] valid_id_chars(2) assms by auto

lemma v1_apart:
  assumes "valid_session_id sid'" "valid_session_id (ref_session ref)" "ref_source ref \<in> set (map source_value AGENT_SESSION_SOURCES)"
    "key = ''raw/'' @ source_value s @ ''/'' @ c' @ ''/'' @ year @ ''/'' @ rest" "length year = 4" "CHR ''/'' \<notin> set year"
  shows "door_ok c ref (\<lambda>_. False) c' (source_value s) sid' key"
proof -
  have "year \<noteq> ref_session ref" "year \<notin> {''sessions-v2'', ''media-staging''}"
    using assms(2,5) by (auto simp: valid_session_id_def)
  then have "\<not> own_key c' ref key" using own_key_first(2) [of c' ref s year rest] assms(2-6) by auto
  then show ?thesis using other_event [OF assms(1,2)] by (auto simp: door_ok_def apart_def)
qed

lemma v2_apart:
  assumes "valid_session_id sid'" "valid_session_id (ref_session ref)" "ref_source ref \<in> set (map source_value AGENT_SESSION_SOURCES)"
  shows "door_ok c ref (\<lambda>_. False) c' (source_value s) sid' (batch_key c' s sid' seq digest)"
proof (cases "(c', source_value s, sid') = (c, ref_source ref, ref_session ref)")
  case False
  have "source_value s = ref_source ref \<and> sid' = ref_session ref" if "own_key c' ref (batch_key c' s sid' seq digest)"
  proof -
    let ?rest = "sid' @ ''/'' @ show_nat (nat seq) @ ''-'' @ digest @ ''.json''"
    from that have k: "own_key c' ref (''raw/'' @ source_value s @ ''/'' @ c' @ ''/'' @ ''sessions-v2'' @ ''/'' @ ?rest)"
      by (simp add: batch_key_def)
    from own_key_first(2) [OF k _ assms(2,3)] valid_id_chars(3) [OF assms(2)]
    obtain y where "?rest = ref_session ref @ CHR ''/'' # y" by auto
    then have "sid' = ref_session ref"
      using valid_id_chars(1) [OF assms(1)] valid_id_chars(1) [OF assms(2)] by (simp add: split_unique)
    with own_key_first(1) [OF k _ assms(2,3)] show ?thesis by simp
  qed
  with False other_event [OF assms(1,2)] show ?thesis by (auto simp: door_ok_def apart_def)
qed (simp add: door_ok_def)

text \<open>
  Claim C29. Once a deleted session is gone it stays gone: while its deletion is on record, no sequence of batches through
  either capture door, of this session or of others, brings back a row of it, a row of one of its documents, or an
  object under one of its prefixes, and the record stays.
\<close>

theorem deleted_session_stays_gone:
  assumes "door_run c ref d d'" and "valid_session_id (ref_session ref)"
    and "ref_source ref \<in> set (map source_value AGENT_SESSION_SOURCES)"
    and "find_deletion d c ref \<noteq> None" and "rows_gone c ref docs d" and "raw_keys d c ref = {}"
  shows "find_deletion d' c ref \<noteq> None \<and> rows_gone c ref docs d' \<and> raw_keys d' c ref = {}"
  using assms(1,4-6)
proof (induction rule: door_run.induct)
  case (v1 d d1 sid' key s c' year rest reg body now)
  then have step: "door_v1 c ref (\<lambda>_. False) reg sid' c' s key body now d1 = fst (accept_legacy reg sid' c' s key body now d1)"
    using v1_apart [OF v1.hyps(2) assms(2,3) v1.hyps(3-5)] by (simp add: door_v1_def)
  have "find_deletion d1 c ref \<noteq> None" "rows_gone c ref docs d1" "raw_keys d1 c ref = {}" using v1 by blast+
  from v1_door.stays_gone [OF this, where K = "\<lambda>_. False" and reg = reg and sid' = sid' and c' = c' and s = s and key = key and body = body and now = now]
  show ?case by (simp add: step)
next
  case (v2 d d1 p cfg env reg c' s now)
  have step: "door_v2 c ref (\<lambda>_. False) cfg env reg p c' s now d1 = fst (accept cfg env reg (\<lambda>d. d) p c' s now d1)"
    using v2_apart [OF v2.hyps(2) assms(2,3)] by (simp add: door_v2_def)
  have "find_deletion d1 c ref \<noteq> None" "rows_gone c ref docs d1" "raw_keys d1 c ref = {}" using v2 by blast+
  from v2_door.stays_gone [OF this, where K = "\<lambda>_. False" and cfg = cfg and env = env and reg = reg and p = p and c' = c' and s = s and now = now]
  show ?case by (simp add: step)
qed simp

definition gone_db :: erase_db where
  "gone_db = worker_db.extend
     (empty_worker_db\<lparr>session_deletions := Some [new_deletion
        \<lparr>rq_deletion_id = ''d1'', rq_reason = ''request'', rq_ticket = None, rq_deep_scan = False\<rparr> ''acme'' example_ref [] 0]\<rparr>)
     (erase_db.fields [] [] [] [] [] [] [] [] [])"

theorem deleted_session_stays_gone_witness:
  "\<exists>d'. door_run ''acme'' example_ref gone_db d' \<and> q_rows d' \<noteq> []
     \<and> rows_gone ''acme'' example_ref [session_doc_id ''acme'' example_ref] d' \<and> raw_keys d' ''acme'' example_ref = {}"
proof -
  let ?key = "''raw/pi/acme/2026/01/02/session2:0.json''"
  let ?d' = "fst (accept_legacy [] ''session2'' ''acme'' PI ?key ''{}'' 5 gone_db)"
  have valid: "valid_session_id ''session1''" "valid_session_id ''session2''"
    by (simp_all add: valid_session_id_def id_char_def RESERVED_IDS_def MEDIA_STAGING_FOLDER_def)
  have run: "door_run ''acme'' example_ref gone_db ?d'"
    by (rule door_run.v1 [OF door_run.none valid(2), where year = "''2026''" and rest = "''01/02/session2:0.json''"]) simp_all
  have "find_deletion gone_db ''acme'' example_ref \<noteq> None"
    by (simp add: find_deletion_def deletion_of_def gone_db_def example_defs)
  moreover have "rows_gone ''acme'' example_ref [session_doc_id ''acme'' example_ref] gone_db"
    by (simp add: rows_gone_def session_media_count_def gone_db_def example_defs)
  moreover have "raw_keys gone_db ''acme'' example_ref = {}"
    by (simp add: raw_keys_def list_keys_def own_folder_keys_def gone_db_def example_defs)
  ultimately have "rows_gone ''acme'' example_ref [session_doc_id ''acme'' example_ref] ?d' \<and> raw_keys ?d' ''acme'' example_ref = {}"
    using deleted_session_stays_gone [OF run] valid(1) by (simp add: example_ref_def AGENT_SESSION_SOURCES_def)
  moreover have "q_rows ?d' \<noteq> []"
    by (simp add: accept_legacy_def is_source_connected_def OAUTH_SOURCES_def UNGATED_SOURCES_def refuse_deleted_def deleted_sessions_def
        sorted_set_def reject_legacy_writer_def enqueue_agent_def add_row_def put_object_def gone_db_def example_defs)
  ultimately show ?thesis using run by blast
qed

end
