(* ===== verification/Graph.thy ===== *)
theory Graph
  imports Sources GraphTables
begin

section \<open>Writing the knowledge graph\<close>

text \<open>
  \<^verbatim>\<open>engine/ingest/graph_writer.py\<close> and the alias walk of \<^verbatim>\<open>engine/shared/alias_sql.py\<close>: upserts of nodes
  (with provenance and the post-write queue) and of edges (with degrees), edges that wait for a missing
  endpoint (parking, draining, reaping), and the removal of edges. Each function of the writer runs inside one
  transaction of its caller; a database error is \<open>Inl\<close> and the caller's transaction rolls back.
  \<^verbatim>\<open>BIGSERIAL\<close> columns are counters; an INSERT draws a value for every row, also for one ON CONFLICT updates.
  The specs of a batch are read-only here (the source writes the resolved ids into the caller's objects).
\<close>

subsection \<open>State\<close>

record alias_row =
  al_customer :: string
  al_label :: string
  al_alias :: string
  al_primary :: string
  al_merge_id :: string
  al_added :: time

record graph_db =
  nodes :: "node_row table"
  node_seq :: int
  edges :: "edge_row table"
  edge_seq :: int
  provenance :: "provenance_row table"
  post_write :: "post_write_row table"
  parked :: "pending_edge table"
  parked_seq :: int
  entity_aliases :: "alias_row table"

record node_spec =
  ns_label :: node_label
  ns_canonical :: string
  ns_props :: props

record edge_spec =
  es_type :: edge_type
  es_from_label :: node_label
  es_from :: string
  es_to_label :: node_label
  es_to :: string
  es_props :: props
  es_valid_from :: "time option"
  es_valid_to :: "time option"
  es_confidence :: string
  es_aliased_from :: "string option"
  es_aliased_to :: "string option"

text \<open>A node by its label and canonical id.\<close>

type_synonym nkey = "string \<times> string"

datatype graph_error = CheckViolation | ForeignKeyViolation | UnknownEnumValue string

subsection \<open>Aliases\<close>

definition ALIAS_CHAIN_MAX_DEPTH :: nat where "ALIAS_CHAIN_MAX_DEPTH = 8"

text \<open>One hop: the primary key of \<^verbatim>\<open>entity_aliases\<close> admits one row.\<close>

definition primary_of :: "alias_row table \<Rightarrow> string \<Rightarrow> string \<Rightarrow> string \<Rightarrow> string option" where
  "primary_of t c l x =
     map_option al_primary (find (\<lambda>a. al_customer a = c \<and> al_label a = l \<and> al_alias a = x) t)"

text \<open>The recursive part of \<^verbatim>\<open>walk\<close>, \<open>left\<close> steps short of the depth cap; its deepest row per start.\<close>

fun alias_walk :: "(string \<Rightarrow> string option) \<Rightarrow> nat \<Rightarrow> string \<Rightarrow> string list \<Rightarrow> string" where
  "alias_walk up 0 cur path = cur"
| "alias_walk up (Suc left) cur path =
     (case up cur of None \<Rightarrow> cur
      | Some p \<Rightarrow> if p \<in> set path then cur else alias_walk up left p (path @ [p]))"

definition resolve_alias :: "alias_row table \<Rightarrow> string \<Rightarrow> string \<Rightarrow> string \<Rightarrow> string option" where
  "resolve_alias t c l x =
     (case primary_of t c l x of None \<Rightarrow> None
      | Some p \<Rightarrow> Some (alias_walk (primary_of t c l) (ALIAS_CHAIN_MAX_DEPTH - 1) p [x, p]))"

text \<open>\<^verbatim>\<open>_fetch_aliases\<close>: the keys that are aliases, with the end of their chain.\<close>

definition fetch_aliases :: "graph_db \<Rightarrow> string \<Rightarrow> nkey list \<Rightarrow> (nkey \<times> string) list" where
  "fetch_aliases db c keys =
     concat (map (\<lambda>k. case resolve_alias (entity_aliases db) c (fst k) (snd k) of
                        None \<Rightarrow> [] | Some p \<Rightarrow> [(k, p)]) (remdups keys))"

subsection \<open>Dicts\<close>

text \<open>\<^verbatim>\<open>{**a, **b}\<close> and \<^verbatim>\<open>a || b\<close>.\<close>

definition dict_merge :: "('k \<times> 'v) list \<Rightarrow> ('k \<times> 'v) list \<Rightarrow> ('k \<times> 'v) list" where
  "dict_merge a b = fold (\<lambda>kv d. dict_set (fst kv) (snd kv) d) b a"

text \<open>Equality of \<^verbatim>\<open>jsonb\<close> objects does not depend on the order of the items.\<close>

definition same_props :: "props \<Rightarrow> props \<Rightarrow> bool" where
  "same_props a b \<longleftrightarrow> (\<forall>k \<in> set (map fst a @ map fst b). map_of a k = map_of b k)"

subsection \<open>Nodes\<close>

definition node_key :: "node_row \<Rightarrow> string \<times> nkey" where
  "node_key n = (n_customer n, n_label n, n_canonical n)"

definition find_node :: "graph_db \<Rightarrow> string \<Rightarrow> nkey \<Rightarrow> node_row option" where
  "find_node db c k = row_of node_key (c, k) (nodes db)"

definition resolve_node :: "(nkey \<times> string) list \<Rightarrow> node_spec \<Rightarrow> node_spec" where
  "resolve_node am n =
     (case map_of am (label_value (ns_label n), ns_canonical n) of
        None \<Rightarrow> n | Some p \<Rightarrow> n\<lparr>ns_canonical := p\<rparr>)"

fun dedupe_nodes :: "(nkey \<times> props) list \<Rightarrow> node_spec list \<Rightarrow> (nkey \<times> props) list" where
  "dedupe_nodes d [] = d"
| "dedupe_nodes d (n # ns) =
     (let key = (label_value (ns_label n), ns_canonical n) in
      dedupe_nodes (case map_of d key of
          Some p \<Rightarrow> dict_set key (dict_merge p (ns_props n)) d
        | None \<Rightarrow> dict_set key (ns_props n) d) ns)"

text \<open>One input row of the upsert: the table, and the row RETURNING gives with its flag \<^verbatim>\<open>changed\<close>.\<close>

definition upsert_node_row ::
  "string \<Rightarrow> time \<Rightarrow> nkey \<times> props \<Rightarrow> graph_db \<Rightarrow> graph_db \<times> (nkey \<times> int \<times> bool)" where
  "upsert_node_row c now kp db =
     (let k = fst kp; seq = node_seq db in
      case find_node db c k of
        Some n \<Rightarrow>
          let props' = dict_merge (n_props n) (snd kp) in
          (db\<lparr>nodes := sql_update (\<lambda>m. node_key m = (c, k)) (\<lambda>m. m\<lparr>n_props := props', n_updated := now\<rparr>) (nodes db),
              node_seq := seq + 1\<rparr>,
           (k, n_id n, \<not> same_props (n_props n) props'))
      | None \<Rightarrow>
          (db\<lparr>nodes := nodes db @ [\<lparr>n_id = seq, n_customer = c, n_label = fst k, n_canonical = snd k,
                 n_props = snd kp, n_created = now, n_updated = now, n_degree = 0, n_community = None,
                 n_embedding = None\<rparr>],
              node_seq := seq + 1\<rparr>,
           (k, seq, True)))"

fun upsert_node_rows ::
  "string \<Rightarrow> time \<Rightarrow> (nkey \<times> props) list \<Rightarrow> graph_db \<Rightarrow> graph_db \<times> (nkey \<times> int \<times> bool) list" where
  "upsert_node_rows c now [] db = (db, [])"
| "upsert_node_rows c now (kp # kps) db =
     (let (db1, r) = upsert_node_row c now kp db; (db2, rs) = upsert_node_rows c now kps db1
      in (db2, r # rs))"

text \<open>ON CONFLICT (node_id, source_system).\<close>

definition add_provenance :: "string \<Rightarrow> string \<Rightarrow> time \<Rightarrow> int \<Rightarrow> graph_db \<Rightarrow> graph_db" where
  "add_provenance c src now i db =
     (if \<exists>p \<in> set (provenance db). pv_node p = i \<and> pv_source p = src
      then db\<lparr>provenance := sql_update (\<lambda>p. pv_node p = i \<and> pv_source p = src) (\<lambda>p. p\<lparr>pv_last_seen := now\<rparr>) (provenance db)\<rparr>
      else db\<lparr>provenance := provenance db @ [\<lparr>pv_node = i, pv_customer = c, pv_source = src,
                pv_first_seen = now, pv_last_seen = now\<rparr>]\<rparr>)"

text \<open>ON CONFLICT (customer_id, node_id): a queued node starts over.\<close>

definition enqueue_post_write :: "string \<Rightarrow> time \<Rightarrow> int \<Rightarrow> graph_db \<Rightarrow> graph_db" where
  "enqueue_post_write c now i db =
     (if \<exists>r \<in> set (post_write db). pw_customer r = c \<and> pw_node r = i
      then db\<lparr>post_write := sql_update (\<lambda>r. pw_customer r = c \<and> pw_node r = i)
                (\<lambda>r. r\<lparr>pw_status := JObj [], pw_enqueued := now, pw_locked_until := None\<rparr>) (post_write db)\<rparr>
      else db\<lparr>post_write := post_write db @ [\<lparr>pw_customer = c, pw_node = i, pw_enqueued = now,
                pw_status = JObj [], pw_locked_until = None\<rparr>]\<rparr>)"

text \<open>Somebody waits for the node: an unlocked parked edge names it as its missing endpoint.\<close>

definition waits_for :: "string \<Rightarrow> nkey \<Rightarrow> pending_edge \<Rightarrow> bool" where
  "waits_for c k e \<longleftrightarrow>
     pe_customer e = c \<and> pe_locked_until e = None \<and> (pe_missing_label e, pe_missing e) = k"

definition upsert_nodes ::
  "string \<Rightarrow> string \<Rightarrow> time \<Rightarrow> node_spec list \<Rightarrow> graph_db \<Rightarrow> graph_db \<times> (nkey \<times> int) list" where
  "upsert_nodes c src now specs db =
     (if specs = [] then (db, [])
      else
        let am = fetch_aliases db c (map (\<lambda>n. (label_value (ns_label n), ns_canonical n)) specs);
            deduped = dedupe_nodes [] (map (resolve_node am) specs);
            (db1, rows) = upsert_node_rows c now (sort_key fst deduped) db;
            results = map (\<lambda>(k, i, _). (k, i)) rows;
            db2 = fold (add_provenance c src now) (sort (map snd results)) db1;
            enqueue_ids = sort (map (\<lambda>(k, i, _). i)
              (filter (\<lambda>(k, _, ch). ch \<or> (\<exists>e \<in> set (parked db2). waits_for c k e)) rows));
            db3 = fold (enqueue_post_write c now) enqueue_ids db2
        in (db3, results))"

subsection \<open>Edges\<close>

definition from_key :: "edge_spec \<Rightarrow> nkey" where
  "from_key e = (label_value (es_from_label e), es_from e)"

definition to_key :: "edge_spec \<Rightarrow> nkey" where
  "to_key e = (label_value (es_to_label e), es_to e)"

definition resolve_edge :: "(nkey \<times> string) list \<Rightarrow> edge_spec \<Rightarrow> edge_spec" where
  "resolve_edge am e =
     (let e1 = (case map_of am (from_key e) of None \<Rightarrow> e
                | Some p \<Rightarrow> e\<lparr>es_aliased_from := Some (es_from e), es_from := p\<rparr>)
      in case map_of am (to_key e) of None \<Rightarrow> e1
         | Some p \<Rightarrow> e1\<lparr>es_aliased_to := Some (es_to e), es_to := p\<rparr>)"

text \<open>The loop under \<^verbatim>\<open>if alias_map\<close>: without any alias the edges stay as they are, loops included.\<close>

definition resolve_edges :: "(nkey \<times> string) list \<Rightarrow> edge_spec list \<Rightarrow> edge_spec list" where
  "resolve_edges am es =
     (if am = [] then es else filter (\<lambda>e. from_key e \<noteq> to_key e) (map (resolve_edge am) es))"

definition resolve_missing_endpoints ::
  "graph_db \<Rightarrow> string \<Rightarrow> edge_spec list \<Rightarrow> (nkey \<times> int) list \<Rightarrow> (nkey \<times> int) list" where
  "resolve_missing_endpoints db c es ids =
     (let wanted = filter (\<lambda>k. map_of ids k = None) (remdups (concat (map (\<lambda>e. [from_key e, to_key e]) es)));
          rows = concat (map (\<lambda>k. case find_node db c k of None \<Rightarrow> [] | Some n \<Rightarrow> [(k, n_id n)]) wanted)
      in fold (\<lambda>kv d. dict_set (fst kv) (snd kv) d) rows ids)"

type_synonym lane = "string \<times> int \<times> int \<times> string \<times> string"

record edge_merge =
  em_props :: props
  em_valid_from :: "time option"
  em_valid_to :: "time option"
  em_confidence :: string
  em_aliased_from :: "string option"
  em_aliased_to :: "string option"

definition or_empty :: "string option \<Rightarrow> string" where
  "or_empty x = (case x of None \<Rightarrow> [] | Some s \<Rightarrow> s)"

definition earliest :: "time option \<Rightarrow> time option \<Rightarrow> time option" where
  "earliest old new =
     (case new of None \<Rightarrow> old
      | Some t \<Rightarrow> (case old of None \<Rightarrow> Some t | Some u \<Rightarrow> if t < u then Some t else Some u))"

definition merge_edge :: "edge_merge option \<Rightarrow> edge_spec \<Rightarrow> edge_merge" where
  "merge_edge old e =
     (case old of
        None \<Rightarrow> \<lparr>em_props = es_props e, em_valid_from = es_valid_from e, em_valid_to = es_valid_to e,
                  em_confidence = es_confidence e, em_aliased_from = es_aliased_from e, em_aliased_to = es_aliased_to e\<rparr>
      | Some m \<Rightarrow> m\<lparr>em_props := dict_merge (em_props m) (es_props e),
                     em_valid_from := earliest (em_valid_from m) (es_valid_from e),
                     em_valid_to := es_valid_to e,
                     em_confidence := stronger_confidence (em_confidence m) (es_confidence e)\<rparr>)"

text \<open>The loop that splits the batch: edges to write by lane, and edges to park with their missing key.\<close>

fun split_edges ::
  "(nkey \<times> int) list \<Rightarrow> (lane \<times> edge_merge) list \<Rightarrow> (edge_spec \<times> nkey) list \<Rightarrow> edge_spec list
   \<Rightarrow> (lane \<times> edge_merge) list \<times> (edge_spec \<times> nkey) list" where
  "split_edges ids d park [] = (d, park)"
| "split_edges ids d park (e # es) =
     (case (map_of ids (from_key e), map_of ids (to_key e)) of
        (Some f, Some t) \<Rightarrow>
          let key = (edge_type_value (es_type e), f, t, or_empty (es_aliased_from e), or_empty (es_aliased_to e))
          in split_edges ids (dict_set key (merge_edge (map_of d key) e) d) park es
      | (None, _) \<Rightarrow> split_edges ids d (park @ [(e, from_key e)]) es
      | (Some f, None) \<Rightarrow> split_edges ids d (park @ [(e, to_key e)]) es)"

text \<open>The columns of the unique index \<^verbatim>\<open>graph_edges_unique_lane\<close>.\<close>

definition edge_lane :: "edge_row \<Rightarrow> string \<times> lane" where
  "edge_lane g =
     (g_customer g, g_type g, g_from g, g_to g, or_empty (g_aliased_from g), or_empty (g_aliased_to g))"

definition coalesce :: "'a option \<Rightarrow> 'a option \<Rightarrow> 'a option" where
  "coalesce a b = (case a of None \<Rightarrow> b | Some x \<Rightarrow> Some x)"

record edge_stamp =
  sm_source :: string
  sm_extractor :: "string option"
  sm_extracted_at :: "time option"

definition conflict_edge :: "edge_stamp \<Rightarrow> time \<Rightarrow> edge_merge \<Rightarrow> edge_row \<Rightarrow> edge_row" where
  "conflict_edge sm now m g =
     g\<lparr>g_props := dict_merge (g_props g) (em_props m),
       g_valid_from := min (g_valid_from g) (case em_valid_from m of None \<Rightarrow> now | Some t \<Rightarrow> t),
       g_valid_to := em_valid_to m,
       g_confidence := sql_confidence (g_confidence g) (em_confidence m),
       g_extractor := coalesce (sm_extractor sm) (g_extractor g),
       g_extracted_at := coalesce (sm_extracted_at sm) (g_extracted_at g)\<rparr>"

definition fresh_edge :: "string \<Rightarrow> edge_stamp \<Rightarrow> time \<Rightarrow> int \<Rightarrow> lane \<Rightarrow> edge_merge \<Rightarrow> edge_row" where
  "fresh_edge c sm now i key m =
     \<lparr>g_id = i, g_customer = c, g_type = fst key, g_from = fst (snd key), g_to = fst (snd (snd key)),
      g_props = em_props m, g_valid_from = (case em_valid_from m of None \<Rightarrow> now | Some t \<Rightarrow> t),
      g_valid_to = em_valid_to m, g_source = Some (sm_source sm), g_confidence = em_confidence m,
      g_extractor = sm_extractor sm, g_extracted_at = sm_extracted_at sm,
      g_aliased_from = em_aliased_from m, g_aliased_to = em_aliased_to m\<rparr>"

text \<open>INSERT ... ON CONFLICT, row by row; the second result are the rows whose \<^verbatim>\<open>xmax\<close> is 0.\<close>

fun insert_edges ::
  "string \<Rightarrow> edge_stamp \<Rightarrow> time \<Rightarrow> (lane \<times> edge_merge) list \<Rightarrow> edge_row table \<times> int \<Rightarrow> (edge_row table \<times> int) \<times> edge_row list" where
  "insert_edges c sm now [] st = (st, [])"
| "insert_edges c sm now ((key, m) # rest) (t, seq) =
     (if (c, key) \<in> edge_lane ` set t
      then insert_edges c sm now rest (sql_update (\<lambda>g. edge_lane g = (c, key)) (conflict_edge sm now m) t, seq + 1)
      else let g = fresh_edge c sm now seq key m; (st', ins) = insert_edges c sm now rest (t @ [g], seq + 1)
           in (st', g # ins))"

fun degree_increments :: "(int \<times> int) list \<Rightarrow> edge_row list \<Rightarrow> (int \<times> int) list" where
  "degree_increments d [] = d"
| "degree_increments d (g # gs) =
     (let d1 = dict_set (g_from g) (case map_of d (g_from g) of None \<Rightarrow> 1 | Some n \<Rightarrow> n + 1) d;
          d2 = dict_set (g_to g) (case map_of d1 (g_to g) of None \<Rightarrow> 1 | Some n \<Rightarrow> n + 1) d1
      in degree_increments d2 gs)"

definition raise_degrees :: "string \<Rightarrow> (int \<times> int) list \<Rightarrow> node_row table \<Rightarrow> node_row table" where
  "raise_degrees c incs t =
     sql_update (\<lambda>n. n_customer n = c \<and> map_of incs (n_id n) \<noteq> None)
       (\<lambda>n. n\<lparr>n_degree := n_degree n + the (map_of incs (n_id n))\<rparr>) t"

definition park_row :: "string \<Rightarrow> string \<Rightarrow> time \<Rightarrow> int \<Rightarrow> edge_spec \<times> nkey \<Rightarrow> pending_edge" where
  "park_row c src now i ek =
     (let e = fst ek in
      \<lparr>pe_id = i, pe_customer = c, pe_missing_label = fst (snd ek), pe_missing = snd (snd ek),
       pe_type = edge_type_value (es_type e), pe_from_label = label_value (es_from_label e), pe_from = es_from e,
       pe_to_label = label_value (es_to_label e), pe_to = es_to e, pe_source = src, pe_props = es_props e,
       pe_valid_from = es_valid_from e, pe_created = now, pe_locked_until = None\<rparr>)"

fun park_pending_edges ::
  "string \<Rightarrow> string \<Rightarrow> time \<Rightarrow> (edge_spec \<times> nkey) list \<Rightarrow> graph_db \<Rightarrow> graph_db" where
  "park_pending_edges c src now [] db = db"
| "park_pending_edges c src now (ek # eks) db =
     park_pending_edges c src now eks
       (db\<lparr>parked := parked db @ [park_row c src now (parked_seq db) ek], parked_seq := parked_seq db + 1\<rparr>)"

text \<open>The INSERT checks the confidence of every row and that both endpoints exist.\<close>

definition edge_checks :: "node_row table \<Rightarrow> (lane \<times> edge_merge) list \<Rightarrow> graph_error option" where
  "edge_checks ns d =
     (if \<exists>km \<in> set d. \<not> valid_confidence (em_confidence (snd km)) then Some CheckViolation
      else if \<exists>km \<in> set d. fst (snd (fst km)) \<notin> n_id ` set ns \<or> fst (snd (snd (fst km))) \<notin> n_id ` set ns
      then Some ForeignKeyViolation else None)"

definition write_edges ::
  "string \<Rightarrow> edge_stamp \<Rightarrow> time \<Rightarrow> (lane \<times> edge_merge) list \<Rightarrow> graph_db \<Rightarrow> graph_db" where
  "write_edges c sm now d db =
     (let ((t, seq), ins) = insert_edges c sm now (sort_key fst d) (edges db, edge_seq db)
      in db\<lparr>edges := t, edge_seq := seq, nodes := raise_degrees c (degree_increments [] ins) (nodes db)\<rparr>)"

definition upsert_edges ::
  "string \<Rightarrow> edge_stamp \<Rightarrow> time \<Rightarrow> edge_spec list \<Rightarrow> (nkey \<times> int) list \<Rightarrow> graph_db \<Rightarrow> graph_error + (graph_db \<times> nat)" where
  "upsert_edges c sm now specs node_ids db =
     (if specs = [] then Inr (db, 0)
      else
        let am = fetch_aliases db c (concat (map (\<lambda>e. [from_key e, to_key e]) specs));
            es = resolve_edges am specs;
            ids = resolve_missing_endpoints db c es node_ids;
            (d, deferred) = split_edges ids [] [] es
        in if d = [] then Inr (park_pending_edges c (sm_source sm) now deferred db, 0)
           else case edge_checks (nodes db) d of
                  Some err \<Rightarrow> Inl err
                | None \<Rightarrow> Inr (park_pending_edges c (sm_source sm) now deferred (write_edges c sm now d db), length d))"

subsection \<open>Parked edges\<close>

definition PENDING_EDGE_TTL_DAYS :: int where "PENDING_EDGE_TTL_DAYS = 14"

definition reapable :: "string \<Rightarrow> time \<Rightarrow> pending_edge \<Rightarrow> bool" where
  "reapable c now e \<longleftrightarrow>
     pe_customer e = c \<and> pe_locked_until e = None \<and> pe_created e < now - PENDING_EDGE_TTL_DAYS * 86400"

definition reap_expired_pending_edges :: "string \<Rightarrow> time \<Rightarrow> graph_db \<Rightarrow> graph_db \<times> nat" where
  "reap_expired_pending_edges c now db =
     (db\<lparr>parked := filter (\<lambda>e. \<not> reapable c now e) (parked db)\<rparr>, length (filter (reapable c now) (parked db)))"

text \<open>The spec a parked row stands for: \<^verbatim>\<open>confidence\<close>, \<^verbatim>\<open>valid_to\<close> and the alias lanes are the defaults.\<close>

definition spec_of_parked :: "pending_edge \<Rightarrow> graph_error + edge_spec" where
  "spec_of_parked e =
     (case edge_type_of_value (pe_type e) of None \<Rightarrow> Inl (UnknownEnumValue (pe_type e))
      | Some t \<Rightarrow> case label_of_value (pe_from_label e) of None \<Rightarrow> Inl (UnknownEnumValue (pe_from_label e))
      | Some fl \<Rightarrow> case label_of_value (pe_to_label e) of None \<Rightarrow> Inl (UnknownEnumValue (pe_to_label e))
      | Some lt \<Rightarrow> Inr \<lparr>es_type = t, es_from_label = fl, es_from = pe_from e, es_to_label = lt, es_to = pe_to e,
                 es_props = pe_props e, es_valid_from = pe_valid_from e, es_valid_to = None,
                 es_confidence = ''EXTRACTED'', es_aliased_from = None, es_aliased_to = None\<rparr>)"

definition DRAIN_LIMIT :: nat where "DRAIN_LIMIT = 500"

text \<open>The rebuild loop: all specs, and the specs by source in the order the sources first appear.\<close>

fun rebuild :: "pending_edge list \<Rightarrow> graph_error + (string \<times> edge_spec) list" where
  "rebuild [] = Inr []"
| "rebuild (e # es) =
     (case spec_of_parked e of Inl x \<Rightarrow> Inl x
      | Inr s \<Rightarrow> (case rebuild es of Inl x \<Rightarrow> Inl x | Inr ss \<Rightarrow> Inr ((pe_source e, s) # ss)))"

definition by_source :: "(string \<times> edge_spec) list \<Rightarrow> (string \<times> edge_spec list) list" where
  "by_source ss = map (\<lambda>src. (src, map snd (filter (\<lambda>p. fst p = src) ss))) (rev (remdups (rev (map fst ss))))"

fun replay_sources ::
  "string \<Rightarrow> time \<Rightarrow> (nkey \<times> int) list \<Rightarrow> (string \<times> edge_spec list) list \<Rightarrow> graph_db \<Rightarrow> graph_error + (graph_db \<times> nat)" where
  "replay_sources c now ids [] db = Inr (db, 0)"
| "replay_sources c now ids ((src, ss) # rest) db =
     (case upsert_edges c \<lparr>sm_source = src, sm_extractor = None, sm_extracted_at = None\<rparr> now ss ids db of
        Inl x \<Rightarrow> Inl x
      | Inr (db1, n) \<Rightarrow> (case replay_sources c now ids rest db1 of
                            Inl x \<Rightarrow> Inl x | Inr (db2, m) \<Rightarrow> Inr (db2, n + m)))"

definition drain_pending_edges :: "string \<Rightarrow> time \<Rightarrow> nkey \<Rightarrow> graph_db \<Rightarrow> graph_error + (graph_db \<times> nat)" where
  "drain_pending_edges c now k db =
     (let claimed = sql_select (waits_for c k) pe_id DRAIN_LIMIT (parked db);
          taken = map pe_id claimed;
          db1 = db\<lparr>parked := sql_update (\<lambda>e. pe_id e \<in> set taken) (\<lambda>e. e\<lparr>pe_locked_until := Some (now + 30)\<rparr>) (parked db)\<rparr>
      in if claimed = [] then Inr (db, 0)
         else case rebuild claimed of Inl x \<Rightarrow> Inl x
         | Inr ss \<Rightarrow>
             let ids = resolve_missing_endpoints db1 c (map snd ss) []
             in case replay_sources c now ids (by_source ss) db1 of Inl x \<Rightarrow> Inl x
                | Inr (db2, n) \<Rightarrow> Inr (db2\<lparr>parked := filter (\<lambda>e. pe_id e \<notin> set taken) (parked db2)\<rparr>, n))"

subsection \<open>Removing edges\<close>

definition leaves :: "string \<Rightarrow> string \<Rightarrow> int \<Rightarrow> int list \<Rightarrow> edge_row \<Rightarrow> bool" where
  "leaves c ty f keep g \<longleftrightarrow> g_customer g = c \<and> g_type g = ty \<and> g_from g = f \<and> g_to g \<notin> set keep"

definition drop_degrees :: "string \<Rightarrow> edge_row list \<Rightarrow> node_row table \<Rightarrow> node_row table" where
  "drop_degrees c gone t =
     sql_update (\<lambda>n. n_customer n = c \<and> 0 < edge_ends gone (n_id n))
       (\<lambda>n. n\<lparr>n_degree := max (n_degree n - int (edge_ends gone (n_id n))) 0\<rparr>) t"

definition delete_edges_from_node ::
  "string \<Rightarrow> node_label \<Rightarrow> string \<Rightarrow> edge_type \<Rightarrow> int list \<Rightarrow> graph_db \<Rightarrow> graph_db \<times> nat" where
  "delete_edges_from_node c l cid ty keep db =
     (case find_node db c (label_value l, cid) of
        None \<Rightarrow> (db, 0)
      | Some n \<Rightarrow>
          let p = leaves c (edge_type_value ty) (n_id n) keep; gone = filter p (edges db)
          in (db\<lparr>edges := filter (\<lambda>g. \<not> p g) (edges db), nodes := drop_degrees c gone (nodes db)\<rparr>, length gone))"

subsection \<open>The normalizer's graph write\<close>

text \<open>The graph half of \<^verbatim>\<open>Normalizer._persist\<close>: what belonged to documents that did not persist is dropped, the
  rest is written, nodes first.\<close>

definition keep_edge :: "string set \<Rightarrow> string set \<Rightarrow> edge_spec \<Rightarrow> bool" where
  "keep_edge all_docs persisted e \<longleftrightarrow>
     (es_from e \<notin> all_docs \<or> es_from e \<in> persisted) \<and> (es_to e \<notin> all_docs \<or> es_to e \<in> persisted)"

definition endpoints :: "edge_spec list \<Rightarrow> string set" where
  "endpoints es = set (concat (map (\<lambda>e. [es_from e, es_to e]) es))"

definition keep_node :: "string set \<Rightarrow> string set \<Rightarrow> edge_spec list \<Rightarrow> node_spec \<Rightarrow> bool" where
  "keep_node all_docs persisted es n \<longleftrightarrow>
     (if ns_canonical n \<in> all_docs then ns_canonical n \<in> persisted
      else ns_canonical n \<notin> endpoints es - endpoints (filter (keep_edge all_docs persisted) es))"

definition persist_graph ::
  "string \<Rightarrow> string \<Rightarrow> time \<Rightarrow> string set \<Rightarrow> string set \<Rightarrow> node_spec list \<Rightarrow> edge_spec list \<Rightarrow> graph_db
   \<Rightarrow> graph_error + (graph_db \<times> nat)" where
  "persist_graph c src now all_docs persisted ns es db =
     (let es' = filter (keep_edge all_docs persisted) es;
          (db1, ids) = upsert_nodes c src now (filter (keep_node all_docs persisted es) ns) db
      in upsert_edges c \<lparr>sm_source = src, sm_extractor = None, sm_extracted_at = None\<rparr> now es' ids db1)"

end
