(* ===== verification/GraphProperties.thy ===== *)
theory GraphProperties
  imports Graph
begin

section \<open>What the graph writer keeps\<close>

text \<open>
  \<open>graph_ok\<close> is the well-formedness of the graph: the unique keys, the foreign keys of the edges inside one tenant, and
  the column \<^verbatim>\<open>degree\<close> equal to the number of edge ends. The locale \<open>graph_op\<close> is the contract of an operation that
  keeps it; every operation of the writer is an interpretation, so any sequence of them keeps it.
\<close>

subsection \<open>Well-formedness\<close>

definition nodes_ok :: "node_row table \<Rightarrow> int \<Rightarrow> bool" where
  "nodes_ok ns seq \<longleftrightarrow> distinct (map n_id ns) \<and> distinct (map node_key ns) \<and> (\<forall>n \<in> set ns. n_id n < seq)"

definition has_end :: "node_row table \<Rightarrow> string \<Rightarrow> int \<Rightarrow> bool" where
  "has_end ns c i \<longleftrightarrow> (\<exists>n \<in> set ns. n_id n = i \<and> n_customer n = c)"

definition ends_ok :: "node_row table \<Rightarrow> edge_row table \<Rightarrow> bool" where
  "ends_ok ns es \<longleftrightarrow> (\<forall>g \<in> set es. has_end ns (g_customer g) (g_from g) \<and> has_end ns (g_customer g) (g_to g))"

definition edges_ok :: "edge_row table \<Rightarrow> bool" where
  "edges_ok es \<longleftrightarrow> distinct (map edge_lane es) \<and> (\<forall>g \<in> set es. valid_confidence (g_confidence g))"

definition parked_ok :: "pending_edge table \<Rightarrow> int \<Rightarrow> bool" where
  "parked_ok ps seq \<longleftrightarrow> distinct (map pe_id ps) \<and> (\<forall>e \<in> set ps. pe_id e < seq)"

definition graph_ok :: "graph_db \<Rightarrow> bool" where
  "graph_ok db \<longleftrightarrow>
     nodes_ok (nodes db) (node_seq db) \<and> ends_ok (nodes db) (edges db) \<and> edges_ok (edges db)
     \<and> degrees_exact (nodes db) (edges db) \<and> parked_ok (parked db) (parked_seq db)"

text \<open>The identity of the nodes: customer, label and canonical id, and the node id.\<close>

definition node_ids_of :: "graph_db \<Rightarrow> ((string \<times> nkey) \<times> int) set" where
  "node_ids_of db = (\<lambda>n. (node_key n, n_id n)) ` set (nodes db)"

text \<open>What \<open>upsert_edges\<close> is given: every id is that of a node of the tenant, under its key.\<close>

definition ids_sound :: "graph_db \<Rightarrow> string \<Rightarrow> (nkey \<times> int) list \<Rightarrow> bool" where
  "ids_sound db c ids \<longleftrightarrow> (\<forall>k i. map_of ids k = Some i \<longrightarrow> ((c, k), i) \<in> node_ids_of db)"

lemma find_node_SomeD: "find_node db c k = Some n \<Longrightarrow> n \<in> set (nodes db) \<and> node_key n = (c, k)"
  by (auto simp: find_node_def dest: row_of_SomeD)

lemma find_node_None_iff: "find_node db c k = None \<longleftrightarrow> (\<forall>n \<in> set (nodes db). node_key n \<noteq> (c, k))"
  by (metis (no_types, lifting) find_node_def image_iff row_of_None_iff)

lemma find_node_ids: "find_node db c k = Some n \<Longrightarrow> ((c, k), n_id n) \<in> node_ids_of db"
  using find_node_SomeD [of db c k n] by (force simp: node_ids_of_def)

lemma has_end_view: "has_end ns c i \<longleftrightarrow> (\<exists>k. ((c, k), i) \<in> (\<lambda>n. (node_key n, n_id n)) ` set ns)"
  by (auto simp: has_end_def image_iff node_key_def)

lemma has_end_ids: "has_end (nodes db) c i \<longleftrightarrow> (\<exists>k. ((c, k), i) \<in> node_ids_of db)"
  by (simp add: has_end_view node_ids_of_def)

subsection \<open>Nodes\<close>

lemma upsert_node_row_cases:
  assumes "upsert_node_row c now kp db = (db', (k, i, ch))"
  obtains (old) n p where "find_node db c (fst kp) = Some n" "i = n_id n" "k = fst kp"
      "db' = db\<lparr>nodes := sql_update (\<lambda>m. node_key m = (c, fst kp)) (\<lambda>m. m\<lparr>n_props := p, n_updated := now\<rparr>) (nodes db),
                node_seq := node_seq db + 1\<rparr>"
  | (new) n where "find_node db c (fst kp) = None" "i = node_seq db" "k = fst kp" "ch"
      "n_id n = node_seq db" "node_key n = (c, fst kp)" "n_degree n = 0"
      "db' = db\<lparr>nodes := nodes db @ [n], node_seq := node_seq db + 1\<rparr>"
proof (cases "find_node db c (fst kp)")
  case None
  let ?n = "\<lparr>n_id = node_seq db, n_customer = c, n_label = fst (fst kp), n_canonical = snd (fst kp), n_props = snd kp,
    n_created = now, n_updated = now, n_degree = 0, n_community = None, n_embedding = None\<rparr>"
  from None assms show ?thesis
    by (intro new [of ?n]) (auto simp: upsert_node_row_def Let_def node_key_def)
next
  case (Some n)
  with assms show ?thesis by (intro old) (auto simp: upsert_node_row_def Let_def)
qed

lemma node_key_update [simp]:
  "node_key (m\<lparr>n_props := p, n_updated := t\<rparr>) = node_key m" "node_key (m\<lparr>n_degree := d\<rparr>) = node_key m"
  by (simp_all add: node_key_def)

text \<open>An update that keeps identity keeps the node ids; one that also keeps degrees keeps the graph.\<close>

lemma node_ids_update:
  assumes "\<And>m. p m \<Longrightarrow> node_key (f m) = node_key m \<and> n_id (f m) = n_id m"
  shows "(\<lambda>n. (node_key n, n_id n)) ` set (sql_update p f ns) = (\<lambda>n. (node_key n, n_id n)) ` set ns"
proof -
  have "map (\<lambda>n. (node_key n, n_id n)) (sql_update p f ns) = map (\<lambda>n. (node_key n, n_id n)) ns"
    by (rule map_sql_update) (simp add: assms)
  from arg_cong [OF this, of set] show ?thesis by simp
qed

lemma nodes_ok_update:
  assumes "\<And>m. p m \<Longrightarrow> node_key (f m) = node_key m \<and> n_id (f m) = n_id m" and "nodes_ok ns seq" and "seq \<le> seq'"
  shows "nodes_ok (sql_update p f ns) seq'"
proof -
  have "map n_id (sql_update p f ns) = map n_id ns" "map node_key (sql_update p f ns) = map node_key ns"
    by (auto intro!: map_sql_update simp: assms(1))
  moreover have "\<forall>n \<in> set (sql_update p f ns). n_id n < seq'"
    using assms by (fastforce simp: nodes_ok_def elim!: sql_update_memE)
  ultimately show ?thesis using assms(2) by (simp add: nodes_ok_def)
qed

lemma node_row_grows: "upsert_node_row c now kp db = (db', (k, i, ch)) \<Longrightarrow> node_ids_of db \<subseteq> node_ids_of db' \<and> ((c, k), i) \<in> node_ids_of db'"
proof (erule upsert_node_row_cases, goal_cases)
  case (1 n p)
  then show ?case
    using find_node_ids [OF 1(1)]
    by (simp add: node_ids_of_def node_ids_update [of "\<lambda>m. node_key m = (c, fst kp)" "\<lambda>m. m\<lparr>n_props := p, n_updated := now\<rparr>"])
next
  case (2 n)
  then show ?case by (auto simp: node_ids_of_def)
qed

lemma node_row_ok: "upsert_node_row c now kp db = (db', (k, i, ch)) \<Longrightarrow> graph_ok db \<Longrightarrow> graph_ok db'"
proof (erule upsert_node_row_cases, goal_cases)
  case (1 n p)
  let ?ns = "sql_update (\<lambda>m. node_key m = (c, fst kp)) (\<lambda>m. m\<lparr>n_props := p, n_updated := now\<rparr>) (nodes db)"
  have "has_end ?ns = has_end (nodes db)"
    by (simp add: has_end_view fun_eq_iff node_ids_update [of "\<lambda>m. node_key m = (c, fst kp)" "\<lambda>m. m\<lparr>n_props := p, n_updated := now\<rparr>"])
  moreover have "degrees_exact ?ns (edges db)"
    using 1(1) by (auto simp: graph_ok_def degrees_exact_def elim!: sql_update_memE)
  moreover have "nodes_ok ?ns (node_seq db + 1)"
    using 1(1) by (intro nodes_ok_update [where seq = "node_seq db"]) (auto simp: graph_ok_def)
  ultimately show ?case using 1 by (simp add: graph_ok_def ends_ok_def)
next
  case (2 n)
  have fresh: "edge_ends (edges db) (node_seq db) = 0"
    using 2(1) by (force simp: edge_ends_0_iff graph_ok_def ends_ok_def has_end_def nodes_ok_def)
  have "nodes_ok (nodes db @ [n]) (node_seq db + 1)"
    using 2 by (force simp: graph_ok_def nodes_ok_def find_node_None_iff)
  moreover have "ends_ok (nodes db @ [n]) (edges db)"
    using 2(1) by (auto simp: graph_ok_def ends_ok_def has_end_def)
  moreover have "degrees_exact (nodes db @ [n]) (edges db)"
    using 2 fresh by (auto simp: graph_ok_def degrees_exact_def)
  ultimately show ?case using 2 by (simp add: graph_ok_def)
qed

lemma node_row_frame:
  "upsert_node_row c now kp db = (db', r) \<Longrightarrow> edges db' = edges db \<and> parked db' = parked db \<and> post_write db' = post_write db
     \<and> provenance db' = provenance db \<and> entity_aliases db' = entity_aliases db \<and> fst r = fst kp"
  by (auto simp: upsert_node_row_def Let_def split: option.splits)

lemma node_rows_keep:
  assumes "upsert_node_rows c now kps db = (db', rs)"
  shows "node_ids_of db \<subseteq> node_ids_of db' \<and> (\<forall>(k, i, ch) \<in> set rs. ((c, k), i) \<in> node_ids_of db')
         \<and> map fst rs = map fst kps \<and> (graph_ok db \<longrightarrow> graph_ok db')
         \<and> edges db' = edges db \<and> parked db' = parked db \<and> post_write db' = post_write db
         \<and> provenance db' = provenance db \<and> entity_aliases db' = entity_aliases db"
  using assms
proof (induction kps arbitrary: db rs)
  case Nil
  then show ?case by auto
next
  case (Cons kp kps)
  obtain db1 k i ch rs' where 1: "upsert_node_row c now kp db = (db1, (k, i, ch))"
      and 2: "upsert_node_rows c now kps db1 = (db', rs')" and rs: "rs = (k, i, ch) # rs'"
    using Cons.prems by (auto split: prod.splits)
  show ?case
    using Cons.IH [OF 2] node_row_grows [OF 1] node_row_ok [OF 1] node_row_frame [OF 1] rs by auto
qed

lemma add_provenance_frame [simp]:
  "nodes (add_provenance c src now i db) = nodes db" "node_seq (add_provenance c src now i db) = node_seq db"
  "edges (add_provenance c src now i db) = edges db" "parked (add_provenance c src now i db) = parked db"
  "parked_seq (add_provenance c src now i db) = parked_seq db" "post_write (add_provenance c src now i db) = post_write db"
  "entity_aliases (add_provenance c src now i db) = entity_aliases db"
  by (simp_all add: add_provenance_def)

lemma enqueue_post_write_frame [simp]:
  "nodes (enqueue_post_write c now i db) = nodes db" "node_seq (enqueue_post_write c now i db) = node_seq db"
  "edges (enqueue_post_write c now i db) = edges db" "parked (enqueue_post_write c now i db) = parked db"
  "parked_seq (enqueue_post_write c now i db) = parked_seq db" "provenance (enqueue_post_write c now i db) = provenance db"
  "entity_aliases (enqueue_post_write c now i db) = entity_aliases db"
  by (simp_all add: enqueue_post_write_def)

lemma fold_keeps: "(\<And>x d. f (g x d) = f d) \<Longrightarrow> f (fold g xs d) = f d"
  by (induction xs arbitrary: d) auto

lemmas fold_provenance [simp] =
  fold_keeps [where g = "add_provenance c src now" and f = nodes for c src now, OF add_provenance_frame(1)]
  fold_keeps [where g = "add_provenance c src now" and f = node_seq for c src now, OF add_provenance_frame(2)]
  fold_keeps [where g = "add_provenance c src now" and f = edges for c src now, OF add_provenance_frame(3)]
  fold_keeps [where g = "add_provenance c src now" and f = parked for c src now, OF add_provenance_frame(4)]
  fold_keeps [where g = "add_provenance c src now" and f = parked_seq for c src now, OF add_provenance_frame(5)]
  fold_keeps [where g = "add_provenance c src now" and f = post_write for c src now, OF add_provenance_frame(6)]
  fold_keeps [where g = "add_provenance c src now" and f = entity_aliases for c src now, OF add_provenance_frame(7)]

lemmas fold_enqueue [simp] =
  fold_keeps [where g = "enqueue_post_write c now" and f = nodes for c now, OF enqueue_post_write_frame(1)]
  fold_keeps [where g = "enqueue_post_write c now" and f = node_seq for c now, OF enqueue_post_write_frame(2)]
  fold_keeps [where g = "enqueue_post_write c now" and f = edges for c now, OF enqueue_post_write_frame(3)]
  fold_keeps [where g = "enqueue_post_write c now" and f = parked for c now, OF enqueue_post_write_frame(4)]
  fold_keeps [where g = "enqueue_post_write c now" and f = parked_seq for c now, OF enqueue_post_write_frame(5)]
  fold_keeps [where g = "enqueue_post_write c now" and f = provenance for c now, OF enqueue_post_write_frame(6)]
  fold_keeps [where g = "enqueue_post_write c now" and f = entity_aliases for c now, OF enqueue_post_write_frame(7)]

lemma ids_soundD: "ids_sound db c ids \<Longrightarrow> map_of ids k = Some i \<Longrightarrow> ((c, k), i) \<in> node_ids_of db"
  by (simp add: ids_sound_def del: split_paired_All)

lemma ids_sound_mono: "ids_sound db c ids \<Longrightarrow> node_ids_of db \<subseteq> node_ids_of db' \<Longrightarrow> ids_sound db' c ids"
  by (auto simp: ids_sound_def)

lemma graph_ok_cong:
  "nodes db' = nodes db \<Longrightarrow> node_seq db' = node_seq db \<Longrightarrow> edges db' = edges db \<Longrightarrow> parked db' = parked db
   \<Longrightarrow> parked_seq db' = parked_seq db \<Longrightarrow> graph_ok db' = graph_ok db"
  by (simp add: graph_ok_def)

lemma upsert_nodes_keep:
  assumes "upsert_nodes c src now specs db = (db', res)"
  shows "node_ids_of db \<subseteq> node_ids_of db'" and "ids_sound db' c res" and "graph_ok db \<Longrightarrow> graph_ok db'"
    and "edges db' = edges db" and "parked db' = parked db" and "entity_aliases db' = entity_aliases db"
proof -
  have all: "node_ids_of db \<subseteq> node_ids_of db' \<and> ids_sound db' c res \<and> (graph_ok db \<longrightarrow> graph_ok db')
      \<and> edges db' = edges db \<and> parked db' = parked db \<and> entity_aliases db' = entity_aliases db"
  proof (cases "specs = []")
    case True
    with assms show ?thesis by (simp add: upsert_nodes_def ids_sound_def)
  next
    case False
    obtain kps db1 rows where 1: "upsert_node_rows c now kps db = (db1, rows)"
        and kps: "kps = sort_key fst (dedupe_nodes [] (map (resolve_node
          (fetch_aliases db c (map (\<lambda>n. (label_value (ns_label n), ns_canonical n)) specs))) specs))"
      by (metis surj_pair)
    have same: "nodes db' = nodes db1" "node_seq db' = node_seq db1" "edges db' = edges db1" "parked db' = parked db1"
        "parked_seq db' = parked_seq db1" "entity_aliases db' = entity_aliases db1" "res = map (\<lambda>(k, i, _). (k, i)) rows"
      using assms False 1 [unfolded kps] by (auto simp: upsert_nodes_def Let_def)
    have "ids_sound db1 c res"
      using node_rows_keep [OF 1] by (fastforce simp: ids_sound_def same(7) dest!: map_of_SomeD)
    then show ?thesis
      using node_rows_keep [OF 1] graph_ok_cong [of db' db1] same by (simp add: ids_sound_def node_ids_of_def)
  qed
  then show "node_ids_of db \<subseteq> node_ids_of db'" "ids_sound db' c res" "graph_ok db \<Longrightarrow> graph_ok db'"
    "edges db' = edges db" "parked db' = parked db" "entity_aliases db' = entity_aliases db" by blast+
qed

subsection \<open>Edges\<close>

text \<open>Every entry of the batch's dict carries the alias lanes its key names.\<close>

definition lanes_match :: "(lane \<times> edge_merge) list \<Rightarrow> bool" where
  "lanes_match d \<longleftrightarrow> (\<forall>((ty, f, t, al_f, al_t), m) \<in> set d. or_empty (em_aliased_from m) = al_f \<and> or_empty (em_aliased_to m) = al_t)"

lemma edge_lane_fresh:
  "lanes_match ((key, m) # d) \<Longrightarrow> edge_lane (fresh_edge c sm now i key m) = (c, key)"
  by (cases key) (simp add: edge_lane_def fresh_edge_def lanes_match_def)

lemma fresh_edge_fields [simp]:
  "g_customer (fresh_edge c sm now i key m) = c" "g_confidence (fresh_edge c sm now i key m) = em_confidence m"
  "g_from (fresh_edge c sm now i key m) = fst (snd key)" "g_to (fresh_edge c sm now i key m) = fst (snd (snd key))"
  by (simp_all add: fresh_edge_def)

lemma edge_lane_conflict [simp]:
  "edge_lane (conflict_edge sm now m g) = edge_lane g" "g_from (conflict_edge sm now m g) = g_from g"
  "g_to (conflict_edge sm now m g) = g_to g" "g_customer (conflict_edge sm now m g) = g_customer g"
  by (simp_all add: edge_lane_def conflict_edge_def)

lemma sql_confidence_valid: "valid_confidence a \<Longrightarrow> valid_confidence b \<Longrightarrow> valid_confidence (sql_confidence a b)"
  by (auto simp: valid_confidence_iff sql_is_max)

lemma edge_ends_sql_update:
  "(\<And>e. p e \<Longrightarrow> g_from (f e) = g_from e \<and> g_to (f e) = g_to e) \<Longrightarrow> edge_ends (sql_update p f t) n = edge_ends t n"
  unfolding sql_update_def by (rule edge_ends_map) auto

text \<open>The INSERT adds exactly the edge ends of the rows it reports as inserted.\<close>

lemma insert_edges_spec:
  assumes "insert_edges c sm now d (t, seq) = ((t', seq'), ins)" and "lanes_match d"
  shows "edge_ends t' n = edge_ends t n + edge_ends ins n"
    and "edge_lane ` set t' = edge_lane ` set t \<union> Pair c ` fst ` set d"
    and "distinct (map edge_lane t) \<Longrightarrow> distinct (map edge_lane t')"
    and "edge_lane ` set ins \<subseteq> Pair c ` fst ` set d"
    and "edges_ok t \<Longrightarrow> \<forall>km \<in> set d. valid_confidence (em_confidence (snd km)) \<Longrightarrow> edges_ok t'"
proof -
  have "(\<forall>n. edge_ends t' n = edge_ends t n + edge_ends ins n)
      \<and> edge_lane ` set t' = edge_lane ` set t \<union> Pair c ` fst ` set d
      \<and> (distinct (map edge_lane t) \<longrightarrow> distinct (map edge_lane t')) \<and> edge_lane ` set ins \<subseteq> Pair c ` fst ` set d
      \<and> (edges_ok t \<longrightarrow> (\<forall>km \<in> set d. valid_confidence (em_confidence (snd km))) \<longrightarrow> edges_ok t')"
    using assms
  proof (induction c sm now d "(t, seq)" arbitrary: t seq ins rule: insert_edges.induct)
    case (1 c sm now)
    then show ?case by simp
  next
    case (2 c sm now key m rest t seq)
    let ?u = "sql_update (\<lambda>g. edge_lane g = (c, key)) (conflict_edge sm now m) t"
    have rest: "lanes_match rest" using 2 by (simp add: lanes_match_def)
    show ?case
    proof (cases "(c, key) \<in> edge_lane ` set t")
      case True
      have same: "map edge_lane ?u = map edge_lane t" by (rule map_sql_update) simp
      then have lanes: "edge_lane ` set ?u = edge_lane ` set t" by (metis set_map)
      have ok: "edges_ok ?u" if "edges_ok t" "valid_confidence (em_confidence m)"
        using that same by (auto simp: edges_ok_def conflict_edge_def sql_confidence_valid elim!: sql_update_memE)
      show ?thesis
        using "2.hyps"(1) [OF True _ rest] "2.prems"(1) True lanes same ok
        by (auto simp: edge_ends_sql_update)
    next
      case False
      let ?g = "fresh_edge c sm now seq key m"
      obtain ins' where run: "insert_edges c sm now rest (t @ [?g], seq + 1) = ((t', seq'), ins')" and ins: "ins = ?g # ins'"
        using "2.prems"(1) False by (auto simp: Let_def split: prod.splits)
      have lane: "edge_lane ?g = (c, key)" using edge_lane_fresh "2.prems"(2) .
      have IH: "(\<forall>n. edge_ends t' n = edge_ends (t @ [?g]) n + edge_ends ins' n)
          \<and> edge_lane ` set t' = edge_lane ` set (t @ [?g]) \<union> Pair c ` fst ` set rest
          \<and> (distinct (map edge_lane (t @ [?g])) \<longrightarrow> distinct (map edge_lane t')) \<and> edge_lane ` set ins' \<subseteq> Pair c ` fst ` set rest
          \<and> (edges_ok (t @ [?g]) \<longrightarrow> (\<forall>km \<in> set rest. valid_confidence (em_confidence (snd km))) \<longrightarrow> edges_ok t')"
        using "2.hyps"(2) [OF False refl run rest] by blast
      moreover have "edges_ok (t @ [?g])" if "edges_ok t" "valid_confidence (em_confidence m)"
        using that False by (auto simp: edges_ok_def lane)
      moreover have "edge_lane ` set ins \<subseteq> Pair c ` fst ` set ((key, m) # rest)" using IH ins by (auto simp: lane)
      moreover have "edge_lane ` set t' = edge_lane ` set t \<union> Pair c ` fst ` set ((key, m) # rest)" using IH by (auto simp: lane)
      moreover have "edge_ends t' n = edge_ends t n + edge_ends ins n" for n using IH ins by simp
      moreover have "distinct (map edge_lane t')" if "distinct (map edge_lane t)" using IH that False by (simp add: lane)
      ultimately show ?thesis by simp
    qed
  qed
  then show "edge_ends t' n = edge_ends t n + edge_ends ins n" "edge_lane ` set t' = edge_lane ` set t \<union> Pair c ` fst ` set d"
    "distinct (map edge_lane t) \<Longrightarrow> distinct (map edge_lane t')" "edge_lane ` set ins \<subseteq> Pair c ` fst ` set d"
    "edges_ok t \<Longrightarrow> \<forall>km \<in> set d. valid_confidence (em_confidence (snd km)) \<Longrightarrow> edges_ok t'" by simp_all
qed

lemma degree_increments_count:
  "case_option 0 (\<lambda>i. i) (map_of (degree_increments d gs) n) = case_option 0 (\<lambda>i. i) (map_of d n) + int (edge_ends gs n)"
  by (induction d gs rule: degree_increments.induct) (auto simp: Let_def split: option.splits)

lemma raise_degrees_rows:
  assumes "n' \<in> set (raise_degrees c (degree_increments [] ins) ns)"
  obtains n where "n \<in> set ns" "n_id n' = n_id n" "node_key n' = node_key n"
    "n_degree n' = n_degree n + (if n_customer n = c then int (edge_ends ins (n_id n)) else 0)"
proof -
  obtain n where n: "n \<in> set ns"
      and n': "n' = (if n_customer n = c \<and> map_of (degree_increments [] ins) (n_id n) \<noteq> None
        then n\<lparr>n_degree := n_degree n + the (map_of (degree_increments [] ins) (n_id n))\<rparr> else n)"
    using assms unfolding raise_degrees_def by (rule sql_update_memE)
  have "n_degree n' = n_degree n + (if n_customer n = c then int (edge_ends ins (n_id n)) else 0)"
    using degree_increments_count [of "[]" ins "n_id n"] n' by (auto split: option.splits)
  with n n' that show thesis by auto
qed

lemma node_ids_raise:
  "(\<lambda>n. (node_key n, n_id n)) ` set (raise_degrees c incs ns) = (\<lambda>n. (node_key n, n_id n)) ` set ns"
  unfolding raise_degrees_def by (rule node_ids_update) auto

text \<open>A map from keys to node ids that the database confirms: the ids \<^verbatim>\<open>upsert_nodes\<close> returned, and those looked up.\<close>

lemma map_of_fold_dict_set:
  "map_of (fold (\<lambda>kv d. dict_set (fst kv) (snd kv) d) rows d) k = Some v
   \<Longrightarrow> (k, v) \<in> set rows \<or> map_of d k = Some v"
  by (induction rows arbitrary: d) (fastforce split: if_splits)+

lemma resolve_missing_sound:
  assumes "ids_sound db c ids"
  shows "ids_sound db c (resolve_missing_endpoints db c es ids)"
  using assms
  unfolding ids_sound_def resolve_missing_endpoints_def Let_def
  by (fastforce dest!: map_of_fold_dict_set split: option.splits intro: find_node_ids)

text \<open>Where one spec of the batch goes: to its lane when both ends are known, else it waits for the first missing end.\<close>

definition lane_of :: "(nkey \<times> int) list \<Rightarrow> edge_spec \<Rightarrow> lane option" where
  "lane_of ids e =
     (case (map_of ids (from_key e), map_of ids (to_key e)) of
        (Some f, Some t) \<Rightarrow> Some (edge_type_value (es_type e), f, t, or_empty (es_aliased_from e), or_empty (es_aliased_to e))
      | _ \<Rightarrow> None)"

definition missing_key :: "(nkey \<times> int) list \<Rightarrow> edge_spec \<Rightarrow> nkey" where
  "missing_key ids e = (if map_of ids (from_key e) = None then from_key e else to_key e)"

lemma split_edges_step:
  "split_edges ids d park (e # es) =
     (case lane_of ids e of
        Some key \<Rightarrow> split_edges ids (dict_set key (merge_edge (map_of d key) e) d) park es
      | None \<Rightarrow> split_edges ids d (park @ [(e, missing_key ids e)]) es)"
  by (simp add: lane_of_def missing_key_def Let_def split: option.splits)

lemma split_edges_lanes:
  "split_edges ids d park es = (d', park') \<Longrightarrow>
     fst ` set d' = fst ` set d \<union> {key. \<exists>e \<in> set es. lane_of ids e = Some key}
     \<and> park' = park @ map (\<lambda>e. (e, missing_key ids e)) (filter (\<lambda>e. lane_of ids e = None) es)"
proof (induction es arbitrary: d park)
  case (Cons e es)
  show ?case
  proof (cases "lane_of ids e")
    case None
    then have "split_edges ids d (park @ [(e, missing_key ids e)]) es = (d', park')"
      using Cons.prems by (simp add: split_edges_step del: split_edges.simps)
    from Cons.IH [OF this] None show ?thesis by auto
  next
    case (Some key)
    then have "split_edges ids (dict_set key (merge_edge (map_of d key) e) d) park es = (d', park')"
      using Cons.prems by (simp add: split_edges_step del: split_edges.simps)
    from Cons.IH [OF this] Some show ?thesis by auto
  qed
qed simp

lemma merge_edge_lanes:
  "lane_of ids e = Some (ty, f, t, a, b) \<Longrightarrow> lanes_match d
   \<Longrightarrow> or_empty (em_aliased_from (merge_edge (map_of d (ty, f, t, a, b)) e)) = a
       \<and> or_empty (em_aliased_to (merge_edge (map_of d (ty, f, t, a, b)) e)) = b"
  by (fastforce simp: merge_edge_def lane_of_def lanes_match_def split: option.splits dest: map_of_SomeD)

lemma split_edges_match: "split_edges ids d park es = (d', park') \<Longrightarrow> lanes_match d \<Longrightarrow> lanes_match d'"
proof (induction es arbitrary: d park)
  case (Cons e es)
  show ?case
  proof (cases "lane_of ids e")
    case None
    with Cons show ?thesis by (auto simp: split_edges_step simp del: split_edges.simps)
  next
    case (Some key)
    obtain ty f t a b where key: "key = (ty, f, t, a, b)" by (cases key)
    have "lanes_match (dict_set key (merge_edge (map_of d key) e) d)"
      using merge_edge_lanes [OF Some [unfolded key] Cons.prems(2)] Cons.prems(2)
        set_dict_set_subset [of key "merge_edge (map_of d key) e" d]
      unfolding lanes_match_def key by fastforce
    then show ?thesis using Cons Some by (auto simp: split_edges_step simp del: split_edges.simps)
  qed
qed simp

lemma park_rows:
  "parked (park_pending_edges c src now eks db) =
     parked db @ map2 (park_row c src now) [parked_seq db .. parked_seq db + int (length eks) - 1] eks"
  "parked_seq (park_pending_edges c src now eks db) = parked_seq db + int (length eks)"
  by (induction eks arbitrary: db) (simp_all add: upto_rec1 algebra_simps)

lemma park_frame [simp]:
  "nodes (park_pending_edges c src now eks db) = nodes db" "node_seq (park_pending_edges c src now eks db) = node_seq db"
  "edges (park_pending_edges c src now eks db) = edges db" "provenance (park_pending_edges c src now eks db) = provenance db"
  "post_write (park_pending_edges c src now eks db) = post_write db"
  "entity_aliases (park_pending_edges c src now eks db) = entity_aliases db"
  by (induction eks arbitrary: db) simp_all

lemma pe_id_park_row [simp]: "pe_id (park_row c src now i ek) = i"
  by (simp add: park_row_def Let_def)

lemma parked_ok_park:
  assumes "parked_ok (parked db) (parked_seq db)"
  shows "parked_ok (parked (park_pending_edges c src now eks db)) (parked_seq (park_pending_edges c src now eks db))"
proof -
  let ?is = "[parked_seq db .. parked_seq db + int (length eks) - 1]"
  have ids: "map pe_id (map2 (park_row c src now) ?is eks) = ?is"
    by (intro nth_equalityI) auto
  have "set (map pe_id (map2 (park_row c src now) ?is eks)) = {parked_seq db .. parked_seq db + int (length eks) - 1}"
    by (simp only: ids set_upto)
  then have "\<forall>e \<in> set (map2 (park_row c src now) ?is eks). parked_seq db \<le> pe_id e \<and> pe_id e < parked_seq db + int (length eks)"
    by (metis (no_types, lifting) atLeastAtMost_iff image_eqI list.set_map zle_diff1_eq)
  moreover have "distinct (map pe_id (map2 (park_row c src now) ?is eks))" by (simp only: ids distinct_upto)
  ultimately show ?thesis using assms by (fastforce simp: parked_ok_def park_rows)
qed

text \<open>The writing half of \<^verbatim>\<open>upsert_edges\<close>: edges and degrees move together.\<close>

lemma write_edges_ok:
  assumes ok: "graph_ok db" and match: "lanes_match d" and conf: "\<forall>km \<in> set d. valid_confidence (em_confidence (snd km))"
    and ends: "\<forall>km \<in> set d. has_end (nodes db) c (fst (snd (fst km))) \<and> has_end (nodes db) c (fst (snd (snd (fst km))))"
  shows "graph_ok (write_edges c sm now d db)"
proof -
  let ?d = "sort_key fst d"
  obtain t seq ins where run: "insert_edges c sm now ?d (edges db, edge_seq db) = ((t, seq), ins)"
    by (metis surj_pair)
  have m: "lanes_match ?d" using match by (simp add: lanes_match_def)
  note spec = insert_edges_spec [OF run m]
  let ?ns = "raise_degrees c (degree_increments [] ins) (nodes db)"
  have he: "has_end ?ns = has_end (nodes db)" by (simp add: has_end_view node_ids_raise fun_eq_iff)
  have nok: "nodes_ok ?ns (node_seq db)"
    using ok unfolding raise_degrees_def by (intro nodes_ok_update [where seq = "node_seq db"]) (auto simp: graph_ok_def)
  have lane_ends: "has_end (nodes db) (g_customer g) (g_from g) \<and> has_end (nodes db) (g_customer g) (g_to g)"
    if "edge_lane g \<in> Pair c ` fst ` set d" for g
  proof -
    from that obtain km where "km \<in> set d" "edge_lane g = (c, fst km)" by blast
    then show ?thesis using bspec [OF ends, of km] by (simp add: edge_lane_def) (metis fst_conv snd_conv)
  qed
  have lanes: "g \<in> set t \<Longrightarrow> edge_lane g \<in> edge_lane ` set (edges db) \<union> Pair c ` fst ` set d" for g
    using spec(2) by auto
  have eok: "ends_ok ?ns t" unfolding ends_ok_def he
  proof
    fix g assume "g \<in> set t"
    from lanes [OF this] consider h where "h \<in> set (edges db)" "edge_lane g = edge_lane h"
      | "edge_lane g \<in> Pair c ` fst ` set d" by auto
    then show "has_end (nodes db) (g_customer g) (g_from g) \<and> has_end (nodes db) (g_customer g) (g_to g)"
    proof cases
      case 1
      then show ?thesis using ok by (auto simp: graph_ok_def ends_ok_def edge_lane_def)
    next
      case 2
      then show ?thesis by (rule lane_ends)
    qed
  qed
  have same_tenant: "edge_ends ins (n_id n) = 0" if "n \<in> set (nodes db)" "n_customer n \<noteq> c" for n
  proof -
    have "has_end (nodes db) c (g_from g) \<and> has_end (nodes db) c (g_to g)" if "g \<in> set ins" for g
    proof -
      have "edge_lane g \<in> Pair c ` fst ` set d" using spec(4) that by auto
      moreover from this have "g_customer g = c" by (auto simp: edge_lane_def)
      ultimately show ?thesis using lane_ends by metis
    qed
    then have "n_id n \<noteq> g_from g \<and> n_id n \<noteq> g_to g" if "g \<in> set ins" for g
      using that \<open>n \<in> set (nodes db)\<close> \<open>n_customer n \<noteq> c\<close> distinct_key_eq [of n_id "nodes db" n] ok
      unfolding has_end_def graph_ok_def nodes_ok_def by metis
    then show ?thesis unfolding edge_ends_0_iff by metis
  qed
  have deg: "degrees_exact ?ns t" unfolding degrees_exact_def
  proof
    fix n' assume "n' \<in> set ?ns"
    then obtain n where n: "n \<in> set (nodes db)" "n_id n' = n_id n"
      "n_degree n' = n_degree n + (if n_customer n = c then int (edge_ends ins (n_id n)) else 0)"
      by (rule raise_degrees_rows)
    moreover have "n_degree n = int (edge_ends (edges db) (n_id n))" using ok n(1) by (simp add: graph_ok_def degrees_exact_def)
    ultimately show "n_degree n' = int (edge_ends t (n_id n'))"
      using same_tenant [OF n(1)] spec(1) [of "n_id n"] by auto
  qed
  have "edges_ok t" using spec(5) ok conf by (simp add: graph_ok_def)
  with nok eok deg ok show ?thesis by (simp add: write_edges_def run graph_ok_def)
qed

lemma write_edges_frame [simp]:
  "node_seq (write_edges c sm now d db) = node_seq db" "parked (write_edges c sm now d db) = parked db"
  "parked_seq (write_edges c sm now d db) = parked_seq db" "post_write (write_edges c sm now d db) = post_write db"
  "entity_aliases (write_edges c sm now d db) = entity_aliases db" "node_ids_of (write_edges c sm now d db) = node_ids_of db"
  by (simp_all add: write_edges_def node_ids_of_def node_ids_raise split: prod.splits)

lemma write_edges_lanes:
  "lanes_match d \<Longrightarrow> edge_lane ` set (edges (write_edges c sm now d db)) = edge_lane ` set (edges db) \<union> Pair c ` fst ` set d"
  using insert_edges_spec(2) [of c sm now "sort_key fst d" "edges db" "edge_seq db"]
  by (auto simp: write_edges_def lanes_match_def split: prod.splits)

text \<open>A successful \<^verbatim>\<open>upsert_edges\<close> as the split of its batch.\<close>

lemma upsert_edges_cases:
  assumes "upsert_edges c sm now specs ids db = Inr (db', n)"
  obtains (none) "specs = []" "db' = db"
  | (split) am es ids' d park where "specs \<noteq> []"
      "am = fetch_aliases db c (concat (map (\<lambda>e. [from_key e, to_key e]) specs))" "es = resolve_edges am specs"
      "ids' = resolve_missing_endpoints db c es ids" "split_edges ids' [] [] es = (d, park)"
      "d \<noteq> [] \<Longrightarrow> edge_checks (nodes db) d = None"
      "db' = park_pending_edges c (sm_source sm) now park (if d = [] then db else write_edges c sm now d db)"
  using assms
  by (cases "specs = []") (auto simp: upsert_edges_def Let_def split: prod.splits if_splits option.splits)

lemma lanes_match_Nil [simp]: "lanes_match []"
  by (simp add: lanes_match_def)

lemma lane_of_ends:
  "ids_sound db c ids \<Longrightarrow> lane_of ids e = Some key
   \<Longrightarrow> ((c, from_key e), fst (snd key)) \<in> node_ids_of db \<and> ((c, to_key e), fst (snd (snd key))) \<in> node_ids_of db"
  by (auto simp: lane_of_def split: option.splits intro: ids_soundD)

lemma upsert_edges_keep:
  assumes "upsert_edges c sm now specs ids db = Inr (db', n)"
  shows "node_ids_of db' = node_ids_of db" and "entity_aliases db' = entity_aliases db" and "post_write db' = post_write db"
    and "ids_sound db c ids \<Longrightarrow> graph_ok db \<Longrightarrow> graph_ok db'"
proof -
  have "node_ids_of db' = node_ids_of db \<and> entity_aliases db' = entity_aliases db \<and> post_write db' = post_write db
      \<and> (ids_sound db c ids \<longrightarrow> graph_ok db \<longrightarrow> graph_ok db')"
    using assms
  proof (cases rule: upsert_edges_cases)
    case none
    then show ?thesis by simp
  next
    case (split am es ids' d park)
    let ?w = "if d = [] then db else write_edges c sm now d db"
    have ok: "graph_ok ?w" if sound: "ids_sound db c ids" and g: "graph_ok db"
    proof (cases "d = []")
      case False
      have m: "lanes_match d" using split_edges_match [OF split(5)] by simp
      have s: "ids_sound db c ids'" using resolve_missing_sound [OF sound] split(4) by simp
      have "\<forall>km \<in> set d. has_end (nodes db) c (fst (snd (fst km))) \<and> has_end (nodes db) c (fst (snd (snd (fst km))))"
      proof
        fix km assume "km \<in> set d"
        then obtain e where "lane_of ids' e = Some (fst km)" using split_edges_lanes [OF split(5)] by fastforce
        from lane_of_ends [OF s this]
        show "has_end (nodes db) c (fst (snd (fst km))) \<and> has_end (nodes db) c (fst (snd (snd (fst km))))"
          unfolding has_end_ids by blast
      qed
      moreover have "\<forall>km \<in> set d. valid_confidence (em_confidence (snd km))"
        using split(6) False by (auto simp: edge_checks_def split: if_splits)
      ultimately show ?thesis using write_edges_ok [OF g m] False by simp
    qed (use g in simp)
    have "graph_ok db'" if "ids_sound db c ids" "graph_ok db"
      using ok [OF that] parked_ok_park [of ?w] by (simp add: split(7) graph_ok_def)
    then show ?thesis by (simp add: split(7) node_ids_of_def [of "park_pending_edges _ _ _ _ _"] flip: node_ids_of_def)
  qed
  then show "node_ids_of db' = node_ids_of db" "entity_aliases db' = entity_aliases db" "post_write db' = post_write db"
    "ids_sound db c ids \<Longrightarrow> graph_ok db \<Longrightarrow> graph_ok db'" by simp_all
qed

text \<open>After \<^verbatim>\<open>_resolve_missing_endpoints\<close> a key without an id has no node.\<close>

lemma map_of_fold_dict_set_None:
  "map_of (fold (\<lambda>kv d. dict_set (fst kv) (snd kv) d) rows d) k = None \<longleftrightarrow> k \<notin> fst ` set rows \<and> map_of d k = None"
  by (induction rows arbitrary: d) (auto simp: image_iff)

lemma unresolved_absent:
  assumes "map_of (resolve_missing_endpoints db c es ids) k = None" and "e \<in> set es" and "k = from_key e \<or> k = to_key e"
  shows "find_node db c k = None"
proof (rule ccontr)
  assume "find_node db c k \<noteq> None"
  then obtain n where n: "find_node db c k = Some n" by auto
  from assms(1) have none: "map_of ids k = None"
    and "k \<notin> fst ` set (concat (map (\<lambda>k. case find_node db c k of None \<Rightarrow> [] | Some n \<Rightarrow> [(k, n_id n)])
      (filter (\<lambda>k. map_of ids k = None) (remdups (concat (map (\<lambda>e. [from_key e, to_key e]) es))))))"
    unfolding resolve_missing_endpoints_def Let_def map_of_fold_dict_set_None by blast+
  moreover have "(k, n_id n) \<in> set (concat (map (\<lambda>k. case find_node db c k of None \<Rightarrow> [] | Some n \<Rightarrow> [(k, n_id n)])
      (filter (\<lambda>k. map_of ids k = None) (remdups (concat (map (\<lambda>e. [from_key e, to_key e]) es))))))"
  proof -
    have "k \<in> set (filter (\<lambda>k. map_of ids k = None) (remdups (concat (map (\<lambda>e. [from_key e, to_key e]) es))))"
      using none assms(2,3) by auto
    then show ?thesis unfolding set_concat set_map
      by (intro UnionI [of "set (case find_node db c k of None \<Rightarrow> [] | Some n \<Rightarrow> [(k, n_id n)])"] imageI) (simp_all add: n)
  qed
  then have "k \<in> fst ` set (concat (map (\<lambda>k. case find_node db c k of None \<Rightarrow> [] | Some n \<Rightarrow> [(k, n_id n)])
      (filter (\<lambda>k. map_of ids k = None) (remdups (concat (map (\<lambda>e. [from_key e, to_key e]) es))))))"
    by (intro rev_image_eqI [of "(k, n_id n)"]) simp_all
  ultimately show False by blast
qed

lemma missing_key_unresolved: "lane_of ids e = None \<Longrightarrow> map_of ids (missing_key ids e) = None"
  by (auto simp: lane_of_def missing_key_def split: option.splits)

text \<open>An edge of the graph that stands for a spec, and a parked row that stands for it.\<close>

definition written :: "graph_db \<Rightarrow> string \<Rightarrow> edge_spec \<Rightarrow> bool" where
  "written db c e \<longleftrightarrow>
     (\<exists>g \<in> set (edges db). g_customer g = c \<and> g_type g = edge_type_value (es_type e)
        \<and> ((c, from_key e), g_from g) \<in> node_ids_of db \<and> ((c, to_key e), g_to g) \<in> node_ids_of db
        \<and> or_empty (g_aliased_from g) = or_empty (es_aliased_from e) \<and> or_empty (g_aliased_to g) = or_empty (es_aliased_to e))"

definition waiting :: "graph_db \<Rightarrow> string \<Rightarrow> string \<Rightarrow> edge_spec \<Rightarrow> bool" where
  "waiting db c src e \<longleftrightarrow>
     (\<exists>p \<in> set (parked db). pe_customer p = c \<and> pe_source p = src \<and> pe_type p = edge_type_value (es_type e)
        \<and> (pe_from_label p, pe_from p) = from_key e \<and> (pe_to_label p, pe_to p) = to_key e \<and> pe_props p = es_props e
        \<and> pe_locked_until p = None
        \<and> (pe_missing_label p, pe_missing p) \<in> {from_key e, to_key e} \<and> find_node db c (pe_missing_label p, pe_missing p) = None)"

lemma park_rows_mem: "ek \<in> set eks \<Longrightarrow> \<exists>i. park_row c src now i ek \<in> set (parked (park_pending_edges c src now eks db))"
proof -
  assume "ek \<in> set eks"
  then obtain j where j: "j < length eks" "eks ! j = ek" by (auto simp: in_set_conv_nth)
  let ?is = "[parked_seq db .. parked_seq db + int (length eks) - 1]"
  have "map2 (park_row c src now) ?is eks ! j = park_row c src now (?is ! j) ek" using j by simp
  moreover have "j < length (map2 (park_row c src now) ?is eks)" using j by simp
  ultimately have "park_row c src now (?is ! j) ek \<in> set (map2 (park_row c src now) ?is eks)" by (metis nth_mem)
  then have "park_row c src now (?is ! j) ek \<in> set (parked db @ map2 (park_row c src now) ?is eks)"
    by (simp only: set_append Un_iff simp_thms)
  then show ?thesis unfolding park_rows ..
qed

lemma find_node_absent: "find_node db c k = None \<longleftrightarrow> (\<forall>i. ((c, k), i) \<notin> node_ids_of db)"
proof -
  have "((c, k), n_id n) \<in> node_ids_of db" if "n \<in> set (nodes db)" "node_key n = (c, k)" for n
    using that unfolding node_ids_of_def by (intro rev_image_eqI [of n]) auto
  then show ?thesis unfolding find_node_None_iff by (auto simp: node_ids_of_def)
qed

lemma upsert_edges_complete:
  assumes run: "upsert_edges c sm now specs ids db = Inr (db', n)" and sound: "ids_sound db c ids"
    and e: "e \<in> set (resolve_edges (fetch_aliases db c (concat (map (\<lambda>e. [from_key e, to_key e]) specs))) specs)"
  shows "written db' c e \<or> waiting db' c (sm_source sm) e"
  using run
proof (cases rule: upsert_edges_cases)
  case none
  with e show ?thesis by (simp add: resolve_edges_def split: if_splits)
next
  case (split am es ids' d park)
  note keep = upsert_edges_keep [OF run]
  note lanes = split_edges_lanes [OF split(5)]
  have e': "e \<in> set es" using e split by simp
  show ?thesis
  proof (cases "lane_of ids' e")
    case None
    then have "(e, missing_key ids' e) \<in> set park" using lanes e' by auto
    then obtain i where "park_row c (sm_source sm) now i (e, missing_key ids' e) \<in> set (parked db')"
      using park_rows_mem unfolding split(7) by blast
    moreover have "find_node db' c (missing_key ids' e) = None"
      using unresolved_absent [of db c es ids "missing_key ids' e" e] missing_key_unresolved [OF None] e' split(4) keep(1)
      by (auto simp: find_node_absent missing_key_def)
    ultimately have "waiting db' c (sm_source sm) e"
      unfolding waiting_def by (intro bexI) (auto simp: park_row_def Let_def from_key_def to_key_def missing_key_def)
    then show ?thesis ..
  next
    case (Some key)
    then have key: "key \<in> fst ` set d" using lanes e' by auto
    have "lanes_match d" using split_edges_match [OF split(5)] by simp
    then have "(c, key) \<in> edge_lane ` set (edges db')"
      using key by (auto simp: split(7) write_edges_lanes)
    then obtain g where g: "g \<in> set (edges db')" "edge_lane g = (c, key)" by force
    have "ids_sound db c ids'" using resolve_missing_sound [OF sound] split(4) by simp
    from lane_of_ends [OF this Some] have "written db' c e"
      unfolding written_def keep(1) using g Some
      by (intro bexI [of _ g]) (auto simp: edge_lane_def lane_of_def split: option.splits)
    then show ?thesis ..
  qed
qed

subsection \<open>Replaying parked edges\<close>

lemma map2_memE:
  assumes "p \<in> set (map2 f xs ys)"
  obtains x y where "p = f x y" "x \<in> set xs" "y \<in> set ys"
proof -
  from assms obtain xy where "xy \<in> set (zip xs ys)" "p = f (fst xy) (snd xy)" by (auto simp: case_prod_beta)
  then show thesis using that set_zip_leftD set_zip_rightD by (metis prod.collapse)
qed

lemma upsert_edges_grow:
  assumes run: "upsert_edges c sm now specs ids db = Inr (db', n)"
  shows "\<exists>new. parked db' = parked db @ new \<and> (\<forall>p \<in> set new. parked_seq db \<le> pe_id p \<and> pe_id p < parked_seq db' \<and> pe_locked_until p = None
           \<and> pe_customer p = c \<and> find_node db' c (pe_missing_label p, pe_missing p) = None) \<and> parked_seq db \<le> parked_seq db'"
    and "edge_lane ` set (edges db) \<subseteq> edge_lane ` set (edges db')"
proof -
  have "(\<exists>new. parked db' = parked db @ new \<and> (\<forall>p \<in> set new. parked_seq db \<le> pe_id p \<and> pe_id p < parked_seq db' \<and> pe_locked_until p = None
           \<and> pe_customer p = c \<and> find_node db' c (pe_missing_label p, pe_missing p) = None) \<and> parked_seq db \<le> parked_seq db')
      \<and> edge_lane ` set (edges db) \<subseteq> edge_lane ` set (edges db')"
    using run
  proof (cases rule: upsert_edges_cases)
    case none
    then show ?thesis by simp
  next
    case (split am es ids' d park)
    let ?w = "if d = [] then db else write_edges c sm now d db"
    let ?is = "[parked_seq db .. parked_seq db + int (length park) - 1]"
    have seq: "parked_seq ?w = parked_seq db" "parked ?w = parked db" by simp_all
    have new: "p \<in> set (map2 (park_row c (sm_source sm) now) ?is park) \<Longrightarrow>
        parked_seq db \<le> pe_id p \<and> pe_id p < parked_seq db + int (length park) \<and> pe_locked_until p = None
        \<and> pe_customer p = c \<and> find_node db' c (pe_missing_label p, pe_missing p) = None" for p
    proof -
      assume "p \<in> set (map2 (park_row c (sm_source sm) now) ?is park)"
      then obtain i ek where p: "p = park_row c (sm_source sm) now i ek" "i \<in> set ?is" "ek \<in> set park"
        by (elim map2_memE)
      then obtain e where e: "e \<in> set es" "lane_of ids' e = None" "ek = (e, missing_key ids' e)"
        using split_edges_lanes [OF split(5)] by auto
      have "find_node db' c (missing_key ids' e) = None"
        using unresolved_absent [of db c es ids "missing_key ids' e" e] missing_key_unresolved [OF e(2)] e(1) split(4)
          upsert_edges_keep(1) [OF run] by (auto simp: find_node_absent missing_key_def)
      then show ?thesis using p e by (auto simp: park_row_def Let_def)
    qed
    have "edge_lane ` set (edges db) \<subseteq> edge_lane ` set (edges db')"
      using split_edges_match [OF split(5)] by (auto simp: split(7) write_edges_lanes)
    moreover have "parked db' = parked db @ map2 (park_row c (sm_source sm) now) ?is park"
        "parked_seq db' = parked_seq db + int (length park)"
      by (simp_all only: split(7) park_rows seq)
    ultimately show ?thesis using new by (intro conjI exI [of _ "map2 (park_row c (sm_source sm) now) ?is park"]) auto
  qed
  then show "\<exists>new. parked db' = parked db @ new \<and> (\<forall>p \<in> set new. parked_seq db \<le> pe_id p \<and> pe_id p < parked_seq db' \<and> pe_locked_until p = None
           \<and> pe_customer p = c \<and> find_node db' c (pe_missing_label p, pe_missing p) = None) \<and> parked_seq db \<le> parked_seq db'"
    "edge_lane ` set (edges db) \<subseteq> edge_lane ` set (edges db')" by blast+
qed

text \<open>What an edge write may do to the graph, as one relation: it composes.\<close>

definition edges_grow :: "string \<Rightarrow> graph_db \<Rightarrow> graph_db \<Rightarrow> bool" where
  "edges_grow c db db' \<longleftrightarrow>
     node_ids_of db' = node_ids_of db \<and> entity_aliases db' = entity_aliases db \<and> post_write db' = post_write db
     \<and> edge_lane ` set (edges db) \<subseteq> edge_lane ` set (edges db')
     \<and> (\<exists>new. parked db' = parked db @ new \<and> (\<forall>p \<in> set new. parked_seq db \<le> pe_id p \<and> pe_locked_until p = None
           \<and> pe_customer p = c \<and> find_node db' c (pe_missing_label p, pe_missing p) = None)) \<and> parked_seq db \<le> parked_seq db'"

lemma edges_grow_refl [simp]: "edges_grow c db db"
  by (simp add: edges_grow_def)

lemma edges_grow_trans: "edges_grow c a b \<Longrightarrow> edges_grow c b d \<Longrightarrow> edges_grow c a d"
  unfolding edges_grow_def by (fastforce simp: find_node_absent)

lemma upsert_edges_edges_grow: "upsert_edges c sm now specs ids db = Inr (db', n) \<Longrightarrow> edges_grow c db db'"
  using upsert_edges_grow [of c sm now specs ids db db' n] upsert_edges_keep [of c sm now specs ids db db' n]
  unfolding edges_grow_def by blast

lemma replay_sources_keep:
  assumes "replay_sources c now ids srcs db = Inr (db', n)"
  shows "edges_grow c db db' \<and> (ids_sound db c ids \<longrightarrow> graph_ok db \<longrightarrow> graph_ok db')"
  using assms
proof (induction c now ids srcs db arbitrary: n rule: replay_sources.induct)
  case (2 c now ids src ss rest db)
  let ?sm = "\<lparr>sm_source = src, sm_extractor = None, sm_extracted_at = None\<rparr>"
  obtain db1 n1 m where 1: "upsert_edges c ?sm now ss ids db = Inr (db1, n1)" and r: "replay_sources c now ids rest db1 = Inr (db', m)"
    using "2.prems" by (auto split: sum.splits prod.splits)
  have IH: "edges_grow c db1 db' \<and> (ids_sound db1 c ids \<longrightarrow> graph_ok db1 \<longrightarrow> graph_ok db')" using 2 1 r by blast
  have "ids_sound db c ids \<Longrightarrow> ids_sound db1 c ids"
    using ids_sound_mono upsert_edges_keep(1) [OF 1] by blast
  then show ?case
    using IH upsert_edges_keep(4) [OF 1] upsert_edges_edges_grow [OF 1] edges_grow_trans by blast
qed simp

end
