(* ===== verification/GraphParking.thy ===== *)
theory GraphParking
  imports GraphProperties
begin

section \<open>Edges that wait for a node\<close>

text \<open>
  Nothing a batch asserts is lost: an edge is written, or parked on an endpoint that is absent
  (\<open>upsert_edges_complete\<close>); a drain turns every row it claims into an edge or parks it on the other endpoint. \<open>covered\<close>
  is the promise the post-write queue keeps: whenever somebody waits for a node that exists, that node is queued.
  The locale \<open>graph_op\<close> is the contract of a committed operation; the operations of the writer are interpretations.
\<close>

subsection \<open>Draining\<close>

lemma lock_rows_keep:
  "sql_update (\<lambda>e. pe_id e \<in> S) (\<lambda>e. e\<lparr>pe_locked_until := l\<rparr>) ps = ps' \<Longrightarrow> map pe_id ps' = map pe_id ps"
  using map_sql_update [of ps "\<lambda>e. pe_id e \<in> S" pe_id "\<lambda>e. e\<lparr>pe_locked_until := l\<rparr>"] by simp

definition lock_parked :: "time \<Rightarrow> int list \<Rightarrow> graph_db \<Rightarrow> graph_db" where
  "lock_parked now ids db =
     db\<lparr>parked := sql_update (\<lambda>e. pe_id e \<in> set ids) (\<lambda>e. e\<lparr>pe_locked_until := Some (now + 30)\<rparr>) (parked db)\<rparr>"

lemma lock_parked_frame [simp]:
  "nodes (lock_parked now ids db) = nodes db" "edges (lock_parked now ids db) = edges db"
  "post_write (lock_parked now ids db) = post_write db" "entity_aliases (lock_parked now ids db) = entity_aliases db"
  "parked_seq (lock_parked now ids db) = parked_seq db" "node_ids_of (lock_parked now ids db) = node_ids_of db"
  by (simp_all add: lock_parked_def node_ids_of_def)

lemma lock_parked_ok: "graph_ok db \<Longrightarrow> graph_ok (lock_parked now ids db)"
proof -
  have "map pe_id (parked (lock_parked now ids db)) = map pe_id (parked db)"
    unfolding lock_parked_def by (simp add: map_sql_update)
  then have "parked_ok (parked (lock_parked now ids db)) s \<longleftrightarrow> parked_ok (parked db) s" for s
    unfolding parked_ok_def by (metis (no_types, lifting) image_iff list.set_map)
  then show "graph_ok db \<Longrightarrow> ?thesis" by (simp add: graph_ok_def lock_parked_def)
qed

lemma drain_cases:
  assumes "drain_pending_edges c now k db = Inr (db', n)"
  obtains (idle) "sql_select (waits_for c k) pe_id DRAIN_LIMIT (parked db) = []" "db' = db"
  | (run) claimed ss db2 where "claimed = sql_select (waits_for c k) pe_id DRAIN_LIMIT (parked db)" "claimed \<noteq> []" "rebuild claimed = Inr ss"
      "replay_sources c now (resolve_missing_endpoints (lock_parked now (map pe_id claimed) db) c (map snd ss) []) (by_source ss)
         (lock_parked now (map pe_id claimed) db) = Inr (db2, n)"
      "db' = db2\<lparr>parked := filter (\<lambda>e. pe_id e \<notin> pe_id ` set claimed) (parked db2)\<rparr>"
  using assms
  by (cases "sql_select (waits_for c k) pe_id DRAIN_LIMIT (parked db) = []")
     (auto simp: drain_pending_edges_def lock_parked_def Let_def split: sum.splits prod.splits)

lemma parked_ok_filter: "parked_ok ps s \<Longrightarrow> parked_ok (filter p ps) s"
  by (simp add: parked_ok_def distinct_map_filter)

lemma drain_ok:
  assumes "drain_pending_edges c now k db = Inr (db', n)" and "graph_ok db"
  shows "graph_ok db'"
  using assms(1)
proof (cases rule: drain_cases)
  case (run claimed ss db2)
  let ?l = "lock_parked now (map pe_id claimed) db"
  have "graph_ok ?l" using assms(2) by (rule lock_parked_ok)
  moreover have "ids_sound ?l c (resolve_missing_endpoints ?l c (map snd ss) [])"
    by (rule resolve_missing_sound) (simp add: ids_sound_def)
  ultimately have "graph_ok db2" using replay_sources_keep [OF run(4)] by blast
  then show ?thesis by (simp add: run(5) graph_ok_def parked_ok_filter)
qed (use assms(2) in simp)

text \<open>A drained row is consumed, and the edge it stood for is in the graph or waits again.\<close>

lemma written_grow: "edges_grow c db db' \<Longrightarrow> written db c e \<Longrightarrow> written db' c e"
proof -
  assume grow: "edges_grow c db db'" and "written db c e"
  then obtain g where g: "g \<in> set (edges db)" "g_customer g = c" "g_type g = edge_type_value (es_type e)"
      "((c, from_key e), g_from g) \<in> node_ids_of db'" "((c, to_key e), g_to g) \<in> node_ids_of db'"
      "or_empty (g_aliased_from g) = or_empty (es_aliased_from e)" "or_empty (g_aliased_to g) = or_empty (es_aliased_to e)"
    by (auto simp: written_def edges_grow_def)
  from grow g(1) have "edge_lane g \<in> edge_lane ` set (edges db')" by (auto simp: edges_grow_def)
  then obtain h where "h \<in> set (edges db')" "edge_lane h = edge_lane g" by force
  then show ?thesis unfolding written_def using g by (intro bexI [of _ h]) (auto simp: edge_lane_def)
qed

lemma waiting_grow: "edges_grow c db db' \<Longrightarrow> waiting db c src e \<Longrightarrow> waiting db' c src e"
  by (auto simp: waiting_def edges_grow_def find_node_absent)

lemma replay_complete:
  assumes "replay_sources c now ids srcs db = Inr (db', n)" and "ids_sound db c ids" and "(src, specs) \<in> set srcs"
    and "e \<in> set (resolve_edges (fetch_aliases db c (concat (map (\<lambda>e. [from_key e, to_key e]) specs))) specs)"
  shows "written db' c e \<or> waiting db' c src e"
  using assms
proof (induction c now ids srcs db arbitrary: n rule: replay_sources.induct)
  case (2 c now ids s ss rest db)
  let ?sm = "\<lparr>sm_source = s, sm_extractor = None, sm_extracted_at = None\<rparr>"
  obtain db1 n1 m where 1: "upsert_edges c ?sm now ss ids db = Inr (db1, n1)" and r: "replay_sources c now ids rest db1 = Inr (db', m)"
    using "2.prems"(1) by (auto split: sum.splits prod.splits)
  have grow: "edges_grow c db1 db'" using replay_sources_keep [OF r] by blast
  have sound: "ids_sound db1 c ids" using "2.prems"(2) upsert_edges_keep(1) [OF 1] by (simp add: ids_sound_def)
  have "fetch_aliases db1 c = fetch_aliases db c" using upsert_edges_keep(2) [OF 1] by (simp add: fetch_aliases_def fun_eq_iff)
  then show ?case
    using "2.prems" "2.IH" [OF 1 refl r sound] upsert_edges_complete [OF 1 "2.prems"(2)] written_grow [OF grow] waiting_grow [OF grow]
    by auto
qed simp

subsection \<open>Nothing a batch asserts is lost\<close>

text \<open>The edge a spec means: both endpoints replaced by the end of their alias chain.\<close>

definition canonical_edge :: "graph_db \<Rightarrow> string \<Rightarrow> edge_spec \<Rightarrow> edge_spec" where
  "canonical_edge db c e =
     (let r = (\<lambda>k. resolve_alias (entity_aliases db) c (fst k) (snd k));
          e1 = (case r (from_key e) of None \<Rightarrow> e | Some p \<Rightarrow> e\<lparr>es_aliased_from := Some (es_from e), es_from := p\<rparr>)
      in case r (to_key e) of None \<Rightarrow> e1 | Some p \<Rightarrow> e1\<lparr>es_aliased_to := Some (es_to e), es_to := p\<rparr>)"

lemma map_of_fetch_aliases:
  assumes "k \<in> set keys"
  shows "map_of (fetch_aliases db c keys) k = resolve_alias (entity_aliases db) c (fst k) (snd k)"
proof -
  let ?r = "\<lambda>k. resolve_alias (entity_aliases db) c (fst k) (snd k)"
  have "map_of (concat (map (\<lambda>k. case ?r k of None \<Rightarrow> [] | Some p \<Rightarrow> [(k, p)]) ks)) k = (if k \<in> set ks then ?r k else None)" for ks
    by (induction ks) (auto simp: map_add_def split: option.splits)
  from this [of "remdups keys"] show ?thesis using assms by (simp add: fetch_aliases_def)
qed

lemma resolve_edge_canonical:
  assumes "e \<in> set specs"
  shows "resolve_edge (fetch_aliases db c (concat (map (\<lambda>e. [from_key e, to_key e]) specs))) e = canonical_edge db c e"
proof -
  let ?keys = "concat (map (\<lambda>e. [from_key e, to_key e]) specs)"
  have "from_key e \<in> set ?keys" "to_key e \<in> set ?keys" using assms by auto
  then show ?thesis
    unfolding resolve_edge_def canonical_edge_def Let_def by (simp only: map_of_fetch_aliases)
qed

lemma canonical_in_batch:
  assumes "e \<in> set specs"
  shows "from_key (canonical_edge db c e) = to_key (canonical_edge db c e)
    \<or> canonical_edge db c e \<in> set (resolve_edges (fetch_aliases db c (concat (map (\<lambda>e. [from_key e, to_key e]) specs))) specs)"
proof -
  let ?am = "fetch_aliases db c (concat (map (\<lambda>e. [from_key e, to_key e]) specs))"
  have eq: "canonical_edge db c e = resolve_edge ?am e" using resolve_edge_canonical [OF assms] by simp
  show ?thesis
  proof (cases "?am = []")
    case True
    then have "resolve_edge ?am e = e" by (simp add: resolve_edge_def)
    with True assms show ?thesis by (simp add: eq resolve_edges_def)
  next
    case False
    then show ?thesis using assms by (auto simp: eq resolve_edges_def)
  qed
qed

lemma upsert_edges_accounts:
  assumes "upsert_edges c sm now specs ids db = Inr (db', n)" and "ids_sound db c ids" and "e \<in> set specs"
  shows "from_key (canonical_edge db c e) = to_key (canonical_edge db c e)
    \<or> written db' c (canonical_edge db c e) \<or> waiting db' c (sm_source sm) (canonical_edge db c e)"
  using upsert_edges_complete [OF assms(1,2)] canonical_in_batch [OF assms(3)] by blast

text \<open>Claim C5. Nothing a batch asserts is lost: after the normalizer's graph write every edge it kept is a row of the graph
  between the two nodes its alias chains end at, or a parked row on an endpoint that does not exist yet; only an edge whose
  two ends are aliases of one node is dropped. The graph stays well-formed, its degrees exact.\<close>

theorem persist_graph_loses_nothing:
  assumes "graph_ok db" and "persist_graph c src now all_docs persisted ns es db = Inr (db', n)"
  shows "graph_ok db'
    \<and> (\<forall>e \<in> set es. keep_edge all_docs persisted e \<longrightarrow>
         (let e' = canonical_edge db c e in
          from_key e' = to_key e' \<or> written db' c e' \<or> waiting db' c src e'))"
proof -
  obtain db1 ids where 1: "upsert_nodes c src now (filter (keep_node all_docs persisted es) ns) db = (db1, ids)"
    by (metis surj_pair)
  let ?sm = "\<lparr>sm_source = src, sm_extractor = None, sm_extracted_at = None\<rparr>"
  have 2: "upsert_edges c ?sm now (filter (keep_edge all_docs persisted) es) ids db1 = Inr (db', n)"
    using assms(2) 1 by (simp add: persist_graph_def)
  note nodes = upsert_nodes_keep [OF 1]
  have "canonical_edge db1 c = canonical_edge db c" using nodes(6) by (simp add: canonical_edge_def fun_eq_iff)
  then show ?thesis
    using upsert_edges_keep(4) [OF 2 nodes(2) nodes(3) [OF assms(1)]] upsert_edges_accounts [OF 2 nodes(2)] by (auto simp: Let_def)
qed

text \<open>What a row remembers of the edge it parks.\<close>

lemma spec_of_park_row:
  "spec_of_parked (park_row c src now i (e, k)) =
     Inr (e\<lparr>es_valid_to := None, es_confidence := ''EXTRACTED'', es_aliased_from := None, es_aliased_to := None\<rparr>)"
  by (simp add: spec_of_parked_def park_row_def Let_def)

lemma rebuild_spec: "rebuild ps = Inr ss \<Longrightarrow> p \<in> set ps \<Longrightarrow> \<exists>e. spec_of_parked p = Inr e \<and> (pe_source p, e) \<in> set ss"
  by (induction ps arbitrary: ss) (auto split: sum.splits)

lemma by_source_mem: "(src, e) \<in> set ss \<Longrightarrow> \<exists>specs. (src, specs) \<in> set (by_source ss) \<and> e \<in> set specs"
  by (force simp: by_source_def)

lemma drain_accounts:
  assumes run: "drain_pending_edges c now k db = Inr (db', n)" and ok: "graph_ok db"
    and p: "p \<in> set (sql_select (waits_for c k) pe_id DRAIN_LIMIT (parked db))"
  shows "pe_id p \<notin> pe_id ` set (parked db')
    \<and> (\<exists>e. spec_of_parked p = Inr e
         \<and> (let e' = canonical_edge db c e in from_key e' = to_key e' \<or> written db' c e' \<or> waiting db' c (pe_source p) e'))"
  using run
proof (cases rule: drain_cases)
  case idle
  with p show ?thesis by simp
next
  case (run claimed ss db2)
  let ?l = "lock_parked now (map pe_id claimed) db"
  obtain e specs where e: "spec_of_parked p = Inr e" "(pe_source p, specs) \<in> set (by_source ss)" "e \<in> set specs"
    using rebuild_spec [OF run(3)] by_source_mem p run(1) by blast
  have sound: "ids_sound ?l c (resolve_missing_endpoints ?l c (map snd ss) [])"
    by (rule resolve_missing_sound) (simp add: ids_sound_def)
  have same: "canonical_edge ?l c = canonical_edge db c" by (simp add: canonical_edge_def fun_eq_iff)
  let ?e = "canonical_edge db c e"
  have grow: "edges_grow c ?l db2" using replay_sources_keep [OF run(4)] by blast
  have settled: "from_key ?e = to_key ?e \<or> written db2 c ?e \<or> waiting db2 c (pe_source p) ?e"
    using replay_complete [OF run(4) sound e(2)] canonical_in_batch [OF e(3), of ?l c] same by auto
  have locked: "pe_locked_until q \<noteq> None" if "q \<in> set (parked db2)" "pe_id q \<in> pe_id ` set claimed" for q
    using that grow ok set_sql_select_subset run(1)
    by (fastforce simp: edges_grow_def lock_parked_def graph_ok_def parked_ok_def sql_simps)
  have "set (filter (\<lambda>q. pe_locked_until q = None) (parked db2)) \<subseteq> set (parked db')"
  proof
    fix q assume "q \<in> set (filter (\<lambda>q. pe_locked_until q = None) (parked db2))"
    then have "q \<in> set (parked db2)" "pe_id q \<notin> pe_id ` set claimed" using locked [of q] by auto
    then show "q \<in> set (parked db')" by (simp add: run(5))
  qed
  moreover have "find_node db' c k = find_node db2 c k" for k by (simp add: find_node_def run(5))
  ultimately have "waiting db2 c (pe_source p) ?e \<Longrightarrow> waiting db' c (pe_source p) ?e"
    unfolding waiting_def by (elim bexE, intro bexI) (assumption | simp only: | auto)+
  moreover have "written db2 c ?e \<Longrightarrow> written db' c ?e" by (simp add: written_def run(5) node_ids_of_def)
  moreover have "pe_id p \<notin> pe_id ` set (parked db')" 
  proof -
    have "pe_id p \<in> pe_id ` set claimed" using p unfolding run(1) by (rule imageI)
    then have "pe_id q \<noteq> pe_id p" if "q \<in> set (parked db')" for q using that by (auto simp: run(5))
    then show ?thesis by (metis (no_types, lifting) imageE)
  qed
  ultimately show ?thesis unfolding Let_def using settled e(1) by blast
qed

subsection \<open>The post-write queue covers every wait that can end\<close>

definition queued :: "graph_db \<Rightarrow> string \<Rightarrow> int \<Rightarrow> bool" where
  "queued db c i \<longleftrightarrow> (\<exists>r \<in> set (post_write db). pw_customer r = c \<and> pw_node r = i)"

definition covered :: "graph_db \<Rightarrow> bool" where
  "covered db \<longleftrightarrow>
     (\<forall>p \<in> set (parked db). pe_locked_until p = None \<longrightarrow>
        (\<forall>i. ((pe_customer p, pe_missing_label p, pe_missing p), i) \<in> node_ids_of db \<longrightarrow> queued db (pe_customer p) i))"

lemma queued_view: "queued db c i \<longleftrightarrow> (c, i) \<in> (\<lambda>r. (pw_customer r, pw_node r)) ` set (post_write db)"
  by (force simp: queued_def)

lemma queued_enqueue: "queued (enqueue_post_write c now j db) c' i \<longleftrightarrow> queued db c' i \<or> (c' = c \<and> i = j)"
proof -
  let ?key = "\<lambda>r. (pw_customer r, pw_node r)"
  let ?u = "sql_update (\<lambda>r. pw_customer r = c \<and> pw_node r = j)
    (\<lambda>r. r\<lparr>pw_status := JObj [], pw_enqueued := now, pw_locked_until := None\<rparr>) (post_write db)"
  have "map ?key ?u = map ?key (post_write db)" by (rule map_sql_update) simp
  from arg_cong [OF this, of set] have same: "?key ` set ?u = ?key ` set (post_write db)" by (simp only: set_map)
  have "?key ` set (post_write (enqueue_post_write c now j db)) = insert (c, j) (?key ` set (post_write db))"
  proof (cases "queued db c j")
    case True
    then have "post_write (enqueue_post_write c now j db) = ?u" by (simp add: enqueue_post_write_def queued_def)
    then show ?thesis using same True queued_view by (simp add: insert_absorb)
  next
    case False
    then show ?thesis by (auto simp: enqueue_post_write_def queued_def)
  qed
  then show ?thesis unfolding queued_view by (simp only: insert_iff prod.inject) blast
qed

lemma queued_fold_enqueue: "queued (fold (enqueue_post_write c now) js db) c' i \<longleftrightarrow> queued db c' i \<or> (c' = c \<and> i \<in> set js)"
  by (induction js arbitrary: db) (auto simp: queued_enqueue)

text \<open>Only keys of the batch get a new node.\<close>

lemma node_row_new:
  "upsert_node_row c now kp db = (db', r) \<Longrightarrow> ((c', k), i) \<in> node_ids_of db' \<Longrightarrow> ((c', k), i) \<in> node_ids_of db \<or> (c' = c \<and> k = fst kp)"
proof (cases r)
  case (fields k' i' ch)
  assume run: "upsert_node_row c now kp db = (db', r)" and mem: "((c', k), i) \<in> node_ids_of db'"
  from run [unfolded fields] show ?thesis
  proof (cases rule: upsert_node_row_cases)
    case (old n p)
    then show ?thesis
      using mem by (simp add: node_ids_of_def node_ids_update [of "\<lambda>m. node_key m = (c, fst kp)" "\<lambda>m. m\<lparr>n_props := p, n_updated := now\<rparr>"])
  next
    case (new n)
    then show ?thesis using mem by (auto simp: node_ids_of_def)
  qed
qed

lemma node_rows_new:
  "upsert_node_rows c now kps db = (db', rs) \<Longrightarrow> ((c', k), i) \<in> node_ids_of db'
   \<Longrightarrow> ((c', k), i) \<in> node_ids_of db \<or> (c' = c \<and> k \<in> fst ` set kps)"
proof (induction kps arbitrary: db rs)
  case (Cons kp kps)
  obtain db1 r rs' where 1: "upsert_node_row c now kp db = (db1, r)" and 2: "upsert_node_rows c now kps db1 = (db', rs')"
    using Cons.prems by (auto split: prod.splits)
  from Cons.IH [OF 2 Cons.prems(2)] node_row_new [OF 1, of c' k i] show ?case by auto
qed simp

lemma node_ids_unique: "graph_ok db \<Longrightarrow> (k, i) \<in> node_ids_of db \<Longrightarrow> (k, j) \<in> node_ids_of db \<Longrightarrow> i = j"
  using distinct_key_eq [of node_key "nodes db"] by (force simp: graph_ok_def nodes_ok_def node_ids_of_def)

lemma upsert_nodes_covered:
  assumes run: "upsert_nodes c src now specs db = (db', res)" and ok: "graph_ok db" and cov: "covered db"
  shows "covered db'"
proof (cases "specs = []")
  case True
  with assms show ?thesis by (simp add: upsert_nodes_def)
next
  case False
  let ?kps = "sort_key fst (dedupe_nodes [] (map (resolve_node
      (fetch_aliases db c (map (\<lambda>n. (label_value (ns_label n), ns_canonical n)) specs))) specs))"
  obtain db1 rows where 1: "upsert_node_rows c now ?kps db = (db1, rows)" by (metis surj_pair)
  let ?db2 = "fold (add_provenance c src now) (sort (map (snd \<circ> (\<lambda>(k, i, _). (k, i))) rows)) db1"
  let ?ids = "sort (map (\<lambda>(k, i, _). i) (filter (\<lambda>(k, _, ch). ch \<or> (\<exists>e \<in> set (parked ?db2). waits_for c k e)) rows))"
  have db': "db' = fold (enqueue_post_write c now) ?ids ?db2"
    using run False 1 by (auto simp: upsert_nodes_def Let_def)
  note keep = node_rows_keep [OF 1]
  have pk: "parked ?db2 = parked db" "post_write ?db2 = post_write db" using keep by (simp_all only: fold_provenance)
  have ids: "node_ids_of db' = node_ids_of db1" by (simp add: db' node_ids_of_def)
  show ?thesis unfolding covered_def
  proof (intro ballI impI allI)
    fix p i assume p: "p \<in> set (parked db')" "pe_locked_until p = None"
      and i: "((pe_customer p, pe_missing_label p, pe_missing p), i) \<in> node_ids_of db'"
    let ?k = "(pe_missing_label p, pe_missing p)"
    have p': "p \<in> set (parked db)" using p keep by (simp add: db')
    show "queued db' (pe_customer p) i"
    proof (cases "((pe_customer p, ?k), i) \<in> node_ids_of db")
      case True
      then have "queued db (pe_customer p) i" using cov p p' unfolding covered_def by blast
      then have "queued ?db2 (pe_customer p) i" unfolding queued_def pk(2) .
      then show ?thesis unfolding db' queued_fold_enqueue ..
    next
      case False
      then have c: "pe_customer p = c" and "?k \<in> fst ` set ?kps" using node_rows_new [OF 1] i unfolding ids by blast+
      then have "?k \<in> fst ` set rows" using keep by (metis list.set_map)
      then obtain j ch where row: "(?k, j, ch) \<in> set rows" by force
      then have "((c, ?k), j) \<in> node_ids_of db1" using keep by fastforce
      then have "j = i" using node_ids_unique [of db1] keep ok i unfolding ids c by blast
      moreover have "\<exists>e \<in> set (parked ?db2). waits_for c ?k e" using p' p(2) c unfolding pk(1) waits_for_def by blast
      ultimately have "i \<in> set ?ids" using row by force
      then show ?thesis unfolding db' queued_fold_enqueue using c by blast
    qed
  qed
qed

lemma edges_grow_covered: "edges_grow c db db' \<Longrightarrow> covered db \<Longrightarrow> covered db'"
proof -
  assume grow: "edges_grow c db db'" and cov: "covered db"
  then obtain new where new: "parked db' = parked db @ new" "\<forall>p \<in> set new. pe_customer p = c \<and> find_node db' c (pe_missing_label p, pe_missing p) = None"
      and same: "node_ids_of db' = node_ids_of db" "post_write db' = post_write db"
    by (auto simp: edges_grow_def)
  show ?thesis unfolding covered_def queued_def same(2)
    using cov new same by (auto simp: covered_def queued_def find_node_absent)
qed

text \<open>What is parked after a drain: old rows it did not claim, and rows that wait for an absent node.\<close>

lemma drain_parked:
  assumes run: "drain_pending_edges c now k db = Inr (db', n)" and ok: "graph_ok db"
  shows "node_ids_of db' = node_ids_of db \<and> post_write db' = post_write db
    \<and> (\<forall>p \<in> set (parked db'). (p \<in> set (parked db) \<and> p \<notin> set (sql_select (waits_for c k) pe_id DRAIN_LIMIT (parked db)))
         \<or> (pe_customer p = c \<and> find_node db' c (pe_missing_label p, pe_missing p) = None))"
  using run
proof (cases rule: drain_cases)
  case idle
  then show ?thesis by simp
next
  case (run claimed ss db2)
  let ?l = "lock_parked now (map pe_id claimed) db"
  have "edges_grow c ?l db2" using replay_sources_keep [OF run(4)] by blast
  then obtain new where new: "parked db2 = parked ?l @ new"
      "\<forall>p \<in> set new. pe_customer p = c \<and> find_node db2 c (pe_missing_label p, pe_missing p) = None"
    and same: "node_ids_of db2 = node_ids_of db" "post_write db2 = post_write db"
    by (auto simp: edges_grow_def)
  have "node_ids_of db' = node_ids_of db" "post_write db' = post_write db" using same by (simp_all add: run(5) node_ids_of_def)
  moreover have "find_node db' c k' = find_node db2 c k'" for k' by (simp add: run(5) find_node_def)
  moreover have "p \<in> set new \<or> (p \<in> set (parked db) \<and> p \<notin> set claimed)" if "p \<in> set (parked db')" for p
    using that new(1) by (auto simp: run(5) lock_parked_def sql_simps)
  ultimately show ?thesis using new(2) unfolding run(1) [symmetric] by metis
qed

lemma drain_covered:
  assumes run: "drain_pending_edges c now k db = Inr (db', n)" and ok: "graph_ok db" and cov: "covered db"
  shows "covered db'"
  unfolding covered_def
proof (intro ballI impI allI)
  note d = drain_parked [OF run ok]
  fix p i assume p: "p \<in> set (parked db')" "pe_locked_until p = None"
    and i: "((pe_customer p, pe_missing_label p, pe_missing p), i) \<in> node_ids_of db'"
  have "p \<in> set (parked db)" using d p(1) i by (auto simp: find_node_absent)
  then have "queued db (pe_customer p) i" using cov p(2) i d unfolding covered_def by auto
  then show "queued db' (pe_customer p) i" using d by (simp add: queued_def)
qed

lemma length_sql_select_all: "length (filter p t) \<le> n \<Longrightarrow> x \<in> set t \<Longrightarrow> p x \<Longrightarrow> x \<in> set (sql_select p k n t)"
  by (simp add: sql_select_def)

lemma drain_ends_waits:
  assumes "drain_pending_edges c now k db = Inr (db', n)" and "graph_ok db"
    and "length (filter (waits_for c k) (parked db)) \<le> DRAIN_LIMIT" and "find_node db c k \<noteq> None"
  shows "\<forall>p \<in> set (parked db'). \<not> waits_for c k p"
proof
  note d = drain_parked [OF assms(1,2)]
  fix p assume p: "p \<in> set (parked db')"
  show "\<not> waits_for c k p"
  proof
    assume w: "waits_for c k p"
    from d p consider "p \<in> set (parked db)" "p \<notin> set (sql_select (waits_for c k) pe_id DRAIN_LIMIT (parked db))"
      | "find_node db' c (pe_missing_label p, pe_missing p) = None" by metis
    then show False
    proof cases
      case 1
      then show False using length_sql_select_all [OF assms(3) _ w] by blast
    next
      case 2
      moreover have "find_node db' c k \<noteq> None" using assms(4) d by (simp add: find_node_absent)
      ultimately show False using w by (simp add: waits_for_def)
    qed
  qed
qed

subsection \<open>The contract of a graph operation\<close>

text \<open>The state after a transaction: an error rolls back.\<close>

definition commit :: "graph_db \<Rightarrow> graph_error + (graph_db \<times> 'a) \<Rightarrow> graph_db" where
  "commit db r = (case r of Inl _ \<Rightarrow> db | Inr (db', _) \<Rightarrow> db')"

definition nobody_waits :: "graph_db \<Rightarrow> string \<Rightarrow> nkey \<Rightarrow> bool" where
  "nobody_waits db c k \<longleftrightarrow> (\<forall>p \<in> set (parked db). \<not> waits_for c k p)"

locale graph_op =
  fixes f :: "graph_db \<Rightarrow> graph_db"
  assumes keeps_ok: "graph_ok db \<Longrightarrow> graph_ok (f db)"
    and keeps_cover: "graph_ok db \<Longrightarrow> covered db \<Longrightarrow> covered (f db)"
    and keeps_nodes: "graph_ok db \<Longrightarrow> node_ids_of db \<subseteq> node_ids_of (f db)"
    and no_new_wait: "graph_ok db \<Longrightarrow> nobody_waits db c k \<Longrightarrow> find_node db c k \<noteq> None \<Longrightarrow> nobody_waits (f db) c k"
begin

lemma keeps_found: "graph_ok db \<Longrightarrow> find_node db c k \<noteq> None \<Longrightarrow> find_node (f db) c k \<noteq> None"
  using keeps_nodes [of db] by (auto simp: find_node_absent)

lemma iterate: "graph_ok db \<Longrightarrow> covered db \<Longrightarrow> graph_ok ((f ^^ n) db) \<and> covered ((f ^^ n) db) \<and> node_ids_of db \<subseteq> node_ids_of ((f ^^ n) db)"
proof (induction n)
  case (Suc n)
  then show ?case using keeps_ok keeps_cover keeps_nodes [of "(f ^^ n) db"] by auto
qed simp

end

lemma upsert_nodes_waits: "upsert_nodes c' src now specs db = (db', res) \<Longrightarrow> nobody_waits db c k \<Longrightarrow> nobody_waits db' c k"
  using upsert_nodes_keep(5) [of c' src now specs db db' res] by (simp add: nobody_waits_def)

lemma edges_grow_waits:
  assumes "edges_grow c' db db'" and "nobody_waits db c k" and "find_node db c k \<noteq> None"
  shows "nobody_waits db' c k"
proof -
  from assms(1) obtain new where new: "parked db' = parked db @ new"
      "\<forall>p \<in> set new. pe_customer p = c' \<and> find_node db' c' (pe_missing_label p, pe_missing p) = None"
      and same: "node_ids_of db' = node_ids_of db"
    by (auto simp: edges_grow_def)
  have "find_node db' c k \<noteq> None" using assms(3) same by (simp add: find_node_absent)
  then have "\<not> waits_for c k p" if "p \<in> set new" for p using new(2) that by (auto simp: waits_for_def)
  then show ?thesis using assms(2) new(1) by (auto simp: nobody_waits_def)
qed

text \<open>A transaction is an operation when its successful runs are.\<close>

definition run_keeps :: "graph_db \<Rightarrow> graph_db \<Rightarrow> bool" where
  "run_keeps db db' \<longleftrightarrow>
     graph_ok db' \<and> (covered db \<longrightarrow> covered db') \<and> node_ids_of db \<subseteq> node_ids_of db'
     \<and> (\<forall>c k. nobody_waits db c k \<longrightarrow> find_node db c k \<noteq> None \<longrightarrow> nobody_waits db' c k)"

lemma graph_op_commit:
  assumes "\<And>db db' x. graph_ok db \<Longrightarrow> f db = Inr (db', x) \<Longrightarrow> run_keeps db db'"
  shows "graph_op (\<lambda>db. commit db (f db))"
proof
  fix db assume ok: "graph_ok db"
  have "run_keeps db (commit db (f db))"
  proof (cases "f db")
    case (Inl x)
    then show ?thesis using ok by (simp add: commit_def run_keeps_def)
  next
    case (Inr r)
    then show ?thesis using assms [OF ok, of "fst r" "snd r"] by (cases r) (simp add: commit_def)
  qed
  then show "graph_ok (commit db (f db))" "covered db \<Longrightarrow> covered (commit db (f db))"
    "node_ids_of db \<subseteq> node_ids_of (commit db (f db))"
    "\<And>c k. nobody_waits db c k \<Longrightarrow> find_node db c k \<noteq> None \<Longrightarrow> nobody_waits (commit db (f db)) c k"
    by (auto simp: run_keeps_def)
qed

lemma run_keeps_trans:
  assumes "run_keeps a b" and "run_keeps b d"
  shows "run_keeps a d"
proof -
  have "find_node b c k \<noteq> None" if "find_node a c k \<noteq> None" for c k
    using that assms(1) by (auto simp: run_keeps_def find_node_absent)
  with assms show ?thesis unfolding run_keeps_def by blast
qed

lemma upsert_nodes_run: "graph_ok db \<Longrightarrow> upsert_nodes c src now specs db = (db', res) \<Longrightarrow> run_keeps db db'"
  unfolding run_keeps_def using upsert_nodes_keep(1,3) upsert_nodes_covered upsert_nodes_waits by metis

lemma upsert_edges_run:
  "graph_ok db \<Longrightarrow> ids_sound db c ids \<Longrightarrow> upsert_edges c sm now specs ids db = Inr (db', n) \<Longrightarrow> run_keeps db db'"
  unfolding run_keeps_def
  using upsert_edges_keep(1,4) upsert_edges_edges_grow edges_grow_covered edges_grow_waits by (metis order_refl)

interpretation persist: graph_op "\<lambda>db. commit db (persist_graph c src now all_docs persisted ns es db)"
  for c src now all_docs persisted ns es
proof (rule graph_op_commit)
  fix db db' x assume ok: "graph_ok db" and run: "persist_graph c src now all_docs persisted ns es db = Inr (db', x)"
  obtain db1 ids where 1: "upsert_nodes c src now (filter (keep_node all_docs persisted es) ns) db = (db1, ids)" by (metis surj_pair)
  have "run_keeps db db1" using upsert_nodes_run [OF ok 1] .
  moreover have "run_keeps db1 db'"
    using upsert_edges_run [OF upsert_nodes_keep(3) [OF 1 ok] upsert_nodes_keep(2) [OF 1]] run 1 by (simp add: persist_graph_def)
  ultimately show "run_keeps db db'" by (rule run_keeps_trans)
qed

interpretation drain: graph_op "\<lambda>db. commit db (drain_pending_edges c now k db)" for c now k
proof (rule graph_op_commit)
  fix db db' x assume ok: "graph_ok db" and run: "drain_pending_edges c now k db = Inr (db', x)"
  note d = drain_parked [OF run ok]
  have "nobody_waits db' c' k'" if "nobody_waits db c' k'" "find_node db c' k' \<noteq> None" for c' k'
    unfolding nobody_waits_def
  proof
    fix p assume "p \<in> set (parked db')"
    with d consider "p \<in> set (parked db)" | "pe_customer p = c" "find_node db' c (pe_missing_label p, pe_missing p) = None" by metis
    then show "\<not> waits_for c' k' p"
    proof cases
      case 1
      then show ?thesis using that(1) by (simp add: nobody_waits_def)
    next
      case 2
      then show ?thesis using that(2) d by (auto simp: waits_for_def find_node_absent)
    qed
  qed
  then show "run_keeps db db'"
    unfolding run_keeps_def using drain_ok [OF run ok] drain_covered [OF run ok] d by simp
qed

interpretation reap: graph_op "\<lambda>db. fst (reap_expired_pending_edges c now db)" for c now
  by unfold_locales
    (auto simp: reap_expired_pending_edges_def graph_ok_def parked_ok_filter covered_def queued_def node_ids_of_def nobody_waits_def)

lemma drop_degrees_rows:
  assumes "n' \<in> set (drop_degrees c gone ns)"
  obtains n where "n \<in> set ns" "n_id n' = n_id n" "n_customer n' = n_customer n"
    "n_degree n' = (if n_customer n = c \<and> 0 < edge_ends gone (n_id n) then max (n_degree n - int (edge_ends gone (n_id n))) 0 else n_degree n)"
  using assms unfolding drop_degrees_def by (rule sql_update_memE) (auto split: if_splits)

lemma delete_edges_ok:
  assumes ok: "graph_ok db"
  shows "graph_ok (fst (delete_edges_from_node c l cid ty keep db))"
proof (cases "find_node db c (label_value l, cid)")
  case None
  then show ?thesis using ok by (simp add: delete_edges_from_node_def)
next
  case (Some m)
  let ?p = "leaves c (edge_type_value ty) (n_id m) keep"
  let ?gone = "filter ?p (edges db)" let ?es = "filter (\<lambda>g. \<not> ?p g) (edges db)" let ?ns = "drop_degrees c ?gone (nodes db)"
  have view: "(\<lambda>n. (node_key n, n_id n)) ` set ?ns = (\<lambda>n. (node_key n, n_id n)) ` set (nodes db)"
    unfolding drop_degrees_def by (rule node_ids_update) simp
  then have he: "has_end ?ns = has_end (nodes db)" by (simp add: has_end_view fun_eq_iff)
  have other: "edge_ends ?gone (n_id n) = 0" if "n \<in> set (nodes db)" "n_customer n \<noteq> c" for n
  proof -
    have "has_end (nodes db) c (g_from g) \<and> has_end (nodes db) c (g_to g)" if "g \<in> set ?gone" for g
      using that ok by (auto simp: graph_ok_def ends_ok_def leaves_def)
    then show ?thesis
      using that distinct_key_eq [of n_id "nodes db" n] ok unfolding edge_ends_0_iff has_end_def graph_ok_def nodes_ok_def by metis
  qed
  have deg: "degrees_exact ?ns ?es" unfolding degrees_exact_def
  proof
    fix n' assume "n' \<in> set ?ns"
    then obtain n where n: "n \<in> set (nodes db)" "n_id n' = n_id n"
      "n_degree n' = (if n_customer n = c \<and> 0 < edge_ends ?gone (n_id n) then max (n_degree n - int (edge_ends ?gone (n_id n))) 0 else n_degree n)"
      by (rule drop_degrees_rows)
    moreover have "n_degree n = int (edge_ends (edges db) (n_id n))" using ok n(1) by (simp add: graph_ok_def degrees_exact_def)
    ultimately show "n_degree n' = int (edge_ends ?es (n_id n'))"
      using other [OF n(1)] edge_ends_split [of ?p "edges db" "n_id n"] by auto
  qed
  have "nodes_ok ?ns (node_seq db)"
    unfolding drop_degrees_def using ok by (intro nodes_ok_update [where seq = "node_seq db"]) (auto simp: graph_ok_def)
  moreover have "ends_ok ?ns ?es" using ok he by (auto simp: graph_ok_def ends_ok_def)
  moreover have "edges_ok ?es" using ok by (auto simp: graph_ok_def edges_ok_def distinct_map_filter)
  ultimately show ?thesis using ok Some deg by (simp add: delete_edges_from_node_def Let_def graph_ok_def)
qed

interpretation delete_edges: graph_op "\<lambda>db. fst (delete_edges_from_node c l cid ty keep db)" for c l cid ty keep
proof
  fix db assume ok: "graph_ok db"
  let ?d = "fst (delete_edges_from_node c l cid ty keep db)"
  show "graph_ok ?d" using ok by (rule delete_edges_ok)
  have ids: "node_ids_of ?d = node_ids_of db"
    by (auto simp: delete_edges_from_node_def Let_def node_ids_of_def drop_degrees_def node_ids_update split: option.splits)
  then show "node_ids_of db \<subseteq> node_ids_of ?d" by simp
  have "parked ?d = parked db" "post_write ?d = post_write db"
    by (simp_all add: delete_edges_from_node_def Let_def split: option.splits)
  then show "covered db \<Longrightarrow> covered ?d" "\<And>c k. nobody_waits db c k \<Longrightarrow> find_node db c k \<noteq> None \<Longrightarrow> nobody_waits ?d c k"
    using ids by (auto simp: covered_def queued_def nobody_waits_def)
qed

subsection \<open>A drain succeeds\<close>

text \<open>The INSERT of a drain can violate no constraint: a replayed edge has a valid tier and both endpoints were just read.
  So a drain fails only on a label or type the enums no longer know.\<close>

lemma stronger_valid: "valid_confidence a \<Longrightarrow> valid_confidence b \<Longrightarrow> valid_confidence (stronger_confidence a b)"
  by (auto simp: stronger_confidence_def)

lemma split_edges_valid:
  "split_edges ids d park es = (d', park') \<Longrightarrow> \<forall>km \<in> set d. valid_confidence (em_confidence (snd km))
   \<Longrightarrow> \<forall>e \<in> set es. valid_confidence (es_confidence e) \<Longrightarrow> \<forall>km \<in> set d'. valid_confidence (em_confidence (snd km))"
proof (induction es arbitrary: d park)
  case (Cons e es)
  show ?case
  proof (cases "lane_of ids e")
    case None
    then show ?thesis
      using Cons.IH [of d "park @ [(e, missing_key ids e)]"] Cons.prems by (simp add: split_edges_step del: split_edges.simps)
  next
    case (Some key)
    let ?d = "dict_set key (merge_edge (map_of d key) e) d"
    have "valid_confidence (em_confidence (merge_edge (map_of d key) e))"
      using Cons.prems(2,3) by (auto simp: merge_edge_def stronger_valid split: option.splits dest!: map_of_SomeD)
    then have "\<forall>km \<in> set ?d. valid_confidence (em_confidence (snd km))"
      using set_dict_set_subset [of key "merge_edge (map_of d key) e" d] Cons.prems(2) by fastforce
    then show ?thesis using Cons.IH [of ?d park] Cons.prems Some by (simp add: split_edges_step del: split_edges.simps)
  qed
qed simp

lemma resolve_edge_confidence [simp]: "es_confidence (resolve_edge am e) = es_confidence e"
  by (simp add: resolve_edge_def Let_def split: option.splits)

lemma upsert_edges_succeeds:
  assumes "graph_ok db" and "ids_sound db c ids" and "\<forall>e \<in> set specs. valid_confidence (es_confidence e)"
  shows "\<exists>r. upsert_edges c sm now specs ids db = Inr r"
proof (cases "specs = []")
  case False
  let ?am = "fetch_aliases db c (concat (map (\<lambda>e. [from_key e, to_key e]) specs))"
  let ?es = "resolve_edges ?am specs" let ?ids = "resolve_missing_endpoints db c ?es ids"
  obtain d park where s: "split_edges ?ids [] [] ?es = (d, park)" by (rule prod.exhaust)
  have "\<forall>e \<in> set ?es. valid_confidence (es_confidence e)" using assms(3) by (auto simp: resolve_edges_def)
  then have conf: "\<forall>km \<in> set d. valid_confidence (em_confidence (snd km))" using split_edges_valid [OF s] by simp
  have sound: "ids_sound db c ?ids" using assms(2) by (rule resolve_missing_sound)
  have "fst (snd (fst km)) \<in> n_id ` set (nodes db) \<and> fst (snd (snd (fst km))) \<in> n_id ` set (nodes db)" if "km \<in> set d" for km
  proof -
    from that obtain e where "lane_of ?ids e = Some (fst km)" using split_edges_lanes [OF s] by fastforce
    from lane_of_ends [OF sound this] have "fst (snd (fst km)) \<in> snd ` node_ids_of db" "fst (snd (snd (fst km))) \<in> snd ` node_ids_of db"
      by (metis image_eqI snd_conv)+
    then show ?thesis by (simp add: node_ids_of_def image_image)
  qed
  then have "edge_checks (nodes db) d = None" using conf unfolding edge_checks_def by (metis (mono_tags, lifting))
  then show ?thesis using False s by (simp add: upsert_edges_def Let_def)
qed (simp add: upsert_edges_def)

lemma replay_succeeds:
  "graph_ok db \<Longrightarrow> ids_sound db c ids \<Longrightarrow> \<forall>ss \<in> set srcs. \<forall>e \<in> set (snd ss). valid_confidence (es_confidence e)
   \<Longrightarrow> \<exists>r. replay_sources c now ids srcs db = Inr r"
proof (induction srcs arbitrary: db)
  case (Cons ss srcs)
  let ?sm = "\<lparr>sm_source = fst ss, sm_extractor = None, sm_extracted_at = None\<rparr>"
  obtain db1 n where 1: "upsert_edges c ?sm now (snd ss) ids db = Inr (db1, n)"
    using upsert_edges_succeeds [OF Cons.prems(1,2), of "snd ss" ?sm now] Cons.prems(3) by (metis list.set_intros(1) surj_pair)
  have "graph_ok db1" using upsert_edges_keep(4) [OF 1 Cons.prems(2,1)] .
  moreover have "ids_sound db1 c ids" using Cons.prems(2) upsert_edges_keep(1) [OF 1] by (simp add: ids_sound_def)
  ultimately obtain r where "replay_sources c now ids srcs db1 = Inr r" using Cons.IH [of db1] Cons.prems(3)
    by (metis list.set_intros(2))
  with 1 show ?case by (cases ss, cases r) auto
qed simp

lemma rebuild_succeeds: "\<forall>p \<in> set ps. \<exists>e. spec_of_parked p = Inr e \<Longrightarrow> \<exists>ss. rebuild ps = Inr ss"
  by (induction ps) (auto split: sum.splits)

lemma rebuild_confidence: "rebuild ps = Inr ss \<Longrightarrow> \<forall>s \<in> set ss. es_confidence (snd s) = ''EXTRACTED''"
  by (induction ps arbitrary: ss) (auto simp: spec_of_parked_def split: sum.splits option.splits)

lemma drain_succeeds:
  assumes "graph_ok db" and "\<And>p. p \<in> set (parked db) \<Longrightarrow> waits_for c k p \<Longrightarrow> \<exists>e. spec_of_parked p = Inr e"
  shows "\<exists>r. drain_pending_edges c now k db = Inr r"
proof (cases "sql_select (waits_for c k) pe_id DRAIN_LIMIT (parked db) = []")
  case False
  let ?cl = "sql_select (waits_for c k) pe_id DRAIN_LIMIT (parked db)"
  let ?l = "lock_parked now (map pe_id ?cl) db"
  obtain ss where ss: "rebuild ?cl = Inr ss" using rebuild_succeeds [of ?cl] assms(2) set_sql_select_subset by metis
  have "ids_sound ?l c (resolve_missing_endpoints ?l c (map snd ss) [])"
    by (rule resolve_missing_sound) (simp add: ids_sound_def)
  moreover have "\<forall>s \<in> set (by_source ss). \<forall>e \<in> set (snd s). valid_confidence (es_confidence e)"
    using rebuild_confidence [OF ss] by (auto simp: by_source_def valid_confidence_def)
  ultimately obtain r where "replay_sources c now (resolve_missing_endpoints ?l c (map snd ss) []) (by_source ss) ?l = Inr r"
    using replay_succeeds [OF lock_parked_ok [OF assms(1)]] by blast
  then show ?thesis using False ss by (cases r) (simp add: drain_pending_edges_def lock_parked_def)
qed (simp add: drain_pending_edges_def)

end
