(* ===== verification/PostWrite.thy ===== *)
theory PostWrite
  imports GraphParking
begin

section \<open>The post-write worker\<close>

text \<open>
  \<^verbatim>\<open>engine/ingest/post_write/worker.py\<close>: the loop over \<^verbatim>\<open>node_post_write_queue\<close>. One pass claims a row, embeds the
  node and drains the edges that wait for it in one transaction, runs the auto-merge analyzer in another, and then deletes
  the row, defers it or records the failure; each of these writes applies only while the row is the one that was claimed
  (\<^verbatim>\<open>enqueued_at\<close> unchanged). The embedder, the analyzer, what other transactions commit between the
  transactions of the pass and the process clock are the fields of \<open>post_world\<close>. \<^verbatim>\<open>active\<close> is the
  active-tenant test of \<open>Sources\<close>. Delays are in seconds.
\<close>

subsection \<open>Status of a row\<close>

definition MAX_ATTEMPTS :: int where "MAX_ATTEMPTS = 3"
definition LOCK_SECONDS :: int where "LOCK_SECONDS = 300"
definition DUE_EVERY :: nat where "DUE_EVERY = 20"
definition REAP_INTERVAL_SECONDS :: int where "REAP_INTERVAL_SECONDS = 600"
definition AUTO_MERGE_RETRY_SECONDS :: int where "AUTO_MERGE_RETRY_SECONDS = 300"
definition AUTO_MERGE_RETRY_MAX_SECONDS :: int where "AUTO_MERGE_RETRY_MAX_SECONDS = 3600"
definition AUTO_MERGE_MAX_DEFERRALS :: int where "AUTO_MERGE_MAX_DEFERRALS = 12"

text \<open>A counter under \<^verbatim>\<open>auto_merge\<close>, 0 when absent. Only the worker writes the column, and it writes ints.\<close>

definition merge_counter :: "json \<Rightarrow> string \<Rightarrow> int" where
  "merge_counter st name =
     (case obj_get (get_or_null st ''auto_merge'') name of Some (JInt n) \<Rightarrow> n | _ \<Rightarrow> 0)"

record merge_result =
  mr_action :: string
  mr_judge_called :: bool
  mr_retry_after :: "int option"
  mr_error :: "string option"

definition status_json :: "string \<Rightarrow> int \<Rightarrow> (string \<times> json) list \<Rightarrow> string \<Rightarrow> json" where
  "status_json s attempts counters err =
     JObj [(''auto_merge'', JObj ((''status'', JStr s) # (''attempts'', JInt attempts) # counters @ [(''last_error'', JStr (take 240 err))]))]"

subsection \<open>Claiming\<close>

definition fresh_row :: "(string \<Rightarrow> bool) \<Rightarrow> post_write_row \<Rightarrow> bool" where
  "fresh_row active r \<longleftrightarrow>
     pw_locked_until r = None \<and> merge_counter (pw_status r) ''attempts'' < MAX_ATTEMPTS \<and> active (pw_customer r)"

definition due_row :: "(string \<Rightarrow> bool) \<Rightarrow> time \<Rightarrow> post_write_row \<Rightarrow> bool" where
  "due_row active now r \<longleftrightarrow>
     (\<exists>t. pw_locked_until r = Some t \<and> t < now) \<and> merge_counter (pw_status r) ''attempts'' < MAX_ATTEMPTS \<and> active (pw_customer r)"

definition the_row :: "string \<Rightarrow> int \<Rightarrow> post_write_row \<Rightarrow> bool" where
  "the_row c i r \<longleftrightarrow> pw_customer r = c \<and> pw_node r = i"

text \<open>\<open>claims\<close> is \<^verbatim>\<open>self._claims\<close> after the increment, \<open>skip\<close> the rows another session holds locked.\<close>

definition post_claim ::
  "(string \<Rightarrow> bool) \<Rightarrow> (post_write_row \<Rightarrow> bool) \<Rightarrow> nat \<Rightarrow> time \<Rightarrow> graph_db \<Rightarrow> graph_db \<times> post_write_row option" where
  "post_claim active skip claims now db =
     (let fresh = fetchrow (sql_select (\<lambda>r. fresh_row active r \<and> \<not> skip r) pw_enqueued 1 (post_write db));
          due = fetchrow (sql_select (\<lambda>r. due_row active now r \<and> \<not> skip r) pw_enqueued 1 (post_write db));
          row = (if claims mod DUE_EVERY = 0 then (case due of Some r \<Rightarrow> Some r | None \<Rightarrow> fresh)
                 else (case fresh of Some r \<Rightarrow> Some r | None \<Rightarrow> due))
      in case row of None \<Rightarrow> (db, None)
         | Some r \<Rightarrow> (db\<lparr>post_write := sql_update (the_row (pw_customer r) (pw_node r))
                          (\<lambda>x. x\<lparr>pw_locked_until := Some (now + LOCK_SECONDS)\<rparr>) (post_write db)\<rparr>, Some r))"

subsection \<open>Writes back to the row\<close>

definition claimed_row :: "string \<Rightarrow> int \<Rightarrow> time \<Rightarrow> post_write_row \<Rightarrow> bool" where
  "claimed_row c i at_t r \<longleftrightarrow> the_row c i r \<and> pw_enqueued r = at_t"

definition delete_queue_row :: "string \<Rightarrow> int \<Rightarrow> time \<Rightarrow> graph_db \<Rightarrow> graph_db" where
  "delete_queue_row c i at_t db = db\<lparr>post_write := filter (\<lambda>r. \<not> claimed_row c i at_t r) (post_write db)\<rparr>"

definition write_status :: "string \<Rightarrow> int \<Rightarrow> time \<Rightarrow> json \<Rightarrow> int option \<Rightarrow> time \<Rightarrow> graph_db \<Rightarrow> graph_db" where
  "write_status c i at_t st delay now db =
     db\<lparr>post_write := sql_update (claimed_row c i at_t)
       (\<lambda>r. r\<lparr>pw_locked_until := map_option (\<lambda>d. now + d) delay, pw_status := st\<rparr>) (post_write db)\<rparr>"

definition record_failure :: "string \<Rightarrow> int \<Rightarrow> time \<Rightarrow> int \<Rightarrow> string \<Rightarrow> time \<Rightarrow> graph_db \<Rightarrow> graph_db" where
  "record_failure c i at_t attempts err now db =
     write_status c i at_t (status_json ''failed'' attempts [] err) None now db"

definition or_default :: "string option \<Rightarrow> string \<Rightarrow> string" where
  "or_default x d = (case x of None \<Rightarrow> d | Some s \<Rightarrow> if s = [] then d else s)"

text \<open>\<^verbatim>\<open>result.retry_after_seconds or AUTO_MERGE_RETRY_SECONDS\<close>, doubled per deferral, capped.\<close>

definition defer_delay :: "int option \<Rightarrow> int \<Rightarrow> int" where
  "defer_delay retry_after deferrals =
     (let base = (case retry_after of None \<Rightarrow> AUTO_MERGE_RETRY_SECONDS
                  | Some b \<Rightarrow> if b = 0 then AUTO_MERGE_RETRY_SECONDS else b)
      in min (base * 2 ^ nat (deferrals - 1)) AUTO_MERGE_RETRY_MAX_SECONDS)"

definition defer_row :: "string \<Rightarrow> int \<Rightarrow> time \<Rightarrow> json \<Rightarrow> merge_result \<Rightarrow> time \<Rightarrow> graph_db \<Rightarrow> graph_db" where
  "defer_row c i at_t st res now db =
     (let deferrals = merge_counter st ''deferrals'' + 1;
          failed_calls = merge_counter st ''failed_calls'' + (if mr_judge_called res then 1 else 0);
          err = or_default (mr_error res) ''judge unavailable''
      in if failed_calls > AUTO_MERGE_MAX_DEFERRALS
         then write_status c i at_t (status_json ''failed'' MAX_ATTEMPTS
                [(''deferrals'', JInt deferrals), (''failed_calls'', JInt (failed_calls - 1))] err) None now db
         else write_status c i at_t (status_json ''deferred'' (merge_counter st ''attempts'')
                [(''deferrals'', JInt deferrals), (''failed_calls'', JInt failed_calls)] err)
                (Some (defer_delay (mr_retry_after res) deferrals)) now db)"

subsection \<open>The first transaction\<close>

definition node_by_id :: "string \<Rightarrow> int \<Rightarrow> graph_db \<Rightarrow> node_row option" where
  "node_by_id c i db = find (\<lambda>n. n_id n = i \<and> n_customer n = c) (nodes db)"

text \<open>\<^verbatim>\<open>_embedding_text\<close> of \<^verbatim>\<open>scripts/backfill_graph_node_embeddings.py\<close>.\<close>

definition embedding_text :: "node_row \<Rightarrow> string" where
  "embedding_text n =
     foldl (\<lambda>s w. s @ '' '' @ w) (n_label n) (n_canonical n # concat (map
       (\<lambda>k. case map_of (n_props n) k of
              Some (JStr v) \<Rightarrow> if strip_of is_space v = [] then [] else [strip_of is_space v]
            | _ \<Rightarrow> [])
       [''name'', ''display_name'', ''real_name'', ''email'', ''login'', ''handle'']))"

text \<open>The embedder raises (\<open>Inl\<close>), embeds nothing (None) or returns the vector.\<close>

definition ensure_embedding ::
  "(string \<Rightarrow> string + string option) \<Rightarrow> string \<Rightarrow> int \<Rightarrow> graph_db \<Rightarrow> string + graph_db" where
  "ensure_embedding emb c i db =
     (case node_by_id c i db of None \<Rightarrow> Inr db
      | Some n \<Rightarrow> if n_embedding n \<noteq> None then Inr db
          else case emb (embedding_text n) of Inl err \<Rightarrow> Inl err
             | Inr None \<Rightarrow> Inr db
             | Inr (Some vec) \<Rightarrow> Inr (db\<lparr>nodes := sql_update (\<lambda>m. n_id m = i \<and> n_customer m = c)
                                         (\<lambda>m. m\<lparr>n_embedding := Some vec\<rparr>) (nodes db)\<rparr>))"

definition reap_due :: "(string \<times> int) list \<Rightarrow> string \<Rightarrow> int \<Rightarrow> bool" where
  "reap_due last_reap c clock =
     (case map_of last_reap c of None \<Rightarrow> True | Some t \<Rightarrow> clock - t \<ge> REAP_INTERVAL_SECONDS)"

text \<open>\<^verbatim>\<open>_drain_pending_edges\<close>: a failing drain rolls back to its savepoint and is only logged.\<close>

definition drain_node ::
  "string \<Rightarrow> time \<Rightarrow> int \<Rightarrow> int \<Rightarrow> (string \<times> int) list \<Rightarrow> graph_db \<Rightarrow> graph_db \<times> (string \<times> int) list" where
  "drain_node c now clock i last_reap db =
     (case node_by_id c i db of None \<Rightarrow> (db, last_reap)
      | Some n \<Rightarrow>
          (case drain_pending_edges c now (n_label n, n_canonical n) db of
             Inl _ \<Rightarrow> (db, last_reap)
           | Inr (db1, _) \<Rightarrow>
               if reap_due last_reap c clock
               then (fst (reap_expired_pending_edges c now db1), dict_set c clock last_reap)
               else (db1, last_reap)))"

subsection \<open>A pass\<close>

record post_worker =
  pk_embeddings :: bool
  pk_auto_merge :: bool

record post_world =
  px_embed :: "string \<Rightarrow> string + string option"
  px_analyze :: "string \<Rightarrow> int \<Rightarrow> graph_db \<Rightarrow> graph_db \<times> (string + merge_result)"
  px_others :: "nat \<Rightarrow> graph_db \<Rightarrow> graph_db"
  px_mono :: int

definition skipped_result :: merge_result where
  "skipped_result = \<lparr>mr_action = ''skipped'', mr_judge_called = False, mr_retry_after = None, mr_error = None\<rparr>"

text \<open>The end of a pass: the analyzer's result, or the exception of the pass.\<close>

definition finish_pass :: "post_write_row \<Rightarrow> time \<Rightarrow> string + merge_result \<Rightarrow> graph_db \<Rightarrow> graph_db" where
  "finish_pass row now res db =
     (case res of
        Inl err \<Rightarrow> record_failure (pw_customer row) (pw_node row) (pw_enqueued row)
                      (merge_counter (pw_status row) ''attempts'' + 1) err now db
      | Inr r \<Rightarrow>
          if mr_action r = ''deferred''
          then defer_row (pw_customer row) (pw_node row) (pw_enqueued row) (pw_status row) r now db
          else delete_queue_row (pw_customer row) (pw_node row) (pw_enqueued row) db)"

definition post_process ::
  "post_worker \<Rightarrow> post_world \<Rightarrow> time \<Rightarrow> post_write_row \<Rightarrow> (string \<times> int) list \<Rightarrow> graph_db \<Rightarrow> graph_db \<times> (string \<times> int) list" where
  "post_process w x now row last_reap db =
     (let c = pw_customer row; i = pw_node row
      in case (if pk_embeddings w then ensure_embedding (px_embed x) c i db else Inr db) of
           Inl err \<Rightarrow> (finish_pass row now (Inl err) (px_others x 0 db), last_reap)
         | Inr db1 \<Rightarrow>
             let (db2, last') = drain_node c now (px_mono x) i last_reap db1;
                 db3 = px_others x 0 db2;
                 (db4, res) = (if pk_auto_merge w then px_analyze x c i db3 else (db3, Inr skipped_result))
             in (finish_pass row now res (px_others x 1 db4), last'))"

lemma post_process_steps:
  assumes "(if pk_embeddings w then ensure_embedding (px_embed x) (pw_customer row) (pw_node row) db else Inr db) = Inr db1"
    and "drain_node (pw_customer row) now (px_mono x) (pw_node row) last_reap db1 = (db2, last')"
    and "(if pk_auto_merge w then px_analyze x (pw_customer row) (pw_node row) (px_others x 0 db2)
          else (px_others x 0 db2, Inr skipped_result)) = (db4, res)"
  shows "post_process w x now row last_reap db = (finish_pass row now res (px_others x 1 db4), last')"
  using assms by (simp add: post_process_def)

text \<open>Whatever the end, the row is deleted or rewritten under the guard of the claim.\<close>

lemma finish_pass_cases:
  "finish_pass row now res db = delete_queue_row (pw_customer row) (pw_node row) (pw_enqueued row) db
   \<or> (\<exists>st dl. finish_pass row now res db = write_status (pw_customer row) (pw_node row) (pw_enqueued row) st dl now db)"
  unfolding finish_pass_def record_failure_def defer_row_def Let_def by (cases res) auto

subsection \<open>What a pass keeps\<close>

lemma node_by_id_view: "node_by_id c i db = Some n \<Longrightarrow> ((c, n_label n, n_canonical n), i) \<in> node_ids_of db"
proof -
  assume "node_by_id c i db = Some n"
  then have "n \<in> set (nodes db)" "n_id n = i" "n_customer n = c" by (auto simp: node_by_id_def find_Some_iff)
  then show ?thesis unfolding node_ids_of_def by (intro rev_image_eqI [of n]) (auto simp: node_key_def)
qed

lemma node_id_key: "graph_ok db \<Longrightarrow> (k, i) \<in> node_ids_of db \<Longrightarrow> (k', i) \<in> node_ids_of db \<Longrightarrow> k = k'"
  using distinct_key_eq [of n_id "nodes db"] by (force simp: graph_ok_def nodes_ok_def node_ids_of_def)

lemma embedding_op:
  assumes "ensure_embedding emb c i db = Inr db'" and "graph_ok db"
  shows "run_keeps db db' \<and> node_ids_of db' = node_ids_of db \<and> parked db' = parked db"
proof -
  let ?p = "\<lambda>m. n_id m = i \<and> n_customer m = c"
  have key: "node_key (m\<lparr>n_embedding := Some v\<rparr>) = node_key m \<and> n_id (m\<lparr>n_embedding := Some v\<rparr>) = n_id m" for m v
    by (simp add: node_key_def)
  have "graph_ok (db\<lparr>nodes := sql_update ?p (\<lambda>m. m\<lparr>n_embedding := Some v\<rparr>) (nodes db)\<rparr>)
      \<and> node_ids_of (db\<lparr>nodes := sql_update ?p (\<lambda>m. m\<lparr>n_embedding := Some v\<rparr>) (nodes db)\<rparr>) = node_ids_of db" for v
  proof -
    let ?ns = "sql_update ?p (\<lambda>m. m\<lparr>n_embedding := Some v\<rparr>) (nodes db)"
    have view: "(\<lambda>n. (node_key n, n_id n)) ` set ?ns = (\<lambda>n. (node_key n, n_id n)) ` set (nodes db)"
      by (rule node_ids_update) (rule key)
    then have "has_end ?ns = has_end (nodes db)" by (simp add: has_end_view fun_eq_iff)
    moreover have "nodes_ok ?ns (node_seq db)"
      using assms(2) by (intro nodes_ok_update [where seq = "node_seq db"] key) (auto simp: graph_ok_def)
    moreover have "degrees_exact ?ns (edges db)"
      using assms(2) by (auto simp: graph_ok_def degrees_exact_def elim!: sql_update_memE)
    ultimately show ?thesis using assms(2) view by (simp add: graph_ok_def ends_ok_def node_ids_of_def)
  qed
  with assms show ?thesis
    by (auto simp: ensure_embedding_def run_keeps_def covered_def queued_def nobody_waits_def find_node_absent
        split: option.splits if_splits sum.splits)
qed

lemma covered_queue:
  assumes "covered db" and "nodes db' = nodes db" "parked db' = parked db" and "\<And>c i. queued db c i \<Longrightarrow> queued db' c i"
  shows "covered db'"
  using assms by (auto simp: covered_def node_ids_of_def)

lemma queued_write_status: "queued (write_status c i at_t st d now db) c' j \<longleftrightarrow> queued db c' j"
proof -
  let ?key = "\<lambda>r. (pw_customer r, pw_node r)"
  have "map ?key (post_write (write_status c i at_t st d now db)) = map ?key (post_write db)"
    unfolding write_status_def by (simp add: map_sql_update)
  from arg_cong [OF this, of set] have "?key ` set (post_write (write_status c i at_t st d now db)) = ?key ` set (post_write db)"
    by (simp only: set_map)
  then show ?thesis by (simp only: queued_view)
qed

lemma write_status_keeps: "covered db \<Longrightarrow> covered (write_status c i at_t st d now db)"
  by (rule covered_queue) (auto simp: queued_write_status, simp_all add: write_status_def)

lemma write_status_ok: "graph_ok (write_status c i at_t st d now db) = graph_ok db"
  by (rule graph_ok_cong) (simp_all add: write_status_def)

lemma delete_row_covered:
  assumes "covered db" and "graph_ok db" and "((c, k), i) \<in> node_ids_of db" and "nobody_waits db c k"
  shows "covered (delete_queue_row c i at_t db)"
  unfolding covered_def
proof (intro ballI impI allI)
  fix p j assume p: "p \<in> set (parked (delete_queue_row c i at_t db))" "pe_locked_until p = None"
    and j: "((pe_customer p, pe_missing_label p, pe_missing p), j) \<in> node_ids_of (delete_queue_row c i at_t db)"
  have p': "p \<in> set (parked db)" and j': "((pe_customer p, pe_missing_label p, pe_missing p), j) \<in> node_ids_of db"
    using p j by (simp_all add: delete_queue_row_def node_ids_of_def)
  have "(pe_customer p, j) \<noteq> (c, i)"
    using node_id_key [OF assms(2) assms(3), of "(pe_customer p, pe_missing_label p, pe_missing p)"] assms(4) p' p(2) j'
    by (auto simp: nobody_waits_def waits_for_def)
  moreover have "queued db (pe_customer p) j" using assms(1) p' p(2) j' unfolding covered_def by blast
  ultimately show "queued (delete_queue_row c i at_t db) (pe_customer p) j"
    by (auto simp: queued_def delete_queue_row_def claimed_row_def the_row_def)
qed

text \<open>A state in which node \<open>i\<close> exists under its key and nobody waits for it; operations keep it.\<close>

definition settled_at :: "string \<Rightarrow> nkey \<Rightarrow> int \<Rightarrow> graph_db \<Rightarrow> bool" where
  "settled_at c k i db \<longleftrightarrow> graph_ok db \<and> covered db \<and> ((c, k), i) \<in> node_ids_of db \<and> nobody_waits db c k"

lemma settled_op: "graph_op f \<Longrightarrow> settled_at c k i db \<Longrightarrow> settled_at c k i (f db)"
proof -
  assume f: "graph_op f" and s: "settled_at c k i db"
  then have "find_node db c k \<noteq> None" by (auto simp: settled_at_def find_node_absent)
  with s show ?thesis
    using graph_op.keeps_ok [OF f] graph_op.keeps_cover [OF f] graph_op.keeps_nodes [OF f] graph_op.no_new_wait [OF f]
    unfolding settled_at_def by blast
qed

lemma drain_node_settles:
  assumes d2: "drain_node c now clock i last_reap db = (db2, last')" and ok: "graph_ok db" and cov: "covered db"
    and view: "((c, k), i) \<in> node_ids_of db" and few: "length (filter (waits_for c k) (parked db)) \<le> DRAIN_LIMIT"
    and works: "\<exists>r. drain_pending_edges c now k db = Inr r"
  shows "settled_at c k i db2"
proof -
  obtain m where m: "node_by_id c i db = Some m" "(n_label m, n_canonical m) = k"
  proof -
    from view obtain m where "m \<in> set (nodes db)" "n_id m = i" "n_customer m = c" by (auto simp: node_ids_of_def node_key_def)
    then obtain m' where m': "node_by_id c i db = Some m'" by (cases "node_by_id c i db") (auto simp: node_by_id_def find_None_iff)
    then show thesis using that node_id_key [OF ok view node_by_id_view [OF m']] by auto
  qed
  obtain db1 x where run: "drain_pending_edges c now k db = Inr (db1, x)" using works by (metis surj_pair)
  have found: "find_node db c k \<noteq> None" using view by (auto simp: find_node_absent)
  have "settled_at c k i db1"
    unfolding settled_at_def nobody_waits_def
    using drain_ok [OF run ok] drain_covered [OF run ok cov] drain_parked [OF run ok] drain_ends_waits [OF run ok few found] view
    by auto
  moreover have "db2 = db1 \<or> db2 = fst (reap_expired_pending_edges c now db1)"
    using d2 m run by (auto simp: drain_node_def split: if_splits)
  ultimately show ?thesis using settled_op [OF reap.graph_op_axioms] by metis
qed


text \<open>A node that is written again while it is being processed is processed again: an upsert that re-enqueues it
  during the pass leaves an unlocked row with a clean status behind, whatever the pass then writes.\<close>

theorem reenqueued_node_not_dropped:
  assumes "px_others x 1 = enqueue_post_write (pw_customer row) t (pw_node row)" and "t \<noteq> pw_enqueued row"
    and "ensure_embedding (px_embed x) (pw_customer row) (pw_node row) db = Inr db1"
  shows "\<exists>r \<in> set (post_write (fst (post_process w x now row last_reap db))).
           the_row (pw_customer row) (pw_node row) r \<and> pw_enqueued r = t \<and> pw_status r = JObj [] \<and> pw_locked_until r = None"
proof -
  let ?c = "pw_customer row" let ?i = "pw_node row"
  have kept: "r \<in> set (post_write d) \<Longrightarrow> \<not> claimed_row ?c ?i (pw_enqueued row) r
      \<Longrightarrow> r \<in> set (post_write (delete_queue_row ?c ?i (pw_enqueued row) d))
        \<and> r \<in> set (post_write (write_status ?c ?i (pw_enqueued row) st dl now d))" for r d st dl
    by (simp add: delete_queue_row_def write_status_def sql_simps)
  have fresh: "\<exists>r \<in> set (post_write (enqueue_post_write ?c t ?i d)).
      the_row ?c ?i r \<and> pw_enqueued r = t \<and> pw_status r = JObj [] \<and> pw_locked_until r = None" for d
  proof (cases "\<exists>r \<in> set (post_write d). pw_customer r = ?c \<and> pw_node r = ?i")
    case True
    then obtain r where r: "r \<in> set (post_write d)" "pw_customer r = ?c" "pw_node r = ?i" by blast
    let ?r = "r\<lparr>pw_status := JObj [], pw_enqueued := t, pw_locked_until := None\<rparr>"
    have "?r \<in> set (post_write (enqueue_post_write ?c t ?i d))" using r True by (auto simp: enqueue_post_write_def sql_simps)
    then show ?thesis using r by (intro bexI [of _ ?r]) (auto simp: the_row_def)
  qed (auto simp: enqueue_post_write_def the_row_def)
  obtain db0 where e: "(if pk_embeddings w then ensure_embedding (px_embed x) ?c ?i db else Inr db) = Inr db0"
    using assms(3) by (cases "pk_embeddings w") auto
  obtain db2 last' where d: "drain_node ?c now (px_mono x) ?i last_reap db0 = (db2, last')" by (rule prod.exhaust)
  obtain db4 res where a: "(if pk_auto_merge w then px_analyze x ?c ?i (px_others x 0 db2) else (px_others x 0 db2, Inr skipped_result)) = (db4, res)"
    by (rule prod.exhaust)
  from fresh [of db4] obtain r where r: "r \<in> set (post_write (px_others x 1 db4))" "the_row ?c ?i r" "pw_enqueued r = t"
      "pw_status r = JObj []" "pw_locked_until r = None" unfolding assms(1) by blast
  then have "\<not> claimed_row ?c ?i (pw_enqueued row) r" using assms(2) by (simp add: claimed_row_def)
  then have "r \<in> set (post_write (finish_pass row now res (px_others x 1 db4)))"
    using kept [OF r(1)] finish_pass_cases [of row now res "px_others x 1 db4"] by metis
  with r show ?thesis unfolding post_process_steps [OF e d a] by (intro bexI [of _ r]) simp_all
qed

text \<open>Claim C37. An outage of the merge judge is waited out and bounded: while at most 12 calls have failed the row is locked for a
  positive time of at most an hour, claimable again exactly after it, with its attempts unspent; the 13th failed call parks it
  for good, and deferrals that sent no call never do.\<close>

theorem deferral_bounded:
  assumes "\<And>b. mr_retry_after res = Some b \<Longrightarrow> 0 \<le> b" and "0 \<le> merge_counter (pw_status row) ''deferrals''"
    and "merge_counter (pw_status row) ''attempts'' < MAX_ATTEMPTS" and "active (pw_customer row)"
    and "r' \<in> set (post_write (defer_row (pw_customer row) (pw_node row) (pw_enqueued row) (pw_status row) res now db))"
    and "claimed_row (pw_customer row) (pw_node row) (pw_enqueued row) r'"
  shows "if merge_counter (pw_status row) ''failed_calls'' + (if mr_judge_called res then 1 else 0) > AUTO_MERGE_MAX_DEFERRALS
         then \<forall>t. \<not> fresh_row active r' \<and> \<not> due_row active t r'
         else \<exists>d. 0 < d \<and> d \<le> AUTO_MERGE_RETRY_MAX_SECONDS \<and> (\<forall>t. due_row active t r' \<longleftrightarrow> now + d < t) \<and> \<not> fresh_row active r'
           \<and> merge_counter (pw_status r') ''attempts'' = merge_counter (pw_status row) ''attempts''"
proof -
  let ?d = "defer_delay (mr_retry_after res) (merge_counter (pw_status row) ''deferrals'' + 1)"
  have "0 < (case mr_retry_after res of None \<Rightarrow> AUTO_MERGE_RETRY_SECONDS | Some b \<Rightarrow> if b = 0 then AUTO_MERGE_RETRY_SECONDS else b)"
    using assms(1) by (auto simp: AUTO_MERGE_RETRY_SECONDS_def order_le_less split: option.splits)
  then have d: "0 < ?d" "?d \<le> AUTO_MERGE_RETRY_MAX_SECONDS"
    by (auto simp: defer_delay_def Let_def AUTO_MERGE_RETRY_MAX_SECONDS_def)
  have cust: "pw_customer r' = pw_customer row" using assms(6) by (simp add: claimed_row_def the_row_def)
  have counter: "merge_counter (status_json s a cs e) ''attempts'' = a" for s a cs e
    by (simp add: merge_counter_def status_json_def get_or_null_def obj_get_def)
  have written: "pw_status r' = st \<and> pw_locked_until r' = map_option (\<lambda>d. now + d) dl"
    if "r' \<in> set (post_write (write_status (pw_customer row) (pw_node row) (pw_enqueued row) st dl now db))" for st dl
    using that assms(6) by (auto simp: write_status_def claimed_row_def the_row_def elim!: sql_update_memE)
  show ?thesis
  proof (cases "merge_counter (pw_status row) ''failed_calls'' + (if mr_judge_called res then 1 else 0) > AUTO_MERGE_MAX_DEFERRALS")
    case True
    then have "merge_counter (pw_status r') ''attempts'' = MAX_ATTEMPTS"
      using assms(5) by (auto simp: defer_row_def Let_def counter dest!: written)
    then have "\<forall>t. \<not> fresh_row active r' \<and> \<not> due_row active t r'" by (simp add: fresh_row_def due_row_def)
    with True show ?thesis by simp
  next
    case False
    then have "pw_locked_until r' = Some (now + ?d)" "merge_counter (pw_status r') ''attempts'' = merge_counter (pw_status row) ''attempts''"
      using assms(5) by (auto simp: defer_row_def Let_def counter dest!: written)
    with d assms(3,4) cust have "\<exists>d. 0 < d \<and> d \<le> AUTO_MERGE_RETRY_MAX_SECONDS \<and> (\<forall>t. due_row active t r' \<longleftrightarrow> now + d < t)
        \<and> \<not> fresh_row active r' \<and> merge_counter (pw_status r') ''attempts'' = merge_counter (pw_status row) ''attempts''"
      by (intro exI [of _ ?d]) (simp add: fresh_row_def due_row_def)
    with False show ?thesis by simp
  qed
qed

subsection \<open>Witnesses\<close>

definition example_node :: node_row where
  "example_node = \<lparr>n_id = 1, n_customer = ''acme'', n_label = ''Person'', n_canonical = ''ann'', n_props = [], n_created = 0,
     n_updated = 0, n_degree = 0, n_community = None, n_embedding = None\<rparr>"

definition example_parked :: pending_edge where
  "example_parked = \<lparr>pe_id = 1, pe_customer = ''acme'', pe_missing_label = ''Person'', pe_missing = ''ann'', pe_type = ''AUTHORED'',
     pe_from_label = ''Person'', pe_from = ''ann'', pe_to_label = ''Document'', pe_to = ''d1'', pe_source = ''slack'', pe_props = [],
     pe_valid_from = None, pe_created = 0, pe_locked_until = None\<rparr>"

definition example_queue_row :: post_write_row where
  "example_queue_row = \<lparr>pw_customer = ''acme'', pw_node = 1, pw_enqueued = 5, pw_status = JObj [], pw_locked_until = None\<rparr>"

definition example_graph :: graph_db where
  "example_graph = \<lparr>nodes = [example_node], node_seq = 2, edges = [], edge_seq = 1, provenance = [], post_write = [example_queue_row],
     parked = [example_parked], parked_seq = 2, entity_aliases = []\<rparr>"

definition example_world :: post_world where
  "example_world = \<lparr>px_embed = (\<lambda>_. Inr None), px_analyze = (\<lambda>_ _ d. (d, Inr skipped_result)), px_others = (\<lambda>_ d. d), px_mono = 0\<rparr>"

lemmas example_graph_defs = example_node_def example_parked_def example_queue_row_def example_graph_def example_world_def

lemma example_graph_ok: "graph_ok example_graph \<and> covered example_graph"
  by (auto simp: example_graph_defs graph_ok_def nodes_ok_def ends_ok_def edges_ok_def degrees_exact_def parked_ok_def
      covered_def queued_def node_ids_of_def node_key_def)

lemma graph_op_id: "graph_op (\<lambda>d. d)"
  by unfold_locales auto


lemma reenqueued_node_not_dropped_witness:
  "\<exists>r \<in> set (post_write (fst (post_process \<lparr>pk_embeddings = False, pk_auto_merge = False\<rparr>
        (example_world\<lparr>px_others := (\<lambda>j. if j = 1 then enqueue_post_write ''acme'' 7 1 else (\<lambda>d. d))\<rparr>) 9 example_queue_row [] example_graph))).
      the_row ''acme'' 1 r \<and> pw_enqueued r = 7 \<and> pw_status r = JObj [] \<and> pw_locked_until r = None"
  using reenqueued_node_not_dropped [of "example_world\<lparr>px_others := (\<lambda>j. if j = 1 then enqueue_post_write ''acme'' 7 1 else (\<lambda>d. d))\<rparr>"
      example_queue_row 7 example_graph example_graph "\<lparr>pk_embeddings = False, pk_auto_merge = False\<rparr>" 9 "[]"]
  by (simp add: example_queue_row_def example_world_def example_graph_def example_node_def ensure_embedding_def node_by_id_def)

lemma deferral_bounded_witness:
  "\<exists>r'. claimed_row ''acme'' 1 5 r' \<and> pw_locked_until r' = Some 309 \<and> (\<exists>d. 0 < d \<and> d \<le> AUTO_MERGE_RETRY_MAX_SECONDS
     \<and> (\<forall>t. due_row (\<lambda>_. True) t r' \<longleftrightarrow> 9 + d < t))"
proof -
  let ?res = "\<lparr>mr_action = ''deferred'', mr_judge_called = True, mr_retry_after = None, mr_error = None\<rparr>"
  let ?st = "status_json ''deferred'' 0 [(''deferrals'', JInt 1), (''failed_calls'', JInt 1)] ''judge unavailable''"
  let ?r = "example_queue_row\<lparr>pw_locked_until := Some 309, pw_status := ?st\<rparr>"
  have counters: "merge_counter (pw_status example_queue_row) s = 0" for s
    by (simp add: example_queue_row_def merge_counter_def get_or_null_def obj_get_def)
  have mem: "?r \<in> set (post_write (defer_row (pw_customer example_queue_row) (pw_node example_queue_row) (pw_enqueued example_queue_row)
      (pw_status example_queue_row) ?res 9 example_graph))"
    by (simp add: defer_row_def Let_def counters write_status_def defer_delay_def or_default_def
        AUTO_MERGE_MAX_DEFERRALS_def AUTO_MERGE_RETRY_SECONDS_def AUTO_MERGE_RETRY_MAX_SECONDS_def)
      (simp add: example_graph_def example_queue_row_def claimed_row_def the_row_def)
  have cl: "claimed_row (pw_customer example_queue_row) (pw_node example_queue_row) (pw_enqueued example_queue_row) ?r"
    by (simp add: claimed_row_def the_row_def)
  have "\<exists>d. 0 < d \<and> d \<le> AUTO_MERGE_RETRY_MAX_SECONDS \<and> (\<forall>t. due_row (\<lambda>_. True) t ?r \<longleftrightarrow> 9 + d < t)"
    using deferral_bounded [of ?res example_queue_row "\<lambda>_. True" ?r 9 example_graph] mem cl
    by (auto simp: counters AUTO_MERGE_MAX_DEFERRALS_def MAX_ATTEMPTS_def)
  then show ?thesis using cl by (intro exI [of _ ?r]) (simp add: example_queue_row_def claimed_row_def the_row_def)
qed

definition example_specs :: "node_spec list \<times> edge_spec list" where
  "example_specs =
     ([\<lparr>ns_label = DOCUMENT, ns_canonical = ''d1'', ns_props = []\<rparr>],
      [\<lparr>es_type = AUTHORED, es_from_label = PERSON, es_from = ''bob'', es_to_label = DOCUMENT, es_to = ''d1'', es_props = [],
        es_valid_from = None, es_valid_to = None, es_confidence = ''INFERRED'', es_aliased_from = None, es_aliased_to = None\<rparr>])"

lemma persist_graph_loses_nothing_witness:
  "\<exists>db' n. persist_graph ''acme'' ''slack'' 3 {''d1''} {''d1''} (fst example_specs) (snd example_specs) example_graph = Inr (db', n)
     \<and> graph_ok db' \<and> (\<forall>e \<in> set (snd example_specs). keep_edge {''d1''} {''d1''} e \<longrightarrow>
          (let e' = canonical_edge example_graph ''acme'' e in from_key e' = to_key e' \<or> written db' ''acme'' e' \<or> waiting db' ''acme'' ''slack'' e'))"
proof -
  have "\<not> isl (persist_graph ''acme'' ''slack'' 3 {''d1''} {''d1''} (fst example_specs) (snd example_specs) example_graph)"
    by code_simp
  then obtain db' n where run: "persist_graph ''acme'' ''slack'' 3 {''d1''} {''d1''} (fst example_specs) (snd example_specs) example_graph = Inr (db', n)"
    by (metis old.prod.exhaust sum.collapse(2) sum.disc(1) sum.exhaust)
  show ?thesis using persist_graph_loses_nothing [OF _ run] example_graph_ok run by blast
qed

end
