(* ===== verification/Clusters.thy ===== *)
theory Clusters
  imports GraphParking
begin

section \<open>Merging entities into clusters\<close>

text \<open>
  \<^verbatim>\<open>engine/ingest/entity_clusters_routes.py\<close>: the merge transaction (alias nodes are folded into a primary node: their
  edges are rewritten, their provenance merged, their nodes snapshotted and deleted, routing rows inserted) and the unmerge
  transaction. Both run in one transaction under a lock per tenant and label; an HTTP error or a constraint violation is
  \<open>Inl\<close> and rolls back. \<open>is_doc\<close> says whether a document row with an id exists for the tenant; the
  merge id (\<^verbatim>\<open>uuid4\<close>) and the clock are arguments. The advisory lock and \<^verbatim>\<open>FOR UPDATE\<close> have no effect on the state.
\<close>

subsection \<open>State\<close>

record merge_request =
  mg_customer :: string
  mg_user :: string
  mg_label :: string
  mg_primary :: string
  mg_aliases :: "string list"
  mg_reason :: "string option"
  mg_refuse_primaries :: bool
  mg_refuse_documents :: bool

record audit_row =
  au_merge_id :: string
  au_customer :: string
  au_label :: string
  au_primary :: string
  au_aliases :: "string list"
  au_user :: string
  au_reason :: "string option"
  au_status :: string

record node_snapshot =
  sn_merge_id :: string
  sn_customer :: string
  sn_label :: string
  sn_canonical :: string
  sn_props :: props
  sn_degree :: int
  sn_community :: "int option"
  sn_created :: time
  sn_provenance :: "(string \<times> time \<times> time) list"

datatype snapshot_op = DeletedSelfLoop | DeletedDuplicateLane

record edge_snapshot =
  se_merge_id :: string
  se_seq :: nat
  se_customer :: string
  se_op :: snapshot_op
  se_type :: string
  se_from :: nkey
  se_to :: nkey
  se_props :: props
  se_confidence :: string
  se_valid_from :: time
  se_valid_to :: "time option"
  se_source :: "string option"
  se_extractor :: "string option"
  se_extracted_at :: "time option"
  se_aliased_from :: "string option"
  se_aliased_to :: "string option"

record cluster_db =
  cl_graph :: graph_db
  merge_audit :: "audit_row table"
  node_snapshots :: "node_snapshot table"
  edge_snapshots :: "edge_snapshot table"

datatype cluster_error =
    PrimaryAmongAliases
  | UnknownIds "string list"
  | AlreadyAliased "(string \<times> string) list"
  | AliasIsPrimary "string list"
  | AliasIsDocument "string list"
  | PrimaryIsAlias string
  | NoSuchAlias
  | MissingSnapshot
  | UniqueViolation
  | MissingCustomer

subsection \<open>Validation\<close>

definition valid_merge_request :: "merge_request \<Rightarrow> bool" where
  "valid_merge_request rq \<longleftrightarrow>
     1 \<le> length (mg_customer rq) \<and> length (mg_customer rq) \<le> 128 \<and> 1 \<le> length (mg_label rq) \<and> length (mg_label rq) \<le> 64
     \<and> 1 \<le> length (mg_primary rq) \<and> length (mg_primary rq) \<le> 512 \<and> 1 \<le> length (mg_aliases rq) \<and> length (mg_aliases rq) \<le> 64
     \<and> (case mg_reason rq of None \<Rightarrow> True | Some r \<Rightarrow> length r \<le> 2000)
     \<and> distinct (mg_aliases rq) \<and> (\<forall>a \<in> set (mg_aliases rq). strip_of is_space a \<noteq> [])"

definition alias_of :: "string \<Rightarrow> string \<Rightarrow> string \<Rightarrow> alias_row \<Rightarrow> bool" where
  "alias_of c l x a \<longleftrightarrow> al_customer a = c \<and> al_label a = l \<and> al_alias a = x"

definition own_document_node :: "(string \<Rightarrow> bool) \<Rightarrow> node_row \<Rightarrow> bool" where
  "own_document_node is_doc n \<longleftrightarrow> map_of (n_props n) ''doc_type'' \<noteq> None \<or> is_doc (n_canonical n)"

text \<open>Steps 1 to 3: the first check that fails, in the order of the source.\<close>

definition merge_checks :: "(string \<Rightarrow> bool) \<Rightarrow> merge_request \<Rightarrow> graph_db \<Rightarrow> cluster_error option" where
  "merge_checks is_doc rq g =
     (let c = mg_customer rq; l = mg_label rq; als = mg_aliases rq;
          missing = filter (\<lambda>x. find_node g c (l, x) = None) (mg_primary rq # als);
          already = filter (\<lambda>a. al_customer a = c \<and> al_label a = l \<and> al_alias a \<in> set als) (entity_aliases g);
          prims = remdups (map al_primary (filter (\<lambda>a. al_customer a = c \<and> al_label a = l \<and> al_primary a \<in> set als) (entity_aliases g)));
          docs = map n_canonical (filter (\<lambda>n. n_customer n = c \<and> n_label n = l \<and> n_canonical n \<in> set als \<and> own_document_node is_doc n) (nodes g))
      in if mg_primary rq \<in> set als then Some PrimaryAmongAliases
         else if missing \<noteq> [] then Some (UnknownIds missing)
         else if already \<noteq> [] then Some (AlreadyAliased (map (\<lambda>a. (al_alias a, al_primary a)) already))
         else if mg_refuse_primaries rq \<and> prims \<noteq> [] then Some (AliasIsPrimary prims)
         else if mg_refuse_documents rq \<and> docs \<noteq> [] then Some (AliasIsDocument docs)
         else (case primary_of (entity_aliases g) c l (mg_primary rq) of
                 Some p \<Rightarrow> Some (PrimaryIsAlias p) | None \<Rightarrow> None))"

subsection \<open>The merge\<close>

definition snapshot_node :: "string \<Rightarrow> provenance_row table \<Rightarrow> node_row \<Rightarrow> node_snapshot" where
  "snapshot_node mid pvs n =
     \<lparr>sn_merge_id = mid, sn_customer = n_customer n, sn_label = n_label n, sn_canonical = n_canonical n, sn_props = n_props n,
      sn_degree = n_degree n, sn_community = n_community n, sn_created = n_created n,
      sn_provenance = map (\<lambda>p. (pv_source p, pv_first_seen p, pv_last_seen p)) (filter (\<lambda>p. pv_node p = n_id n) pvs)\<rparr>"

text \<open>Step 7: one row per source of the aliases, widened on conflict.\<close>

definition merge_provenance :: "string \<Rightarrow> int \<Rightarrow> int list \<Rightarrow> provenance_row table \<Rightarrow> provenance_row table" where
  "merge_provenance c pid ids pvs =
     (let mine = filter (\<lambda>p. pv_node p \<in> set ids \<and> pv_customer p = c) pvs;
          span = (\<lambda>s. (Min (set (map pv_first_seen (filter (\<lambda>p. pv_source p = s) mine))),
                        Max (set (map pv_last_seen (filter (\<lambda>p. pv_source p = s) mine)))));
          put = (\<lambda>s t. if \<exists>p \<in> set t. pv_node p = pid \<and> pv_source p = s
                   then sql_update (\<lambda>p. pv_node p = pid \<and> pv_source p = s)
                          (\<lambda>p. p\<lparr>pv_first_seen := min (pv_first_seen p) (fst (span s)), pv_last_seen := max (pv_last_seen p) (snd (span s))\<rparr>) t
                   else t @ [\<lparr>pv_node = pid, pv_customer = c, pv_source = s, pv_first_seen = fst (span s), pv_last_seen = snd (span s)\<rparr>])
      in fold put (remdups (map pv_source mine)) pvs)"

definition key_of_id :: "node_row table \<Rightarrow> int \<Rightarrow> nkey" where
  "key_of_id ns i = (case find (\<lambda>n. n_id n = i) ns of Some n \<Rightarrow> (n_label n, n_canonical n) | None \<Rightarrow> ([], []))"

definition snapshot_edge :: "string \<Rightarrow> nat \<Rightarrow> string \<Rightarrow> snapshot_op \<Rightarrow> node_row table \<Rightarrow> edge_row \<Rightarrow> edge_snapshot" where
  "snapshot_edge mid seq c op ns e =
     \<lparr>se_merge_id = mid, se_seq = seq, se_customer = c, se_op = op, se_type = g_type e, se_from = key_of_id ns (g_from e),
      se_to = key_of_id ns (g_to e), se_props = g_props e, se_confidence = g_confidence e, se_valid_from = g_valid_from e,
      se_valid_to = g_valid_to e, se_source = g_source e, se_extractor = g_extractor e, se_extracted_at = g_extracted_at e,
      se_aliased_from = g_aliased_from e, se_aliased_to = g_aliased_to e\<rparr>"

text \<open>Where an edge end goes, and the lane it is stamped with.\<close>

definition move_end :: "int \<Rightarrow> int list \<Rightarrow> int \<Rightarrow> int" where
  "move_end pid ids i = (if i \<in> set ids then pid else i)"

definition rewrite_edge :: "int \<Rightarrow> (int \<times> string) list \<Rightarrow> edge_row \<Rightarrow> edge_row" where
  "rewrite_edge pid canon e =
     e\<lparr>g_from := move_end pid (map fst canon) (g_from e), g_to := move_end pid (map fst canon) (g_to e),
       g_aliased_from := (case map_of canon (g_from e) of Some x \<Rightarrow> Some x | None \<Rightarrow> g_aliased_from e),
       g_aliased_to := (case map_of canon (g_to e) of Some x \<Rightarrow> Some x | None \<Rightarrow> g_aliased_to e)\<rparr>"

text \<open>Step 8, one edge: a loop is snapshotted and deleted, an edge whose new lane is taken likewise, any other is rewritten.\<close>

definition merge_edge_row ::
  "string \<Rightarrow> string \<Rightarrow> int \<Rightarrow> (int \<times> string) list \<Rightarrow> node_row table \<Rightarrow> edge_row
   \<Rightarrow> edge_row table \<times> edge_snapshot list \<times> nat \<Rightarrow> edge_row table \<times> edge_snapshot list \<times> nat" where
  "merge_edge_row c mid pid canon ns e st =
     (case st of (t, snaps, seq) \<Rightarrow>
        let e' = rewrite_edge pid canon e; rest = filter (\<lambda>g. g_id g \<noteq> g_id e) t in
        if g_from e' = g_to e'
        then (rest, snaps @ [snapshot_edge mid (seq + 1) c DeletedSelfLoop ns e], seq + 1)
        else if edge_lane e' \<in> edge_lane ` set rest
        then (rest, snaps @ [snapshot_edge mid (seq + 1) c DeletedDuplicateLane ns e], seq + 1)
        else (sql_update (\<lambda>g. g_id g = g_id e) (\<lambda>g. g\<lparr>g_from := g_from e', g_to := g_to e',
                g_aliased_from := g_aliased_from e', g_aliased_to := g_aliased_to e'\<rparr>) t, snaps, seq))"

definition touches_ids :: "string \<Rightarrow> int list \<Rightarrow> edge_row \<Rightarrow> bool" where
  "touches_ids c ids g \<longleftrightarrow> g_customer g = c \<and> (g_from g \<in> set ids \<or> g_to g \<in> set ids)"

text \<open>Step 10 counts rows: a loop counts once.\<close>

definition count_degree :: "string \<Rightarrow> edge_row table \<Rightarrow> int \<Rightarrow> int" where
  "count_degree c t i = int (length (filter (\<lambda>g. g_customer g = c \<and> (g_from g = i \<or> g_to g = i)) t))"

definition set_degrees :: "string \<Rightarrow> edge_row table \<Rightarrow> int list \<Rightarrow> node_row table \<Rightarrow> node_row table" where
  "set_degrees c t ids ns =
     sql_update (\<lambda>n. n_customer n = c \<and> n_id n \<in> set ids) (\<lambda>n. n\<lparr>n_degree := count_degree c t (n_id n)\<rparr>) ns"

text \<open>\<^verbatim>\<open>primary_node_id\<close>, and \<^verbatim>\<open>node_id_to_canonical\<close> whose keys are \<^verbatim>\<open>alias_node_ids\<close>.\<close>

definition primary_node_id :: "merge_request \<Rightarrow> graph_db \<Rightarrow> int" where
  "primary_node_id rq g = (case find_node g (mg_customer rq) (mg_label rq, mg_primary rq) of Some n \<Rightarrow> n_id n | None \<Rightarrow> 0)"

definition alias_canon :: "merge_request \<Rightarrow> graph_db \<Rightarrow> (int \<times> string) list" where
  "alias_canon rq g =
     concat (map (\<lambda>x. case find_node g (mg_customer rq) (mg_label rq, x) of Some n \<Rightarrow> [(n_id n, x)] | None \<Rightarrow> []) (mg_aliases rq))"

definition alias_node_ids :: "merge_request \<Rightarrow> graph_db \<Rightarrow> int list" where
  "alias_node_ids rq g = map fst (alias_canon rq g)"

text \<open>The loop of step 8 over the rows fetched before it.\<close>

definition rewrite_edges ::
  "string \<Rightarrow> string \<Rightarrow> int \<Rightarrow> (int \<times> string) list \<Rightarrow> graph_db \<Rightarrow> edge_row table \<times> edge_snapshot list \<times> nat" where
  "rewrite_edges c mid pid canon g =
     fold (merge_edge_row c mid pid canon (nodes g)) (filter (touches_ids c (map fst canon)) (edges g)) (edges g, [], 0)"

definition routes :: "string \<Rightarrow> time \<Rightarrow> merge_request \<Rightarrow> alias_row list" where
  "routes mid now rq =
     map (\<lambda>x. \<lparr>al_customer = mg_customer rq, al_label = mg_label rq, al_alias = x, al_primary = mg_primary rq,
               al_merge_id = mid, al_added = now\<rparr>) (mg_aliases rq)"

definition merge_cluster ::
  "(string \<Rightarrow> bool) \<Rightarrow> string \<Rightarrow> time \<Rightarrow> merge_request \<Rightarrow> cluster_db \<Rightarrow> cluster_error + cluster_db" where
  "merge_cluster is_doc mid now rq db =
     (let g = cl_graph db; c = mg_customer rq; l = mg_label rq in
      case merge_checks is_doc rq g of Some err \<Rightarrow> Inl err
      | None \<Rightarrow>
          let pid = primary_node_id rq g; canon = alias_canon rq g; ids = alias_node_ids rq g;
              audit = \<lparr>au_merge_id = mid, au_customer = c, au_label = l, au_primary = mg_primary rq, au_aliases = mg_aliases rq,
                       au_user = mg_user rq, au_reason = mg_reason rq, au_status = ''active''\<rparr>;
              snaps = map (snapshot_node mid (provenance g)) (filter (\<lambda>n. n_customer n = c \<and> n_id n \<in> set ids) (nodes g));
              pvs = merge_provenance c pid ids (provenance g);
              (t, esnaps, _) = rewrite_edges c mid pid canon g;
              t' = filter (\<lambda>e. g_from e \<notin> set ids \<and> g_to e \<notin> set ids) t;
              ns = filter (\<lambda>n. \<not> (n_customer n = c \<and> n_id n \<in> set ids)) (nodes g)
          in Inr (db\<lparr>cl_graph := g\<lparr>nodes := set_degrees c t' [pid] ns, edges := t',
                        provenance := filter (\<lambda>p. pv_node p \<notin> set ids) pvs,
                        entity_aliases := entity_aliases g @ routes mid now rq\<rparr>,
                     merge_audit := merge_audit db @ [audit], node_snapshots := node_snapshots db @ snaps,
                     edge_snapshots := edge_snapshots db @ esnaps\<rparr>))"

subsection \<open>The unmerge\<close>

definition lanes_distinct :: "edge_row table \<Rightarrow> bool" where
  "lanes_distinct t \<longleftrightarrow> distinct (map edge_lane t)"

definition restore_from :: "string \<Rightarrow> string \<Rightarrow> int \<Rightarrow> edge_row table \<Rightarrow> edge_row table" where
  "restore_from c x i t =
     sql_update (\<lambda>g. g_customer g = c \<and> g_aliased_from g = Some x) (\<lambda>g. g\<lparr>g_from := i, g_aliased_from := None\<rparr>) t"

definition restore_to :: "string \<Rightarrow> string \<Rightarrow> int \<Rightarrow> edge_row table \<Rightarrow> edge_row table" where
  "restore_to c x i t =
     sql_update (\<lambda>g. g_customer g = c \<and> g_aliased_to g = Some x) (\<lambda>g. g\<lparr>g_to := i, g_aliased_to := None\<rparr>) t"

text \<open>Step 5: a snapshotted loop of the alias comes back as a loop on the restored node.\<close>

definition restored_loop :: "int \<Rightarrow> int \<Rightarrow> edge_snapshot \<Rightarrow> edge_row" where
  "restored_loop gid i s =
     \<lparr>g_id = gid, g_customer = se_customer s, g_type = se_type s, g_from = i, g_to = i, g_props = se_props s,
      g_valid_from = se_valid_from s, g_valid_to = se_valid_to s, g_source = se_source s, g_confidence = se_confidence s,
      g_extractor = se_extractor s, g_extracted_at = se_extracted_at s, g_aliased_from = se_aliased_from s, g_aliased_to = se_aliased_to s\<rparr>"

definition own_loop :: "string \<Rightarrow> string \<Rightarrow> string \<Rightarrow> edge_snapshot \<Rightarrow> bool" where
  "own_loop c mid x s \<longleftrightarrow> se_customer s = c \<and> se_merge_id s = mid \<and> se_op s = DeletedSelfLoop \<and> (snd (se_from s) = x \<or> snd (se_to s) = x)"

definition restored_node :: "node_snapshot \<Rightarrow> int \<Rightarrow> time \<Rightarrow> node_row" where
  "restored_node s i now =
     \<lparr>n_id = i, n_customer = sn_customer s, n_label = sn_label s, n_canonical = sn_canonical s, n_props = sn_props s,
      n_created = sn_created s, n_updated = now, n_degree = sn_degree s, n_community = sn_community s, n_embedding = None\<rparr>"

definition restored_provenance :: "node_snapshot \<Rightarrow> int \<Rightarrow> provenance_row list" where
  "restored_provenance s i =
     map (\<lambda>(src, a, b). \<lparr>pv_node = i, pv_customer = sn_customer s, pv_source = src, pv_first_seen = a, pv_last_seen = b\<rparr>) (sn_provenance s)"

definition unmerge_alias :: "string \<Rightarrow> string \<Rightarrow> string \<Rightarrow> string \<Rightarrow> time \<Rightarrow> cluster_db \<Rightarrow> cluster_error + cluster_db" where
  "unmerge_alias c l p x now db =
     (let g = cl_graph db in
      if c = [] then Inl MissingCustomer else
      case find (\<lambda>a. alias_of c l x a \<and> al_primary a = p) (entity_aliases g) of
        None \<Rightarrow> Inl NoSuchAlias
      | Some a \<Rightarrow>
          let mid = al_merge_id a in
          (case find (\<lambda>s. sn_customer s = c \<and> sn_merge_id s = mid \<and> sn_label s = l \<and> sn_canonical s = x) (node_snapshots db) of
             None \<Rightarrow> Inl MissingSnapshot
           | Some s \<Rightarrow>
               if find_node g c (l, x) \<noteq> None then Inl UniqueViolation
               else
                 let i = node_seq g; node = restored_node s i now;
                     t1 = restore_from c x i (edges g); t2 = restore_to c x i t1;
                     loops = filter (own_loop c mid x) (edge_snapshots db);
                     new = map (\<lambda>(j, s). restored_loop (edge_seq g + int j) i s) (enumerate 0 loops);
                     t3 = t2 @ new
                 in if \<not> lanes_distinct t1 \<or> \<not> lanes_distinct t2 \<or> \<not> lanes_distinct t3 then Inl UniqueViolation
                    else
                      let ns = nodes g @ [node];
                          ns' = (case find_node g c (l, p) of None \<Rightarrow> ns | Some q \<Rightarrow> set_degrees c t3 [n_id q, i] ns);
                          als = filter (\<lambda>a. \<not> alias_of c l x a) (entity_aliases g);
                          audit = (if \<exists>a \<in> set als. al_merge_id a = mid then merge_audit db
                                   else sql_update (\<lambda>r. au_customer r = c \<and> au_merge_id r = mid) (\<lambda>r. r\<lparr>au_status := ''reversed''\<rparr>) (merge_audit db))
                      in Inr (db\<lparr>cl_graph := g\<lparr>nodes := ns', node_seq := i + 1, edges := t3, edge_seq := edge_seq g + int (length loops),
                                    provenance := provenance g @ restored_provenance s i, entity_aliases := als\<rparr>,
                                 merge_audit := audit\<rparr>)))"

end
