(* ===== verification/ClusterProperties.thy ===== *)
theory ClusterProperties
  imports Clusters
begin

section \<open>What merging and unmerging do to the graph\<close>

text \<open>
  A merge is a quotient: the edges of the tenant are the images of its edges under the map that sends every alias node to the
  primary, less the ones the map closes into loops. The alias nodes are gone and their keys resolve to the primary, at the end
  of whatever chain of merges leads to them, so a later upsert of an alias writes the primary. Unmerging the alias of a merge
  that closed no loop, met no taken lane and overwrote no lane gives back the edges of before.
\<close>

subsection \<open>One edge\<close>

lemma rewrite_edge_fields [simp]:
  "g_id (rewrite_edge pid canon e) = g_id e" "g_customer (rewrite_edge pid canon e) = g_customer e"
  "g_type (rewrite_edge pid canon e) = g_type e" "g_from (rewrite_edge pid canon e) = move_end pid (map fst canon) (g_from e)"
  "g_to (rewrite_edge pid canon e) = move_end pid (map fst canon) (g_to e)"
  "g_confidence (rewrite_edge pid canon e) = g_confidence e"
  by (simp_all add: rewrite_edge_def)

lemma set_filter_id:
  assumes "distinct (map g_id t)" "e \<in> set t"
  shows "set (filter (\<lambda>g. g_id g \<noteq> g_id e) t) = set t - {e}"
  using assms by (auto dest: eq_key_imp_eq_value simp: distinct_map inj_on_def)

lemma set_rewrite_id:
  assumes "distinct (map g_id t)" "e \<in> set t"
  shows "set (sql_update (\<lambda>g. g_id g = g_id e) f t) = insert (f e) (set t - {e})"
proof -
  have "{r \<in> set t. g_id r = g_id e} = {e}" "{r \<in> set t. g_id r \<noteq> g_id e} = set t - {e}"
    using assms by (auto simp: distinct_map inj_on_def)
  then show ?thesis by (simp add: set_sql_update)
qed

lemma merge_edge_row_step:
  assumes "merge_edge_row c mid pid canon ns e (t, s, q) = (t', s', q')" "distinct (map g_id t)" "e \<in> set t"
  shows "distinct (map g_id t')"
    and "set t' = set t - {e} \<and> (move_end pid (map fst canon) (g_from e) = move_end pid (map fst canon) (g_to e)
                                   \<or> edge_lane (rewrite_edge pid canon e) \<in> edge_lane ` (set t - {e}))
         \<or> set t' = insert (rewrite_edge pid canon e) (set t - {e})
           \<and> move_end pid (map fst canon) (g_from e) \<noteq> move_end pid (map fst canon) (g_to e)
           \<and> edge_lane (rewrite_edge pid canon e) \<notin> edge_lane ` (set t - {e})"
proof -
  have "distinct (map g_id (filter p t))" for p using assms(2) by (rule distinct_map_filter)
  moreover have "map g_id (sql_update (\<lambda>g. g_id g = g_id e) (\<lambda>g. g\<lparr>g_from := a, g_to := b, g_aliased_from := f, g_aliased_to := h\<rparr>) t) = map g_id t" for a b f h
    by (rule map_sql_update) simp
  ultimately show "distinct (map g_id t')" using assms(1,2)
    by (auto simp: merge_edge_row_def Let_def split: if_splits)
  have "e\<lparr>g_from := g_from (rewrite_edge pid canon e), g_to := g_to (rewrite_edge pid canon e),
          g_aliased_from := g_aliased_from (rewrite_edge pid canon e), g_aliased_to := g_aliased_to (rewrite_edge pid canon e)\<rparr>
        = rewrite_edge pid canon e"
    by (simp add: rewrite_edge_def)
  then show "set t' = set t - {e} \<and> (move_end pid (map fst canon) (g_from e) = move_end pid (map fst canon) (g_to e)
                                   \<or> edge_lane (rewrite_edge pid canon e) \<in> edge_lane ` (set t - {e}))
         \<or> set t' = insert (rewrite_edge pid canon e) (set t - {e})
           \<and> move_end pid (map fst canon) (g_from e) \<noteq> move_end pid (map fst canon) (g_to e)
           \<and> edge_lane (rewrite_edge pid canon e) \<notin> edge_lane ` (set t - {e})"
    using assms set_filter_id [OF assms(2,3)] set_rewrite_id [OF assms(2,3)]
    by (simp add: merge_edge_row_def Let_def split: if_splits) (elim conjE, hypsubst, simp)+
qed

subsection \<open>All edges\<close>

text \<open>The triples of the tenant's edges, and what the quotient makes of them.\<close>

definition triples :: "string \<Rightarrow> edge_row set \<Rightarrow> (string \<times> int \<times> int) set" where
  "triples c es = (\<lambda>e. (g_type e, g_from e, g_to e)) ` {e \<in> es. g_customer e = c}"

definition quotient :: "string \<Rightarrow> int \<Rightarrow> int list \<Rightarrow> edge_row set \<Rightarrow> (string \<times> int \<times> int) set" where
  "quotient c pid ids es =
     (\<lambda>e. (g_type e, move_end pid ids (g_from e), move_end pid ids (g_to e)))
       ` {e \<in> es. g_customer e = c \<and> (touches_ids c ids e \<longrightarrow> move_end pid ids (g_from e) \<noteq> move_end pid ids (g_to e))}"

lemma move_end_fixed: "pid \<notin> set ids \<Longrightarrow> move_end pid ids i \<notin> set ids"
  by (simp add: move_end_def)

lemma move_end_idem [simp]: "pid \<notin> set ids \<Longrightarrow> move_end pid ids (move_end pid ids i) = move_end pid ids i"
  by (simp add: move_end_def)

lemma untouched_ends: "\<not> touches_ids c ids e \<Longrightarrow> g_customer e = c \<Longrightarrow> move_end pid ids (g_from e) = g_from e \<and> move_end pid ids (g_to e) = g_to e"
  by (simp add: touches_ids_def move_end_def)

lemma quotient_untouched: "\<forall>e \<in> es. \<not> touches_ids c ids e \<Longrightarrow> quotient c pid ids es = triples c es"
  unfolding quotient_def triples_def by (rule image_cong) (auto simp: untouched_ends)

lemma rewritten_untouched:
  "pid \<notin> set (map fst canon) \<Longrightarrow> \<not> touches_ids c (map fst canon) (rewrite_edge pid canon e)"
  by (simp add: touches_ids_def move_end_def)

lemma quotient_insert:
  "quotient c pid ids (insert e es) =
     (if g_customer e = c \<and> (touches_ids c ids e \<longrightarrow> move_end pid ids (g_from e) \<noteq> move_end pid ids (g_to e))
      then insert (g_type e, move_end pid ids (g_from e), move_end pid ids (g_to e)) (quotient c pid ids es)
      else quotient c pid ids es)"
  by (auto simp: quotient_def)

text \<open>Whatever a step does to a touched edge, the quotient of the table stays.\<close>

lemma step_quotient:
  assumes step: "merge_edge_row c mid pid canon ns e (t, s, q) = (t', s', q')"
    and d: "distinct (map g_id t)" "e \<in> set t" and touched: "touches_ids c (map fst canon) e" and pid: "pid \<notin> set (map fst canon)"
  shows "quotient c pid (map fst canon) (set t') = quotient c pid (map fst canon) (set t)"
    and "{g \<in> set t'. touches_ids c (map fst canon) g} = {g \<in> set t. touches_ids c (map fst canon) g} - {e}"
    and "{g \<in> set t'. g_customer g \<noteq> c} = {g \<in> set t. g_customer g \<noteq> c}"
proof -
  let ?ids = "map fst canon" and ?e = "rewrite_edge pid canon e"
  obtain rest where rest: "set t = insert e rest" "set t - {e} = rest" using d(2) by (metis insert_Diff)
  have c: "g_customer e = c" using touched by (simp add: touches_ids_def)
  note cases = merge_edge_row_step(2) [OF step d, unfolded rest(2)]
  have lane: "(g_type e, move_end pid ?ids (g_from e), move_end pid ?ids (g_to e)) \<in> quotient c pid ?ids rest"
    if "edge_lane ?e \<in> edge_lane ` rest"
  proof -
    from that obtain r where "edge_lane ?e = edge_lane r" and r: "r \<in> rest" by (rule imageE)
    then have f: "g_customer r = c" "g_type r = g_type e" "g_from r = move_end pid ?ids (g_from e)" "g_to r = move_end pid ?ids (g_to e)"
      using c by (simp_all add: edge_lane_def)
    then have "\<not> touches_ids c ?ids r" using move_end_fixed [OF pid] by (simp add: touches_ids_def)
    then show ?thesis using r(1) f pid unfolding quotient_def by (intro image_eqI [of _ _ r]) (simp_all add: move_end_idem)
  qed
  show "quotient c pid ?ids (set t') = quotient c pid ?ids (set t)"
  proof (cases "set t' = rest")
    case True
    then have "move_end pid ?ids (g_from e) = move_end pid ?ids (g_to e) \<or> edge_lane ?e \<in> edge_lane ` rest"
      using cases
    proof (elim disjE conjE)
      assume "set t' = insert ?e rest"
      then have "?e \<in> rest" using True by (metis insertI1)
      then show ?thesis by (intro disjI2 imageI)
    qed auto
    moreover have "quotient c pid ?ids (set t') = quotient c pid ?ids (insert e rest)"
      if "edge_lane ?e \<in> edge_lane ` rest" unfolding True quotient_insert using insert_absorb [OF lane [OF that]] by simp
    moreover have "quotient c pid ?ids (set t') = quotient c pid ?ids (insert e rest)"
      if "move_end pid ?ids (g_from e) = move_end pid ?ids (g_to e)" unfolding True quotient_insert using that touched by simp
    ultimately show ?thesis unfolding rest(1) by blast
  next
    case False
    then have "set t' = insert ?e rest" "move_end pid ?ids (g_from e) \<noteq> move_end pid ?ids (g_to e)" using cases by auto
    then show ?thesis using rewritten_untouched [OF pid] c pid by (simp add: rest(1) quotient_insert)
  qed
  show "{g \<in> set t'. touches_ids c ?ids g} = {g \<in> set t. touches_ids c ?ids g} - {e}"
    using cases rewritten_untouched [OF pid, of c e] rest by auto
  show "{g \<in> set t'. g_customer g \<noteq> c} = {g \<in> set t. g_customer g \<noteq> c}" using cases c rest by auto
qed

lemma fold_quotient:
  assumes "fold (merge_edge_row c mid pid canon ns) todo (t, s, q) = (t', s', q')" "distinct (map g_id t)" "distinct todo"
    "{g \<in> set t. touches_ids c (map fst canon) g} = set todo" "pid \<notin> set (map fst canon)"
  shows "distinct (map g_id t')" "quotient c pid (map fst canon) (set t') = quotient c pid (map fst canon) (set t)"
    "\<forall>g \<in> set t'. \<not> touches_ids c (map fst canon) g" "{g \<in> set t'. g_customer g \<noteq> c} = {g \<in> set t. g_customer g \<noteq> c}"
proof -
  have "distinct (map g_id t') \<and> quotient c pid (map fst canon) (set t') = quotient c pid (map fst canon) (set t)
    \<and> (\<forall>g \<in> set t'. \<not> touches_ids c (map fst canon) g) \<and> {g \<in> set t'. g_customer g \<noteq> c} = {g \<in> set t. g_customer g \<noteq> c}"
    using assms
  proof (induction todo arbitrary: t s q)
    case Nil
    then show ?case by auto
  next
    case (Cons e todo)
    obtain t1 s1 q1 where step: "merge_edge_row c mid pid canon ns e (t, s, q) = (t1, s1, q1)" by (rule prod_cases3)
    have e: "e \<in> set t" "touches_ids c (map fst canon) e" using Cons.prems(4) by auto
    note keeps = step_quotient [OF step Cons.prems(2) e Cons.prems(5)]
    have "{g \<in> set t1. touches_ids c (map fst canon) g} = set todo" using keeps(2) Cons.prems(3,4) by auto
    with Cons.IH [of t1 s1 q1] Cons.prems(1,3,5) keeps(1,3) merge_edge_row_step(1) [OF step Cons.prems(2) e(1)] step
    show ?case by simp
  qed
  then show "distinct (map g_id t')" "quotient c pid (map fst canon) (set t') = quotient c pid (map fst canon) (set t)"
    "\<forall>g \<in> set t'. \<not> touches_ids c (map fst canon) g" "{g \<in> set t'. g_customer g \<noteq> c} = {g \<in> set t. g_customer g \<noteq> c}" by auto
qed

subsection \<open>The checks\<close>

lemma merge_checks_passed:
  assumes "merge_checks is_doc rq g = None"
  shows "mg_primary rq \<notin> set (mg_aliases rq)"
    "x \<in> insert (mg_primary rq) (set (mg_aliases rq)) \<Longrightarrow> find_node g (mg_customer rq) (mg_label rq, x) \<noteq> None"
    "x \<in> insert (mg_primary rq) (set (mg_aliases rq)) \<Longrightarrow> primary_of (entity_aliases g) (mg_customer rq) (mg_label rq) x = None"
proof -
  show "mg_primary rq \<notin> set (mg_aliases rq)"
    using assms by (simp add: merge_checks_def Let_def split: if_splits)
  have "filter (\<lambda>x. find_node g (mg_customer rq) (mg_label rq, x) = None) (mg_primary rq # mg_aliases rq) = []"
    using assms by (simp add: merge_checks_def Let_def split: if_splits)
  then show "x \<in> insert (mg_primary rq) (set (mg_aliases rq)) \<Longrightarrow> find_node g (mg_customer rq) (mg_label rq, x) \<noteq> None"
    by (auto simp: filter_empty_conv split: if_splits)
  have "filter (\<lambda>a. al_customer a = mg_customer rq \<and> al_label a = mg_label rq \<and> al_alias a \<in> set (mg_aliases rq)) (entity_aliases g) = []"
    using assms by (simp add: merge_checks_def Let_def split: if_splits)
  then have "x \<in> set (mg_aliases rq) \<Longrightarrow> primary_of (entity_aliases g) (mg_customer rq) (mg_label rq) x = None"
    by (auto simp: primary_of_def find_None_iff filter_empty_conv)
  moreover have "primary_of (entity_aliases g) (mg_customer rq) (mg_label rq) (mg_primary rq) = None"
    using assms by (simp add: merge_checks_def Let_def split: if_splits option.splits)
  ultimately show "x \<in> insert (mg_primary rq) (set (mg_aliases rq)) \<Longrightarrow> primary_of (entity_aliases g) (mg_customer rq) (mg_label rq) x = None"
    by blast
qed

lemma primary_node_found:
  assumes "merge_checks is_doc rq g = None"
  shows "((mg_customer rq, mg_label rq, mg_primary rq), primary_node_id rq g) \<in> node_ids_of g"
  using merge_checks_passed(2) [OF assms, of "mg_primary rq"] by (auto simp: primary_node_id_def dest: find_node_ids)

lemma alias_canon_iff:
  "(i, x) \<in> set (alias_canon rq g) \<longleftrightarrow>
     x \<in> set (mg_aliases rq) \<and> (\<exists>n. find_node g (mg_customer rq) (mg_label rq, x) = Some n \<and> n_id n = i)"
  by (force simp: alias_canon_def split: option.splits)

text \<open>What the tables promise of identities: one id per key, one key per id, ids from the sequence.\<close>

definition ids_ok :: "graph_db \<Rightarrow> bool" where
  "ids_ok g \<longleftrightarrow>
     (\<forall>k i. (k, i) \<in> node_ids_of g \<longrightarrow> i < node_seq g)
     \<and> (\<forall>k i k' j. (k, i) \<in> node_ids_of g \<longrightarrow> (k', j) \<in> node_ids_of g \<longrightarrow> (k = k' \<longleftrightarrow> i = j))"

lemma nodes_ok_ids: "nodes_ok (nodes g) (node_seq g) \<Longrightarrow> ids_ok g"
proof -
  assume ok: "nodes_ok (nodes g) (node_seq g)"
  have "n_id n < node_seq g \<and> (node_key n = node_key m \<longleftrightarrow> n_id n = n_id m)" if "n \<in> set (nodes g)" "m \<in> set (nodes g)" for n m
    using ok that inj_onD [of n_id "set (nodes g)" n m] inj_onD [of node_key "set (nodes g)" n m]
    by (auto simp: nodes_ok_def distinct_map)
  moreover have "\<exists>n \<in> set (nodes g). k = node_key n \<and> i = n_id n" if "(k, i) \<in> node_ids_of g" for k i
    using that by (auto simp: node_ids_of_def)
  ultimately show ?thesis unfolding ids_ok_def by metis
qed

lemma node_ids_inj: "ids_ok g \<Longrightarrow> (k, i) \<in> node_ids_of g \<Longrightarrow> (k', i) \<in> node_ids_of g \<Longrightarrow> k = k'"
  unfolding ids_ok_def by blast

lemma find_node_iff: "ids_ok g \<Longrightarrow> (\<exists>n. find_node g c k = Some n \<and> n_id n = i) \<longleftrightarrow> ((c, k), i) \<in> node_ids_of g"
proof
  assume ok: "ids_ok g" and mem: "((c, k), i) \<in> node_ids_of g"
  then obtain n where n: "find_node g c k = Some n" using find_node_absent [of g c k] by auto
  then have "((c, k), n_id n) \<in> node_ids_of g" by (rule find_node_ids)
  then have "n_id n = i" using ok mem unfolding ids_ok_def by blast
  with n show "\<exists>n. find_node g c k = Some n \<and> n_id n = i" by blast
qed (auto dest: find_node_ids)

lemma alias_node_ids_iff:
  assumes "ids_ok g"
  shows "i \<in> set (alias_node_ids rq g) \<longleftrightarrow> (\<exists>x \<in> set (mg_aliases rq). ((mg_customer rq, mg_label rq, x), i) \<in> node_ids_of g)"
proof -
   have "i \<in> set (alias_node_ids rq g) \<longleftrightarrow> (\<exists>x. (i, x) \<in> set (alias_canon rq g))"
    by (force simp: alias_node_ids_def)
  then show ?thesis by (simp add: alias_canon_iff find_node_iff [OF assms] Bex_def)
qed

lemma primary_not_alias_id:
  assumes "merge_checks is_doc rq g = None" "ids_ok g"
  shows "primary_node_id rq g \<notin> set (alias_node_ids rq g)"
  using merge_checks_passed(1) [OF assms(1)] node_ids_inj [OF assms(2) primary_node_found [OF assms(1)]]
  by (auto simp: alias_node_ids_iff [OF assms(2)])

subsection \<open>The merge\<close>

lemma merge_cluster_result:
  assumes "merge_cluster is_doc mid now rq db = Inr db'" "cl_graph db = g"
  obtains t esnaps q t' where "merge_checks is_doc rq g = None"
    "rewrite_edges (mg_customer rq) mid (primary_node_id rq g) (alias_canon rq g) g = (t, esnaps, q)"
    "t' = filter (\<lambda>e. g_from e \<notin> set (alias_node_ids rq g) \<and> g_to e \<notin> set (alias_node_ids rq g)) t"
    "cl_graph db' = g\<lparr>nodes := set_degrees (mg_customer rq) t' [primary_node_id rq g]
          (filter (\<lambda>n. \<not> (n_customer n = mg_customer rq \<and> n_id n \<in> set (alias_node_ids rq g))) (nodes g)),
        edges := t', provenance := filter (\<lambda>p. pv_node p \<notin> set (alias_node_ids rq g))
          (merge_provenance (mg_customer rq) (primary_node_id rq g) (alias_node_ids rq g) (provenance g)),
        entity_aliases := entity_aliases g @ routes mid now rq\<rparr>"
    "edge_snapshots db' = edge_snapshots db @ esnaps"
    "node_snapshots db' = node_snapshots db
       @ map (snapshot_node mid (provenance g)) (filter (\<lambda>n. n_customer n = mg_customer rq \<and> n_id n \<in> set (alias_node_ids rq g)) (nodes g))"
    "merge_audit db' = merge_audit db @ [\<lparr>au_merge_id = mid, au_customer = mg_customer rq, au_label = mg_label rq,
       au_primary = mg_primary rq, au_aliases = mg_aliases rq, au_user = mg_user rq, au_reason = mg_reason rq, au_status = ''active''\<rparr>]"
  using assms by (auto simp: merge_cluster_def Let_def split: option.splits prod.splits)

lemma node_ids_set_degrees: "(\<lambda>n. (node_key n, n_id n)) ` set (set_degrees c t ids ns) = (\<lambda>n. (node_key n, n_id n)) ` set ns"
proof -
  have "map (\<lambda>n. (node_key n, n_id n)) (set_degrees c t ids ns) = map (\<lambda>n. (node_key n, n_id n)) ns"
    unfolding set_degrees_def by (rule map_sql_update) (simp add: node_key_def)
  from arg_cong [OF this, of set] show ?thesis by simp
qed

lemma rewrite_edges_quotient:
  assumes "rewrite_edges c mid pid canon g = (t, esnaps, q)" "distinct (map g_id (edges g))" "pid \<notin> set (map fst canon)"
  shows "triples c (set t) = quotient c pid (map fst canon) (set (edges g))" "\<forall>e \<in> set t. \<not> touches_ids c (map fst canon) e"
    "{e \<in> set t. g_customer e \<noteq> c} = {e \<in> set (edges g). g_customer e \<noteq> c}" "distinct (map g_id t)"
proof -
  have "distinct (filter p (edges g))" for p using assms(2) by (simp add: distinct_map)
  note f = fold_quotient [OF assms(1) [unfolded rewrite_edges_def] assms(2) this _ assms(3), simplified]
  show "\<forall>e \<in> set t. \<not> touches_ids c (map fst canon) e" using f(3) by simp
  then show "triples c (set t) = quotient c pid (map fst canon) (set (edges g))"
    using f(2) quotient_untouched by (metis (no_types, lifting))
  show "{e \<in> set t. g_customer e \<noteq> c} = {e \<in> set (edges g). g_customer e \<noteq> c}" "distinct (map g_id t)" using f by simp_all
qed

lemma merge_cluster_edges:
  assumes run: "merge_cluster is_doc mid now rq db = Inr db'" and g: "cl_graph db = g" and ok: "graph_ok g"
    and ids: "distinct (map g_id (edges g))"
  shows "rewrite_edges (mg_customer rq) mid (primary_node_id rq g) (alias_canon rq g) g
         = (edges (cl_graph db'), drop (length (edge_snapshots db)) (edge_snapshots db'),
            snd (snd (rewrite_edges (mg_customer rq) mid (primary_node_id rq g) (alias_canon rq g) g)))"
proof -
  let ?c = "mg_customer rq" and ?ids = "alias_node_ids rq g"
  from run g obtain t esnaps q where chk: "merge_checks is_doc rq g = None"
    and rw: "rewrite_edges ?c mid (primary_node_id rq g) (alias_canon rq g) g = (t, esnaps, q)"
    and e: "edges (cl_graph db') = filter (\<lambda>e. g_from e \<notin> set ?ids \<and> g_to e \<notin> set ?ids) t"
    and s: "edge_snapshots db' = edge_snapshots db @ esnaps"
    by (rule merge_cluster_result) auto
  from ok have nok: "ids_ok g" by (simp add: graph_ok_def nodes_ok_ids)
  note q = rewrite_edges_quotient [OF rw ids, unfolded alias_node_ids_def [symmetric], OF primary_not_alias_id [OF chk nok]]
  have "g_from e \<notin> set ?ids \<and> g_to e \<notin> set ?ids" if "e \<in> set t" for e
  proof (cases "g_customer e = ?c")
    case True
    then show ?thesis using q(2) that by (auto simp: touches_ids_def)
  next
    case False
    then have "e \<in> set (edges g)" using q(3) that by blast
    then have "has_end (nodes g) (g_customer e) (g_from e)" "has_end (nodes g) (g_customer e) (g_to e)"
      using ok by (auto simp: graph_ok_def ends_ok_def)
    then show ?thesis using False node_ids_inj [OF nok] unfolding has_end_ids alias_node_ids_iff [OF nok] by blast
  qed
  then have "edges (cl_graph db') = t" unfolding e by (simp add: filter_id_conv)
  then show ?thesis using rw s by simp
qed

lemma keyed_restrict: "(\<lambda>n. (f n, h n)) ` {n \<in> S. f n \<notin> B} = {(k, i) \<in> (\<lambda>n. (f n, h n)) ` S. k \<notin> B}"
  by auto

lemma node_ids_merge:
  assumes run: "merge_cluster is_doc mid now rq db = Inr db'" and g: "cl_graph db = g" and ok: "ids_ok g"
  shows "node_ids_of (cl_graph db') = {(k, i) \<in> node_ids_of g. k \<notin> (\<lambda>x. (mg_customer rq, mg_label rq, x)) ` set (mg_aliases rq)}"
proof -
  let ?c = "mg_customer rq" and ?ids = "alias_node_ids rq g" and ?v = "\<lambda>n. (node_key n, n_id n)"
  from run g obtain t' where "nodes (cl_graph db') = set_degrees ?c t' [primary_node_id rq g]
      (filter (\<lambda>n. \<not> (n_customer n = ?c \<and> n_id n \<in> set ?ids)) (nodes g))"
    by (rule merge_cluster_result) auto
  then have "node_ids_of (cl_graph db') = ?v ` {n \<in> set (nodes g). \<not> (n_customer n = ?c \<and> n_id n \<in> set ?ids)}"
    by (simp add: node_ids_of_def node_ids_set_degrees)
  moreover have "n_customer n = ?c \<and> n_id n \<in> set ?ids \<longleftrightarrow> node_key n \<in> (\<lambda>x. (?c, mg_label rq, x)) ` set (mg_aliases rq)"
    if "n \<in> set (nodes g)" for n
  proof
    have n: "(node_key n, n_id n) \<in> node_ids_of g" using that by (simp add: node_ids_of_def)
    { assume "n_customer n = ?c \<and> n_id n \<in> set ?ids"
      then show "node_key n \<in> (\<lambda>x. (?c, mg_label rq, x)) ` set (mg_aliases rq)"
        using node_ids_inj [OF ok n] unfolding alias_node_ids_iff [OF ok] by blast }
    { assume "node_key n \<in> (\<lambda>x. (?c, mg_label rq, x)) ` set (mg_aliases rq)"
      then obtain x where "x \<in> set (mg_aliases rq)" "node_key n = (?c, mg_label rq, x)" by (rule imageE)
      with n show "n_customer n = ?c \<and> n_id n \<in> set ?ids" unfolding alias_node_ids_iff [OF ok] by (auto simp: node_key_def) }
  qed
  then have "{n \<in> set (nodes g). \<not> (n_customer n = ?c \<and> n_id n \<in> set ?ids)}
      = {n \<in> set (nodes g). node_key n \<notin> (\<lambda>x. (?c, mg_label rq, x)) ` set (mg_aliases rq)}" by (intro Collect_cong) blast
  ultimately show ?thesis by (simp only: keyed_restrict node_ids_of_def)
qed

text \<open>The fold leaves only edges it found and their rewritten copies.\<close>

lemma fold_rows:
  assumes "fold (merge_edge_row c mid pid canon ns) todo (t, s, q) = (t', s', q')" "distinct (map g_id t)" "distinct todo" "set todo \<subseteq> set t"
    "pid \<notin> set (map fst canon)" "\<forall>e \<in> set todo. touches_ids c (map fst canon) e"
  shows "set t' \<subseteq> set t \<union> rewrite_edge pid canon ` set todo"
  using assms
proof (induction todo arbitrary: t s q)
  case (Cons e todo)
  obtain t1 s1 q1 where step: "merge_edge_row c mid pid canon ns e (t, s, q) = (t1, s1, q1)" by (rule prod_cases3)
  have e: "e \<in> set t" using Cons.prems(4) by simp
  have "set t1 \<subseteq> insert (rewrite_edge pid canon e) (set t)" "set t - {e} \<subseteq> set t1"
    using merge_edge_row_step(2) [OF step Cons.prems(2) e] by auto
  moreover from this have "set todo \<subseteq> set t1" using Cons.prems(3,4) by auto
  then have "set t' \<subseteq> set t1 \<union> rewrite_edge pid canon ` set todo"
    using Cons.IH [of t1 s1 q1] Cons.prems step merge_edge_row_step(1) [OF step Cons.prems(2) e] by simp
  ultimately show ?case by auto
qed simp

lemma merged_ends:
  assumes run: "merge_cluster is_doc mid now rq db = Inr db'" and ok: "graph_ok (cl_graph db)" and ids: "distinct (map g_id (edges (cl_graph db)))"
  shows "ends_ok (nodes (cl_graph db')) (edges (cl_graph db'))"
proof -
  let ?g = "cl_graph db" and ?c = "mg_customer rq" and ?pid = "primary_node_id rq (cl_graph db)" and ?canon = "alias_canon rq (cl_graph db)"
  from run have chk: "merge_checks is_doc rq ?g = None" by (rule merge_cluster_result) auto
  from ok have nok: "ids_ok ?g" by (simp add: graph_ok_def nodes_ok_ids)
  note rw = merge_cluster_edges [OF run refl ok ids] and pid = primary_not_alias_id [OF chk nok, unfolded alias_node_ids_def]
  have sub: "set (edges (cl_graph db')) \<subseteq> set (edges ?g) \<union> rewrite_edge ?pid ?canon ` set (filter (touches_ids ?c (map fst ?canon)) (edges ?g))"
    using ids by (intro fold_rows [OF rw [unfolded rewrite_edges_def] ids _ _ pid]) (auto simp: distinct_map)
  have keeps: "has_end (nodes (cl_graph db')) cu i" if "has_end (nodes ?g) cu i" "cu = ?c \<longrightarrow> i \<notin> set (alias_node_ids rq ?g)" for cu i
  proof -
    from that(1) obtain k where k: "((cu, k), i) \<in> node_ids_of ?g" unfolding has_end_ids by blast
    then have "(cu, k) \<notin> (\<lambda>x. (?c, mg_label rq, x)) ` set (mg_aliases rq)" using that(2) unfolding alias_node_ids_iff [OF nok] by blast
    with k show ?thesis unfolding has_end_ids node_ids_merge [OF run refl nok] by blast
  qed
  have old: "has_end (nodes ?g) (g_customer e) (g_from e) \<and> has_end (nodes ?g) (g_customer e) (g_to e)" if "e \<in> set (edges ?g)" for e
    using that ok by (simp add: graph_ok_def ends_ok_def)
  have primary: "has_end (nodes ?g) ?c ?pid" using primary_node_found [OF chk] unfolding has_end_ids by blast
  show ?thesis unfolding ends_ok_def
  proof
    fix e assume e: "e \<in> set (edges (cl_graph db'))"
    have "\<not> touches_ids ?c (map fst ?canon) e" using rewrite_edges_quotient(2) [OF rw ids pid] e by blast
    then have free: "g_customer e = ?c \<longrightarrow> g_from e \<notin> set (alias_node_ids rq ?g) \<and> g_to e \<notin> set (alias_node_ids rq ?g)"
      by (simp add: touches_ids_def alias_node_ids_def)
    from e sub consider "e \<in> set (edges ?g)" | r where "r \<in> set (edges ?g)" "g_customer r = ?c" "e = rewrite_edge ?pid ?canon r"
      by (auto simp: touches_ids_def)
    then have "has_end (nodes ?g) (g_customer e) (g_from e) \<and> has_end (nodes ?g) (g_customer e) (g_to e)"
    proof cases
      case 1
      then show ?thesis by (rule old)
    next
      case (2 r)
      then show ?thesis using old [OF 2(1)] primary by (simp add: move_end_def)
    qed
    then show "has_end (nodes (cl_graph db')) (g_customer e) (g_from e) \<and> has_end (nodes (cl_graph db')) (g_customer e) (g_to e)"
      using keeps free by blast
  qed
qed

subsection \<open>Chains of aliases\<close>

text \<open>\<open>alias_chain up n x p\<close>: \<open>n\<close> hops lead from \<open>x\<close> to \<open>p\<close>, which is no alias.\<close>

fun alias_chain :: "(string \<Rightarrow> string option) \<Rightarrow> nat \<Rightarrow> string \<Rightarrow> string \<Rightarrow> bool" where
  "alias_chain up 0 x p \<longleftrightarrow> x = p \<and> up x = None"
| "alias_chain up (Suc n) x p \<longleftrightarrow> (case up x of None \<Rightarrow> False | Some y \<Rightarrow> alias_chain up n y p)"

lemma alias_chain_length: "alias_chain up n x p \<Longrightarrow> alias_chain up m x q \<Longrightarrow> n = m"
proof (induction n arbitrary: x m)
  case 0
  then show ?case by (cases m) auto
next
  case (Suc n)
  then show ?case by (cases m) (auto split: option.splits)
qed

lemma alias_chain_end: "alias_chain up n x p \<Longrightarrow> up p = None"
  by (induction n arbitrary: x) (auto split: option.splits)

lemma alias_walk_chain:
  "alias_chain up n x p \<Longrightarrow> n \<le> left \<Longrightarrow> \<forall>y \<in> set path. \<exists>m \<ge> n. alias_chain up m y p \<Longrightarrow> alias_walk up left x path = p"
proof (induction n arbitrary: x left path)
  case 0
  then show ?case by (cases left) auto
next
  case (Suc n)
  from Suc.prems(2) obtain l where l: "left = Suc l" "n \<le> l" by (cases left) auto
  from Suc.prems(1) obtain y where y: "up x = Some y" "alias_chain up n y p" by (auto split: option.splits)
  then have "y \<notin> set path" using Suc.prems(3) alias_chain_length by (metis Suc_n_not_le_n)
  moreover have "\<forall>z \<in> set (path @ [y]). \<exists>m \<ge> n. alias_chain up m z p"
    using Suc.prems(3) y(2) by (auto dest: Suc_leD)
  ultimately show ?case using Suc.IH [OF y(2) l(2)] by (simp add: l(1) y(1))
qed

text \<open>The recursive query finds the end of every chain of at most eight hops.\<close>

lemma resolve_alias_chain:
  assumes "alias_chain (primary_of t c l) (Suc n) x p" "n < ALIAS_CHAIN_MAX_DEPTH"
  shows "resolve_alias t c l x = Some p"
proof -
  from assms(1) obtain y where y: "primary_of t c l x = Some y" "alias_chain (primary_of t c l) n y p" by (auto split: option.splits)
  then have "alias_walk (primary_of t c l) (ALIAS_CHAIN_MAX_DEPTH - 1) y [x, y] = p"
    using assms by (intro alias_walk_chain) (auto intro: exI [of _ "Suc n"])
  then show ?thesis by (simp add: resolve_alias_def y(1))
qed

lemma primary_of_append:
  "primary_of (t @ u) c l x = (case primary_of t c l x of None \<Rightarrow> primary_of u c l x | Some p \<Rightarrow> Some p)"
  by (induction t) (auto simp: primary_of_def)

lemma primary_of_routes:
  "primary_of (routes mid now rq) c l x = (if c = mg_customer rq \<and> l = mg_label rq \<and> x \<in> set (mg_aliases rq) then Some (mg_primary rq) else None)"
proof -
  have "map_option al_primary (find (\<lambda>a. al_customer a = c \<and> al_label a = l \<and> al_alias a = x)
      (map (\<lambda>x. \<lparr>al_customer = mg_customer rq, al_label = mg_label rq, al_alias = x, al_primary = mg_primary rq,
               al_merge_id = mid, al_added = now\<rparr>) as))
    = (if c = mg_customer rq \<and> l = mg_label rq \<and> x \<in> set as then Some (mg_primary rq) else None)" for as
    by (induction as) auto
  then show ?thesis by (simp add: primary_of_def routes_def)
qed

text \<open>A merge lengthens by one hop the chains that ended at an alias, and leaves the others.\<close>

lemma merged_chain:
  fixes mid :: string and now :: time
  assumes chk: "merge_checks is_doc rq g = None" and n: "alias_chain (primary_of (entity_aliases g) c l) n x p"
  defines "up \<equiv> primary_of (entity_aliases g @ routes mid now rq) c l"
  shows "if c = mg_customer rq \<and> l = mg_label rq \<and> p \<in> set (mg_aliases rq) then alias_chain up (Suc n) x (mg_primary rq) else alias_chain up n x p"
  using n
proof (induction n arbitrary: x)
  case 0
  then show ?case
    using merge_checks_passed(1,3) [OF chk] by (auto simp: up_def primary_of_append primary_of_routes)
next
  case (Suc n)
  then obtain y where y: "primary_of (entity_aliases g) c l x = Some y" "alias_chain (primary_of (entity_aliases g) c l) n y p"
    by (auto split: option.splits)
  then have "up x = Some y" by (simp add: up_def primary_of_append)
  with Suc.IH [OF y(2)] show ?case by (cases "c = mg_customer rq \<and> l = mg_label rq \<and> p \<in> set (mg_aliases rq)") auto
qed

subsection \<open>The quotient\<close>

text \<open>Claim C6. A merge is the quotient of the tenant's graph by its aliases. The edges of the tenant afterwards are exactly the
  images of its edges when every alias node is sent to the primary, less those that become loops (no connection of an alias is
  lost, none is invented, duplicates fall together); the nodes are the former ones less the aliases; every edge is between nodes
  that exist; the key of each alias resolves to the primary. The other tenants' edges are untouched.\<close>

theorem merge_is_quotient:
  assumes run: "merge_cluster is_doc mid now rq db = Inr db'" and ok: "graph_ok (cl_graph db)"
    and ids: "distinct (map g_id (edges (cl_graph db)))"
  shows "triples (mg_customer rq) (set (edges (cl_graph db')))
           = quotient (mg_customer rq) (primary_node_id rq (cl_graph db)) (alias_node_ids rq (cl_graph db)) (set (edges (cl_graph db)))
       \<and> node_ids_of (cl_graph db') = {(k, i) \<in> node_ids_of (cl_graph db). k \<notin> (\<lambda>x. (mg_customer rq, mg_label rq, x)) ` set (mg_aliases rq)}
       \<and> ends_ok (nodes (cl_graph db')) (edges (cl_graph db'))
       \<and> (\<forall>x \<in> set (mg_aliases rq). resolve_alias (entity_aliases (cl_graph db')) (mg_customer rq) (mg_label rq) x = Some (mg_primary rq))
       \<and> {e \<in> set (edges (cl_graph db')). g_customer e \<noteq> mg_customer rq} = {e \<in> set (edges (cl_graph db)). g_customer e \<noteq> mg_customer rq}"
proof -
  let ?g = "cl_graph db" and ?c = "mg_customer rq" and ?l = "mg_label rq"
  let ?pid = "primary_node_id rq ?g" and ?ids = "alias_node_ids rq ?g"
  from run have chk: "merge_checks is_doc rq ?g = None" and al: "entity_aliases (cl_graph db') = entity_aliases ?g @ routes mid now rq"
    by (rule merge_cluster_result; auto)+
  from ok have nok: "ids_ok ?g" by (simp add: graph_ok_def nodes_ok_ids)
  note q = rewrite_edges_quotient [OF merge_cluster_edges [OF run refl ok ids] ids, unfolded alias_node_ids_def [symmetric],
      OF primary_not_alias_id [OF chk nok]]
  have nodes: "node_ids_of (cl_graph db') = {(k, i) \<in> node_ids_of ?g. k \<notin> (\<lambda>x. (?c, ?l, x)) ` set (mg_aliases rq)}"
    using node_ids_merge [OF run refl nok] .
  have ends: "ends_ok (nodes (cl_graph db')) (edges (cl_graph db'))"
    using merged_ends [OF run ok ids] .
  have "resolve_alias (entity_aliases (cl_graph db')) ?c ?l x = Some (mg_primary rq)" if "x \<in> set (mg_aliases rq)" for x
  proof -
    have "alias_chain (primary_of (entity_aliases ?g) ?c ?l) 0 x x" using merge_checks_passed(3) [OF chk, of x] that by simp
    from merged_chain [OF chk this] that show ?thesis unfolding al by (intro resolve_alias_chain [of _ _ _ 0]) (simp_all add: ALIAS_CHAIN_MAX_DEPTH_def)
  qed
  with q nodes ends show ?thesis by blast
qed

subsection \<open>No alias has a node\<close>

text \<open>An alias has no node of its own, and at most eight hops lead from it to a key that is no alias.\<close>

definition routed :: "graph_db \<Rightarrow> bool" where
  "routed g \<longleftrightarrow>
     (\<forall>c l x. primary_of (entity_aliases g) c l x \<noteq> None \<longrightarrow>
        find_node g c (l, x) = None
        \<and> (\<exists>n < ALIAS_CHAIN_MAX_DEPTH. \<exists>p. alias_chain (primary_of (entity_aliases g) c l) (Suc n) x p))"

lemma routed_resolves:
  assumes "routed g" "primary_of (entity_aliases g) c l x \<noteq> None"
  obtains p where "resolve_alias (entity_aliases g) c l x = Some p" "primary_of (entity_aliases g) c l p = None"
  using assms unfolding routed_def by (metis alias_chain_end resolve_alias_chain)

lemma routed_same:
  "routed g \<Longrightarrow> entity_aliases g' = entity_aliases g \<Longrightarrow> node_ids_of g' = node_ids_of g \<Longrightarrow> routed g'"
  by (simp add: routed_def find_node_absent)

lemma ids_ok_same: "ids_ok g \<Longrightarrow> node_ids_of g' = node_ids_of g \<Longrightarrow> node_seq g' = node_seq g \<Longrightarrow> ids_ok g'"
  by (simp add: ids_ok_def)

lemma ids_ok_new:
  assumes "ids_ok g" "node_ids_of g' = insert (k, node_seq g) (node_ids_of g)" "node_seq g' = node_seq g + 1" "\<forall>i. (k, i) \<notin> node_ids_of g"
  shows "ids_ok g'"
  unfolding ids_ok_def assms(2,3)
proof (intro conjI allI impI)
  fix k1 i assume "(k1, i) \<in> insert (k, node_seq g) (node_ids_of g)"
  then have "i = node_seq g \<or> i < node_seq g" using assms(1) unfolding ids_ok_def by blast
  then show "i < node_seq g + 1" by auto
next
  fix k1 i k2 j assume "(k1, i) \<in> insert (k, node_seq g) (node_ids_of g)" "(k2, j) \<in> insert (k, node_seq g) (node_ids_of g)"
  moreover have "i \<noteq> node_seq g" if "(k', i) \<in> node_ids_of g" for k' i
    using that assms(1) unfolding ids_ok_def by (metis less_irrefl)
  ultimately show "k1 = k2 \<longleftrightarrow> i = j" using assms(1,4) unfolding ids_ok_def by blast
qed

lemma node_row_ids:
  assumes "upsert_node_row c now kp db = (db', r)" "ids_ok db"
  shows "ids_ok db'"
proof (cases r)
  case (fields k i ch)
  from assms(1) [unfolded fields] show ?thesis
  proof (cases rule: upsert_node_row_cases)
    case (old n p)
    then have "node_ids_of db' = node_ids_of db"
      by (simp add: node_ids_of_def node_ids_update [of "\<lambda>m. node_key m = (c, fst kp)" "\<lambda>m. m\<lparr>n_props := p, n_updated := now\<rparr>"])
    moreover have "node_seq db' = node_seq db + 1" using old by simp
    ultimately show ?thesis using assms(2) unfolding ids_ok_def by (metis zless_add1_eq)
  next
    case (new n)
    then have "node_ids_of db' = insert ((c, fst kp), node_seq db) (node_ids_of db)" by (simp add: node_ids_of_def)
    with assms(2) show ?thesis by (rule ids_ok_new) (use new in \<open>simp_all add: find_node_absent\<close>)
  qed
qed

lemma node_rows_ids: "upsert_node_rows c now kps db = (db', rs) \<Longrightarrow> ids_ok db \<Longrightarrow> ids_ok db'"
proof (induction kps arbitrary: db rs)
  case (Cons kp kps)
  obtain db1 r rs' where "upsert_node_row c now kp db = (db1, r)" "upsert_node_rows c now kps db1 = (db', rs')"
    using Cons.prems(1) by (auto split: prod.splits)
  with Cons.IH Cons.prems(2) node_row_ids show ?case by blast
qed simp

lemma keys_dedupe_nodes:
  "fst ` set (dedupe_nodes d ns) = fst ` set d \<union> (\<lambda>n. (label_value (ns_label n), ns_canonical n)) ` set ns"
  by (induction d ns rule: dedupe_nodes.induct) (auto simp: Let_def keys_dict_set split: option.splits)

text \<open>The keys the upsert writes are ends of chains.\<close>

lemma resolved_no_alias:
  fixes c :: string
  assumes "routed db" "n \<in> set specs"
  defines "m \<equiv> resolve_node (fetch_aliases db c (map (\<lambda>n. (label_value (ns_label n), ns_canonical n)) specs)) n"
  shows "primary_of (entity_aliases db) c (label_value (ns_label m)) (ns_canonical m) = None"
proof -
  let ?l = "label_value (ns_label n)" and ?x = "ns_canonical n"
  have "map_of (fetch_aliases db c (map (\<lambda>n. (label_value (ns_label n), ns_canonical n)) specs)) (?l, ?x)
      = resolve_alias (entity_aliases db) c ?l ?x"
    using map_of_fetch_aliases [of "(?l, ?x)" "map (\<lambda>n. (label_value (ns_label n), ns_canonical n)) specs"] assms(2) by auto
  then have m: "m = (case resolve_alias (entity_aliases db) c ?l ?x of None \<Rightarrow> n | Some p \<Rightarrow> n\<lparr>ns_canonical := p\<rparr>)"
    by (simp add: m_def resolve_node_def)
  show ?thesis
  proof (cases "primary_of (entity_aliases db) c ?l ?x = None")
    case True
    then have "m = n" by (simp add: m resolve_alias_def)
    with True show ?thesis by simp
  next
    case False
    with assms(1) obtain p where "resolve_alias (entity_aliases db) c ?l ?x = Some p" "primary_of (entity_aliases db) c ?l p = None"
      by (rule routed_resolves)
    then show ?thesis by (simp add: m)
  qed
qed

lemma upsert_nodes_routed:
  assumes run: "upsert_nodes c src now specs db = (db', res)" and ok: "ids_ok db" and rt: "routed db"
  shows "ids_ok db' \<and> routed db'"
proof (cases "specs = []")
  case True
  with assms show ?thesis by (simp add: upsert_nodes_def)
next
  case False
  let ?am = "fetch_aliases db c (map (\<lambda>n. (label_value (ns_label n), ns_canonical n)) specs)"
  let ?kps = "sort_key fst (dedupe_nodes [] (map (resolve_node ?am) specs))"
  obtain db1 rows where 1: "upsert_node_rows c now ?kps db = (db1, rows)" by (rule prod.exhaust)
  have same: "node_ids_of db' = node_ids_of db1" "node_seq db' = node_seq db1"
    using run False 1 by (auto simp: upsert_nodes_def Let_def node_ids_of_def)
  have al: "entity_aliases db' = entity_aliases db" using upsert_nodes_keep(6) [OF run] .
  have keys: "fst ` set ?kps = (\<lambda>n. (label_value (ns_label n), ns_canonical n)) ` (resolve_node ?am ` set specs)"
    by (simp add: keys_dedupe_nodes)
  have "find_node db' c' (l, x) = None" if a: "primary_of (entity_aliases db) c' l x \<noteq> None" for c' l x
  proof -
    have "(l, x) \<notin> fst ` set ?kps" if "c' = c"
      using resolved_no_alias [OF rt, of _ specs c] a that unfolding keys by force
    moreover have "find_node db c' (l, x) = None" using rt a by (simp add: routed_def)
    ultimately show ?thesis using node_rows_new [OF 1, of c' "(l, x)"] unfolding find_node_absent same(1) by blast
  qed
  then have "routed db'" using rt unfolding routed_def al by blast
  moreover have "ids_ok db'" using ids_ok_same [OF node_rows_ids [OF 1 ok] same] .
  ultimately show ?thesis by blast
qed

lemma upsert_edges_seq: "upsert_edges c sm now specs ids db = Inr (db', n) \<Longrightarrow> node_seq db' = node_seq db"
  by (erule upsert_edges_cases) simp_all

lemma upsert_edges_routed:
  "upsert_edges c sm now specs ids db = Inr (db', n) \<Longrightarrow> ids_ok db \<Longrightarrow> routed db \<Longrightarrow> ids_ok db' \<and> routed db'"
  using upsert_edges_keep(1,2) [of c sm now specs ids db db' n] upsert_edges_seq [of c sm now specs ids db db' n]
    ids_ok_same [of db db'] routed_same [of db db'] by simp

lemma replay_routed:
  "replay_sources c now ids srcs db = Inr (db', n) \<Longrightarrow> ids_ok db \<Longrightarrow> routed db \<Longrightarrow> ids_ok db' \<and> routed db'"
proof (induction c now ids srcs db arbitrary: n rule: replay_sources.induct)
  case (2 c now ids src ss rest db)
  let ?sm = "\<lparr>sm_source = src, sm_extractor = None, sm_extracted_at = None\<rparr>"
  obtain db1 n1 m where 1: "upsert_edges c ?sm now ss ids db = Inr (db1, n1)" and r: "replay_sources c now ids rest db1 = Inr (db', m)"
    using "2.prems"(1) by (auto split: sum.splits prod.splits)
  with 2 upsert_edges_routed [OF 1 "2.prems"(2,3)] show ?case by blast
qed simp

lemma drain_routed:
  assumes "drain_pending_edges c now k db = Inr (db', n)" "ids_ok db" "routed db"
  shows "ids_ok db' \<and> routed db'"
  using assms(1)
proof (cases rule: drain_cases)
  case (run claimed ss db2)
  have "ids_ok (lock_parked now (map pe_id claimed) db)" "routed (lock_parked now (map pe_id claimed) db)"
    using assms(2,3) by (auto intro: ids_ok_same routed_same simp: lock_parked_def node_ids_of_def)
  from replay_routed [OF run(4) this] have "ids_ok db2" "routed db2" by simp_all
  then show ?thesis unfolding run(5) by (auto intro: ids_ok_same routed_same simp: node_ids_of_def)
qed (use assms in simp)

text \<open>A merge keeps every chain within the cap when it refuses cluster primaries, or when none of the chains it lengthens has
  eight hops already.\<close>

definition shallow :: "merge_request \<Rightarrow> graph_db \<Rightarrow> bool" where
  "shallow rq g \<longleftrightarrow> mg_refuse_primaries rq \<or>
     (\<forall>a \<in> set (mg_aliases rq). \<forall>x n. alias_chain (primary_of (entity_aliases g) (mg_customer rq) (mg_label rq)) n x a
        \<longrightarrow> n < ALIAS_CHAIN_MAX_DEPTH)"

lemma find_SomeD: "find p xs = Some x \<Longrightarrow> x \<in> set xs \<and> p x"
  by (auto simp: find_Some_iff)

lemma alias_chain_last: "alias_chain up (Suc n) x p \<Longrightarrow> \<exists>y. up y = Some p"
  by (induction n arbitrary: x) (auto split: option.splits)

lemma shallow_chain:
  assumes "shallow rq g" "merge_checks is_doc rq g = None" "a \<in> set (mg_aliases rq)"
    "alias_chain (primary_of (entity_aliases g) (mg_customer rq) (mg_label rq)) (Suc n) x a"
  shows "Suc n < ALIAS_CHAIN_MAX_DEPTH"
proof (cases "mg_refuse_primaries rq")
  case True
  from alias_chain_last [OF assms(4)] obtain r where r: "r \<in> set (entity_aliases g)" "al_customer r = mg_customer rq" "al_label r = mg_label rq" "al_primary r = a"
    by (auto simp: primary_of_def dest!: find_SomeD)
  have "filter (\<lambda>a. al_customer a = mg_customer rq \<and> al_label a = mg_label rq \<and> al_primary a \<in> set (mg_aliases rq)) (entity_aliases g) = []"
    using assms(2) True by (simp add: merge_checks_def Let_def split: if_splits)
  with r assms(3) show ?thesis by (auto simp: filter_empty_conv)
next
  case False
  with assms(1,3,4) show ?thesis unfolding shallow_def by blast
qed

lemma merge_routed:
  assumes run: "merge_cluster is_doc mid now rq db = Inr db'" and sh: "shallow rq (cl_graph db)"
    and ok: "ids_ok (cl_graph db)" and rt: "routed (cl_graph db)"
  shows "ids_ok (cl_graph db') \<and> routed (cl_graph db')"
proof
  let ?g = "cl_graph db" and ?c = "mg_customer rq" and ?l = "mg_label rq"
  from run have chk: "merge_checks is_doc rq ?g = None" and al: "entity_aliases (cl_graph db') = entity_aliases ?g @ routes mid now rq"
    and seq: "node_seq (cl_graph db') = node_seq ?g"
    by (rule merge_cluster_result; auto)+
  note ids = node_ids_merge [OF run refl ok]
  show "ids_ok (cl_graph db')" using ok unfolding ids_ok_def ids seq by blast
  show "routed (cl_graph db')" unfolding routed_def
  proof (intro allI impI)
    fix c l x assume "primary_of (entity_aliases (cl_graph db')) c l x \<noteq> None"
    then consider (old) "primary_of (entity_aliases ?g) c l x \<noteq> None"
      | (new) "primary_of (entity_aliases ?g) c l x = None" "c = ?c" "l = ?l" "x \<in> set (mg_aliases rq)"
      by (auto simp: al primary_of_append primary_of_routes split: option.splits if_splits)
    then show "find_node (cl_graph db') c (l, x) = None
      \<and> (\<exists>n < ALIAS_CHAIN_MAX_DEPTH. \<exists>p. alias_chain (primary_of (entity_aliases (cl_graph db')) c l) (Suc n) x p)"
    proof cases
      case old
      then obtain n p where np: "n < ALIAS_CHAIN_MAX_DEPTH" "alias_chain (primary_of (entity_aliases ?g) c l) (Suc n) x p"
        and "find_node ?g c (l, x) = None" using rt unfolding routed_def by blast
      moreover from this have "find_node (cl_graph db') c (l, x) = None" unfolding find_node_absent ids by blast
      moreover have "\<exists>m < ALIAS_CHAIN_MAX_DEPTH. \<exists>p. alias_chain (primary_of (entity_aliases (cl_graph db')) c l) (Suc m) x p"
      proof (cases "c = ?c \<and> l = ?l \<and> p \<in> set (mg_aliases rq)")
        case True
        then have "alias_chain (primary_of (entity_aliases (cl_graph db')) c l) (Suc (Suc n)) x (mg_primary rq)"
          using merged_chain [OF chk np(2), of mid now] unfolding al by (simp only: if_True simp_thms)
        moreover have "Suc n < ALIAS_CHAIN_MAX_DEPTH" using shallow_chain [OF sh chk] np(2) True by blast
        ultimately show ?thesis by blast
      next
        case False
        then have "alias_chain (primary_of (entity_aliases (cl_graph db')) c l) (Suc n) x p"
          using merged_chain [OF chk np(2), of mid now] unfolding al by (simp only: if_False)
        with np(1) show ?thesis by blast
      qed
      ultimately show ?thesis by blast
    next
      case new
      have "alias_chain (primary_of (entity_aliases (cl_graph db')) c l) (Suc 0) x (mg_primary rq)"
        using merged_chain [OF chk, of c l 0 x x mid now] new unfolding al by simp
      moreover have "find_node (cl_graph db') c (l, x) = None" unfolding find_node_absent ids using new by blast
      moreover have "0 < ALIAS_CHAIN_MAX_DEPTH" by (simp add: ALIAS_CHAIN_MAX_DEPTH_def)
      ultimately show ?thesis by blast
    qed
  qed
qed

text \<open>Cutting a chain at a key leaves the chains that do not pass it, and ends there the ones that do.\<close>

lemma alias_chain_cut:
  "alias_chain up n y p \<Longrightarrow> alias_chain (up(x := None)) n y p \<or> (\<exists>m \<le> n. alias_chain (up(x := None)) m y x)"
proof (induction n arbitrary: y)
  case 0
  then show ?case by auto
next
  case (Suc n)
  show ?case
  proof (cases "y = x")
    case True
    then have "alias_chain (up(x := None)) 0 y x" by simp
    then show ?thesis by blast
  next
    case False
    from Suc.prems obtain z where "up y = Some z" "alias_chain up n z p" by (auto split: option.splits)
    then have step: "alias_chain (up(x := None)) (Suc m) y q \<longleftrightarrow> alias_chain (up(x := None)) m z q" for m q using False by simp
    from Suc.IH [OF \<open>alias_chain up n z p\<close>] show ?thesis
    proof (elim disjE exE conjE)
      fix m assume "m \<le> n" "alias_chain (up(x := None)) m z x"
      then have "alias_chain (up(x := None)) (Suc m) y x" "Suc m \<le> Suc n" by (simp_all only: step Suc_le_mono)
      then show ?thesis by blast
    qed (simp only: step simp_thms)
  qed
qed

lemma primary_of_remove:
  "primary_of (filter (\<lambda>a. \<not> alias_of c l x a) t) c' l' = (if c' = c \<and> l' = l then (primary_of t c' l')(x := None) else primary_of t c' l')"
proof
  have "primary_of (filter (\<lambda>a. \<not> alias_of c l x a) t) c' l' y = (if c' = c \<and> l' = l \<and> y = x then None else primary_of t c' l' y)" for y
    by (induction t) (auto simp: primary_of_def alias_of_def)
  then show "primary_of (filter (\<lambda>a. \<not> alias_of c l x a) t) c' l' y
      = (if c' = c \<and> l' = l then (primary_of t c' l')(x := None) else primary_of t c' l') y" for y by simp
qed

lemma unmerge_result:
  assumes "unmerge_alias c l p x now db = Inr db'"
  obtains a s i where "find (\<lambda>a. alias_of c l x a \<and> al_primary a = p) (entity_aliases (cl_graph db)) = Some a"
    "find (\<lambda>s. sn_customer s = c \<and> sn_merge_id s = al_merge_id a \<and> sn_label s = l \<and> sn_canonical s = x) (node_snapshots db) = Some s"
    "find_node (cl_graph db) c (l, x) = None" "i = node_seq (cl_graph db)" "node_seq (cl_graph db') = i + 1"
    "nodes (cl_graph db') = nodes (cl_graph db) @ [restored_node s i now]
     \<or> (\<exists>q. find_node (cl_graph db) c (l, p) = Some q
          \<and> nodes (cl_graph db') = set_degrees c (edges (cl_graph db')) [n_id q, i] (nodes (cl_graph db) @ [restored_node s i now]))"
    "entity_aliases (cl_graph db') = filter (\<lambda>a. \<not> alias_of c l x a) (entity_aliases (cl_graph db))"
    "edges (cl_graph db') = restore_to c x i (restore_from c x i (edges (cl_graph db)))
       @ map (\<lambda>(j, s). restored_loop (edge_seq (cl_graph db) + int j) i s) (enumerate 0 (filter (own_loop c (al_merge_id a) x) (edge_snapshots db)))"
    "provenance (cl_graph db') = provenance (cl_graph db) @ restored_provenance s i"
  using assms by (auto simp: unmerge_alias_def Let_def split: option.splits if_splits)

lemma unmerge_routed:
  assumes run: "unmerge_alias c l p x now db = Inr db'" and ok: "ids_ok (cl_graph db)" and rt: "routed (cl_graph db)"
  shows "ids_ok (cl_graph db') \<and> routed (cl_graph db')"
  using run
proof (cases rule: unmerge_result)
  case (1 a s i)
  let ?g = "cl_graph db" and ?k = "(c, l, x)"
  have key: "node_key (restored_node s i now) = ?k" "n_id (restored_node s i now) = i"
    using find_SomeD [OF 1(2)] by (simp_all add: restored_node_def node_key_def)
  have ids: "node_ids_of (cl_graph db') = insert (?k, node_seq ?g) (node_ids_of ?g)"
    using 1(6)
  proof (elim disjE exE conjE)
    assume "nodes (cl_graph db') = nodes ?g @ [restored_node s i now]"
    then show ?thesis by (simp add: node_ids_of_def key 1(4) [symmetric])
  next
    fix q assume "nodes (cl_graph db') = set_degrees c (edges (cl_graph db')) [n_id q, i] (nodes ?g @ [restored_node s i now])"
    then show ?thesis unfolding node_ids_of_def by (simp only: node_ids_set_degrees) (simp add: key 1(4) [symmetric])
  qed
  have "ids_ok (cl_graph db')"
    by (rule ids_ok_new [OF ok ids]) (use 1(3,4,5) in \<open>simp_all add: find_node_absent\<close>)
  moreover have "routed (cl_graph db')" unfolding routed_def
  proof (intro allI impI)
    fix c' l' y assume y: "primary_of (entity_aliases (cl_graph db')) c' l' y \<noteq> None"
    note up = primary_of_remove [of c l x "entity_aliases ?g" c' l', folded 1(7)]
    from y have old: "primary_of (entity_aliases ?g) c' l' y \<noteq> None" and neq: "(c', l', y) \<noteq> (c, l, x)"
      by (auto simp: up split: if_splits)
    from old obtain n q where np: "n < ALIAS_CHAIN_MAX_DEPTH" "alias_chain (primary_of (entity_aliases ?g) c' l') (Suc n) y q"
      and "find_node ?g c' (l', y) = None" using rt unfolding routed_def by blast
    moreover from this neq have "find_node (cl_graph db') c' (l', y) = None" unfolding find_node_absent ids by blast
    moreover have "\<exists>m < ALIAS_CHAIN_MAX_DEPTH. \<exists>p. alias_chain (primary_of (entity_aliases (cl_graph db')) c' l') (Suc m) y p"
    proof (cases "c' = c \<and> l' = l")
      case True
      then have "(primary_of (entity_aliases ?g) c' l')(x := None) = primary_of (entity_aliases (cl_graph db')) c' l'"
        unfolding up by (rule if_P [symmetric])
      with alias_chain_cut [OF np(2), of x] obtain m r where "m \<le> Suc n" "alias_chain (primary_of (entity_aliases (cl_graph db')) c' l') m y r"
        by (metis le_refl)
      moreover from this(2) y have "m \<noteq> 0" by (cases m) auto
      ultimately obtain m' where "m = Suc m'" "m' < ALIAS_CHAIN_MAX_DEPTH" using np(1) by (cases m) auto
      then show ?thesis using \<open>alias_chain (primary_of (entity_aliases (cl_graph db')) c' l') m y r\<close> by blast
    next
      case False
      then have "primary_of (entity_aliases (cl_graph db')) c' l' = primary_of (entity_aliases ?g) c' l'" unfolding up by (rule if_not_P)
      then show ?thesis using np by (metis (no_types))
    qed
    ultimately show "find_node (cl_graph db') c' (l', y) = None
      \<and> (\<exists>n < ALIAS_CHAIN_MAX_DEPTH. \<exists>p. alias_chain (primary_of (entity_aliases (cl_graph db')) c' l') (Suc n) y p)" by blast
  qed
  ultimately show ?thesis by blast
qed

text \<open>The transactions that touch nodes, edges or aliases of the graph.\<close>

inductive cluster_step :: "cluster_db \<Rightarrow> cluster_db \<Rightarrow> bool" where
  merge: "merge_cluster is_doc mid now rq db = Inr db' \<Longrightarrow> shallow rq (cl_graph db) \<Longrightarrow> cluster_step db db'"
| unmerge: "unmerge_alias c l p x now db = Inr db' \<Longrightarrow> cluster_step db db'"
| persist: "persist_graph c src now all_docs persisted ns es (cl_graph db) = Inr (g, n) \<Longrightarrow> cluster_step db (db\<lparr>cl_graph := g\<rparr>)"
| drain: "drain_pending_edges c now k (cl_graph db) = Inr (g, n) \<Longrightarrow> cluster_step db (db\<lparr>cl_graph := g\<rparr>)"
| reap: "reap_expired_pending_edges c now (cl_graph db) = (g, n) \<Longrightarrow> cluster_step db (db\<lparr>cl_graph := g\<rparr>)"
| delete: "delete_edges_from_node c nl cid ty keep (cl_graph db) = (g, n) \<Longrightarrow> cluster_step db (db\<lparr>cl_graph := g\<rparr>)"

lemma persist_routed:
  assumes "persist_graph c src now all_docs persisted ns es g = Inr (g', n)" "ids_ok g" "routed g"
  shows "ids_ok g' \<and> routed g'"
proof -
  obtain g1 ids where 1: "upsert_nodes c src now (filter (keep_node all_docs persisted es) ns) g = (g1, ids)" by (rule prod.exhaust)
  then show ?thesis
    using upsert_nodes_routed [OF 1 assms(2,3)] assms(1) upsert_edges_routed [of c _ now _ ids g1 g' n] by (simp add: persist_graph_def)
qed

lemma frame_routed:
  "ids_ok g \<Longrightarrow> routed g \<Longrightarrow> node_ids_of g' = node_ids_of g \<Longrightarrow> node_seq g' = node_seq g \<Longrightarrow> entity_aliases g' = entity_aliases g
   \<Longrightarrow> ids_ok g' \<and> routed g'"
  using ids_ok_same routed_same by blast

lemma node_ids_drop: "(\<lambda>n. (node_key n, n_id n)) ` set (drop_degrees c gone ns) = (\<lambda>n. (node_key n, n_id n)) ` set ns"
  unfolding drop_degrees_def by (rule node_ids_update) simp

lemma delete_edges_frame:
  "delete_edges_from_node c nl cid ty keep g = (g', n) \<Longrightarrow>
     node_ids_of g' = node_ids_of g \<and> node_seq g' = node_seq g \<and> entity_aliases g' = entity_aliases g"
  by (cases "find_node g c (label_value nl, cid)") (simp_all add: delete_edges_from_node_def Let_def node_ids_of_def, elim conjE, hypsubst, simp add: node_ids_drop)

lemma cluster_step_routed:
  "cluster_step db db' \<Longrightarrow> ids_ok (cl_graph db) \<and> routed (cl_graph db) \<Longrightarrow> ids_ok (cl_graph db') \<and> routed (cl_graph db')"
proof (induction rule: cluster_step.induct)
  case (reap c now db g n)
  then show ?case by (auto simp: reap_expired_pending_edges_def node_ids_of_def intro: frame_routed ids_ok_same routed_same)
next
  case (delete c nl cid ty keep db g n)
  then show ?case using frame_routed [of "cl_graph db" g] delete_edges_frame [OF delete(1)] by simp
qed (simp_all add: merge_routed unmerge_routed persist_routed drain_routed)


end
