(* ===== verification/ClusterUndo.thy ===== *)
theory ClusterUndo
  imports ClusterProperties
begin

section \<open>Unmerging gives back what a merge moved\<close>

text \<open>
  The merge of one alias that snapshots no edge (it closes no loop and meets no taken lane) only moves ends and stamps lanes, row
  by row; when the lanes it stamps were empty and its alias stamps no other edge, \<^verbatim>\<open>unmerge_alias\<close> succeeds and every edge is
  back where it was, at the fresh id of the restored node.
\<close>

subsection \<open>A merge without snapshots\<close>

lemma step_snapshots: "merge_edge_row c mid pid canon ns e (t, s, q) = (t', s', q') \<Longrightarrow> \<exists>more. s' = s @ more"
  by (auto simp: merge_edge_row_def Let_def split: if_splits)

lemma fold_snapshots: "fold (merge_edge_row c mid pid canon ns) todo (t, s, q) = (t', s', q') \<Longrightarrow> \<exists>more. s' = s @ more"
proof (induction todo arbitrary: t s q)
  case (Cons e todo)
  obtain t1 s1 q1 where step: "merge_edge_row c mid pid canon ns e (t, s, q) = (t1, s1, q1)" by (rule prod_cases3)
  with Cons.IH [of t1 s1 q1] Cons.prems step_snapshots [OF step] show ?case by auto
qed simp

lemma step_clean:
  assumes "merge_edge_row c mid pid canon ns e (t, s, q) = (t', s, q')" "distinct (map g_id t)" "e \<in> set t"
  shows "t' = map (\<lambda>g. if g = e then rewrite_edge pid canon e else g) t"
    and "move_end pid (map fst canon) (g_from e) \<noteq> move_end pid (map fst canon) (g_to e)"
proof -
  have "g = e" if "g \<in> set t" "g_id g = g_id e" for g using that assms(2,3) by (auto simp: distinct_map inj_on_def)
  then show "t' = map (\<lambda>g. if g = e then rewrite_edge pid canon e else g) t"
    using assms(1) by (auto simp: merge_edge_row_def Let_def sql_update_def rewrite_edge_def split: if_splits)
  show "move_end pid (map fst canon) (g_from e) \<noteq> move_end pid (map fst canon) (g_to e)"
    using assms(1) by (auto simp: merge_edge_row_def Let_def split: if_splits)
qed

lemma fold_clean:
  assumes "fold (merge_edge_row c mid pid canon ns) todo (t, s, q) = (t', s, q')" "distinct (map g_id t)" "distinct todo" "set todo \<subseteq> set t"
  shows "t' = map (\<lambda>g. if g \<in> set todo then rewrite_edge pid canon g else g) t
    \<and> (\<forall>e \<in> set todo. move_end pid (map fst canon) (g_from e) \<noteq> move_end pid (map fst canon) (g_to e))"
  using assms
proof (induction todo arbitrary: t q)
  case (Cons e todo)
  let ?rw = "rewrite_edge pid canon"
  obtain t1 s1 q1 where step: "merge_edge_row c mid pid canon ns e (t, s, q) = (t1, s1, q1)" by (rule prod_cases3)
  then have rest: "fold (merge_edge_row c mid pid canon ns) todo (t1, s1, q1) = (t', s, q')" using Cons.prems(1) by simp
  have s1: "s1 = s" using step_snapshots [OF step] fold_snapshots [OF rest] by auto
  have e: "e \<in> set t" "e \<notin> set todo" using Cons.prems(3,4) by auto
  note clean = step_clean [OF step [unfolded s1] Cons.prems(2) e(1)]
  have other: "g_id h \<noteq> g_id e" if "h \<in> set todo" for h
    using that e Cons.prems(2,4) by (auto simp: distinct_map inj_on_def)
  have "set todo \<subseteq> set t1" using clean(1) e(2) Cons.prems(4) by force
  then have IH: "t' = map (\<lambda>g. if g \<in> set todo then ?rw g else g) t1"
      "\<forall>e \<in> set todo. move_end pid (map fst canon) (g_from e) \<noteq> move_end pid (map fst canon) (g_to e)"
    using Cons.IH rest [unfolded s1] merge_edge_row_step(1) [OF step Cons.prems(2) e(1)] Cons.prems(3) by auto
  have "?rw e \<notin> set todo" using other by (metis rewrite_edge_fields(1))
  then show ?case using IH clean e(2) by (auto simp: comp_def)
qed simp

subsection \<open>Lanes\<close>

text \<open>Moving the ends of an edge back, to the fresh id \<open>i\<close>.\<close>

definition renamed :: "string \<Rightarrow> int \<Rightarrow> int \<Rightarrow> edge_row \<Rightarrow> edge_row" where
  "renamed c old i e = (if g_customer e = c then e\<lparr>g_from := if g_from e = old then i else g_from e, g_to := if g_to e = old then i else g_to e\<rparr> else e)"

text \<open>The lanes of the tenant are ready for the alias \<open>x\<close> with node \<open>old\<close>: none is stamped \<open>x\<close>, those at \<open>old\<close> are empty on that side.\<close>

definition lanes_free :: "string \<Rightarrow> string \<Rightarrow> int \<Rightarrow> edge_row \<Rightarrow> bool" where
  "lanes_free c x old e \<longleftrightarrow> (g_customer e = c \<longrightarrow>
     g_aliased_from e \<noteq> Some x \<and> g_aliased_to e \<noteq> Some x
     \<and> (g_from e = old \<longrightarrow> g_aliased_from e = None) \<and> (g_to e = old \<longrightarrow> g_aliased_to e = None))"

lemma restore_row:
  fixes i :: int
  assumes "lanes_free c x old e" "pid \<noteq> old"
  defines "rw \<equiv> if touches_ids c [old] e then rewrite_edge pid [(old, x)] e else e"
  defines "half \<equiv> if g_customer rw = c \<and> g_aliased_from rw = Some x then rw\<lparr>g_from := i, g_aliased_from := None\<rparr> else rw"
  shows "(if g_customer half = c \<and> g_aliased_to half = Some x then half\<lparr>g_to := i, g_aliased_to := None\<rparr> else half) = renamed c old i e"
    and "edge_lane half = (g_customer e, g_type e, if g_customer e = c \<and> g_from e = old then i else g_from e,
           if g_customer e = c \<and> g_to e = old then pid else g_to e, or_empty (g_aliased_from e),
           if g_customer e = c \<and> g_to e = old then x else or_empty (g_aliased_to e))"
  using assms
  by (auto simp: lanes_free_def touches_ids_def rewrite_edge_def move_end_def renamed_def edge_lane_def or_empty_def)

definition half_lane :: "string \<Rightarrow> string \<Rightarrow> int \<Rightarrow> int \<Rightarrow> int \<Rightarrow> edge_row \<Rightarrow> string \<times> lane" where
  "half_lane c x old pid i e =
     (g_customer e, g_type e, if g_customer e = c \<and> g_from e = old then i else g_from e,
      if g_customer e = c \<and> g_to e = old then pid else g_to e, or_empty (g_aliased_from e),
      if g_customer e = c \<and> g_to e = old then x else or_empty (g_aliased_to e))"

lemma half_lane_inj:
  assumes "lanes_free c x old e" "lanes_free c x old e'" "x \<noteq> []" "g_from e \<noteq> i" "g_from e' \<noteq> i" "half_lane c x old pid i e = half_lane c x old pid i e'"
  shows "edge_lane e = edge_lane e'"
  using assms by (auto simp: half_lane_def edge_lane_def lanes_free_def or_empty_def split: if_splits option.splits)

lemma renamed_inj:
  assumes "g_from e \<noteq> i" "g_to e \<noteq> i" "g_from e' \<noteq> i" "g_to e' \<noteq> i" "edge_lane (renamed c old i e) = edge_lane (renamed c old i e')"
  shows "edge_lane e = edge_lane e'"
  using assms by (auto simp: renamed_def edge_lane_def split: if_splits)

lemma distinct_refine:
  assumes "distinct (map f xs)" "\<And>x y. x \<in> set xs \<Longrightarrow> y \<in> set xs \<Longrightarrow> h x = h y \<Longrightarrow> f x = f y"
  shows "distinct (map h xs)"
proof -
  have "distinct xs" "inj_on f (set xs)" using assms(1) by (simp_all add: distinct_map)
  then show ?thesis unfolding distinct_map using assms(2) by (metis inj_onD inj_onI)
qed

subsection \<open>The round trip\<close>

lemma single_alias:
  assumes "merge_checks is_doc rq g = None" "mg_aliases rq = [x]"
  obtains n where "find_node g (mg_customer rq) (mg_label rq, x) = Some n" "alias_canon rq g = [(n_id n, x)]" "alias_node_ids rq g = [n_id n]"
  using merge_checks_passed(2) [OF assms(1), of x] assms(2) by (auto simp: alias_canon_def alias_node_ids_def)

lemma merge_single:
  assumes run: "merge_cluster is_doc mid now rq db = Inr db1" and ok: "graph_ok (cl_graph db)" and ids: "distinct (map g_id (edges (cl_graph db)))"
    and x: "mg_aliases rq = [x]" and clean: "edge_snapshots db1 = edge_snapshots db"
    and n: "find_node (cl_graph db) (mg_customer rq) (mg_label rq, x) = Some n"
  shows "edges (cl_graph db1) = map (\<lambda>e. if touches_ids (mg_customer rq) [n_id n] e
           then rewrite_edge (primary_node_id rq (cl_graph db)) [(n_id n, x)] e else e) (edges (cl_graph db))"
proof -
  let ?g = "cl_graph db" and ?c = "mg_customer rq"
  from run have chk: "merge_checks is_doc rq ?g = None" by (rule merge_cluster_result) auto
  have canon: "alias_canon rq ?g = [(n_id n, x)]" using n x by (simp add: alias_canon_def)
  have "rewrite_edges ?c mid (primary_node_id rq ?g) [(n_id n, x)] ?g = (edges (cl_graph db1), [], snd (snd (rewrite_edges ?c mid (primary_node_id rq ?g) [(n_id n, x)] ?g)))"
    using merge_cluster_edges [OF run refl ok ids] by (simp add: canon clean)
  then have "edges (cl_graph db1) = map (\<lambda>g. if g \<in> set (filter (touches_ids ?c (map fst [(n_id n, x)])) (edges ?g))
      then rewrite_edge (primary_node_id rq ?g) [(n_id n, x)] g else g) (edges ?g)"
    unfolding rewrite_edges_def using ids by (intro conjunct1 [OF fold_clean]) (auto simp: distinct_map)
  then show ?thesis by simp
qed

lemma restored_edges:
  assumes "\<forall>e \<in> set es. lanes_free c x old e" "pid \<noteq> old"
  defines "t \<equiv> map (\<lambda>e. if touches_ids c [old] e then rewrite_edge pid [(old, x)] e else e) es"
  shows "restore_to c x i (restore_from c x i t) = map (renamed c old i) es"
    and "map edge_lane (restore_from c x i t) = map (half_lane c x old pid i) es"
  unfolding t_def restore_from_def restore_to_def sql_update_def map_map
  using assms(1) restore_row(1) [OF _ assms(2)] restore_row(2) [OF _ assms(2)] by (auto simp: half_lane_def comp_def intro!: map_cong)

lemma edge_ends_old:
  assumes "graph_ok g" "e \<in> set (edges g)"
  shows "g_from e \<noteq> node_seq g" "g_to e \<noteq> node_seq g"
  using assms unfolding graph_ok_def ends_ok_def has_end_def nodes_ok_def by (metis less_irrefl)+

lemma filter_single: "distinct xs \<Longrightarrow> x \<in> set xs \<Longrightarrow> filter ((=) x) xs = [x]"
  by (induction xs) (auto simp: filter_empty_conv)

lemma merged_tables:
  assumes run: "merge_cluster is_doc mid now rq db = Inr db1" and ok: "graph_ok (cl_graph db)" and x: "mg_aliases rq = [x]"
    and n: "find_node (cl_graph db) (mg_customer rq) (mg_label rq, x) = Some n"
  shows "entity_aliases (cl_graph db1) = entity_aliases (cl_graph db)
           @ [\<lparr>al_customer = mg_customer rq, al_label = mg_label rq, al_alias = x, al_primary = mg_primary rq, al_merge_id = mid, al_added = now\<rparr>]"
    and "node_snapshots db1 = node_snapshots db @ [snapshot_node mid (provenance (cl_graph db)) n]"
    and "find_node (cl_graph db1) (mg_customer rq) (mg_label rq, x) = None"
    and "node_seq (cl_graph db1) = node_seq (cl_graph db)"
proof -
  let ?g = "cl_graph db"
  have ids: "alias_node_ids rq ?g = [n_id n]" using n x by (simp add: alias_node_ids_def alias_canon_def)
  have key: "n \<in> set (nodes ?g)" "n_customer n = mg_customer rq" using find_node_SomeD [OF n] by (simp_all add: node_key_def)
  have nok: "nodes_ok (nodes ?g) (node_seq ?g)" using ok by (simp add: graph_ok_def)
  then have "m = n" if "m \<in> set (nodes ?g)" "n_id m = n_id n" for m using key(1) that by (auto simp: nodes_ok_def distinct_map inj_on_def)
  then have "filter (\<lambda>m. n_customer m = mg_customer rq \<and> n_id m = n_id n) (nodes ?g) = filter ((=) n) (nodes ?g)"
    using key by (intro filter_cong) auto
  also have "\<dots> = [n]" using key(1) nok by (simp add: filter_single nodes_ok_def distinct_map)
  finally have one: "filter (\<lambda>m. n_customer m = mg_customer rq \<and> n_id m = n_id n) (nodes ?g) = [n]" .
  from run refl show "entity_aliases (cl_graph db1) = entity_aliases ?g
           @ [\<lparr>al_customer = mg_customer rq, al_label = mg_label rq, al_alias = x, al_primary = mg_primary rq, al_merge_id = mid, al_added = now\<rparr>]"
    "node_snapshots db1 = node_snapshots db @ [snapshot_node mid (provenance ?g) n]" "node_seq (cl_graph db1) = node_seq ?g"
    by (rule merge_cluster_result; simp add: routes_def x ids one)+
  show "find_node (cl_graph db1) (mg_customer rq) (mg_label rq, x) = None"
    unfolding find_node_absent node_ids_merge [OF run refl nodes_ok_ids [OF nok]] by (simp add: x)
qed

lemma find_none: "\<forall>y \<in> set xs. \<not> p y \<Longrightarrow> find p (xs @ ys) = find p ys"
  by (induction xs) auto


subsection \<open>Examples\<close>

definition example_person :: "int \<Rightarrow> string \<Rightarrow> node_row" where
  "example_person i x =
     \<lparr>n_id = i, n_customer = ''acme'', n_label = ''Person'', n_canonical = x, n_props = [(''name'', JStr x)], n_created = 0, n_updated = 0,
      n_degree = 1, n_community = None, n_embedding = None\<rparr>"

definition example_cluster :: cluster_db where
  "example_cluster =
     \<lparr>cl_graph = \<lparr>nodes = [example_person 1 ''bob'', example_person 2 ''bob@x'', (example_person 3 ''doc'')\<lparr>n_degree := 2\<rparr>], node_seq = 4,
        edges = [\<lparr>g_id = 1, g_customer = ''acme'', g_type = ''AUTHORED'', g_from = 1, g_to = 3, g_props = [], g_valid_from = 0, g_valid_to = None,
                   g_source = Some ''slack'', g_confidence = ''EXTRACTED'', g_extractor = None, g_extracted_at = None, g_aliased_from = None, g_aliased_to = None\<rparr>,
                 \<lparr>g_id = 2, g_customer = ''acme'', g_type = ''AUTHORED'', g_from = 2, g_to = 3, g_props = [], g_valid_from = 0, g_valid_to = None,
                   g_source = Some ''github'', g_confidence = ''EXTRACTED'', g_extractor = None, g_extracted_at = None, g_aliased_from = None, g_aliased_to = None\<rparr>],
        edge_seq = 3, provenance = [], post_write = [], parked = [], parked_seq = 1, entity_aliases = []\<rparr>,
      merge_audit = [], node_snapshots = [], edge_snapshots = []\<rparr>"

definition example_merge :: merge_request where
  "example_merge =
     \<lparr>mg_customer = ''acme'', mg_user = ''u'', mg_label = ''Person'', mg_primary = ''bob'', mg_aliases = [''bob@x''], mg_reason = None,
      mg_refuse_primaries = True, mg_refuse_documents = True\<rparr>"

lemmas example_cluster_defs = example_person_def example_cluster_def example_merge_def

lemma example_cluster_ok: "graph_ok (cl_graph example_cluster)" "distinct (map g_id (edges (cl_graph example_cluster)))"
  by (auto simp: example_cluster_defs graph_ok_def nodes_ok_def ends_ok_def has_end_def edges_ok_def degrees_exact_def parked_ok_def
      node_key_def edge_lane_def valid_confidence_def or_empty_def)

definition example_merged :: cluster_db where
  "example_merged = (case merge_cluster (\<lambda>_. False) ''m1'' 5 example_merge example_cluster of Inr db \<Rightarrow> db | Inl _ \<Rightarrow> example_cluster)"

lemma example_merge_runs: "merge_cluster (\<lambda>_. False) ''m1'' 5 example_merge example_cluster = Inr example_merged"
proof -
  have "\<not> isl (merge_cluster (\<lambda>_. False) ''m1'' 5 example_merge example_cluster)" by code_simp
  then show ?thesis by (cases "merge_cluster (\<lambda>_. False) ''m1'' 5 example_merge example_cluster") (simp_all add: example_merged_def)
qed

lemma merge_is_quotient_witness:
  "triples ''acme'' (set (edges (cl_graph example_merged))) = {(''AUTHORED'', 1, 3)}
   \<and> resolve_alias (entity_aliases (cl_graph example_merged)) ''acme'' ''Person'' ''bob@x'' = Some ''bob''"
proof -
  have "primary_node_id example_merge (cl_graph example_cluster) = 1" "alias_node_ids example_merge (cl_graph example_cluster) = [2]"
    by code_simp+
  moreover have "quotient ''acme'' 1 [2] (set (edges (cl_graph example_cluster))) = {(''AUTHORED'', 1, 3)}"
    by (simp add: example_cluster_def quotient_insert touches_ids_def move_end_def) (simp add: quotient_def)
  ultimately show ?thesis using merge_is_quotient [OF example_merge_runs example_cluster_ok] by (simp add: example_merge_def)
qed



end
