(* ===== verification/Purge.thy ===== *)
theory Purge
  imports Deletion
begin

section \<open>Purging one source of a tenant\<close>

text \<open>
  \<^verbatim>\<open>engine/ingest/purge.py\<close> and the routes of \<^verbatim>\<open>kb/purge_routes.py\<close>: closing the gate, the cascade of deletes in one
  transaction, the sweep of the object store, the verification rounds, and the row of \<^verbatim>\<open>purge_runs\<close> that tells the caller.
  Each phase is a transaction of its own, so transactions of others run in between: \<open>gw_others\<close> says what they do before a
  phase. The object store is outside (\<open>gw_bucket\<close>: whether its bucket can be resolved; \<open>gw_up\<close>, \<open>gw_part\<close>,
  \<open>gw_fails\<close>: which requests raise, after which part, and for which keys a delete fails), as is the purge of one GitHub
  installation (\<open>gw_installation\<close>). Counts are those of the tables.
\<close>

subsection \<open>State\<close>

record cursor_row =
  cu_customer :: string
  cu_source :: string
  cu_resource :: string
  cu_value :: "string option"

record mapping_row =
  sm_system :: string
  sm_external :: string
  sm_customer :: string

record repo_row =
  cr_customer :: string
  cr_repo :: string
  cr_path :: string

record purge_result =
  pr_verified :: bool
  pr_rows_deleted :: "(string \<times> nat) list"
  pr_total_rows :: nat
  pr_r2_deleted :: nat
  pr_r2_errors :: nat
  pr_residue :: "(string \<times> nat) list"
  pr_r2_residue :: nat
  pr_rounds :: nat

record purge_run =
  pu_id :: string
  pu_customer :: string
  pu_source :: string
  pu_status :: string
  pu_result :: "purge_result option"
  pu_error :: "string option"
  pu_started :: time
  pu_finished :: "time option"

record purge_db = erase_db +
  backfill_state :: "backfill_row table"
  ingestion_cursors :: "cursor_row table"
  customer_source_mapping :: "mapping_row table"
  code_repo_state :: "repo_row table"
  github_installations :: "(string \<times> string) list"
  purge_runs :: "purge_run table"

datatype phase =
    CloseGate | Poll nat | Installation nat | DropTokens | Cascade nat | Sweep nat | CountRows nat | CountObjects nat | ReopenGate

record purge_world =
  gw_others :: "phase \<Rightarrow> purge_db \<Rightarrow> purge_db"
  gw_polls :: nat
  gw_installation :: "string \<Rightarrow> string \<Rightarrow> purge_db \<Rightarrow> purge_db \<times> bool"
  gw_bucket :: "phase \<Rightarrow> bool"
  gw_up :: "phase \<Rightarrow> nat \<Rightarrow> bool"
  gw_part :: "phase \<Rightarrow> nat \<Rightarrow> string \<Rightarrow> bool"
  gw_fails :: "phase \<Rightarrow> string \<Rightarrow> bool"

subsection \<open>What a source stands for\<close>

definition cascade_for :: "source_system \<Rightarrow> source_system list" where
  "cascade_for s = (if s = GITHUB then [GITHUB, CODE_GRAPH] else [s])"

definition cascade_values :: "source_system \<Rightarrow> string list" where
  "cascade_values s = map source_value (cascade_for s)"

definition r2_prefixes_for :: "source_system \<Rightarrow> string \<Rightarrow> string list" where
  "r2_prefixes_for s c =
     map (\<lambda>x. ''raw/'' @ source_value x @ ''/'' @ c @ ''/'') (cascade_for s)
     @ (if s = MANUAL_UPLOAD then [''manual_uploads/staging/'' @ c @ ''/''] else [])"

subsection \<open>The steps\<close>

text \<open>\<^verbatim>\<open>_Step\<close>: a DELETE, the COUNT with the same condition, and the parent sources it is for (none: all).\<close>

record purge_step =
  ps_table :: string
  ps_delete :: "string \<Rightarrow> string list \<Rightarrow> purge_db \<Rightarrow> purge_db"
  ps_count :: "string \<Rightarrow> string list \<Rightarrow> purge_db \<Rightarrow> nat"
  ps_only_for :: "source_system list"

text \<open>A DELETE and a COUNT over one table, read by \<open>get\<close> and written by \<open>put\<close>.\<close>

definition table_step ::
  "string \<Rightarrow> (purge_db \<Rightarrow> 'r table) \<Rightarrow> (('r table \<Rightarrow> 'r table) \<Rightarrow> purge_db \<Rightarrow> purge_db) \<Rightarrow> (string \<Rightarrow> string list \<Rightarrow> purge_db \<Rightarrow> 'r \<Rightarrow> bool)
   \<Rightarrow> source_system list \<Rightarrow> purge_step" where
  "table_step name get put cond only =
     \<lparr>ps_table = name, ps_delete = (\<lambda>c cas db. put (sql_delete (cond c cas db)) db),
      ps_count = (\<lambda>c cas db. sql_deleted (cond c cas db) (get db)), ps_only_for = only\<rparr>"

definition by_source_step ::
  "string \<Rightarrow> (purge_db \<Rightarrow> 'r table) \<Rightarrow> (('r table \<Rightarrow> 'r table) \<Rightarrow> purge_db \<Rightarrow> purge_db) \<Rightarrow> ('r \<Rightarrow> string) \<Rightarrow> ('r \<Rightarrow> string) \<Rightarrow> purge_step" where
  "by_source_step name get put customer src =
     table_step name get put (\<lambda>c cas _ r. customer r = c \<and> src r \<in> set cas) []"

definition purge_docs :: "string \<Rightarrow> string list \<Rightarrow> 'a stream_db_scheme \<Rightarrow> string set" where
  "purge_docs c cas db = doc_id ` {d \<in> set (documents db). doc_customer d = c \<and> doc_source d \<in> set cas}"

definition doc_joined_step ::
  "string \<Rightarrow> (purge_db \<Rightarrow> doc_child table) \<Rightarrow> ((doc_child table \<Rightarrow> doc_child table) \<Rightarrow> purge_db \<Rightarrow> purge_db) \<Rightarrow> purge_step" where
  "doc_joined_step name get put =
     table_step name get put (\<lambda>c cas db r. dc_customer r = c \<and> dc_doc r \<in> purge_docs c cas db) []"

definition queue_step :: purge_step where
  "queue_step = by_source_step ''ingestion_queue'' q_rows q_rows_update q_customer q_source"

definition backfill_step :: purge_step where
  "backfill_step = by_source_step ''backfill_state'' backfill_state backfill_state_update b_customer b_source"

definition cursors_step :: purge_step where
  "cursors_step = by_source_step ''ingestion_cursors'' ingestion_cursors ingestion_cursors_update cu_customer cu_source"

definition pending_step :: purge_step where
  "pending_step = by_source_step ''pending_edges'' pending_edges pending_edges_update pe_customer pe_source"

definition inferred_step :: purge_step where
  "inferred_step = doc_joined_step ''inferred_edges_queue'' inferred_edges_queue inferred_edges_queue_update"

definition chunks_step :: purge_step where
  "chunks_step = doc_joined_step ''chunks'' chunks chunks_update"

definition failed_step :: purge_step where
  "failed_step = doc_joined_step ''failed_chunks'' failed_chunks failed_chunks_update"

definition documents_step :: purge_step where
  "documents_step = by_source_step ''documents'' documents documents_update doc_customer doc_source"

definition acl_step :: purge_step where
  "acl_step = by_source_step ''acl_snapshots'' acl_snapshots acl_snapshots_update ac_customer ac_source"

definition events_step :: purge_step where
  "events_step = by_source_step ''ingestion_events'' ingestion_events ingestion_events_update e_customer e_source"

definition repo_step :: purge_step where
  "repo_step = table_step ''code_repo_state'' code_repo_state code_repo_state_update (\<lambda>c _ _ r. cr_customer r = c) [GITHUB]"

text \<open>\<^verbatim>\<open>_CASCADE_STEPS\<close>, in order: the rows joined to documents before the documents.\<close>

definition CASCADE_STEPS :: "purge_step list" where
  "CASCADE_STEPS =
     [queue_step, backfill_step, cursors_step, pending_step, inferred_step, chunks_step,
      failed_step, documents_step, acl_step, events_step, repo_step]"

definition runs_for :: "source_system \<Rightarrow> purge_step \<Rightarrow> bool" where
  "runs_for s st \<longleftrightarrow> ps_only_for st = [] \<or> s \<in> set (ps_only_for st)"

fun run_steps :: "string \<Rightarrow> string list \<Rightarrow> purge_step list \<Rightarrow> purge_db \<Rightarrow> purge_db \<times> (string \<times> nat) list" where
  "run_steps c cas [] db = (db, [])"
| "run_steps c cas (st # sts) db =
     (let (db', counts) = run_steps c cas sts (ps_delete st c cas db) in (db', (ps_table st, ps_count st c cas db) # counts))"

subsection \<open>The graph\<close>

definition sourced_provenance :: "string \<Rightarrow> string list \<Rightarrow> provenance_row \<Rightarrow> bool" where
  "sourced_provenance c cas p \<longleftrightarrow> pv_customer p = c \<and> pv_source p \<in> set cas"

definition sourced_edge :: "string \<Rightarrow> string list \<Rightarrow> edge_row \<Rightarrow> bool" where
  "sourced_edge c cas e \<longleftrightarrow> g_customer e = c \<and> (case g_source e of None \<Rightarrow> False | Some s \<Rightarrow> s \<in> set cas)"

definition orphan_node :: "string \<Rightarrow> int list \<Rightarrow> provenance_row table \<Rightarrow> node_row \<Rightarrow> bool" where
  "orphan_node c ids pvs n \<longleftrightarrow>
     n_customer n = c \<and> n_id n \<in> set ids \<and> \<not> (\<exists>p \<in> set pvs. pv_node p = n_id n \<and> pv_customer p = n_customer n)"

definition queue_orphan :: "string \<Rightarrow> node_row table \<Rightarrow> post_write_row \<Rightarrow> bool" where
  "queue_orphan c ns r \<longleftrightarrow> pw_customer r = c \<and> \<not> (\<exists>n \<in> set ns. n_id n = pw_node r \<and> n_customer n = pw_customer r)"

text \<open>Provenance, edges by source, the nodes just left without provenance (their remaining provenance and edges go by foreign
  key), queue rows of nodes that are gone.\<close>

definition purge_graph :: "string \<Rightarrow> string list \<Rightarrow> purge_db \<Rightarrow> purge_db \<times> (string \<times> nat) list" where
  "purge_graph c cas db =
     (let touched = map pv_node (filter (sourced_provenance c cas) (graph_node_provenance db));
          pvs = sql_delete (sourced_provenance c cas) (graph_node_provenance db);
          es = sql_delete (sourced_edge c cas) (graph_edges db);
          gone = map n_id (filter (orphan_node c touched pvs) (graph_nodes db));
          ns = sql_delete (orphan_node c touched pvs) (graph_nodes db)
      in (db\<lparr>graph_node_provenance := sql_delete (\<lambda>p. pv_node p \<in> set gone) pvs,
             graph_edges := sql_delete (\<lambda>e. g_from e \<in> set gone \<or> g_to e \<in> set gone) es,
             graph_nodes := ns,
             node_post_write_queue := sql_delete (queue_orphan c ns) (node_post_write_queue db)\<rparr>,
          [(''graph_node_provenance'', length touched), (''graph_edges'', sql_deleted (sourced_edge c cas) (graph_edges db)),
           (''graph_nodes'', length gone), (''node_post_write_queue'', sql_deleted (queue_orphan c ns) (node_post_write_queue db))]))"

text \<open>\<^verbatim>\<open>_run_cascade\<close>: one transaction.\<close>

definition run_cascade :: "string \<Rightarrow> source_system \<Rightarrow> purge_db \<Rightarrow> purge_db \<times> (string \<times> nat) list" where
  "run_cascade c s db =
     (let (db1, counts) = run_steps c (cascade_values s) (filter (runs_for s) CASCADE_STEPS) db;
          (db2, more) = purge_graph c (cascade_values s) db1
      in (db2, counts @ more))"

text \<open>\<^verbatim>\<open>_count_residue\<close>: the non-zero counts.\<close>

definition residue_node :: "string \<Rightarrow> string list \<Rightarrow> provenance_row table \<Rightarrow> node_row \<Rightarrow> bool" where
  "residue_node c cas pvs n \<longleftrightarrow>
     n_customer n = c \<and> (\<exists>p \<in> set pvs. pv_node p = n_id n \<and> pv_customer p = n_customer n \<and> pv_source p \<in> set cas)"

definition count_residue :: "string \<Rightarrow> source_system \<Rightarrow> purge_db \<Rightarrow> (string \<times> nat) list" where
  "count_residue c s db =
     (let cas = cascade_values s in
      filter (\<lambda>kv. snd kv \<noteq> 0)
        (map (\<lambda>st. (ps_table st, ps_count st c cas db)) (filter (runs_for s) CASCADE_STEPS)
         @ [(''graph_node_provenance'', sql_deleted (sourced_provenance c cas) (graph_node_provenance db)),
            (''graph_edges'', sql_deleted (sourced_edge c cas) (graph_edges db)),
            (''graph_nodes'', sql_deleted (residue_node c cas (graph_node_provenance db)) (graph_nodes db)),
            (''node_post_write_queue'', sql_deleted (queue_orphan c (graph_nodes db)) (node_post_write_queue db))]))"

subsection \<open>The gate\<close>

datatype purge_error = LegacyStillStopping | InstallationFailed | StorageDown

definition set_source_purge_gate :: "string \<Rightarrow> bool \<Rightarrow> 'a tenant_db_scheme \<Rightarrow> 'a tenant_db_scheme" where
  "set_source_purge_gate c b db = db\<lparr>github_source_gates := dict_set c b (github_source_gates db)\<rparr>"

definition legacy_running :: "string \<Rightarrow> purge_db \<Rightarrow> bool" where
  "legacy_running c db \<longleftrightarrow> (\<exists>r \<in> set (backfill_state db). b_customer r = c \<and> b_source r = ''github'' \<and> b_status r = BF_RUNNING)"

text \<open>The loop that waits for the legacy producer: \<open>left\<close> more polls before the deadline.\<close>

fun wait_stopped :: "purge_world \<Rightarrow> string \<Rightarrow> nat \<Rightarrow> nat \<Rightarrow> purge_db \<Rightarrow> purge_db \<times> bool" where
  "wait_stopped w c i left db =
     (let db1 = gw_others w (Poll i) db in
      if \<not> legacy_running c db1 then (db1, True)
      else case left of 0 \<Rightarrow> (db1, False) | Suc k \<Rightarrow> wait_stopped w c (i + 1) k db1)"

declare wait_stopped.simps [simp del]

fun purge_installations :: "purge_world \<Rightarrow> string \<Rightarrow> nat \<Rightarrow> string list \<Rightarrow> purge_db \<Rightarrow> purge_db \<times> bool" where
  "purge_installations w c i [] db = (db, True)"
| "purge_installations w c i (x # xs) db =
     (let (db1, ok) = gw_installation w c x (gw_others w (Installation i) db)
      in if ok then purge_installations w c (i + 1) xs db1 else (db1, False))"

definition drop_tokens :: "string \<Rightarrow> source_system \<Rightarrow> purge_db \<Rightarrow> purge_db" where
  "drop_tokens c s db =
     db\<lparr>integration_tokens := filter (\<lambda>t. fst t \<noteq> (c, source_value s)) (integration_tokens db),
        customer_source_mapping := sql_delete (\<lambda>m. sm_customer m = c \<and> sm_system m \<in> set (cascade_values s)) (customer_source_mapping db)\<rparr>"

definition close_gate :: "purge_world \<Rightarrow> string \<Rightarrow> source_system \<Rightarrow> purge_db \<Rightarrow> purge_db \<times> (purge_error + unit)" where
  "close_gate w c s db =
     (let finish = (\<lambda>d. (drop_tokens c s (gw_others w DropTokens d), Inr ())) in
      if s = GITHUB
      then let db1 = set_source_purge_gate c True (gw_others w CloseGate db);
               ids = sort (map snd (filter (\<lambda>r. fst r = c) (github_installations db1)));
               (db2, stopped) = wait_stopped w c 0 (gw_polls w) db1
           in if \<not> stopped then (db2, Inl LegacyStillStopping)
              else let (db3, ok) = purge_installations w c 0 ids db2
                   in if ok then finish db3 else (db3, Inl InstallationFailed)
      else finish db)"

subsection \<open>The object store\<close>

fun sweep_prefixes :: "purge_world \<Rightarrow> phase \<Rightarrow> string \<Rightarrow> nat \<Rightarrow> string list \<Rightarrow> purge_db \<Rightarrow> purge_db \<times> (purge_error + nat \<times> nat)" where
  "sweep_prefixes w ph c i [] db = (db, Inr (0, 0))"
| "sweep_prefixes w ph c i (pre # pres) db =
     (if \<not> gw_up w ph i then (cut_objects c (\<lambda>k. starts_with k pre \<and> gw_part w ph i k) db, Inl StorageDown)
      else let (db1, d) = delete_prefix (gw_fails w ph) c pre db; e = length (filter (gw_fails w ph) (list_keys db c pre)) in
           case sweep_prefixes w ph c (i + 1) pres db1 of
             (db2, Inl err) \<Rightarrow> (db2, Inl err) | (db2, Inr (ds, es)) \<Rightarrow> (db2, Inr (d + ds, e + es)))"

definition sweep_r2 :: "purge_world \<Rightarrow> phase \<Rightarrow> string \<Rightarrow> source_system \<Rightarrow> purge_db \<Rightarrow> purge_db \<times> (purge_error + nat \<times> nat)" where
  "sweep_r2 w ph c s db = (if \<not> gw_bucket w ph then (db, Inr (0, 0)) else sweep_prefixes w ph c 0 (r2_prefixes_for s c) db)"

fun count_prefixes :: "purge_world \<Rightarrow> phase \<Rightarrow> string \<Rightarrow> nat \<Rightarrow> string list \<Rightarrow> purge_db \<Rightarrow> purge_error + nat" where
  "count_prefixes w ph c i [] db = Inr 0"
| "count_prefixes w ph c i (pre # pres) db =
     (if \<not> gw_up w ph i then Inl StorageDown
      else case count_prefixes w ph c (i + 1) pres db of Inl e \<Rightarrow> Inl e | Inr n \<Rightarrow> Inr (length (list_keys db c pre) + n))"

definition count_r2_residue :: "purge_world \<Rightarrow> phase \<Rightarrow> string \<Rightarrow> source_system \<Rightarrow> purge_db \<Rightarrow> purge_error + nat" where
  "count_r2_residue w ph c s db = (if \<not> gw_bucket w ph then Inr 0 else count_prefixes w ph c 0 (r2_prefixes_for s c) db)"

subsection \<open>The purge\<close>

definition MAX_VERIFY_ROUNDS :: nat where "MAX_VERIFY_ROUNDS = 5"

text \<open>\<^verbatim>\<open>totals[table] = totals.get(table, 0) + n\<close>\<close>

definition add_counts :: "(string \<times> nat) list \<Rightarrow> (string \<times> nat) list \<Rightarrow> (string \<times> nat) list" where
  "add_counts totals deleted =
     fold (\<lambda>kv d. dict_set (fst kv) ((case map_of d (fst kv) of None \<Rightarrow> 0 | Some m \<Rightarrow> m) + snd kv) d) deleted totals"

record progress =
  pg_totals :: "(string \<times> nat) list"
  pg_deleted :: nat
  pg_errors :: nat

text \<open>A cascade and a sweep.\<close>

definition purge_pass ::
  "purge_world \<Rightarrow> string \<Rightarrow> source_system \<Rightarrow> nat \<Rightarrow> progress \<Rightarrow> purge_db \<Rightarrow> purge_db \<times> (purge_error + progress)" where
  "purge_pass w c s rd pg db =
     (let (db1, counts) = run_cascade c s (gw_others w (Cascade rd) db) in
      case sweep_r2 w (Sweep rd) c s (gw_others w (Sweep rd) db1) of
        (db2, Inl e) \<Rightarrow> (db2, Inl e)
      | (db2, Inr (d, e)) \<Rightarrow>
          (db2, Inr \<lparr>pg_totals = add_counts (pg_totals pg) counts, pg_deleted = pg_deleted pg + d, pg_errors = pg_errors pg + e\<rparr>))"

text \<open>The verification loop, \<open>left\<close> rounds to go.\<close>

fun verify_rounds ::
  "purge_world \<Rightarrow> string \<Rightarrow> source_system \<Rightarrow> nat \<Rightarrow> nat \<Rightarrow> progress \<Rightarrow> purge_db
   \<Rightarrow> purge_db \<times> (purge_error + progress \<times> (string \<times> nat) list \<times> nat \<times> nat)" where
  "verify_rounds w c s 0 rd pg db = (db, Inr (pg, [], 0, rd))"
| "verify_rounds w c s (Suc left) rd pg db =
     (let db1 = gw_others w (CountRows (rd + 1)) db; res = count_residue c s db1; db2 = gw_others w (CountObjects (rd + 1)) db1 in
      case count_r2_residue w (CountObjects (rd + 1)) c s db2 of
        Inl e \<Rightarrow> (db2, Inl e)
      | Inr n \<Rightarrow>
          if (res = [] \<and> n = 0) \<or> left = 0 then (db2, Inr (pg, res, n, rd + 1))
          else case purge_pass w c s (rd + 1) pg db2 of
                 (db3, Inl e) \<Rightarrow> (db3, Inl e)
               | (db3, Inr pg') \<Rightarrow> verify_rounds w c s left (rd + 1) pg' db3)"

definition purge_source ::
  "purge_world \<Rightarrow> string \<Rightarrow> source_system \<Rightarrow> purge_db \<Rightarrow> purge_db \<times> (purge_error + purge_result)" where
  "purge_source w c s db =
     (case close_gate w c s db of
        (db1, Inl e) \<Rightarrow> (db1, Inl e)
      | (db1, Inr _) \<Rightarrow>
        (case purge_pass w c s 0 \<lparr>pg_totals = [], pg_deleted = 0, pg_errors = 0\<rparr> db1 of
           (db2, Inl e) \<Rightarrow> (db2, Inl e)
         | (db2, Inr pg) \<Rightarrow>
           (case verify_rounds w c s MAX_VERIFY_ROUNDS 0 pg db2 of
              (db3, Inl e) \<Rightarrow> (db3, Inl e)
            | (db3, Inr (pg', res, n, rounds)) \<Rightarrow>
                let verified = (res = [] \<and> n = 0 \<and> pg_errors pg' = 0);
                    db4 = (if verified \<and> s = GITHUB then set_source_purge_gate c False (gw_others w ReopenGate db3) else db3)
                in (db4, Inr \<lparr>pr_verified = verified, pr_rows_deleted = filter (\<lambda>kv. snd kv \<noteq> 0) (pg_totals pg'),
                              pr_total_rows = sum_list (map snd (pg_totals pg')), pr_r2_deleted = pg_deleted pg',
                              pr_r2_errors = pg_errors pg', pr_residue = res, pr_r2_residue = n, pr_rounds = rounds\<rparr>))))"

subsection \<open>The record of a purge\<close>

definition create_purge_run :: "string \<Rightarrow> time \<Rightarrow> string \<Rightarrow> source_system \<Rightarrow> purge_db \<Rightarrow> purge_db" where
  "create_purge_run pid now c s db =
     db\<lparr>purge_runs := purge_runs db @ [\<lparr>pu_id = pid, pu_customer = c, pu_source = source_value s, pu_status = ''running'',
          pu_result = None, pu_error = None, pu_started = now, pu_finished = None\<rparr>]\<rparr>"

definition finish_purge_run :: "string \<Rightarrow> string \<Rightarrow> purge_result option \<Rightarrow> string option \<Rightarrow> time \<Rightarrow> purge_db \<Rightarrow> purge_db" where
  "finish_purge_run c pid res err now db =
     (let status = (if (err \<noteq> None \<and> err \<noteq> Some []) \<or> \<not> (case res of None \<Rightarrow> False | Some r \<Rightarrow> pr_verified r) then ''failed'' else ''done'') in
      db\<lparr>purge_runs := sql_update (\<lambda>r. pu_customer r = c \<and> pu_id r = pid)
           (\<lambda>r. r\<lparr>pu_status := status, pu_result := res, pu_error := err, pu_finished := Some now\<rparr>) (purge_runs db)\<rparr>)"

definition get_purge_run :: "string \<Rightarrow> string \<Rightarrow> purge_db \<Rightarrow> purge_run option" where
  "get_purge_run c pid db = find (\<lambda>r. pu_id r = pid \<and> pu_customer r = c) (purge_runs db)"

definition latest_purge_run :: "string \<Rightarrow> source_system \<Rightarrow> purge_db \<Rightarrow> purge_run option" where
  "latest_purge_run c s db =
     (case sql_select (\<lambda>r. pu_customer r = c \<and> pu_source r = source_value s) (\<lambda>r. - pu_started r) 1 (purge_runs db) of
        [] \<Rightarrow> None | r # _ \<Rightarrow> Some r)"

subsection \<open>The routes\<close>

definition PURGEABLE :: "source_system list" where
  "PURGEABLE = [SLACK, LINEAR, GITHUB, NOTION, SENTRY, GRANOLA]"

definition resolve_source :: "string \<Rightarrow> string + source_system" where
  "resolve_source raw =
     (case source_of_value raw of
        None \<Rightarrow> Inl ''unknown source''
      | Some s \<Rightarrow> if s \<in> set PURGEABLE then Inr s else Inl ''not independently purgeable'')"

definition error_text :: "purge_error \<Rightarrow> string" where
  "error_text e =
     (case e of LegacyStillStopping \<Rightarrow> ''RuntimeError: Legacy GitHub history is still stopping; retry source removal''
      | InstallationFailed \<Rightarrow> ''installation purge failed'' | StorageDown \<Rightarrow> ''StorageUnavailable'')"

text \<open>\<^verbatim>\<open>_run_and_record\<close>: the outcome is the row. A task that is cancelled in a state \<open>d\<close> (\<open>cancelled = Some d\<close>) marks its
  run failed and ends.\<close>

definition run_and_record ::
  "purge_world \<Rightarrow> string \<Rightarrow> source_system \<Rightarrow> string \<Rightarrow> time \<Rightarrow> purge_db option \<Rightarrow> purge_db \<Rightarrow> purge_db" where
  "run_and_record w c s pid now cancelled db =
     (case cancelled of
        Some d \<Rightarrow> finish_purge_run c pid None (Some ''cancelled (worker shutdown)'') now d
      | None \<Rightarrow>
          (case purge_source w c s db of
             (db', Inr res) \<Rightarrow> finish_purge_run c pid (Some res) None now db'
           | (db', Inl e) \<Rightarrow> finish_purge_run c pid None (Some (error_text e)) now db'))"

text \<open>\<^verbatim>\<open>start_purge\<close>: what the request does itself; the task it starts is \<open>run_and_record\<close>.\<close>

definition start_purge :: "string option \<Rightarrow> string \<Rightarrow> string \<Rightarrow> time \<Rightarrow> purge_db \<Rightarrow> string + (purge_db \<times> source_system)" where
  "start_purge customer raw pid now db =
     (case customer of None \<Rightarrow> Inl ''missing X-Prbe-Customer''
      | Some c \<Rightarrow> if c = [] then Inl ''missing X-Prbe-Customer''
        else case resolve_source raw of Inl e \<Rightarrow> Inl e | Inr s \<Rightarrow> Inr (create_purge_run pid now c s db, s))"

datatype purge_answer = NoRun | Answer purge_run bool

definition answer :: "purge_run \<Rightarrow> purge_answer" where
  "answer r = Answer r (case pu_result r of None \<Rightarrow> False | Some x \<Rightarrow> pr_verified x)"

definition purge_status :: "string option \<Rightarrow> string option \<Rightarrow> string option \<Rightarrow> purge_db \<Rightarrow> string + purge_answer" where
  "purge_status customer pid src db =
     (case customer of None \<Rightarrow> Inl ''missing X-Prbe-Customer''
      | Some c \<Rightarrow> if c = [] then Inl ''missing X-Prbe-Customer''
        else if pid \<noteq> None \<and> pid \<noteq> Some []
        then (case get_purge_run c (the pid) db of None \<Rightarrow> Inl ''unknown purge_id'' | Some r \<Rightarrow> Inr (answer r))
        else if src \<noteq> None \<and> src \<noteq> Some []
        then (case resolve_source (the src) of Inl e \<Rightarrow> Inl e
              | Inr s \<Rightarrow> (case latest_purge_run c s db of None \<Rightarrow> Inr NoRun | Some r \<Rightarrow> Inr (answer r)))
        else Inl ''provide purge_id or source'')"

end
