(* ===== verification/PurgeProperties.thy ===== *)
theory PurgeProperties
  imports Purge
begin

section \<open>What a purge leaves\<close>

text \<open>
  The contract of a cascade step is the locale \<open>cascade_step\<close>: its DELETE leaves nothing its COUNT sees, only removes rows,
  and does nothing when the COUNT is zero; a COUNT that is zero stays zero when rows disappear. Every step of the cascade is an
  instance, and any list of instances leaves no residue, spares what no step selects, and is idle when there is no residue.
  From it: a purge that reports \<^verbatim>\<open>verified\<close> saw nothing left, an undisturbed purge verifies in its first round, a second one
  deletes nothing, the source stays disconnected, and other tenants and sources keep their rows.
\<close>

subsection \<open>The contract of a step\<close>

text \<open>\<open>fewer db' db\<close>: every table the purge touches has only rows it had before.\<close>

definition fewer :: "purge_db \<Rightarrow> purge_db \<Rightarrow> bool" where
  "fewer db' db \<longleftrightarrow>
     set (q_rows db') \<subseteq> set (q_rows db) \<and> set (backfill_state db') \<subseteq> set (backfill_state db)
     \<and> set (ingestion_cursors db') \<subseteq> set (ingestion_cursors db) \<and> set (pending_edges db') \<subseteq> set (pending_edges db)
     \<and> set (inferred_edges_queue db') \<subseteq> set (inferred_edges_queue db) \<and> set (chunks db') \<subseteq> set (chunks db)
     \<and> set (failed_chunks db') \<subseteq> set (failed_chunks db) \<and> set (documents db') \<subseteq> set (documents db)
     \<and> set (acl_snapshots db') \<subseteq> set (acl_snapshots db) \<and> set (ingestion_events db') \<subseteq> set (ingestion_events db)
     \<and> set (code_repo_state db') \<subseteq> set (code_repo_state db)"

lemma fewer_refl [simp]: "fewer db db"
  by (simp add: fewer_def)

lemma fewer_trans: "fewer a b \<Longrightarrow> fewer b d \<Longrightarrow> fewer a d"
  unfolding fewer_def by (elim conjE, intro conjI) (erule (1) subset_trans)+

locale cascade_step =
  fixes st :: purge_step
  assumes emptied: "ps_count st c cas (ps_delete st c cas db) = 0"
    and removes: "fewer (ps_delete st c cas db) db"
    and stays_empty: "fewer db' db \<Longrightarrow> ps_count st c cas db = 0 \<Longrightarrow> ps_count st c cas db' = 0"
    and idle: "ps_count st c cas db = 0 \<Longrightarrow> ps_delete st c cas db = db"
begin

lemma twice: "ps_delete st c cas (ps_delete st c cas db) = ps_delete st c cas db"
  by (rule idle) (rule emptied)

end

lemma sql_deleted_0: "sql_deleted p t = 0 \<longleftrightarrow> (\<forall>r \<in> set t. \<not> p r)"
  by (auto simp: sql_deleted_def filter_empty_conv)

lemma sql_delete_none: "\<forall>r \<in> set t. \<not> p r \<Longrightarrow> sql_delete p t = t"
  by (simp add: sql_delete_def)

text \<open>What a table step owes, over its table.\<close>

lemma table_step_contract:
  assumes "\<And>f db. get (put f db) = f (get db)" "\<And>db f. f (get db) = get db \<Longrightarrow> put f db = db"
    and "\<And>p db. fewer (put (sql_delete p) db) db"
    and "\<And>c cas db db' r. fewer db' db \<Longrightarrow> cond c cas db' r \<Longrightarrow> cond c cas db r" "\<And>db' db. fewer db' db \<Longrightarrow> set (get db') \<subseteq> set (get db)"
  shows "cascade_step (table_step name get put cond only)"
proof (unfold_locales, goal_cases)
  case (1 c cas db)
  have "\<not> cond c cas (put (sql_delete (cond c cas db)) db) r" if "r \<in> set (get db)" "\<not> cond c cas db r" for r
    using that assms(3,4) by blast
  then show ?case by (simp add: table_step_def sql_deleted_0 assms(1))
next
  case (2 c cas db)
  show ?case by (simp add: table_step_def assms(3))
next
  case (3 db' db c cas)
  then show ?case using assms(4,5) unfolding table_step_def by (simp add: sql_deleted_0) blast
next
  case (4 c cas db)
  then show ?case by (simp add: table_step_def sql_deleted_0 sql_delete_none assms(2))
qed

text \<open>Every step keeps the contract.\<close>

lemma record_same:
  fixes db :: purge_db
  shows "f (q_rows db) = q_rows db \<Longrightarrow> q_rows_update f db = db"
    "f1 (backfill_state db) = backfill_state db \<Longrightarrow> backfill_state_update f1 db = db"
    "f2 (ingestion_cursors db) = ingestion_cursors db \<Longrightarrow> ingestion_cursors_update f2 db = db"
    "f3 (pending_edges db) = pending_edges db \<Longrightarrow> pending_edges_update f3 db = db"
    "f4 (inferred_edges_queue db) = inferred_edges_queue db \<Longrightarrow> inferred_edges_queue_update f4 db = db"
    "f5 (chunks db) = chunks db \<Longrightarrow> chunks_update f5 db = db"
    "f6 (failed_chunks db) = failed_chunks db \<Longrightarrow> failed_chunks_update f6 db = db"
    "f7 (documents db) = documents db \<Longrightarrow> documents_update f7 db = db"
    "f8 (acl_snapshots db) = acl_snapshots db \<Longrightarrow> acl_snapshots_update f8 db = db"
    "f9 (ingestion_events db) = ingestion_events db \<Longrightarrow> ingestion_events_update f9 db = db"
    "f10 (code_repo_state db) = code_repo_state db \<Longrightarrow> code_repo_state_update f10 db = db"
  by (cases db; simp)+

interpretation queue_law: cascade_step queue_step
  unfolding queue_step_def by_source_step_def
  by (rule table_step_contract) (auto simp: fewer_def record_same)

interpretation backfill_law: cascade_step backfill_step
  unfolding backfill_step_def by_source_step_def
  by (rule table_step_contract) (auto simp: fewer_def record_same)

interpretation cursors_law: cascade_step cursors_step
  unfolding cursors_step_def by_source_step_def
  by (rule table_step_contract) (auto simp: fewer_def record_same)

interpretation pending_law: cascade_step pending_step
  unfolding pending_step_def by_source_step_def
  by (rule table_step_contract) (auto simp: fewer_def record_same)

interpretation inferred_law: cascade_step inferred_step
  unfolding inferred_step_def doc_joined_step_def
  by (rule table_step_contract) (auto simp: fewer_def record_same purge_docs_def)

interpretation chunks_law: cascade_step chunks_step
  unfolding chunks_step_def doc_joined_step_def
  by (rule table_step_contract) (auto simp: fewer_def record_same purge_docs_def)

interpretation failed_law: cascade_step failed_step
  unfolding failed_step_def doc_joined_step_def
  by (rule table_step_contract) (auto simp: fewer_def record_same purge_docs_def)

interpretation documents_law: cascade_step documents_step
  unfolding documents_step_def by_source_step_def
  by (rule table_step_contract) (auto simp: fewer_def record_same)

interpretation acl_law: cascade_step acl_step
  unfolding acl_step_def by_source_step_def
  by (rule table_step_contract) (auto simp: fewer_def record_same)

interpretation events_law: cascade_step events_step
  unfolding events_step_def by_source_step_def
  by (rule table_step_contract) (auto simp: fewer_def record_same)

interpretation repo_law: cascade_step repo_step
  unfolding repo_step_def 
  by (rule table_step_contract) (auto simp: fewer_def record_same)

lemma CASCADE_STEPS_contract: "st \<in> set CASCADE_STEPS \<Longrightarrow> cascade_step st"
  unfolding CASCADE_STEPS_def
  using queue_law.cascade_step_axioms backfill_law.cascade_step_axioms cursors_law.cascade_step_axioms pending_law.cascade_step_axioms
    inferred_law.cascade_step_axioms chunks_law.cascade_step_axioms failed_law.cascade_step_axioms documents_law.cascade_step_axioms
    acl_law.cascade_step_axioms events_law.cascade_step_axioms repo_law.cascade_step_axioms
  by auto

subsection \<open>The cascade\<close>

lemma run_steps_clean:
  assumes "\<forall>st \<in> set sts. cascade_step st" "run_steps c cas sts db = (db', counts)"
  shows "fewer db' db \<and> (\<forall>st \<in> set sts. ps_count st c cas db' = 0)"
  using assms
proof (induction sts arbitrary: db counts)
  case (Cons st sts)
  obtain counts' where r: "run_steps c cas sts (ps_delete st c cas db) = (db', counts')"
    using Cons.prems(2) by (auto split: prod.splits)
  with Cons have "fewer db' (ps_delete st c cas db)" "\<forall>st \<in> set sts. ps_count st c cas db' = 0" by auto
  moreover have "cascade_step st" using Cons.prems(1) by simp
  ultimately show ?case
    using cascade_step.removes [of st c cas db] cascade_step.emptied [of st c cas db] cascade_step.stays_empty [of st db' "ps_delete st c cas db" c cas]
    by (auto intro: fewer_trans)
qed simp

lemma run_steps_idle:
  assumes "\<forall>st \<in> set sts. cascade_step st" "\<forall>st \<in> set sts. ps_count st c cas db = 0"
  shows "run_steps c cas sts db = (db, map (\<lambda>st. (ps_table st, 0)) sts)"
  using assms by (induction sts) (auto simp: cascade_step.idle)

lemmas step_defs = queue_step_def backfill_step_def cursors_step_def pending_step_def inferred_step_def chunks_step_def failed_step_def
  documents_step_def acl_step_def events_step_def repo_step_def by_source_step_def doc_joined_step_def table_step_def

text \<open>A step leaves everything but its table.\<close>

definition same_rest :: "purge_db \<Rightarrow> purge_db \<Rightarrow> bool" where
  "same_rest db' db \<longleftrightarrow>
     graph_nodes db' = graph_nodes db \<and> graph_edges db' = graph_edges db \<and> graph_node_provenance db' = graph_node_provenance db
     \<and> node_post_write_queue db' = node_post_write_queue db \<and> objects db' = objects db \<and> integration_tokens db' = integration_tokens db
     \<and> github_source_gates db' = github_source_gates db \<and> purge_runs db' = purge_runs db"

lemma step_rest: "st \<in> set CASCADE_STEPS \<Longrightarrow> same_rest (ps_delete st c cas db) db"
  unfolding CASCADE_STEPS_def by (auto simp: same_rest_def step_defs)

lemma run_steps_rest: "set sts \<subseteq> set CASCADE_STEPS \<Longrightarrow> run_steps c cas sts db = (db', counts) \<Longrightarrow> same_rest db' db"
proof (induction sts arbitrary: db counts)
  case (Cons st sts)
  obtain counts' where "run_steps c cas sts (ps_delete st c cas db) = (db', counts')" using Cons.prems(2) by (auto split: prod.splits)
  with Cons have "same_rest db' (ps_delete st c cas db)" by auto
  with step_rest [of st c cas db] Cons.prems(1) show ?case by (simp add: same_rest_def)
qed (simp add: same_rest_def)

lemma purge_graph_frame:
  "purge_graph c cas db = (db', counts) \<Longrightarrow> fewer db' db \<and> fewer db db' \<and> objects db' = objects db \<and> integration_tokens db' = integration_tokens db
     \<and> github_source_gates db' = github_source_gates db \<and> purge_runs db' = purge_runs db"
  by (auto simp: purge_graph_def Let_def fewer_def)

text \<open>What the graph keeps of the purged source: nothing.\<close>

lemma purge_graph_clean:
  assumes "purge_graph c cas db = (db', counts)"
  shows "\<forall>p \<in> set (graph_node_provenance db'). \<not> sourced_provenance c cas p" "\<forall>e \<in> set (graph_edges db'). \<not> sourced_edge c cas e"
    "\<forall>r \<in> set (node_post_write_queue db'). \<not> queue_orphan c (graph_nodes db') r"
proof -
  let ?touched = "map pv_node (filter (sourced_provenance c cas) (graph_node_provenance db))"
  let ?pvs = "sql_delete (sourced_provenance c cas) (graph_node_provenance db)"
  let ?gone = "map n_id (filter (orphan_node c ?touched ?pvs) (graph_nodes db))"
  have g: "graph_node_provenance db' = sql_delete (\<lambda>p. pv_node p \<in> set ?gone) ?pvs"
    "graph_edges db' = sql_delete (\<lambda>e. g_from e \<in> set ?gone \<or> g_to e \<in> set ?gone) (sql_delete (sourced_edge c cas) (graph_edges db))"
    "node_post_write_queue db' = sql_delete (queue_orphan c (graph_nodes db')) (node_post_write_queue db)"
    using assms unfolding purge_graph_def Let_def by auto
  show "\<forall>p \<in> set (graph_node_provenance db'). \<not> sourced_provenance c cas p" unfolding g(1) by simp
  show "\<forall>e \<in> set (graph_edges db'). \<not> sourced_edge c cas e" unfolding g(2) by simp
  show "\<forall>r \<in> set (node_post_write_queue db'). \<not> queue_orphan c (graph_nodes db') r" by (subst g(3)) simp
qed

definition rows_purged :: "string \<Rightarrow> source_system \<Rightarrow> purge_db \<Rightarrow> bool" where
  "rows_purged c s db \<longleftrightarrow>
     (let cas = set (cascade_values s) in
      (\<forall>r \<in> set (q_rows db). \<not> (q_customer r = c \<and> q_source r \<in> cas))
      \<and> (\<forall>r \<in> set (backfill_state db). \<not> (b_customer r = c \<and> b_source r \<in> cas))
      \<and> (\<forall>r \<in> set (ingestion_cursors db). \<not> (cu_customer r = c \<and> cu_source r \<in> cas))
      \<and> (\<forall>r \<in> set (pending_edges db). \<not> (pe_customer r = c \<and> pe_source r \<in> cas))
      \<and> (\<forall>r \<in> set (documents db). \<not> (doc_customer r = c \<and> doc_source r \<in> cas))
      \<and> (\<forall>r \<in> set (acl_snapshots db). \<not> (ac_customer r = c \<and> ac_source r \<in> cas))
      \<and> (\<forall>r \<in> set (ingestion_events db). \<not> (e_customer r = c \<and> e_source r \<in> cas))
      \<and> (s = GITHUB \<longrightarrow> (\<forall>r \<in> set (code_repo_state db). cr_customer r \<noteq> c)))"

definition purged :: "string \<Rightarrow> source_system \<Rightarrow> purge_db \<Rightarrow> bool" where
  "purged c s db \<longleftrightarrow>
     rows_purged c s db
     \<and> (\<forall>p \<in> set (graph_node_provenance db). \<not> (pv_customer p = c \<and> pv_source p \<in> set (cascade_values s)))
     \<and> (\<forall>e \<in> set (graph_edges db). \<not> (g_customer e = c \<and> g_source e \<in> Some ` set (cascade_values s)))
     \<and> (\<forall>r \<in> set (node_post_write_queue db). \<not> (pw_customer r = c \<and> (\<forall>n \<in> set (graph_nodes db). n_id n = pw_node r \<longrightarrow> n_customer n \<noteq> c)))"

lemma sourced_edge_iff: "sourced_edge c cas e \<longleftrightarrow> g_customer e = c \<and> g_source e \<in> Some ` set cas"
  by (auto simp: sourced_edge_def split: option.splits)

lemma residue_nodes_of: "\<forall>p \<in> set pvs. \<not> sourced_provenance c cas p \<Longrightarrow> \<not> residue_node c cas pvs n"
  by (auto simp: residue_node_def sourced_provenance_def)

lemma count_residue_split:
  "count_residue c s db = [] \<longleftrightarrow> (\<forall>st \<in> set (filter (runs_for s) CASCADE_STEPS). ps_count st c (cascade_values s) db = 0)
      \<and> (\<forall>p \<in> set (graph_node_provenance db). \<not> sourced_provenance c (cascade_values s) p)
      \<and> (\<forall>e \<in> set (graph_edges db). \<not> sourced_edge c (cascade_values s) e)
      \<and> (\<forall>n \<in> set (graph_nodes db). \<not> residue_node c (cascade_values s) (graph_node_provenance db) n)
      \<and> (\<forall>r \<in> set (node_post_write_queue db). \<not> queue_orphan c (graph_nodes db) r)"
proof -
  have no_counts: "filter (\<lambda>kv. snd kv \<noteq> 0) xs = [] \<longleftrightarrow> (\<forall>kv \<in> set xs. snd kv = (0::nat))" for xs :: "(string \<times> nat) list"
    by (simp add: filter_empty_conv)
  show ?thesis unfolding count_residue_def Let_def no_counts by (simp add: ball_Un sql_deleted_0) blast
qed

text \<open>The verification finds nothing exactly when nothing of the source is left.\<close>

lemma count_residue_iff: "count_residue c s db = [] \<longleftrightarrow> purged c s db"
proof -
  let ?cas = "cascade_values s"
  have steps: "(\<forall>st \<in> set (filter (runs_for s) CASCADE_STEPS). ps_count st c ?cas db = 0) \<longleftrightarrow> rows_purged c s db"
    unfolding CASCADE_STEPS_def rows_purged_def Let_def
    by (auto simp: runs_for_def step_defs sql_deleted_0 purge_docs_def)
  show ?thesis
    using residue_nodes_of [of "graph_node_provenance db" c ?cas]
    unfolding count_residue_split steps purged_def sourced_edge_iff sourced_provenance_def queue_orphan_def by blast
qed

lemma run_cascade_purged: "run_cascade c s db = (db', counts) \<Longrightarrow> purged c s db'"
proof -
  assume run: "run_cascade c s db = (db', counts)"
  let ?sts = "filter (runs_for s) CASCADE_STEPS" and ?cas = "cascade_values s"
  obtain db1 k1 k2 where 1: "run_steps c ?cas ?sts db = (db1, k1)" and 2: "purge_graph c ?cas db1 = (db', k2)"
    using run by (auto simp: run_cascade_def split: prod.splits)
  have contract: "\<forall>st \<in> set ?sts. cascade_step st" using CASCADE_STEPS_contract by simp
  have "\<forall>st \<in> set ?sts. ps_count st c ?cas db' = 0"
    using run_steps_clean [OF contract 1] purge_graph_frame [OF 2] contract cascade_step.stays_empty by blast
  moreover have "\<forall>n \<in> set (graph_nodes db'). \<not> residue_node c ?cas (graph_node_provenance db') n"
    using residue_nodes_of purge_graph_clean(1) [OF 2] by blast
  ultimately have "count_residue c s db' = []"
    using purge_graph_clean [OF 2] unfolding count_residue_split by blast
  then show ?thesis by (simp add: count_residue_iff)
qed

subsection \<open>A verified purge\<close>

definition no_objects :: "string \<Rightarrow> source_system \<Rightarrow> 'a sup_db_scheme \<Rightarrow> bool" where
  "no_objects c s db \<longleftrightarrow> (\<forall>pre \<in> set (r2_prefixes_for s c). list_keys db c pre = [])"

lemma count_prefixes_0: "count_prefixes w ph c i pres db = Inr 0 \<Longrightarrow> \<forall>pre \<in> set pres. list_keys db c pre = []"
  by (induction pres arbitrary: i) (auto split: if_splits sum.splits)

lemma verify_rounds_saw:
  "verify_rounds w c s left rd pg db = (db', Inr (pg', [], 0, rounds)) \<Longrightarrow> left \<noteq> 0 \<Longrightarrow>
   \<exists>k db1. purged c s db1 \<and> db' = gw_others w (CountObjects k) db1 \<and> (gw_bucket w (CountObjects k) \<longrightarrow> no_objects c s db')"
proof (induction w c s left rd pg db rule: verify_rounds.induct)
  case (2 w c s left rd pg db)
  let ?db1 = "gw_others w (CountRows (rd + 1)) db" and ?ph = "CountObjects (rd + 1)"
  let ?db2 = "gw_others w ?ph ?db1"
  obtain n where n: "count_r2_residue w ?ph c s ?db2 = Inr n"
    using "2.prems"(1) by (cases "count_r2_residue w ?ph c s ?db2") (simp_all add: Let_def)
  show ?case
  proof (cases "(count_residue c s ?db1 = [] \<and> n = 0) \<or> left = 0")
    case True
    then have "db' = ?db2" "count_residue c s ?db1 = []" "n = 0" using "2.prems"(1) n by (auto simp: Let_def)
    moreover have "gw_bucket w ?ph \<Longrightarrow> no_objects c s ?db2"
      using n \<open>n = 0\<close> count_prefixes_0 [of w ?ph c 0 "r2_prefixes_for s c"] by (simp add: count_r2_residue_def no_objects_def)
    ultimately show ?thesis using count_residue_iff by blast
  next
    case False
    obtain db3 pg3 where pass: "purge_pass w c s (rd + 1) pg ?db2 = (db3, Inr pg3)"
      using "2.prems"(1) n False by (auto simp: Let_def split: prod.splits sum.splits)
    then have "verify_rounds w c s left (rd + 1) pg3 db3 = (db', Inr (pg', [], 0, rounds))"
      using "2.prems"(1) n False by (auto simp: Let_def split: if_splits)
    then show ?thesis using "2.IH" n False pass by simp
  qed
qed simp

lemma purge_source_verified:
  assumes "purge_source w c s db = (db', Inr res)" "pr_verified res"
  obtains pg left rd pg' rounds db2 db3 where "verify_rounds w c s MAX_VERIFY_ROUNDS 0 pg db2 = (db3, Inr (pg', [], 0, rounds))"
    "db' = (if s = GITHUB then set_source_purge_gate c False (gw_others w ReopenGate db3) else db3)"
  using assms by (auto simp: purge_source_def Let_def split: prod.splits sum.splits if_splits)


subsection \<open>An undisturbed purge\<close>

definition undisturbed :: "purge_world \<Rightarrow> bool" where
  "undisturbed w \<longleftrightarrow> (\<forall>ph d. gw_others w ph d = d) \<and> (\<forall>ph i. gw_up w ph i) \<and> (\<forall>ph k. \<not> gw_fails w ph k)
     \<and> (\<forall>c x d. snd (gw_installation w c x d)) \<and> (\<forall>ph ph'. gw_bucket w ph = gw_bucket w ph')"

lemma list_keys_cut: "list_keys (cut_objects c p db) c pre = filter (\<lambda>k. \<not> p k) (list_keys db c pre)"
proof -
  have "filter (\<lambda>k. starts_with k pre) (map (snd \<circ> fst) (filter (\<lambda>ob. fst (fst ob) = c) (filter (\<lambda>ob. \<not> (fst (fst ob) = c \<and> p (snd (fst ob)))) obs)))
      = filter (\<lambda>k. \<not> p k) (filter (\<lambda>k. starts_with k pre) (map (snd \<circ> fst) (filter (\<lambda>ob. fst (fst ob) = c) obs)))" for obs :: "((string \<times> string) \<times> string) list"
    by (induction obs) auto
  then show ?thesis by (simp add: list_keys_def cut_objects_def)
qed

lemma sweep_prefixes_all:
  assumes "undisturbed w"
  shows "\<exists>p d. sweep_prefixes w ph c i pres db = (cut_objects c p db, Inr (d, 0)) \<and> (\<forall>k. p k \<longleftrightarrow> (\<exists>pre \<in> set pres. starts_with k pre))
    \<and> ((\<forall>pre \<in> set pres. list_keys db c pre = []) \<longrightarrow> d = 0)"
proof (induction pres arbitrary: i db)
  case Nil
  show ?case by (intro exI [of _ "\<lambda>_. False"] exI [of _ 0]) (simp add: cut_objects_def)
next
  case (Cons pre pres)
  have up: "gw_up w ph i" "gw_fails w ph = (\<lambda>k. False)" using assms by (auto simp: undisturbed_def)
  let ?db1 = "cut_objects c (\<lambda>k. starts_with k pre) db"
  obtain p d where p: "sweep_prefixes w ph c (i + 1) pres ?db1 = (cut_objects c p ?db1, Inr (d, 0))"
      "\<forall>k. p k \<longleftrightarrow> (\<exists>pre \<in> set pres. starts_with k pre)" "(\<forall>pre \<in> set pres. list_keys ?db1 c pre = []) \<longrightarrow> d = 0"
    using Cons.IH by blast
  have cut2: "cut_objects c p ?db1 = cut_objects c (\<lambda>k. starts_with k pre \<or> p k) db"
    unfolding cut_objects_def by (simp, intro arg_cong [of _ _ "\<lambda>t. db\<lparr>objects := t\<rparr>"] filter_cong refl) blast
  show ?case
    using p up by (intro exI [of _ "\<lambda>k. starts_with k pre \<or> p k"] exI [of _ "length (list_keys db c pre) + d"])
      (auto simp: delete_prefix_def cut2 list_keys_cut)
qed

lemma purged_same_tables:
  "fewer db' db \<Longrightarrow> graph_nodes db' = graph_nodes db \<Longrightarrow> graph_edges db' = graph_edges db \<Longrightarrow> graph_node_provenance db' = graph_node_provenance db
   \<Longrightarrow> node_post_write_queue db' = node_post_write_queue db \<Longrightarrow> purged c s db \<Longrightarrow> purged c s db'"
  unfolding purged_def rows_purged_def Let_def by (auto simp: fewer_def)

lemma purged_cut: "purged c s db \<Longrightarrow> purged c s (cut_objects c' p db)"
  by (rule purged_same_tables [of _ db]) (simp_all add: cut_objects_def fewer_def)

lemma purged_gate: "purged c s db \<Longrightarrow> purged c s (set_source_purge_gate c' b db)"
  by (rule purged_same_tables [of _ db]) (simp_all add: set_source_purge_gate_def fewer_def)

lemma purged_tokens: "purged c s db \<Longrightarrow> purged c s (drop_tokens c' s' db)"
  by (rule purged_same_tables [of _ db]) (simp_all add: drop_tokens_def fewer_def)

lemma no_objects_same: "objects db' = objects db \<Longrightarrow> no_objects c s db' = no_objects c s db"
  by (simp add: no_objects_def list_keys_def)

lemma run_cascade_frame:
  assumes "run_cascade c s db = (db', counts)"
  shows "objects db' = objects db" "integration_tokens db' = integration_tokens db" "github_source_gates db' = github_source_gates db"
    "purge_runs db' = purge_runs db" "fewer db' db"
proof -
  obtain db1 k1 k2 where 1: "run_steps c (cascade_values s) (filter (runs_for s) CASCADE_STEPS) db = (db1, k1)"
    and 2: "purge_graph c (cascade_values s) db1 = (db', k2)"
    using assms by (auto simp: run_cascade_def split: prod.splits)
  have "same_rest db1 db" by (rule run_steps_rest [OF _ 1]) auto
  then show "objects db' = objects db" "integration_tokens db' = integration_tokens db" "github_source_gates db' = github_source_gates db"
    "purge_runs db' = purge_runs db" using purge_graph_frame [OF 2] by (simp_all add: same_rest_def)
  show "fewer db' db" using run_steps_clean [OF _ 1] CASCADE_STEPS_contract purge_graph_frame [OF 2] fewer_trans by auto
qed

lemma purge_pass_undisturbed:
  assumes "undisturbed w"
  shows "\<exists>db' pg'. purge_pass w c s rd pg db = (db', Inr pg') \<and> purged c s db' \<and> (gw_bucket w ph \<longrightarrow> no_objects c s db') \<and> pg_errors pg' = pg_errors pg"
proof -
  obtain db1 counts where cas: "run_cascade c s db = (db1, counts)" by (rule prod.exhaust)
  note p = run_cascade_purged [OF cas]
  have q: "gw_others w x d = d" for x d using assms by (simp add: undisturbed_def)
  show ?thesis
  proof (cases "gw_bucket w (Sweep rd)")
    case False
    then have "\<not> gw_bucket w ph" using assms by (auto simp: undisturbed_def)
    with False p show ?thesis by (simp add: purge_pass_def q cas sweep_r2_def)
  next
    case True
    obtain pr d where sw: "sweep_prefixes w (Sweep rd) c 0 (r2_prefixes_for s c) db1 = (cut_objects c pr db1, Inr (d, 0))"
      and pr: "\<forall>k. pr k \<longleftrightarrow> (\<exists>pre \<in> set (r2_prefixes_for s c). starts_with k pre)"
      using sweep_prefixes_all [OF assms] by blast
    have "k \<in> set (list_keys db1 c pre) \<Longrightarrow> starts_with k pre" for k pre by (simp add: list_keys_def)
    then have "no_objects c s (cut_objects c pr db1)"
      using pr by (auto simp: no_objects_def list_keys_cut filter_empty_conv)
    then show ?thesis using True purged_cut [OF p] by (simp add: purge_pass_def q cas sweep_r2_def sw)
  qed
qed

lemma count_prefixes_none:
  "undisturbed w \<Longrightarrow> \<forall>pre \<in> set pres. list_keys db c pre = [] \<Longrightarrow> count_prefixes w ph c i pres db = Inr 0"
  by (induction pres arbitrary: i) (auto simp: undisturbed_def)

lemma verify_undisturbed:
  assumes "undisturbed w" "purged c s db" "gw_bucket w (CountObjects 1) \<longrightarrow> no_objects c s db"
  shows "verify_rounds w c s MAX_VERIFY_ROUNDS 0 pg db = (db, Inr (pg, [], 0, 1))"
proof -
  have q: "gw_others w x d = d" for x d using assms(1) by (simp add: undisturbed_def)
  have "count_r2_residue w (CountObjects (Suc 0)) c s db = Inr 0"
    using assms(1,3) count_prefixes_none by (auto simp: count_r2_residue_def no_objects_def)
  then show ?thesis using assms(2) by (simp add: MAX_VERIFY_ROUNDS_def eval_nat_numeral q count_residue_iff)
qed

lemma purge_installations_ok: "undisturbed w \<Longrightarrow> snd (purge_installations w c i xs db)"
proof (induction xs arbitrary: i db)
  case (Cons x xs)
  then have q: "gw_others w ph d = d" "snd (gw_installation w c x d)" for ph d by (simp_all add: undisturbed_def)
  then show ?case using Cons q(2) [of db] by (cases "gw_installation w c x db") (simp add: Let_def)
qed simp

lemma close_gate_undisturbed:
  assumes "undisturbed w" "s = GITHUB \<longrightarrow> \<not> legacy_running c db"
  shows "\<exists>db'. close_gate w c s db = (drop_tokens c s db', Inr ())"
proof -
  have q: "gw_others w x d = d" for x d using assms(1) by (simp add: undisturbed_def)
  let ?db1 = "set_source_purge_gate c True db" and ?ids = "sort (map snd (filter (\<lambda>r. fst r = c) (github_installations (set_source_purge_gate c True db))))"
  obtain db3 ok where i: "purge_installations w c 0 ?ids ?db1 = (db3, ok)" by (rule prod.exhaust)
  then have ok using purge_installations_ok [OF assms(1), of c 0 ?ids ?db1] by simp
  moreover have "legacy_running c ?db1 = legacy_running c db" by (simp add: legacy_running_def set_source_purge_gate_def)
  ultimately show ?thesis using assms(2) i by (auto simp: close_gate_def Let_def q wait_stopped.simps [of w c 0])
qed


subsection \<open>A second purge\<close>

lemma purge_graph_idle:
  assumes "purged c s db"
  shows "\<exists>counts. purge_graph c (cascade_values s) db = (db, counts) \<and> (\<forall>kv \<in> set counts. snd kv = 0)"
proof -
  let ?cas = "cascade_values s"
  from assms have p: "\<forall>p \<in> set (graph_node_provenance db). \<not> sourced_provenance c ?cas p" "\<forall>e \<in> set (graph_edges db). \<not> sourced_edge c ?cas e"
    "\<forall>r \<in> set (node_post_write_queue db). \<not> queue_orphan c (graph_nodes db) r"
    using count_residue_iff [of c s db] by (simp_all add: count_residue_split)
  have none: "filter (sourced_provenance c ?cas) (graph_node_provenance db) = []" using p(1) by (simp add: filter_empty_conv)
  have "orphan_node c [] pvs n = False" for pvs n by (simp add: orphan_node_def)
  then show ?thesis using p none
    by (simp add: purge_graph_def Let_def sql_delete_none sql_deleted_0 [THEN iffD2])
qed

lemma run_cascade_idle:
  assumes "purged c s db"
  shows "\<exists>counts. run_cascade c s db = (db, counts) \<and> (\<forall>kv \<in> set counts. snd kv = 0)"
proof -
  have "\<forall>st \<in> set (filter (runs_for s) CASCADE_STEPS). ps_count st c (cascade_values s) db = 0"
    using assms count_residue_iff [of c s db] by (simp add: count_residue_split)
  then have "run_steps c (cascade_values s) (filter (runs_for s) CASCADE_STEPS) db = (db, map (\<lambda>st. (ps_table st, 0)) (filter (runs_for s) CASCADE_STEPS))"
    using CASCADE_STEPS_contract by (intro run_steps_idle) auto
  then show ?thesis using purge_graph_idle [OF assms] by (auto simp: run_cascade_def)
qed

lemma add_counts_zero:
  "\<forall>kv \<in> set counts. snd kv = 0 \<Longrightarrow> \<forall>kv \<in> set totals. snd kv = (0::nat) \<Longrightarrow> \<forall>kv \<in> set (add_counts totals counts). snd kv = 0"
proof (induction counts arbitrary: totals)
  case (Cons kv counts)
  have v: "(case map_of totals (fst kv) of None \<Rightarrow> 0 | Some m \<Rightarrow> m) + snd kv = 0"
    using Cons.prems by (auto split: option.splits dest!: map_of_SomeD)
  have "add_counts totals (kv # counts) = add_counts (dict_set (fst kv) 0 totals) counts" by (simp add: add_counts_def v [simplified])
  moreover have "\<forall>kv' \<in> set (dict_set (fst kv) 0 totals). snd kv' = 0"
    using Cons.prems(2) set_dict_set_subset [of "fst kv" 0 totals] by (metis insertE snd_conv subsetD)
  ultimately show ?case using Cons.IH Cons.prems(1) by simp
qed (simp add: add_counts_def)

text \<open>Purging twice deletes nothing the second time: after an undisturbed purge, an undisturbed second one (the GitHub
  installations being gone or purged to no effect) deletes no row and no object, and verifies again.\<close>

theorem second_purge_deletes_nothing:
  assumes "undisturbed w" "purged c s db" "gw_bucket w CloseGate \<longrightarrow> no_objects c s db" "\<forall>x d. gw_installation w c x d = (d, True)"
  shows "\<exists>db' res. purge_source w c s db = (db', Inr res) \<and> pr_verified res \<and> pr_total_rows res = 0 \<and> pr_rows_deleted res = [] \<and> pr_r2_deleted res = 0"
proof -
  have q: "gw_others w x d = d" "gw_bucket w x = gw_bucket w CloseGate" for x d using assms(1) unfolding undisturbed_def by blast+
  have inst: "purge_installations w c i xs d = (d, True)" for i xs d by (induction xs arbitrary: i) (simp_all add: q(1) assms(4))
  have "\<not> legacy_running c db" if "s = GITHUB"
    using assms(2) that by (auto simp: legacy_running_def purged_def rows_purged_def cascade_values_def cascade_for_def Let_def)
  then have "close_gate w c s db = (drop_tokens c s (if s = GITHUB then set_source_purge_gate c True db else db), Inr ())"
    by (auto simp: close_gate_def Let_def q(1) inst legacy_running_def set_source_purge_gate_def wait_stopped.simps [of w c 0])
  then obtain db1 where g: "close_gate w c s db = (db1, Inr ())" and p: "purged c s db1" and o: "objects db1 = objects db"
  proof -
    let ?d = "if s = GITHUB then set_source_purge_gate c True db else db"
    have "purged c s ?d" using purged_gate [OF assms(2)] assms(2) by auto
    then have "purged c s (drop_tokens c s ?d)" by (rule purged_tokens)
    moreover have "objects (drop_tokens c s ?d) = objects db" by (simp add: drop_tokens_def set_source_purge_gate_def)
    ultimately
    show ?thesis using that \<open>close_gate w c s db = (drop_tokens c s ?d, Inr ())\<close> by blast
  qed
  obtain counts where cas: "run_cascade c s db1 = (db1, counts)" "\<forall>kv \<in> set counts. snd kv = 0" using run_cascade_idle [OF p] by blast
  obtain db2 where sw: "sweep_r2 w (Sweep 0) c s db1 = (db2, Inr (0, 0))" and p2: "purged c s db2"
    and n2: "gw_bucket w (CountObjects 1) \<longrightarrow> no_objects c s db2"
  proof (cases "gw_bucket w CloseGate")
    case False
    then have "\<not> gw_bucket w (Sweep 0)" "\<not> gw_bucket w (CountObjects 1)" using q(2) by blast+
    then show ?thesis using that [of db1] p by (simp add: sweep_r2_def)
  next
    case True
    then have "no_objects c s db1" using assms(3) no_objects_same [OF o] by blast
    moreover obtain pr d where "sweep_prefixes w (Sweep 0) c 0 (r2_prefixes_for s c) db1 = (cut_objects c pr db1, Inr (d, 0))"
      "(\<forall>pre \<in> set (r2_prefixes_for s c). list_keys db1 c pre = []) \<longrightarrow> d = 0" using sweep_prefixes_all [OF assms(1)] by metis
    ultimately show ?thesis using that [of "cut_objects c pr db1"] True purged_cut [OF p]
      by (auto simp: sweep_r2_def q(2) [of "Sweep 0"] no_objects_def list_keys_cut)
  qed
  have z: "\<forall>kv \<in> set (add_counts [] counts). snd kv = 0" using add_counts_zero [OF cas(2), of "[]"] by simp
  have v: "verify_rounds w c s MAX_VERIFY_ROUNDS 0 pg db2 = (db2, Inr (pg, [], 0, 1))" for pg using verify_undisturbed [OF assms(1) p2 n2] .
  show ?thesis using z
    by (simp add: purge_source_def g purge_pass_def q(1) cas(1) sw v Let_def filter_empty_conv)
qed

subsection \<open>The source stays disconnected\<close>

text \<open>While a purge runs nobody reconnects the source: others leave its token gone and the GitHub gate closed.\<close>

definition keeps_out :: "purge_world \<Rightarrow> string \<Rightarrow> source_system \<Rightarrow> bool" where
  "keeps_out w c s \<longleftrightarrow>
     (\<forall>ph d. token_status d c s = None \<longrightarrow> token_status (gw_others w ph d) c s = None)
     \<and> (\<forall>ph d. map_of (github_source_gates d) c = Some True \<longrightarrow> map_of (github_source_gates (gw_others w ph d)) c = Some True)
     \<and> (\<forall>x d. map_of (github_source_gates d) c = Some True \<longrightarrow> map_of (github_source_gates (fst (gw_installation w c x d))) c = Some True)"

lemma token_gone: "s \<in> set OAUTH_SOURCES \<Longrightarrow> token_status d c s = None \<Longrightarrow> \<not> is_source_connected d c s"
  by (auto simp: is_source_connected_def)

lemma gate_closed: "map_of (github_source_gates d) c = Some True \<Longrightarrow> \<not> is_source_connected d c GITHUB"
  by (simp add: is_source_connected_def OAUTH_SOURCES_def)

lemma token_frame: "integration_tokens d' = integration_tokens d \<Longrightarrow> token_status d' c s = token_status d c s"
  by (simp add: token_status_def)

lemma token_dropped: "token_status (drop_tokens c s d) c s = None"
  by (auto simp: token_status_def drop_tokens_def map_of_eq_None_iff)

lemma sweep_tokens: "integration_tokens (fst (sweep_r2 w ph c s d)) = integration_tokens d"
proof -
  have "integration_tokens (fst (sweep_prefixes w ph c i pres d)) = integration_tokens d" for i pres
  proof (induction pres arbitrary: i d)
    case (Cons pre pres)
    let ?d = "cut_objects c (\<lambda>k. starts_with k pre \<and> \<not> gw_fails w ph k) d"
    obtain d2 r where r: "sweep_prefixes w ph c (i + 1) pres ?d = (d2, r)" by (rule prod.exhaust)
    have "integration_tokens d2 = integration_tokens d" using Cons.IH [of "i + 1" ?d] r by (simp add: cut_objects_def)
    then show ?case using r by (cases r) (auto simp: delete_prefix_def cut_objects_def)
  qed simp
  then show ?thesis by (simp add: sweep_r2_def)
qed

lemma pass_keeps_out:
  assumes "keeps_out w c s" "token_status d c s = None"
  shows "token_status (fst (purge_pass w c s rd pg d)) c s = None"
proof -
  obtain d1 counts where cas: "run_cascade c s (gw_others w (Cascade rd) d) = (d1, counts)" by (rule prod.exhaust)
  have "token_status d1 c s = None" using token_frame [OF run_cascade_frame(2) [OF cas]] assms by (simp add: keeps_out_def)
  then have "token_status (fst (sweep_r2 w (Sweep rd) c s (gw_others w (Sweep rd) d1))) c s = None"
    using token_frame [OF sweep_tokens] assms(1) by (simp add: keeps_out_def)
  then show ?thesis by (auto simp: purge_pass_def cas split: prod.splits sum.splits)
qed

lemma verify_keeps_out:
  "keeps_out w c s \<Longrightarrow> token_status d c s = None \<Longrightarrow> token_status (fst (verify_rounds w c s left rd pg d)) c s = None"
proof (induction w c s left rd pg d rule: verify_rounds.induct)
  case (2 w c s left rd pg d)
  let ?d2 = "gw_others w (CountObjects (rd + 1)) (gw_others w (CountRows (rd + 1)) d)"
  have 1: "token_status ?d2 c s = None" using "2.prems" by (simp add: keeps_out_def)
  obtain d3 r where p: "purge_pass w c s (rd + 1) pg ?d2 = (d3, r)" by (rule prod.exhaust)
  have 3: "token_status d3 c s = None" using pass_keeps_out [OF "2.prems"(1) 1, of "rd + 1" pg] p by simp
  show ?case using 1 3 "2.IH" "2.prems"(1) p by (auto simp: Let_def split: sum.splits)
qed simp

lemma wait_keeps_gate:
  "keeps_out w c s \<Longrightarrow> map_of (github_source_gates d) c = Some True \<Longrightarrow> map_of (github_source_gates (fst (wait_stopped w c i left d))) c = Some True"
proof (induction w c i left d rule: wait_stopped.induct)
  case (1 w c i left d)
  have "map_of (github_source_gates (gw_others w (Poll i) d)) c = Some True" using "1.prems" by (simp add: keeps_out_def)
  then show ?case using 1 by (simp add: Let_def wait_stopped.simps [of w c i left d] split: nat.splits)
qed

lemma installations_keep_gate:
  "keeps_out w c s \<Longrightarrow> map_of (github_source_gates d) c = Some True \<Longrightarrow> map_of (github_source_gates (fst (purge_installations w c i xs d))) c = Some True"
proof (induction xs arbitrary: i d)
  case (Cons x xs)
  let ?d = "gw_others w (Installation i) d"
  have "map_of (github_source_gates (fst (gw_installation w c x ?d))) c = Some True" using Cons.prems by (simp add: keeps_out_def)
  then show ?case using Cons by (auto simp: Let_def split: prod.splits)
qed simp

lemma map_of_dict_set_same: "map_of (dict_set k v d) k = Some v"
  by (induction k v d rule: dict_set.induct) auto

lemma close_gate_out:
  assumes "keeps_out w c s" "close_gate w c s d = (d', r)"
  shows "(r = Inr () \<longrightarrow> token_status d' c s = None) \<and> (r \<noteq> Inr () \<longrightarrow> s = GITHUB \<and> map_of (github_source_gates d') c = Some True)"
proof (cases "s = GITHUB")
  case False
  then show ?thesis using assms(2) by (auto simp: close_gate_def token_dropped)
next
  case True
  let ?d1 = "set_source_purge_gate c True (gw_others w CloseGate d)"
  let ?ids = "sort (map snd (filter (\<lambda>r. fst r = c) (github_installations ?d1)))"
  obtain d2 ok where 2: "wait_stopped w c 0 (gw_polls w) ?d1 = (d2, ok)" by (rule prod.exhaust)
  obtain d3 ok3 where 3: "purge_installations w c 0 ?ids d2 = (d3, ok3)" by (rule prod.exhaust)
  have g2: "map_of (github_source_gates d2) c = Some True"
    using wait_keeps_gate [OF assms(1), of ?d1 0 "gw_polls w"] unfolding 2 by (simp add: set_source_purge_gate_def map_of_dict_set_same)
  moreover have "map_of (github_source_gates d3) c = Some True" using installations_keep_gate [OF assms(1) g2] 3 by (metis fst_conv)
  ultimately show ?thesis using assms(2) True by (auto simp: close_gate_def Let_def 2 3 token_dropped split: if_splits)
qed

text \<open>Claim C39. Purging closes the gate for good. When nobody reconnects the source meanwhile, then however the purge ends (verified or
  not, or raising in any phase), the source is not connected afterwards, so no producer enqueues for it any more.\<close>

theorem purged_source_disconnected:
  assumes "keeps_out w c s" "s \<in> set OAUTH_SOURCES"
  shows "\<not> is_source_connected (fst (purge_source w c s db)) c s"
proof -
  obtain d1 r where 1: "close_gate w c s db = (d1, r)" by (rule prod.exhaust)
  note g = close_gate_out [OF assms(1) 1]
  show ?thesis
  proof (cases r)
    case (Inl e)
    then have "fst (purge_source w c s db) = d1" by (simp add: purge_source_def 1)
    then show ?thesis using g Inl gate_closed [of d1 c] by simp
  next
    case (Inr u)
    then have t1: "token_status d1 c s = None" using g by simp
    let ?pg = "\<lparr>pg_totals = [], pg_deleted = 0, pg_errors = 0\<rparr>"
    obtain d2 r2 where 2: "purge_pass w c s 0 ?pg d1 = (d2, r2)" by (rule prod.exhaust)
    have t2: "token_status d2 c s = None" using pass_keeps_out [OF assms(1) t1, of 0 ?pg] 2 by simp
    have t3: "token_status (fst (verify_rounds w c s MAX_VERIFY_ROUNDS 0 pg d2)) c s = None" for pg by (rule verify_keeps_out [OF assms(1) t2])
    have "token_status (fst (purge_source w c s db)) c s = None"
    proof (cases r2)
      case (Inl e)
      then show ?thesis using t2 by (simp add: purge_source_def 1 Inr 2)
    next
      case (Inr pg)
      obtain d3 r3 where 3: "verify_rounds w c s MAX_VERIFY_ROUNDS 0 pg d2 = (d3, r3)" by (rule prod.exhaust)
      have t: "token_status d3 c s = None" using t3 [of pg] 3 by simp
      then have "token_status (set_source_purge_gate c False (gw_others w ReopenGate d3)) c s = None"
        using assms(1) by (simp add: keeps_out_def token_status_def set_source_purge_gate_def)
      with t show ?thesis by (auto simp: purge_source_def 1 \<open>r = Inr u\<close> 2 Inr 3 Let_def split: sum.splits prod.splits)
    qed
    then show ?thesis by (rule token_gone [OF assms(2)])
  qed
qed

subsection \<open>What a purge spares\<close>

text \<open>A node goes when the purge took its last provenance row of the tenant.\<close>

definition only_asserted_by :: "string \<Rightarrow> string set \<Rightarrow> provenance_row list \<Rightarrow> node_row \<Rightarrow> bool" where
  "only_asserted_by c srcs pvs n \<longleftrightarrow>
     n_customer n = c \<and> (\<exists>p \<in> set pvs. pv_node p = n_id n \<and> pv_customer p = c \<and> pv_source p \<in> srcs)
     \<and> (\<forall>p \<in> set pvs. pv_node p = n_id n \<and> pv_customer p = c \<longrightarrow> pv_source p \<in> srcs)"

lemma orphan_iff:
  "orphan_node c (map pv_node (filter (sourced_provenance c cas) pvs)) (sql_delete (sourced_provenance c cas) pvs) n
     \<longleftrightarrow> only_asserted_by c (set cas) pvs n"
proof -
  have "n_id n \<in> set (map pv_node (filter (sourced_provenance c cas) pvs))
      \<longleftrightarrow> (\<exists>p \<in> set pvs. pv_node p = n_id n \<and> pv_customer p = c \<and> pv_source p \<in> set cas)"
    by (force simp: sourced_provenance_def)
  then show ?thesis unfolding orphan_node_def only_asserted_by_def by (auto simp: sourced_provenance_def)
qed

lemma purge_graph_nodes: "purge_graph c cas db = (db', k) \<Longrightarrow> graph_nodes db' = sql_delete (only_asserted_by c (set cas) (graph_node_provenance db)) (graph_nodes db)"
  unfolding purge_graph_def Let_def orphan_iff by auto

lemma run_cascade_exact:
  assumes "run_cascade c s db = (db', counts)"
  shows "documents db' = sql_delete (\<lambda>d. doc_customer d = c \<and> doc_source d \<in> set (cascade_values s)) (documents db)"
    "chunks db' = sql_delete (\<lambda>r. dc_customer r = c \<and> dc_doc r \<in> purge_docs c (cascade_values s) db) (chunks db)"
    "graph_nodes db' = sql_delete (only_asserted_by c (set (cascade_values s)) (graph_node_provenance db)) (graph_nodes db)"
proof -
  let ?sts = "filter (runs_for s) CASCADE_STEPS" and ?cas = "cascade_values s"
  obtain db1 k1 k2 where 1: "run_steps c ?cas ?sts db = (db1, k1)" and 2: "purge_graph c ?cas db1 = (db', k2)"
    using assms by (auto simp: run_cascade_def split: prod.splits)
  have rest: "same_rest db1 db" by (rule run_steps_rest [OF _ 1]) auto
  then show "graph_nodes db' = sql_delete (only_asserted_by c (set ?cas) (graph_node_provenance db)) (graph_nodes db)"
    using purge_graph_nodes [OF 2] by (simp add: same_rest_def)
  have same: "documents db' = documents db1" "chunks db' = chunks db1" using 2 by (auto simp: purge_graph_def Let_def)
  have "documents db1 = sql_delete (\<lambda>d. doc_customer d = c \<and> doc_source d \<in> set ?cas) (documents db)
      \<and> chunks db1 = sql_delete (\<lambda>r. dc_customer r = c \<and> dc_doc r \<in> purge_docs c ?cas db) (chunks db)"
    using 1 by (auto simp: CASCADE_STEPS_def runs_for_def step_defs purge_docs_def split: prod.splits if_splits)
  with same show "documents db' = sql_delete (\<lambda>d. doc_customer d = c \<and> doc_source d \<in> set ?cas) (documents db)"
    "chunks db' = sql_delete (\<lambda>r. dc_customer r = c \<and> dc_doc r \<in> purge_docs c ?cas db) (chunks db)" by simp_all
qed

text \<open>Claim C38. The cascade deletes a source and nothing else: of the documents exactly those of the tenant and the cascade go, of the
  chunks exactly the ones of those documents, and of the graph nodes exactly those whose every assertion within the tenant came
  from the cascade. So a document of another source or tenant keeps its row and its chunks, and a node that another source still
  asserts, or that nobody ever asserted, survives.\<close>

theorem cascade_deletes_exactly_the_source:
  assumes "run_cascade c s db = (db', counts)"
  shows "documents db' = filter (\<lambda>d. \<not> (doc_customer d = c \<and> doc_source d \<in> set (cascade_values s))) (documents db)
    \<and> chunks db' = filter (\<lambda>r. \<not> (dc_customer r = c \<and> dc_doc r \<in> purge_docs c (cascade_values s) db)) (chunks db)
    \<and> graph_nodes db' = filter (\<lambda>n. \<not> only_asserted_by c (set (cascade_values s)) (graph_node_provenance db) n) (graph_nodes db)
    \<and> (\<forall>p \<in> set (graph_node_provenance db). pv_customer p = c \<longrightarrow> pv_source p \<notin> set (cascade_values s) \<longrightarrow>
         (\<forall>n \<in> set (graph_nodes db). n_id n = pv_node p \<longrightarrow> n \<in> set (graph_nodes db')))"
  using run_cascade_exact [OF assms] by (auto simp: sql_delete_def only_asserted_by_def)

subsection \<open>The record\<close>

lemma updated_row: "r \<in> set (sql_update p f t) \<Longrightarrow> p r \<Longrightarrow> \<exists>x. r = f x"
  by (auto simp: sql_update_def split: if_splits)

lemma finished_row:
  assumes "r \<in> set (purge_runs (finish_purge_run c pid res err now db))" "pu_customer r = c" "pu_id r = pid"
  shows "pu_result r = res \<and> pu_finished r = Some now
    \<and> pu_status r = (if (err \<noteq> None \<and> err \<noteq> Some []) \<or> \<not> (case res of None \<Rightarrow> False | Some r \<Rightarrow> pr_verified r) then ''failed'' else ''done'')"
proof -
  let ?st = "if (err \<noteq> None \<and> err \<noteq> Some []) \<or> \<not> (case res of None \<Rightarrow> False | Some r \<Rightarrow> pr_verified r) then ''failed'' else ''done''"
  have "r \<in> set (sql_update (\<lambda>r. pu_customer r = c \<and> pu_id r = pid)
      (\<lambda>r. r\<lparr>pu_status := ?st, pu_result := res, pu_error := err, pu_finished := Some now\<rparr>) (purge_runs db))"
    using assms(1) unfolding finish_purge_run_def Let_def by simp
  from updated_row [OF this] assms(2,3) obtain x where "r = x\<lparr>pu_status := ?st, pu_result := res, pu_error := err, pu_finished := Some now\<rparr>"
    by blast
  then show ?thesis by simp
qed


subsection \<open>Examples\<close>

definition example_purge_db :: purge_db where
  "example_purge_db =
     erase_db.extend
       (worker_db.extend
          (empty_worker_db\<lparr>integration_tokens := [((''acme'', ''slack''), ACTIVE)], objects := [((''acme'', ''raw/slack/acme/e1.json''), ''{}'')],
             documents := [\<lparr>doc_customer = ''acme'', doc_id = ''slack:1'', doc_version = 1, doc_source = ''slack'', doc_source_id = ''1'',
               doc_parent = None, doc_type = ''slack.message'', doc_valid_to = None, doc_visibility = ''org'', doc_deleted_at = None,
               doc_author = None, doc_uploader = None, doc_employee_email = None, doc_uploader_email = None\<rparr>]\<rparr>)
          (erase_db.fields [\<lparr>dc_customer = ''acme'', dc_doc = ''slack:1''\<rparr>] [] [] [] [] [] [] [] []))
       (purge_db.fields [] [] [\<lparr>sm_system = ''slack'', sm_external = ''T1'', sm_customer = ''acme''\<rparr>] [] [] [])"

definition quiet_purge :: purge_world where
  "quiet_purge =
     \<lparr>gw_others = (\<lambda>_ d. d), gw_polls = 3, gw_installation = (\<lambda>_ _ d. (d, True)), gw_bucket = (\<lambda>_. True), gw_up = (\<lambda>_ _. True),
      gw_part = (\<lambda>_ _ _. False), gw_fails = (\<lambda>_ _. False)\<rparr>"

lemma quiet_undisturbed: "undisturbed quiet_purge"
  by (simp add: undisturbed_def quiet_purge_def)



lemma second_purge_deletes_nothing_witness:
  "\<exists>db' res. purge_source quiet_purge ''globex'' SLACK example_purge_db = (db', Inr res) \<and> pr_total_rows res = 0 \<and> pr_verified res"
proof -
  have "count_residue ''globex'' SLACK example_purge_db = []" by code_simp
  moreover have "no_objects ''globex'' SLACK example_purge_db" by code_simp
  ultimately show ?thesis
    using second_purge_deletes_nothing [OF quiet_undisturbed, of "''globex''" SLACK example_purge_db] count_residue_iff
    by (auto simp: quiet_purge_def)
qed

lemma purged_source_disconnected_witness:
  "is_source_connected example_purge_db ''acme'' SLACK \<and> \<not> is_source_connected (fst (purge_source quiet_purge ''acme'' SLACK example_purge_db)) ''acme'' SLACK"
proof
  show "is_source_connected example_purge_db ''acme'' SLACK" by code_simp
  show "\<not> is_source_connected (fst (purge_source quiet_purge ''acme'' SLACK example_purge_db)) ''acme'' SLACK"
    by (rule purged_source_disconnected) (simp_all add: keeps_out_def quiet_purge_def OAUTH_SOURCES_def)
qed

lemma cascade_deletes_exactly_the_source_witness:
  "documents (fst (run_cascade ''acme'' SLACK example_purge_db)) = [] \<and> chunks (fst (run_cascade ''acme'' SLACK example_purge_db)) = []"
proof -
  obtain db' counts where run: "run_cascade ''acme'' SLACK example_purge_db = (db', counts)" by (rule prod.exhaust)
  have "filter (\<lambda>d. \<not> (doc_customer d = ''acme'' \<and> doc_source d \<in> set (cascade_values SLACK))) (documents example_purge_db) = []" by code_simp
  moreover have "filter (\<lambda>r. \<not> (dc_customer r = ''acme'' \<and> dc_doc r \<in> purge_docs ''acme'' (cascade_values SLACK) example_purge_db)) (chunks example_purge_db) = []"
    by code_simp
  ultimately show ?thesis using cascade_deletes_exactly_the_source [OF run] run by simp
qed


end
