(* ===== verification/Documents.thy ===== *)
theory Documents
  imports Graph Chunks "HOL-Library.AList"
begin

section \<open>Document versions and their chunks\<close>

text \<open>
  The persistence half of \<^verbatim>\<open>engine/ingest/normalizer.py\<close>: a document is a sequence of versions of which at most
  one is live, and its chunks are rows keyed by their content hash, each with the range of versions it belongs to.
  Phase A (\<open>plan_chunks\<close>) redacts, cuts and embeds outside any transaction; Phase B writes in one: admission of an
  ordered write, the version (\<open>upsert_document\<close>), the chunks (\<open>apply_chunk_plan\<close>), the graph.

  A transaction runs under row-level security for one tenant, so the statements only see rows of the document's
  customer. Outside the model: the tokenizer, the digest, the scan for secrets and the embedding service are
  arguments (record \<open>plan_env\<close>). What other transactions commit between two statements, or between the two
  phases, is a function on the state. \<^verbatim>\<open>last_seen_version\<close> and \<^verbatim>\<open>version\<close> are \<^verbatim>\<open>INT\<close> columns: the open end of a
  live chunk is their maximum. \<^verbatim>\<open>chunk_id\<close> is a function of the document, the kind and the first 16 digits of
  the hash; a clash of those digits is outside the model.
\<close>

text \<open>A literal of the source as code points.\<close>

definition cps :: "string \<Rightarrow> codepoints" where
  "cps s = map of_char s"

subsection \<open>State\<close>

text \<open>The columns only the INSERT writes, and those the update in place writes too.\<close>

record doc_facts =
  df_source :: string
  df_source_id :: string
  df_source_url :: string
  df_class :: string
  df_type :: string
  df_content_type :: string
  df_language :: "string option"
  df_author :: "string option"
  df_created :: time
  df_acl :: json

record doc_content =
  dc_hash :: string
  dc_title :: "codepoints option"
  dc_preview :: "codepoints option"
  dc_size :: int
  dc_tokens :: int
  dc_updated :: time
  dc_valid_from :: time
  dc_metadata :: props
  dc_entities :: json
  dc_attachments :: json
  dc_references :: json
  dc_ingested :: time
  dc_visibility :: string

record document =
  d_id :: string
  d_customer :: string
  d_version :: int
  d_facts :: doc_facts
  d_content :: doc_content
  d_valid_to :: "time option"
  d_deleted :: "time option"
  d_parent :: "string option"
  d_supersedes :: "string option"
  d_body :: "codepoints option"
  d_coalesce :: bool

record version_row =
  dv_doc :: string
  dv_version :: int
  dv_customer :: string
  dv_facts :: doc_facts
  dv_content :: doc_content
  dv_valid_to :: "time option"
  dv_deleted :: "time option"
  dv_parent :: "string option"
  dv_supersedes :: "string option"

record chunk_row =
  ck_id :: string
  ck_doc :: string
  ck_customer :: string
  ck_index :: int
  ck_content :: codepoints
  ck_hash :: string
  ck_tokens :: nat
  ck_chunker :: string
  ck_first :: int
  ck_last :: int
  ck_kind :: string
  ck_vector :: string
  ck_visibility :: string
  ck_title :: codepoints
  ck_valid_to :: "time option"

record failed_row =
  fr_customer :: string
  fr_doc :: string
  fr_version :: int
  fr_index :: int
  fr_preview :: codepoints
  fr_error :: string

record binding_row =
  gb_customer :: string
  gb_installation :: json
  gb_doc :: string
  gb_repository :: json
  gb_live :: bool
  gb_history :: bool

record acl_snapshot =
  as_customer :: string
  as_source :: string
  as_principal_type :: string
  as_principal :: string
  as_resource_type :: string
  as_resource :: string
  as_permission :: string
  as_valid_from :: time
  as_valid_to :: "time option"
  as_metadata :: json

record repo_state =
  rs_customer :: string
  rs_repo :: string
  rs_path :: string
  rs_hash :: string
  rs_language :: string
  rs_symbols :: int
  rs_extracted :: time
  rs_extractor :: string

record anchor_row =
  ie_customer :: string
  ie_doc :: string
  ie_extractor :: string
  ie_done :: "time option"

record doc_db =
  doc_versions :: "version_row table"
  doc_chunks :: "chunk_row table"
  doc_failed :: "failed_row table"
  doc_bindings :: "binding_row table"
  doc_acl :: "acl_snapshot table"
  doc_repo :: "repo_state table"
  doc_anchors :: "anchor_row table"
  doc_graph :: graph_db

text \<open>A \<^verbatim>\<open>PrbeError\<close> with its \<^verbatim>\<open>transient\<close> flag, or any other exception.\<close>

datatype doc_exc = Prbe bool string | OtherExc string

definition CHUNKER_VERSION :: string where "CHUNKER_VERSION = ''naive-v1''"
definition LIVE_CHUNK_LAST_SEEN :: int where "LIVE_CHUNK_LAST_SEEN = 2147483647"
definition CI_QUEUE_SEQ_KEY :: string where "CI_QUEUE_SEQ_KEY = ''_ci_queue_seq''"
definition GITHUB_FORCE_VERSION_KEY :: string where "GITHUB_FORCE_VERSION_KEY = ''_github_force_version''"
definition UPSERT_DOC_MAX_RETRIES :: nat where "UPSERT_DOC_MAX_RETRIES = 5"

definition live_row :: "string \<Rightarrow> string \<Rightarrow> version_row \<Rightarrow> bool" where
  "live_row c i r \<longleftrightarrow> dv_customer r = c \<and> dv_doc r = i \<and> dv_valid_to r = None"

text \<open>\<^verbatim>\<open>SELECT ... FROM documents WHERE ... AND valid_to IS NULL LIMIT 1\<close>\<close>

definition live_version :: "doc_db \<Rightarrow> string \<Rightarrow> string \<Rightarrow> version_row option" where
  "live_version db c i = find (live_row c i) (doc_versions db)"

subsection \<open>Metadata\<close>

text \<open>\<^verbatim>\<open>doc.metadata[k] = v\<close>, \<^verbatim>\<open>.get(k, default)\<close>, \<^verbatim>\<open>.pop(k, None)\<close>\<close>

definition meta_get :: "props \<Rightarrow> string \<Rightarrow> json \<Rightarrow> json" where
  "meta_get m k v = (case map_of m k of Some x \<Rightarrow> x | None \<Rightarrow> v)"

definition set_meta :: "string \<Rightarrow> json \<Rightarrow> document \<Rightarrow> document" where
  "set_meta k v doc =
     doc\<lparr>d_content := (d_content doc)\<lparr>dc_metadata := AList.update k v (dc_metadata (d_content doc))\<rparr>\<rparr>"

definition pop_meta :: "string \<Rightarrow> document \<Rightarrow> document" where
  "pop_meta k doc = doc\<lparr>d_content := (d_content doc)\<lparr>dc_metadata := AList.delete k (dc_metadata (d_content doc))\<rparr>\<rparr>"

text \<open>Python's \<^verbatim>\<open>==\<close> on decoded JSON: \<open>True == 1 == 1.0\<close>, dicts as maps. Two values are equal when their normal
  forms are.\<close>

fun py_norm :: "json \<Rightarrow> json" where
  "py_norm (JBool b) = JInt (if b then 1 else 0)"
| "py_norm (JFloat q) = (if snd (quotient_of q) = 1 then JInt (fst (quotient_of q)) else JFloat q)"
| "py_norm (JList xs) = JList (map py_norm xs)"
| "py_norm (JObj kvs) = JObj (sort_key fst (map (\<lambda>(k, v). (k, py_norm v)) kvs))"
| "py_norm v = v"

definition github_substantive_metadata :: "props \<Rightarrow> props" where
  "github_substantive_metadata m = filter (\<lambda>(k, v). \<not> starts_with k ''_github_'') m"

text \<open>\<^verbatim>\<open>v >= n\<close> of a decoded value and an int; None is the TypeError.\<close>

definition json_ge :: "json \<Rightarrow> int \<Rightarrow> bool option" where
  "json_ge v n =
     (case v of JInt m \<Rightarrow> Some (n \<le> m) | JBool b \<Rightarrow> Some (n \<le> (if b then 1 else 0)) | JFloat q \<Rightarrow> Some (of_int n \<le> q)
      | _ \<Rightarrow> None)"

text \<open>\<^verbatim>\<open>(metadata->>key)::bigint\<close>: \<open>Inl\<close> when the cast fails, \<open>Inr None\<close> for NULL. The stamp is only ever
  written as an integer; how PostgreSQL reads other texts is the argument \<open>cast\<close>.\<close>

definition meta_bigint :: "(json \<Rightarrow> int option) \<Rightarrow> props \<Rightarrow> string \<Rightarrow> doc_exc + int option" where
  "meta_bigint cast m k =
     (case map_of m k of None \<Rightarrow> Inr None | Some JNull \<Rightarrow> Inr None | Some (JInt n) \<Rightarrow> Inr (Some n)
      | Some v \<Rightarrow> (case cast v of Some n \<Rightarrow> Inr (Some n) | None \<Rightarrow> Inl (OtherExc ''invalid input syntax for type bigint'')))"

subsection \<open>Admission of an ordered write\<close>

text \<open>The GitHub branch when the live version has the same provider time: \<open>Inr None\<close> is \<^verbatim>\<open>return False\<close>.\<close>

definition admit_same_time :: "int option \<Rightarrow> version_row \<Rightarrow> document \<Rightarrow> doc_exc + document option" where
  "admit_same_time qid e doc =
     (let md = dc_metadata (d_content doc);
          previous = dc_metadata (dv_content e);
          incoming_operation = meta_get md ''_github_operation'' (JStr ''live'');
          previous_operation = meta_get previous ''_github_operation'' (JStr ''live'');
          live_supersedes_history = (incoming_operation = JStr ''live'' \<and> previous_operation = JStr ''history'')
      in if dv_deleted e \<noteq> None \<and> d_deleted doc = None then Inr None
         else if incoming_operation = JStr ''history'' \<and> previous_operation = JStr ''live'' then Inr None
         else case (if live_supersedes_history then Some False
                    else case qid of None \<Rightarrow> Some False | Some q \<Rightarrow> json_ge (meta_get previous ''_github_queue_seq'' (JInt 0)) q) of
                None \<Rightarrow> Inl (OtherExc ''TypeError'')
              | Some True \<Rightarrow> Inr None
              | Some False \<Rightarrow>
                  Inr (Some (if live_supersedes_history \<and> qid \<noteq> None then set_meta GITHUB_FORCE_VERSION_KEY (JBool True) doc
                             else if qid \<noteq> None \<and> dc_hash (dv_content e) = dc_hash (d_content doc)
                                  \<and> py_norm (JObj (github_substantive_metadata previous))
                                     \<noteq> py_norm (JObj (github_substantive_metadata md))
                             then set_meta GITHUB_FORCE_VERSION_KEY (JBool True) doc
                             else doc)))"

definition admit_github :: "string \<Rightarrow> int option \<Rightarrow> document \<Rightarrow> doc_db \<Rightarrow> doc_exc + (bool \<times> document)" where
  "admit_github c qid doc db =
     (let existing = live_version db c (d_id doc) in
      case (case existing of None \<Rightarrow> Inr (Some doc)
            | Some e \<Rightarrow> if dc_updated (dv_content e) = dc_updated (d_content doc) then admit_same_time qid e doc
                        else Inr (Some doc)) of
        Inl x \<Rightarrow> Inl x
      | Inr None \<Rightarrow> Inr (False, doc)
      | Inr (Some doc1) \<Rightarrow>
          let doc2 = (case existing of
                        Some e \<Rightarrow> if qid \<noteq> None \<and> d_deleted doc1 = None
                                     \<and> dc_updated (dv_content e) < dc_updated (d_content doc1)
                                     \<and> dc_hash (dv_content e) = dc_hash (d_content doc1)
                                  then set_meta GITHUB_FORCE_VERSION_KEY (JBool True) doc1 else doc1
                      | None \<Rightarrow> doc1);
              doc3 = (case qid of Some q \<Rightarrow> set_meta ''_github_queue_seq'' (JInt q) doc2 | None \<Rightarrow> doc2)
          in Inr (\<not> (case existing of Some e \<Rightarrow> dc_updated (d_content doc) < dc_updated (dv_content e) | None \<Rightarrow> False), doc3))"

text \<open>The advisory lock makes the read and the write of one document one step.\<close>

definition admit_custom :: "(json \<Rightarrow> int option) \<Rightarrow> string \<Rightarrow> int \<Rightarrow> document \<Rightarrow> doc_db \<Rightarrow> doc_exc + (bool \<times> document)" where
  "admit_custom cast c q doc db =
     (case (case live_version db c (d_id doc) of None \<Rightarrow> Inr None
            | Some e \<Rightarrow> meta_bigint cast (dc_metadata (dv_content e)) CI_QUEUE_SEQ_KEY) of
        Inl x \<Rightarrow> Inl x
      | Inr applied_seq \<Rightarrow>
          (case applied_seq of
             Some n \<Rightarrow> if q \<le> n then Inr (False, doc) else Inr (True, set_meta CI_QUEUE_SEQ_KEY (JInt q) doc)
           | None \<Rightarrow> Inr (True, set_meta CI_QUEUE_SEQ_KEY (JInt q) doc)))"

definition admit_ordered_write ::
  "(json \<Rightarrow> int option) \<Rightarrow> string \<Rightarrow> source_system \<Rightarrow> int option \<Rightarrow> document \<Rightarrow> doc_db \<Rightarrow> doc_exc + (bool \<times> document)" where
  "admit_ordered_write cast c s qid doc db =
     (if s = GITHUB then admit_github c qid doc db
      else if s \<noteq> CUSTOM_INGEST then Inr (True, doc)
      else case qid of None \<Rightarrow> Inr (True, doc) | Some q \<Rightarrow> admit_custom cast c q doc db)"

subsection \<open>Writing a version\<close>

definition close_version :: "time \<Rightarrow> string \<Rightarrow> string \<Rightarrow> int \<Rightarrow> doc_db \<Rightarrow> doc_db" where
  "close_version now c i v db =
     db\<lparr>doc_versions := sql_update (\<lambda>r. live_row c i r \<and> dv_version r = v) (\<lambda>r. r\<lparr>dv_valid_to := Some now\<rparr>)
          (doc_versions db)\<rparr>"

text \<open>\<^verbatim>\<open>COALESCE(MAX(version), 0)\<close>\<close>

definition max_version :: "doc_db \<Rightarrow> string \<Rightarrow> string \<Rightarrow> int" where
  "max_version db c i =
     (case map dv_version (filter (\<lambda>r. dv_customer r = c \<and> dv_doc r = i) (doc_versions db)) of
        [] \<Rightarrow> 0 | v # vs \<Rightarrow> fold max vs v)"

definition has_version :: "doc_db \<Rightarrow> string \<Rightarrow> string \<Rightarrow> int \<Rightarrow> bool" where
  "has_version db c i v \<longleftrightarrow> (\<exists>r \<in> set (doc_versions db). dv_customer r = c \<and> dv_doc r = i \<and> dv_version r = v)"

definition version_of :: "document \<Rightarrow> int \<Rightarrow> version_row" where
  "version_of doc v =
     \<lparr>dv_doc = d_id doc, dv_version = v, dv_customer = d_customer doc, dv_facts = d_facts doc,
      dv_content = d_content doc, dv_valid_to = d_valid_to doc, dv_deleted = d_deleted doc, dv_parent = d_parent doc,
      dv_supersedes = d_supersedes doc\<rparr>"

text \<open>The INSERT with ON CONFLICT (customer_id, doc_id, version) DO NOTHING: None is the conflict.\<close>

definition insert_version :: "document \<Rightarrow> int \<Rightarrow> doc_db \<Rightarrow> doc_db option" where
  "insert_version doc v db =
     (if has_version db (d_customer doc) (d_id doc) v then None
      else Some (db\<lparr>doc_versions := doc_versions db @ [version_of doc v]\<rparr>))"

definition update_in_place :: "document \<Rightarrow> int \<Rightarrow> doc_db \<Rightarrow> doc_db" where
  "update_in_place doc v db =
     db\<lparr>doc_versions := sql_update (\<lambda>r. live_row (d_customer doc) (d_id doc) r \<and> dv_version r = v)
          (\<lambda>r. r\<lparr>dv_content := d_content doc\<rparr>) (doc_versions db)\<rparr>"

text \<open>One pass of the loop. Other transactions commit between its first read and the next statement (\<open>f\<close>), and
  before the INSERT (\<open>g\<close>). \<open>Inr (db, doc, None)\<close> is the conflict: another pass.\<close>

definition upsert_attempt ::
  "time \<Rightarrow> bool \<Rightarrow> (doc_db \<Rightarrow> doc_db) \<times> (doc_db \<Rightarrow> doc_db) \<Rightarrow> document \<Rightarrow> doc_db \<Rightarrow> doc_exc + (doc_db \<times> document \<times> bool option)" where
  "upsert_attempt now force fg doc db =
     (let existing = live_version db (d_customer doc) (d_id doc); (f, g) = fg;
          insert = (\<lambda>doc' v db'.
            if LIVE_CHUNK_LAST_SEEN < v then Inl (OtherExc ''integer out of range'')
            else case insert_version doc' v db' of
                Some db'' \<Rightarrow> Inr (db'', doc'\<lparr>d_version := v\<rparr>, Some True)
              | None \<Rightarrow> Inr (db', doc', None))
      in case existing of
           Some e \<Rightarrow>
             if dc_hash (dv_content e) = dc_hash (d_content doc) \<and> d_deleted doc = None \<and> \<not> force
             then Inr (f db, doc\<lparr>d_version := dv_version e\<rparr>, Some False)
             else if d_coalesce doc \<and> d_deleted doc = None
                  \<and> \<not> truthy (meta_get (dc_metadata (dv_content e)) ''session_complete'' JNull)
             then Inr (update_in_place doc (dv_version e) (f db), doc\<lparr>d_version := dv_version e\<rparr>, Some True)
             else insert (if d_supersedes doc = None then doc\<lparr>d_supersedes := Some (d_id doc)\<rparr> else doc) (dv_version e + 1)
                    (g (close_version now (d_customer doc) (d_id doc) (dv_version e) (f db)))
         | None \<Rightarrow> let db1 = f db in insert doc (max_version db1 (d_customer doc) (d_id doc) + 1) (g db1))"

fun upsert_loop ::
  "time \<Rightarrow> bool \<Rightarrow> ((doc_db \<Rightarrow> doc_db) \<times> (doc_db \<Rightarrow> doc_db)) list \<Rightarrow> document \<Rightarrow> doc_db \<Rightarrow> doc_exc + (doc_db \<times> document \<times> bool)" where
  "upsert_loop now force [] doc db =
     Inl (Prbe True ''exhausted retry budget computing next document version under contention'')"
| "upsert_loop now force (fg # fgs) doc db =
     (case upsert_attempt now force fg doc db of
        Inl x \<Rightarrow> Inl x
      | Inr (db', doc', Some b) \<Rightarrow> Inr (db', doc', b)
      | Inr (db', doc', None) \<Rightarrow> upsert_loop now force fgs doc' db')"

definition upsert_document ::
  "time \<Rightarrow> (nat \<Rightarrow> (doc_db \<Rightarrow> doc_db) \<times> (doc_db \<Rightarrow> doc_db)) \<Rightarrow> document \<Rightarrow> doc_db \<Rightarrow> doc_exc + (doc_db \<times> document \<times> bool)" where
  "upsert_document now others doc db =
     upsert_loop now (truthy (meta_get (dc_metadata (d_content doc)) GITHUB_FORCE_VERSION_KEY (JBool False)))
       (map others [0 ..< UPSERT_DOC_MAX_RETRIES]) (pop_meta GITHUB_FORCE_VERSION_KEY doc) db"

subsection \<open>Redaction and the pieces of a document\<close>

record piece =
  pc_index :: int
  pc_content :: codepoints
  pc_tokens :: nat

text \<open>\<^verbatim>\<open>s.replace(old, new)\<close> for a non-empty \<open>old\<close>: occurrences from left to right.\<close>

function replace_all :: "'a list \<Rightarrow> 'a list \<Rightarrow> 'a list \<Rightarrow> 'a list" where
  "replace_all old new s =
     (case s of [] \<Rightarrow> []
      | c # cs \<Rightarrow> if old \<noteq> [] \<and> starts_with s old then new @ replace_all old new (drop (length old) s)
                  else c # replace_all old new cs)"
  by pat_completeness auto
termination
  by (relation "measure (\<lambda>(old, new, s). length s)") auto

declare replace_all.simps [simp del]

text \<open>\<^verbatim>\<open>redact_documents\<close>; \<open>find_secrets\<close> (rule, secret, line) is the scanner. Its longest finding is replaced
  first; \<^verbatim>\<open>{secret: rule}\<close> keeps the last rule of a secret at the place of its first.\<close>

definition join_lines :: "codepoints list \<Rightarrow> codepoints" where
  "join_lines ts = (case ts of [] \<Rightarrow> [] | t # ts' \<Rightarrow> t @ concat (map (\<lambda>u. 10 # u) ts'))"

type_synonym finding = "string \<times> codepoints \<times> nat"

definition replacements_of :: "finding list \<Rightarrow> (codepoints \<times> string) list" where
  "replacements_of found =
     rev (sort_key (length \<circ> fst) (rev (fold (\<lambda>(rule, secret, line). AList.update secret rule) found [])))"

definition redact_piece :: "(codepoints \<times> string) list \<Rightarrow> codepoints \<Rightarrow> codepoints" where
  "redact_piece reps t = fold (\<lambda>(secret, rule) u. replace_all secret (cps (''<redacted:'' @ rule @ ''>'')) u) reps t"

definition redact_documents :: "(codepoints \<Rightarrow> finding list) \<Rightarrow> codepoints list \<Rightarrow> codepoints list \<times> finding list" where
  "redact_documents find_secrets texts =
     (if texts = [] then (texts, [])
      else let found = find_secrets (join_lines texts) in
        if found = [] then (texts, []) else (map (redact_piece (replacements_of found)) texts, found))"

text \<open>What Phase A calls outside the model: the tokenizer, the digest, the scan for secrets, the two scrubbers that
  run before it (of the fields, of free text), \<^verbatim>\<open>str()\<close> of a JSON value, the embedder. An embedder
  answers with (index, vector) pairs and with (index, preview, error) failures.\<close>

record 't plan_env =
  pv_tok :: "'t tokenizer"
  pv_sha :: "codepoints \<Rightarrow> string"
  pv_secrets :: "codepoints \<Rightarrow> finding list"
  pv_scrub :: "document \<Rightarrow> document"
  pv_free :: "codepoints \<Rightarrow> codepoints"
  pv_str :: "json \<Rightarrow> codepoints"
  pv_embed :: "(codepoints \<times> codepoints option) list \<Rightarrow> (int \<times> string) list \<times> (int \<times> codepoints \<times> string) list"

text \<open>The fields \<^verbatim>\<open>redact_payload_async\<close> gets and \<^verbatim>\<open>setattr\<close> writes back.\<close>

definition scrub_fields :: "'t plan_env \<Rightarrow> document \<Rightarrow> document" where
  "scrub_fields pv doc =
     (let new = pv_scrub pv doc; nf = d_facts new; nc = d_content new in
      doc\<lparr>d_facts := (d_facts doc)\<lparr>df_source_url := df_source_url nf, df_author := df_author nf\<rparr>,
          d_content := (d_content doc)\<lparr>dc_title := dc_title nc, dc_preview := dc_preview nc, dc_metadata := dc_metadata nc,
            dc_entities := dc_entities nc, dc_attachments := dc_attachments nc, dc_references := dc_references nc\<rparr>\<rparr>)"

definition redact_texts :: "'t plan_env \<Rightarrow> codepoints list \<Rightarrow> codepoints list" where
  "redact_texts pv ts = fst (redact_documents (pv_secrets pv) (map (pv_free pv) ts))"

text \<open>\<^verbatim>\<open>str.splitlines()[0]\<close> of a stripped, non-empty text.\<close>

definition is_line_break :: "nat \<Rightarrow> bool" where
  "is_line_break ch \<longleftrightarrow> ch \<in> {10, 11, 12, 13, 28, 29, 30, 133, 8232, 8233}"

definition cp_strip :: "codepoints \<Rightarrow> codepoints" where
  "cp_strip s = rev (dropWhile is_white (rev (dropWhile is_white s)))"

definition json_str :: "json \<Rightarrow> string option" where
  "json_str v = (case v of JStr s \<Rightarrow> Some s | _ \<Rightarrow> None)"

definition co_author_line :: "(json \<Rightarrow> codepoints) \<Rightarrow> json \<Rightarrow> codepoints list" where
  "co_author_line str_of c =
     (if \<not> is_dict c then []
      else let email = get_or_null c ''email''; name = get_or_null c ''name'' in
        if truthy email \<and> truthy name then [cps ''co_author: '' @ str_of email @ cps '' ('' @ str_of name @ cps '')'']
        else if truthy email then [cps ''co_author: '' @ str_of email] else [])"

text \<open>\<^verbatim>\<open>_GITHUB_SHA_RE.sub("/commit/", url)\<close>\<close>

function strip_opaque_ids :: "codepoints \<Rightarrow> codepoints" where
  "strip_opaque_ids s =
     (case s of [] \<Rightarrow> []
      | c # cs \<Rightarrow>
          let hex = take 40 (drop 8 s) in
          if starts_with s (cps ''/commit/'') \<and> length hex = 40 \<and> set hex \<subseteq> set (cps ''0123456789abcdef'')
          then cps ''/commit/'' @ strip_opaque_ids (drop 48 s)
          else c # strip_opaque_ids cs)"
  by pat_completeness auto
termination
  by (relation "measure length") auto

declare strip_opaque_ids.simps [simp del]

definition truthy_text :: "codepoints option \<Rightarrow> bool" where
  "truthy_text t \<longleftrightarrow> t \<noteq> None \<and> t \<noteq> Some []"

definition metadata_text :: "'t plan_env \<Rightarrow> document \<Rightarrow> codepoints" where
  "metadata_text pv doc =
     (let ct = d_content doc; df = d_facts doc; m = dc_metadata ct in
      join_lines
        ((if truthy_text (dc_title ct) then [cps ''title: '' @ the (dc_title ct)] else [])
         @ [cps (''source: '' @ df_source df)]
         @ (if df_source_id df \<noteq> [] then [cps (''id: '' @ df_source_id df)] else [])
         @ (case df_author df of
              Some (ch # chs) \<Rightarrow>
                [cps ''author: '' @ (case json_str (meta_get m ''author_display_name'' JNull) of
                   Some (n # ns) \<Rightarrow> cps (n # ns) | _ \<Rightarrow> cps (ch # chs))]
            | _ \<Rightarrow> [])
         @ (case meta_get m ''co_authors'' JNull of JList cs \<Rightarrow> concat (map (co_author_line (pv_str pv)) cs) | _ \<Rightarrow> [])
         @ (if df_source_url df \<noteq> [] then [cps ''url: '' @ strip_opaque_ids (cps (df_source_url df))] else [])
         @ (if truthy_text (dc_preview ct) \<and> cp_strip (the (dc_preview ct)) \<noteq> []
            then [cps ''summary: '' @ take 200 (takeWhile (\<lambda>ch. \<not> is_line_break ch) (cp_strip (the (dc_preview ct))))]
            else [])))"

definition METADATA_CHUNK_INDEX :: int where "METADATA_CHUNK_INDEX = -1"

definition metadata_piece :: "'t plan_env \<Rightarrow> document \<Rightarrow> piece option" where
  "metadata_piece pv doc =
     (let t = metadata_text pv doc in
      if list_all is_white t then None
      else Some \<lparr>pc_index = METADATA_CHUNK_INDEX, pc_content = t, pc_tokens = count_tokens (pv_tok pv) t\<rparr>)"

definition stringify_body :: "'t plan_env \<Rightarrow> document \<Rightarrow> codepoints" where
  "stringify_body pv doc =
     (let ct = d_content doc; legacy = meta_get (dc_metadata ct) ''body'' JNull in
      if truthy_text (d_body doc) then the (d_body doc)
      else if truthy legacy then pv_str pv legacy
      else case filter truthy_text [dc_title ct, dc_preview ct] of
          [] \<Rightarrow> [] | [p] \<Rightarrow> the p | p # q # _ \<Rightarrow> the p @ [10, 10] @ the q)"

definition postgres_safe_chunk_piece :: "'t plan_env \<Rightarrow> piece \<Rightarrow> piece" where
  "postgres_safe_chunk_piece pv p =
     (if 0 \<notin> set (pc_content p) then p
      else let content = concat (map (\<lambda>ch. if ch = 0 then [92, 48] else [ch]) (pc_content p)) in
        \<lparr>pc_index = pc_index p, pc_content = content, pc_tokens = count_tokens (pv_tok pv) content\<rparr>)"

text \<open>\<^verbatim>\<open>replace(piece, content=text)\<close> over the pieces and the metadata piece at their end.\<close>

definition set_contents :: "piece list \<Rightarrow> piece option \<Rightarrow> codepoints list \<Rightarrow> piece list \<times> piece option" where
  "set_contents ps m ts =
     (map2 (\<lambda>p t. p\<lparr>pc_content := t\<rparr>) ps (take (length ps) ts),
      (case m of None \<Rightarrow> None | Some p \<Rightarrow> Some (p\<lparr>pc_content := ts ! length ps\<rparr>)))"

definition piece_of :: "chunk_piece \<Rightarrow> piece" where
  "piece_of p = \<lparr>pc_index = int (cp_index p), pc_content = cp_content p, pc_tokens = cp_token_count p\<rparr>"

definition cut_pieces ::
  "'t plan_env \<Rightarrow> (piece list \<times> piece option) option \<Rightarrow> document \<Rightarrow> doc_exc + (piece list \<times> piece option)" where
  "cut_pieces pv pre doc =
     (if d_deleted doc \<noteq> None then Inr ([], None)
      else case pre of
          Some (ps, m) \<Rightarrow>
            Inr (set_contents ps m (redact_texts pv (map pc_content (ps @ (case m of None \<Rightarrow> [] | Some p \<Rightarrow> [p])))))
        | None \<Rightarrow>
            (case chunk_text (pv_tok pv) (stringify_body pv doc) DEFAULT_CHUNK_TOKENS (int DEFAULT_CHUNK_OVERLAP) of
               Inl _ \<Rightarrow> Inl (OtherExc ''ValueError'')
             | Inr cs \<Rightarrow> Inr (map piece_of cs, metadata_piece pv doc)))"

text \<open>The head of \<^verbatim>\<open>_plan_chunks\<close>: the fields are scrubbed, the body is redacted, the pieces cut, NULs escaped, and
  pieces, title and preview redacted together, before any hash is taken.\<close>

definition plan_pieces ::
  "'t plan_env \<Rightarrow> (piece list \<times> piece option) option \<Rightarrow> document
   \<Rightarrow> doc_exc + (document \<times> piece list \<times> piece option)" where
  "plan_pieces pv pre doc0 =
     (let doc1 = scrub_fields pv doc0;
          doc = (if truthy_text (d_body doc1) then doc1\<lparr>d_body := Some (hd (redact_texts pv [the (d_body doc1)]))\<rparr> else doc1)
      in case cut_pieces pv pre doc of
          Inl x \<Rightarrow> Inl x
        | Inr (ps0, m0) \<Rightarrow>
            let ps = map (postgres_safe_chunk_piece pv) ps0; m = map_option (postgres_safe_chunk_piece pv) m0;
                targets = ps @ (case m of None \<Rightarrow> [] | Some p \<Rightarrow> [p]); ct = d_content doc
            in if targets = [] then Inr (doc, ps, m)
               else let (ts, found) = redact_documents (pv_secrets pv)
                          (map pc_content targets @ [case dc_title ct of None \<Rightarrow> [] | Some t \<Rightarrow> t,
                                                     case dc_preview ct of None \<Rightarrow> [] | Some t \<Rightarrow> t])
                    in if found = [] then Inr (doc, ps, m)
                       else let (ps', m') = set_contents ps m ts;
                                ct1 = (if truthy_text (dc_title ct) then ct\<lparr>dc_title := Some (ts ! length targets)\<rparr> else ct);
                                ct2 = (if truthy_text (dc_preview ct) then ct1\<lparr>dc_preview := Some (ts ! (length targets + 1))\<rparr> else ct1)
                            in Inr (doc\<lparr>d_content := ct2\<rparr>, ps', m'))"

subsection \<open>The plan: a diff by content hash\<close>

record chunk_plan =
  pl_reused :: "string set"
  pl_reused_metadata :: "string option"
  pl_added :: "(piece \<times> string \<times> string) list"
  pl_failed :: "(piece option \<times> int \<times> codepoints \<times> string) list"
  pl_removed :: "string set"
  pl_added_count :: int
  pl_failed_count :: int

definition live_chunk :: "string \<Rightarrow> string \<Rightarrow> chunk_row \<Rightarrow> bool" where
  "live_chunk c i k \<longleftrightarrow> ck_customer k = c \<and> ck_doc k = i \<and> ck_valid_to k = None"

text \<open>The live hashes of one kind that the current chunker wrote; rows of another chunker are stale.\<close>

definition live_content_hashes :: "doc_db \<Rightarrow> document \<Rightarrow> string set" where
  "live_content_hashes db doc =
     ck_hash ` {k \<in> set (doc_chunks db). live_chunk (d_customer doc) (d_id doc) k \<and> ck_chunker k = CHUNKER_VERSION
                 \<and> ck_kind k \<noteq> ''metadata''}"

definition live_metadata_hashes :: "doc_db \<Rightarrow> document \<Rightarrow> string set" where
  "live_metadata_hashes db doc =
     ck_hash ` {k \<in> set (doc_chunks db). live_chunk (d_customer doc) (d_id doc) k \<and> ck_chunker k = CHUNKER_VERSION
                 \<and> ck_kind k = ''metadata''}"

definition stale_hashes :: "doc_db \<Rightarrow> document \<Rightarrow> string set" where
  "stale_hashes db doc =
     ck_hash ` {k \<in> set (doc_chunks db). live_chunk (d_customer doc) (d_id doc) k \<and> ck_chunker k \<noteq> CHUNKER_VERSION}"

text \<open>\<^verbatim>\<open>0 <= i < len(xs)\<close>, then \<^verbatim>\<open>xs[i]\<close>\<close>

definition pick :: "'a list \<Rightarrow> int \<Rightarrow> 'a option" where
  "pick xs i = (if 0 \<le> i \<and> i < int (length xs) then Some (xs ! nat i) else None)"

text \<open>\<^verbatim>\<open>new_by_hash\<close> keeps the last piece of a hash; the pieces to add are looked up in it, one per occurrence.\<close>

definition added_content_pieces :: "(codepoints \<Rightarrow> string) \<Rightarrow> string set \<Rightarrow> piece list \<Rightarrow> piece list" where
  "added_content_pieces sha live ps =
     (let hs = map (\<lambda>p. sha (pc_content p)) ps; by_hash = map_of (rev (zip hs ps))
      in map (\<lambda>h. the (by_hash h)) (filter (\<lambda>h. h \<notin> live) hs))"

definition plan_diff :: "'t plan_env \<Rightarrow> doc_db \<Rightarrow> document \<Rightarrow> piece list \<Rightarrow> piece option \<Rightarrow> chunk_plan" where
  "plan_diff pv db doc ps m =
     (let sha = pv_sha pv; new = set (map (\<lambda>p. sha (pc_content p)) ps);
          lc = live_content_hashes db doc; lm = live_metadata_hashes db doc;
          mh = map_option (\<lambda>p. sha (pc_content p)) m;
          reuse_m = (case mh of None \<Rightarrow> None | Some h \<Rightarrow> if h \<in> lm then Some h else None);
          add = added_content_pieces sha lc ps;
          m_add = (case mh of None \<Rightarrow> False | Some h \<Rightarrow> h \<notin> lm);
          inputs = add @ (if m_add then [the m] else []);
          m_at = (if m_add then Some (int (length add)) else None);
          (embedded, fails) = (if inputs = [] then ([], [])
                               else pv_embed pv (map (\<lambda>p. (pc_content p, dc_title (d_content doc))) inputs));
          failed_count = int (length (filter (\<lambda>(i, _). m_at \<noteq> Some i) fails))
      in \<lparr>pl_reused = lc \<inter> new, pl_reused_metadata = reuse_m,
          pl_added = concat (map (\<lambda>(i, vec). case pick inputs i of None \<Rightarrow> []
                       | Some p \<Rightarrow> [(p, vec, if m_at = Some i then ''metadata'' else ''content'')]) embedded),
          pl_failed = map (\<lambda>(i, e). (pick inputs i, i, e)) fails,
          pl_removed = (lc - new) \<union> stale_hashes db doc \<union> {h \<in> lm. mh \<noteq> Some h},
          pl_added_count = int (length add) - failed_count, pl_failed_count = failed_count\<rparr>)"

definition reused_count :: "chunk_plan \<Rightarrow> int" where
  "reused_count pl = int (card (pl_reused pl))"

text \<open>\<^verbatim>\<open>_plan_chunks\<close>: it also writes the redacted fields back into the document.\<close>

definition plan_chunks ::
  "'t plan_env \<Rightarrow> (piece list \<times> piece option) option \<Rightarrow> doc_db \<Rightarrow> document \<Rightarrow> doc_exc + (document \<times> chunk_plan)" where
  "plan_chunks pv pre db doc =
     (case plan_pieces pv pre doc of
        Inl x \<Rightarrow> Inl x
      | Inr (doc', ps, m) \<Rightarrow> Inr (doc', plan_diff pv db doc' ps m))"

subsection \<open>Applying the plan\<close>

definition chunk_id_of :: "document \<Rightarrow> string \<Rightarrow> string \<Rightarrow> string" where
  "chunk_id_of doc kind h = d_id doc @ '':'' @ (if kind = ''metadata'' then ''m_'' else ''c_'') @ take 16 h"

definition chunk_of :: "(codepoints \<Rightarrow> string) \<Rightarrow> document \<Rightarrow> piece \<times> string \<times> string \<Rightarrow> chunk_row" where
  "chunk_of sha doc a =
     (case a of (p, vec, kind) \<Rightarrow>
        \<lparr>ck_id = chunk_id_of doc kind (sha (pc_content p)), ck_doc = d_id doc, ck_customer = d_customer doc,
         ck_index = pc_index p, ck_content = pc_content p, ck_hash = sha (pc_content p), ck_tokens = pc_tokens p,
         ck_chunker = CHUNKER_VERSION, ck_first = d_version doc, ck_last = LIVE_CHUNK_LAST_SEEN, ck_kind = kind,
         ck_vector = vec, ck_visibility = dc_visibility (d_content doc),
         ck_title = (case dc_title (d_content doc) of None \<Rightarrow> [] | Some t \<Rightarrow> t), ck_valid_to = None\<rparr>)"

definition same_chunk :: "chunk_row \<Rightarrow> chunk_row \<Rightarrow> bool" where
  "same_chunk k k' \<longleftrightarrow> ck_customer k' = ck_customer k \<and> ck_doc k' = ck_doc k \<and> ck_hash k' = ck_hash k"

text \<open>\<^verbatim>\<open>_CHUNK_UPSERT_ON_CONFLICT\<close>\<close>

definition revive :: "chunk_row \<Rightarrow> chunk_row \<Rightarrow> chunk_row" where
  "revive new old =
     old\<lparr>ck_last := ck_last new, ck_valid_to := None, ck_chunker := ck_chunker new, ck_vector := ck_vector new,
         ck_visibility := ck_visibility new, ck_title := ck_title new\<rparr>"

definition upsert_chunk :: "chunk_row \<Rightarrow> chunk_row table \<Rightarrow> chunk_row table" where
  "upsert_chunk k t = (if \<exists>k' \<in> set t. same_chunk k k' then sql_update (same_chunk k) (revive k) t else t @ [k])"

text \<open>The first piece of each hash.\<close>

fun first_of_hash :: "(codepoints \<Rightarrow> string) \<Rightarrow> string list \<Rightarrow> (piece \<times> string \<times> string) list \<Rightarrow> (piece \<times> string \<times> string) list" where
  "first_of_hash sha seen [] = []"
| "first_of_hash sha seen (a # as) =
     (let h = sha (pc_content (fst a)) in
      if h \<in> set seen then first_of_hash sha seen as else a # first_of_hash sha (h # seen) as)"

definition insert_chunks_batch ::
  "(codepoints \<Rightarrow> string) \<Rightarrow> document \<Rightarrow> (piece \<times> string \<times> string) list \<Rightarrow> doc_db \<Rightarrow> doc_db \<times> string set" where
  "insert_chunks_batch sha doc added db =
     (let rows = map (chunk_of sha doc) (first_of_hash sha [] added)
      in (db\<lparr>doc_chunks := fold upsert_chunk rows (doc_chunks db)\<rparr>, set (map ck_hash rows)))"

definition insert_failed_chunk :: "document \<Rightarrow> piece option \<times> int \<times> codepoints \<times> string \<Rightarrow> doc_db \<Rightarrow> doc_db" where
  "insert_failed_chunk doc f db =
     (case f of (p, i, preview, err) \<Rightarrow>
        db\<lparr>doc_failed := doc_failed db @
             [\<lparr>fr_customer = d_customer doc, fr_doc = d_id doc, fr_version = d_version doc,
               fr_index = (case p of Some q \<Rightarrow> pc_index q | None \<Rightarrow> i), fr_preview = preview, fr_error = err\<rparr>]\<rparr>)"

definition planned_reuse :: "chunk_plan \<Rightarrow> string set" where
  "planned_reuse pl = pl_reused pl \<union> (case pl_reused_metadata pl of None \<Rightarrow> {} | Some h \<Rightarrow> {h})"

definition reopen_reused :: "document \<Rightarrow> chunk_plan \<Rightarrow> doc_db \<Rightarrow> doc_db" where
  "reopen_reused doc pl db =
     db\<lparr>doc_chunks := sql_update
          (\<lambda>k. live_chunk (d_customer doc) (d_id doc) k \<and> ck_hash k \<in> planned_reuse pl \<and> ck_last k \<noteq> LIVE_CHUNK_LAST_SEEN)
          (\<lambda>k. k\<lparr>ck_last := LIVE_CHUNK_LAST_SEEN\<rparr>) (doc_chunks db)\<rparr>"

definition retire_others :: "time \<Rightarrow> document \<Rightarrow> string set \<Rightarrow> doc_db \<Rightarrow> doc_db" where
  "retire_others now doc kept db =
     db\<lparr>doc_chunks := sql_update (\<lambda>k. live_chunk (d_customer doc) (d_id doc) k \<and> ck_hash k \<notin> kept)
          (\<lambda>k. k\<lparr>ck_valid_to := Some now, ck_last := min (ck_last k) (d_version doc - 1)\<rparr>) (doc_chunks db)\<rparr>"

definition failed_hashes :: "(codepoints \<Rightarrow> string) \<Rightarrow> chunk_plan \<Rightarrow> string set" where
  "failed_hashes sha pl = (\<Union>(p, _) \<in> set (pl_failed pl). case p of Some q \<Rightarrow> {sha (pc_content q)} | None \<Rightarrow> {})"

definition apply_chunk_plan :: "(codepoints \<Rightarrow> string) \<Rightarrow> time \<Rightarrow> document \<Rightarrow> chunk_plan \<Rightarrow> doc_db \<Rightarrow> doc_db" where
  "apply_chunk_plan sha now doc pl db =
     (let (db1, written) = insert_chunks_batch sha doc (pl_added pl) (reopen_reused doc pl db);
          db2 = fold (insert_failed_chunk doc) (pl_failed pl) db1
      in retire_others now doc (planned_reuse pl \<union> written \<union> failed_hashes sha pl) db2)"

subsection \<open>Phase B\<close>

text \<open>The statements of one document inside its savepoint. \<open>fails\<close> is the error they raise, if any, with whether
  it comes after the version was written (the document is then already among the persisted ids).\<close>

definition write_document ::
  "(codepoints \<Rightarrow> string) \<Rightarrow> (json \<Rightarrow> int option) \<Rightarrow> time \<Rightarrow> string \<Rightarrow> source_system \<Rightarrow> int option
   \<Rightarrow> (bool \<times> doc_exc) option \<Rightarrow> document \<Rightarrow> chunk_plan \<Rightarrow> doc_db \<Rightarrow> (bool \<times> doc_exc) + (doc_db \<times> bool)" where
  "write_document sha cast now c s qid fails doc pl db =
     (case admit_ordered_write cast c s qid doc db of
        Inl x \<Rightarrow> Inl (False, x)
      | Inr (False, _) \<Rightarrow> (case fails of Some (_, x) \<Rightarrow> Inl (False, x) | None \<Rightarrow> Inr (db, False))
      | Inr (True, doc1) \<Rightarrow>
          (case upsert_document now (\<lambda>_. (id, id)) doc1 db of
             Inl x \<Rightarrow> Inl (False, x)
           | Inr (db1, doc2, persisted) \<Rightarrow>
               (case fails of
                  Some (late, x) \<Rightarrow> Inl (late \<and> persisted, x)
                | None \<Rightarrow> if persisted then Inr (apply_chunk_plan sha now doc2 pl db1, True) else Inr (db1, False))))"

record progress_out =
  po_ids :: "string list"
  po_quarantined :: "string list"
  po_applied :: "chunk_plan list"

text \<open>The loop with its savepoints: a permanent \<^verbatim>\<open>PrbeError\<close> costs its document, anything else the transaction.\<close>

fun persist_docs ::
  "(codepoints \<Rightarrow> string) \<Rightarrow> (json \<Rightarrow> int option) \<Rightarrow> time \<Rightarrow> string \<Rightarrow> source_system \<Rightarrow> int option
   \<Rightarrow> (nat \<Rightarrow> (bool \<times> doc_exc) option) \<Rightarrow> nat \<Rightarrow> (document \<times> chunk_plan) list \<Rightarrow> progress_out \<Rightarrow> doc_db
   \<Rightarrow> doc_exc + (doc_db \<times> progress_out)" where
  "persist_docs sha cast now c s qid fails n [] po db = Inr (db, po)"
| "persist_docs sha cast now c s qid fails n ((doc, pl) # rest) po db =
     (case write_document sha cast now c s qid (fails n) doc pl db of
        Inl (appended, Prbe False _) \<Rightarrow>
          persist_docs sha cast now c s qid fails (n + 1) rest
            (po\<lparr>po_ids := po_ids po @ (if appended then [d_id doc] else []), po_quarantined := po_quarantined po @ [d_id doc]\<rparr>) db
      | Inl (_, x) \<Rightarrow> Inl x
      | Inr (db', persisted) \<Rightarrow>
          persist_docs sha cast now c s qid fails (n + 1) rest
            (if persisted then po\<lparr>po_ids := po_ids po @ [d_id doc], po_applied := po_applied po @ [pl]\<rparr> else po) db')"

definition insert_acl_snapshot :: "acl_snapshot \<Rightarrow> doc_db \<Rightarrow> doc_db" where
  "insert_acl_snapshot a db =
     (if \<exists>b \<in> set (doc_acl db).
          as_customer b = as_customer a \<and> as_source b = as_source a \<and> as_principal_type b = as_principal_type a
          \<and> as_principal b = as_principal a \<and> as_resource_type b = as_resource_type a \<and> as_resource b = as_resource a
          \<and> as_permission b = as_permission a \<and> as_valid_from b = as_valid_from a
      then db else db\<lparr>doc_acl := doc_acl db @ [a]\<rparr>)"

definition upsert_code_repo_state :: "repo_state \<Rightarrow> doc_db \<Rightarrow> doc_db" where
  "upsert_code_repo_state r db =
     (let same = (\<lambda>q. rs_customer q = rs_customer r \<and> rs_repo q = rs_repo r \<and> rs_path q = rs_path r) in
      if \<exists>q \<in> set (doc_repo db). same q then db\<lparr>doc_repo := sql_update same (\<lambda>_. r) (doc_repo db)\<rparr>
      else db\<lparr>doc_repo := doc_repo db @ [r]\<rparr>)"

text \<open>The installation that may purge a document: one row per (customer, installation, document).\<close>

definition bind_document :: "string \<Rightarrow> document \<Rightarrow> doc_db \<Rightarrow> doc_exc + doc_db" where
  "bind_document c doc db =
     (let m = dc_metadata (d_content doc) in
      case (map_of m ''_github_binding_lane'', map_of m ''_github_installation_id'', map_of m ''_github_repository'') of
        (Some lane, Some inst, Some repo) \<Rightarrow>
          (let row = \<lparr>gb_customer = c, gb_installation = inst, gb_doc = d_id doc, gb_repository = repo,
                      gb_live = (lane = JStr ''live''), gb_history = (lane = JStr ''history'')\<rparr>;
               same = (\<lambda>b. gb_customer b = c \<and> gb_installation b = inst \<and> gb_doc b = d_id doc)
           in Inr (if \<exists>b \<in> set (doc_bindings db). same b
                   then db\<lparr>doc_bindings := sql_update same
                          (\<lambda>b. b\<lparr>gb_repository := repo, gb_live := gb_live b \<or> gb_live row, gb_history := gb_history b \<or> gb_history row\<rparr>)
                          (doc_bindings db)\<rparr>
                   else db\<lparr>doc_bindings := doc_bindings db @ [row]\<rparr>))
      | _ \<Rightarrow> Inl (OtherExc ''KeyError''))"

fun bind_documents :: "string \<Rightarrow> string list \<Rightarrow> document list \<Rightarrow> doc_db \<Rightarrow> doc_exc + doc_db" where
  "bind_documents c quarantined [] db = Inr db"
| "bind_documents c quarantined (doc # docs) db =
     (if d_id doc \<in> set quarantined then bind_documents c quarantined docs db
      else case bind_document c doc db of Inl x \<Rightarrow> Inl x | Inr db' \<Rightarrow> bind_documents c quarantined docs db')"

record norm_result =
  nr_docs :: "document list"
  nr_prechunked :: "(document \<times> piece list \<times> piece option) list"
  nr_nodes :: "node_spec list"
  nr_edges :: "edge_spec list"
  nr_acl :: "acl_snapshot list"
  nr_repo :: "repo_state list"
  nr_retire :: "string list"

text \<open>What the calls of \<^verbatim>\<open>_persist\<close> into other components answer: whether the session fence raised
  (\<^verbatim>\<open>refuse_deleted_sessions\<close>, see \<open>Suppression\<close>), whether GitHub control admits the projection, and what fails.\<close>

record 't persist_env =
  px_plan :: "'t plan_env"
  px_cast :: "json \<Rightarrow> int option"
  px_refused :: bool
  px_admitted :: bool
  px_fails :: "nat \<Rightarrow> (bool \<times> doc_exc) option"
  px_between :: "doc_db \<Rightarrow> doc_db"
  px_retire_fails :: bool
  px_enqueue_fails :: bool

definition flatten_docs :: "norm_result \<Rightarrow> (document \<times> (piece list \<times> piece option) option) list" where
  "flatten_docs r = map (\<lambda>d. (d, None)) (nr_docs r) @ map (\<lambda>(d, ps, m). (d, Some (ps, m))) (nr_prechunked r)"

definition storage_guard :: "document \<times> (piece list \<times> piece option) option \<Rightarrow> bool" where
  "storage_guard dp \<longleftrightarrow>
     map_of (dc_metadata (d_content (fst dp))) ''body'' = None \<and> (snd dp = None \<or> d_body (fst dp) = None)"

fun plan_all ::
  "'t plan_env \<Rightarrow> doc_db \<Rightarrow> (document \<times> (piece list \<times> piece option) option) list \<Rightarrow> doc_exc + (document \<times> chunk_plan) list" where
  "plan_all pv db [] = Inr []"
| "plan_all pv db ((doc, pre) # rest) =
     (case plan_chunks pv pre db doc of Inl x \<Rightarrow> Inl x
      | Inr dp \<Rightarrow> (case plan_all pv db rest of Inl x \<Rightarrow> Inl x | Inr dps \<Rightarrow> Inr (dp # dps)))"

text \<open>The checks of the leased GitHub path, under the document locks: no document of the batch may exist without a
  binding, and every chunk the plan reuses must still be live.\<close>

definition legacy_conflict :: "string \<Rightarrow> string set \<Rightarrow> doc_db \<Rightarrow> bool" where
  "legacy_conflict c ids db \<longleftrightarrow>
     (\<exists>r \<in> set (doc_versions db). dv_customer r = c \<and> dv_doc r \<in> ids
        \<and> (\<forall>b \<in> set (doc_bindings db). \<not> (gb_customer b = c \<and> gb_doc b = dv_doc r)))"

definition base_changed :: "string \<Rightarrow> doc_db \<Rightarrow> document \<times> chunk_plan \<Rightarrow> bool" where
  "base_changed c db dp \<longleftrightarrow>
     \<not> planned_reuse (snd dp) \<subseteq> ck_hash ` {k \<in> set (doc_chunks db). live_chunk c (d_id (fst dp)) k}"

definition github_gate ::
  "string \<Rightarrow> source_system \<Rightarrow> int option \<Rightarrow> bool \<Rightarrow> bool \<Rightarrow> (document \<times> chunk_plan) list \<Rightarrow> doc_db \<Rightarrow> doc_exc option" where
  "github_gate c s qid leased admitted dps db =
     (if s \<noteq> GITHUB \<or> qid = None then None
      else if \<not> admitted then Some (Prbe False ''GitHub operation was canceled or superseded'')
      else if \<not> leased then None
      else if legacy_conflict c (set (map (d_id \<circ> fst) dps)) db
      then Some (Prbe False ''Existing native GitHub data conflicts with installation control'')
      else if \<exists>dp \<in> set dps. base_changed c db dp then Some (Prbe False ''GitHub chunk base changed; retry the event'')
      else None)"

definition write_phase ::
  "'t persist_env \<Rightarrow> time \<Rightarrow> string \<Rightarrow> source_system \<Rightarrow> int option \<Rightarrow> bool \<Rightarrow> norm_result \<Rightarrow> (document \<times> chunk_plan) list
   \<Rightarrow> doc_db \<Rightarrow> doc_exc + (doc_db \<times> progress_out)" where
  "write_phase px now c s qid leased r dps db =
     (if s \<in> set AGENT_SESSION_SOURCES \<and> px_refused px then Inl (Prbe True ''session deleted; nothing written'')
      else case github_gate c s qid leased (px_admitted px) dps db of
          Some x \<Rightarrow> Inl x
        | None \<Rightarrow>
            (case persist_docs (pv_sha (px_plan px)) (px_cast px) now c s qid (px_fails px) 0 dps
                    \<lparr>po_ids = [], po_quarantined = [], po_applied = []\<rparr>
                    (fold upsert_code_repo_state (nr_repo r) (fold insert_acl_snapshot (nr_acl r) db)) of
               Inl x \<Rightarrow> Inl x
             | Inr (db1, po) \<Rightarrow>
                 (case persist_graph c (source_value s) now (set (map (d_id \<circ> fst) dps)) (set (po_ids po))
                         (nr_nodes r) (nr_edges r) (doc_graph db1) of
                    Inl _ \<Rightarrow> Inl (OtherExc ''graph write'')
                  | Inr (g, _) \<Rightarrow>
                      (case (if leased then bind_documents c (po_quarantined po) (map fst dps) (db1\<lparr>doc_graph := g\<rparr>)
                             else Inr (db1\<lparr>doc_graph := g\<rparr>)) of
                         Inl x \<Rightarrow> Inl x
                       | Inr db2 \<Rightarrow> Inr (db2, po)))))"

subsection \<open>After the commit\<close>

definition retire_orphaned_children :: "time \<Rightarrow> string \<Rightarrow> string list \<Rightarrow> string set \<Rightarrow> doc_db \<Rightarrow> doc_db" where
  "retire_orphaned_children now c parents kept db =
     db\<lparr>doc_versions := sql_update
          (\<lambda>r. dv_customer r = c \<and> (case dv_parent r of None \<Rightarrow> False | Some p \<Rightarrow> p \<in> set parents)
               \<and> dv_valid_to r = None \<and> dv_doc r \<notin> kept)
          (\<lambda>r. r\<lparr>dv_valid_to := Some now\<rparr>) (doc_versions db)\<rparr>"

definition inferred_edge_doc_ids :: "source_system \<Rightarrow> string list \<Rightarrow> document list \<Rightarrow> string list" where
  "inferred_edge_doc_ids s ids docs =
     (if s \<notin> set AGENT_SESSION_SOURCES then ids
      else if \<exists>d \<in> set docs. truthy (meta_get (dc_metadata (d_content d)) ''session_complete'' JNull) then ids else [])"

text \<open>One outstanding row per (customer, document, extractor): the partial unique index.\<close>

definition enqueue_anchor :: "string \<Rightarrow> string \<Rightarrow> string \<Rightarrow> doc_db \<Rightarrow> doc_db" where
  "enqueue_anchor ext c i db =
     (if \<exists>a \<in> set (doc_anchors db). ie_customer a = c \<and> ie_doc a = i \<and> ie_extractor a = ext \<and> ie_done a = None then db
      else db\<lparr>doc_anchors := doc_anchors db @ [\<lparr>ie_customer = c, ie_doc = i, ie_extractor = ext, ie_done = None\<rparr>]\<rparr>)"

record persist_out =
  out_ids :: "string list"
  out_quarantined :: "string list"
  out_added :: int
  out_reused :: int
  out_removed :: int
  out_failed :: int
  out_live :: int

definition outcome_of :: "progress_out \<Rightarrow> persist_out" where
  "outcome_of po =
     (let ap = po_applied po in
      \<lparr>out_ids = po_ids po, out_quarantined = po_quarantined po, out_added = sum_list (map pl_added_count ap),
       out_reused = sum_list (map reused_count ap), out_removed = sum_list (map (\<lambda>pl. int (card (pl_removed pl))) ap),
       out_failed = sum_list (map pl_failed_count ap), out_live = sum_list (map (\<lambda>pl. reused_count pl + pl_added_count pl) ap)\<rparr>)"

text \<open>\<^verbatim>\<open>_persist\<close>. An exception leaves the state as it was when the transaction began (with what others committed
  before). The steps after the commit swallow their own errors. \<open>ext\<close> is \<^verbatim>\<open>PROMPT_VERSION\<close> of the edge extractor.\<close>

definition persist ::
  "'t persist_env \<Rightarrow> string \<Rightarrow> time \<Rightarrow> string \<Rightarrow> source_system \<Rightarrow> int option \<Rightarrow> bool \<Rightarrow> norm_result \<Rightarrow> doc_db
   \<Rightarrow> doc_db \<times> (doc_exc + persist_out)" where
  "persist px ext now c s qid leased r db0 =
     (let all = flatten_docs r in
      if \<not> list_all storage_guard all then (db0, Inl (Prbe False ''connector set body''))
      else case plan_all (px_plan px) db0 all of
          Inl x \<Rightarrow> (db0, Inl x)
        | Inr dps \<Rightarrow>
            if leased \<and> (\<exists>dp \<in> set dps. pl_failed (snd dp) \<noteq> [])
            then (db0, Inl (Prbe False ''GitHub chunk embedding was incomplete; retry the event''))
            else let db = px_between px db0 in
              case write_phase px now c s qid leased r dps db of
                Inl x \<Rightarrow> (db, Inl x)
              | Inr (db1, po) \<Rightarrow>
                  let kept = set (map d_id (nr_docs r)) \<union> set (map (d_id \<circ> fst) (nr_prechunked r));
                      db2 = (if nr_retire r \<noteq> [] \<and> \<not> px_retire_fails px
                             then retire_orphaned_children now c (nr_retire r) kept db1 else db1);
                      ids = inferred_edge_doc_ids s (po_ids po) (nr_docs r);
                      db3 = (if po_ids po \<noteq> [] \<and> \<not> leased \<and> \<not> px_enqueue_fails px
                             then fold (enqueue_anchor ext c) ids db2 else db2)
                  in (db3, Inr (outcome_of po)))"

subsection \<open>A claimed batch\<close>

text \<open>\<^verbatim>\<open>persist_batch\<close>: several results of one tenant and source in one transaction, their graph writes in one call. An
  item is its result and queue id; \<open>admits\<close> is GitHub control's answer for a queue id. Savepoints are numbered across
  the items. A batch of one is \<open>persist\<close>.\<close>

fun plan_items ::
  "'t plan_env \<Rightarrow> doc_db \<Rightarrow> (norm_result \<times> int option) list \<Rightarrow> doc_exc + (norm_result \<times> int option \<times> (document \<times> chunk_plan) list) list" where
  "plan_items pv db [] = Inr []"
| "plan_items pv db ((r, qid) # items) =
     (case plan_all pv db (flatten_docs r) of Inl x \<Rightarrow> Inl x
      | Inr dps \<Rightarrow> (case plan_items pv db items of Inl x \<Rightarrow> Inl x | Inr rest \<Rightarrow> Inr ((r, qid, dps) # rest)))"

fun write_items ::
  "'t persist_env \<Rightarrow> (int \<Rightarrow> bool) \<Rightarrow> time \<Rightarrow> string \<Rightarrow> source_system \<Rightarrow> nat
   \<Rightarrow> (norm_result \<times> int option \<times> (document \<times> chunk_plan) list) list \<Rightarrow> doc_db \<Rightarrow> doc_exc + (doc_db \<times> progress_out list)" where
  "write_items px admits now c s n [] db = Inr (db, [])"
| "write_items px admits now c s n ((r, qid, dps) # items) db =
     (let none = \<lparr>po_ids = [], po_quarantined = [], po_applied = []\<rparr> in
      if s = GITHUB \<and> (case qid of None \<Rightarrow> False | Some q \<Rightarrow> \<not> admits q)
      then (case write_items px admits now c s n items db of Inl x \<Rightarrow> Inl x | Inr (db', pos) \<Rightarrow> Inr (db', none # pos))
      else case persist_docs (pv_sha (px_plan px)) (px_cast px) now c s qid (px_fails px) n dps none
                  (fold upsert_code_repo_state (nr_repo r) (fold insert_acl_snapshot (nr_acl r) db)) of
          Inl x \<Rightarrow> Inl x
        | Inr (db1, po) \<Rightarrow>
            (case write_items px admits now c s (n + length dps) items db1 of
               Inl x \<Rightarrow> Inl x | Inr (db', pos) \<Rightarrow> Inr (db', po # pos)))"

definition write_batch ::
  "'t persist_env \<Rightarrow> (int \<Rightarrow> bool) \<Rightarrow> time \<Rightarrow> string \<Rightarrow> source_system
   \<Rightarrow> (norm_result \<times> int option \<times> (document \<times> chunk_plan) list) list \<Rightarrow> doc_db \<Rightarrow> doc_exc + (doc_db \<times> progress_out list)" where
  "write_batch px admits now c s items db =
     (if s \<in> set AGENT_SESSION_SOURCES \<and> px_refused px then Inl (Prbe True ''session deleted; nothing written'')
      else case write_items px admits now c s 0 items db of
          Inl x \<Rightarrow> Inl x
        | Inr (db1, pos) \<Rightarrow>
            (case persist_graph c (source_value s) now
                    (set (concat (map (\<lambda>(r, q, dps). map (d_id \<circ> fst) dps) items))) (set (concat (map po_ids pos)))
                    (concat (map (\<lambda>(r, q, dps). nr_nodes r) items)) (concat (map (\<lambda>(r, q, dps). nr_edges r) items)) (doc_graph db1) of
               Inl _ \<Rightarrow> Inl (OtherExc ''graph write'')
             | Inr (g, _) \<Rightarrow> Inr (db1\<lparr>doc_graph := g\<rparr>, pos)))"

definition after_commit ::
  "'t persist_env \<Rightarrow> string \<Rightarrow> time \<Rightarrow> string \<Rightarrow> source_system \<Rightarrow> norm_result \<Rightarrow> progress_out \<Rightarrow> doc_db \<Rightarrow> doc_db" where
  "after_commit px ext now c s r po db =
     (let kept = set (map d_id (nr_docs r)) \<union> set (map (d_id \<circ> fst) (nr_prechunked r));
          db1 = (if nr_retire r \<noteq> [] \<and> \<not> px_retire_fails px then retire_orphaned_children now c (nr_retire r) kept db else db)
      in if po_ids po \<noteq> [] \<and> \<not> px_enqueue_fails px
         then fold (enqueue_anchor ext c) (inferred_edge_doc_ids s (po_ids po) (nr_docs r)) db1 else db1)"

definition persist_batch ::
  "'t persist_env \<Rightarrow> (int \<Rightarrow> bool) \<Rightarrow> string \<Rightarrow> time \<Rightarrow> string \<Rightarrow> source_system \<Rightarrow> (norm_result \<times> int option) list \<Rightarrow> doc_db
   \<Rightarrow> doc_db \<times> (doc_exc + persist_out list)" where
  "persist_batch px admits ext now c s items db0 =
     (case items of
        [] \<Rightarrow> (db0, Inr [])
      | [(r, qid)] \<Rightarrow>
          (case persist px ext now c s qid False r db0 of
             (db, Inl x) \<Rightarrow> (db, Inl x) | (db, Inr out) \<Rightarrow> (db, Inr [out]))
      | _ \<Rightarrow>
          if \<not> list_all (\<lambda>(r, q). list_all storage_guard (flatten_docs r)) items then (db0, Inl (Prbe False ''connector set body''))
          else case plan_items (px_plan px) db0 items of
              Inl x \<Rightarrow> (db0, Inl x)
            | Inr planned \<Rightarrow>
                let db = px_between px db0 in
                case write_batch px admits now c s planned db of
                  Inl x \<Rightarrow> (db, Inl x)
                | Inr (db1, pos) \<Rightarrow>
                    (fold (\<lambda>(r, po). after_commit px ext now c s r po) (zip (map fst items) pos) db1, Inr (map outcome_of pos)))"

subsection \<open>Reading\<close>

text \<open>The join \<^verbatim>\<open>d.version BETWEEN c.first_seen_version AND c.last_seen_version\<close> of the readers.\<close>

definition chunks_at :: "doc_db \<Rightarrow> string \<Rightarrow> string \<Rightarrow> int \<Rightarrow> chunk_row list" where
  "chunks_at db c i v = filter (\<lambda>k. ck_customer k = c \<and> ck_doc k = i \<and> ck_first k \<le> v \<and> v \<le> ck_last k) (doc_chunks db)"

definition fetch_live_body_from_chunks :: "'t tokenizer \<Rightarrow> doc_db \<Rightarrow> string \<Rightarrow> string \<Rightarrow> codepoints option" where
  "fetch_live_body_from_chunks tk db c i =
     reconstruct_chunk_text tk [] (Some DEFAULT_CHUNK_OVERLAP)
       (map ck_content (sort_key ck_index (filter (\<lambda>k. live_chunk c i k \<and> ck_kind k = ''content'') (doc_chunks db))))"

end
