(* ===== verification/DocumentProperties.thy ===== *)
theory DocumentProperties
  imports Documents
begin

section \<open>What document versions and chunks guarantee\<close>

named_theorems doc_simps "projections of the statements on the document tables"

subsection \<open>The versions of a document\<close>

definition ver_key :: "version_row \<Rightarrow> string \<times> string \<times> int" where
  "ver_key r = (dv_customer r, dv_doc r, dv_version r)"

definition same_doc :: "version_row \<Rightarrow> version_row \<Rightarrow> bool" where
  "same_doc r r' \<longleftrightarrow> dv_customer r = dv_customer r' \<and> dv_doc r = dv_doc r'"

text \<open>Keys are unique, numbers are those of the column, the versions of a document have no gap, and only the highest
  may be live.\<close>

definition versions_ok :: "version_row table \<Rightarrow> bool" where
  "versions_ok t \<longleftrightarrow>
     distinct (map ver_key t)
     \<and> (\<forall>r \<in> set t. 1 \<le> dv_version r \<and> dv_version r \<le> LIVE_CHUNK_LAST_SEEN)
     \<and> (\<forall>r \<in> set t. \<forall>r' \<in> set t. same_doc r r' \<longrightarrow>
          (\<forall>v. dv_version r \<le> v \<and> v \<le> dv_version r' \<longrightarrow> (dv_customer r, dv_doc r, v) \<in> ver_key ` set t))
     \<and> (\<forall>r \<in> set t. \<forall>r' \<in> set t. same_doc r r' \<and> dv_valid_to r = None \<longrightarrow> dv_version r' \<le> dv_version r)"

lemma versions_okD:
  assumes "versions_ok t"
  shows "distinct (map ver_key t)"
    and "\<And>r. r \<in> set t \<Longrightarrow> 1 \<le> dv_version r \<and> dv_version r \<le> LIVE_CHUNK_LAST_SEEN"
    and "\<And>r r' v. r \<in> set t \<Longrightarrow> r' \<in> set t \<Longrightarrow> same_doc r r' \<Longrightarrow> dv_version r \<le> v \<Longrightarrow> v \<le> dv_version r'
           \<Longrightarrow> (dv_customer r, dv_doc r, v) \<in> ver_key ` set t"
    and "\<And>r r'. r \<in> set t \<Longrightarrow> r' \<in> set t \<Longrightarrow> same_doc r r' \<Longrightarrow> dv_valid_to r = None \<Longrightarrow> dv_version r' \<le> dv_version r"
  using assms unfolding versions_ok_def by simp_all

lemma ver_key_inj: "versions_ok t \<Longrightarrow> r \<in> set t \<Longrightarrow> r' \<in> set t \<Longrightarrow> ver_key r = ver_key r' \<Longrightarrow> r = r'"
  by (auto simp: versions_ok_def distinct_map inj_on_def)

lemma live_unique:
  assumes ok: "versions_ok t" and "r \<in> set t" "r' \<in> set t" "live_row c i r" "live_row c i r'"
  shows "r = r'"
proof -
  have "same_doc r r'" "same_doc r' r" "dv_valid_to r = None" "dv_valid_to r' = None"
    using assms(4,5) by (auto simp: same_doc_def live_row_def)
  then have "dv_version r = dv_version r'"
    using versions_okD(4) [OF ok] assms(2,3) by (meson order_antisym)
  then show ?thesis
    using ver_key_inj [OF ok assms(2,3)] assms(4,5) by (simp add: ver_key_def live_row_def)
qed

lemma one_live_row:
  assumes ok: "versions_ok t"
  shows "length (filter (live_row c i) t) \<le> 1"
proof -
  have "distinct t" using versions_okD(1) [OF ok] by (simp add: distinct_map)
  then have "length (filter (live_row c i) t) = card (set (filter (live_row c i) t))"
    by (metis distinct_card distinct_filter)
  also have "\<dots> \<le> 1" using live_unique [OF ok] by (intro card_le_Suc0_iff_eq [THEN iffD2, folded One_nat_def]) auto
  finally show ?thesis .
qed

lemma has_version_iff: "has_version db c i v \<longleftrightarrow> (c, i, v) \<in> ver_key ` set (doc_versions db)"
  by (auto simp: has_version_def ver_key_def image_iff)

lemma live_version_Some:
  "live_version db c i = Some e \<Longrightarrow> e \<in> set (doc_versions db) \<and> live_row c i e"
  by (auto simp: live_version_def find_Some_iff in_set_conv_nth)

lemma live_version_None: "live_version db c i = None \<longleftrightarrow> (\<forall>r \<in> set (doc_versions db). \<not> live_row c i r)"
  by (auto simp: live_version_def find_None_iff)

lemma live_version_unique:
  "versions_ok (doc_versions db) \<Longrightarrow> e \<in> set (doc_versions db) \<Longrightarrow> live_row c i e \<Longrightarrow> live_version db c i = Some e"
  by (metis live_version_None live_version_Some live_unique not_None_eq)

subsection \<open>The highest version\<close>

lemma fold_max_ge: "(x :: int) \<in> set (v # vs) \<Longrightarrow> x \<le> fold max vs v"
proof (induction vs arbitrary: v x)
  case (Cons w ws)
  have "max w v \<le> fold max ws (max w v)" by (rule Cons.IH) simp
  moreover have "x \<le> max w v \<or> x \<in> set ws" using Cons.prems by auto
  ultimately show ?case using Cons.IH [of x "max w v"] by auto
qed simp

lemma fold_max_mem: "fold max vs (v :: int) \<in> set (v # vs)"
proof (induction vs arbitrary: v)
  case (Cons w ws)
  have "fold max ws (max w v) \<in> set (max w v # ws)" by (rule Cons.IH)
  moreover have "max w v = w \<or> max w v = v" by linarith
  ultimately show ?case by auto
qed simp

definition doc_numbers :: "doc_db \<Rightarrow> string \<Rightarrow> string \<Rightarrow> int list" where
  "doc_numbers db c i = map dv_version (filter (\<lambda>r. dv_customer r = c \<and> dv_doc r = i) (doc_versions db))"

lemma doc_numbers_iff: "v \<in> set (doc_numbers db c i) \<longleftrightarrow> has_version db c i v"
  by (auto simp: doc_numbers_def has_version_def)

lemma max_version_cases:
  "(doc_numbers db c i = [] \<and> max_version db c i = 0)
   \<or> (\<exists>v vs. doc_numbers db c i = v # vs \<and> max_version db c i = fold max vs v)"
  by (cases "doc_numbers db c i") (simp_all add: max_version_def doc_numbers_def [symmetric])

lemma max_version_ge: "has_version db c i v \<Longrightarrow> v \<le> max_version db c i"
  using max_version_cases [of db c i] fold_max_ge [of v] doc_numbers_iff [of v db c i] by fastforce

lemma max_version_has: "has_version db c i v \<Longrightarrow> has_version db c i (max_version db c i)"
  using max_version_cases [of db c i] fold_max_mem doc_numbers_iff [of _ db c i] by (metis empty_iff empty_set)

lemma max_version_none: "(\<And>v. \<not> has_version db c i v) \<Longrightarrow> max_version db c i = 0"
  using max_version_cases [of db c i] doc_numbers_iff [of _ db c i] by (metis list.set_intros(1))

lemma live_is_max:
  assumes ok: "versions_ok (doc_versions db)" and e: "live_version db c i = Some e"
  shows "dv_version e = max_version db c i" and "has_version db c i (dv_version e)"
proof -
  note e' = live_version_Some [OF e]
  show h: "has_version db c i (dv_version e)" using e' by (auto simp: has_version_def live_row_def)
  obtain r where r: "r \<in> set (doc_versions db)" "dv_customer r = c" "dv_doc r = i" "dv_version r = max_version db c i"
    using max_version_has [OF h] by (auto simp: has_version_def)
  have "same_doc e r" "dv_valid_to e = None" using e' r by (auto simp: same_doc_def live_row_def)
  then have "dv_version r \<le> dv_version e" using versions_okD(4) [OF ok] e' r(1) by blast
  then show "dv_version e = max_version db c i" using max_version_ge [OF h] r(4) by simp
qed

lemma max_version_bounds:
  assumes "versions_ok (doc_versions db)"
  shows "0 \<le> max_version db c i" and "max_version db c i \<le> LIVE_CHUNK_LAST_SEEN"
    and "0 < max_version db c i \<Longrightarrow> has_version db c i (max_version db c i)"
proof -
  consider v where "has_version db c i v" | "\<And>v. \<not> has_version db c i v" by blast
  then have "(0 \<le> max_version db c i \<and> max_version db c i \<le> LIVE_CHUNK_LAST_SEEN)
    \<and> (0 < max_version db c i \<longrightarrow> has_version db c i (max_version db c i))"
  proof cases
    case 1
    from max_version_has [OF 1] obtain r where "r \<in> set (doc_versions db)" "dv_version r = max_version db c i"
      by (auto simp: has_version_def)
    with versions_okD(2) [OF assms, of r] max_version_has [OF 1] show ?thesis by simp
  next
    case 2
    then show ?thesis using max_version_none [of db c i] by (simp add: LIVE_CHUNK_LAST_SEEN_def)
  qed
  then show "0 \<le> max_version db c i" and "max_version db c i \<le> LIVE_CHUNK_LAST_SEEN"
    and "0 < max_version db c i \<Longrightarrow> has_version db c i (max_version db c i)" by simp_all
qed

subsection \<open>Transactions that only add versions\<close>

text \<open>What every writer of versions does to the table: no key disappears, a closed version stays closed, and new
  versions of a document start right above its highest.\<close>

definition grows :: "doc_db \<Rightarrow> doc_db \<Rightarrow> bool" where
  "grows db db' \<longleftrightarrow>
     versions_ok (doc_versions db')
     \<and> (\<forall>r \<in> set (doc_versions db). \<exists>r' \<in> set (doc_versions db').
          ver_key r' = ver_key r \<and> (dv_valid_to r \<noteq> None \<longrightarrow> dv_valid_to r' \<noteq> None))
     \<and> (\<forall>c i w. has_version db' c i w \<and> \<not> has_version db c i w \<longrightarrow>
          max_version db c i < w \<and> (\<forall>u. max_version db c i < u \<and> u \<le> w \<longrightarrow> has_version db' c i u))"

lemma growsD:
  assumes "grows db db'"
  shows "versions_ok (doc_versions db')"
    and "\<And>r. r \<in> set (doc_versions db) \<Longrightarrow> \<exists>r' \<in> set (doc_versions db').
           ver_key r' = ver_key r \<and> (dv_valid_to r \<noteq> None \<longrightarrow> dv_valid_to r' \<noteq> None)"
    and "\<And>c i w. has_version db' c i w \<Longrightarrow> \<not> has_version db c i w \<Longrightarrow> max_version db c i < w"
    and "\<And>c i w u. has_version db' c i w \<Longrightarrow> \<not> has_version db c i w \<Longrightarrow> max_version db c i < u \<Longrightarrow> u \<le> w \<Longrightarrow> has_version db' c i u"
  using assms unfolding grows_def by blast+

lemma grows_keys: "grows db db' \<Longrightarrow> has_version db c i v \<Longrightarrow> has_version db' c i v"
proof -
  assume g: "grows db db'" and "has_version db c i v"
  then obtain r where "r \<in> set (doc_versions db)" "ver_key r = (c, i, v)" by (auto simp: has_version_iff)
  then show ?thesis using growsD(2) [OF g] by (metis has_version_iff image_eqI)
qed

lemma grows_max: "grows db db' \<Longrightarrow> versions_ok (doc_versions db) \<Longrightarrow> max_version db c i \<le> max_version db' c i"
proof -
  assume g: "grows db db'" and ok: "versions_ok (doc_versions db)"
  show ?thesis
  proof (cases "0 < max_version db c i")
    case True
    then show ?thesis using max_version_bounds(3) [OF ok] grows_keys [OF g] max_version_ge by blast
  next
    case False
    then show ?thesis using max_version_bounds(1) [OF growsD(1) [OF g], of c i] by linarith
  qed
qed

lemma grows_refl: "versions_ok (doc_versions db) \<Longrightarrow> grows db db"
  by (auto simp: grows_def)

text \<open>What lies between the old and the new highest version is there.\<close>

lemma grows_fill:
  assumes g: "grows db db'" and "max_version db c i < u" "u \<le> w" "has_version db' c i w"
  shows "has_version db' c i u"
proof -
  have "\<not> has_version db c i w" using assms(2,3) max_version_ge by fastforce
  then show ?thesis using growsD(4) [OF g assms(4)] assms(2,3) by blast
qed

lemma grows_trans:
  assumes g: "grows db db'" and g': "grows db' db''" and ok: "versions_ok (doc_versions db)"
  shows "grows db db''"
  unfolding grows_def
proof (intro conjI ballI allI impI)
  show "versions_ok (doc_versions db'')" by (rule growsD(1) [OF g'])
next
  fix r assume "r \<in> set (doc_versions db)"
  then obtain r' where r': "r' \<in> set (doc_versions db')" "ver_key r' = ver_key r" "dv_valid_to r \<noteq> None \<longrightarrow> dv_valid_to r' \<noteq> None"
    using growsD(2) [OF g] by blast
  then obtain r'' where "r'' \<in> set (doc_versions db'')" "ver_key r'' = ver_key r'" "dv_valid_to r' \<noteq> None \<longrightarrow> dv_valid_to r'' \<noteq> None"
    using growsD(2) [OF g'] by blast
  then show "\<exists>r' \<in> set (doc_versions db''). ver_key r' = ver_key r \<and> (dv_valid_to r \<noteq> None \<longrightarrow> dv_valid_to r' \<noteq> None)"
    using r' by (intro bexI [of _ r'']) auto
next
  fix c i w assume w: "has_version db'' c i w \<and> \<not> has_version db c i w"
  show "max_version db c i < w"
  proof (cases "has_version db' c i w")
    case True
    then show ?thesis using growsD(3) [OF g] w by blast
  next
    case False
    then show ?thesis using growsD(3) [OF g', of c i w] w grows_max [OF g ok, of c i] by linarith
  qed
next
  fix c i w u assume w: "has_version db'' c i w \<and> \<not> has_version db c i w" and u: "max_version db c i < u \<and> u \<le> w"
  show "has_version db'' c i u"
  proof (cases "max_version db' c i < u")
    case True
    then show ?thesis using grows_fill [OF g'] w u by blast
  next
    case False
    then have "0 < max_version db' c i" using u max_version_bounds(1) [OF ok, of c i] by linarith
    then have "has_version db' c i u"
      using grows_fill [OF g, of c i u "max_version db' c i"] max_version_bounds(3) [OF growsD(1) [OF g]] u False by simp
    then show ?thesis by (rule grows_keys [OF g'])
  qed
qed

text \<open>An update that keeps the keys and opens nothing grows.\<close>

lemma update_grows:
  assumes ok: "versions_ok (doc_versions db)"
    and vs: "doc_versions db' = sql_update p f (doc_versions db)"
    and f: "\<And>r. ver_key (f r) = ver_key r" "\<And>r. dv_valid_to r \<noteq> None \<Longrightarrow> dv_valid_to (f r) \<noteq> None"
  shows "grows db db'"
proof -
  let ?h = "\<lambda>r. if p r then f r else r"
  have m: "doc_versions db' = map ?h (doc_versions db)" by (simp add: vs sql_update_def)
  have keys: "ver_key (?h r) = ver_key r" for r by (simp add: f(1))
  have km: "map ver_key (doc_versions db') = map ver_key (doc_versions db)" by (simp add: m f(1))
  have ki: "ver_key ` set (doc_versions db') = ver_key ` set (doc_versions db)" by (metis km set_map)
  have same: "dv_customer (?h r) = dv_customer r" "dv_doc (?h r) = dv_doc r" "dv_version (?h r) = dv_version r" for r
    using keys [of r] by (simp_all only: ver_key_def prod.inject)
  have opened: "dv_valid_to (?h r) = None \<Longrightarrow> dv_valid_to r = None" for r using f(2) [of r] by (cases "p r"; cases "dv_valid_to r") auto
  have "versions_ok (doc_versions db')"
    unfolding versions_ok_def
  proof (intro conjI ballI allI impI)
    show "distinct (map ver_key (doc_versions db'))" using versions_okD(1) [OF ok] km by simp
  next
    fix r assume "r \<in> set (doc_versions db')"
    then obtain r0 where "r0 \<in> set (doc_versions db)" "r = ?h r0" unfolding m set_map by (elim imageE)
    then show "1 \<le> dv_version r" "dv_version r \<le> LIVE_CHUNK_LAST_SEEN"
      using versions_okD(2) [OF ok] same by simp_all
  next
    fix r r' v assume "r \<in> set (doc_versions db')" "r' \<in> set (doc_versions db')" and s: "same_doc r r'"
      and v: "dv_version r \<le> v \<and> v \<le> dv_version r'"
    then obtain q q' where q: "q \<in> set (doc_versions db)" "r = ?h q" "q' \<in> set (doc_versions db)" "r' = ?h q'"
      unfolding m set_map by (elim imageE)
    have "(dv_customer q, dv_doc q, v) \<in> ver_key ` set (doc_versions db)"
      using versions_okD(3) [OF ok q(1,3)] s v by (simp only: q(2,4) same_doc_def same)
    then show "(dv_customer r, dv_doc r, v) \<in> ver_key ` set (doc_versions db')" by (simp only: ki q(2) same)
  next
    fix r r' assume "r \<in> set (doc_versions db')" "r' \<in> set (doc_versions db')" and s: "same_doc r r' \<and> dv_valid_to r = None"
    then obtain q q' where q: "q \<in> set (doc_versions db)" "r = ?h q" "q' \<in> set (doc_versions db)" "r' = ?h q'"
      unfolding m set_map by (elim imageE)
    have "dv_valid_to q = None" using s opened q(2) by blast
    then show "dv_version r' \<le> dv_version r"
      using versions_okD(4) [OF ok q(1,3)] s by (simp only: q(2,4) same_doc_def same)
  qed
  moreover have "has_version db' c i w \<longleftrightarrow> has_version db c i w" for c i w by (simp add: has_version_iff ki)
  moreover have "\<exists>r' \<in> set (doc_versions db'). ver_key r' = ver_key r \<and> (dv_valid_to r \<noteq> None \<longrightarrow> dv_valid_to r' \<noteq> None)"
    if "r \<in> set (doc_versions db)" for r
  proof (intro bexI conjI impI)
    show "?h r \<in> set (doc_versions db')" using that by (simp add: m)
    show "ver_key (?h r) = ver_key r" by (rule keys)
    show "dv_valid_to r \<noteq> None \<Longrightarrow> dv_valid_to (?h r) \<noteq> None" using f(2) [of r] by (cases "p r") simp_all
  qed
  ultimately show ?thesis by (simp add: grows_def)
qed

lemma insert_grows:
  assumes ok: "versions_ok (doc_versions db)"
    and free: "live_version db (d_customer doc) (d_id doc) = None"
    and v: "v = max_version db (d_customer doc) (d_id doc) + 1" "v \<le> LIVE_CHUNK_LAST_SEEN"
    and vs: "doc_versions db' = doc_versions db @ [version_of doc v]"
  shows "grows db db'"
proof -
  let ?c = "d_customer doc" and ?i = "d_id doc" and ?n = "version_of doc v"
  have n [simp]: "dv_customer ?n = ?c" "dv_doc ?n = ?i" "dv_version ?n = v" "ver_key ?n = (?c, ?i, v)"
    by (simp_all add: version_of_def ver_key_def)
  have mem: "x \<in> set (doc_versions db') \<longleftrightarrow> x \<in> set (doc_versions db) \<or> x = ?n" for x
    by (simp add: vs disj_commute)
  have v1: "1 \<le> v" using v(1) max_version_bounds(1) [OF ok, of ?c ?i] by simp
  have absent: "\<not> has_version db ?c ?i v" using v(1) max_version_ge by fastforce
  have below: "dv_version r < v" if "r \<in> set (doc_versions db)" "dv_customer r = ?c" "dv_doc r = ?i" for r
    using max_version_ge [of db ?c ?i "dv_version r"] that v(1) by (force simp: has_version_def)
  have hv: "has_version db' c i w \<longleftrightarrow> has_version db c i w \<or> (c = ?c \<and> i = ?i \<and> w = v)" for c i w
    by (auto simp: has_version_iff vs)
  have step: "(dv_customer r, dv_doc r, u) \<in> ver_key ` set (doc_versions db')"
    if r: "r \<in> set (doc_versions db)" "dv_customer r = ?c" "dv_doc r = ?i" and u: "dv_version r \<le> u" "u \<le> v" for r u
  proof (cases "u = v")
    case False
    have h: "has_version db ?c ?i (max_version db ?c ?i)"
      using max_version_has [of db ?c ?i "dv_version r"] r by (force simp: has_version_def)
    then obtain q where q: "q \<in> set (doc_versions db)" "dv_customer q = ?c" "dv_doc q = ?i" "dv_version q = max_version db ?c ?i"
      by (auto simp: has_version_def)
    have "same_doc r q" using r q by (simp add: same_doc_def)
    then have "(dv_customer r, dv_doc r, u) \<in> ver_key ` set (doc_versions db)"
      using versions_okD(3) [OF ok r(1) q(1)] u False v(1) q(4) by simp
    then show ?thesis by (simp add: vs)
  qed (simp add: vs r)
  have "versions_ok (doc_versions db')"
    unfolding versions_ok_def
  proof (intro conjI ballI allI impI)
    show "distinct (map ver_key (doc_versions db'))"
      using versions_okD(1) [OF ok] absent by (simp add: vs has_version_iff image_iff)
  next
    fix r assume "r \<in> set (doc_versions db')"
    then show "1 \<le> dv_version r" "dv_version r \<le> LIVE_CHUNK_LAST_SEEN"
      using versions_okD(2) [OF ok, of r] v1 v(2) by (auto simp: mem)
  next
    fix r r' u assume r: "r \<in> set (doc_versions db')" "r' \<in> set (doc_versions db')" and s: "same_doc r r'"
      and u: "dv_version r \<le> u \<and> u \<le> dv_version r'"
    consider "r \<in> set (doc_versions db)" "r' \<in> set (doc_versions db)" | "r \<in> set (doc_versions db)" "r' = ?n" | "r = ?n" "r' = ?n"
      | "r = ?n" "r' \<in> set (doc_versions db)" using r unfolding mem by blast
    then show "(dv_customer r, dv_doc r, u) \<in> ver_key ` set (doc_versions db')"
    proof cases
      case 1
      then show ?thesis using versions_okD(3) [OF ok 1 s] u by (simp add: vs)
    next
      case 2
      then show ?thesis using step [of r u] s u by (simp add: same_doc_def)
    next
      case 3
      then show ?thesis using u by (simp add: vs)
    next
      case 4
      then show ?thesis using below [of r'] s u by (simp add: same_doc_def)
    qed
  next
    fix r r' assume r: "r \<in> set (doc_versions db')" "r' \<in> set (doc_versions db')" and s: "same_doc r r' \<and> dv_valid_to r = None"
    show "dv_version r' \<le> dv_version r"
    proof (cases "r = ?n")
      case True
      then have "r' = ?n \<or> dv_version r' < v" using below [of r'] r(2) s unfolding mem same_doc_def by auto
      then show ?thesis using True by auto
    next
      case False
      then have old: "r \<in> set (doc_versions db)" using r(1) mem by simp
      have "r' \<noteq> ?n"
      proof
        assume "r' = ?n"
        then have "live_row ?c ?i r" using s by (simp add: live_row_def same_doc_def)
        then show False using free old by (simp add: live_version_None)
      qed
      then show ?thesis using versions_okD(4) [OF ok old] r(2) s mem by simp
    qed
  qed
  moreover have "\<exists>r' \<in> set (doc_versions db'). ver_key r' = ver_key r \<and> (dv_valid_to r \<noteq> None \<longrightarrow> dv_valid_to r' \<noteq> None)"
    if "r \<in> set (doc_versions db)" for r using that by (intro bexI [of _ r]) (simp_all add: vs)
  moreover have "max_version db c i < w \<and> (\<forall>u. max_version db c i < u \<and> u \<le> w \<longrightarrow> has_version db' c i u)"
    if "has_version db' c i w" "\<not> has_version db c i w" for c i w
  proof -
    have "c = ?c \<and> i = ?i \<and> w = v" using that hv by simp
    then show ?thesis using hv v(1) by auto
  qed
  ultimately show ?thesis unfolding grows_def by blast
qed

lemma close_grows: "versions_ok (doc_versions db) \<Longrightarrow> grows db (close_version now c i v db)"
  by (rule update_grows [where f = "\<lambda>r. r\<lparr>dv_valid_to := Some now\<rparr>"]) (auto simp: close_version_def ver_key_def)

lemma in_place_grows: "versions_ok (doc_versions db) \<Longrightarrow> grows db (update_in_place doc v db)"
  by (rule update_grows [where f = "\<lambda>r. r\<lparr>dv_content := d_content doc\<rparr>"]) (auto simp: update_in_place_def ver_key_def)

lemma retire_children_grows:
  "versions_ok (doc_versions db) \<Longrightarrow> grows db (retire_orphaned_children now c parents kept db)"
  by (rule update_grows [where f = "\<lambda>r. r\<lparr>dv_valid_to := Some now\<rparr>"]) (auto simp: retire_orphaned_children_def ver_key_def)

text \<open>A version seen live, closed, and still the highest key before the INSERT leaves nothing live: whatever the
  others did meanwhile, they would have taken the next number.\<close>

lemma closed_stays_closed:
  assumes ok: "versions_ok (doc_versions db)" and e: "live_version db c i = Some e"
    and f: "grows db db1" and g: "grows (close_version now c i (dv_version e) db1) db3"
    and absent: "\<not> has_version db3 c i (dv_version e + 1)"
  shows "live_version db3 c i = None" and "max_version db3 c i = dv_version e"
proof -
  let ?db2 = "close_version now c i (dv_version e) db1"
  note ok1 = growsD(1) [OF f]
  have c: "grows db1 ?db2" by (rule close_grows [OF ok1])
  note ok3 = growsD(1) [OF g]
  have all: "grows db db3" using grows_trans [OF f grows_trans [OF c g ok1] ok] .
  have e_key: "has_version db c i (dv_version e)" "dv_version e = max_version db c i"
    using live_is_max [OF ok e] by simp_all
  have upper: "w \<le> dv_version e" if "has_version db3 c i w" for w
  proof (rule ccontr)
    assume "\<not> w \<le> dv_version e"
    then have "has_version db3 c i (dv_version e + 1)"
      using grows_fill [OF all, of c i "dv_version e + 1" w] that e_key(2) by simp
    then show False using absent by simp
  qed
  have kept: "has_version db3 c i (dv_version e)" by (rule grows_keys [OF all e_key(1)])
  show "max_version db3 c i = dv_version e"
    using upper max_version_has [OF kept] max_version_ge [OF kept] by (intro order_antisym) simp_all
  have "has_version ?db2 c i (dv_version e)" by (rule grows_keys [OF grows_trans [OF f c ok] e_key(1)])
  then obtain r2 where r2: "r2 \<in> set (doc_versions ?db2)" "ver_key r2 = (c, i, dv_version e)" by (auto simp: has_version_iff)
  have "dv_valid_to r2 \<noteq> None"
  proof -
    from r2(1) obtain r where "r2 = (if live_row c i r \<and> dv_version r = dv_version e then r\<lparr>dv_valid_to := Some now\<rparr> else r)"
      unfolding close_version_def by (auto elim: sql_update_memE)
    then show ?thesis using r2(2) by (auto simp: ver_key_def live_row_def split: if_splits)
  qed
  then obtain r3 where r3: "r3 \<in> set (doc_versions db3)" "ver_key r3 = (c, i, dv_version e)" "dv_valid_to r3 \<noteq> None"
    using growsD(2) [OF g r2(1)] r2(2) by auto
  show "live_version db3 c i = None"
  proof (rule ccontr)
    assume "live_version db3 c i \<noteq> None"
    then obtain r where r: "live_version db3 c i = Some r" by blast
    have "dv_version r = dv_version e"
      using live_is_max(1) [OF ok3 r] upper max_version_has [OF kept] max_version_ge [OF kept] by (simp add: order_antisym)
    then have "ver_key r = ver_key r3" using live_version_Some [OF r] r3(2) by (simp add: ver_key_def live_row_def)
    then have "r = r3" using ver_key_inj [OF ok3] live_version_Some [OF r] r3(1) by blast
    then show False using live_version_Some [OF r] r3(3) by (simp add: live_row_def)
  qed
qed

lemma set_meta_simps [simp]:
  "d_customer (set_meta k v doc) = d_customer doc" "d_id (set_meta k v doc) = d_id doc"
  "d_valid_to (set_meta k v doc) = d_valid_to doc" "d_deleted (set_meta k v doc) = d_deleted doc"
  "d_coalesce (set_meta k v doc) = d_coalesce doc"
  "dc_hash (d_content (set_meta k v doc)) = dc_hash (d_content doc)"
  "dc_updated (d_content (set_meta k v doc)) = dc_updated (d_content doc)"
  by (simp_all add: set_meta_def)

lemma pop_meta_simps [simp]:
  "d_customer (pop_meta k doc) = d_customer doc" "d_id (pop_meta k doc) = d_id doc"
  "d_valid_to (pop_meta k doc) = d_valid_to doc" "d_deleted (pop_meta k doc) = d_deleted doc"
  "d_coalesce (pop_meta k doc) = d_coalesce doc"
  "dc_hash (d_content (pop_meta k doc)) = dc_hash (d_content doc)"
  "dc_updated (d_content (pop_meta k doc)) = dc_updated (d_content doc)"
  by (simp_all add: pop_meta_def)

lemma attempt_identity:
  assumes "upsert_attempt now force fg doc db = Inr (db', doc', b)"
  shows "d_customer doc' = d_customer doc \<and> d_id doc' = d_id doc"
  using assms
  by (cases fg) (auto simp: upsert_attempt_def Let_def split: option.splits if_splits)

text \<open>Transactions of others, as a pass of the loop meets them: they only add versions, and before the MAX is read
  none of them opens a version of a document that had none live.\<close>

definition harmless :: "string \<Rightarrow> string \<Rightarrow> (doc_db \<Rightarrow> doc_db) \<times> (doc_db \<Rightarrow> doc_db) \<Rightarrow> bool" where
  "harmless c i fg \<longleftrightarrow>
     (\<forall>db. versions_ok (doc_versions db) \<longrightarrow> grows db (fst fg db) \<and> grows db (snd fg db)
        \<and> (live_version db c i = None \<longrightarrow> live_version (fst fg db) c i = None))"

lemma insert_when_free:
  assumes ok: "versions_ok (doc_versions db)" and free: "live_version db (d_customer doc) (d_id doc) = None"
    and v: "v = max_version db (d_customer doc) (d_id doc) + 1" "\<not> LIVE_CHUNK_LAST_SEEN < v"
    and ins: "insert_version doc v db = Some db'"
  shows "grows db db'"
  using insert_grows [OF ok free v(1), of db'] v(2) ins by (auto simp: insert_version_def split: if_splits)

lemma attempt_grows:
  assumes ok: "versions_ok (doc_versions db)" and h: "harmless (d_customer doc) (d_id doc) fg"
    and up: "upsert_attempt now force fg doc db = Inr (db', doc', b)"
  shows "grows db db'"
proof -
  let ?c = "d_customer doc" and ?i = "d_id doc"
  obtain f g where fg: "fg = (f, g)" by (rule prod.exhaust)
  have f: "grows d (f d)" "live_version d ?c ?i = None \<Longrightarrow> live_version (f d) ?c ?i = None" and g: "grows d (g d)"
    if "versions_ok (doc_versions d)" for d using h that by (simp_all add: harmless_def fg)
  note ok1 = growsD(1) [OF f(1) [OF ok]]
  show ?thesis
  proof (cases "live_version db ?c ?i")
    case None
    have g1: "grows (f db) (g (f db))" by (rule g [OF ok1])
    note ok3 = growsD(1) [OF g1]
    have tr: "grows db (g (f db))" by (rule grows_trans [OF f(1) [OF ok] g1 ok])
    let ?v = "max_version (f db) ?c ?i + 1"
    have *: "grows (g (f db)) db'" if ins: "insert_version doc ?v (g (f db)) = Some db'" "\<not> LIVE_CHUNK_LAST_SEEN < ?v"
    proof -
      have absent: "\<not> has_version (g (f db)) ?c ?i ?v" using ins by (simp add: insert_version_def split: if_splits)
      have upper: "w < ?v" if "has_version (g (f db)) ?c ?i w" for w
        using grows_fill [OF g1, of ?c ?i ?v w] that absent by (cases "w < ?v") simp_all
      have mx: "?v = max_version (g (f db)) ?c ?i + 1"
        using grows_max [OF g1 ok1, of ?c ?i] upper [of "max_version (g (f db)) ?c ?i"]
          max_version_bounds(1) [OF ok1, of ?c ?i] max_version_bounds(3) [OF ok3, of ?c ?i]
        by (cases "0 < max_version (g (f db)) ?c ?i") simp_all
      have "live_version (g (f db)) ?c ?i = None"
      proof (rule ccontr)
        assume "live_version (g (f db)) ?c ?i \<noteq> None"
        then obtain r where r: "live_version (g (f db)) ?c ?i = Some r" by blast
        then have "dv_version r = max_version (f db) ?c ?i" using live_is_max(1) [OF ok3 r] mx by simp
        moreover have "has_version (f db) ?c ?i (dv_version r)"
          using growsD(3) [OF g1, of ?c ?i "dv_version r"] live_is_max(2) [OF ok3 r] calculation by fastforce
        then obtain q where q: "q \<in> set (doc_versions (f db))" "ver_key q = (?c, ?i, dv_version r)"
          by (auto simp: has_version_iff)
        have "dv_valid_to q \<noteq> None"
          using f(2) [OF ok None] q by (auto simp: live_version_None live_row_def ver_key_def)
        then obtain q' where q': "q' \<in> set (doc_versions (g (f db)))" "ver_key q' = ver_key q" "dv_valid_to q' \<noteq> None"
          using growsD(2) [OF g1 q(1)] by blast
        have "q' = r"
          using ver_key_inj [OF ok3 q'(1)] live_version_Some [OF r] q'(2) q(2) by (simp add: ver_key_def live_row_def)
        then show False using live_version_Some [OF r] q'(3) by (simp add: live_row_def)
      qed
      then show ?thesis using insert_when_free [OF ok3 _ mx ins(2,1)] by simp
    qed
    show ?thesis
      using up None * tr grows_trans [OF tr _ ok]
      by (auto simp: upsert_attempt_def fg Let_def split: option.splits if_splits)
  next
    case (Some e)
    let ?db2 = "close_version now ?c ?i (dv_version e) (f db)"
    have g2: "grows ?db2 (g ?db2)" by (rule g [OF growsD(1) [OF close_grows [OF ok1]]])
    have tr: "grows db (g ?db2)"
      by (rule grows_trans [OF f(1) [OF ok] grows_trans [OF close_grows [OF ok1] g2 ok1] ok])
    let ?d = "if d_supersedes doc = None then doc\<lparr>d_supersedes := Some ?i\<rparr> else doc"
    have d [simp]: "d_customer ?d = ?c" "d_id ?d = ?i" by simp_all
    have *: "grows (g ?db2) db'"
      if ins: "insert_version ?d (dv_version e + 1) (g ?db2) = Some db'" "\<not> LIVE_CHUNK_LAST_SEEN < dv_version e + 1"
    proof -
      have "\<not> has_version (g ?db2) ?c ?i (dv_version e + 1)" using ins by (simp add: insert_version_def split: if_splits)
      note free = closed_stays_closed [OF ok Some f(1) [OF ok] g2 this]
      show ?thesis using insert_when_free [OF growsD(1) [OF g2], of ?d "dv_version e + 1" db'] free ins by simp
    qed
    have ip: "grows db (update_in_place doc (dv_version e) (f db))"
      by (rule grows_trans [OF f(1) [OF ok] in_place_grows [OF ok1] ok])
    show ?thesis
      using up Some * tr grows_trans [OF tr _ ok] ip f(1) [OF ok]
      unfolding upsert_attempt_def fg Let_def prod.case
      by (auto split: option.splits if_splits)
  qed
qed

lemma loop_grows:
  assumes "versions_ok (doc_versions db)" and "\<And>fg. fg \<in> set fgs \<Longrightarrow> harmless (d_customer doc) (d_id doc) fg"
    and "upsert_loop now force fgs doc db = Inr (db', doc', b)"
  shows "grows db db'"
  using assms
proof (induction fgs arbitrary: doc db)
  case (Cons fg fgs)
  from Cons.prems(3) obtain db1 doc1 b1 where at1: "upsert_attempt now force fg doc db = Inr (db1, doc1, b1)"
    by (auto split: sum.splits)
  have g: "grows db db1" by (rule attempt_grows [OF Cons.prems(1) _ at1]) (simp add: Cons.prems(2))
  show ?case
  proof (cases b1)
    case None
    have "grows db1 db'"
      using Cons.IH [of db1 doc1] Cons.prems(2,3) growsD(1) [OF g] attempt_identity [OF at1] by (simp add: at1 None)
    then show ?thesis by (rule grows_trans [OF g _ Cons.prems(1)])
  next
    case (Some b0)
    then show ?thesis using g Cons.prems(3) by (simp add: at1)
  qed
qed simp

lemma upsert_grows:
  assumes "versions_ok (doc_versions db)" and "\<And>n. harmless (d_customer doc) (d_id doc) (others n)"
    and "upsert_document now others doc db = Inr (db', doc', b)"
  shows "grows db db'"
  using loop_grows [OF assms(1) _ assms(3) [unfolded upsert_document_def]] assms(2) by force

lemma alone_harmless [simp]: "harmless c i (id, id)"
  by (simp add: harmless_def grows_refl)

text \<open>The interface: a transaction that writes versions. Runs of them in any order keep the tables well-formed.\<close>

locale version_writer =
  fixes w :: "doc_db \<Rightarrow> doc_db"
  assumes writes: "versions_ok (doc_versions db) \<Longrightarrow> grows db (w db)"
begin

lemma keeps: "versions_ok (doc_versions db) \<Longrightarrow> versions_ok (doc_versions (w db))"
  using growsD(1) [OF writes] by blast

lemma one_live: "versions_ok (doc_versions db) \<Longrightarrow> length (filter (live_row c i) (doc_versions (w db))) \<le> 1"
  by (rule one_live_row [OF keeps])

lemma before_read: "harmless c i (id, w)"
  by (simp add: harmless_def writes grows_refl)

end

lemma run_of_writers:
  assumes "\<And>w. w \<in> set ws \<Longrightarrow> version_writer w" and "versions_ok (doc_versions db)"
  shows "versions_ok (doc_versions (fold (\<lambda>w d. w d) ws db))"
  using assms by (induction ws arbitrary: db) (simp_all add: version_writer.keeps)

text \<open>A whole upsert by another worker, as one transaction: an exception rolls it back.\<close>

definition upsert_txn :: "time \<Rightarrow> document \<Rightarrow> doc_db \<Rightarrow> doc_db" where
  "upsert_txn now doc db = (case upsert_document now (\<lambda>_. (id, id)) doc db of Inl _ \<Rightarrow> db | Inr (db', _, _) \<Rightarrow> db')"

interpretation upsert_writer: version_writer "upsert_txn now doc" for now doc
proof
  fix db :: doc_db assume ok: "versions_ok (doc_versions db)"
  then show "grows db (upsert_txn now doc db)"
    using upsert_grows [OF ok, of doc "\<lambda>_. (id, id)" now] grows_refl [OF ok]
    by (auto simp: upsert_txn_def split: sum.splits)
qed

interpretation retire_writer: version_writer "retire_orphaned_children now c parents kept" for now c parents kept
  by unfold_locales (rule retire_children_grows)

subsection \<open>The loop ends\<close>

text \<open>A pass that nobody disturbs does not conflict.\<close>

lemma attempt_alone:
  assumes ok: "versions_ok (doc_versions db)" and up: "upsert_attempt now force (id, id) doc db = Inr (db', doc', b)"
  shows "b \<noteq> None"
proof (cases "live_version db (d_customer doc) (d_id doc)")
  case None
  have "\<not> has_version db (d_customer doc) (d_id doc) (max_version db (d_customer doc) (d_id doc) + 1)"
    using max_version_ge by fastforce
  then show ?thesis using up None by (auto simp: upsert_attempt_def insert_version_def Let_def split: if_splits)
next
  case (Some e)
  have "\<not> has_version (close_version now (d_customer doc) (d_id doc) (dv_version e) db) (d_customer doc) (d_id doc) (dv_version e + 1)"
  proof
    assume "has_version (close_version now (d_customer doc) (d_id doc) (dv_version e) db) (d_customer doc) (d_id doc) (dv_version e + 1)"
    then have "has_version db (d_customer doc) (d_id doc) (dv_version e + 1)"
      by (auto simp: has_version_def close_version_def elim!: sql_update_memE split: if_splits)
    then show False using max_version_ge live_is_max(1) [OF ok Some] by fastforce
  qed
  then show ?thesis using up Some by (auto simp: upsert_attempt_def insert_version_def Let_def split: if_splits)
qed

lemma attempt_error:
  "upsert_attempt now force fg doc db = Inl x \<Longrightarrow> x = OtherExc ''integer out of range''"
  by (cases fg) (auto simp: upsert_attempt_def Let_def split: option.splits if_splits)

lemma loop_error:
  assumes "versions_ok (doc_versions db)" and "\<And>fg. fg \<in> set fgs \<Longrightarrow> harmless (d_customer doc) (d_id doc) fg"
    and "upsert_loop now force fgs doc db = Inl x"
  shows "x = OtherExc ''integer out of range'' \<or> (id, id) \<notin> set fgs"
  using assms
proof (induction fgs arbitrary: doc db)
  case (Cons fg fgs)
  show ?case
  proof (cases "upsert_attempt now force fg doc db")
    case (Inl y)
    then show ?thesis using Cons.prems(3) attempt_error [OF Inl] by simp
  next
    case (Inr out)
    then obtain db1 doc1 b1 where at1: "upsert_attempt now force fg doc db = Inr (db1, doc1, b1)" by (cases out) auto
    have g: "grows db db1" by (rule attempt_grows [OF Cons.prems(1) _ at1]) (simp add: Cons.prems(2))
    have none: "b1 = None" using Cons.prems(3) by (cases b1) (simp_all add: at1)
    then have "fg \<noteq> (id, id)" using attempt_alone [OF Cons.prems(1)] at1 by blast
    moreover have "x = OtherExc ''integer out of range'' \<or> (id, id) \<notin> set fgs"
    proof (rule Cons.IH)
      show "versions_ok (doc_versions db1)" by (rule growsD(1) [OF g])
      show "harmless (d_customer doc1) (d_id doc1) fg'" if "fg' \<in> set fgs" for fg'
        using Cons.prems(2) [of fg'] that attempt_identity [OF at1] by simp
      show "upsert_loop now force fgs doc1 db1 = Inl x" using Cons.prems(3) by (simp add: at1 none)
    qed
    ultimately show ?thesis by (metis set_ConsD)
  qed
qed simp


text \<open>A document, and a second worker that writes another content of it while the first is between its read and its
  INSERT: the first pass conflicts, the second lands on top.\<close>

definition sample_facts :: doc_facts where
  "sample_facts = \<lparr>df_source = ''notion'', df_source_id = ''p1'', df_source_url = [], df_class = ''raw_source'',
     df_type = ''notion.page'', df_content_type = ''text/plain'', df_language = None, df_author = None, df_created = 0,
     df_acl = JNull\<rparr>"

definition sample_content :: "string \<Rightarrow> props \<Rightarrow> time \<Rightarrow> doc_content" where
  "sample_content h m at_time = \<lparr>dc_hash = h, dc_title = None, dc_preview = None, dc_size = 0, dc_tokens = 0,
     dc_updated = at_time, dc_valid_from = at_time, dc_metadata = m, dc_entities = JNull, dc_attachments = JNull,
     dc_references = JNull, dc_ingested = at_time, dc_visibility = ''approved''\<rparr>"

definition sample_doc :: "string \<Rightarrow> props \<Rightarrow> time \<Rightarrow> document" where
  "sample_doc h m at_time = \<lparr>d_id = ''page'', d_customer = ''acme'', d_version = 1, d_facts = sample_facts,
     d_content = sample_content h m at_time, d_valid_to = None, d_deleted = None, d_parent = None, d_supersedes = None,
     d_body = None, d_coalesce = False\<rparr>"

definition empty_graph :: graph_db where
  "empty_graph = \<lparr>nodes = [], node_seq = 0, edges = [], edge_seq = 0, provenance = [], post_write = [], parked = [],
     parked_seq = 0, entity_aliases = []\<rparr>"

definition empty_docs :: doc_db where
  "empty_docs = \<lparr>doc_versions = [], doc_chunks = [], doc_failed = [], doc_bindings = [], doc_acl = [], doc_repo = [],
     doc_anchors = [], doc_graph = empty_graph\<rparr>"

definition one_version :: doc_db where
  "one_version = empty_docs\<lparr>doc_versions := [version_of (sample_doc ''a'' [] 1) 1]\<rparr>"

lemma empty_versions_ok [simp]: "versions_ok (doc_versions empty_docs)"
  by (simp add: versions_ok_def empty_docs_def)

lemma one_version_ok: "versions_ok (doc_versions one_version)"
  by (auto simp: versions_ok_def one_version_def version_of_def sample_doc_def ver_key_def LIVE_CHUNK_LAST_SEEN_def)


subsection \<open>An upsert by itself\<close>

lemma upsert_alone:
  assumes ok: "versions_ok (doc_versions db)"
  shows "upsert_document now (\<lambda>_. (id, id)) doc db =
    (case upsert_attempt now (truthy (meta_get (dc_metadata (d_content doc)) GITHUB_FORCE_VERSION_KEY (JBool False))) (id, id)
            (pop_meta GITHUB_FORCE_VERSION_KEY doc) db of
       Inl x \<Rightarrow> Inl x | Inr (db', doc', b) \<Rightarrow> Inr (db', doc', b = Some True))"
proof -
  have "map (\<lambda>_. (id, id)) [0 ..< UPSERT_DOC_MAX_RETRIES] = (id, id) # replicate 4 (id :: doc_db \<Rightarrow> doc_db, id :: doc_db \<Rightarrow> doc_db)"
    by (simp add: UPSERT_DOC_MAX_RETRIES_def upt_rec numeral_eq_Suc)
  then show ?thesis
    unfolding upsert_document_def by (auto dest: attempt_alone [OF ok] split: sum.splits option.splits)
qed

text \<open>The three ways an undisturbed upsert returns.\<close>

lemma upsert_cases:
  assumes ok: "versions_ok (doc_versions db)" and up: "upsert_document now (\<lambda>_. (id, id)) doc db = Inr (db', doc', b)"
    and open_doc: "d_valid_to doc = None"
  obtains (noop) e where "live_version db (d_customer doc) (d_id doc) = Some e" "dc_hash (dv_content e) = dc_hash (d_content doc)"
      "d_deleted doc = None" "db' = db" "doc' = (pop_meta GITHUB_FORCE_VERSION_KEY doc)\<lparr>d_version := dv_version e\<rparr>" "\<not> b"
    | (place) e where "live_version db (d_customer doc) (d_id doc) = Some e" "d_coalesce doc"
      "db' = update_in_place (pop_meta GITHUB_FORCE_VERSION_KEY doc) (dv_version e) db"
      "doc' = (pop_meta GITHUB_FORCE_VERSION_KEY doc)\<lparr>d_version := dv_version e\<rparr>" b
    | (added) dd v db0 where "doc' = dd\<lparr>d_version := v\<rparr>" "d_customer dd = d_customer doc" "d_id dd = d_id doc" "d_valid_to dd = None"
      "d_content dd = d_content (pop_meta GITHUB_FORCE_VERSION_KEY doc)" "d_deleted dd = d_deleted doc" b
      "db' = db0\<lparr>doc_versions := doc_versions db0 @ [version_of dd v]\<rparr>" "\<exists>vs. db0 = db\<lparr>doc_versions := vs\<rparr>"
      "v = max_version db (d_customer doc) (d_id doc) + 1"
      "db0 = db \<or> (\<exists>w. db0 = close_version now (d_customer doc) (d_id doc) w db)"
proof -
  let ?doc = "pop_meta GITHUB_FORCE_VERSION_KEY doc" and ?c = "d_customer doc" and ?i = "d_id doc"
  let ?F = "truthy (meta_get (dc_metadata (d_content doc)) GITHUB_FORCE_VERSION_KEY (JBool False))"
  have d: "d_customer ?doc = ?c" "d_id ?doc = ?i" "d_valid_to ?doc = None" "d_deleted ?doc = d_deleted doc"
    "d_coalesce ?doc = d_coalesce doc" "dc_hash (d_content ?doc) = dc_hash (d_content doc)" by (simp_all add: open_doc)
  obtain o1 where at1: "upsert_attempt now ?F (id, id) ?doc db = Inr (db', doc', o1)" "b \<longleftrightarrow> o1 = Some True"
    using up upsert_alone [OF ok, of now doc] by (auto split: sum.splits)
  have o1: "o1 \<noteq> None" by (rule attempt_alone [OF ok at1(1)])
  show thesis
  proof (cases "live_version db ?c ?i")
    case None
    have "\<exists>vs. db = db\<lparr>doc_versions := vs\<rparr>" by (rule exI [of _ "doc_versions db"]) simp
    then show ?thesis
      using at1 o1 None d added [of "max_version db ?c ?i + 1" ?doc db]
      by (auto simp: upsert_attempt_def insert_version_def Let_def split: if_splits)
  next
    case (Some e)
    have cl: "\<exists>vs. close_version now ?c ?i (dv_version e) db = db\<lparr>doc_versions := vs\<rparr>" by (auto simp: close_version_def)
    have mx: "dv_version e + 1 = max_version db ?c ?i + 1" using live_is_max(1) [OF ok Some] by simp
    have cl': "\<exists>w. close_version now ?c ?i (dv_version e) db = close_version now ?c ?i w db" by blast
    let ?dd = "if d_supersedes ?doc = None then ?doc\<lparr>d_supersedes := Some ?i\<rparr> else ?doc"
    have dd: "d_customer ?dd = ?c" "d_id ?dd = ?i" "d_valid_to ?dd = None" "d_content ?dd = d_content ?doc" "d_deleted ?dd = d_deleted doc"
      by (simp_all add: open_doc)
    consider (1) "dc_hash (dv_content e) = dc_hash (d_content doc)" "d_deleted doc = None" "db' = db"
        "doc' = ?doc\<lparr>d_version := dv_version e\<rparr>" "\<not> b"
      | (2) "d_coalesce doc" "db' = update_in_place ?doc (dv_version e) db" "doc' = ?doc\<lparr>d_version := dv_version e\<rparr>" b
      | (3) "doc' = ?dd\<lparr>d_version := dv_version e + 1\<rparr>" b
        "insert_version ?dd (dv_version e + 1) (close_version now ?c ?i (dv_version e) db) = Some db'"
      using at1 o1 Some d by (auto simp: upsert_attempt_def Let_def split: if_splits option.splits)
    then show ?thesis
    proof cases
      case 1
      then show ?thesis using noop [OF Some] by simp
    next
      case 2
      then show ?thesis using place [OF Some] by simp
    next
      case 3
      then have "db' = (close_version now ?c ?i (dv_version e) db)\<lparr>doc_versions := doc_versions (close_version now ?c ?i (dv_version e) db)
          @ [version_of ?dd (dv_version e + 1)]\<rparr>" by (auto simp: insert_version_def split: if_splits)
      then show ?thesis by (rule added [OF 3(1) dd 3(2) _ cl mx disjI2 [OF cl']])
    qed
  qed
qed

text \<open>What a returned upsert left: nothing when the content was already live; else a live version with the content.\<close>

lemma upsert_result:
  assumes ok: "versions_ok (doc_versions db)" and up: "upsert_document now (\<lambda>_. (id, id)) doc db = Inr (db', doc', b)"
    and open_doc: "d_valid_to doc = None"
  shows "d_customer doc' = d_customer doc" and "d_id doc' = d_id doc"
    and "d_content doc' = d_content (pop_meta GITHUB_FORCE_VERSION_KEY doc)" and "d_deleted doc' = d_deleted doc"
    and "\<not> b \<Longrightarrow> db' = db \<and> d_deleted doc = None
           \<and> (\<exists>e. live_version db (d_customer doc) (d_id doc) = Some e \<and> dc_hash (dv_content e) = dc_hash (d_content doc))"
    and "b \<Longrightarrow> \<exists>e. live_version db' (d_customer doc) (d_id doc) = Some e \<and> dv_version e = d_version doc'
           \<and> dv_content e = d_content doc' \<and> (d_coalesce doc \<or> dv_deleted e = d_deleted doc)"
    and "\<exists>vs. db' = db\<lparr>doc_versions := vs\<rparr>"
proof -
  let ?doc = "pop_meta GITHUB_FORCE_VERSION_KEY doc" and ?c = "d_customer doc" and ?i = "d_id doc"
  have d: "d_customer ?doc = ?c" "d_id ?doc = ?i" "d_valid_to ?doc = None" "d_deleted ?doc = d_deleted doc"
    "d_coalesce ?doc = d_coalesce doc" "dc_hash (d_content ?doc) = dc_hash (d_content doc)" by (simp_all add: open_doc)
  have "grows db db'" using upsert_grows [OF ok _ up] by simp
  note ok' = growsD(1) [OF this]
  have new: "\<exists>e. live_version db' ?c ?i = Some e \<and> dv_version e = v \<and> dv_content e = d_content ?doc
               \<and> dv_deleted e = d_deleted doc"
    if "version_of dd v \<in> set (doc_versions db')" "d_customer dd = ?c" "d_id dd = ?i" "d_valid_to dd = None"
      "d_content dd = d_content ?doc" "d_deleted dd = d_deleted doc" for dd v
    using live_version_unique [OF ok' that(1), of ?c ?i] that(2-) by (auto simp: version_of_def live_row_def)
  from ok up open_doc have all: "d_customer doc' = ?c \<and> d_id doc' = ?i \<and> d_content doc' = d_content ?doc \<and> d_deleted doc' = d_deleted doc
    \<and> (\<not> b \<longrightarrow> db' = db \<and> d_deleted doc = None
           \<and> (\<exists>e. live_version db ?c ?i = Some e \<and> dc_hash (dv_content e) = dc_hash (d_content doc)))
    \<and> (b \<longrightarrow> (\<exists>e. live_version db' ?c ?i = Some e \<and> dv_version e = d_version doc'
           \<and> dv_content e = d_content doc' \<and> (d_coalesce doc \<or> dv_deleted e = d_deleted doc)))
    \<and> (\<exists>vs. db' = db\<lparr>doc_versions := vs\<rparr>)"
  proof (cases rule: upsert_cases)
    case (noop e)
    have "\<exists>vs. db = db\<lparr>doc_versions := vs\<rparr>" by (rule exI [of _ "doc_versions db"]) simp
    then show ?thesis using noop d by auto
  next
    case (place e)
    let ?e = "e\<lparr>dv_content := d_content ?doc\<rparr>"
    have "?e \<in> set (doc_versions db')"
      using live_version_Some [OF place(1)] d by (auto simp: place(3) update_in_place_def set_sql_update intro: rev_image_eqI)
    moreover have "live_row ?c ?i ?e" using live_version_Some [OF place(1)] by (simp add: live_row_def)
    ultimately have "live_version db' ?c ?i = Some ?e" by (rule live_version_unique [OF ok'])
    then show ?thesis using place d by (auto simp: update_in_place_def)
  next
    case (added dd v db0)
    have "version_of dd v \<in> set (doc_versions db')" by (simp add: added(8))
    then have e: "\<exists>e. live_version db' ?c ?i = Some e \<and> dv_version e = v \<and> dv_content e = d_content ?doc \<and> dv_deleted e = d_deleted doc"
      using new added(2-6) by blast
    obtain vs where "db0 = db\<lparr>doc_versions := vs\<rparr>" using added(9) by blast
    then have "db' = db\<lparr>doc_versions := vs @ [version_of dd v]\<rparr>" by (simp add: added(8))
    then have "\<exists>vs. db' = db\<lparr>doc_versions := vs\<rparr>" by blast
    then show ?thesis using e added(1-7) by auto
  qed
  then show "d_customer doc' = d_customer doc" and "d_id doc' = d_id doc"
    and "d_content doc' = d_content (pop_meta GITHUB_FORCE_VERSION_KEY doc)" and "d_deleted doc' = d_deleted doc"
    and "\<not> b \<Longrightarrow> db' = db \<and> d_deleted doc = None
           \<and> (\<exists>e. live_version db (d_customer doc) (d_id doc) = Some e \<and> dc_hash (dv_content e) = dc_hash (d_content doc))"
    and "b \<Longrightarrow> \<exists>e. live_version db' (d_customer doc) (d_id doc) = Some e \<and> dv_version e = d_version doc'
           \<and> dv_content e = d_content doc' \<and> (d_coalesce doc \<or> dv_deleted e = d_deleted doc)"
    and "\<exists>vs. db' = db\<lparr>doc_versions := vs\<rparr>"
    by blast+
qed

text \<open>The numbers an upsert adds, and when it returns.\<close>

lemma upsert_numbers:
  assumes ok: "versions_ok (doc_versions db)" and up: "upsert_document now (\<lambda>_. (id, id)) doc db = Inr (db', doc', b)"
    and "d_valid_to doc = None"
  shows "max_version db' c i \<le> max_version db c i + 1"
proof -
  have keep: "has_version (close_version now c' i' w' d) c i w \<Longrightarrow> has_version d c i w"
    "has_version (update_in_place q w' d) c i w \<Longrightarrow> has_version d c i w" for c' i' w' w q d
    by (auto simp: has_version_def close_version_def update_in_place_def elim!: sql_update_memE split: if_splits)
  have "has_version db c i w \<or> w \<le> max_version db c i + 1" if w: "has_version db' c i w" for w
    using ok up assms(3)
  proof (cases rule: upsert_cases)
    case (added dd v db0)
    have "has_version db0 c i w \<or> (c, i, w) = ver_key (version_of dd v)"
      using w by (auto simp: has_version_def added(8) ver_key_def)
    then show ?thesis
    proof
      assume "has_version db0 c i w"
      then show ?thesis using added(11) keep(1) by blast
    qed (use added(2,3,10) in \<open>simp add: version_of_def ver_key_def\<close>)
  next
    case (noop e)
    then show ?thesis using w by simp
  next
    case (place e)
    then show ?thesis using w keep(2) by blast
  qed
  then have "w \<le> max_version db c i + 1" if "has_version db' c i w" for w using that max_version_ge [of db c i w] by fastforce
  then show ?thesis
    using max_version_bounds(1) [OF ok, of c i] max_version_has [of db' c i] max_version_none [of db' c i] by fastforce
qed

lemma upsert_returns:
  assumes ok: "versions_ok (doc_versions db)" and "max_version db (d_customer doc) (d_id doc) < LIVE_CHUNK_LAST_SEEN"
  shows "\<exists>db' doc' b. upsert_document now (\<lambda>_. (id, id)) doc db = Inr (db', doc', b)"
proof -
  let ?doc = "pop_meta GITHUB_FORCE_VERSION_KEY doc"
  have "upsert_attempt now force (id, id) ?doc db \<noteq> Inl x" for force x
    using assms(2) live_is_max(1) [OF ok, of "d_customer doc" "d_id doc"]
    by (auto simp: upsert_attempt_def Let_def split: option.splits if_splits)
  then show ?thesis unfolding upsert_alone [OF ok] by (auto split: sum.splits)
qed

text \<open>The race the claim leaves out: a document that has no live version is re-created by another worker between the
  two reads of a pass. The MAX counts the other's version, and both stay live.\<close>

lemma recreated_between_the_reads:
  "let db = empty_docs\<lparr>doc_versions := [(version_of (sample_doc ''a'' [] 1) 1)\<lparr>dv_valid_to := Some 3\<rparr>]\<rparr>;
       others = (\<lambda>n :: nat. if n = 0 then (upsert_txn 5 (sample_doc ''b'' [] 5), id) else (id, id))
   in case upsert_document 6 others (sample_doc ''c'' [] 6) db of
        Inr (db', _, _) \<Rightarrow> length (filter (live_row ''acme'' ''page'') (doc_versions db')) = 2
      | Inl _ \<Rightarrow> False"
  by (simp add: upsert_document_def upsert_attempt_def upsert_txn_def UPSERT_DOC_MAX_RETRIES_def upt_rec sample_doc_def
        sample_content_def empty_docs_def version_of_def live_version_def live_row_def meta_get_def
        pop_meta_def close_version_def insert_version_def has_version_def max_version_def LIVE_CHUNK_LAST_SEEN_def Let_def)

end
