(* ===== verification/ChunkVersions.thy ===== *)
theory ChunkVersions
  imports DocumentProperties
begin

section \<open>The chunks of a document version\<close>

text \<open>
  What \<open>apply_chunk_plan\<close> makes of the chunk table: the CHECK of the schema (a row is live exactly when its range is
  open-ended) holds after every write, a written version serves exactly the pieces it was cut into, earlier versions
  keep theirs, and content that did not change is not embedded again.
\<close>

subsection \<open>The invariant of the rows\<close>

definition ck_key :: "chunk_row \<Rightarrow> string \<times> string \<times> string" where
  "ck_key k = (ck_customer k, ck_doc k, ck_hash k)"

text \<open>One row per hash of a document; live rows are the open-ended ones; a range starts at an existing version, and a
  closed range ends below the highest one.\<close>

definition chunks_ok :: "doc_db \<Rightarrow> bool" where
  "chunks_ok db \<longleftrightarrow>
     distinct (map ck_key (doc_chunks db))
     \<and> (\<forall>k \<in> set (doc_chunks db).
          (ck_valid_to k = None \<longleftrightarrow> ck_last k = LIVE_CHUNK_LAST_SEEN)
          \<and> ck_first k \<le> max_version db (ck_customer k) (ck_doc k)
          \<and> (ck_valid_to k \<noteq> None \<longrightarrow> ck_last k < max_version db (ck_customer k) (ck_doc k)))"

definition live_hashes :: "doc_db \<Rightarrow> string \<Rightarrow> string \<Rightarrow> string set" where
  "live_hashes db c i = ck_hash ` {k \<in> set (doc_chunks db). live_chunk c i k}"

lemma same_chunk_key: "same_chunk k k' \<longleftrightarrow> ck_key k' = ck_key k"
  by (auto simp: same_chunk_def ck_key_def)

lemma revive_simps [simp]:
  "ck_key (revive n k) = ck_key k" "ck_hash (revive n k) = ck_hash k" "ck_customer (revive n k) = ck_customer k"
  "ck_doc (revive n k) = ck_doc k" "ck_first (revive n k) = ck_first k" "ck_last (revive n k) = ck_last n"
  "ck_valid_to (revive n k) = None" "ck_index (revive n k) = ck_index k" "ck_kind (revive n k) = ck_kind k"
  "ck_content (revive n k) = ck_content k" "ck_chunker (revive n k) = ck_chunker n"
  by (simp_all add: revive_def ck_key_def)

lemma chunk_of_simps [simp]:
  "ck_hash (chunk_of sha doc a) = sha (pc_content (fst a))" "ck_customer (chunk_of sha doc a) = d_customer doc"
  "ck_doc (chunk_of sha doc a) = d_id doc" "ck_first (chunk_of sha doc a) = d_version doc"
  "ck_last (chunk_of sha doc a) = LIVE_CHUNK_LAST_SEEN" "ck_valid_to (chunk_of sha doc a) = None"
  "ck_kind (chunk_of sha doc a) = snd (snd a)" "ck_index (chunk_of sha doc a) = pc_index (fst a)"
  "ck_content (chunk_of sha doc a) = pc_content (fst a)" "ck_chunker (chunk_of sha doc a) = CHUNKER_VERSION"
  "ck_key (chunk_of sha doc a) = (d_customer doc, d_id doc, sha (pc_content (fst a)))"
  by (simp_all add: chunk_of_def ck_key_def split: prod.splits)

text \<open>A row after a batch: an old row, revived when its key was in the batch, or a new one.\<close>

lemma upsert_chunk_mem:
  assumes "k' \<in> set (upsert_chunk n t)"
  obtains (old) k where "k \<in> set t" "k' = (if ck_key k = ck_key n then revive n k else k)"
    | (new) "k' = n" "ck_key n \<notin> ck_key ` set t"
proof (cases "\<exists>k \<in> set t. same_chunk n k")
  case True
  then obtain k where "k \<in> set t" "k' = (if same_chunk n k then revive n k else k)"
    using assms by (auto simp: upsert_chunk_def elim: sql_update_memE)
  then show thesis by (intro old) (simp_all add: same_chunk_key)
next
  case False
  then have "k' \<in> set t \<or> k' = n" "ck_key n \<notin> ck_key ` set t"
    using assms by (auto simp: upsert_chunk_def same_chunk_key image_iff)
  moreover have "k' \<in> set t \<Longrightarrow> ck_key k' \<noteq> ck_key n" using calculation(2) by (metis image_eqI)
  ultimately show thesis using old [of k'] new by auto
qed

lemma upsert_chunk_keys:
  "distinct (map ck_key t) \<Longrightarrow> distinct (map ck_key (upsert_chunk n t))"
  "ck_key ` set (upsert_chunk n t) = insert (ck_key n) (ck_key ` set t)"
proof -
  have m: "map ck_key (sql_update (same_chunk n) (revive n) t) = map ck_key t" by (rule map_sql_update) simp
  then have i: "ck_key ` set (sql_update (same_chunk n) (revive n) t) = ck_key ` set t" by (metis set_map)
  show "distinct (map ck_key t) \<Longrightarrow> distinct (map ck_key (upsert_chunk n t))"
    using m by (auto simp: upsert_chunk_def same_chunk_key image_iff)
  show "ck_key ` set (upsert_chunk n t) = insert (ck_key n) (ck_key ` set t)"
  proof (cases "\<exists>k \<in> set t. same_chunk n k")
    case True
    then have "ck_key n \<in> ck_key ` set t" by (metis image_eqI same_chunk_key)
    then show ?thesis using True i by (simp add: upsert_chunk_def insert_absorb)
  qed (simp add: upsert_chunk_def)
qed

lemma upsert_chunks_keys:
  "distinct (map ck_key t) \<Longrightarrow> distinct (map ck_key (fold upsert_chunk ns t))"
  by (induction ns arbitrary: t) (simp_all add: upsert_chunk_keys(1))

text \<open>Which rows a batch makes live: those that were, and those of its hashes.\<close>

lemma upsert_chunk_live:
  assumes "ck_customer n = c" "ck_doc n = i" "ck_valid_to n = None"
  shows "ck_hash ` {k \<in> set (upsert_chunk n t). live_chunk c i k} = insert (ck_hash n) (ck_hash ` {k \<in> set t. live_chunk c i k})"
proof (rule set_eqI, rule iffI)
  fix h assume "h \<in> ck_hash ` {k \<in> set (upsert_chunk n t). live_chunk c i k}"
  then obtain k' where k': "k' \<in> set (upsert_chunk n t)" "live_chunk c i k'" "h = ck_hash k'" by auto
  from k'(1) show "h \<in> insert (ck_hash n) (ck_hash ` {k \<in> set t. live_chunk c i k})"
  proof (cases rule: upsert_chunk_mem)
    case (old k)
    then show ?thesis using k' by (cases "ck_key k = ck_key n") (auto simp: ck_key_def)
  qed (simp add: k')
next
  fix h assume h: "h \<in> insert (ck_hash n) (ck_hash ` {k \<in> set t. live_chunk c i k})"
  show "h \<in> ck_hash ` {k \<in> set (upsert_chunk n t). live_chunk c i k}"
  proof (cases "\<exists>k \<in> set t. same_chunk n k")
    case False
    then show ?thesis using h assms by (auto simp: upsert_chunk_def live_chunk_def)
  next
    case True
    have up: "(if same_chunk n k then revive n k else k) \<in> set (upsert_chunk n t)" if "k \<in> set t" for k
      using that True by (auto simp: upsert_chunk_def sql_update_def)
    show ?thesis
    proof (cases "h = ck_hash n")
      case eq: True
      from True obtain k where k: "k \<in> set t" "same_chunk n k" by blast
      have "revive n k \<in> set (upsert_chunk n t)" using up [OF k(1)] k(2) by simp
      moreover have "live_chunk c i (revive n k)" using k(2) assms by (simp add: live_chunk_def same_chunk_def)
      moreover have "ck_hash (revive n k) = h" using k(2) eq by (simp add: same_chunk_def)
      ultimately show ?thesis by (intro rev_image_eqI [of "revive n k"]) simp_all
    next
      case False
      then obtain k where k: "k \<in> set t" "live_chunk c i k" "h = ck_hash k" using h by auto
      then have "\<not> same_chunk n k" using False by (simp add: same_chunk_def)
      then show ?thesis using up [OF k(1)] k by (intro rev_image_eqI [of k]) simp_all
    qed
  qed
qed

lemma upsert_chunks_live:
  assumes "\<And>n. n \<in> set ns \<Longrightarrow> ck_customer n = c \<and> ck_doc n = i \<and> ck_valid_to n = None"
  shows "ck_hash ` {k \<in> set (fold upsert_chunk ns t). live_chunk c i k} = set (map ck_hash ns) \<union> ck_hash ` {k \<in> set t. live_chunk c i k}"
  using assms
proof (induction ns arbitrary: t)
  case (Cons n ns)
  then show ?case using upsert_chunk_live [of n c i t] by (simp add: insert_commute)
qed simp

lemma first_of_hash_hashes:
  "(\<lambda>a. sha (pc_content (fst a))) ` set (first_of_hash sha seen as) = (\<lambda>a. sha (pc_content (fst a))) ` set as - set seen"
  by (induction as arbitrary: seen) (auto simp: Let_def)

lemma set_first_of_hash: "set (first_of_hash sha seen as) \<subseteq> set as"
  by (induction as arbitrary: seen) (auto simp: Let_def)

subsection \<open>The three steps of a plan\<close>

lemma apply_frame:
  "doc_versions (apply_chunk_plan sha now doc pl db) = doc_versions db"
  "doc_graph (apply_chunk_plan sha now doc pl db) = doc_graph db"
  "doc_bindings (apply_chunk_plan sha now doc pl db) = doc_bindings db"
proof -
  have "doc_versions (fold (insert_failed_chunk doc) fs d) = doc_versions d \<and> doc_graph (fold (insert_failed_chunk doc) fs d) = doc_graph d
      \<and> doc_bindings (fold (insert_failed_chunk doc) fs d) = doc_bindings d" for fs d
    by (induction fs arbitrary: d) (auto simp: insert_failed_chunk_def split: prod.splits)
  then show "doc_versions (apply_chunk_plan sha now doc pl db) = doc_versions db"
    "doc_graph (apply_chunk_plan sha now doc pl db) = doc_graph db"
    "doc_bindings (apply_chunk_plan sha now doc pl db) = doc_bindings db"
    by (simp_all add: apply_chunk_plan_def insert_chunks_batch_def reopen_reused_def retire_others_def Let_def)
qed

lemma failed_chunks_frame: "doc_chunks (fold (insert_failed_chunk doc) fs db) = doc_chunks db"
  by (induction fs arbitrary: db) (auto simp: insert_failed_chunk_def split: prod.splits)

definition batch_of :: "(codepoints \<Rightarrow> string) \<Rightarrow> document \<Rightarrow> chunk_plan \<Rightarrow> chunk_row list" where
  "batch_of sha doc pl = map (chunk_of sha doc) (first_of_hash sha [] (pl_added pl))"

definition written_hashes :: "(codepoints \<Rightarrow> string) \<Rightarrow> chunk_plan \<Rightarrow> string set" where
  "written_hashes sha pl = (\<lambda>a. sha (pc_content (fst a))) ` set (pl_added pl)"

definition kept_hashes :: "(codepoints \<Rightarrow> string) \<Rightarrow> chunk_plan \<Rightarrow> string set" where
  "kept_hashes sha pl = planned_reuse pl \<union> written_hashes sha pl \<union> failed_hashes sha pl"

lemma batch_hashes: "set (map ck_hash (batch_of sha doc pl)) = written_hashes sha pl"
  using first_of_hash_hashes [of sha "[]" "pl_added pl"] by (simp add: batch_of_def written_hashes_def image_image)

lemma batch_rows:
  "n \<in> set (batch_of sha doc pl) \<Longrightarrow> ck_customer n = d_customer doc \<and> ck_doc n = d_id doc \<and> ck_valid_to n = None
     \<and> ck_last n = LIVE_CHUNK_LAST_SEEN \<and> ck_first n = d_version doc \<and> ck_chunker n = CHUNKER_VERSION"
  by (auto simp: batch_of_def)

lemma doc_chunks_apply:
  "doc_chunks (apply_chunk_plan sha now doc pl db) =
     doc_chunks (retire_others now doc (kept_hashes sha pl)
       (db\<lparr>doc_chunks := fold upsert_chunk (batch_of sha doc pl) (doc_chunks (reopen_reused doc pl db))\<rparr>))"
  using batch_hashes [of sha doc pl]
  by (simp add: apply_chunk_plan_def insert_chunks_batch_def retire_others_def failed_chunks_frame batch_of_def kept_hashes_def
      image_image Let_def)

lemma image_filter_map:
  assumes "\<And>k. k \<in> set t \<Longrightarrow> P (h k) = P k \<and> g (h k) = g k"
  shows "g ` {k \<in> h ` set t. P k} = g ` {k \<in> set t. P k}"
proof -
  have "{k \<in> h ` set t. P k} = h ` {k \<in> set t. P k}" using assms by auto
  then show ?thesis using assms by (simp add: image_image)
qed

lemma reopen_live: "live_hashes (reopen_reused doc pl db) c i = live_hashes db c i"
proof -
  let ?h = "\<lambda>k. if live_chunk (d_customer doc) (d_id doc) k \<and> ck_hash k \<in> planned_reuse pl \<and> ck_last k \<noteq> LIVE_CHUNK_LAST_SEEN
    then k\<lparr>ck_last := LIVE_CHUNK_LAST_SEEN\<rparr> else k"
  have e: "doc_chunks (reopen_reused doc pl db) = map ?h (doc_chunks db)" by (simp add: reopen_reused_def sql_update_def)
  show ?thesis unfolding live_hashes_def e set_map by (rule image_filter_map) (simp add: live_chunk_def)
qed

lemma retire_live:
  "live_hashes (retire_others now doc kept db) (d_customer doc) (d_id doc) = live_hashes db (d_customer doc) (d_id doc) \<inter> kept"
proof (rule set_eqI, rule iffI)
  fix h assume "h \<in> live_hashes (retire_others now doc kept db) (d_customer doc) (d_id doc)"
  then obtain k' where k': "k' \<in> set (doc_chunks (retire_others now doc kept db))" "live_chunk (d_customer doc) (d_id doc) k'" "h = ck_hash k'"
    by (auto simp: live_hashes_def)
  from k'(1) obtain k where "k \<in> set (doc_chunks db)"
    "k' = (if live_chunk (d_customer doc) (d_id doc) k \<and> ck_hash k \<notin> kept
           then k\<lparr>ck_valid_to := Some now, ck_last := min (ck_last k) (d_version doc - 1)\<rparr> else k)"
    by (auto simp: retire_others_def elim: sql_update_memE)
  then show "h \<in> live_hashes db (d_customer doc) (d_id doc) \<inter> kept"
    using k' by (auto simp: live_hashes_def live_chunk_def split: if_splits)
next
  fix h assume "h \<in> live_hashes db (d_customer doc) (d_id doc) \<inter> kept"
  then obtain k where k: "k \<in> set (doc_chunks db)" "live_chunk (d_customer doc) (d_id doc) k" "h = ck_hash k" "ck_hash k \<in> kept"
    by (auto simp: live_hashes_def)
  then have "k \<in> set (doc_chunks (retire_others now doc kept db))" by (auto simp: retire_others_def set_sql_update)
  then show "h \<in> live_hashes (retire_others now doc kept db) (d_customer doc) (d_id doc)" using k by (auto simp: live_hashes_def)
qed

text \<open>The live hashes after a plan: what was written, and what was kept and still live.\<close>

lemma apply_live:
  "live_hashes (apply_chunk_plan sha now doc pl db) (d_customer doc) (d_id doc) =
     written_hashes sha pl \<union> (live_hashes db (d_customer doc) (d_id doc) \<inter> kept_hashes sha pl)"
proof -
  let ?mid = "db\<lparr>doc_chunks := fold upsert_chunk (batch_of sha doc pl) (doc_chunks (reopen_reused doc pl db))\<rparr>"
  have "live_hashes ?mid (d_customer doc) (d_id doc)
      = written_hashes sha pl \<union> live_hashes (reopen_reused doc pl db) (d_customer doc) (d_id doc)"
    using upsert_chunks_live [of "batch_of sha doc pl" "d_customer doc" "d_id doc"] batch_rows batch_hashes [of sha doc pl]
    by (simp add: live_hashes_def)
  moreover have "live_hashes (apply_chunk_plan sha now doc pl db) (d_customer doc) (d_id doc)
      = live_hashes (retire_others now doc (kept_hashes sha pl) ?mid) (d_customer doc) (d_id doc)"
    by (simp add: live_hashes_def doc_chunks_apply)
  ultimately show ?thesis
    by (auto simp: retire_live reopen_live kept_hashes_def)
qed

subsection \<open>Where a row comes from\<close>

text \<open>The columns no write changes.\<close>

definition stems :: "chunk_row \<Rightarrow> chunk_row \<Rightarrow> bool" where
  "stems k k' \<longleftrightarrow> ck_key k' = ck_key k \<and> ck_first k' = ck_first k \<and> ck_index k' = ck_index k \<and> ck_kind k' = ck_kind k
     \<and> ck_content k' = ck_content k"

lemma stems_refl [simp]: "stems k k" and stems_trans: "stems a b \<Longrightarrow> stems b c \<Longrightarrow> stems a c"
  and stems_revive [simp]: "stems k (revive n k)"
  by (simp_all add: stems_def)

lemma fold_upsert_keys: "ck_key ` set (fold upsert_chunk ns t) = ck_key ` set ns \<union> ck_key ` set t"
  by (induction ns arbitrary: t) (auto simp: upsert_chunk_keys(2))

lemma fold_upsert_mem:
  assumes "\<And>n. n \<in> set ns \<Longrightarrow> ck_valid_to n = None \<and> ck_last n = L" and "k' \<in> set (fold upsert_chunk ns t)"
  shows "(\<exists>k \<in> set t. stems k k' \<and> (if ck_key k \<in> ck_key ` set ns then ck_valid_to k' = None \<and> ck_last k' = L else k' = k))
       \<or> (\<exists>n \<in> set ns. stems n k' \<and> ck_valid_to k' = None \<and> ck_last k' = L \<and> ck_key n \<notin> ck_key ` set t)"
  using assms
proof (induction ns arbitrary: k' rule: rev_induct)
  case (snoc n ns)
  have L: "ck_valid_to n = None" "ck_last n = L" using snoc.prems(1) [of n] by auto
  have "k' \<in> set (upsert_chunk n (fold upsert_chunk ns t))" using snoc.prems(2) by simp
  then show ?case
  proof (cases rule: upsert_chunk_mem)
    case (old k0)
    have IH: "(\<exists>k \<in> set t. stems k k0 \<and> (if ck_key k \<in> ck_key ` set ns then ck_valid_to k0 = None \<and> ck_last k0 = L else k0 = k))
       \<or> (\<exists>n \<in> set ns. stems n k0 \<and> ck_valid_to k0 = None \<and> ck_last k0 = L \<and> ck_key n \<notin> ck_key ` set t)"
      using snoc.prems(1) by (intro snoc.IH [OF _ old(1)]) simp
    have s: "stems k0 k'" using old(2) by auto
    have hit: "ck_key k0 = ck_key n \<Longrightarrow> ck_valid_to k' = None \<and> ck_last k' = L" using old(2) L by simp
    have miss: "ck_key k0 \<noteq> ck_key n \<Longrightarrow> k' = k0" using old(2) by simp
    from IH show ?thesis
    proof
      assume "\<exists>k \<in> set t. stems k k0 \<and> (if ck_key k \<in> ck_key ` set ns then ck_valid_to k0 = None \<and> ck_last k0 = L else k0 = k)"
      then obtain k where k: "k \<in> set t" "stems k k0"
        "if ck_key k \<in> ck_key ` set ns then ck_valid_to k0 = None \<and> ck_last k0 = L else k0 = k" by blast
      have key: "ck_key k = ck_key k0" using k(2) by (simp add: stems_def)
      have "if ck_key k \<in> ck_key ` set (ns @ [n]) then ck_valid_to k' = None \<and> ck_last k' = L else k' = k"
        using k(3) hit miss key by (cases "ck_key k0 = ck_key n") auto
      then show ?thesis using k(1) stems_trans [OF k(2) s] by blast
    next
      assume "\<exists>n \<in> set ns. stems n k0 \<and> ck_valid_to k0 = None \<and> ck_last k0 = L \<and> ck_key n \<notin> ck_key ` set t"
      then obtain m where m: "m \<in> set ns" "stems m k0" "ck_valid_to k0 = None" "ck_last k0 = L" "ck_key m \<notin> ck_key ` set t" by blast
      have "ck_valid_to k' = None \<and> ck_last k' = L" using hit miss m(3,4) by (cases "ck_key k0 = ck_key n") auto
      then show ?thesis using m(1,5) stems_trans [OF m(2) s] by auto
    qed
  next
    case new
    then have "ck_key n \<notin> ck_key ` set t" by (simp add: fold_upsert_keys)
    then show ?thesis using new(1) L by auto
  qed
qed auto

lemma reopen_noop: "chunks_ok db \<Longrightarrow> doc_chunks (reopen_reused doc pl db) = doc_chunks db"
  unfolding reopen_reused_def by (simp, rule sql_update_none) (auto simp: chunks_ok_def live_chunk_def)

text \<open>A row after a plan. Of another document: as it was. Else: an old row, live again when the plan wrote its hash,
  closed when it was live and not kept, otherwise as it was; or a row of this version.\<close>

lemma apply_mem:
  assumes ok: "chunks_ok db" and k': "k' \<in> set (doc_chunks (apply_chunk_plan sha now doc pl db))"
  obtains (old) k where "k \<in> set (doc_chunks db)" "stems k k'"
      "if ck_customer k = d_customer doc \<and> ck_doc k = d_id doc
       then (if ck_hash k \<in> written_hashes sha pl then ck_valid_to k' = None \<and> ck_last k' = LIVE_CHUNK_LAST_SEEN
             else if ck_valid_to k = None \<and> ck_hash k \<notin> kept_hashes sha pl
             then ck_valid_to k' = Some now \<and> ck_last k' = min (ck_last k) (d_version doc - 1)
             else k' = k)
       else k' = k"
    | (new) "ck_customer k' = d_customer doc" "ck_doc k' = d_id doc" "ck_first k' = d_version doc" "ck_valid_to k' = None"
      "ck_last k' = LIVE_CHUNK_LAST_SEEN" "ck_hash k' \<in> written_hashes sha pl" "ck_key k' \<notin> ck_key ` set (doc_chunks db)"
      "\<exists>a \<in> set (pl_added pl). stems (chunk_of sha doc a) k'"
proof -
  let ?c = "d_customer doc" and ?i = "d_id doc" and ?ns = "batch_of sha doc pl"
  have nk: "ck_key ` set ?ns = (\<lambda>h. (?c, ?i, h)) ` written_hashes sha pl"
    unfolding batch_hashes [of sha doc pl, symmetric] by (simp add: batch_of_def image_image)
  have "k' \<in> set (doc_chunks (retire_others now doc (kept_hashes sha pl)
       (db\<lparr>doc_chunks := fold upsert_chunk ?ns (doc_chunks db)\<rparr>)))"
    using k' by (simp add: doc_chunks_apply reopen_noop [OF ok])
  then obtain k1 where k1: "k1 \<in> set (fold upsert_chunk ?ns (doc_chunks db))"
    "k' = (if live_chunk ?c ?i k1 \<and> ck_hash k1 \<notin> kept_hashes sha pl
           then k1\<lparr>ck_valid_to := Some now, ck_last := min (ck_last k1) (d_version doc - 1)\<rparr> else k1)"
    by (auto simp: retire_others_def elim: sql_update_memE)
  have s1: "stems k1 k'" using k1(2) by (auto simp: stems_def ck_key_def)
  have wk: "written_hashes sha pl \<subseteq> kept_hashes sha pl" by (auto simp: kept_hashes_def)
  from fold_upsert_mem [of ?ns LIVE_CHUNK_LAST_SEEN, OF _ k1(1)] batch_rows consider
    (a) k where "k \<in> set (doc_chunks db)" "stems k k1"
      "if ck_key k \<in> ck_key ` set ?ns then ck_valid_to k1 = None \<and> ck_last k1 = LIVE_CHUNK_LAST_SEEN else k1 = k"
    | (b) n where "n \<in> set ?ns" "stems n k1" "ck_valid_to k1 = None" "ck_last k1 = LIVE_CHUNK_LAST_SEEN" "ck_key n \<notin> ck_key ` set (doc_chunks db)"
    by blast
  then show thesis
  proof cases
    case a
    have key: "ck_customer k1 = ck_customer k" "ck_doc k1 = ck_doc k" "ck_hash k1 = ck_hash k" using a(2) by (simp_all add: stems_def ck_key_def)
    have hit: "ck_key k \<in> ck_key ` set ?ns \<longleftrightarrow> ck_customer k = ?c \<and> ck_doc k = ?i \<and> ck_hash k \<in> written_hashes sha pl"
      unfolding nk by (auto simp: ck_key_def)
    show thesis
    proof (rule old [OF a(1) stems_trans [OF a(2) s1]])
      show "if ck_customer k = ?c \<and> ck_doc k = ?i
       then (if ck_hash k \<in> written_hashes sha pl then ck_valid_to k' = None \<and> ck_last k' = LIVE_CHUNK_LAST_SEEN
             else if ck_valid_to k = None \<and> ck_hash k \<notin> kept_hashes sha pl
             then ck_valid_to k' = Some now \<and> ck_last k' = min (ck_last k) (d_version doc - 1)
             else k' = k)
       else k' = k"
        using a(3) k1(2) key hit wk by (auto simp: live_chunk_def split: if_splits)
    qed
  next
    case b
    have n: "ck_key n = (?c, ?i, ck_hash n)" "ck_first n = d_version doc" "ck_hash n \<in> written_hashes sha pl"
      using batch_rows [OF b(1)] b(1) batch_hashes [of sha doc pl] by (auto simp: ck_key_def)
    obtain a where "a \<in> set (pl_added pl)" "n = chunk_of sha doc a"
      using b(1) set_first_of_hash [of sha "[]" "pl_added pl"] unfolding batch_of_def by auto
    then have stem: "\<exists>a \<in> set (pl_added pl). stems (chunk_of sha doc a) k1" using b(2) by blast
    have "k' = k1" using k1(2) b(2) n(3) wk n(1) by (auto simp: stems_def ck_key_def)
    then show thesis using b n stem by (intro new) (auto simp: stems_def ck_key_def)
  qed
qed

subsection \<open>The invariant is kept\<close>

lemma retire_keys: "map ck_key (doc_chunks (retire_others now doc kept d)) = map ck_key (doc_chunks d)"
  unfolding retire_others_def by (simp, rule map_sql_update) (simp add: ck_key_def)

lemma apply_distinct:
  assumes "chunks_ok db"
  shows "distinct (map ck_key (doc_chunks (apply_chunk_plan sha now doc pl db)))"
  using assms upsert_chunks_keys by (simp add: doc_chunks_apply retire_keys reopen_noop [OF assms] chunks_ok_def)

lemma apply_keys:
  assumes "chunks_ok db"
  shows "ck_key ` set (doc_chunks db) \<subseteq> ck_key ` set (doc_chunks (apply_chunk_plan sha now doc pl db))"
proof -
  have "ck_key ` set (doc_chunks (apply_chunk_plan sha now doc pl db)) = set (map ck_key (fold upsert_chunk (batch_of sha doc pl) (doc_chunks db)))"
    unfolding set_map [symmetric] doc_chunks_apply retire_keys by (simp add: reopen_noop [OF assms])
  then show ?thesis using fold_upsert_keys [of "batch_of sha doc pl" "doc_chunks db"] by simp
qed

lemma chunks_okD:
  assumes "chunks_ok db" and "k \<in> set (doc_chunks db)"
  shows "ck_valid_to k = None \<longleftrightarrow> ck_last k = LIVE_CHUNK_LAST_SEEN"
    and "ck_first k \<le> max_version db (ck_customer k) (ck_doc k)"
    and "ck_valid_to k \<noteq> None \<Longrightarrow> ck_last k < max_version db (ck_customer k) (ck_doc k)"
  using assms by (auto simp: chunks_ok_def)

lemma max_version_frame: "doc_versions db' = doc_versions db \<Longrightarrow> max_version db' c i = max_version db c i"
  by (simp add: max_version_def)

lemma apply_chunks_ok:
  assumes ok: "chunks_ok db" and v: "d_version doc = max_version db (d_customer doc) (d_id doc)" "d_version doc \<le> LIVE_CHUNK_LAST_SEEN"
  shows "chunks_ok (apply_chunk_plan sha now doc pl db)"
  unfolding chunks_ok_def
proof (intro conjI ballI)
  show "distinct (map ck_key (doc_chunks (apply_chunk_plan sha now doc pl db)))" by (rule apply_distinct [OF ok])
  fix k' assume k': "k' \<in> set (doc_chunks (apply_chunk_plan sha now doc pl db))"
  note mx = max_version_frame [OF apply_frame(1) [of sha now doc pl db]]
  from ok k' have "(ck_valid_to k' = None \<longleftrightarrow> ck_last k' = LIVE_CHUNK_LAST_SEEN) \<and> ck_first k' \<le> max_version db (ck_customer k') (ck_doc k')
      \<and> (ck_valid_to k' \<noteq> None \<longrightarrow> ck_last k' < max_version db (ck_customer k') (ck_doc k'))"
  proof (cases rule: apply_mem)
    case (old k)
    have same: "ck_customer k' = ck_customer k" "ck_doc k' = ck_doc k" "ck_first k' = ck_first k"
      using old(2) by (simp_all add: stems_def ck_key_def)
    show ?thesis
      using old(3) chunks_okD [OF ok old(1)] v same by (auto simp: min_def split: if_splits)
  next
    case new
    then show ?thesis using v(1) by simp
  qed
  then show "ck_valid_to k' = None \<longleftrightarrow> ck_last k' = LIVE_CHUNK_LAST_SEEN"
    "ck_first k' \<le> max_version (apply_chunk_plan sha now doc pl db) (ck_customer k') (ck_doc k')"
    "ck_valid_to k' \<noteq> None \<longrightarrow> ck_last k' < max_version (apply_chunk_plan sha now doc pl db) (ck_customer k') (ck_doc k')"
    unfolding mx by blast+
qed

lemma grows_chunks_ok:
  assumes "chunks_ok db" "versions_ok (doc_versions db)" "grows db db'" "doc_chunks db' = doc_chunks db"
  shows "chunks_ok db'"
  unfolding chunks_ok_def assms(4)
proof (intro conjI ballI)
  show "distinct (map ck_key (doc_chunks db))" using assms(1) by (simp add: chunks_ok_def)
  fix k assume k: "k \<in> set (doc_chunks db)"
  note le = grows_max [OF assms(3,2), of "ck_customer k" "ck_doc k"]
  show "ck_valid_to k = None \<longleftrightarrow> ck_last k = LIVE_CHUNK_LAST_SEEN" by (rule chunks_okD(1) [OF assms(1) k])
  show "ck_first k \<le> max_version db' (ck_customer k) (ck_doc k)" using chunks_okD(2) [OF assms(1) k] le by linarith
  show "ck_valid_to k \<noteq> None \<longrightarrow> ck_last k < max_version db' (ck_customer k) (ck_doc k)"
    using chunks_okD(3) [OF assms(1) k] le by linarith
qed

text \<open>The readers' join at the highest version is the set of live rows.\<close>

lemma chunks_at_max:
  assumes "chunks_ok db" "versions_ok (doc_versions db)"
  shows "set (chunks_at db c i (max_version db c i)) = {k \<in> set (doc_chunks db). live_chunk c i k}"
proof (rule set_eqI)
  fix k
  show "k \<in> set (chunks_at db c i (max_version db c i)) \<longleftrightarrow> k \<in> {k \<in> set (doc_chunks db). live_chunk c i k}"
  proof (cases "k \<in> set (doc_chunks db) \<and> ck_customer k = c \<and> ck_doc k = i")
    case True
    then show ?thesis
      using chunks_okD [OF assms(1), of k] max_version_bounds(2) [OF assms(2), of c i]
      by (cases "ck_valid_to k") (auto simp: chunks_at_def live_chunk_def)
  qed (auto simp: chunks_at_def live_chunk_def)
qed

text \<open>The whole write of one document.\<close>

definition doc_ok :: "doc_db \<Rightarrow> bool" where
  "doc_ok db \<longleftrightarrow> versions_ok (doc_versions db) \<and> chunks_ok db"

text \<open>Admission only stamps the metadata.\<close>

definition restamped :: "document \<Rightarrow> document \<Rightarrow> bool" where
  "restamped doc doc1 \<longleftrightarrow> (\<exists>m. doc1 = doc\<lparr>d_content := (d_content doc)\<lparr>dc_metadata := m\<rparr>\<rparr>)"

lemma restamped_refl [simp]: "restamped doc doc"
  by (auto simp: restamped_def intro: exI [of _ "dc_metadata (d_content doc)"])

lemma restamped_set [simp]: "restamped doc doc1 \<Longrightarrow> restamped doc (set_meta k v doc1)"
  by (auto simp: restamped_def set_meta_def)

lemma admit_same_time_stamps: "admit_same_time qid e doc = Inr (Some doc1) \<Longrightarrow> restamped doc doc1"
  unfolding admit_same_time_def Let_def by (auto split: if_splits option.splits bool.splits)

lemma admit_github_stamps: "admit_github c qid doc db = Inr (b, doc1) \<Longrightarrow> restamped doc doc1"
  unfolding admit_github_def Let_def
  by (auto dest!: admit_same_time_stamps split: sum.splits option.splits if_splits)

lemma admit_custom_stamps: "admit_custom cast c q doc db = Inr (b, doc1) \<Longrightarrow> restamped doc doc1"
  unfolding admit_custom_def by (auto split: sum.splits option.splits if_splits)

lemma admit_stamps: "admit_ordered_write cast c s qid doc db = Inr (b, doc1) \<Longrightarrow> restamped doc doc1"
  unfolding admit_ordered_write_def
  by (auto dest: admit_github_stamps admit_custom_stamps split: option.splits if_splits)

lemma restamped_simps:
  assumes "restamped doc doc1"
  shows "d_customer doc1 = d_customer doc" "d_id doc1 = d_id doc" "d_valid_to doc1 = d_valid_to doc"
    "d_deleted doc1 = d_deleted doc" "d_coalesce doc1 = d_coalesce doc"
    "dc_hash (d_content doc1) = dc_hash (d_content doc)" "dc_updated (d_content doc1) = dc_updated (d_content doc)"
  using assms by (auto simp: restamped_def)

subsection \<open>Writing one document\<close>

text \<open>What a persisted write consists of.\<close>

lemma write_document_True:
  assumes "write_document sha cast now c s qid fails doc pl db = Inr (db', True)"
  obtains doc1 db1 doc2 where "admit_ordered_write cast c s qid doc db = Inr (True, doc1)"
    and "upsert_document now (\<lambda>_. (id, id)) doc1 db = Inr (db1, doc2, True)" and "db' = apply_chunk_plan sha now doc2 pl db1"
  using assms that unfolding write_document_def by (auto split: sum.splits option.splits bool.splits if_splits)

lemma write_document_False:
  assumes ok: "versions_ok (doc_versions db)" and "d_valid_to doc = None"
    and w: "write_document sha cast now c s qid fails doc pl db = Inr (db', False)"
  shows "db' = db"
proof -
  have "db1 = db" if "admit_ordered_write cast c s qid doc db = Inr (True, doc1)"
    "upsert_document now (\<lambda>_. (id, id)) doc1 db = Inr (db1, doc2, False)" for doc1 db1 doc2
    using upsert_result(5) [OF ok that(2)] restamped_simps(3) [OF admit_stamps [OF that(1)]] assms(2) by simp
  then show ?thesis using w unfolding write_document_def by (auto split: sum.splits option.splits bool.splits if_splits)
qed

lemma write_document_effect:
  assumes ok: "doc_ok db" and d: "d_valid_to doc = None" "d_customer doc = c"
    and w: "write_document sha cast now c s qid fails doc pl db = Inr (db', True)"
  obtains e doc2 db1 where "live_version db' c (d_id doc) = Some e" "dv_version e = max_version db' c (d_id doc)"
    "d_version doc2 = dv_version e" "dc_hash (dv_content e) = dc_hash (d_content doc)"
    "dc_updated (dv_content e) = dc_updated (d_content doc)" "dv_content e = d_content doc2"
    "d_coalesce doc \<or> dv_deleted e = d_deleted doc"
    "d_customer doc2 = c" "d_id doc2 = d_id doc" "db' = apply_chunk_plan sha now doc2 pl db1"
    "doc_chunks db1 = doc_chunks db" "grows db db1" "chunks_ok db1" "doc_ok db'" "grows db db'"
    "doc_versions db1 = doc_versions db'" "doc_bindings db' = doc_bindings db" "doc_graph db' = doc_graph db"
proof -
  from w obtain doc1 db1 doc2 where w: "admit_ordered_write cast c s qid doc db = Inr (True, doc1)"
    "upsert_document now (\<lambda>_. (id, id)) doc1 db = Inr (db1, doc2, True)" "db' = apply_chunk_plan sha now doc2 pl db1"
    by (rule write_document_True)
  note r = restamped_simps [OF admit_stamps [OF w(1)]]
  have v: "versions_ok (doc_versions db)" "chunks_ok db" using ok by (simp_all add: doc_ok_def)
  have vt: "d_valid_to doc1 = None" using r(3) d(1) by simp
  note u = upsert_result [OF v(1) w(2) vt]
  have g: "grows db db1" using upsert_grows [OF v(1) _ w(2)] by simp
  obtain vs where "db1 = db\<lparr>doc_versions := vs\<rparr>" using u(7) by blast
  then have same: "doc_chunks db1 = doc_chunks db" "doc_bindings db1 = doc_bindings db" "doc_graph db1 = doc_graph db" by simp_all
  have ck1: "chunks_ok db1" by (rule grows_chunks_ok [OF v(2,1) g same(1)])
  have vf: "doc_versions db1 = doc_versions db'" by (simp add: w(3) apply_frame)
  from u(6) obtain e where e: "live_version db1 c (d_id doc) = Some e" "dv_version e = d_version doc2"
    "dv_content e = d_content doc2" "d_coalesce doc \<or> dv_deleted e = d_deleted doc"
    using r d by auto
  have lv: "live_version db' c (d_id doc) = Some e" using e(1) vf by (simp add: live_version_def)
  have mx: "d_version doc2 = max_version db1 (d_customer doc2) (d_id doc2)"
    using live_is_max(1) [OF growsD(1) [OF g] e(1)] e(2) u(1,2) r d by simp
  have le: "d_version doc2 \<le> LIVE_CHUNK_LAST_SEEN" unfolding mx by (rule max_version_bounds(2) [OF growsD(1) [OF g]])
  have ok': "doc_ok db'"
    unfolding doc_ok_def w(3) apply_frame using growsD(1) [OF g] apply_chunks_ok [OF ck1 mx le] by simp
  have hv: "has_version db' = has_version db1" by (intro ext) (simp only: has_version_def vf)
  have gg: "grows db db'" using g unfolding grows_def hv vf .
  have ids: "d_customer doc2 = c" "d_id doc2 = d_id doc" using u(1,2) r(1,2) d(2) by simp_all
  have ct: "dc_hash (d_content doc2) = dc_hash (d_content doc)" "dc_updated (d_content doc2) = dc_updated (d_content doc)"
    using u(3) r(6,7) by simp_all
  show thesis
  proof (rule that [OF lv _ _ _ _ e(3) e(4) ids w(3) same(1) g ck1 ok' gg vf])
    show "dv_version e = max_version db' c (d_id doc)"
      using mx max_version_frame [OF vf [symmetric], of c "d_id doc"] e(2) by (simp only: ids)
    show "d_version doc2 = dv_version e" by (rule e(2) [symmetric])
    show "dc_hash (dv_content e) = dc_hash (d_content doc)" "dc_updated (dv_content e) = dc_updated (d_content doc)"
      using e(3) ct by (simp_all only:)
    show "doc_bindings db' = doc_bindings db" "doc_graph db' = doc_graph db"
      using same(2,3) by (simp_all only: w(3) apply_frame)
  qed
qed

lemma write_document_keeps:
  assumes ok: "doc_ok db" and d: "d_valid_to doc = None" "d_customer doc = c"
    and w: "write_document sha cast now c s qid fails doc pl db = Inr (db', b)"
  shows "doc_ok db' \<and> grows db db'"
proof (cases b)
  case True
  then have w': "write_document sha cast now c s qid fails doc pl db = Inr (db', True)" using w by simp
  show ?thesis by (rule write_document_effect [OF ok d w']) simp
next
  case False
  have "db' = db" using write_document_False [OF _ d(1)] w ok by (simp add: False doc_ok_def)
  then show ?thesis using ok grows_refl by (simp add: doc_ok_def)
qed

subsection \<open>A version serves exactly its pieces\<close>

text \<open>What \<^verbatim>\<open>embed_documents\<close> promises: it answers every input, embedded or failed, and nothing else.\<close>

definition answers_all :: "((codepoints \<times> codepoints option) list \<Rightarrow> (int \<times> string) list \<times> (int \<times> codepoints \<times> string) list) \<Rightarrow> bool" where
  "answers_all em \<longleftrightarrow> (\<forall>xs. fst ` set (fst (em xs)) \<union> fst ` set (snd (em xs)) = {0 ..< int (length xs)})"

definition piece_hashes :: "(codepoints \<Rightarrow> string) \<Rightarrow> piece list \<Rightarrow> piece option \<Rightarrow> string set" where
  "piece_hashes sha ps m = (\<lambda>p. sha (pc_content p)) ` (set ps \<union> set_option m)"

lemma added_content_hashes:
  "(\<lambda>p. sha (pc_content p)) ` set (added_content_pieces sha live ps) = (\<lambda>p. sha (pc_content p)) ` set ps - live"
proof -
  let ?h = "\<lambda>p. sha (pc_content p)"
  have look: "?h (the (map_of (rev (zip (map ?h ps) ps)) x)) = x" if "x \<in> ?h ` set ps" for x
  proof -
    have "x \<in> fst ` set (rev (zip (map ?h ps) ps))" using that by (metis length_map map_fst_zip set_map set_rev)
    then obtain p where p: "map_of (rev (zip (map ?h ps) ps)) x = Some p" by (metis map_of_eq_None_iff not_None_eq)
    then have "(x, p) \<in> set (zip (map ?h ps) ps)" using map_of_SomeD by fastforce
    then have "x = ?h p" by (auto simp: zip_map1 in_set_zip)
    then show ?thesis using p by simp
  qed
  have "?h ` set (added_content_pieces sha live ps) = (\<lambda>x. ?h (the (map_of (rev (zip (map ?h ps) ps)) x))) ` (?h ` set ps - live)"
    unfolding added_content_pieces_def Let_def set_map set_filter image_image by (rule image_cong) auto
  also have "\<dots> = ?h ` set ps - live" using look by (simp add: image_def)
  finally show ?thesis .
qed

lemma pick_mem: "pick xs j = Some x \<Longrightarrow> x \<in> set xs"
  by (auto simp: pick_def split: if_splits)

definition picked :: "'a list \<Rightarrow> int set \<Rightarrow> 'a set" where
  "picked xs js = {x. \<exists>j \<in> js. pick xs j = Some x}"

lemma picked_all: "picked xs {0 ..< int (length xs)} = set xs"
proof (rule set_eqI, rule iffI)
  fix x assume "x \<in> set xs"
  then obtain n where "n < length xs" "xs ! n = x" by (auto simp: in_set_conv_nth)
  then have "pick xs (int n) = Some x" by (simp add: pick_def)
  then show "x \<in> picked xs {0 ..< int (length xs)}" using \<open>n < length xs\<close> by (auto simp: picked_def intro!: bexI [of _ "int n"])
qed (auto simp: picked_def dest: pick_mem)

lemma picked_Un: "picked xs (A \<union> B) = picked xs A \<union> picked xs B"
  by (auto simp: picked_def)

lemma picked_insert: "picked xs (insert j js) = set_option (pick xs j) \<union> picked xs js"
  by (auto simp: picked_def)

lemma written_of_picked:
  "(\<lambda>a. f (fst a)) ` set (concat (map (\<lambda>(j, vec). case pick xs j of None \<Rightarrow> [] | Some p \<Rightarrow> [(p, vec, g j)]) es))
     = f ` picked xs (fst ` set es)"
proof (induction es)
  case (Cons e es)
  obtain j vec where e: "e = (j, vec)" by (rule prod.exhaust)
  show ?case using Cons by (cases "pick xs j") (simp_all add: e picked_insert image_Un)
qed (simp add: picked_def)

lemma failed_of_picked:
  "(\<Union>(p, _) \<in> set (map (\<lambda>(j, e). (pick xs j, j, e)) fs). case p of Some q \<Rightarrow> {f q} | None \<Rightarrow> {}) = f ` picked xs (fst ` set fs)"
proof (induction fs)
  case (Cons e fs)
  obtain j vec where e: "e = (j, vec)" by (rule prod.exhaust)
  show ?case using Cons by (cases "pick xs j") (simp_all add: e picked_insert image_Un)
qed (simp add: picked_def)

lemma plan_kept:
  assumes em: "answers_all (pv_embed pv)"
  shows "kept_hashes (pv_sha pv) (plan_diff pv db doc ps m) = piece_hashes (pv_sha pv) ps m"
proof -
  let ?sha = "pv_sha pv" and ?lc = "live_content_hashes db doc" and ?lm = "live_metadata_hashes db doc"
  let ?h = "\<lambda>p. ?sha (pc_content p)"
  let ?mh = "map_option ?h m" and ?add = "added_content_pieces ?sha ?lc ps"
  define m_add where "m_add = (case ?mh of None \<Rightarrow> False | Some h \<Rightarrow> h \<notin> ?lm)"
  define inputs where "inputs = ?add @ (if m_add then [the m] else [])"
  define out where "out = (if inputs = [] then ([], []) else pv_embed pv (map (\<lambda>p. (pc_content p, dc_title (d_content doc))) inputs))"
  have cover: "fst ` set (fst out) \<union> fst ` set (snd out) = {0 ..< int (length inputs)}"
    using em by (cases "inputs = []") (simp_all add: out_def answers_all_def)
  let ?pl = "plan_diff pv db doc ps m"
  define kind where "kind = (\<lambda>j. if (if m_add then Some (int (length ?add)) else None) = Some j then ''metadata'' else ''content'')"
  have "pl_added ?pl = concat (map (\<lambda>(j, vec). case pick inputs j of None \<Rightarrow> [] | Some p \<Rightarrow> [(p, vec, kind j)]) (fst out))"
    unfolding plan_diff_def Let_def inputs_def m_add_def out_def kind_def by (simp only: case_prod_beta chunk_plan.simps)
  then have w: "written_hashes ?sha ?pl = ?h ` picked inputs (fst ` set (fst out))"
    unfolding written_hashes_def by (simp only:) (rule written_of_picked [where f = ?h and g = kind])
  have "pl_failed ?pl = map (\<lambda>(j, err). (pick inputs j, j, err)) (snd out)"
    unfolding plan_diff_def Let_def inputs_def m_add_def out_def by (simp only: case_prod_beta chunk_plan.simps)
  then have f: "failed_hashes ?sha ?pl = ?h ` picked inputs (fst ` set (snd out))"
    unfolding failed_hashes_def by (simp only:) (rule failed_of_picked [where f = ?h])
  have "written_hashes ?sha ?pl \<union> failed_hashes ?sha ?pl = ?h ` set inputs"
    unfolding w f image_Un [symmetric] picked_Un [symmetric] cover picked_all ..
  also have "\<dots> = (?h ` set ps - ?lc) \<union> (if m_add then {the ?mh} else {})"
    using added_content_hashes [of ?sha ?lc ps] by (cases m) (auto simp: inputs_def m_add_def)
  finally have wf: "written_hashes ?sha ?pl \<union> failed_hashes ?sha ?pl = (?h ` set ps - ?lc) \<union> (if m_add then {the ?mh} else {})" .
  have r: "planned_reuse ?pl = (?lc \<inter> ?h ` set ps) \<union> (case ?mh of None \<Rightarrow> {} | Some h \<Rightarrow> if h \<in> ?lm then {h} else {})"
    unfolding planned_reuse_def plan_diff_def Let_def by (simp add: case_prod_beta split: option.splits)
  have "kept_hashes ?sha ?pl = planned_reuse ?pl \<union> (written_hashes ?sha ?pl \<union> failed_hashes ?sha ?pl)"
    by (auto simp: kept_hashes_def)
  also have "\<dots> = piece_hashes ?sha ps m"
    unfolding r wf by (cases m) (auto simp: piece_hashes_def m_add_def)
  finally show ?thesis .
qed


text \<open>Claim C16. What is closed stays as it was: a write leaves the chunks of every earlier version alone, unless it
  brings back a hash that had been retired (its row is reopened with its old first version).\<close>

theorem earlier_versions_keep_their_chunks:
  assumes "doc_ok db" and "d_valid_to doc = None" and "d_customer doc = c"
    and "write_document sha cast now c s qid fails doc pl db = Inr (db', True)"
    and "\<forall>k \<in> set (doc_chunks db). ck_customer k = c \<and> ck_doc k = d_id doc \<and> ck_hash k \<in> written_hashes sha pl \<longrightarrow> ck_valid_to k = None"
    and "live_version db' c (d_id doc) = Some e" and "u < dv_version e"
  shows "ck_hash ` set (chunks_at db' c (d_id doc) u) = ck_hash ` set (chunks_at db c (d_id doc) u)"
proof (rule write_document_effect [OF assms(1-4)])
  let ?i = "d_id doc"
  fix e' doc2 db1
  assume e': "live_version db' c ?i = Some e'" "d_version doc2 = dv_version e'"
    and doc2: "d_customer doc2 = c" "d_id doc2 = ?i" and db': "db' = apply_chunk_plan sha now doc2 pl db1"
    and same: "doc_chunks db1 = doc_chunks db" and ck1: "chunks_ok db1" and ok': "doc_ok db'" and g: "grows db db1"
  have v: "u < d_version doc2" using e' assms(6,7) by simp
  have lv: "d_version doc2 \<le> LIVE_CHUNK_LAST_SEEN"
    using versions_okD(2) [of "doc_versions db'" e'] ok' e' live_version_Some [OF e'(1)] by (simp add: doc_ok_def)
  have to_old: "k' \<in> set (chunks_at db' c ?i u) \<Longrightarrow> ck_hash k' \<in> ck_hash ` set (chunks_at db c ?i u)" for k'
  proof -
    assume "k' \<in> set (chunks_at db' c ?i u)"
    then have k': "k' \<in> set (doc_chunks (apply_chunk_plan sha now doc2 pl db1))" "ck_customer k' = c" "ck_doc k' = ?i"
      "ck_first k' \<le> u" "u \<le> ck_last k'" by (simp_all add: chunks_at_def db')
    from ck1 k'(1) show ?thesis
    proof (cases rule: apply_mem)
      case (old k)
      have st: "ck_customer k = c" "ck_doc k = ?i" "ck_first k \<le> u" "ck_hash k' = ck_hash k"
        using old(2) k' by (simp_all add: stems_def ck_key_def)
      have "u \<le> ck_last k"
        using old(3) assms(5) st old(1) k'(5) chunks_okD(1) [OF ck1 old(1)] v lv by (auto simp: doc2 same split: if_splits)
      then have "k \<in> set (chunks_at db c ?i u)" using old(1) st by (simp add: chunks_at_def same)
      then show ?thesis using st(4) by simp
    next
      case new
      then show ?thesis using k'(4) v by simp
    qed
  qed
  have to_new: "k \<in> set (chunks_at db c ?i u) \<Longrightarrow> ck_hash k \<in> ck_hash ` set (chunks_at db' c ?i u)" for k
  proof -
    assume "k \<in> set (chunks_at db c ?i u)"
    then have k: "k \<in> set (doc_chunks db1)" "ck_customer k = c" "ck_doc k = ?i" "ck_first k \<le> u" "u \<le> ck_last k"
      by (simp_all add: chunks_at_def same)
    have "ck_key k \<in> ck_key ` set (doc_chunks (apply_chunk_plan sha now doc2 pl db1))" using apply_keys [OF ck1] k(1) by blast
    then obtain k' where k': "k' \<in> set (doc_chunks (apply_chunk_plan sha now doc2 pl db1))" "ck_key k' = ck_key k" by auto
    from ck1 k'(1) show ?thesis
    proof (cases rule: apply_mem)
      case (old q)
      have "q = k" using old(1,2) k k'(2) ck1 by (auto simp: stems_def chunks_ok_def distinct_map inj_on_def)
      then have "ck_first k' \<le> u" "u \<le> ck_last k'" "ck_customer k' = c" "ck_doc k' = ?i" "ck_hash k' = ck_hash k"
        using old(2,3) k v lv by (auto simp: stems_def ck_key_def doc2 min_def split: if_splits)
      then show ?thesis using k'(1) by (auto simp: chunks_at_def db' intro!: rev_image_eqI [of k'])
    next
      case new
      then show ?thesis using k(1) k'(2) by (metis image_eqI)
    qed
  qed
  show ?thesis using to_old to_new by blast
qed

text \<open>A document with one chunk gets a second version that keeps the chunk and adds another.\<close>

definition char_digest :: "codepoints \<Rightarrow> string" where
  "char_digest t = map char_of t"

definition sample_env :: "nat plan_env" where
  "sample_env = \<lparr>pv_tok = \<lparr>encode = id, decode = id\<rparr>, pv_sha = char_digest, pv_secrets = (\<lambda>_. []), pv_scrub = id, pv_free = id,
     pv_str = (\<lambda>_. []), pv_embed = (\<lambda>xs. (map (\<lambda>n. (int n, ''[0.1]'')) [0 ..< length xs], []))\<rparr>"

definition sample_piece :: "int \<Rightarrow> nat \<Rightarrow> piece" where
  "sample_piece n ch = \<lparr>pc_index = n, pc_content = [ch], pc_tokens = 1\<rparr>"

definition one_chunk :: doc_db where
  "one_chunk = one_version\<lparr>doc_chunks := [chunk_of char_digest (sample_doc ''a'' [] 1) (sample_piece 0 97, ''[0.1]'', ''content'')]\<rparr>"

lemma sample_answers: "answers_all (pv_embed sample_env)"
  by (auto simp: answers_all_def sample_env_def image_image image_int_atLeastLessThan lessThan_atLeast0)

lemma one_chunk_ok: "doc_ok one_chunk"
  using one_version_ok
  by (simp add: doc_ok_def chunks_ok_def one_chunk_def one_version_def empty_docs_def max_version_def version_of_def sample_doc_def)

lemma sample_chars: "char_of (97 :: nat) = CHR ''a''" "char_of (98 :: nat) = CHR ''b''"
  by (simp_all add: char_of_def bit_Suc_0_iff)

lemma one_chunk_rows:
  obtains k where "doc_chunks one_chunk = [k]" "live_chunk ''acme'' ''page'' k" "ck_hash k = ''a''" "ck_chunker k = CHUNKER_VERSION"
    "ck_kind k = ''content''" "ck_first k = 1" "ck_last k = LIVE_CHUNK_LAST_SEEN"
  by (rule that [of "chunk_of char_digest (sample_doc ''a'' [] 1) (sample_piece 0 97, ''[0.1]'', ''content'')"])
    (simp_all add: one_chunk_def live_chunk_def sample_doc_def sample_piece_def char_digest_def sample_chars)

lemma only_row: "P k \<Longrightarrow> {x \<in> set [k]. P x} = {k}"
  by auto

definition second_plan :: chunk_plan where
  "second_plan = plan_diff sample_env one_chunk (sample_doc ''b'' [] 2) [sample_piece 0 97, sample_piece 1 98] None"

lemma second_plan_simps:
  "planned_reuse second_plan = {''a''}" "pl_added second_plan = [(sample_piece 1 98, ''[0.1]'', ''content'')]" "pl_failed second_plan = []"
proof -
  note c = sample_chars
  obtain k where k: "doc_chunks one_chunk = [k]" "live_chunk ''acme'' ''page'' k" "ck_hash k = ''a''" "ck_chunker k = CHUNKER_VERSION"
    "ck_kind k = ''content''" by (rule one_chunk_rows)
  have "d_customer (sample_doc ''b'' [] 2) = ''acme''" "d_id (sample_doc ''b'' [] 2) = ''page''" by (simp_all add: sample_doc_def)
  then have live: "live_content_hashes one_chunk (sample_doc ''b'' [] 2) = {''a''}"
    unfolding live_content_hashes_def k(1) using k(2-) by (subst only_row) simp_all
  show "planned_reuse second_plan = {''a''}" "pl_added second_plan = [(sample_piece 1 98, ''[0.1]'', ''content'')]" "pl_failed second_plan = []"
    by (simp_all add: second_plan_def plan_diff_def planned_reuse_def live added_content_pieces_def sample_env_def sample_piece_def
        char_digest_def c pick_def Let_def)
qed

lemma second_write:
  "\<exists>db'. write_document char_digest (\<lambda>_. None) 2 ''acme'' NOTION None None (sample_doc ''b'' [] 2) second_plan one_chunk = Inr (db', True)
     \<and> (\<exists>e. live_version db' ''acme'' ''page'' = Some e \<and> dv_version e = 2)"
  by (simp add: write_document_def admit_ordered_write_def upsert_document_def upsert_attempt_def UPSERT_DOC_MAX_RETRIES_def upt_rec
      sample_doc_def sample_content_def one_chunk_def one_version_def empty_docs_def version_of_def live_version_def live_row_def meta_get_def
      pop_meta_def close_version_def insert_version_def has_version_def max_version_def LIVE_CHUNK_LAST_SEEN_def apply_frame Let_def)


theorem earlier_versions_keep_their_chunks_witness:
  "\<exists>db' e. doc_ok one_chunk
     \<and> write_document char_digest (\<lambda>_. None) 2 ''acme'' NOTION None None (sample_doc ''b'' [] 2) second_plan one_chunk = Inr (db', True)
     \<and> (\<forall>k \<in> set (doc_chunks one_chunk). ck_customer k = ''acme'' \<and> ck_doc k = ''page'' \<and> ck_hash k \<in> written_hashes char_digest second_plan
          \<longrightarrow> ck_valid_to k = None)
     \<and> live_version db' ''acme'' ''page'' = Some e \<and> 1 < dv_version e
     \<and> ck_hash ` set (chunks_at db' ''acme'' ''page'' 1) = {''a''}"
proof -
  let ?d = "sample_doc ''b'' [] 2"
  have d: "d_valid_to ?d = None" "d_customer ?d = ''acme''" "d_id ?d = ''page''" by (simp_all add: sample_doc_def)
  obtain db' e where w: "write_document char_digest (\<lambda>_. None) 2 ''acme'' NOTION None None ?d second_plan one_chunk = Inr (db', True)"
    and e: "live_version db' ''acme'' (d_id ?d) = Some e" "1 < dv_version e"
    using second_write by (auto simp: d)
  have k: "\<forall>k \<in> set (doc_chunks one_chunk). ck_customer k = ''acme'' \<and> ck_doc k = d_id ?d \<and> ck_hash k \<in> written_hashes char_digest second_plan
          \<longrightarrow> ck_valid_to k = None"
    by (simp add: one_chunk_def)
  have one: "ck_hash ` set (chunks_at one_chunk ''acme'' (d_id ?d) 1) = {''a''}"
    by (rule one_chunk_rows) (simp add: chunks_at_def live_chunk_def d LIVE_CHUNK_LAST_SEEN_def)
  show ?thesis
    using earlier_versions_keep_their_chunks [OF one_chunk_ok d(1,2) w k e] one_chunk_ok w k e one
    unfolding d by (intro exI [of _ db'] exI [of _ e]) simp
qed

end
