(* ===== verification/DocumentOrder.thy ===== *)
theory DocumentOrder
  imports ChunkVersions
begin

section \<open>Orders of writes, and whole passes\<close>

text \<open>
  What the order of writes to one document does not change (\<open>admit_ordered_write\<close> for custom documents and for
  GitHub), what a failing document costs the others of its batch, and that a whole pass of \<open>persist\<close> keeps the
  invariants of versions and chunks.
\<close>

subsection \<open>Custom documents\<close>

definition stamped :: "version_row \<Rightarrow> int \<Rightarrow> bool" where
  "stamped e n \<longleftrightarrow> map_of (dc_metadata (dv_content e)) CI_QUEUE_SEQ_KEY = Some (JInt n)"

type_synonym ci_row = "int \<times> document \<times> chunk_plan"

text \<open>Queue rows of one document, applied one after the other; a row that raises leaves nothing.\<close>

fun apply_rows ::
  "(codepoints \<Rightarrow> string) \<Rightarrow> (json \<Rightarrow> int option) \<Rightarrow> time \<Rightarrow> string \<Rightarrow> ci_row list \<Rightarrow> doc_db \<Rightarrow> doc_db" where
  "apply_rows sha cast now c [] db = db"
| "apply_rows sha cast now c ((q, doc, pl) # rows) db =
     apply_rows sha cast now c rows
       (case write_document sha cast now c CUSTOM_INGEST (Some q) None doc pl db of Inr (db', _) \<Rightarrow> db' | Inl _ \<Rightarrow> db)"

definition ci_row_ok :: "string \<Rightarrow> string \<Rightarrow> ci_row \<Rightarrow> bool" where
  "ci_row_ok c i r \<longleftrightarrow> (case r of (q, doc, pl) \<Rightarrow> d_customer doc = c \<and> d_id doc = i \<and> d_valid_to doc = None \<and> \<not> d_coalesce doc)"

lemma map_of_delete: "map_of (AList.delete k al) k' = (if k' = k then None else map_of al k')"
  by (auto simp: delete_conv')

lemma stale_row_skipped:
  assumes "live_version db c (d_id doc) = Some e" and "stamped e n" and "q \<le> n"
  shows "write_document sha cast now c CUSTOM_INGEST (Some q) None doc pl db = Inr (db, False)"
  using assms by (simp add: write_document_def admit_ordered_write_def admit_custom_def meta_bigint_def stamped_def)

text \<open>A newer row with other content is written and leaves its stamp.\<close>

lemma newer_row_written:
  assumes ok: "doc_ok db" and r: "ci_row_ok c i (q, doc, pl)" and bound: "max_version db c i < LIVE_CHUNK_LAST_SEEN"
    and live: "case live_version db c i of None \<Rightarrow> True | Some e \<Rightarrow> (\<exists>n. stamped e n \<and> n < q) \<and> dc_hash (dv_content e) \<noteq> dc_hash (d_content doc)"
  obtains db' e where "write_document sha cast now c CUSTOM_INGEST (Some q) None doc pl db = Inr (db', True)" "doc_ok db'"
    "live_version db' c i = Some e" "stamped e q" "dc_hash (dv_content e) = dc_hash (d_content doc)" "dv_deleted e = d_deleted doc"
    "max_version db' c i \<le> max_version db c i + 1"
proof -
  let ?doc1 = "set_meta CI_QUEUE_SEQ_KEY (JInt q) doc"
  have d: "d_customer doc = c" "d_id doc = i" "d_valid_to doc = None" "\<not> d_coalesce doc" using r by (simp_all add: ci_row_ok_def)
  have v: "versions_ok (doc_versions db)" using ok by (simp add: doc_ok_def)
  have adm: "admit_ordered_write cast c CUSTOM_INGEST (Some q) doc db = Inr (True, ?doc1)"
    using live by (auto simp: admit_ordered_write_def admit_custom_def d(2) meta_bigint_def stamped_def split: option.splits)
  obtain db1 doc2 b where up: "upsert_document now (\<lambda>_. (id, id)) ?doc1 db = Inr (db1, doc2, b)"
    using upsert_returns [OF v, of ?doc1 now] bound d by auto
  note u = upsert_result [OF v up]
  have b: b
  proof (rule ccontr)
    assume "\<not> b"
    then show False using u(5) live d by auto
  qed
  let ?db' = "apply_chunk_plan sha now doc2 pl db1"
  have w: "write_document sha cast now c CUSTOM_INGEST (Some q) None doc pl db = Inr (?db', True)"
    using adm up b by (simp add: write_document_def)
  obtain e where e: "live_version db1 c i = Some e" "dv_content e = d_content doc2" "dv_deleted e = d_deleted doc"
    using u(6) [OF _ b] d by auto
  have lv: "live_version ?db' c i = Some e" using e(1) by (simp add: live_version_def apply_frame)
  have ct: "dv_content e = d_content (pop_meta GITHUB_FORCE_VERSION_KEY ?doc1)" using e(2) u(3) d by simp
  have st: "stamped e q"
    by (simp add: stamped_def ct pop_meta_def set_meta_def map_of_delete update_conv' CI_QUEUE_SEQ_KEY_def GITHUB_FORCE_VERSION_KEY_def)
  have mx: "max_version ?db' c i \<le> max_version db c i + 1"
    using upsert_numbers [OF v up, of c i] d max_version_frame [OF apply_frame(1) [of sha now doc2 pl db1], of c i] by simp
  show thesis
  proof (rule that [OF w _ lv st _ e(3) mx])
    show "doc_ok ?db'" using write_document_keeps [OF ok d(3,1) w] by simp
    show "dc_hash (dv_content e) = dc_hash (d_content doc)" by (simp add: ct)
  qed
qed

text \<open>What the rows applied so far leave: the content of the one enqueued last.\<close>

definition settled :: "string \<Rightarrow> string \<Rightarrow> ci_row set \<Rightarrow> doc_db \<Rightarrow> bool" where
  "settled c i R db \<longleftrightarrow>
     (\<exists>e q doc pl. (q, doc, pl) \<in> R \<and> (\<forall>r \<in> R. fst r \<le> q) \<and> live_version db c i = Some e \<and> stamped e q
        \<and> dc_hash (dv_content e) = dc_hash (d_content doc) \<and> dv_deleted e = d_deleted doc)"

definition rows_apart :: "ci_row set \<Rightarrow> bool" where
  "rows_apart R \<longleftrightarrow>
     (\<forall>r \<in> R. \<forall>r' \<in> R. if fst r = fst r' then fst (snd r) = fst (snd r')
        else dc_hash (d_content (fst (snd r))) \<noteq> dc_hash (d_content (fst (snd r'))))"

lemma rows_apart_mono: "rows_apart S \<Longrightarrow> T \<subseteq> S \<Longrightarrow> rows_apart T"
  unfolding rows_apart_def by (meson subsetD)

lemma settled_step:
  assumes ok: "doc_ok db" and r: "ci_row_ok c i (q, doc, pl)" and bound: "max_version db c i < LIVE_CHUNK_LAST_SEEN"
    and apart: "rows_apart (insert (q, doc, pl) R)" and s: "if R = {} then live_version db c i = None else settled c i R db"
  obtains db' b where "write_document sha cast now c CUSTOM_INGEST (Some q) None doc pl db = Inr (db', b)" "doc_ok db'"
    "settled c i (insert (q, doc, pl) R) db'" "max_version db' c i \<le> max_version db c i + 1"
proof (cases "R = {}")
  case True
  then have live: "live_version db c i = None" using s by simp
  show thesis
    by (rule newer_row_written [OF ok r bound, where sha = sha and cast = cast and now = now])
      (use True live in \<open>auto simp: settled_def intro!: that\<close>)
next
  case False
  then obtain e q0 doc0 pl0 where e: "(q0, doc0, pl0) \<in> R" "\<forall>r \<in> R. fst r \<le> q0" "live_version db c i = Some e" "stamped e q0"
    "dc_hash (dv_content e) = dc_hash (d_content doc0)" "dv_deleted e = d_deleted doc0"
    using s by (auto simp: settled_def)
  have i: "d_id doc = i" using r by (simp add: ci_row_ok_def)
  show thesis
  proof (cases "q \<le> q0")
    case True
    have w: "write_document sha cast now c CUSTOM_INGEST (Some q) None doc pl db = Inr (db, False)"
      by (rule stale_row_skipped [OF _ e(4) True]) (simp add: i e(3))
    have "settled c i (insert (q, doc, pl) R) db" unfolding settled_def using e True by (intro exI conjI) auto
    then show ?thesis using that [OF w ok] by simp
  next
    case new: False
    have diff: "dc_hash (d_content doc) \<noteq> dc_hash (d_content doc0)"
      using apart e(1) new unfolding rows_apart_def
      by (drule_tac bspec [of _ _ "(q, doc, pl)"], simp) (drule bspec [of _ _ "(q0, doc0, pl0)"], auto)
    have live: "case live_version db c i of None \<Rightarrow> True | Some e \<Rightarrow> (\<exists>n. stamped e n \<and> n < q) \<and> dc_hash (dv_content e) \<noteq> dc_hash (d_content doc)"
      using e new diff by auto
    show ?thesis
    proof (rule newer_row_written [OF ok r bound live, where sha = sha and cast = cast and now = now])
      fix db' e'
      assume a: "write_document sha cast now c CUSTOM_INGEST (Some q) None doc pl db = Inr (db', True)" "doc_ok db'"
        "live_version db' c i = Some e'" "stamped e' q" "dc_hash (dv_content e') = dc_hash (d_content doc)"
        "dv_deleted e' = d_deleted doc" "max_version db' c i \<le> max_version db c i + 1"
      have "\<forall>r \<in> insert (q, doc, pl) R. fst r \<le> q" using e(2) new by fastforce
      then have "settled c i (insert (q, doc, pl) R) db'" unfolding settled_def using a(3-6) by (intro exI conjI) auto
      then show thesis using that [OF a(1,2)] a(7) by simp
    qed
  qed
qed

lemma rows_settle:
  assumes "doc_ok db" and "\<forall>r \<in> set rows. ci_row_ok c i r" and "max_version db c i + int (length rows) \<le> LIVE_CHUNK_LAST_SEEN"
    and "rows_apart (set rows \<union> R)" and "if R = {} then live_version db c i = None else settled c i R db"
    and "set rows \<union> R \<noteq> {}"
  shows "settled c i (set rows \<union> R) (apply_rows sha cast now c rows db)"
  using assms
proof (induction rows arbitrary: db R)
  case (Cons r rows)
  obtain q doc pl where r: "r = (q, doc, pl)" by (rule prod_cases3)
  have "rows_apart (insert (q, doc, pl) R)" by (rule rows_apart_mono [OF Cons.prems(4)]) (auto simp: r)
  then obtain db' b where w: "write_document sha cast now c CUSTOM_INGEST (Some q) None doc pl db = Inr (db', b)" "doc_ok db'"
    "settled c i (insert (q, doc, pl) R) db'" "max_version db' c i \<le> max_version db c i + 1"
    using settled_step [OF Cons.prems(1) _ _ _ Cons.prems(5), of q doc pl sha cast now] Cons.prems(2,3) r by auto
  have "settled c i (set rows \<union> insert (q, doc, pl) R) (apply_rows sha cast now c rows db')"
    using Cons.prems(2-4) w by (intro Cons.IH) (auto simp: r)
  then show ?case by (simp add: r w(1))
qed auto

text \<open>Claim C11. Out-of-order and repeated application of custom documents: whatever order the queue rows of one
  document are applied in, and however often a reclaim replays one, the document ends as the row enqueued last says
  (deleted or not), provided the rows carry different content.\<close>

theorem last_enqueued_row_wins:
  assumes "doc_ok db" and "live_version db c i = None" and "rows \<noteq> []"
    and "max_version db c i + int (length rows) \<le> LIVE_CHUNK_LAST_SEEN"
    and "\<forall>r \<in> set rows. ci_row_ok c i r" and "rows_apart (set rows)"
  shows "\<exists>e q doc pl. (q, doc, pl) \<in> set rows \<and> (\<forall>r \<in> set rows. fst r \<le> q)
     \<and> live_version (apply_rows sha cast now c rows db) c i = Some e
     \<and> dc_hash (dv_content e) = dc_hash (d_content doc) \<and> dv_deleted e = d_deleted doc"
  using rows_settle [OF assms(1,5,4), of "{}" sha cast now] assms(2,3,6) unfolding settled_def by auto

definition ci_sample :: "string \<Rightarrow> time option \<Rightarrow> document" where
  "ci_sample h gone = (sample_doc h [] 1)\<lparr>d_deleted := gone\<rparr>"

definition no_plan :: chunk_plan where
  "no_plan = \<lparr>pl_reused = {}, pl_reused_metadata = None, pl_added = [], pl_failed = [], pl_removed = {}, pl_added_count = 0,
     pl_failed_count = 0\<rparr>"

text \<open>A delete (row 9) that was applied before the upsert it follows (row 4): the document stays deleted.\<close>

theorem last_enqueued_row_wins_witness:
  "let rows = [(9, ci_sample ''gone'' (Some 3), no_plan), (4, ci_sample ''a'' None, no_plan), (9, ci_sample ''gone'' (Some 3), no_plan)] in
   doc_ok empty_docs \<and> live_version empty_docs ''acme'' ''page'' = None
   \<and> (\<forall>r \<in> set rows. ci_row_ok ''acme'' ''page'' r) \<and> rows_apart (set rows)
   \<and> (\<exists>e. live_version (apply_rows char_digest (\<lambda>_. None) 5 ''acme'' rows empty_docs) ''acme'' ''page'' = Some e
        \<and> dv_deleted e = Some 3)"
proof -
  let ?rows = "[(9 :: int, ci_sample ''gone'' (Some 3), no_plan), (4, ci_sample ''a'' None, no_plan), (9, ci_sample ''gone'' (Some 3), no_plan)]"
  have ok: "doc_ok empty_docs" by (simp add: doc_ok_def chunks_ok_def empty_docs_def versions_ok_def)
  have live: "live_version empty_docs ''acme'' ''page'' = None" by (simp add: live_version_def empty_docs_def)
  have rows: "\<forall>r \<in> set ?rows. ci_row_ok ''acme'' ''page'' r" by (simp add: ci_row_ok_def ci_sample_def sample_doc_def)
  have apart: "rows_apart (set ?rows)" by (simp add: rows_apart_def ci_sample_def sample_doc_def sample_content_def)
  have mx: "max_version empty_docs ''acme'' ''page'' + int (length ?rows) \<le> LIVE_CHUNK_LAST_SEEN"
    by (simp add: max_version_def empty_docs_def LIVE_CHUNK_LAST_SEEN_def)
  have ne: "?rows \<noteq> []" by simp
  have del: "d_deleted doc = Some 3" if "(q, doc, pl) \<in> set ?rows" "\<forall>r \<in> set ?rows. fst r \<le> q" for q doc pl
    using that by (auto simp: ci_sample_def)
  show ?thesis
    using last_enqueued_row_wins [OF ok live ne mx rows apart, of char_digest "\<lambda>_. None" 5] ok live rows apart del
    unfolding Let_def by (metis (no_types, lifting))
qed

subsection \<open>GitHub documents\<close>

text \<open>Provider time orders the versions; at the same time a deletion is above a body, and what a live event says above
  what history says.\<close>

definition operation_of :: "doc_content \<Rightarrow> json" where
  "operation_of ct = meta_get (dc_metadata ct) ''_github_operation'' (JStr ''live'')"

definition not_older :: "version_row \<Rightarrow> version_row \<Rightarrow> bool" where
  "not_older e e' \<longleftrightarrow>
     dc_updated (dv_content e) < dc_updated (dv_content e')
     \<or> (dc_updated (dv_content e) = dc_updated (dv_content e')
        \<and> (dv_deleted e \<noteq> None \<longrightarrow> dv_deleted e' \<noteq> None)
        \<and> (operation_of (dv_content e) = JStr ''live'' \<longrightarrow> operation_of (dv_content e') = JStr ''live''))"

lemma stamps_keep_operation:
  "k \<noteq> ''_github_operation'' \<Longrightarrow> operation_of (d_content (set_meta k v doc)) = operation_of (d_content doc)"
  "k \<noteq> ''_github_operation'' \<Longrightarrow> operation_of (d_content (pop_meta k doc)) = operation_of (d_content doc)"
  by (simp_all add: operation_of_def set_meta_def pop_meta_def meta_get_def update_conv' map_of_delete)

lemma same_time_admitted:
  assumes "admit_same_time qid e doc = Inr (Some doc1)"
  shows "dv_deleted e \<noteq> None \<Longrightarrow> d_deleted doc \<noteq> None"
    and "operation_of (dv_content e) = JStr ''live'' \<Longrightarrow> operation_of (d_content doc) \<noteq> JStr ''history''"
    and "operation_of (d_content doc1) = operation_of (d_content doc)"
proof -
  have "\<not> (dv_deleted e \<noteq> None \<and> d_deleted doc = None)"
    and op: "\<not> (operation_of (d_content doc) = JStr ''history'' \<and> operation_of (dv_content e) = JStr ''live'')"
    using assms by (auto simp: admit_same_time_def operation_of_def Let_def split: if_splits)
  then show "dv_deleted e \<noteq> None \<Longrightarrow> d_deleted doc \<noteq> None"
    and "operation_of (dv_content e) = JStr ''live'' \<Longrightarrow> operation_of (d_content doc) \<noteq> JStr ''history''" by auto
  have "doc1 = doc \<or> doc1 = set_meta GITHUB_FORCE_VERSION_KEY (JBool True) doc"
    using assms unfolding admit_same_time_def Let_def by (auto split: if_splits option.splits bool.splits)
  then show "operation_of (d_content doc1) = operation_of (d_content doc)"
    using stamps_keep_operation(1) by (auto simp: GITHUB_FORCE_VERSION_KEY_def)
qed

lemma github_admitted:
  assumes "admit_github c qid doc db = Inr (True, doc1)" and e: "live_version db c (d_id doc) = Some e"
  shows "dc_updated (dv_content e) \<le> dc_updated (d_content doc)"
    and "dc_updated (dv_content e) = dc_updated (d_content doc) \<Longrightarrow> dv_deleted e \<noteq> None \<Longrightarrow> d_deleted doc \<noteq> None"
    and "dc_updated (dv_content e) = dc_updated (d_content doc) \<Longrightarrow> operation_of (dv_content e) = JStr ''live''
           \<Longrightarrow> operation_of (d_content doc) \<noteq> JStr ''history''"
    and "operation_of (d_content doc1) = operation_of (d_content doc)"
proof -
  let ?same = "dc_updated (dv_content e) = dc_updated (d_content doc)"
  from assms obtain d where d: "(if ?same then admit_same_time qid e doc else Inr (Some doc)) = Inr (Some d)"
    and le: "\<not> dc_updated (d_content doc) < dc_updated (dv_content e)"
    and doc1: "\<exists>d2. (d2 = d \<or> d2 = set_meta GITHUB_FORCE_VERSION_KEY (JBool True) d)
                 \<and> (doc1 = d2 \<or> (\<exists>q. doc1 = set_meta ''_github_queue_seq'' (JInt q) d2))"
    unfolding admit_github_def Let_def by (auto split: sum.splits option.splits if_splits)
  show "dc_updated (dv_content e) \<le> dc_updated (d_content doc)" using le by simp
  show "?same \<Longrightarrow> dv_deleted e \<noteq> None \<Longrightarrow> d_deleted doc \<noteq> None" using d same_time_admitted(1) by simp
  show "?same \<Longrightarrow> operation_of (dv_content e) = JStr ''live'' \<Longrightarrow> operation_of (d_content doc) \<noteq> JStr ''history''"
    using d same_time_admitted(2) by simp
  have "operation_of (d_content d) = operation_of (d_content doc)"
    using d same_time_admitted(3) [of qid e doc d] by (auto split: if_splits)
  then show "operation_of (d_content doc1) = operation_of (d_content doc)"
    using doc1 stamps_keep_operation(1) by (auto simp: GITHUB_FORCE_VERSION_KEY_def)
qed

lemma github_write_not_older:
  assumes ok: "doc_ok db" and d: "d_valid_to doc = None" "d_customer doc = c" "\<not> d_coalesce doc"
    "operation_of (d_content doc) \<in> {JStr ''live'', JStr ''history''}"
    and e: "live_version db c (d_id doc) = Some e"
    and w: "write_document sha cast now c GITHUB qid fails doc pl db = Inr (db', True)"
    and e': "live_version db' c (d_id doc) = Some e'"
  shows "not_older e e'"
proof -
  from w obtain doc1 db1 doc2 where u: "admit_ordered_write cast c GITHUB qid doc db = Inr (True, doc1)"
    "upsert_document now (\<lambda>_. (id, id)) doc1 db = Inr (db1, doc2, True)" "db' = apply_chunk_plan sha now doc2 pl db1"
    by (rule write_document_True)
  have a: "admit_github c qid doc db = Inr (True, doc1)" using u(1) by (simp add: admit_ordered_write_def)
  note adm = github_admitted [OF a e]
  note r = restamped_simps [OF admit_stamps [OF u(1)]]
  have v: "versions_ok (doc_versions db)" using ok by (simp add: doc_ok_def)
  have vt: "d_valid_to doc1 = None" using r(3) d(1) by simp
  note up = upsert_result [OF v u(2) vt]
  have "live_version db1 c (d_id doc) = Some e'" using e' by (simp add: u(3) live_version_def apply_frame)
  then have ct: "dv_content e' = d_content (pop_meta GITHUB_FORCE_VERSION_KEY doc1)" "dv_deleted e' = d_deleted doc"
    using up(3,6) r d by auto
  have "dc_updated (dv_content e') = dc_updated (d_content doc)" by (simp add: ct(1) r(7))
  moreover have "operation_of (dv_content e') = operation_of (d_content doc)"
    using adm(4) stamps_keep_operation(2) by (simp add: ct(1) GITHUB_FORCE_VERSION_KEY_def)
  ultimately show ?thesis using adm(1-3) ct(2) d(4) unfolding not_older_def by force
qed

lemma not_older_trans: "not_older a b \<Longrightarrow> not_older b d \<Longrightarrow> not_older a d"
  unfolding not_older_def by auto

lemma not_older_refl [simp]: "not_older e e"
  by (simp add: not_older_def)

type_synonym gh_write = "int option \<times> document \<times> chunk_plan"

text \<open>GitHub events of a tenant, applied in any order of arrival.\<close>

fun apply_events ::
  "(codepoints \<Rightarrow> string) \<Rightarrow> (json \<Rightarrow> int option) \<Rightarrow> time \<Rightarrow> string \<Rightarrow> gh_write list \<Rightarrow> doc_db \<Rightarrow> doc_db" where
  "apply_events sha cast now c [] db = db"
| "apply_events sha cast now c ((q, doc, pl) # ws) db =
     apply_events sha cast now c ws
       (case write_document sha cast now c GITHUB q None doc pl db of Inr (db', _) \<Rightarrow> db' | Inl _ \<Rightarrow> db)"

definition gh_write_ok :: "string \<Rightarrow> gh_write \<Rightarrow> bool" where
  "gh_write_ok c w \<longleftrightarrow> (case w of (q, doc, pl) \<Rightarrow> d_customer doc = c \<and> d_valid_to doc = None \<and> \<not> d_coalesce doc
     \<and> operation_of (d_content doc) \<in> {JStr ''live'', JStr ''history''})"

text \<open>A write of another document leaves this one alone.\<close>

lemma upsert_other:
  assumes "versions_ok (doc_versions db)" "upsert_document now (\<lambda>_. (id, id)) doc db = Inr (db', doc', b)" "d_valid_to doc = None"
    and "i \<noteq> d_id doc"
  shows "live_version db' c i = live_version db c i"
proof -
  have skip: "find (live_row c i) (sql_update p f t) = find (live_row c i) t"
    if "\<And>r. p r \<Longrightarrow> dv_doc r \<noteq> i" "\<And>r. dv_doc (f r) = dv_doc r" for p f t
    using that by (induction t) (auto simp: live_row_def)
  show ?thesis
    using assms(1-3)
  proof (cases rule: upsert_cases)
    case (place e)
    then show ?thesis using assms(4) by (auto simp: live_version_def update_in_place_def live_row_def intro!: skip)
  next
    case (added dd v db0)
    have tail: "find (live_row c i) (t @ [version_of dd v]) = find (live_row c i) t" for t
      using added(3) assms(4) by (induction t) (auto simp: version_of_def live_row_def)
    consider "db0 = db" | w where "db0 = close_version now (d_customer doc) (d_id doc) w db" using added(11) by blast
    then show ?thesis
    proof cases
      case 2
      have "live_version db0 c i = live_version db c i"
        using assms(4) by (auto simp: 2 live_version_def close_version_def live_row_def intro!: skip)
      then show ?thesis by (simp add: live_version_def added(8) tail)
    qed (simp add: live_version_def added(8) tail)
  qed simp
qed

lemma github_step:
  assumes ok: "doc_ok db" and d: "gh_write_ok c (q, doc, pl)" and e: "live_version db c i = Some e"
    and w: "write_document sha cast now c GITHUB q None doc pl db = Inr (db', b)"
  shows "\<exists>e'. live_version db' c i = Some e' \<and> not_older e e'"
proof (cases b)
  case False
  have "db' = db" using write_document_False [of db doc] ok d w by (simp add: False doc_ok_def gh_write_ok_def)
  then show ?thesis using e by simp
next
  case b: True
  have dd: "d_valid_to doc = None" "d_customer doc = c" "\<not> d_coalesce doc" "operation_of (d_content doc) \<in> {JStr ''live'', JStr ''history''}"
    using d by (simp_all add: gh_write_ok_def)
  have w': "write_document sha cast now c GITHUB q None doc pl db = Inr (db', True)" using w b by simp
  show ?thesis
  proof (cases "i = d_id doc")
    case True
    obtain e' where e': "live_version db' c (d_id doc) = Some e'" using write_document_effect [OF ok dd(1,2) w'] by blast
    then show ?thesis using github_write_not_older [OF ok dd _ w' e'] e True by simp
  next
    case False
    from w' obtain doc1 db1 doc2 where u: "admit_ordered_write cast c GITHUB q doc db = Inr (True, doc1)"
      "upsert_document now (\<lambda>_. (id, id)) doc1 db = Inr (db1, doc2, True)" "db' = apply_chunk_plan sha now doc2 pl db1"
      by (rule write_document_True)
    note r = restamped_simps [OF admit_stamps [OF u(1)]]
    have "live_version db1 c i = live_version db c i"
      using upsert_other [OF _ u(2)] ok r dd(1) False by (simp add: doc_ok_def)
    then have "live_version db' c i = Some e" using e by (simp add: u(3) live_version_def apply_frame)
    then show ?thesis by simp
  qed
qed

text \<open>Claim C17. GitHub events may arrive in any order, from webhooks and from history: a document never goes back. The
  live version after any events is at least as new by provider time; at the same time, what was deleted stays deleted
  and what a live event wrote is not replaced by history.\<close>

theorem github_projection_never_goes_back:
  assumes "doc_ok db" and "\<forall>w \<in> set ws. gh_write_ok c w" and "live_version db c i = Some e"
  shows "\<exists>e'. live_version (apply_events sha cast now c ws db) c i = Some e' \<and> not_older e e'"
  using assms
proof (induction ws arbitrary: db e)
  case (Cons w ws)
  obtain q doc pl where w: "w = (q, doc, pl)" by (rule prod_cases3)
  show ?case
  proof (cases "write_document sha cast now c GITHUB q None doc pl db")
    case (Inl x)
    then show ?thesis using Cons by (simp add: w)
  next
    case (Inr out)
    then obtain db' b where out: "write_document sha cast now c GITHUB q None doc pl db = Inr (db', b)" by (cases out) auto
    have d: "gh_write_ok c (q, doc, pl)" using Cons.prems(2) w by simp
    then have "doc_ok db'" using write_document_keeps [OF Cons.prems(1) _ _ out] by (simp add: gh_write_ok_def)
    moreover obtain e1 where e1: "live_version db' c i = Some e1" "not_older e e1"
      using github_step [OF Cons.prems(1) d Cons.prems(3) out] by blast
    ultimately obtain e' where "live_version (apply_events sha cast now c ws db') c i = Some e'" "not_older e1 e'"
      using Cons.IH [of db' e1] Cons.prems(2) by auto
    then show ?thesis using not_older_trans [OF e1(2)] by (simp add: w out)
  qed
qed simp

text \<open>A deletion at time 7, then a stale body of the same time and an older history row.\<close>

definition gh_sample :: "string \<Rightarrow> time \<Rightarrow> string \<Rightarrow> time option \<Rightarrow> document" where
  "gh_sample h at_time op gone = (sample_doc h [(''_github_operation'', JStr op)] at_time)\<lparr>d_deleted := gone\<rparr>"

definition gh_db :: doc_db where
  "gh_db = empty_docs\<lparr>doc_versions := [version_of (gh_sample ''a'' 7 ''live'' (Some 7)) 1]\<rparr>"

theorem github_projection_never_goes_back_witness:
  "let ws = [(Some 3, gh_sample ''b'' 7 ''live'' None, no_plan), (Some 4, gh_sample ''c'' 5 ''history'' None, no_plan)];
       e = version_of (gh_sample ''a'' 7 ''live'' (Some 7)) 1 in
   doc_ok gh_db \<and> (\<forall>w \<in> set ws. gh_write_ok ''acme'' w) \<and> live_version gh_db ''acme'' ''page'' = Some e
   \<and> (\<exists>e'. live_version (apply_events char_digest (\<lambda>_. None) 9 ''acme'' ws gh_db) ''acme'' ''page'' = Some e' \<and> not_older e e')"
proof -
  let ?ws = "[(Some 3, gh_sample ''b'' 7 ''live'' None, no_plan), (Some 4, gh_sample ''c'' 5 ''history'' None, no_plan)]"
  have ok: "doc_ok gh_db"
    by (auto simp: doc_ok_def versions_ok_def chunks_ok_def gh_db_def empty_docs_def gh_sample_def version_of_def sample_doc_def ver_key_def
        LIVE_CHUNK_LAST_SEEN_def)
  have ws: "\<forall>w \<in> set ?ws. gh_write_ok ''acme'' w"
    by (simp add: gh_write_ok_def gh_sample_def sample_doc_def sample_content_def operation_of_def meta_get_def)
  have e: "live_version gh_db ''acme'' ''page'' = Some (version_of (gh_sample ''a'' 7 ''live'' (Some 7)) 1)"
    by (simp add: live_version_def gh_db_def live_row_def version_of_def gh_sample_def sample_doc_def)
  show ?thesis
    using github_projection_never_goes_back [OF ok ws e, of char_digest "\<lambda>_. None" 9] ok ws e by (simp only: Let_def)
qed

subsection \<open>A failing document\<close>

fun survivors :: "(nat \<Rightarrow> (bool \<times> doc_exc) option) \<Rightarrow> nat \<Rightarrow> (document \<times> chunk_plan) list \<Rightarrow> (document \<times> chunk_plan) list" where
  "survivors fails n [] = []"
| "survivors fails n (dp # dps) = (if fails n = None then dp # survivors fails (n + 1) dps else survivors fails (n + 1) dps)"

definition permanent_only :: "(nat \<Rightarrow> (bool \<times> doc_exc) option) \<Rightarrow> bool" where
  "permanent_only fails \<longleftrightarrow> (\<forall>n late x. fails n = Some (late, x) \<longrightarrow> (\<exists>msg. x = Prbe False msg))"

lemma failing_write: "\<exists>b x. write_document sha cast now c s qid (Some lx) doc pl db = Inl (b, x)"
  by (cases lx) (auto simp: write_document_def split: sum.splits bool.splits)

lemma quarantine_run:
  assumes perm: "permanent_only fails"
    and "persist_docs sha cast now c s qid fails n dps po db = Inr (db', po')" and "po_applied poB = po_applied po"
  shows "\<exists>poB'. persist_docs sha cast now c s qid (\<lambda>_. None) m (survivors fails n dps) poB db = Inr (db', poB') \<and> po_applied poB' = po_applied po'"
  using assms(2,3)
proof (induction dps arbitrary: n m po poB db)
  case (Cons dp dps)
  obtain doc pl where dp: "dp = (doc, pl)" by (rule prod.exhaust)
  show ?case
  proof (cases "fails n")
    case None
    show ?thesis
    proof (cases "write_document sha cast now c s qid None doc pl db")
      case (Inl bx)
      obtain b x where bx: "bx = (b, x)" by (rule prod.exhaust)
      obtain msg where x: "x = Prbe False msg" using Cons.prems(1) None Inl bx by (cases x rule: doc_exc.exhaust) (auto simp: dp split: bool.splits)
      have run: "persist_docs sha cast now c s qid fails (n + 1) dps
          (po\<lparr>po_ids := po_ids po @ (if b then [d_id doc] else []), po_quarantined := po_quarantined po @ [d_id doc]\<rparr>) db = Inr (db', po')"
        using Cons.prems(1) by (simp add: dp None Inl bx x)
      show ?thesis using Cons.IH [OF run] Cons.prems(2) by (simp add: dp None Inl bx x)
    next
      case (Inr out)
      obtain d b where out: "out = (d, b)" by (rule prod.exhaust)
      have run: "persist_docs sha cast now c s qid fails (n + 1) dps
          (if b then po\<lparr>po_ids := po_ids po @ [d_id doc], po_applied := po_applied po @ [pl]\<rparr> else po) d = Inr (db', po')"
        using Cons.prems(1) by (simp add: dp None Inr out)
      show ?thesis using Cons.IH [OF run] Cons.prems(2) by (simp add: dp None Inr out)
    qed
  next
    case (Some lx)
    obtain b x where w: "write_document sha cast now c s qid (fails n) doc pl db = Inl (b, x)"
      unfolding Some using failing_write by blast
    obtain msg' where x: "x = Prbe False msg'" using Cons.prems(1) w by (cases x rule: doc_exc.exhaust) (auto simp: dp split: bool.splits)
    have run: "persist_docs sha cast now c s qid fails (n + 1) dps
          (po\<lparr>po_ids := po_ids po @ (if b then [d_id doc] else []), po_quarantined := po_quarantined po @ [d_id doc]\<rparr>) db = Inr (db', po')"
      using Cons.prems(1) by (simp add: dp w x)
    show ?thesis using Cons.IH [OF run] Cons.prems(2) Some by (simp add: dp)
  qed
qed simp


definition first_fails :: "nat \<Rightarrow> (bool \<times> doc_exc) option" where
  "first_fails n = (if n = 0 then Some (True, Prbe False ''malformed'') else None)"

definition bad_doc :: document where
  "bad_doc = (sample_doc ''x'' [] 2)\<lparr>d_id := ''other''\<rparr>"

lemma bad_write:
  "write_document char_digest (\<lambda>_. None) 2 ''acme'' NOTION None (first_fails 0) bad_doc no_plan one_chunk = Inl (True, Prbe False ''malformed'')"
  by (simp add: write_document_def admit_ordered_write_def upsert_document_def upsert_attempt_def UPSERT_DOC_MAX_RETRIES_def upt_rec
      bad_doc_def first_fails_def sample_doc_def sample_content_def one_chunk_def one_version_def empty_docs_def version_of_def live_version_def
      live_row_def meta_get_def pop_meta_def insert_version_def has_version_def max_version_def LIVE_CHUNK_LAST_SEEN_def Let_def)


subsection \<open>A whole pass\<close>

lemma scrub_keeps [simp]:
  "d_customer (scrub_fields pv doc) = d_customer doc" "d_id (scrub_fields pv doc) = d_id doc"
  "d_valid_to (scrub_fields pv doc) = d_valid_to doc"
  by (simp_all add: scrub_fields_def Let_def)

lemma plan_pieces_keeps:
  assumes "plan_pieces pv pre doc = Inr (doc', ps, m)"
  shows "d_customer doc' = d_customer doc \<and> d_id doc' = d_id doc \<and> d_valid_to doc' = d_valid_to doc"
  using assms unfolding plan_pieces_def Let_def
  by (auto split: sum.splits prod.splits if_splits)

lemma plan_all_keeps:
  assumes "plan_all pv db dpre = Inr dps" and "(doc, pl) \<in> set dps"
  shows "\<exists>doc0 pre. (doc0, pre) \<in> set dpre \<and> d_customer doc = d_customer doc0 \<and> d_id doc = d_id doc0 \<and> d_valid_to doc = d_valid_to doc0"
  using assms
proof (induction pv db dpre arbitrary: dps rule: plan_all.induct)
  case (2 pv db d pre rest)
  then obtain dp dps' where p: "plan_chunks pv pre db d = Inr dp" "plan_all pv db rest = Inr dps'" "dps = dp # dps'"
    by (auto split: sum.splits)
  show ?case
  proof (cases "(doc, pl) = dp")
    case True
    then show ?thesis using p(1) plan_pieces_keeps by (fastforce simp: plan_chunks_def split: sum.splits)
  next
    case False
    then have "(doc, pl) \<in> set dps'" using "2.prems"(2) p(3) by auto
    then show ?thesis using "2.IH" [OF p(1,2)] by (meson list.set_intros(2))
  qed
qed simp

lemma persist_docs_keeps:
  assumes "doc_ok db" and "\<And>doc pl. (doc, pl) \<in> set dps \<Longrightarrow> d_valid_to doc = None \<and> d_customer doc = c"
    and "persist_docs sha cast now c s qid fails n dps po db = Inr (db', po')"
  shows "doc_ok db'"
  using assms
proof (induction dps arbitrary: n po db)
  case (Cons dp dps)
  obtain doc pl where dp: "dp = (doc, pl)" by (rule prod.exhaust)
  show ?case
  proof (cases "write_document sha cast now c s qid (fails n) doc pl db")
    case (Inl bx)
    obtain b x where bx: "bx = (b, x)" by (rule prod.exhaust)
    obtain msg where x: "x = Prbe False msg" using Cons.prems(3) Inl bx by (cases x rule: doc_exc.exhaust) (auto simp: dp split: bool.splits)
    have run: "persist_docs sha cast now c s qid fails (n + 1) dps
          (po\<lparr>po_ids := po_ids po @ (if b then [d_id doc] else []), po_quarantined := po_quarantined po @ [d_id doc]\<rparr>) db = Inr (db', po')"
      using Cons.prems(3) by (simp add: dp Inl bx x)
    show ?thesis by (rule Cons.IH [OF Cons.prems(1) _ run]) (use Cons.prems(2) in auto)
  next
    case (Inr out)
    obtain d b where out: "out = (d, b)" by (rule prod.exhaust)
    have "doc_ok d" using write_document_keeps [OF Cons.prems(1) _ _ Inr [unfolded out]] Cons.prems(2) [of doc pl] by (simp add: dp)
    then show ?thesis using Cons.IH [of d] Cons.prems(2,3) by (auto simp: dp Inr out split: if_splits)
  qed
qed simp

text \<open>Only the tables of versions and chunks matter.\<close>

lemma doc_ok_frame: "doc_versions db' = doc_versions db \<Longrightarrow> doc_chunks db' = doc_chunks db \<Longrightarrow> doc_ok db' = doc_ok db"
  by (simp add: doc_ok_def chunks_ok_def max_version_def)

lemma acl_frame: "doc_versions (fold insert_acl_snapshot as db) = doc_versions db \<and> doc_chunks (fold insert_acl_snapshot as db) = doc_chunks db"
  by (induction as arbitrary: db) (simp_all add: insert_acl_snapshot_def)

lemma repo_frame: "doc_versions (fold upsert_code_repo_state rs db) = doc_versions db \<and> doc_chunks (fold upsert_code_repo_state rs db) = doc_chunks db"
  by (induction rs arbitrary: db) (simp_all add: upsert_code_repo_state_def Let_def)

lemma bind_frame:
  "bind_documents c qs docs db = Inr db' \<Longrightarrow> doc_versions db' = doc_versions db \<and> doc_chunks db' = doc_chunks db"
proof (induction docs arbitrary: db)
  case (Cons d docs)
  have "bind_document c d db = Inr db1 \<Longrightarrow> doc_versions db1 = doc_versions db \<and> doc_chunks db1 = doc_chunks db" for db1
    by (auto simp: bind_document_def Let_def split: option.splits if_splits)
  then show ?case using Cons by (auto split: if_splits sum.splits)
qed simp

lemma anchor_frame:
  "doc_versions (fold (enqueue_anchor ext c) ids db) = doc_versions db \<and> doc_chunks (fold (enqueue_anchor ext c) ids db) = doc_chunks db"
  by (induction ids arbitrary: db) (simp_all add: enqueue_anchor_def)

lemma write_phase_keeps:
  assumes "doc_ok db" and "\<And>doc pl. (doc, pl) \<in> set dps \<Longrightarrow> d_valid_to doc = None \<and> d_customer doc = c"
    and "write_phase px now c s qid leased r dps db = Inr (db', po)"
  shows "doc_ok db'"
proof -
  let ?start = "fold upsert_code_repo_state (nr_repo r) (fold insert_acl_snapshot (nr_acl r) db)"
  have start: "doc_ok ?start" using assms(1) acl_frame repo_frame doc_ok_frame by metis
  from assms(3) obtain db1 g where p: "persist_docs (pv_sha (px_plan px)) (px_cast px) now c s qid (px_fails px) 0 dps
      \<lparr>po_ids = [], po_quarantined = [], po_applied = []\<rparr> ?start = Inr (db1, po)"
    and b: "(if leased then bind_documents c (po_quarantined po) (map fst dps) (db1\<lparr>doc_graph := g\<rparr>) else Inr (db1\<lparr>doc_graph := g\<rparr>)) = Inr db'"
    unfolding write_phase_def by (auto split: if_splits option.splits sum.splits)
  have "doc_ok db1" by (rule persist_docs_keeps [OF start assms(2) p])
  then have ok1: "doc_ok (db1\<lparr>doc_graph := g\<rparr>)" using doc_ok_frame [of "db1\<lparr>doc_graph := g\<rparr>" db1] by simp
  have "doc_versions db' = doc_versions (db1\<lparr>doc_graph := g\<rparr>) \<and> doc_chunks db' = doc_chunks (db1\<lparr>doc_graph := g\<rparr>)"
    using b bind_frame by (cases leased) auto
  then show ?thesis using ok1 doc_ok_frame by blast
qed

lemma retire_children_ok: "doc_ok db \<Longrightarrow> doc_ok (retire_orphaned_children now c parents kept db)"
proof -
  assume ok: "doc_ok db"
  have g: "grows db (retire_orphaned_children now c parents kept db)"
    by (rule retire_children_grows) (use ok in \<open>simp add: doc_ok_def\<close>)
  have "chunks_ok (retire_orphaned_children now c parents kept db)"
    by (rule grows_chunks_ok [OF _ _ g]) (use ok in \<open>simp_all add: doc_ok_def retire_orphaned_children_def\<close>)
  then show ?thesis using growsD(1) [OF g] by (simp add: doc_ok_def)
qed

lemma persist_ok:
  assumes "doc_ok db" and "doc_ok (px_between px db)"
    and "\<forall>dp \<in> set (flatten_docs r). d_valid_to (fst dp) = None \<and> d_customer (fst dp) = c"
  shows "doc_ok (fst (persist px ext now c s qid leased r db))"
proof -
  have step: "doc_ok (let kept = K; db2 = (if A then retire_orphaned_children now c (nr_retire r) kept db1 else db1);
       ids = I; db3 = (if B then fold (enqueue_anchor ext c) ids db2 else db2) in db3)" if "doc_ok db1" for db1 K A B I
  proof -
    let ?db2 = "if A then retire_orphaned_children now c (nr_retire r) K db1 else db1"
    have "doc_ok ?db2" using that retire_children_ok by simp
    then have "doc_ok (if B then fold (enqueue_anchor ext c) I ?db2 else ?db2)"
      using anchor_frame [of ext c I ?db2] doc_ok_frame [of "fold (enqueue_anchor ext c) I ?db2" ?db2] by (cases B) simp_all
    then show ?thesis by (simp only: Let_def)
  qed
  show ?thesis
  proof (cases "\<not> list_all storage_guard (flatten_docs r) \<or> (\<exists>x. plan_all (px_plan px) db (flatten_docs r) = Inl x)")
    case True
    then show ?thesis using assms(1) by (auto simp: persist_def Let_def)
  next
    case False
    then have guard: "list_all storage_guard (flatten_docs r)" by simp
    obtain dps where dps: "plan_all (px_plan px) db (flatten_docs r) = Inr dps"
      using False by (cases "plan_all (px_plan px) db (flatten_docs r)") auto
    have docs: "d_valid_to doc = None \<and> d_customer doc = c" if "(doc, pl) \<in> set dps" for doc pl
      using plan_all_keeps [OF dps that] assms(3) by force
    let ?held = "leased \<and> (\<exists>dp \<in> set dps. pl_failed (snd dp) \<noteq> [])"
    show ?thesis
    proof (cases ?held)
      case True
      then show ?thesis unfolding persist_def Let_def dps sum.case if_P [OF True] using guard assms(1) by simp
    next
      case go: False
      show ?thesis
      proof (cases "write_phase px now c s qid leased r dps (px_between px db)")
        case (Inl x)
        then show ?thesis unfolding persist_def Let_def dps sum.case if_not_P [OF go] using guard assms(2) by simp
      next
        case (Inr out)
        obtain db1 po where out: "out = (db1, po)" by (rule prod.exhaust)
        have "doc_ok db1" by (rule write_phase_keeps [OF assms(2) docs Inr [unfolded out]])
        then show ?thesis
          unfolding persist_def Let_def dps sum.case if_not_P [OF go] Inr out prod.case using guard step [of db1, unfolded Let_def] by simp
      qed
    qed
  qed
qed

subsection \<open>A batch of passes\<close>

lemma plan_items_keeps:
  assumes "plan_items pv db items = Inr planned" and "(r, qid, dps) \<in> set planned"
  shows "(r, qid) \<in> set items \<and> plan_all pv db (flatten_docs r) = Inr dps"
  using assms
proof (induction pv db items arbitrary: planned rule: plan_items.induct)
  case (2 pv db r0 q0 items)
  then obtain dps0 rest where p: "plan_all pv db (flatten_docs r0) = Inr dps0" "plan_items pv db items = Inr rest"
    "planned = (r0, q0, dps0) # rest" by (auto split: sum.splits)
  then show ?case using "2.IH" [OF p(1,2)] "2.prems"(2) by auto
qed simp

lemma write_items_keeps:
  assumes "doc_ok db"
    and "\<And>r qid dps doc pl. (r, qid, dps) \<in> set items \<Longrightarrow> (doc, pl) \<in> set dps \<Longrightarrow> d_valid_to doc = None \<and> d_customer doc = c"
    and "write_items px admits now c s n items db = Inr (db', pos)"
  shows "doc_ok db'"
  using assms
proof (induction items arbitrary: n db pos)
  case (Cons it items)
  obtain r qid dps where it: "it = (r, qid, dps)" by (rule prod_cases3)
  have items: "d_valid_to doc = None \<and> d_customer doc = c" if "(r, qid, dps) \<in> set items" "(doc, pl) \<in> set dps" for r qid dps doc pl
    using Cons.prems(2) [of r qid dps doc pl] that by simp
  show ?case
  proof (cases "s = GITHUB \<and> (case qid of None \<Rightarrow> False | Some q \<Rightarrow> \<not> admits q)")
    case True
    then obtain pos' where "write_items px admits now c s n items db = Inr (db', pos')"
      using Cons.prems(3) by (auto simp: it Let_def split: sum.splits)
    then show ?thesis by (rule Cons.IH [OF Cons.prems(1), rotated]) (rule items)
  next
    case False
    let ?start = "fold upsert_code_repo_state (nr_repo r) (fold insert_acl_snapshot (nr_acl r) db)"
    have start: "doc_ok ?start" using Cons.prems(1) acl_frame repo_frame doc_ok_frame by metis
    from Cons.prems(3) False obtain db1 po pos' where p: "persist_docs (pv_sha (px_plan px)) (px_cast px) now c s qid (px_fails px) n dps
        \<lparr>po_ids = [], po_quarantined = [], po_applied = []\<rparr> ?start = Inr (db1, po)"
      and w: "write_items px admits now c s (n + length dps) items db1 = Inr (db', pos')"
      unfolding it write_items.simps Let_def if_not_P [OF False] by (auto split: sum.splits)
    have here: "d_valid_to doc = None \<and> d_customer doc = c" if "(doc, pl) \<in> set dps" for doc pl
      using Cons.prems(2) [of r qid dps doc pl] that it by simp
    have "doc_ok db1" by (rule persist_docs_keeps [OF start here p])
    then show ?thesis by (rule Cons.IH [OF _ _ w]) (rule items)
  qed
qed simp

lemma after_commit_ok: "doc_ok db \<Longrightarrow> doc_ok (after_commit px ext now c s r po db)"
proof -
  assume ok: "doc_ok db"
  let ?db1 = "if nr_retire r \<noteq> [] \<and> \<not> px_retire_fails px
    then retire_orphaned_children now c (nr_retire r) (set (map d_id (nr_docs r)) \<union> set (map (d_id \<circ> fst) (nr_prechunked r))) db else db"
  have "doc_ok ?db1" using ok retire_children_ok by simp
  then have "doc_ok (if B then fold (enqueue_anchor ext c) ids ?db1 else ?db1)" for B ids
    using anchor_frame [of ext c ids ?db1] doc_ok_frame [of "fold (enqueue_anchor ext c) ids ?db1" ?db1] by (cases B) simp_all
  then show ?thesis by (simp only: after_commit_def Let_def)
qed

lemma persist_batch_ok:
  assumes "doc_ok db" and "doc_ok (px_between px db)"
    and docs: "\<forall>(r, q) \<in> set items. \<forall>dp \<in> set (flatten_docs r). d_valid_to (fst dp) = None \<and> d_customer (fst dp) = c"
  shows "doc_ok (fst (persist_batch px admits ext now c s items db))"
proof -
  have many: "doc_ok (fst (case plan_items (px_plan px) db items of
              Inl x \<Rightarrow> (db, Inl x)
            | Inr planned \<Rightarrow>
                let d = px_between px db in
                case write_batch px admits now c s planned d of
                  Inl x \<Rightarrow> (d, Inl x)
                | Inr (db1, pos) \<Rightarrow>
                    (fold (\<lambda>(r, po). after_commit px ext now c s r po) (zip (map fst items) pos) db1, Inr (map outcome_of pos))))"
  proof (cases "plan_items (px_plan px) db items")
    case (Inr planned)
    have ok: "d_valid_to doc = None \<and> d_customer doc = c" if "(r, qid, dps) \<in> set planned" "(doc, pl) \<in> set dps" for r qid dps doc pl
      using plan_items_keeps [OF Inr that(1)] plan_all_keeps [OF _ that(2)] docs by fastforce
    show ?thesis
    proof (cases "write_batch px admits now c s planned (px_between px db)")
      case out: (Inr o1)
      obtain db1 pos where o1: "o1 = (db1, pos)" by (rule prod.exhaust)
      obtain db0 g where w: "write_items px admits now c s 0 planned (px_between px db) = Inr (db0, pos)" "db1 = db0\<lparr>doc_graph := g\<rparr>"
        using out unfolding o1 write_batch_def by (auto split: if_splits sum.splits)
      have "doc_ok db1" using write_items_keeps [OF assms(2) ok w(1)] doc_ok_frame [of db1 db0] w(2) by simp
      then have "doc_ok (fold (\<lambda>(r, po). after_commit px ext now c s r po) rps db1)" for rps
        by (induction rps arbitrary: db1) (auto simp: after_commit_ok)
      then show ?thesis by (simp add: Inr out o1 Let_def)
    qed (simp add: Inr assms(2) Let_def)
  qed (simp add: assms(1))
  show ?thesis
  proof (cases items)
    case (Cons it rest)
    show ?thesis
    proof (cases rest)
      case Nil
      obtain r qid where it: "it = (r, qid)" by (rule prod.exhaust)
      have "doc_ok (fst (persist px ext now c s qid False r db))" by (rule persist_ok [OF assms(1,2)]) (use docs Cons it in auto)
      then show ?thesis unfolding persist_batch_def \<open>items = it # rest\<close> Nil it list.case prod.case by (auto split: prod.splits sum.splits)
    next
      case (Cons it2 rest2)
      obtain r qid where it: "it = (r, qid)" by (rule prod.exhaust)
      have i: "items = (r, qid) # it2 # rest2" using \<open>items = it # rest\<close> Cons it by simp
      show ?thesis
      proof (cases "list_all (\<lambda>(r, q). list_all storage_guard (flatten_docs r)) ((r, qid) # it2 # rest2)")
        case True
        then show ?thesis unfolding persist_batch_def i list.case prod.case using many [unfolded i] by (simp only: not_True_eq_False if_False)
      next
        case False
        then show ?thesis unfolding persist_batch_def i list.case prod.case using assms(1) by (simp only: not_False_eq_True if_True fst_conv)
      qed
    qed
  qed (simp add: persist_batch_def assms(1))
qed


definition sample_persist :: "nat persist_env" where
  "sample_persist = \<lparr>px_plan = sample_env, px_cast = (\<lambda>_. None), px_refused = False, px_admitted = True, px_fails = first_fails,
     px_between = upsert_txn 2 (sample_doc ''z'' [] 2), px_retire_fails = False, px_enqueue_fails = False\<rparr>"

definition sample_result :: norm_result where
  "sample_result = \<lparr>nr_docs = [bad_doc, sample_doc ''b'' [] 2], nr_prechunked = [], nr_nodes = [], nr_edges = [], nr_acl = [], nr_repo = [],
     nr_retire = [''page'']\<rparr>"


end
