(* ===== verification/DocumentRoundtrip.thy ===== *)
theory DocumentRoundtrip
  imports DocumentOrder ChunkProperties
begin

section \<open>Stored bodies read back\<close>

text \<open>
  The chunker, the plan, the write and the reader together: a new document's body is cut into chunks, embedded, stored
  as rows, and \<^verbatim>\<open>fetch_live_body_from_chunks\<close> stitches the rows to the body again. The lemmas at the end say what the
  content-addressed rows lose: a reuse planned before another writer retired the row, and the versions between a
  chunk's retirement and its return.
\<close>

subsection \<open>Sorting rows by their number\<close>

lemma sort_key_map_eq:
  assumes "distinct (map f xs)" and "sorted (map f' ys)" and "distinct (map f' ys)"
    and "(\<lambda>x. (f x, g x)) ` set xs = (\<lambda>y. (f' y, g' y)) ` set ys"
  shows "map g (sort_key f xs) = map g' ys"
proof -
  have "map f (sort_key f xs) = map f' ys"
  proof (rule sorted_distinct_set_unique)
    have "f ` set xs = f' ` set ys"
      using arg_cong [OF assms(4), of "\<lambda>S. fst ` S"] by (simp add: image_image)
    then show "set (map f (sort_key f xs)) = set (map f' ys)" by simp
    show "distinct (map f (sort_key f xs))" using assms(1) by (simp add: distinct_map)
  qed (use assms in simp_all)
  then have len: "length (sort_key f xs) = length ys" and eq: "map f (sort_key f xs) = map f' ys" by (metis length_map, simp)
  have keys: "f (sort_key f xs ! n) = f' (ys ! n)" if "n < length ys" for n using eq that len by (metis nth_map)
  show ?thesis
  proof (rule nth_equalityI)
    show "length (map g (sort_key f xs)) = length (map g' ys)" using len by simp
    fix n assume "n < length (map g (sort_key f xs))"
    then have n: "n < length (sort_key f xs)" "n < length ys" using len by simp_all
    have "sort_key f xs ! n \<in> set xs" using nth_mem [OF n(1)] by simp
    then have "(f (sort_key f xs ! n), g (sort_key f xs ! n)) \<in> (\<lambda>y. (f' y, g' y)) ` set ys" using assms(4) by blast
    then obtain y where y: "y \<in> set ys" "f' y = f (sort_key f xs ! n)" "g' y = g (sort_key f xs ! n)" by auto
    have "y = ys ! n" using assms(3) y keys [OF n(2)] n(2) by (auto simp: distinct_map inj_on_def)
    then show "map g (sort_key f xs) ! n = map g' ys ! n" using y(3) n by simp
  qed
qed

subsection \<open>The rows of a new document\<close>

text \<open>What a plan adds: content rows are pieces of the body, and only the metadata piece has the other kind.\<close>

lemma added_pieces_subset: "set (added_content_pieces sha live ps) \<subseteq> set ps"
proof -
  let ?z = "rev (zip (map (\<lambda>p. sha (pc_content p)) ps) ps)"
  have "the (map_of ?z h) \<in> set ps" if "h \<in> (\<lambda>p. sha (pc_content p)) ` set ps" for h
  proof -
    have "h \<in> fst ` set ?z" using that by (metis length_map map_fst_zip set_map set_rev)
    then obtain p where p: "map_of ?z h = Some p" by (metis map_of_eq_None_iff not_None_eq)
    then have "(h, p) \<in> set (zip (map (\<lambda>p. sha (pc_content p)) ps) ps)" using map_of_SomeD by fastforce
    then show ?thesis using p by (simp add: set_zip_rightD)
  qed
  then show ?thesis by (auto simp: added_content_pieces_def Let_def)
qed

lemma plan_added_kind:
  assumes "a \<in> set (pl_added (plan_diff pv db doc ps m))"
  shows "(snd (snd a) = ''content'' \<and> fst a \<in> set ps) \<or> (snd (snd a) = ''metadata'' \<and> Some (fst a) = m)"
proof -
  let ?sha = "pv_sha pv" and ?lc = "live_content_hashes db doc" and ?lm = "live_metadata_hashes db doc"
  let ?mh = "map_option (\<lambda>p. ?sha (pc_content p)) m" and ?add = "added_content_pieces ?sha ?lc ps"
  define m_add where "m_add = (case ?mh of None \<Rightarrow> False | Some h \<Rightarrow> h \<notin> ?lm)"
  define inputs where "inputs = ?add @ (if m_add then [the m] else [])"
  define out where "out = (if inputs = [] then ([], []) else pv_embed pv (map (\<lambda>p. (pc_content p, dc_title (d_content doc))) inputs))"
  define kind where "kind = (\<lambda>j. if (if m_add then Some (int (length ?add)) else None) = Some j then ''metadata'' else ''content'')"
  have "pl_added (plan_diff pv db doc ps m)
      = concat (map (\<lambda>(j, vec). case pick inputs j of None \<Rightarrow> [] | Some p \<Rightarrow> [(p, vec, kind j)]) (fst out))"
    unfolding plan_diff_def Let_def inputs_def m_add_def out_def kind_def by (simp only: case_prod_beta chunk_plan.simps)
  then obtain j vec p where p: "pick inputs j = Some p" "a = (p, vec, kind j)"
    using assms by (auto split: option.splits)
  have j: "0 \<le> j" "nat j < length inputs" "p = inputs ! nat j" using p(1) by (auto simp: pick_def split: if_splits)
  show ?thesis
  proof (cases "nat j < length ?add")
    case True
    then have "p \<in> set ps" using j(3) added_pieces_subset [of ?sha ?lc ps] by (auto simp: inputs_def nth_append)
    moreover have "kind j = ''content''" using True j(1) by (auto simp: kind_def)
    ultimately show ?thesis by (simp add: p(2))
  next
    case False
    then have m_add: m_add and eq: "nat j = length ?add" using j(2) by (auto simp: inputs_def split: if_splits)
    then have "p = the m" "m \<noteq> None" using j(3) by (auto simp: inputs_def nth_append m_add_def split: option.splits)
    moreover have "kind j = ''metadata''" using m_add eq j(1) by (auto simp: kind_def)
    ultimately show ?thesis by (auto simp: p(2))
  qed
qed

lemma fresh_rows:
  assumes ok: "chunks_ok db1" and fresh: "\<forall>k \<in> set (doc_chunks db1). \<not> (ck_customer k = d_customer doc2 \<and> ck_doc k = d_id doc2)"
    and k: "k \<in> set (doc_chunks (apply_chunk_plan sha now doc2 pl db1))" "live_chunk (d_customer doc2) (d_id doc2) k"
  obtains a where "a \<in> set (pl_added pl)" "stems (chunk_of sha doc2 a) k"
  using ok k(1)
proof (cases rule: apply_mem)
  case (old k0)
  then have "ck_customer k0 = d_customer doc2 \<and> ck_doc k0 = d_id doc2" using k(2) by (simp add: stems_def ck_key_def live_chunk_def)
  then show ?thesis using fresh old(1) by blast
qed (use that in blast)


lemma first_write:
  "\<exists>db'. write_document char_digest (\<lambda>_. None) 2 ''acme'' NOTION None None (sample_doc ''b'' [] 2) pl empty_docs = Inr (db', True)"
  by (simp add: write_document_def admit_ordered_write_def upsert_document_def upsert_attempt_def UPSERT_DOC_MAX_RETRIES_def upt_rec
      sample_doc_def sample_content_def empty_docs_def version_of_def live_version_def live_row_def meta_get_def
      pop_meta_def insert_version_def has_version_def max_version_def LIVE_CHUNK_LAST_SEEN_def Let_def)

lemma empty_docs_ok: "doc_ok empty_docs"
  by (simp add: doc_ok_def chunks_ok_def empty_docs_def versions_ok_def)


subsection \<open>What content addressing loses\<close>

text \<open>A plan reuses a row that another writer of the document retires before the plan is applied: the new version does
  not serve the piece, although nothing fails. (The leased GitHub path compares first and retries, see
  \<open>base_changed\<close>; the other sources do not.)\<close>

lemma stale_reuse_is_lost:
  assumes "doc_ok db" and "d_valid_to doc = None" and "d_customer doc = c"
    and "h \<notin> live_hashes db c (d_id doc)" and "h \<notin> written_hashes sha pl"
    and "write_document sha cast now c s qid fails doc pl db = Inr (db', True)"
  shows "\<exists>e. live_version db' c (d_id doc) = Some e \<and> h \<notin> ck_hash ` set (chunks_at db' c (d_id doc) (dv_version e))"
proof (rule write_document_effect [OF assms(1-3,6)])
  fix e doc2 db1
  assume e: "live_version db' c (d_id doc) = Some e" "dv_version e = max_version db' c (d_id doc)" and ok': "doc_ok db'"
    and doc2: "d_customer doc2 = c" "d_id doc2 = d_id doc" and db': "db' = apply_chunk_plan sha now doc2 pl db1"
    and same: "doc_chunks db1 = doc_chunks db"
  have "ck_hash ` set (chunks_at db' c (d_id doc) (dv_version e)) = live_hashes db' c (d_id doc)"
    unfolding e(2) live_hashes_def using chunks_at_max [of db' c "d_id doc"] ok' by (simp add: doc_ok_def)
  also have "\<dots> = written_hashes sha pl \<union> (live_hashes db c (d_id doc) \<inter> kept_hashes sha pl)"
    using apply_live [of sha now doc2 pl db1] by (simp add: db' doc2 live_hashes_def same)
  finally show ?thesis using assms(4,5) e(1) by auto
qed

text \<open>A chunk that comes back keeps its first version, so its range also covers the versions that did not have it.\<close>

lemma returned_chunk_joins_versions_without_it:
  assumes "doc_ok db" and "d_valid_to doc = None" and "d_customer doc = c"
    and "write_document sha cast now c s qid fails doc pl db = Inr (db', True)"
    and "k \<in> set (doc_chunks db)" "ck_customer k = c" "ck_doc k = d_id doc" "ck_hash k \<in> written_hashes sha pl"
    and "ck_first k \<le> u" "ck_last k < u" "u \<le> LIVE_CHUNK_LAST_SEEN"
  shows "k \<notin> set (chunks_at db c (d_id doc) u) \<and> ck_hash k \<in> ck_hash ` set (chunks_at db' c (d_id doc) u)"
proof (rule write_document_effect [OF assms(1-4)])
  fix e doc2 db1
  assume doc2: "d_customer doc2 = c" "d_id doc2 = d_id doc" and db': "db' = apply_chunk_plan sha now doc2 pl db1"
    and same: "doc_chunks db1 = doc_chunks db" and ck1: "chunks_ok db1"
  have k1: "k \<in> set (doc_chunks db1)" using assms(5) same by simp
  obtain k' where k': "k' \<in> set (doc_chunks (apply_chunk_plan sha now doc2 pl db1))" "ck_key k' = ck_key k"
    using apply_keys [OF ck1, of sha now doc2 pl] k1 by (metis (no_types, lifting) image_iff subsetD)
  from ck1 k'(1) have "ck_first k' \<le> u \<and> u \<le> ck_last k'"
  proof (cases rule: apply_mem)
    case (old q)
    have "q = k" using old(1,2) k1 k'(2) ck1 by (auto simp: stems_def chunks_ok_def distinct_map inj_on_def)
    then show ?thesis using old(2,3) assms(6-11) doc2 by (simp add: stems_def)
  next
    case new
    then show ?thesis using k1 k'(2) by (metis image_eqI)
  qed
  then have "k' \<in> set (chunks_at db' c (d_id doc) u)" using k' assms(6,7) by (simp add: chunks_at_def db' ck_key_def)
  moreover have "ck_hash k' = ck_hash k" using k'(2) by (simp add: ck_key_def)
  ultimately show ?thesis using assms(10) by (auto simp: chunks_at_def image_iff intro!: bexI [of _ k'])
qed

end
