(* ===== verification/Spec2Isabelle.thy ===== *)
theory Spec2Isabelle
  imports WorkerProperties ReceiptProperties CompleterProperties PollingProperties TrajectoryProperties ChunkProperties DeletionRouteProperties DeletionDoors PostWrite
    ClusterUndo PurgeProperties DocumentRoundtrip
begin

text \<open>
  A verification development for the knowledge service: its ingestion core (how captured data
  arrives, is queued, worked, versioned, chunked, linked into a graph, merged, ended, deleted and purged) and
  the read paths that cut stored data into pages and chunks.

  \<^bold>\<open>The program.\<close> Producers put raw payloads into an object store and name them on rows of the table
  \<^verbatim>\<open>ingestion_queue\<close>: webhooks and uploads (\<^verbatim>\<open>kb/ingestion_app.py\<close>), the capture door of
  coding-agent sessions (\<^verbatim>\<open>kb/session_receipts.py\<close>), custom documents, the code graph, and pollers
  (\<^verbatim>\<open>kb/polling\<close>). Workers (\<^verbatim>\<open>engine/ingest/worker.py\<close>) claim rows, normalize the payloads into
  documents, chunks and graph rows (\<^verbatim>\<open>engine/ingest/normalizer.py\<close>, \<^verbatim>\<open>graph_writer.py\<close>), and finish the row with a
  compare-and-set on its version. A post-write worker follows up on new nodes; operators merge entities that are the same
  (\<^verbatim>\<open>entity_clusters_routes.py\<close>) and purge a disconnected source (\<^verbatim>\<open>purge.py\<close>). Cron jobs
  repair: they reclaim rows of dead workers, replay dead letters, and end sessions nobody ended
  (\<^verbatim>\<open>kb/session_completer.py\<close>). A deletion (\<^verbatim>\<open>kb/session_deletion.py\<close>) removes one session from every
  table and from the store while the others go on. Readers page stored trajectories and stitch chunks.

  \<^bold>\<open>Representation.\<close> A table is the list of its rows, a row a \<^theory_text>\<open>record\<close>, one definition per SQL
  statement with its WHERE clause as guard and its ON CONFLICT branch; a transaction is a function on the
  record of the tables. The records extend one another (\<open>sup_db\<close>, \<open>stream_db\<close>, \<open>worker_db\<close>,
  \<open>erase_db\<close>), so a statement of an early theory runs on the state of a later one. Times are integers
  and \<open>now\<close> an argument. An exception is \<open>Inl\<close> or None. Code outside the repository (the
  object store, JSON printing, digests, the tokenizer, language models, HTTP sources) is an argument: which
  of its calls fail, and what they return. Concurrency is interleaving of transactions: between two
  statements that are not in one transaction, an arbitrary function, or any step of a relation, may run.

  \<^bold>\<open>Theories and what they model.\<close>
  \<^item> \<open>Prelude\<close>: strings, slices, the SQL statement shapes, keyed rows. \<open>Json\<close>: values of
    \<^verbatim>\<open>json.loads\<close>.
  \<^item> \<open>Sources\<close>: \<^verbatim>\<open>engine/shared/constants.py\<close> (SourceSystem), \<^verbatim>\<open>source_registry.py\<close>,
    \<^verbatim>\<open>tenant_status.py\<close>, \<^verbatim>\<open>engine/ingest/connectedness.py\<close>.
  \<^item> \<open>Queue\<close>, \<open>QueueProperties\<close>: every statement on \<^verbatim>\<open>ingestion_queue\<close>. The locales
    \<open>queue_writer\<close> (a writer keeps the ids and the session rows well-formed) and \<open>quiet_writer\<close>
    (it also leaves the content of done rows alone) are interpreted for each statement.
  \<^item> \<open>Suppression\<close>: \<^verbatim>\<open>session_suppression.py\<close>, \<^verbatim>\<open>legal_hold.py\<close> and the store as its callers see it.
  \<^item> \<open>Signals\<close>: \<^verbatim>\<open>session_signals.py\<close>, the end test in Python and in SQL.
  \<^item> \<open>Receipts\<close>, \<open>ReceiptProperties\<close>: the capture door, protocols 1 to 3.
  \<^item> \<open>Completer\<close>, \<open>CompleterProperties\<close>: the idle-session sweep.
  \<^item> \<open>Worker\<close>, \<open>WorkerProperties\<close>: the passes of a worker and the step relation
    \<open>drain_step\<close> over everything that touches the queue. Any run keeps done rows fully read, the worker's own
    control flow refines the relation, and a drain comes to rest.
  \<^item> \<open>Polling\<close>, \<open>PollingProperties\<close>: scheduler, cursors, sink. The locale \<open>cursor_sink\<close> is
    what the scheduler needs of a sink; both sinks of the code are interpretations.
  \<^item> \<open>Deletion\<close>, \<open>DeletionProperties\<close>, \<open>DeletionRoutes\<close>,
    \<open>DeletionRouteProperties\<close>, \<open>DeletionDoors\<close>: one erasure, the requests, and the doors that must
    refuse a deleted session (locale \<open>refusing_writer\<close>, interpreted for both doors).
  \<^item> \<open>ByteLRU\<close>, \<open>Trajectory\<close>, \<open>TrajectoryProperties\<close>: the cache (locale
    \<open>cache\<close>, interpreted by the LRU) and the paged trajectories that use it.
  \<^item> \<open>Chunks\<close>, \<open>ChunkProperties\<close>: \<^verbatim>\<open>engine/ingest/chunker.py\<close>,
    \<^verbatim>\<open>engine/shared/chunk_reconstruction.py\<close>.
  \<^item> \<open>GraphTables\<close>, \<open>Graph\<close>, \<open>GraphProperties\<close>, \<open>GraphParking\<close>: the graph writer
    (\<^verbatim>\<open>graph_writer.py\<close>, \<^verbatim>\<open>alias_sql.py\<close>): aliases, node and edge upserts, degrees, parked edges. The locale
    \<open>graph_op\<close> (an operation keeps the graph tables well formed) is interpreted for writes, drains, sweeps and
    edge deletion; nothing an upsert is given is lost, it is written or parked.
  \<^item> \<open>PostWrite\<close>: \<^verbatim>\<open>post_write/worker.py\<close>, claims, deferrals, and that no waiting edge is left without a queued
    node.
  \<^item> \<open>Clusters\<close>, \<open>ClusterProperties\<close>, \<open>ClusterUndo\<close>: the merge and unmerge transactions. A
    merge is the quotient of the graph by the aliases, any history keeps aliases without nodes, an unmerge undoes a merge.
  \<^item> \<open>Purge\<close>, \<open>PurgeProperties\<close>: the gate, the cascade, the sweep of the store, verification, runs and
    routes. The locale \<open>cascade_step\<close> is the contract of one DELETE of the cascade and has an interpretation for each of
    the eleven.
  \<^item> \<open>Documents\<close>: the persistence half of the normalizer: admission of ordered writes, version rows with their
    retry loop, redaction, the chunk plan and its application, bindings, single and batched passes, and reading back.
    \<open>DocumentProperties\<close>: racing writers (locale \<open>version_writer\<close>, interpreted for the upsert and for the
    retirement of children). \<open>ChunkVersions\<close>: what the version join serves. \<open>DocumentOrder\<close>: order of
    events, isolation of failures, well-formed tables. \<open>DocumentRoundtrip\<close>: a stored body reads back.

  \<^bold>\<open>Bounds and loops.\<close> The loops of the source are structural recursions or functions with a measure: the
  paged scans (\<open>sweep_tenant\<close>, \<open>unindexed_scan\<close>) shrink the set of rows behind their cursor, the
  eviction loop shrinks the cache. Loops the source bounds keep its bounds: alias chains of eight hops, drains of 500
  rows, five verification rounds of a purge, five attempts of an upsert; where a bound could bite, a theorem says that it
  is not reached or what happens when it is. Version numbers are SQL integers: their maximum marks the open end of a
  chunk's range, and a version past it is an error of the model. The two loops over the prefix table (\<open>fall_back\<close>,
  \<open>collect_borders\<close>) are \<^theory_text>\<open>partial_function (option)\<close> and proved to return. The
  liveness theorems name the number of ticks that is enough. No theorem about a result assumes that a loop ends.

  \<^bold>\<open>Not modelled.\<close> What a payload means (the handlers of each source), retrieval by language models and its
  rankings, embeddings, the pattern tables of the credential scanner, the rest of GitHub control, backfills, the code graph
  extractors, community detection, suggestions of merges, probe events, media, usage counters and the HTTP layer: they are calls
  to outside services, text processing by long tables of patterns, or glue. Where modelled code calls them, they are
  arguments. Python floats that only feed logs and metrics are left out, as are logs.
\<close>

end
